(* ===== verification/Nfsd_Prelude.thy ===== *)
theory Nfsd_Prelude
  imports Main "HOL-Library.Word"
begin

text \<open>
  Shared vocabulary of the development: the fixed-width integer types of
  \<^verbatim>\<open>src/src/types.h\<close>, big-endian words as the sources assemble them with shifts,
  byte buffers with explicit copy and read operations, C strings as byte lists,
  and the list and word facts that the component proofs use.
\<close>

unbundle bit_operations_syntax

type_synonym u8 = "8 word"
type_synonym u16 = "16 word"
type_synonym u32 = "32 word"
type_synonym u64 = "64 word"
type_synonym bytes = "u8 list"

named_theorems buf_simps \<open>facts about byte buffers\<close>

section \<open>Big-endian words\<close>

text \<open>
  The four-byte assembly \<^verbatim>\<open>(p[0] << 24) | (p[1] << 16) | (p[2] << 8) | p[3]\<close> and its
  inverse, which xdr.c, rpc.c and fhandle.c all spell out.
\<close>

definition be32_word :: "u8 \<Rightarrow> u8 \<Rightarrow> u8 \<Rightarrow> u8 \<Rightarrow> u32" where
  "be32_word a b c d =
     push_bit 24 (ucast a) OR push_bit 16 (ucast b) OR push_bit 8 (ucast c) OR ucast d"

definition be32_bytes :: "u32 \<Rightarrow> bytes" where
  "be32_bytes v =
     [ucast (drop_bit 24 v), ucast (drop_bit 16 v), ucast (drop_bit 8 v), ucast v]"

definition be64_bytes :: "u64 \<Rightarrow> bytes" where
  "be64_bytes v = be32_bytes (ucast (drop_bit 32 v)) @ be32_bytes (ucast v)"

lemma length_be32_bytes [simp]: "length (be32_bytes v) = 4"
  by (simp add: be32_bytes_def)

lemma length_be64_bytes [simp]: "length (be64_bytes v) = 8"
  by (simp add: be64_bytes_def)

lemma not_bit_u8 [simp]: "8 \<le> n \<Longrightarrow> \<not> bit (a :: u8) n"
  by (auto dest: bit_imp_le_length)

lemma not_bit_u32 [simp]: "32 \<le> n \<Longrightarrow> \<not> bit (a :: u32) n"
  by (auto dest: bit_imp_le_length)

lemma be32_word_of_bytes [simp]:
  "be32_word (ucast (drop_bit 24 v)) (ucast (drop_bit 16 v)) (ucast (drop_bit 8 v)) (ucast v) = v"
proof (rule bit_word_eqI)
  fix n assume "n < LENGTH(32)"
  then have "n < 32" by simp
  then consider "n < 8" | k where "n = 8 + k" "k < 8" | k where "n = 16 + k" "k < 8"
    | k where "n = 24 + k" "k < 8"
    by atomize_elim presburger
  then show "bit (be32_word (ucast (drop_bit 24 v)) (ucast (drop_bit 16 v))
      (ucast (drop_bit 8 v)) (ucast v)) n = bit v n"
    by cases (auto simp: be32_word_def bit_simps)
qed

lemma be32_bytes_of_word [simp]: "be32_bytes (be32_word a b c d) = [a, b, c, d]"
proof -
  have "ucast (drop_bit 24 (be32_word a b c d)) = a"
    unfolding be32_word_def by (rule bit_word_eqI) (auto simp: bit_simps)
  moreover have "ucast (drop_bit 16 (be32_word a b c d)) = b"
    unfolding be32_word_def by (rule bit_word_eqI) (auto simp: bit_simps)
  moreover have "ucast (drop_bit 8 (be32_word a b c d)) = c"
    unfolding be32_word_def by (rule bit_word_eqI) (auto simp: bit_simps)
  moreover have "ucast (be32_word a b c d) = d"
    unfolding be32_word_def by (rule bit_word_eqI) (auto simp: bit_simps)
  ultimately show ?thesis by (simp add: be32_bytes_def)
qed

lemma be32_word_nth [simp]:
  "be32_word (be32_bytes v ! 0) (be32_bytes v ! 1) (be32_bytes v ! 2) (be32_bytes v ! 3) = v"
proof -
  have "be32_bytes v ! 2 = ucast (drop_bit 8 v)" "be32_bytes v ! 3 = ucast v"
    by (simp_all add: be32_bytes_def numeral_eq_Suc)
  then show ?thesis by (simp add: be32_bytes_def)
qed

lemma be32_bytes_inject [simp]: "be32_bytes v = be32_bytes w \<longleftrightarrow> v = w"
  by (metis be32_word_nth)

lemma split_u64 [simp]:
  "push_bit 32 (ucast (ucast (drop_bit 32 (v :: u64)) :: u32)) OR ucast (ucast v :: u32) = v"
proof (rule bit_word_eqI)
  fix n assume "n < LENGTH(64)"
  then have "n < 64" by simp
  then consider "n < 32" | k where "n = 32 + k" "k < 32"
    by atomize_elim presburger
  then show "bit (push_bit 32 (ucast (ucast (drop_bit 32 v) :: u32)) OR
      ucast (ucast v :: u32) :: u64) n = bit v n"
    by cases (auto simp: bit_simps)
qed

section \<open>Unsigned arithmetic without wrap-around\<close>

lemma unat_add_u32: "unat x + unat y < 2 ^ 32 \<Longrightarrow> unat (x + y :: u32) = unat x + unat y"
  using unat_add_lem [of x y] by simp

lemma unat_sub_u32: "unat y \<le> unat x \<Longrightarrow> unat (x - y :: u32) = unat x - unat y"
  by (simp add: unat_sub word_le_nat_alt)

lemma and3_mod: "(n :: u32) AND 3 = n mod 4"
  using take_bit_eq_mask [of 2 n] take_bit_eq_mod [of 2 n] by (simp add: mask_eq_exp_minus_1)

lemma unat_and3: "unat ((n :: u32) AND 3) = unat n mod 4"
  by (simp add: and3_mod unat_mod_distrib)

lemma and_not3: "(n :: u32) AND NOT 3 = n - (n AND 3)"
proof -
  have "NOT n AND (n AND 3) = 0"
    by (simp add: and.assoc [symmetric])
  then have "n - (n AND 3) = n AND NOT (n AND 3)"
    by (rule disjunctive_diff_eq_and_not)
  also have "\<dots> = n AND NOT 3"
    by (simp add: bit_eq_iff bit_simps) blast
  finally show ?thesis by simp
qed

lemma unat_and_not3: "unat ((n :: u32) AND NOT 3) = unat n - unat n mod 4"
  unfolding and_not3 by (simp add: unat_sub_u32 unat_and3)

lemma round_up_4: "(m :: nat) + 3 - (m + 3) mod 4 = m + (4 - m mod 4) mod 4"
proof -
  define q r where "q = m div 4" and "r = m mod 4"
  have m: "m = 4 * q + r" and "r < 4" by (simp_all add: q_def r_def)
  then consider "r = 0" | "r = 1" | "r = 2" | "r = 3" by linarith
  then show ?thesis
    unfolding m by cases (simp_all add: mod_mult_self4 add.assoc del: add_2_eq_Suc' add_2_eq_Suc)
qed

section \<open>Byte buffers\<close>

text \<open>
  A C buffer is the list of its bytes. A copy into the buffer replaces a run of bytes; a
  copy that would not fit changes nothing here, and the models record it separately.
\<close>

definition byte_at :: "bytes \<Rightarrow> nat \<Rightarrow> u8" where
  "byte_at b i = (if i < length b then b ! i else 0)"

definition mem_slice :: "bytes \<Rightarrow> nat \<Rightarrow> nat \<Rightarrow> bytes" where
  "mem_slice b off n = take n (drop off b)"

definition mem_store :: "bytes \<Rightarrow> nat \<Rightarrow> bytes \<Rightarrow> bytes" where
  "mem_store b off src =
     (if off + length src \<le> length b
      then take off b @ src @ drop (off + length src) b else b)"

lemma length_mem_store [simp]: "length (mem_store b off src) = length b"
  by (auto simp: mem_store_def)

lemma mem_store_Nil [simp]: "mem_store b off [] = b"
  by (auto simp: mem_store_def)

lemma length_mem_slice [simp]: "length (mem_slice b off n) = min n (length b - off)"
  by (simp add: mem_slice_def)

lemma mem_slice_0 [simp]: "mem_slice b off 0 = []"
  by (simp add: mem_slice_def)

lemma nth_mem_store:
  assumes "off + length src \<le> length b"
  shows "i < length b \<Longrightarrow>
    mem_store b off src ! i = (if off \<le> i \<and> i < off + length src then src ! (i - off) else b ! i)"
  using assms by (auto simp: mem_store_def nth_append min_def)

lemma byte_at_mem_store:
  assumes "off + length src \<le> length b"
  shows "byte_at (mem_store b off src) i =
    (if off \<le> i \<and> i < off + length src then src ! (i - off) else byte_at b i)"
  using assms by (auto simp: byte_at_def nth_mem_store)

lemma mem_slice_store_same [buf_simps]:
  "off + length src \<le> length b \<Longrightarrow> mem_slice (mem_store b off src) off (length src) = src"
  by (simp add: mem_slice_def mem_store_def)

lemma mem_slice_store_before [buf_simps]:
  assumes "lo + n \<le> off"
  shows "mem_slice (mem_store b off src) lo n = mem_slice b lo n"
proof -
  have "lo \<le> off" "n \<le> off - lo" using assms by auto
  then show ?thesis by (auto simp: mem_slice_def mem_store_def min_def take_drop)
qed

lemma mem_store_append:
  assumes "off + length s1 + length s2 \<le> length b"
  shows "mem_store (mem_store b off s1) (off + length s1) s2 = mem_store b off (s1 @ s2)"
  using assms by (simp add: mem_store_def ac_simps)

lemma mem_slice_append:
  "mem_slice b off (m + n) = mem_slice b off m @ mem_slice b (off + m) n"
  by (simp add: mem_slice_def take_add add.commute)

lemma mem_slice_4:
  assumes "off + 4 \<le> length b"
  shows "mem_slice b off 4 =
    [byte_at b off, byte_at b (off + 1), byte_at b (off + 2), byte_at b (off + 3)]"
  using assms
  by (intro nth_equalityI) (auto simp: mem_slice_def byte_at_def less_Suc_eq numeral_eq_Suc)

section \<open>C strings\<close>

text \<open>
  A NUL-terminated string is the list of its bytes before the terminator. \<open>cstr\<close> reads
  the string held in a buffer; \<open>strncpyz d n s\<close> is the idiom
  \<^verbatim>\<open>strncpy(d, s, n - 1); d[n - 1] = 0\<close>.
\<close>

definition cstr :: "bytes \<Rightarrow> bytes" where
  "cstr b = takeWhile (\<lambda>c. c \<noteq> 0) b"

definition strncpyz :: "nat \<Rightarrow> bytes \<Rightarrow> bytes" where
  "strncpyz n s = take (n - 1) s"

lemma length_cstr_le [simp]: "length (cstr b) \<le> length b"
  by (simp add: cstr_def length_takeWhile_le)

lemma cstr_no_nul [simp]: "0 \<notin> set (cstr b)"
  by (auto simp: cstr_def dest: set_takeWhileD)

lemma cstr_id: "0 \<notin> set b \<Longrightarrow> cstr b = b"
  by (auto simp: cstr_def takeWhile_eq_all_conv)

lemma cstr_append_nul [simp]: "0 \<notin> set s \<Longrightarrow> cstr (s @ 0 # t) = s"
  by (subst cstr_def, subst takeWhile_append2) auto

end
