(* ===== verification/Xdr.thy ===== *)
theory Xdr
  imports Nfsd_Prelude
begin

text \<open>
  The XDR encoder and decoder of \<^verbatim>\<open>src/src/xdr.c\<close>. An \<^verbatim>\<open>xdr_t\<close> is a buffer, a
  capacity, a position and a latched error flag; every operation of the file is a
  definition over it, with the bounds test in 32-bit arithmetic as the code writes it.
  The ghost field \<open>xoob\<close> records an access outside the buffer (or outside the
  destination of a copy), which in C is undefined behaviour. Destination buffers are
  passed in and returned, so what a failed read leaves in them is visible.
\<close>

section \<open>State\<close>

record xdr_t =
  xbase :: bytes
  xcap :: u32
  xpos :: u32
  xerr :: bool
  xoob :: bool

definition BUF_SIZE :: nat where "BUF_SIZE = 128 * 1024"

definition xdr_init_read :: "bytes \<Rightarrow> u32 \<Rightarrow> xdr_t" where
  "xdr_init_read buf len = \<lparr>xbase = buf, xcap = len, xpos = 0, xerr = False, xoob = False\<rparr>"

definition xdr_init_write :: "bytes \<Rightarrow> u32 \<Rightarrow> xdr_t" where
  "xdr_init_write buf cap = \<lparr>xbase = buf, xcap = cap, xpos = 0, xerr = False, xoob = False\<rparr>"

definition xdr_touch :: "nat \<Rightarrow> xdr_t \<Rightarrow> xdr_t" where
  "xdr_touch n x = x\<lparr>xoob := (xoob x \<or> length (xbase x) < unat (xpos x) + n)\<rparr>"

section \<open>Decoding\<close>

definition xdr_read_uint32 :: "xdr_t \<Rightarrow> u32 \<times> xdr_t" where
  "xdr_read_uint32 x =
     (if xerr x then (0, x)
      else if xcap x < xpos x + 4 then (0, x\<lparr>xerr := True\<rparr>)
      else let p = unat (xpos x) in
        (be32_word (byte_at (xbase x) p) (byte_at (xbase x) (p + 1))
                   (byte_at (xbase x) (p + 2)) (byte_at (xbase x) (p + 3)),
         (xdr_touch 4 x)\<lparr>xpos := xpos x + 4\<rparr>))"

definition xdr_read_uint64 :: "xdr_t \<Rightarrow> u64 \<times> xdr_t" where
  "xdr_read_uint64 x =
     (let (hi, x1) = xdr_read_uint32 x;
          (lo, x2) = xdr_read_uint32 x1
      in (push_bit 32 (ucast hi) OR ucast lo, x2))"

definition xdr_read_raw :: "xdr_t \<Rightarrow> bytes \<Rightarrow> u32 \<Rightarrow> bytes \<times> xdr_t" where
  "xdr_read_raw x dst len =
     (if xerr x then (dst, x)
      else if xcap x < xpos x + len then (dst, x\<lparr>xerr := True\<rparr>)
      else let x1 = xdr_touch (unat len) x;
               x2 = x1\<lparr>xoob := (xoob x1 \<or> length dst < unat len)\<rparr>
        in (mem_store dst 0 (mem_slice (xbase x) (unat (xpos x)) (unat len)),
            x2\<lparr>xpos := xpos x + len\<rparr>))"

definition xdr_skip :: "xdr_t \<Rightarrow> u32 \<Rightarrow> xdr_t" where
  "xdr_skip x n =
     (if xerr x then x
      else if xcap x < xpos x + n then x\<lparr>xerr := True\<rparr>
      else x\<lparr>xpos := xpos x + n\<rparr>)"

definition xdr_pad :: "u32 \<Rightarrow> u32" where
  "xdr_pad len = (4 - (len AND 3)) AND 3"

definition xdr_round4 :: "u32 \<Rightarrow> u32" where
  "xdr_round4 n = (n + 3) AND NOT 3"

text \<open>The result is the destination buffer and \<^verbatim>\<open>*dstlen\<close>, both as the call leaves them.\<close>

definition xdr_read_opaque :: "xdr_t \<Rightarrow> bytes \<Rightarrow> u32 \<Rightarrow> u32 \<Rightarrow> (bytes \<times> u32) \<times> xdr_t" where
  "xdr_read_opaque x dst dstlen maxlen =
     (let (len, x1) = xdr_read_uint32 x in
      if xerr x1 then ((dst, dstlen), x1)
      else if maxlen < len then ((dst, dstlen), x1\<lparr>xerr := True\<rparr>)
      else let (dst1, x2) = xdr_read_raw x1 dst len;
               pad = xdr_pad len;
               x3 = (if 0 < pad then xdr_skip x2 pad else x2)
        in ((dst1, len), x3))"

text \<open>The result is the return value and the destination buffer.\<close>

definition xdr_read_string :: "xdr_t \<Rightarrow> bytes \<Rightarrow> u32 \<Rightarrow> (int \<times> bytes) \<times> xdr_t" where
  "xdr_read_string x dst maxlen =
     (let (len, x1) = xdr_read_uint32 x in
      if xerr x1 then ((-1, dst), x1)
      else if maxlen \<le> len then
        ((-1, dst), (xdr_skip x1 (xdr_round4 len))\<lparr>xerr := True\<rparr>)
      else let (dst1, x2) = xdr_read_raw x1 dst len;
               dst2 = mem_store dst1 (unat len) [0];
               x3 = x2\<lparr>xoob := (xoob x2 \<or> length dst1 \<le> unat len)\<rparr>;
               pad = xdr_pad len;
               x4 = (if 0 < pad then xdr_skip x3 pad else x3)
        in ((int (unat len), dst2), x4))"

section \<open>Encoding\<close>

definition xdr_write_raw :: "bytes \<Rightarrow> u32 \<Rightarrow> xdr_t \<Rightarrow> xdr_t" where
  "xdr_write_raw src len x =
     (if xerr x then x
      else if xcap x < xpos x + len then x\<lparr>xerr := True\<rparr>
      else let x1 = xdr_touch (unat len) x;
               x2 = x1\<lparr>xoob := (xoob x1 \<or> length src < unat len)\<rparr>
        in x2\<lparr>xbase := mem_store (xbase x) (unat (xpos x)) (take (unat len) src),
              xpos := xpos x + len\<rparr>)"

definition xdr_write_uint32 :: "u32 \<Rightarrow> xdr_t \<Rightarrow> xdr_t" where
  "xdr_write_uint32 v x =
     (if xerr x then x
      else if xcap x < xpos x + 4 then x\<lparr>xerr := True\<rparr>
      else (xdr_touch 4 x)\<lparr>xbase := mem_store (xbase x) (unat (xpos x)) (be32_bytes v),
                           xpos := xpos x + 4\<rparr>)"

definition xdr_write_uint64 :: "u64 \<Rightarrow> xdr_t \<Rightarrow> xdr_t" where
  "xdr_write_uint64 v x =
     xdr_write_uint32 (ucast (v AND 0xFFFFFFFF)) (xdr_write_uint32 (ucast (drop_bit 32 v)) x)"

definition xdr_write_opaque :: "bytes \<Rightarrow> u32 \<Rightarrow> xdr_t \<Rightarrow> xdr_t" where
  "xdr_write_opaque src len x =
     (let pad = xdr_pad len;
          x1 = xdr_write_uint32 len x;
          x2 = xdr_write_raw src len x1
      in if 0 < pad then xdr_write_raw [0, 0, 0, 0] pad x2 else x2)"

definition xdr_write_string :: "bytes \<Rightarrow> u32 \<Rightarrow> xdr_t \<Rightarrow> xdr_t" where
  "xdr_write_string s len x = xdr_write_opaque s len x"

definition xdr_get_pos :: "xdr_t \<Rightarrow> u32" where
  "xdr_get_pos x = xpos x"

definition xdr_set_pos :: "xdr_t \<Rightarrow> u32 \<Rightarrow> xdr_t" where
  "xdr_set_pos x p = (if p \<le> xcap x then x\<lparr>xpos := p\<rparr> else x\<lparr>xerr := True\<rparr>)"

section \<open>Well-formed buffers\<close>

text \<open>
  The buffers of nfsd.c have \<^verbatim>\<open>BUF_SIZE\<close> bytes; the position never passes the capacity
  by more than three bytes (the realignment of \<^verbatim>\<open>rpc_parse_call\<close> can leave it there),
  and no access has gone outside the buffer.
\<close>

definition xdr_wf :: "xdr_t \<Rightarrow> bool" where
  "xdr_wf x \<longleftrightarrow>
     unat (xcap x) \<le> length (xbase x) \<and> unat (xcap x) \<le> BUF_SIZE \<and>
     unat (xpos x) \<le> unat (xcap x) + 3 \<and> \<not> xoob x"

text \<open>What an encoder may change of a buffer: bytes from the position on, position, error.\<close>

definition xdr_keeps :: "xdr_t \<Rightarrow> xdr_t \<Rightarrow> bool" where
  "xdr_keeps x y \<longleftrightarrow>
     xcap y = xcap x \<and> length (xbase y) = length (xbase x) \<and> unat (xpos x) \<le> unat (xpos y) \<and>
     (unat (xpos x) \<le> unat (xcap x) \<longrightarrow> unat (xpos y) \<le> unat (xcap x)) \<and>
     (\<forall>i < unat (xpos x). byte_at (xbase y) i = byte_at (xbase x) i)"

definition xdr_append :: "bytes \<Rightarrow> xdr_t \<Rightarrow> xdr_t" where
  "xdr_append enc x =
     x\<lparr>xbase := mem_store (xbase x) (unat (xpos x)) enc, xpos := xpos x + of_nat (length enc)\<rparr>"

text \<open>The bytes still to be decoded.\<close>

definition xdr_view :: "xdr_t \<Rightarrow> bytes" where
  "xdr_view x = mem_slice (xbase x) (unat (xpos x)) (unat (xcap x) - unat (xpos x))"

lemma xdr_keeps_refl [simp]: "xdr_keeps x x"
  by (simp add: xdr_keeps_def)

lemma xdr_keeps_trans: "xdr_keeps x y \<Longrightarrow> xdr_keeps y z \<Longrightarrow> xdr_keeps x z"
  by (auto simp: xdr_keeps_def)

lemma xdr_no_wrap:
  assumes "xdr_wf x" and "unat n \<le> 2 ^ 31"
  shows "unat (xpos x + n) = unat (xpos x) + unat n"
    and "xcap x < xpos x + n \<longleftrightarrow> unat (xcap x) < unat (xpos x) + unat n"
  using assms by (auto simp: xdr_wf_def BUF_SIZE_def unat_add_u32 word_less_nat_alt)

lemma xdr_no_wrap_4:
  assumes "xdr_wf x"
  shows "unat (xpos x + 4) = unat (xpos x) + 4"
    and "xcap x < xpos x + 4 \<longleftrightarrow> unat (xcap x) < unat (xpos x) + 4"
  using xdr_no_wrap [OF assms, of 4] by simp_all

lemma length_xdr_view:
  "xdr_wf x \<Longrightarrow> length (xdr_view x) = unat (xcap x) - unat (xpos x)"
  by (auto simp: xdr_view_def xdr_wf_def)

lemma unat_xdr_pad: "unat (xdr_pad len) = (4 - unat len mod 4) mod 4"
proof -
  have "unat (len AND 3) < 4" by (simp add: unat_and3)
  then have "unat (4 - (len AND 3)) = 4 - unat len mod 4"
    by (subst unat_sub_u32) (simp_all add: unat_and3)
  then show ?thesis by (simp add: xdr_pad_def unat_and3)
qed

lemma unat_xdr_pad_less: "unat (xdr_pad len) < 4"
  by (simp add: unat_xdr_pad)

lemma xdr_pad_pos_iff: "0 < xdr_pad len \<longleftrightarrow> unat (xdr_pad len) \<noteq> 0"
  by (simp add: unat_gt_0 word_gt_0)

lemma unat_xdr_round4:
  assumes "unat n + 3 < 2 ^ 32"
  shows "unat (xdr_round4 n) = unat n + unat (xdr_pad n)"
proof -
  have "unat (n + 3) = unat n + 3" using assms by (simp add: unat_add_u32)
  then have "unat (xdr_round4 n) = unat n + 3 - (unat n + 3) mod 4"
    unfolding xdr_round4_def unat_and_not3 by simp
  then show ?thesis by (simp only: unat_xdr_pad round_up_4)
qed

section \<open>The contract of an encoder\<close>

text \<open>
  An encoder does nothing once the error is latched; where its encoding fits it appends
  exactly these bytes; where it does not fit it latches the error, stays inside the buffer
  and leaves every byte before the old position alone.
\<close>

locale xdr_emitter =
  fixes w :: "xdr_t \<Rightarrow> xdr_t" and enc :: bytes
  assumes latched: "xerr x \<Longrightarrow> w x = x"
    and emits: "xdr_wf x \<Longrightarrow> \<not> xerr x \<Longrightarrow> unat (xpos x) + length enc \<le> unat (xcap x) \<Longrightarrow>
      w x = xdr_append enc x"
    and overflows: "xdr_wf x \<Longrightarrow> \<not> xerr x \<Longrightarrow> unat (xcap x) < unat (xpos x) + length enc \<Longrightarrow>
      xerr (w x) \<and> xdr_wf (w x) \<and> xdr_keeps x (w x)"

lemma xdr_append_wf:
  assumes "xdr_wf x" and "unat (xpos x) + length enc \<le> unat (xcap x)"
  shows "xdr_wf (xdr_append enc x)" and "xdr_keeps x (xdr_append enc x)"
    and "unat (xpos (xdr_append enc x)) = unat (xpos x) + length enc"
    and "xerr (xdr_append enc x) = xerr x" and "xcap (xdr_append enc x) = xcap x"
proof -
  have "length enc < 2 ^ 32" "unat (xpos x) + length enc < 2 ^ 32"
    using assms by (auto simp: xdr_wf_def BUF_SIZE_def)
  then show p: "unat (xpos (xdr_append enc x)) = unat (xpos x) + length enc"
    by (simp add: xdr_append_def unat_add_u32 unat_of_nat)
  show "xdr_wf (xdr_append enc x)"
    using assms p by (auto simp: xdr_wf_def xdr_append_def)
  show "xdr_keeps x (xdr_append enc x)"
    using assms p by (auto simp: xdr_keeps_def xdr_append_def xdr_wf_def byte_at_mem_store)
  show "xerr (xdr_append enc x) = xerr x" "xcap (xdr_append enc x) = xcap x"
    by (simp_all add: xdr_append_def)
qed

lemma xdr_append_append:
  assumes "xdr_wf x" and "unat (xpos x) + length e1 + length e2 \<le> unat (xcap x)"
  shows "xdr_append e2 (xdr_append e1 x) = xdr_append (e1 @ e2) x"
proof -
  have fits: "unat (xpos x) + length e1 \<le> unat (xcap x)" using assms by simp
  have "unat (xpos x + of_nat (length e1)) = unat (xpos x) + length e1"
    using xdr_append_wf(3) [OF assms(1) fits] by (simp add: xdr_append_def)
  moreover have "unat (xpos x) + length e1 + length e2 \<le> length (xbase x)"
    using assms by (auto simp: xdr_wf_def)
  ultimately show ?thesis
    by (simp add: xdr_append_def mem_store_append add.assoc)
qed

context xdr_emitter
begin

lemma emitter_wf: "xdr_wf x \<Longrightarrow> xdr_wf (w x)"
  using latched [of x] emits [of x] overflows [of x] xdr_append_wf(1) [of x enc]
  by (metis linorder_not_le)

lemma emitter_keeps: "xdr_wf x \<Longrightarrow> xdr_keeps x (w x)"
  using latched [of x] emits [of x] overflows [of x] xdr_append_wf(2) [of x enc] xdr_keeps_refl
  by (metis linorder_not_le)

lemma emitter_error_iff:
  "xdr_wf x \<Longrightarrow> xerr (w x) \<longleftrightarrow> xerr x \<or> unat (xcap x) < unat (xpos x) + length enc"
  using latched [of x] emits [of x] overflows [of x] xdr_append_wf(4) [of x enc]
  by (metis linorder_not_le)

lemma emitter_output:
  assumes "xdr_wf x" and "\<not> xerr (w x)"
  shows "mem_slice (xbase (w x)) (unat (xpos x)) (length enc) = enc"
    and "unat (xpos (w x)) = unat (xpos x) + length enc"
proof -
  have fits: "\<not> xerr x" "unat (xpos x) + length enc \<le> unat (xcap x)"
    using assms emitter_error_iff [of x] by auto
  then have "w x = xdr_append enc x" using assms(1) by (simp add: emits)
  moreover have "unat (xpos x) + length enc \<le> length (xbase x)"
    using fits assms(1) by (auto simp: xdr_wf_def)
  ultimately show "mem_slice (xbase (w x)) (unat (xpos x)) (length enc) = enc"
    by (simp add: xdr_append_def mem_slice_store_same)
  show "unat (xpos (w x)) = unat (xpos x) + length enc"
    using \<open>w x = xdr_append enc x\<close> xdr_append_wf(3) [OF assms(1) fits(2)] by simp
qed

end

lemma xdr_emitter_comp:
  assumes "xdr_emitter w1 e1" and "xdr_emitter w2 e2"
  shows "xdr_emitter (\<lambda>x. w2 (w1 x)) (e1 @ e2)"
proof
  fix x
  note w1 = assms(1) and w2 = assms(2)
  show "w2 (w1 x) = x" if "xerr x"
    using that by (simp add: xdr_emitter.latched [OF w1] xdr_emitter.latched [OF w2])
  assume wf: "xdr_wf x" and ok: "\<not> xerr x"
  show "w2 (w1 x) = xdr_append (e1 @ e2) x"
    if "unat (xpos x) + length (e1 @ e2) \<le> unat (xcap x)"
  proof -
    have fit1: "unat (xpos x) + length e1 \<le> unat (xcap x)" using that by simp
    have s1: "w1 x = xdr_append e1 x" using wf ok fit1 by (rule xdr_emitter.emits [OF w1])
    have "w2 (xdr_append e1 x) = xdr_append e2 (xdr_append e1 x)"
      using that ok xdr_append_wf [OF wf fit1] by (intro xdr_emitter.emits [OF w2]) simp_all
    with s1 show ?thesis using that by (simp add: xdr_append_append [OF wf])
  qed
  show "xerr (w2 (w1 x)) \<and> xdr_wf (w2 (w1 x)) \<and> xdr_keeps x (w2 (w1 x))"
    if "unat (xcap x) < unat (xpos x) + length (e1 @ e2)"
  proof -
    have wf1: "xdr_wf (w1 x)" and k1: "xdr_keeps x (w1 x)"
      using wf by (rule xdr_emitter.emitter_wf [OF w1], rule xdr_emitter.emitter_keeps [OF w1])
    have "xerr (w2 (w1 x))"
    proof (cases "xerr (w1 x)")
      case True
      then show ?thesis by (simp add: xdr_emitter.latched [OF w2])
    next
      case False
      then have "unat (xpos (w1 x)) = unat (xpos x) + length e1"
        by (rule xdr_emitter.emitter_output(2) [OF w1 wf])
      then show ?thesis
        using that k1 by (simp add: xdr_emitter.emitter_error_iff [OF w2 wf1] xdr_keeps_def)
    qed
    then show ?thesis
      using wf1 k1 xdr_emitter.emitter_wf [OF w2] xdr_emitter.emitter_keeps [OF w2]
        xdr_keeps_trans by blast
  qed
qed

section \<open>The encoders meet the contract\<close>

interpretation w_u32: xdr_emitter "xdr_write_uint32 v" "be32_bytes v" for v
proof
  fix x
  show "xerr x \<Longrightarrow> xdr_write_uint32 v x = x"
    by (simp add: xdr_write_uint32_def)
  assume wf: "xdr_wf x" and ok: "\<not> xerr x"
  note nw = xdr_no_wrap_4 [OF wf]
  show "xdr_write_uint32 v x = xdr_append (be32_bytes v) x"
    if "unat (xpos x) + length (be32_bytes v) \<le> unat (xcap x)"
    using that wf ok
    by (simp add: xdr_write_uint32_def nw xdr_touch_def xdr_append_def xdr_wf_def)
  show "xerr (xdr_write_uint32 v x) \<and> xdr_wf (xdr_write_uint32 v x) \<and>
      xdr_keeps x (xdr_write_uint32 v x)"
    if "unat (xcap x) < unat (xpos x) + length (be32_bytes v)"
    using that wf ok by (auto simp: xdr_write_uint32_def nw xdr_wf_def xdr_keeps_def)
qed

interpretation w_u64: xdr_emitter "xdr_write_uint64 v" "be64_bytes v" for v
proof -
  have m: "(0xFFFFFFFF :: u64) = mask 32" by (simp add: mask_eq_exp_minus_1)
  have "ucast (v AND mask 32) = (ucast v :: u32)"
    by (rule bit_word_eqI) (auto simp: bit_simps)
  then have "ucast (v AND 0xFFFFFFFF) = (ucast v :: u32)" by (simp only: m)
  then show "xdr_emitter (xdr_write_uint64 v) (be64_bytes v)"
    using xdr_emitter_comp [OF w_u32.xdr_emitter_axioms w_u32.xdr_emitter_axioms,
        of "ucast v" "ucast (drop_bit 32 v)"]
    by (simp add: xdr_write_uint64_def [abs_def] be64_bytes_def)
qed

lemma xdr_write_raw_emitter:
  assumes "unat len \<le> length src" and "unat len \<le> BUF_SIZE"
  shows "xdr_emitter (xdr_write_raw src len) (take (unat len) src)"
proof
  fix x
  show "xerr x \<Longrightarrow> xdr_write_raw src len x = x"
    by (simp add: xdr_write_raw_def)
  assume wf: "xdr_wf x" and ok: "\<not> xerr x"
  have "unat len \<le> 2 ^ 31" using assms(2) by (simp add: BUF_SIZE_def)
  note nw = xdr_no_wrap [OF wf this]
  show "xdr_write_raw src len x = xdr_append (take (unat len) src) x"
    if "unat (xpos x) + length (take (unat len) src) \<le> unat (xcap x)"
    using that wf ok assms
    by (simp add: xdr_write_raw_def nw xdr_touch_def xdr_append_def xdr_wf_def)
  show "xerr (xdr_write_raw src len x) \<and> xdr_wf (xdr_write_raw src len x) \<and>
      xdr_keeps x (xdr_write_raw src len x)"
    if "unat (xcap x) < unat (xpos x) + length (take (unat len) src)"
    using that wf ok assms by (auto simp: xdr_write_raw_def nw xdr_wf_def xdr_keeps_def)
qed

text \<open>The wire form of an opaque: length, data, zero padding to a multiple of four.\<close>

definition opaque_bytes :: "bytes \<Rightarrow> bytes" where
  "opaque_bytes d = be32_bytes (of_nat (length d)) @ d @ replicate ((4 - length d mod 4) mod 4) 0"

lemma length_opaque_bytes: "length (opaque_bytes d) mod 4 = 0"
proof -
  have "length (opaque_bytes d) = 4 + (length d + 3 - (length d + 3) mod 4)"
    by (simp add: opaque_bytes_def round_up_4)
  also have "\<dots> mod 4 = 0"
    by (simp add: minus_mod_eq_mult_div)
  finally show ?thesis .
qed

lemma xdr_write_opaque_emitter:
  assumes "unat len \<le> length src" and "unat len \<le> BUF_SIZE"
  shows "xdr_emitter (xdr_write_opaque src len) (opaque_bytes (take (unat len) src))"
proof -
  let ?d = "take (unat len) src"
  let ?w = "\<lambda>x. xdr_write_raw src len (xdr_write_uint32 len x)"
  have hd: "xdr_emitter ?w (be32_bytes len @ ?d)"
    by (rule xdr_emitter_comp [OF w_u32.xdr_emitter_axioms xdr_write_raw_emitter [OF assms]])
  have z: "take (unat (xdr_pad len)) [0, 0, 0, 0] = replicate (unat (xdr_pad len)) (0 :: u8)"
  proof -
    have "unat (xdr_pad len) < 4" by (rule unat_xdr_pad_less)
    then consider "unat (xdr_pad len) = 0" | "unat (xdr_pad len) = 1"
      | "unat (xdr_pad len) = 2" | "unat (xdr_pad len) = 3" by linarith
    then show ?thesis by cases (simp_all add: numeral_eq_Suc)
  qed
  have pad: "unat (xdr_pad len) \<le> length [0, 0, 0, 0 :: u8]" "unat (xdr_pad len) \<le> BUF_SIZE"
    using unat_xdr_pad_less [of len] by (simp_all add: BUF_SIZE_def)
  have tl: "xdr_emitter (xdr_write_raw [0, 0, 0, 0] (xdr_pad len)) (replicate (unat (xdr_pad len)) 0)"
    using xdr_write_raw_emitter [OF pad] by (simp only: z)
  have enc: "opaque_bytes ?d = (be32_bytes len @ ?d) @ replicate (unat (xdr_pad len)) 0"
    using assms(1) by (simp add: opaque_bytes_def min_absorb2 unat_xdr_pad)
  show ?thesis
  proof (cases "0 < xdr_pad len")
    case True
    then show ?thesis
      using xdr_emitter_comp [OF hd tl] by (simp add: enc xdr_write_opaque_def [abs_def])
  next
    case False
    then have "unat (xdr_pad len) = 0" by (simp add: xdr_pad_pos_iff)
    with False hd show ?thesis by (simp add: enc xdr_write_opaque_def [abs_def])
  qed
qed

section \<open>The contract of a decoder\<close>

definition xdr_advance :: "nat \<Rightarrow> xdr_t \<Rightarrow> xdr_t" where
  "xdr_advance n x = x\<lparr>xpos := xpos x + of_nat n\<rparr>"

text \<open>
  A decoder of \<open>enc\<close>, started where the unread bytes begin with \<open>enc\<close>, returns the value
  and consumes exactly these bytes.
\<close>

locale xdr_decoder =
  fixes r :: "xdr_t \<Rightarrow> 'a \<times> xdr_t" and enc :: bytes and v :: 'a
  assumes decodes: "xdr_wf x \<Longrightarrow> \<not> xerr x \<Longrightarrow> xdr_view x = enc @ rest \<Longrightarrow>
    r x = (v, xdr_advance (length enc) x)"

lemma xdr_advance_view:
  assumes wf: "xdr_wf x" and n: "n \<le> length (xdr_view x)"
  shows "unat (xpos (xdr_advance n x)) = unat (xpos x) + n"
    and "xdr_view (xdr_advance n x) = drop n (xdr_view x)" and "xdr_wf (xdr_advance n x)"
    and "xerr (xdr_advance n x) = xerr x"
proof -
  have le: "n = 0 \<or> unat (xpos x) + n \<le> unat (xcap x)" "unat (xcap x) \<le> BUF_SIZE"
    using n wf length_xdr_view [OF wf] by (auto simp: xdr_wf_def)
  then have "n < 2 ^ 32" "unat (xpos x) + n < 2 ^ 32"
    using wf by (auto simp: xdr_wf_def BUF_SIZE_def)
  then show p: "unat (xpos (xdr_advance n x)) = unat (xpos x) + n"
    by (simp add: xdr_advance_def unat_add_u32 unat_of_nat)
  then show "xdr_wf (xdr_advance n x)"
    using wf le by (auto simp: xdr_wf_def xdr_advance_def)
  show "xdr_view (xdr_advance n x) = drop n (xdr_view x)"
    using p by (simp add: xdr_view_def mem_slice_def drop_take xdr_advance_def add.commute)
  show "xerr (xdr_advance n x) = xerr x" by (simp add: xdr_advance_def)
qed

lemma xdr_view_fits:
  assumes "xdr_wf x" and "xdr_view x = enc @ rest" and "enc \<noteq> []"
  shows "unat (xpos x) + length enc \<le> unat (xcap x)"
    and "mem_slice (xbase x) (unat (xpos x)) (length enc) = enc"
proof -
  have "length enc + length rest = unat (xcap x) - unat (xpos x)"
    using assms(2) length_xdr_view [OF assms(1)] by simp
  then show fit: "unat (xpos x) + length enc \<le> unat (xcap x)" using assms(3) by (cases enc) auto
  have "take (length enc) (xdr_view x) = enc" using assms(2) by simp
  then show "mem_slice (xbase x) (unat (xpos x)) (length enc) = enc"
    using fit by (simp add: xdr_view_def mem_slice_def min_def split: if_splits)
qed

lemma xdr_decoder_bind:
  assumes "xdr_decoder r1 e1 v1" and "xdr_decoder r2 e2 v2"
  shows "xdr_decoder (\<lambda>x. let (a, x1) = r1 x; (b, x2) = r2 x1 in (f a b, x2)) (e1 @ e2) (f v1 v2)"
proof
  fix x rest assume wf: "xdr_wf x" and ok: "\<not> xerr x" and v: "xdr_view x = (e1 @ e2) @ rest"
  have r1: "r1 x = (v1, xdr_advance (length e1) x)"
    using wf ok v by (intro xdr_decoder.decodes [OF assms(1)]) simp_all
  have len: "length e1 \<le> length (xdr_view x)" using v by simp
  have "r2 (xdr_advance (length e1) x) =
      (v2, xdr_advance (length e2) (xdr_advance (length e1) x))"
    using xdr_advance_view [OF wf len] ok v by (intro xdr_decoder.decodes [OF assms(2)]) simp_all
  then show "(let (a, x1) = r1 x; (b, x2) = r2 x1 in (f a b, x2)) =
      (f v1 v2, xdr_advance (length (e1 @ e2)) x)"
    using r1 by (simp add: xdr_advance_def ac_simps)
qed

interpretation r_u32: xdr_decoder xdr_read_uint32 "be32_bytes v" v for v
proof
  fix x rest
  assume wf: "xdr_wf x" and ok: "\<not> xerr x" and v: "xdr_view x = be32_bytes v @ rest"
  have ne: "be32_bytes v \<noteq> []" by (simp add: be32_bytes_def)
  note f = xdr_view_fits [OF wf v ne]
  have len: "unat (xpos x) + 4 \<le> length (xbase x)" using f(1) wf by (simp add: xdr_wf_def)
  have "mem_slice (xbase x) (unat (xpos x)) 4 = be32_bytes v" using f(2) by simp
  then have "be32_word (byte_at (xbase x) (unat (xpos x))) (byte_at (xbase x) (unat (xpos x) + 1))
      (byte_at (xbase x) (unat (xpos x) + 2)) (byte_at (xbase x) (unat (xpos x) + 3)) = v"
    unfolding mem_slice_4 [OF len] be32_bytes_def by (simp del: One_nat_def)
  then show "xdr_read_uint32 x = (v, xdr_advance (length (be32_bytes v)) x)"
    using ok f(1) wf len xdr_no_wrap_4 [OF wf]
    by (simp add: xdr_read_uint32_def xdr_touch_def xdr_advance_def xdr_wf_def Let_def)
qed

interpretation r_u64: xdr_decoder xdr_read_uint64 "be64_bytes v" v for v
  using xdr_decoder_bind [OF r_u32.xdr_decoder_axioms r_u32.xdr_decoder_axioms,
      of "\<lambda>hi lo. push_bit 32 (ucast hi) OR ucast lo :: u64" "ucast (drop_bit 32 v)" "ucast v"]
  by (simp add: be64_bytes_def xdr_read_uint64_def [abs_def])

text \<open>Encode and decode with matching contracts, from the same position.\<close>

lemma xdr_roundtrip:
  assumes w: "xdr_emitter w enc" and r: "xdr_decoder r enc v"
    and wf: "xdr_wf x" and ok: "\<not> xerr (w x)" and p: "xpos x \<le> xcap x"
  shows "fst (r (xdr_set_pos (w x) (xpos x))) = v"
proof -
  have "\<not> xerr x" and fits: "unat (xpos x) + length enc \<le> unat (xcap x)"
    using xdr_emitter.emitter_error_iff [OF w wf] ok by auto
  let ?y = "xdr_set_pos (w x) (xpos x)"
  have wx: "w x = xdr_append enc x" using w wf \<open>\<not> xerr x\<close> fits by (simp add: xdr_emitter.emits)
  then have y: "?y = x\<lparr>xbase := mem_store (xbase x) (unat (xpos x)) enc\<rparr>"
    using p by (simp add: xdr_set_pos_def xdr_append_def)
  have len: "unat (xpos x) + length enc \<le> length (xbase x)"
    using fits wf by (simp add: xdr_wf_def)
  have "xdr_view ?y = enc @ mem_slice (xbase ?y) (unat (xpos x) + length enc)
      (unat (xcap x) - unat (xpos x) - length enc)"
    using mem_slice_append [of "xbase ?y" "unat (xpos x)" "length enc"
        "unat (xcap x) - unat (xpos x) - length enc"] fits len
    by (simp add: y xdr_view_def mem_slice_store_same)
  moreover have "xdr_wf ?y" "\<not> xerr ?y" using wf \<open>\<not> xerr x\<close> by (auto simp: y xdr_wf_def)
  ultimately show ?thesis using xdr_decoder.decodes [OF r, of ?y] by simp
qed

section \<open>Decoding keeps the buffer well-formed\<close>

text \<open>
  The weaker contract every decoder meets on any input: nothing happens after an error,
  well-formedness is kept, the buffer and its capacity are not changed.
\<close>

definition xdr_safe :: "(xdr_t \<Rightarrow> xdr_t) \<Rightarrow> bool" where
  "xdr_safe f \<longleftrightarrow> (\<forall>x. (xerr x \<longrightarrow> f x = x) \<and>
     (xdr_wf x \<longrightarrow> xdr_wf (f x) \<and> xbase (f x) = xbase x \<and> xcap (f x) = xcap x))"

lemma xdr_safeD:
  assumes "xdr_safe f"
  shows "xerr x \<Longrightarrow> f x = x" "xdr_wf x \<Longrightarrow> xdr_wf (f x)"
    "xdr_wf x \<Longrightarrow> xbase (f x) = xbase x" "xdr_wf x \<Longrightarrow> xcap (f x) = xcap x"
  using assms by (auto simp: xdr_safe_def)

lemma xdr_safe_comp: "xdr_safe f \<Longrightarrow> xdr_safe g \<Longrightarrow> xdr_safe (\<lambda>x. g (f x))"
  by (simp add: xdr_safe_def)

lemma xdr_safe_u32: "xdr_safe (\<lambda>x. snd (xdr_read_uint32 x))"
  unfolding xdr_safe_def
proof (intro allI conjI impI)
  fix x
  show "snd (xdr_read_uint32 x) = x" if "xerr x"
    using that by (simp add: xdr_read_uint32_def)
  assume wf: "xdr_wf x"
  show "xdr_wf (snd (xdr_read_uint32 x))"
    using wf xdr_no_wrap_4 [OF wf]
    by (auto simp: xdr_read_uint32_def Let_def xdr_touch_def xdr_wf_def)
qed (auto simp: xdr_read_uint32_def Let_def xdr_touch_def)

lemma xdr_safe_u64: "xdr_safe (\<lambda>x. snd (xdr_read_uint64 x))"
  using xdr_safe_comp [OF xdr_safe_u32 xdr_safe_u32]
  by (simp add: xdr_read_uint64_def Let_def split_def)

lemma xdr_safe_skip: "xdr_safe (\<lambda>x. xdr_skip x n)"
  unfolding xdr_safe_def
  by (auto simp: xdr_skip_def xdr_wf_def word_less_nat_alt)

lemma xdr_read_raw_wf:
  assumes "xdr_wf x" and "unat len \<le> length dst" and "unat len \<le> BUF_SIZE"
  shows "xdr_wf (snd (xdr_read_raw x dst len))"
    and "xbase (snd (xdr_read_raw x dst len)) = xbase x"
    and "xcap (snd (xdr_read_raw x dst len)) = xcap x"
    and "length (fst (xdr_read_raw x dst len)) = length dst"
proof -
  have "unat len \<le> 2 ^ 31" using assms(3) by (simp add: BUF_SIZE_def)
  note nw = xdr_no_wrap [OF assms(1) this]
  show "xdr_wf (snd (xdr_read_raw x dst len))"
    using assms by (auto simp: xdr_read_raw_def nw xdr_touch_def Let_def xdr_wf_def)
  show "xbase (snd (xdr_read_raw x dst len)) = xbase x"
    "xcap (snd (xdr_read_raw x dst len)) = xcap x"
    "length (fst (xdr_read_raw x dst len)) = length dst"
    by (auto simp: xdr_read_raw_def xdr_touch_def Let_def)
qed

lemma xdr_skip_wf [simp]:
  "xdr_wf x \<Longrightarrow> xdr_wf (xdr_skip x n)" "xbase (xdr_skip x n) = xbase x"
  "xcap (xdr_skip x n) = xcap x"
  using xdr_safeD [OF xdr_safe_skip] by (auto simp: xdr_skip_def)

lemma xdr_wf_error [simp]: "xdr_wf (x\<lparr>xerr := b\<rparr>) = xdr_wf x"
  by (simp add: xdr_wf_def)

lemma xdr_safe_opaque:
  assumes "unat maxlen \<le> length dst" and "unat maxlen \<le> BUF_SIZE"
  shows "xdr_safe (\<lambda>x. snd (xdr_read_opaque x dst dl maxlen))"
  unfolding xdr_safe_def
proof (intro allI conjI impI)
  fix x
  let ?l = "fst (xdr_read_uint32 x)" and ?x1 = "snd (xdr_read_uint32 x)"
  show "snd (xdr_read_opaque x dst dl maxlen) = x" if "xerr x"
    using that by (simp add: xdr_read_opaque_def xdr_read_uint32_def)
  assume wf: "xdr_wf x"
  have wf1: "xdr_wf ?x1" and b1: "xbase ?x1 = xbase x" "xcap ?x1 = xcap x"
    using xdr_safeD [OF xdr_safe_u32] wf by auto
  have raw: "\<not> maxlen < ?l \<Longrightarrow> unat ?l \<le> length dst \<and> unat ?l \<le> BUF_SIZE"
    using assms by (auto simp: word_less_nat_alt not_less)
  note r = xdr_read_raw_wf [OF wf1]
  show "xdr_wf (snd (xdr_read_opaque x dst dl maxlen))"
    using wf1 raw r(1) by (auto simp: xdr_read_opaque_def Let_def split_def)
  show "xbase (snd (xdr_read_opaque x dst dl maxlen)) = xbase x"
    using b1 raw r(2) by (auto simp: xdr_read_opaque_def Let_def split_def)
  show "xcap (snd (xdr_read_opaque x dst dl maxlen)) = xcap x"
    using b1 raw r(3) by (auto simp: xdr_read_opaque_def Let_def split_def)
qed

lemma xdr_safe_string:
  assumes "unat maxlen \<le> length dst" and "unat maxlen \<le> BUF_SIZE"
  shows "xdr_safe (\<lambda>x. snd (xdr_read_string x dst maxlen))"
  unfolding xdr_safe_def
proof (intro allI conjI impI)
  fix x
  let ?l = "fst (xdr_read_uint32 x)" and ?x1 = "snd (xdr_read_uint32 x)"
  show "snd (xdr_read_string x dst maxlen) = x" if "xerr x"
    using that by (simp add: xdr_read_string_def xdr_read_uint32_def)
  assume wf: "xdr_wf x"
  have wf1: "xdr_wf ?x1" and b1: "xbase ?x1 = xbase x" "xcap ?x1 = xcap x"
    using xdr_safeD [OF xdr_safe_u32] wf by auto
  have raw: "\<not> maxlen \<le> ?l \<Longrightarrow> unat ?l < length dst \<and> unat ?l \<le> BUF_SIZE"
    using assms by (auto simp: word_le_nat_alt not_le)
  have noob: "xdr_wf y \<Longrightarrow> \<not> b \<Longrightarrow> xdr_wf (y\<lparr>xoob := (xoob y \<or> b)\<rparr>)" for y b
    by (simp add: xdr_wf_def)
  note r = xdr_read_raw_wf [OF wf1]
  show "xdr_wf (snd (xdr_read_string x dst maxlen))"
    using wf1 raw r(1,4) by (auto simp: xdr_read_string_def Let_def split_def noob)
  show "xbase (snd (xdr_read_string x dst maxlen)) = xbase x"
    using b1 raw r(2) by (auto simp: xdr_read_string_def Let_def split_def)
  show "xcap (snd (xdr_read_string x dst maxlen)) = xcap x"
    using b1 raw r(3) by (auto simp: xdr_read_string_def Let_def split_def)
qed

section \<open>Opaques and strings\<close>

lemma xdr_read_raw_decodes:
  assumes wf: "xdr_wf x" and ok: "\<not> xerr x" and v: "xdr_view x = d @ rest"
    and len: "length d = unat l" and dst: "unat l \<le> length dst"
    and p: "unat (xpos x) \<le> unat (xcap x)"
  shows "xdr_read_raw x dst l = (mem_store dst 0 d, xdr_advance (length d) x)"
proof -
  have fit: "unat (xpos x) + length d \<le> unat (xcap x)"
    using p v length_xdr_view [OF wf] by simp
  have sl: "mem_slice (xbase x) (unat (xpos x)) (unat l) = d"
    using xdr_view_fits(2) [OF wf v] len by (cases "d = []") auto
  have "unat l \<le> 2 ^ 31" using fit wf len by (simp add: xdr_wf_def BUF_SIZE_def)
  note nw = xdr_no_wrap [OF wf this]
  show ?thesis using fit wf ok len dst nw sl
    by (cases x) (simp add: xdr_read_raw_def xdr_touch_def xdr_advance_def xdr_wf_def Let_def)
qed

lemma xdr_skip_view:
  assumes "xdr_wf x" and "\<not> xerr x" and "unat n \<le> length (xdr_view x)"
    and "unat (xpos x) \<le> unat (xcap x)"
  shows "xdr_skip x n = xdr_advance (unat n) x"
proof -
  have fit: "unat (xpos x) + unat n \<le> unat (xcap x)"
    using assms length_xdr_view by simp
  then have "unat n \<le> 2 ^ 31" using assms(1) by (simp add: xdr_wf_def BUF_SIZE_def)
  note nw = xdr_no_wrap [OF assms(1) this]
  show ?thesis using fit assms(2) nw by (simp add: xdr_skip_def xdr_advance_def)
qed

lemma xdr_advance_advance: "xdr_advance n (xdr_advance m x) = xdr_advance (m + n) x"
  by (simp add: xdr_advance_def ac_simps)

lemma xdr_advance_0 [simp]: "xdr_advance 0 x = x"
  by (simp add: xdr_advance_def)

text \<open>
  The common part of an opaque and a string: the data, then the padding, for a view that
  starts with them.
\<close>

lemma xdr_data_and_pad:
  assumes wf: "xdr_wf x" and ok: "\<not> xerr x" and p: "unat (xpos x) \<le> unat (xcap x)"
    and v: "xdr_view x = d @ replicate ((4 - length d mod 4) mod 4) 0 @ rest"
    and l: "unat l = length d" and dst: "length d \<le> length dst"
  shows "xdr_read_raw x dst l = (mem_store dst 0 d, xdr_advance (length d) x)"
    and "(if 0 < xdr_pad l then xdr_skip (xdr_advance (length d) x) (xdr_pad l)
          else xdr_advance (length d) x) =
         xdr_advance (length d + (4 - length d mod 4) mod 4) x"
    and "\<not> xoob (xdr_advance (length d) x)"
proof -
  show "xdr_read_raw x dst l = (mem_store dst 0 d, xdr_advance (length d) x)"
    by (rule xdr_read_raw_decodes [OF wf ok v]) (use l dst p in auto)
  have len: "length d \<le> length (xdr_view x)" using v by simp
  note adv = xdr_advance_view [OF wf len]
  show "\<not> xoob (xdr_advance (length d) x)" using adv(3) by (simp add: xdr_wf_def)
  have pad: "unat (xdr_pad l) = (4 - length d mod 4) mod 4" by (simp add: unat_xdr_pad l)
  have "length (xdr_view x) = unat (xcap x) - unat (xpos x)"
    using length_xdr_view [OF wf] .
  then have "unat (xpos x) + length d \<le> unat (xcap x)" using len p by simp
  then have "xdr_skip (xdr_advance (length d) x) (xdr_pad l) =
      xdr_advance (unat (xdr_pad l)) (xdr_advance (length d) x)"
    using adv v ok pad by (intro xdr_skip_view) (auto simp: xdr_advance_def)
  then show "(if 0 < xdr_pad l then xdr_skip (xdr_advance (length d) x) (xdr_pad l)
          else xdr_advance (length d) x) =
         xdr_advance (length d + (4 - length d mod 4) mod 4) x"
    using pad by (cases "0 < xdr_pad l") (auto simp: xdr_pad_pos_iff xdr_advance_advance)
qed

lemma opaque_prefix:
  assumes wf: "xdr_wf x" and ok: "\<not> xerr x" and v: "xdr_view x = opaque_bytes d @ rest"
  shows "xdr_read_uint32 x = (of_nat (length d), xdr_advance 4 x)"
    and "xdr_wf (xdr_advance 4 x)" and "\<not> xerr (xdr_advance 4 x)"
    and "unat (xpos (xdr_advance 4 x)) \<le> unat (xcap (xdr_advance 4 x))"
    and "xdr_view (xdr_advance 4 x) = d @ replicate ((4 - length d mod 4) mod 4) 0 @ rest"
    and "unat (of_nat (length d) :: u32) = length d"
proof -
  have len: "4 \<le> length (xdr_view x)" using v by (simp add: opaque_bytes_def)
  note adv = xdr_advance_view [OF wf len]
  have v': "xdr_view x = be32_bytes (of_nat (length d)) @
      (d @ replicate ((4 - length d mod 4) mod 4) 0 @ rest)"
    using v by (simp add: opaque_bytes_def)
  show "xdr_read_uint32 x = (of_nat (length d), xdr_advance 4 x)"
    using r_u32.decodes [OF wf ok v'] by simp
  show "xdr_wf (xdr_advance 4 x)" "\<not> xerr (xdr_advance 4 x)" using adv ok by simp_all
  show "unat (xpos (xdr_advance 4 x)) \<le> unat (xcap (xdr_advance 4 x))"
    using adv(1) len length_xdr_view [OF wf] by (simp add: xdr_advance_def)
  show "xdr_view (xdr_advance 4 x) = d @ replicate ((4 - length d mod 4) mod 4) 0 @ rest"
    using adv(2) v' by simp
  have "length d \<le> BUF_SIZE"
    using v length_xdr_view [OF wf] wf by (auto simp: opaque_bytes_def xdr_wf_def)
  then show "unat (of_nat (length d) :: u32) = length d"
    by (simp add: unat_of_nat BUF_SIZE_def)
qed

lemma xdr_read_opaque_decodes:
  assumes wf: "xdr_wf x" and ok: "\<not> xerr x" and v: "xdr_view x = opaque_bytes d @ rest"
    and d: "length d \<le> unat maxlen" and dst: "unat maxlen \<le> length dst"
  shows "xdr_read_opaque x dst dl maxlen =
    ((mem_store dst 0 d, of_nat (length d)), xdr_advance (length (opaque_bytes d)) x)"
proof -
  note hd = opaque_prefix [OF wf ok v]
  have dst': "length d \<le> length dst" using d dst by simp
  note tl = xdr_data_and_pad [OF hd(2,3,4,5,6) dst']
  have "\<not> maxlen < of_nat (length d)" using d hd(6) by (simp add: word_less_nat_alt)
  then show ?thesis
    using hd(1,3) tl(1,2) [unfolded xdr_advance_advance]
    by (auto simp: xdr_read_opaque_def opaque_bytes_def split: if_splits)
qed

lemma xdr_read_string_decodes:
  assumes wf: "xdr_wf x" and ok: "\<not> xerr x" and v: "xdr_view x = opaque_bytes d @ rest"
    and d: "length d < unat maxlen" and dst: "unat maxlen \<le> length dst"
  shows "xdr_read_string x dst maxlen =
    ((int (length d), mem_store (mem_store dst 0 d) (length d) [0]),
     xdr_advance (length (opaque_bytes d)) x)"
proof -
  note hd = opaque_prefix [OF wf ok v]
  have dst': "length d \<le> length dst" using d dst by simp
  note tl = xdr_data_and_pad [OF hd(2,3,4,5,6) dst']
  let ?y = "xdr_advance (length d) (xdr_advance 4 x)"
  have "\<not> maxlen \<le> of_nat (length d)" using d hd(6) by (simp add: word_le_nat_alt)
  moreover have "?y\<lparr>xoob := (xoob ?y \<or> length (mem_store dst 0 d) \<le> length d)\<rparr> = ?y"
    using tl(3) d dst by (cases ?y) simp
  ultimately show ?thesis
    using hd(1,3,6) tl(1,2) [unfolded xdr_advance_advance]
    by (auto simp: xdr_read_string_def xdr_advance_advance opaque_bytes_def split: if_splits)
qed

lemma cstr_of_string_buffer:
  assumes "0 \<notin> set d" and "length d < length dst"
  shows "cstr (mem_store (mem_store dst 0 d) (length d) [0]) = d"
proof -
  have "mem_store (mem_store dst 0 d) (length d) [0] = d @ 0 # drop (Suc (length d)) dst"
    using assms(2) by (auto simp: mem_store_def)
  then show ?thesis using assms(1) by simp
qed

section \<open>Properties of the XDR layer\<close>

text \<open>
  C14. Decoding never leaves the buffer: from a well-formed buffer, every decoder of xdr.c
  ends in a well-formed one (no access outside it, none outside a destination that is as
  long as the limit passed), whatever the bytes and the lengths in them are.
\<close>

theorem xdr_decoders_memory_safe:
  assumes "xdr_wf x" and "unat maxlen \<le> length dst" and "unat maxlen \<le> BUF_SIZE"
  shows "xdr_wf (snd (xdr_read_uint32 x)) \<and> xdr_wf (snd (xdr_read_uint64 x)) \<and>
    xdr_wf (snd (xdr_read_raw x dst maxlen)) \<and> xdr_wf (xdr_skip x n) \<and>
    xdr_wf (snd (xdr_read_opaque x dst dl maxlen)) \<and> xdr_wf (snd (xdr_read_string x dst maxlen))"
  using assms xdr_safeD(2) [OF xdr_safe_u32] xdr_safeD(2) [OF xdr_safe_u64]
    xdr_safeD(2) [OF xdr_safe_opaque] xdr_safeD(2) [OF xdr_safe_string]
  by (simp add: xdr_read_raw_wf)

theorem xdr_decoders_memory_safe_witness:
  "xdr_wf (snd (xdr_read_opaque (xdr_init_read [0, 0, 0, 9, 1, 2] 6) [7, 7, 7, 7] 0 4))"
  using xdr_decoders_memory_safe [of "xdr_init_read [0, 0, 0, 9, 1, 2] 6" 4 "[7, 7, 7, 7]" 0 0]
  by (simp add: xdr_wf_def xdr_init_read_def BUF_SIZE_def)

text \<open>
  C22. Encoding is all or nothing inside the buffer: a call of an encoder from a well-formed
  buffer either latches the error or extends the output by exactly the encoding; it stays
  well-formed and never changes a byte before the position it started at.
\<close>

theorem xdr_encoders_append:
  assumes "xdr_wf x" and "unat len \<le> length src" and "unat len \<le> BUF_SIZE"
    and "(w, enc) \<in> {(xdr_write_uint32 v, be32_bytes v), (xdr_write_uint64 q, be64_bytes q),
      (xdr_write_raw src len, take (unat len) src),
      (xdr_write_opaque src len, opaque_bytes (take (unat len) src)),
      (xdr_write_string src len, opaque_bytes (take (unat len) src))}"
  shows "xdr_wf (w x) \<and> xdr_keeps x (w x) \<and>
    (xerr (w x) \<longleftrightarrow> xerr x \<or> unat (xcap x) < unat (xpos x) + length enc) \<and>
    (\<not> xerr (w x) \<longrightarrow> mem_slice (xbase (w x)) (unat (xpos x)) (length enc) = enc \<and>
       unat (xpos (w x)) = unat (xpos x) + length enc)"
proof -
  have "xdr_write_string src len = xdr_write_opaque src len"
    by (simp add: xdr_write_string_def fun_eq_iff)
  then have "xdr_emitter w enc"
    using assms(4) w_u32.xdr_emitter_axioms w_u64.xdr_emitter_axioms
      xdr_write_raw_emitter [OF assms(2,3)] xdr_write_opaque_emitter [OF assms(2,3)]
    by auto
  note e = this
  show ?thesis
    using xdr_emitter.emitter_wf [OF e assms(1)] xdr_emitter.emitter_keeps [OF e assms(1)]
      xdr_emitter.emitter_error_iff [OF e assms(1)] xdr_emitter.emitter_output [OF e assms(1)]
    by auto
qed

theorem xdr_encoders_append_witness:
  "xdr_wf (xdr_write_opaque [65, 66, 67] 3 (xdr_init_write (replicate 12 0) 12)) \<and>
   \<not> xerr (xdr_write_opaque [65, 66, 67] 3 (xdr_init_write (replicate 12 0) 12))"
proof -
  let ?x = "xdr_init_write (replicate 12 0) 12"
  have "xdr_wf ?x" "\<not> xerr ?x"
    "unat (xpos ?x) + length (opaque_bytes [65, 66, 67]) \<le> unat (xcap ?x)"
    by (simp_all add: xdr_wf_def xdr_init_write_def BUF_SIZE_def opaque_bytes_def)
  then show ?thesis
    using xdr_encoders_append [of ?x 3 "[65, 66, 67]"
        "xdr_write_opaque [65, 66, 67] 3" "opaque_bytes [65, 66, 67]" 0 0]
    by (simp add: BUF_SIZE_def)
qed

text \<open>
  Round trip of the scalars: whatever value was encoded without overflowing the buffer
  is what a decoder started at the same position returns.
\<close>

theorem xdr_scalar_roundtrip:
  assumes "xdr_wf x" and "xpos x \<le> xcap x"
    and "\<not> xerr (xdr_write_uint32 v x)" and "\<not> xerr (xdr_write_uint64 q x)"
  shows "fst (xdr_read_uint32 (xdr_set_pos (xdr_write_uint32 v x) (xpos x))) = v \<and>
    fst (xdr_read_uint64 (xdr_set_pos (xdr_write_uint64 q x) (xpos x))) = q"
  using assms
    xdr_roundtrip [OF w_u32.xdr_emitter_axioms r_u32.xdr_decoder_axioms]
    xdr_roundtrip [OF w_u64.xdr_emitter_axioms r_u64.xdr_decoder_axioms] by blast

theorem xdr_scalar_roundtrip_witness:
  "fst (xdr_read_uint64 (xdr_set_pos
      (xdr_write_uint64 0x0102030405060708 (xdr_init_write (replicate 8 0) 8)) 0)) =
   0x0102030405060708"
proof -
  let ?x = "xdr_init_write (replicate 8 0) 8"
  have wf: "xdr_wf ?x" and "xpos ?x = 0"
    by (simp_all add: xdr_wf_def xdr_init_write_def BUF_SIZE_def)
  moreover have "\<not> xerr (xdr_write_uint32 0 ?x)" "\<not> xerr (xdr_write_uint64 0x0102030405060708 ?x)"
    using w_u32.emitter_error_iff [OF wf] w_u64.emitter_error_iff [OF wf]
    by (simp_all add: xdr_init_write_def)
  ultimately show ?thesis
    using xdr_scalar_roundtrip [of ?x 0 "0x0102030405060708"] by simp
qed

text \<open>
  C23. Round trip of variable-length data: an opaque that was encoded without overflow, of any
  bytes and of any length up to and including the reader's limit, comes back with its length,
  the data at the front of the destination, the rest of the destination untouched; a string
  without NUL bytes that is shorter than the limit, which counts its terminator, comes back as
  the C string in the destination, with its length as the return value.
\<close>

theorem xdr_opaque_roundtrip:
  assumes "xdr_wf x" and "xpos x \<le> xcap x" and "\<not> xerr (xdr_write_opaque d len x)"
    and "unat len = length d" and "length d \<le> unat maxlen" and "unat maxlen \<le> length dst"
    and "unat maxlen \<le> BUF_SIZE"
  shows "fst (xdr_read_opaque (xdr_set_pos (xdr_write_opaque d len x) (xpos x)) dst dl maxlen) =
      (d @ drop (length d) dst, len) \<and>
    (length d < unat maxlen \<and> 0 \<notin> set d \<longrightarrow>
      fst (fst (xdr_read_string (xdr_set_pos (xdr_write_string d len x) (xpos x)) dst maxlen)) = int (length d) \<and>
      cstr (snd (fst (xdr_read_string (xdr_set_pos (xdr_write_string d len x) (xpos x)) dst maxlen))) = d)"
proof -
  have em: "xdr_emitter (xdr_write_opaque d len) (opaque_bytes d)"
    using xdr_write_opaque_emitter [of len d] assms(4,5,7) by simp
  have len: "len = of_nat (length d)" using assms(4) by (metis of_nat_unat ucast_id)
  have dec1: "xdr_decoder (\<lambda>x. xdr_read_opaque x dst dl maxlen) (opaque_bytes d) (mem_store dst 0 d, len)"
    using assms(5,6) len by unfold_locales (simp add: xdr_read_opaque_decodes)
  have 1: "fst (xdr_read_opaque (xdr_set_pos (xdr_write_opaque d len x) (xpos x)) dst dl maxlen)
      = (mem_store dst 0 d, len)"
    using xdr_roundtrip [OF em dec1 assms(1,3,2)] by simp
  let ?b = "mem_store (mem_store dst 0 d) (length d) [0]"
  have 2: "fst (xdr_read_string (xdr_set_pos (xdr_write_opaque d len x) (xpos x)) dst maxlen)
      = (int (length d), ?b)" if "length d < unat maxlen"
  proof -
    have "xdr_decoder (\<lambda>x. xdr_read_string x dst maxlen) (opaque_bytes d) (int (length d), ?b)"
      using assms(6) that by unfold_locales (simp add: xdr_read_string_decodes)
    from xdr_roundtrip [OF em this assms(1,3,2)] show ?thesis by simp
  qed
  have "mem_store dst 0 d = d @ drop (length d) dst"
    using assms(5,6) by (simp add: mem_store_def)
  then show ?thesis
    using 1 2 cstr_of_string_buffer [of d dst] assms(5,6) by (simp add: xdr_write_string_def)
qed

text \<open>Three bytes that fill the destination, one of them NUL, and three letters.\<close>

theorem xdr_opaque_roundtrip_witness:
  "fst (xdr_read_opaque (xdr_set_pos (xdr_write_opaque [65, 0, 67] 3 (xdr_init_write (replicate 12 0) 12)) 0)
      (replicate 3 1) 0 3) = ([65, 0, 67], 3) \<and>
   cstr (snd (fst (xdr_read_string (xdr_set_pos
      (xdr_write_string [65, 66, 67] 3 (xdr_init_write (replicate 12 0) 12)) 0)
      (replicate 8 1) 8))) = [65, 66, 67]"
proof -
  let ?x = "xdr_init_write (replicate 12 0) 12"
  have wf: "xdr_wf ?x" "xpos ?x = 0" "xpos ?x \<le> xcap ?x"
    by (simp_all add: xdr_wf_def xdr_init_write_def BUF_SIZE_def)
  have "\<not> xerr (xdr_write_opaque [65, b, 67] 3 ?x)" for b
  proof -
    have "xdr_emitter (xdr_write_opaque [65, b, 67] 3) (opaque_bytes [65, b, 67])"
      using xdr_write_opaque_emitter [of 3 "[65, b, 67]"] by (simp add: BUF_SIZE_def)
    then show ?thesis using xdr_emitter.emitter_error_iff wf(1) by (simp add: xdr_init_write_def opaque_bytes_def)
  qed
  from this [of 0] this [of 66] show ?thesis
    using xdr_opaque_roundtrip [of ?x "[65, 0, 67]" 3 3 "replicate 3 1" 0] xdr_opaque_roundtrip [of ?x "[65, 66, 67]" 3 8 "replicate 8 1"] wf
    by (simp add: BUF_SIZE_def)
qed

text \<open>
  C37. A truncated opaque is reported with its declared length: when fewer bytes follow than
  the length word says (and the length is within the limit), the destination keeps its old
  contents, the length is stored all the same, and only the error flag tells the difference.
  The string reader likewise returns the declared length, not -1, and terminates the old
  contents of its destination there.
\<close>

theorem xdr_truncated_data_keeps_old_buffer:
  assumes "xdr_wf x" and "\<not> xerr x" and "xdr_view x = be32_bytes len @ rest"
    and "length rest < unat len" and "len < maxlen" and "unat maxlen \<le> BUF_SIZE"
  shows "fst (xdr_read_opaque x dst dl maxlen) = (dst, len) \<and>
    xerr (snd (xdr_read_opaque x dst dl maxlen)) \<and>
    fst (xdr_read_string x dst maxlen) = (int (unat len), mem_store dst (unat len) [0]) \<and>
    xerr (snd (xdr_read_string x dst maxlen))"
proof -
  let ?x = "xdr_advance 4 x"
  have rd: "xdr_read_uint32 x = (len, ?x)" using r_u32.decodes [OF assms(1-3)] by simp
  have n: "4 \<le> length (xdr_view x)" using assms(3) by simp
  note adv = xdr_advance_view [OF assms(1) n]
  have "length (xdr_view ?x) = length rest" using adv(2) assms(3) by simp
  then have "unat (xcap ?x) < unat (xpos ?x) + unat len"
    using length_xdr_view [OF adv(3)] assms(4) by simp
  moreover have "unat len \<le> 2 ^ 31"
    using assms(5,6) by (simp add: word_less_nat_alt BUF_SIZE_def)
  ultimately have "xdr_read_raw ?x dst len = (dst, ?x\<lparr>xerr := True\<rparr>)"
    using xdr_no_wrap(2) [OF adv(3)] adv(4) assms(2) by (simp add: xdr_read_raw_def)
  then show ?thesis
    using rd adv(4) assms(2,5)
    by (auto simp: xdr_read_opaque_def xdr_read_string_def Let_def xdr_skip_def)
qed

theorem xdr_truncated_data_keeps_old_buffer_witness:
  "fst (xdr_read_opaque (xdr_init_read [0, 0, 0, 4, 1, 2] 6) [7, 7, 7, 7] 0 8) = ([7, 7, 7, 7], 4)"
proof -
  let ?x = "xdr_init_read [0, 0, 0, 4, 1, 2] 6"
  have "xdr_wf ?x" "\<not> xerr ?x" "xdr_view ?x = be32_bytes 4 @ [1, 2]"
    by (simp_all add: xdr_wf_def xdr_init_read_def BUF_SIZE_def xdr_view_def mem_slice_def
        be32_bytes_def)
  then show ?thesis
    using xdr_truncated_data_keeps_old_buffer [of ?x 4 "[1, 2]" 8 "[7, 7, 7, 7]" 0]
    by (simp add: BUF_SIZE_def)
qed

end
