(* ===== verification/Rpc.thy ===== *)
theory Rpc
  imports Xdr
begin

text \<open>
  RPC over TCP, \<^verbatim>\<open>src/src/rpc.c\<close>: the transfer loops over a socket that delivers data in
  arbitrary pieces, record marking with reassembly of fragments, the self check of received
  WRITE calls, parsing of the CALL header and the reply headers.

  A socket's input is the list of what successive waits and \<^verbatim>\<open>recv\<close> calls meet: a piece of
  data, or a stall (no data for \<^verbatim>\<open>RPC_IO_TIMEOUT_SECONDS\<close>, or a failing \<^verbatim>\<open>select\<close>); the end
  of the list, or an empty piece, is the end of the connection. The output side is the list
  of how many bytes each \<^verbatim>\<open>send\<close> accepts. Log messages are left out.
\<close>

section \<open>Sockets and the transfer loops\<close>

datatype io_event = Seg bytes | Stall

fun recv_all :: "io_event list \<Rightarrow> nat \<Rightarrow> (bytes \<times> io_event list) option" where
  "recv_all s 0 = Some ([], s)"
| "recv_all [] (Suc n) = None"
| "recv_all (Stall # s) (Suc n) = None"
| "recv_all (Seg d # s) (Suc n) =
     (if d = [] then None
      else if Suc n < length d then Some (take (Suc n) d, Seg (drop (Suc n) d) # s)
      else (case recv_all s (Suc n - length d) of
              None \<Rightarrow> None | Some (r, s') \<Rightarrow> Some (d @ r, s')))"

text \<open>\<open>send_all\<close> returns what reached the peer and whether the whole buffer was sent.\<close>

fun send_all :: "nat list \<Rightarrow> bytes \<Rightarrow> bytes \<times> bool" where
  "send_all ks [] = ([], True)"
| "send_all [] (b # bs) = ([], False)"
| "send_all (k # ks) (b # bs) =
     (if k = 0 then ([], False)
      else let (sent, ok) = send_all ks (drop k (b # bs)) in (take k (b # bs) @ sent, ok))"

section \<open>The self check of received WRITE calls\<close>

definition RPC_CALL_PROG_OFF :: nat where "RPC_CALL_PROG_OFF = 12"
definition RPC_CALL_PROC_OFF :: nat where "RPC_CALL_PROC_OFF = 20"
definition RPC_PROG_NFS :: u32 where "RPC_PROG_NFS = 100003"
definition RPC_NFS3_PROC_WRITE :: u32 where "RPC_NFS3_PROC_WRITE = 7"

definition rpc_peek_uint32 :: "bytes \<Rightarrow> nat \<Rightarrow> u32" where
  "rpc_peek_uint32 buf off =
     be32_word (byte_at buf off) (byte_at buf (off + 1)) (byte_at buf (off + 2)) (byte_at buf (off + 3))"

text \<open>
  One length-prefixed field at \<open>pos\<close>: the position behind it, or nothing where the code
  returns -1.
\<close>

definition rpc_skip_counted :: "bytes \<Rightarrow> u32 \<Rightarrow> u32 \<Rightarrow> u32 option" where
  "rpc_skip_counted buf tot pos =
     (let len = rpc_peek_uint32 buf (unat pos); p = pos + 4 in
      if tot < len \<or> tot < p + xdr_round4 len then None else Some (p + xdr_round4 len))"

definition rpc_write_expected_len :: "bytes \<Rightarrow> u32 \<Rightarrow> u32 option" where
  "rpc_write_expected_len buf tot =
     (if tot < 24 + 8 then None else
      case rpc_skip_counted buf tot (24 + 4) of None \<Rightarrow> None | Some p1 \<Rightarrow>
      if tot < p1 + 8 then None else
      case rpc_skip_counted buf tot (p1 + 4) of None \<Rightarrow> None | Some p2 \<Rightarrow>
      if tot < p2 + 4 then None else
      case rpc_skip_counted buf tot p2 of None \<Rightarrow> None | Some p3 \<Rightarrow>
      if tot < p3 + 16 then None else
      if tot < p3 + 16 + 4 then None else
      let len = rpc_peek_uint32 buf (unat (p3 + 16)); p4 = p3 + 16 + 4 in
      if tot < len then None else Some (p4 + xdr_round4 len))"

definition is_fh_magic :: "bytes \<Rightarrow> nat \<Rightarrow> bool" where
  "is_fh_magic buf i \<longleftrightarrow>
     byte_at buf i = 0x4E \<and> byte_at buf (i + 1) = 0x46 \<and>
     byte_at buf (i + 2) = 0x53 \<and> byte_at buf (i + 3) = 0x33"

function scan_magic :: "bytes \<Rightarrow> nat \<Rightarrow> nat \<Rightarrow> nat \<times> nat \<times> nat \<Rightarrow> nat \<times> nat \<times> nat" where
  "scan_magic buf tot i (hits, off1, off2) =
     (if i + 4 \<le> tot then
        scan_magic buf tot (Suc i)
          (if is_fh_magic buf i
           then (Suc hits, if hits = 0 then i else off1, if hits = 1 then i else off2)
           else (hits, off1, off2))
      else (hits, off1, off2))"
  by pat_completeness auto
termination
  by (relation "measure (\<lambda>(buf, tot, i, _). tot - i)") auto

declare scan_magic.simps [simp del]

text \<open>The result is whether the message is accepted (return value 0).\<close>

definition rpc_recv_selfcheck :: "bytes \<Rightarrow> u32 \<Rightarrow> bool" where
  "rpc_recv_selfcheck buf tot =
     (if unat tot < RPC_CALL_PROC_OFF + 4 then True
      else if rpc_peek_uint32 buf RPC_CALL_PROG_OFF \<noteq> RPC_PROG_NFS then True
      else if rpc_peek_uint32 buf RPC_CALL_PROC_OFF \<noteq> RPC_NFS3_PROC_WRITE then True
      else
        let bad_len = (case rpc_write_expected_len buf tot of
                         None \<Rightarrow> False | Some expected \<Rightarrow> expected \<noteq> tot);
            (hits, off1, off2) = scan_magic buf (unat tot) 0 (0, 0, 0)
        in if hits \<le> 1 \<and> \<not> bad_len then True
           else
             let base2 = off2 - off1;
                 confirmed = (off1 < off2 \<and>
                   base2 + RPC_CALL_PROC_OFF + 4 \<le> unat tot \<and>
                   rpc_peek_uint32 buf (base2 + 4) = 0 \<and>
                   rpc_peek_uint32 buf (base2 + 8) = 2 \<and>
                   rpc_peek_uint32 buf (base2 + RPC_CALL_PROG_OFF) = RPC_PROG_NFS)
             in \<not> (bad_len \<or> confirmed))"

section \<open>Record marking\<close>

fun io_size :: "io_event list \<Rightarrow> nat" where
  "io_size [] = 0"
| "io_size (Seg d # s) = length d + io_size s"
| "io_size (Stall # s) = io_size s"

lemma recv_all_io_size: "recv_all s n = Some (d, s') \<Longrightarrow> length d = n \<and> io_size s' + n = io_size s"
proof (induction s n arbitrary: d s' rule: recv_all.induct)
  case (4 c s n)
  show ?case
  proof (cases "c = [] \<or> Suc n < length c")
    case True
    with 4(2) show ?thesis by (auto split: if_splits)
  next
    case False
    then obtain r where r: "recv_all s (Suc n - length c) = Some (r, s')" and d: "d = c @ r"
      using 4(2) by (auto split: option.splits)
    have "length r = Suc n - length c \<and> io_size s' + (Suc n - length c) = io_size s"
      using 4(1) [OF _ _ r] False by blast
    with False d show ?thesis by auto
  qed
qed auto

text \<open>
  The fragments go into the receive buffer one after the other; the result is the buffer,
  the message length and the rest of the input, or nothing where the connection is to be
  closed. The fragment table, kept for the log only, is left out.
\<close>

function rpc_recv_loop ::
  "io_event list \<Rightarrow> bytes \<Rightarrow> u32 \<Rightarrow> u32 \<Rightarrow> (bytes \<times> u32 \<times> io_event list) option" where
  "rpc_recv_loop s buf maxlen tot =
     (case recv_all s 4 of None \<Rightarrow> None | Some (mark, s1) \<Rightarrow>
      let rm = be32_word (mark ! 0) (mark ! 1) (mark ! 2) (mark ! 3);
          last = (drop_bit 31 rm AND 1 = 1);
          flen = rm AND 0x7FFFFFFF
      in if maxlen < tot + flen then None
         else case recv_all s1 (unat flen) of None \<Rightarrow> None | Some (d, s2) \<Rightarrow>
           let buf' = mem_store buf (unat tot) d
           in if last then Some (buf', tot + flen, s2)
              else rpc_recv_loop s2 buf' maxlen (tot + flen))"
  by pat_completeness auto
termination
  by (relation "measure (\<lambda>(s, _). io_size s)") (auto dest!: recv_all_io_size)

declare rpc_recv_loop.simps [simp del]

definition rpc_recv ::
  "io_event list \<Rightarrow> bytes \<Rightarrow> u32 \<Rightarrow> (bytes \<times> u32 \<times> io_event list) option" where
  "rpc_recv s buf maxlen =
     (case rpc_recv_loop s buf maxlen 0 of None \<Rightarrow> None
      | Some (buf', msglen, s') \<Rightarrow>
          if rpc_recv_selfcheck buf' msglen then Some (buf', msglen, s') else None)"

text \<open>\<open>frame\<close> has four bytes of headroom before the message.\<close>

definition rpc_send :: "nat list \<Rightarrow> bytes \<Rightarrow> u32 \<Rightarrow> bytes \<times> bool" where
  "rpc_send ks frame len =
     (let rm = 0x80000000 OR len;
          frame' = mem_store frame 0 (be32_bytes rm)
      in send_all ks (take (unat (4 + len)) frame'))"

section \<open>The CALL header\<close>

definition RPC_CALL :: u32 where "RPC_CALL = 0"
definition RPC_REPLY :: u32 where "RPC_REPLY = 1"
definition MSG_ACCEPTED :: u32 where "MSG_ACCEPTED = 0"
definition RPC_SUCCESS :: u32 where "RPC_SUCCESS = 0"
definition PROG_UNAVAIL :: u32 where "PROG_UNAVAIL = 1"
definition PROG_MISMATCH :: u32 where "PROG_MISMATCH = 2"
definition PROC_UNAVAIL :: u32 where "PROC_UNAVAIL = 3"
definition AUTH_FLAVOR_NULL :: u32 where "AUTH_FLAVOR_NULL = 0"
definition AUTH_FLAVOR_UNIX :: u32 where "AUTH_FLAVOR_UNIX = 1"

lemmas rpc_consts = RPC_CALL_def RPC_REPLY_def MSG_ACCEPTED_def RPC_SUCCESS_def
  PROG_UNAVAIL_def PROG_MISMATCH_def PROC_UNAVAIL_def AUTH_FLAVOR_NULL_def AUTH_FLAVOR_UNIX_def

record rpc_call_t =
  call_xid :: u32
  call_prog :: u32
  call_vers :: u32
  call_proc :: u32
  auth_uid :: u32
  auth_gid :: u32

text \<open>The AUTH_UNIX body: the user and group, and the position moved to the body's end.\<close>

definition rpc_parse_auth_unix :: "xdr_t \<Rightarrow> u32 \<Rightarrow> (u32 \<times> u32) \<times> xdr_t" where
  "rpc_parse_auth_unix x cred_len =
     (let body_end = xpos x + xdr_round4 cred_len;
          x1 = xdr_skip x 4;
          (mlen, x2) = xdr_read_uint32 x1;
          x3 = xdr_skip x2 (xdr_round4 mlen);
          (uid, x4) = xdr_read_uint32 x3;
          (gid, x5) = xdr_read_uint32 x4;
          x6 = (if \<not> xerr x5 \<and> xpos x5 < body_end
                then let (ngids, x') = xdr_read_uint32 x5 in xdr_skip x' (ngids * 4)
                else x5);
          x7 = (if \<not> xerr x6 then x6\<lparr>xpos := body_end\<rparr> else x6)
      in ((uid, gid), x7))"

definition rpc_parse_call :: "xdr_t \<Rightarrow> (bool \<times> rpc_call_t) \<times> xdr_t" where
  "rpc_parse_call x =
     (let (xid, x1) = xdr_read_uint32 x;
          (mtype, x2) = xdr_read_uint32 x1;
          (rpcvers, x3) = xdr_read_uint32 x2;
          (prog, x4) = xdr_read_uint32 x3;
          (vers, x5) = xdr_read_uint32 x4;
          (pro, x6) = xdr_read_uint32 x5;
          call = \<lparr>call_xid = xid, call_prog = prog, call_vers = vers, call_proc = pro,
                  auth_uid = 0, auth_gid = 0\<rparr>
      in if xerr x6 \<or> mtype \<noteq> RPC_CALL \<or> rpcvers \<noteq> 2 then ((False, call), x6)
         else let (flavor, x7) = xdr_read_uint32 x6;
                  (cred_len, x8) = xdr_read_uint32 x7
           in if xerr x8 then ((False, call), x8)
              else let (call', x9) =
                     (if flavor = AUTH_FLAVOR_UNIX \<and> 12 \<le> cred_len \<and> cred_len \<le> xcap x8 - xpos x8
                      then let ((uid, gid), y) = rpc_parse_auth_unix x8 cred_len
                        in (call\<lparr>auth_uid := uid, auth_gid := gid\<rparr>, y)
                      else (call, xdr_skip x8 (xdr_round4 cred_len)));
                     x10 = xdr_skip x9 4;
                     (verf_len, x11) = xdr_read_uint32 x10;
                     x12 = xdr_skip x11 (xdr_round4 verf_len)
                in ((\<not> xerr x12, call'), x12))"

section \<open>Reply headers\<close>

definition rpc_write_accept_hdr :: "u32 \<Rightarrow> u32 \<Rightarrow> xdr_t \<Rightarrow> xdr_t" where
  "rpc_write_accept_hdr xid accept_stat x =
     (let x1 = xdr_write_uint32 xid x;
          x2 = xdr_write_uint32 RPC_REPLY x1;
          x3 = xdr_write_uint32 MSG_ACCEPTED x2;
          x4 = xdr_write_uint32 AUTH_FLAVOR_NULL x3;
          x5 = xdr_write_uint32 0 x4
      in xdr_write_uint32 accept_stat x5)"

definition rpc_write_prog_mismatch :: "u32 \<Rightarrow> u32 \<Rightarrow> u32 \<Rightarrow> xdr_t \<Rightarrow> xdr_t" where
  "rpc_write_prog_mismatch xid lo hi x =
     xdr_write_uint32 hi (xdr_write_uint32 lo (rpc_write_accept_hdr xid PROG_MISMATCH x))"

definition rpc_write_proc_unavail :: "u32 \<Rightarrow> xdr_t \<Rightarrow> xdr_t" where
  "rpc_write_proc_unavail xid x = rpc_write_accept_hdr xid PROC_UNAVAIL x"

section \<open>The transfer loops\<close>

text \<open>The data an input delivers before the first stall or close.\<close>

fun io_data :: "io_event list \<Rightarrow> bytes" where
  "io_data [] = []"
| "io_data (Stall # s) = []"
| "io_data (Seg d # s) = (if d = [] then [] else d @ io_data s)"

text \<open>
  How the data is cut into pieces is invisible: \<open>recv_all\<close> returns the first \<open>n\<close> bytes of
  what arrives, or fails exactly when fewer arrive.
\<close>

lemma recv_all_data:
  "case recv_all s n of
     None \<Rightarrow> length (io_data s) < n
   | Some (d, s') \<Rightarrow> n \<le> length (io_data s) \<and> d = take n (io_data s) \<and> io_data s' = drop n (io_data s)"
proof (induction s n rule: recv_all.induct)
  case (4 c s n)
  show ?case
  proof (cases "c = [] \<or> Suc n < length c")
    case True
    then show ?thesis by auto
  next
    case False
    then show ?thesis
      using 4 by (cases "recv_all s (Suc n - length c)") auto
  qed
qed auto

lemma recv_all_Some:
  assumes "n \<le> length (io_data s)"
  obtains s' where "recv_all s n = Some (take n (io_data s), s')" "io_data s' = drop n (io_data s)"
  using recv_all_data [of s n] assms by (cases "recv_all s n") auto

lemma recv_all_None: "length (io_data s) < n \<Longrightarrow> recv_all s n = None"
  using recv_all_data [of s n] by (cases "recv_all s n") auto

lemma send_all_prefix:
  "\<exists>rest. bs = fst (send_all ks bs) @ rest \<and> (snd (send_all ks bs) \<longleftrightarrow> rest = [])"
proof (induction ks bs rule: send_all.induct)
  case (3 k ks b bs)
  show ?case
  proof (cases "k = 0")
    case False
    obtain rest where "drop k (b # bs) = fst (send_all ks (drop k (b # bs))) @ rest"
      "snd (send_all ks (drop k (b # bs))) \<longleftrightarrow> rest = []"
      using 3 [OF False] by blast
    then have "b # bs = (take k (b # bs) @ fst (send_all ks (drop k (b # bs)))) @ rest"
      by (metis append.assoc append_take_drop_id)
    with False \<open>snd _ \<longleftrightarrow> rest = []\<close> show ?thesis
      by (intro exI [of _ rest]) (auto simp: Let_def split_def)
  qed auto
qed auto

section \<open>Framing\<close>

definition rpc_mark :: "bool \<Rightarrow> nat \<Rightarrow> bytes" where
  "rpc_mark final n = be32_bytes ((if final then 0x80000000 else 0) OR of_nat n)"

text \<open>The bytes of a message sent as a sequence of fragments.\<close>

fun rpc_frames :: "bytes list \<Rightarrow> bytes" where
  "rpc_frames [] = []"
| "rpc_frames [f] = rpc_mark True (length f) @ f"
| "rpc_frames (f # g # fs) = rpc_mark False (length f) @ f @ rpc_frames (g # fs)"

lemma and_mask31: "(x :: u32) AND 0x7FFFFFFF = take_bit 31 x"
  by (simp add: take_bit_eq_mask mask_eq_exp_minus_1)

lemma rpc_mark_word:
  fixes final :: bool and n :: nat
  defines "rm \<equiv> ((if final then 0x80000000 else 0) OR of_nat n :: u32)"
  assumes "n < 2 ^ 31"
  shows "(drop_bit 31 rm AND 1 = 1) = final" and "rm AND 0x7FFFFFFF = of_nat n"
proof -
  have small: "take_bit 31 (of_nat n :: u32) = of_nat n"
    using assms(2) by (simp add: take_bit_of_nat take_bit_nat_eq_self)
  have top: "\<not> bit (of_nat n :: u32) 31"
    using small by (metis bit_take_bit_iff less_irrefl)
  have "(0x80000000 :: u32) = push_bit 31 1" by simp
  then have "bit rm 31 = final" using top by (simp add: rm_def bit_simps)
  then show "(drop_bit 31 rm AND 1 = 1) = final"
    by (simp add: and_one_eq odd_iff_mod_2_eq_one [symmetric] bit_iff_odd_drop_bit)
  have "take_bit 31 (0x80000000 :: u32) = 0" by simp
  then show "rm AND 0x7FFFFFFF = of_nat n"
    unfolding and_mask31 rm_def using small by (simp add: take_bit_or)
qed

lemma length_rpc_mark [simp]: "length (rpc_mark final n) = 4"
  by (simp add: rpc_mark_def)

lemma rpc_recv_loop_step:
  assumes d: "io_data s = rpc_mark final (length f) @ f @ rest"
    and fit: "unat tot + length f \<le> unat maxlen" and max: "unat maxlen \<le> BUF_SIZE"
  obtains s' where "io_data s' = rest" and
    "rpc_recv_loop s buf maxlen tot =
       (let buf' = mem_store buf (unat tot) f; tot' = tot + of_nat (length f)
        in if final then Some (buf', tot', s') else rpc_recv_loop s' buf' maxlen tot')"
    and "unat (tot + of_nat (length f)) = unat tot + length f"
proof -
  have small: "length f < 2 ^ 31" "unat tot + length f < 2 ^ 32"
    using fit max by (simp_all add: BUF_SIZE_def)
  then have len: "unat (of_nat (length f) :: u32) = length f" by (simp add: unat_of_nat)
  then have tot: "unat (tot + of_nat (length f)) = unat tot + length f"
    using small by (simp add: unat_add_u32)
  obtain s1 where s1: "recv_all s 4 = Some (rpc_mark final (length f), s1)"
    and d1: "io_data s1 = f @ rest"
    using recv_all_Some [of 4 s] d by auto
  obtain s2 where s2: "recv_all s1 (length f) = Some (f, s2)" and d2: "io_data s2 = rest"
    using recv_all_Some [of "length f" s1] d1 by auto
  note m = rpc_mark_word [OF small(1), of final]
  have "\<not> maxlen < tot + of_nat (length f)" using fit tot by (simp add: word_less_nat_alt)
  then have eq: "rpc_recv_loop s buf maxlen tot =
       (let buf' = mem_store buf (unat tot) f; tot' = tot + of_nat (length f)
        in if final then Some (buf', tot', s2) else rpc_recv_loop s2 buf' maxlen tot')"
    using s1 s2 len m unfolding rpc_mark_def
    by (subst rpc_recv_loop.simps) (simp only: option.case prod.case Let_def be32_word_nth if_False)
  show thesis by (rule that [OF d2 eq tot])
qed

lemma rpc_recv_loop_frames:
  assumes "fs \<noteq> []" and "io_data s = rpc_frames fs @ rest"
    and "unat tot + length (concat fs) \<le> unat maxlen" and "unat maxlen \<le> BUF_SIZE"
    and "unat maxlen \<le> length buf"
  shows "\<exists>s'. io_data s' = rest \<and> rpc_recv_loop s buf maxlen tot =
    Some (mem_store buf (unat tot) (concat fs), tot + of_nat (length (concat fs)), s')"
  using assms
proof (induction fs arbitrary: s buf tot rule: rpc_frames.induct)
  case (2 f)
  then show ?case
    using rpc_recv_loop_step [of s True f rest tot maxlen buf] by (auto simp: Let_def)
next
  case (3 f g fs)
  obtain s' where s': "io_data s' = rpc_frames (g # fs) @ rest" and
    step: "rpc_recv_loop s buf maxlen tot =
      rpc_recv_loop s' (mem_store buf (unat tot) f) maxlen (tot + of_nat (length f))" and
    tot: "unat (tot + of_nat (length f)) = unat tot + length f"
    using rpc_recv_loop_step [of s False f "rpc_frames (g # fs) @ rest" tot maxlen buf] 3(3-5)
    by (auto simp: Let_def)
  obtain s'' where "io_data s'' = rest" and
    "rpc_recv_loop s' (mem_store buf (unat tot) f) maxlen (tot + of_nat (length f)) =
      Some (mem_store (mem_store buf (unat tot) f) (unat tot + length f) (concat (g # fs)),
        tot + of_nat (length f) + of_nat (length (concat (g # fs))), s'')"
    using 3(1) [OF _ s', of "tot + of_nat (length f)" "mem_store buf (unat tot) f"] 3(4-6) tot
    by auto
  moreover have "mem_store (mem_store buf (unat tot) f) (unat tot + length f) (concat (g # fs)) =
      mem_store buf (unat tot) (concat (f # g # fs))"
    using 3(4,6) by (subst mem_store_append) auto
  ultimately show ?case using step by (auto simp: add.assoc)
qed auto

section \<open>The layout of a WRITE call\<close>

lemma rpc_peek_at [simp]:
  "n = length pre \<Longrightarrow> rpc_peek_uint32 (pre @ be32_bytes v @ post) n = v"
proof -
  have b: "byte_at (pre @ be32_bytes v @ post) (length pre + k) = be32_bytes v ! k" if "k < 4" for k
    using that by (auto simp: byte_at_def nth_append)
  assume "n = length pre"
  then show ?thesis
    using b [of 0] b [of 1] b [of 2] b [of 3] be32_word_nth [of v]
    by (simp add: rpc_peek_uint32_def)
qed

lemma opaque_length_round4:
  assumes "length d < 2 ^ 31"
  shows "length (opaque_bytes d) = 4 + unat (xdr_round4 (of_nat (length d)))"
proof -
  have n: "unat (of_nat (length d) :: u32) = length d" using assms by (simp add: unat_of_nat)
  have "unat (xdr_round4 (of_nat (length d))) = length d + unat (xdr_pad (of_nat (length d)))"
    using unat_xdr_round4 [of "of_nat (length d)"] n assms by simp
  then show ?thesis unfolding unat_xdr_pad n by (simp add: opaque_bytes_def)
qed

lemma rpc_skip_counted_at:
  assumes buf: "buf = pre @ opaque_bytes d @ post"
    and tot: "length pre + length (opaque_bytes d) \<le> unat tot" "unat tot \<le> BUF_SIZE"
  shows "rpc_skip_counted buf tot (of_nat (length pre)) =
    Some (of_nat (length pre + length (opaque_bytes d)))"
proof -
  have small: "length pre + length (opaque_bytes d) < 2 ^ 31"
    using tot by (simp add: BUF_SIZE_def)
  then have d: "length d < 2 ^ 31" by (simp add: opaque_bytes_def)
  note len = opaque_length_round4 [OF d]
  have p: "unat (of_nat (length pre) :: u32) = length pre" using small by (simp add: unat_of_nat)
  have "buf = pre @ be32_bytes (of_nat (length d)) @
      (d @ replicate ((4 - length d mod 4) mod 4) 0 @ post)"
    using buf by (simp add: opaque_bytes_def)
  then have peek: "rpc_peek_uint32 buf (length pre) = of_nat (length d)" by simp
  have sum: "of_nat (length pre) + 4 + xdr_round4 (of_nat (length d)) =
      (of_nat (length pre + length (opaque_bytes d)) :: u32)"
    unfolding len by simp
  have "unat (of_nat (length pre + length (opaque_bytes d)) :: u32) =
      length pre + length (opaque_bytes d)"
    using small by (simp add: unat_of_nat del: of_nat_add)
  then have "\<not> tot < of_nat (length pre + length (opaque_bytes d))"
    using tot(1) by (simp add: word_less_nat_alt)
  moreover have "\<not> tot < of_nat (length d)"
    using tot(1) d by (simp add: word_less_nat_alt unat_of_nat opaque_bytes_def)
  ultimately show ?thesis
    by (simp only: rpc_skip_counted_def Let_def p peek sum) simp
qed

definition write_call_prefix :: "bytes \<Rightarrow> u32 \<Rightarrow> bytes \<Rightarrow> u32 \<Rightarrow> bytes \<Rightarrow> bytes \<Rightarrow> bytes \<Rightarrow> bytes" where
  "write_call_prefix hdr flavor cred vflavor verf fh args =
     hdr @ be32_bytes flavor @ opaque_bytes cred @ be32_bytes vflavor @ opaque_bytes verf @
     opaque_bytes fh @ args"

lemma not_less_of_nat: "n \<le> unat tot \<Longrightarrow> unat tot \<le> BUF_SIZE \<Longrightarrow> \<not> tot < (of_nat n :: u32)"
  by (simp add: word_less_nat_alt unat_of_nat BUF_SIZE_def)

lemma rpc_write_expected_len_chain:
  assumes "rpc_skip_counted buf tot 28 = Some q1" and "rpc_skip_counted buf tot (q1 + 4) = Some q2"
    and "rpc_skip_counted buf tot q2 = Some q3" and "rpc_peek_uint32 buf (unat (q3 + 16)) = dlen"
    and "\<not> tot < 32" "\<not> tot < q1 + 8" "\<not> tot < q2 + 4" "\<not> tot < q3 + 16" "\<not> tot < q3 + 16 + 4"
    and "\<not> tot < dlen"
  shows "rpc_write_expected_len buf tot = Some (q3 + 16 + 4 + xdr_round4 dlen)"
  using assms by (simp add: rpc_write_expected_len_def Let_def)

lemma rpc_write_expected_len_layout:
  fixes hdr cred verf fh args data junk :: bytes and flavor vflavor dlen :: u32
  defines "pre \<equiv> write_call_prefix hdr flavor cred vflavor verf fh args"
  assumes buf: "buf = pre @ be32_bytes dlen @ data @ junk"
    and tot: "unat tot = length pre + 4 + length data" "unat tot \<le> BUF_SIZE"
    and len: "length hdr = 24" "length args = 16" and dlen: "dlen \<le> tot"
  shows "rpc_write_expected_len buf tot = Some (of_nat (length pre + 4) + xdr_round4 dlen)"
proof -
  define a where "a = hdr @ be32_bytes flavor"
  define b where "b = a @ opaque_bytes cred @ be32_bytes vflavor"
  define c where "c = b @ opaque_bytes verf"
  define e where "e = c @ opaque_bytes fh"
  have pre: "pre = e @ args"
    by (simp add: pre_def write_call_prefix_def a_def b_def c_def e_def)
  have la: "length a = 28" using len by (simp add: a_def)
  have lb: "length b = 32 + length (opaque_bytes cred)" by (simp add: b_def la)
  have lc: "length c = length b + length (opaque_bytes verf)" by (simp add: c_def)
  have le: "length e = length c + length (opaque_bytes fh)" by (simp add: e_def)
  have lp: "length pre = length e + 16" using len by (simp add: pre)
  have 1: "rpc_skip_counted buf tot (of_nat (length a)) =
      Some (of_nat (length a + length (opaque_bytes cred)))"
    by (rule rpc_skip_counted_at [where post = "be32_bytes vflavor @ opaque_bytes verf @
        opaque_bytes fh @ args @ be32_bytes dlen @ data @ junk"])
      (use tot in \<open>simp_all add: buf pre b_def c_def e_def\<close>)
  have 2: "rpc_skip_counted buf tot (of_nat (length b)) =
      Some (of_nat (length b + length (opaque_bytes verf)))"
    by (rule rpc_skip_counted_at [where post = "opaque_bytes fh @ args @ be32_bytes dlen @ data @ junk"])
      (use tot in \<open>simp_all add: buf pre c_def e_def\<close>)
  have 3: "rpc_skip_counted buf tot (of_nat (length c)) =
      Some (of_nat (length c + length (opaque_bytes fh)))"
    by (rule rpc_skip_counted_at [where post = "args @ be32_bytes dlen @ data @ junk"])
      (use tot in \<open>simp_all add: buf pre e_def\<close>)
  have p: "unat (of_nat (length pre) :: u32) = length pre"
    using tot by (simp add: unat_of_nat BUF_SIZE_def)
  have 4: "rpc_peek_uint32 buf (unat (of_nat (length pre) :: u32)) = dlen"
    unfolding p buf by (rule rpc_peek_at) simp
  have fh4: "4 \<le> length (opaque_bytes fh)" "4 \<le> length (opaque_bytes verf)"
    by (simp_all add: opaque_bytes_def)
  have g: "\<not> tot < of_nat 32" "\<not> tot < of_nat (length b + 4)" "\<not> tot < of_nat (length c + 4)"
    "\<not> tot < of_nat (length pre)" "\<not> tot < of_nat (length pre + 4)"
    by (rule not_less_of_nat; use tot lb lc le lp fh4 in linarith)+
  have "of_nat (length a + length (opaque_bytes cred)) + 4 = (of_nat (length b) :: u32)"
    "of_nat (length a + length (opaque_bytes cred)) + 8 = (of_nat (length b + 4) :: u32)"
    "of_nat (length b + length (opaque_bytes verf)) = (of_nat (length c) :: u32)"
    "of_nat (length c + length (opaque_bytes fh)) + 16 = (of_nat (length pre) :: u32)"
    "of_nat (length c) + 4 = (of_nat (length c + 4) :: u32)"
    "of_nat (length pre) + 4 = (of_nat (length pre + 4) :: u32)"
    unfolding la lb lc le lp by simp_all
  then show ?thesis
    using rpc_write_expected_len_chain [of buf tot "of_nat (length a + length (opaque_bytes cred))"
        "of_nat (length c)" "of_nat (length c + length (opaque_bytes fh))" dlen]
      1 2 3 4 g dlen by (simp add: la not_less del: of_nat_add)
qed

lemma rpc_selfcheck_write:
  assumes "24 \<le> unat tot"
    and "rpc_peek_uint32 buf 12 = RPC_PROG_NFS" and "rpc_peek_uint32 buf 20 = RPC_NFS3_PROC_WRITE"
    and "rpc_write_expected_len buf tot = Some expected"
  shows "expected \<noteq> tot \<Longrightarrow> \<not> rpc_recv_selfcheck buf tot"
    and "expected = tot \<Longrightarrow> fst (scan_magic buf (unat tot) 0 (0, 0, 0)) \<le> 1 \<Longrightarrow>
      rpc_recv_selfcheck buf tot"
  using assms
  by (auto simp: rpc_recv_selfcheck_def RPC_CALL_PROC_OFF_def RPC_CALL_PROG_OFF_def Let_def split_def)

section \<open>The CALL header\<close>

lemma xdr_read_u32_view:
  assumes "xdr_wf x" and "\<not> xerr x" and "xdr_view x = be32_bytes v @ rest"
  shows "xdr_read_uint32 x = (v, xdr_advance 4 x)" and "xdr_wf (xdr_advance 4 x)"
    and "\<not> xerr (xdr_advance 4 x)" and "xdr_view (xdr_advance 4 x) = rest"
    and "unat (xpos (xdr_advance 4 x)) \<le> unat (xcap (xdr_advance 4 x))"
proof -
  have len: "4 \<le> length (xdr_view x)" using assms(3) by simp
  note adv = xdr_advance_view [OF assms(1) len]
  show "xdr_read_uint32 x = (v, xdr_advance 4 x)"
    using r_u32.decodes [OF assms] by simp
  show "xdr_wf (xdr_advance 4 x)" "\<not> xerr (xdr_advance 4 x)" "xdr_view (xdr_advance 4 x) = rest"
    using adv assms by simp_all
  show "unat (xpos (xdr_advance 4 x)) \<le> unat (xcap (xdr_advance 4 x))"
    using adv(1) len length_xdr_view [OF assms(1)] by (simp add: xdr_advance_def)
qed

text \<open>The common part of the parse: six words, and the two words of the credential.\<close>

definition call_words :: "rpc_call_t \<Rightarrow> u32 \<Rightarrow> u32 \<Rightarrow> bytes" where
  "call_words c flavor cred_len =
     be32_bytes (call_xid c) @ be32_bytes RPC_CALL @ be32_bytes 2 @ be32_bytes (call_prog c) @
     be32_bytes (call_vers c) @ be32_bytes (call_proc c) @ be32_bytes flavor @ be32_bytes cred_len"

lemma rpc_parse_call_words:
  assumes wf: "xdr_wf x" "\<not> xerr x" and v: "xdr_view x = call_words c flavor cred_len @ rest"
  obtains y where "xdr_wf y" "\<not> xerr y" "xdr_view y = rest" "unat (xpos y) \<le> unat (xcap y)"
    "xcap y = xcap x" "y = xdr_advance 32 x" and
    "rpc_parse_call x =
       (let call = c\<lparr>auth_uid := 0, auth_gid := 0\<rparr>;
            (call', x9) =
              (if flavor = AUTH_FLAVOR_UNIX \<and> 12 \<le> cred_len \<and> cred_len \<le> xcap y - xpos y
               then let ((uid, gid), z) = rpc_parse_auth_unix y cred_len
                 in (call\<lparr>auth_uid := uid, auth_gid := gid\<rparr>, z)
               else (call, xdr_skip y (xdr_round4 cred_len)));
            (verf_len, x11) = xdr_read_uint32 (xdr_skip x9 4);
            x12 = xdr_skip x11 (xdr_round4 verf_len)
        in ((\<not> xerr x12, call'), x12))"
proof -
  define w1 w2 w3 w4 w5 w6 w7 w8 where "w1 = xdr_advance 4 x" and "w2 = xdr_advance 4 w1"
    and "w3 = xdr_advance 4 w2" and "w4 = xdr_advance 4 w3" and "w5 = xdr_advance 4 w4"
    and "w6 = xdr_advance 4 w5" and "w7 = xdr_advance 4 w6" and "w8 = xdr_advance 4 w7"
  note r1 = xdr_read_u32_view [OF wf v [unfolded call_words_def append.assoc], folded w1_def]
  note r2 = xdr_read_u32_view [OF r1(2-4), folded w2_def]
  note r3 = xdr_read_u32_view [OF r2(2-4), folded w3_def]
  note r4 = xdr_read_u32_view [OF r3(2-4), folded w4_def]
  note r5 = xdr_read_u32_view [OF r4(2-4), folded w5_def]
  note r6 = xdr_read_u32_view [OF r5(2-4), folded w6_def]
  note r7 = xdr_read_u32_view [OF r6(2-4), folded w7_def]
  note r8 = xdr_read_u32_view [OF r7(2-4), folded w8_def]
  have c: "\<lparr>call_xid = call_xid c, call_prog = call_prog c, call_vers = call_vers c,
      call_proc = call_proc c, auth_uid = 0, auth_gid = 0\<rparr> = c\<lparr>auth_uid := 0, auth_gid := 0\<rparr>"
    by (cases c) simp
  have "w8 = xdr_advance 32 x"
    by (simp add: w1_def w2_def w3_def w4_def w5_def w6_def w7_def w8_def xdr_advance_advance)
  moreover have "xcap w8 = xcap x" using calculation by (simp add: xdr_advance_def)
  ultimately show thesis
    using r6(3) r8(2-5)
    by (intro that [of w8])
      (simp_all add: rpc_parse_call_def Let_def r1(1) r2(1) r3(1) r4(1) r5(1) r6(1) r7(1) r8(1) c)
qed

lemma xdr_words_view:
  assumes "xdr_wf x" and "\<not> xerr x" and "xdr_view x = pre @ rest" and "length pre = unat n"
    and "unat (xpos x) \<le> unat (xcap x)"
  shows "xdr_skip x n = xdr_advance (unat n) x" and "xdr_wf (xdr_skip x n)" "\<not> xerr (xdr_skip x n)"
    and "xdr_view (xdr_skip x n) = rest"
    and "unat (xpos (xdr_skip x n)) \<le> unat (xcap (xdr_skip x n))"
proof -
  have len: "unat n \<le> length (xdr_view x)" using assms(3,4) by simp
  show eq: "xdr_skip x n = xdr_advance (unat n) x" by (rule xdr_skip_view [OF assms(1,2) len assms(5)])
  note adv = xdr_advance_view [OF assms(1) len]
  show "xdr_wf (xdr_skip x n)" "\<not> xerr (xdr_skip x n)" "xdr_view (xdr_skip x n) = rest"
    using adv assms(2-4) by (simp_all add: eq)
  show "unat (xpos (xdr_skip x n)) \<le> unat (xcap (xdr_skip x n))"
    using adv(1) len length_xdr_view [OF assms(1)] assms(5) by (simp add: eq xdr_advance_def)
qed

text \<open>The verifier behind the credential.\<close>

lemma rpc_verifier_view:
  assumes x: "xdr_wf x" "\<not> xerr x" "unat (xpos x) \<le> unat (xcap x)"
    and v: "xdr_view x = be32_bytes vflavor @ opaque_bytes verf @ rest"
  shows "(let (verf_len, x11) = xdr_read_uint32 (xdr_skip x 4);
              x12 = xdr_skip x11 (xdr_round4 verf_len) in ((\<not> xerr x12, c), x12)) =
    ((True, c), xdr_advance (4 + length (opaque_bytes verf)) x)"
proof -
  note s = xdr_words_view [OF x(1,2) v, of 4, simplified, OF x(3)]
  note h = opaque_prefix [OF s(2-4)]
  have "length verf < 2 ^ 31"
    using v length_xdr_view [OF x(1)] x(1) by (auto simp: opaque_bytes_def xdr_wf_def BUF_SIZE_def)
  note len = opaque_length_round4 [OF this]
  then have "length (verf @ replicate ((4 - length verf mod 4) mod 4) (0 :: u8)) =
      unat (xdr_round4 (of_nat (length verf)))"
    by (simp add: opaque_bytes_def)
  note t = xdr_words_view [OF h(2,3) h(5) [folded append.assoc] this h(4)]
  show ?thesis
    using t(3) t(1) s(1) h(1) len by (simp add: xdr_advance_advance)
qed

definition auth_unix_body :: "u32 \<Rightarrow> bytes \<Rightarrow> u32 \<Rightarrow> u32 \<Rightarrow> bytes \<Rightarrow> bytes" where
  "auth_unix_body stamp machine uid gid gids =
     be32_bytes stamp @ opaque_bytes machine @ be32_bytes uid @ be32_bytes gid @
     be32_bytes (of_nat (length gids div 4)) @ gids"

lemma rpc_parse_auth_unix_body:
  fixes stamp uid gid :: u32 and machine gids :: bytes
  defines "body \<equiv> auth_unix_body stamp machine uid gid gids"
  assumes x: "xdr_wf x" "\<not> xerr x" "unat (xpos x) \<le> unat (xcap x)"
    and v: "xdr_view x = body @ rest" and g: "length gids mod 4 = 0"
  shows "rpc_parse_auth_unix x (of_nat (length body)) = ((uid, gid), xdr_advance (length body) x)"
proof -
  define n where "n = length gids div 4"
  have gids: "length gids = 4 * n" using g unfolding n_def by presburger
  have v1: "xdr_view x = be32_bytes stamp @ opaque_bytes machine @ be32_bytes uid @
      be32_bytes gid @ be32_bytes (of_nat n) @ gids @ rest"
    using v by (simp add: body_def auth_unix_body_def n_def)
  have small: "length body + unat (xpos x) \<le> BUF_SIZE" "length machine < 2 ^ 31" "4 * n < 2 ^ 31"
    using v1 v length_xdr_view [OF x(1)] x gids
    by (auto simp: opaque_bytes_def xdr_wf_def BUF_SIZE_def)
  note s = xdr_words_view [OF x(1,2) v1, of 4, simplified, OF x(3)]
  note h = opaque_prefix [OF s(2-4)]
  note len = opaque_length_round4 [OF small(2)]
  then have t0: "length (machine @ replicate ((4 - length machine mod 4) mod 4) (0 :: u8)) =
      unat (xdr_round4 (of_nat (length machine)))"
    by (simp add: opaque_bytes_def)
  have t1: "xdr_view (xdr_advance 4 (xdr_skip x 4)) =
      (machine @ replicate ((4 - length machine mod 4) mod 4) 0) @
      (be32_bytes uid @ be32_bytes gid @ be32_bytes (of_nat n) @ gids @ rest)"
    using h(5) by simp
  note t = xdr_words_view [OF h(2,3) t1 t0 h(4)]
  note u = xdr_read_u32_view [OF t(2-4)]
  note w = xdr_read_u32_view [OF u(2-4)]
  note k = xdr_read_u32_view [OF w(2-4)]
  have n4: "length gids = unat (of_nat n * 4 :: u32)"
    using small(3) gids by (simp add: unat_word_ariths unat_of_nat)
  note z = xdr_words_view [OF k(2-4) n4 k(5)]
  have blen: "length body = 4 + length (opaque_bytes machine) + 12 + 4 * n"
    by (simp add: body_def auth_unix_body_def gids)
  have ub: "unat (of_nat (length body) :: u32) = length body"
    using small(1) by (simp add: unat_of_nat BUF_SIZE_def)
  have "length body mod 4 = 0" using length_opaque_bytes [of machine] blen by presburger
  with ub have r4: "xdr_round4 (of_nat (length body)) = of_nat (length body)"
    using unat_xdr_round4 [of "of_nat (length body)"] unat_xdr_pad [of "of_nat (length body)"] small(1)
    by (simp add: BUF_SIZE_def word_unat_eq_iff)
  let ?y = "xdr_advance 4 (xdr_advance 4 (xdr_advance (4 + unat (xdr_round4 (of_nat (length machine))))
      (xdr_advance 4 x)))"
  have eqy: "?y = xdr_advance (4 + length (opaque_bytes machine) + 8) x"
    using len by (simp add: xdr_advance_advance)
  have "unat (xpos ?y) = unat (xpos x) + (4 + length (opaque_bytes machine) + 8)"
    unfolding eqy by (rule xdr_advance_view(1) [OF x(1)]) (use v blen in simp)
  moreover have "unat (xpos x + of_nat (length body)) = unat (xpos x) + length body"
    using small(1) ub by (simp add: unat_add_u32 BUF_SIZE_def)
  ultimately have lt: "xpos ?y < xpos x + of_nat (length body)"
    using blen by (simp add: word_less_nat_alt)
  show ?thesis
    using s(1) h(1) t(1) u(1) w(1) w(3) k(1) z(3) z(1) lt r4
    by (simp add: rpc_parse_auth_unix_def Let_def xdr_advance_advance) (simp add: xdr_advance_def)
qed

lemma xdr_read_u32_pos:
  assumes "xdr_wf x" and "\<not> xerr (snd (xdr_read_uint32 x))"
  shows "unat (xpos (snd (xdr_read_uint32 x))) \<le> unat (xcap (snd (xdr_read_uint32 x)))"
  using assms xdr_no_wrap_4 [OF assms(1)]
  by (auto simp: xdr_read_uint32_def xdr_touch_def Let_def split: if_splits)

lemmas xdr_safe_intros = xdr_safe_u32 xdr_safe_skip xdr_safe_comp [OF xdr_safe_u32 xdr_safe_skip]
  xdr_safe_comp [OF xdr_safe_skip xdr_safe_u32]

lemma rpc_parse_auth_unix_safe:
  assumes wf: "xdr_wf x" and p: "unat (xpos x) \<le> unat (xcap x)" and l: "cred_len \<le> xcap x - xpos x"
  shows "xdr_wf (snd (rpc_parse_auth_unix x cred_len))"
    and "xbase (snd (rpc_parse_auth_unix x cred_len)) = xbase x"
    and "xcap (snd (rpc_parse_auth_unix x cred_len)) = xcap x"
proof -
  let ?e = "xpos x + xdr_round4 cred_len"
  have "unat cred_len \<le> unat (xcap x) - unat (xpos x)"
    using l p by (simp add: word_le_nat_alt unat_sub_u32)
  then have b: "unat (xpos x) + unat cred_len \<le> unat (xcap x)" "unat (xcap x) \<le> 131072"
    using wf p by (simp_all add: xdr_wf_def BUF_SIZE_def)
  then have "unat (xdr_round4 cred_len) \<le> unat cred_len + 3"
    using unat_xdr_round4 [of cred_len] unat_xdr_pad_less [of cred_len] by simp
  then have e: "unat ?e \<le> unat (xcap x) + 3"
    using b by (simp add: unat_add_u32)
  have set: "xdr_wf (y\<lparr>xpos := ?e\<rparr>)" if "xdr_wf y" "xcap y = xcap x" for y
    using that e by (simp add: xdr_wf_def)
  have s1: "xdr_safe (\<lambda>x. snd (xdr_read_uint32 (snd (xdr_read_uint32
      (xdr_skip (snd (xdr_read_uint32 (xdr_skip x 4)))
        (xdr_round4 (fst (xdr_read_uint32 (xdr_skip x 4)))))))))"
    using xdr_safeD [OF xdr_safe_u32] xdr_safeD [OF xdr_safe_skip]
    by (auto simp: xdr_safe_def)
  note s1' = xdr_safeD [OF s1]
  have s2: "xdr_safe (\<lambda>x. xdr_skip (snd (xdr_read_uint32 x)) (fst (xdr_read_uint32 x) * 4))"
    using xdr_safeD [OF xdr_safe_u32] xdr_safeD [OF xdr_safe_skip] by (auto simp: xdr_safe_def)
  note s2' = xdr_safeD [OF s2]
  show "xdr_wf (snd (rpc_parse_auth_unix x cred_len))"
    "xbase (snd (rpc_parse_auth_unix x cred_len)) = xbase x"
    "xcap (snd (rpc_parse_auth_unix x cred_len)) = xcap x"
    using s1'(2-4) [OF wf] s2'(2-4) set
    by (simp_all add: rpc_parse_auth_unix_def Let_def split_def)
qed

lemma rpc_parse_call_safe:
  assumes wf: "xdr_wf x"
  shows "xdr_wf (snd (rpc_parse_call x)) \<and> xbase (snd (rpc_parse_call x)) = xbase x \<and>
    xcap (snd (rpc_parse_call x)) = xcap x"
proof -
  define r where "r = (\<lambda>x. snd (xdr_read_uint32 x))"
  have r: "xdr_wf (r y) \<and> xbase (r y) = xbase y \<and> xcap (r y) = xcap y" if "xdr_wf y" for y
    using xdr_safeD(2-4) [OF xdr_safe_u32 that] by (simp add: r_def)
  define x6 where "x6 = r (r (r (r (r (r x)))))"
  define x8 where "x8 = r (r x6)"
  define cl where "cl = fst (xdr_read_uint32 (r x6))"
  have x6: "xdr_wf x6" "xbase x6 = xbase x" "xcap x6 = xcap x"
    unfolding x6_def using r wf by simp_all
  have x8: "xdr_wf x8" "xbase x8 = xbase x" "xcap x8 = xcap x"
    unfolding x8_def using r x6 by simp_all
  have p: "unat (xpos x8) \<le> unat (xcap x8)" if "\<not> xerr x8"
    using xdr_read_u32_pos [of "r x6"] r x6(1) that by (simp add: x8_def r_def)
  define z where "z = (if fst (xdr_read_uint32 x6) = AUTH_FLAVOR_UNIX \<and> 12 \<le> cl \<and> cl \<le> xcap x8 - xpos x8
      then snd (rpc_parse_auth_unix x8 cl) else xdr_skip x8 (xdr_round4 cl))"
  have z: "xdr_wf z \<and> xbase z = xbase x \<and> xcap z = xcap x" if "\<not> xerr x8"
    using rpc_parse_auth_unix_safe [OF x8(1) p [OF that]] x8 by (simp add: z_def)
  define q where "q = xdr_skip (r (xdr_skip z 4)) (xdr_round4 (fst (xdr_read_uint32 (xdr_skip z 4))))"
  have q: "xdr_wf q \<and> xbase q = xbase x \<and> xcap q = xcap x" if "\<not> xerr x8"
    unfolding q_def using z [OF that] r by simp
  have "snd (rpc_parse_call x) = x6 \<or> snd (rpc_parse_call x) = x8 \<or>
      (\<not> xerr x8 \<and> snd (rpc_parse_call x) = q)"
    by (simp add: rpc_parse_call_def Let_def split_def x6_def x8_def q_def z_def cl_def r_def)
  then show ?thesis using x6 x8 q by auto
qed

section \<open>Reply headers\<close>

definition reply_hdr_bytes :: "u32 \<Rightarrow> u32 \<Rightarrow> bytes" where
  "reply_hdr_bytes xid stat =
     be32_bytes xid @ be32_bytes 1 @ be32_bytes 0 @ be32_bytes 0 @ be32_bytes 0 @ be32_bytes stat"

lemma length_reply_hdr_bytes [simp]: "length (reply_hdr_bytes xid stat) = 24"
  by (simp add: reply_hdr_bytes_def)

interpretation accept_hdr: xdr_emitter "rpc_write_accept_hdr xid stat" "reply_hdr_bytes xid stat"
  for xid stat
  unfolding rpc_write_accept_hdr_def reply_hdr_bytes_def Let_def rpc_consts
  unfolding append.assoc [symmetric]
  by (rule w_u32.xdr_emitter_axioms | rule xdr_emitter_comp [OF _ w_u32.xdr_emitter_axioms])+

lemma prog_mismatch_emitter:
  "xdr_emitter (rpc_write_prog_mismatch xid lo hi)
     (reply_hdr_bytes xid PROG_MISMATCH @ be32_bytes lo @ be32_bytes hi)"
  unfolding rpc_write_prog_mismatch_def append.assoc [symmetric]
  by (rule accept_hdr.xdr_emitter_axioms | rule xdr_emitter_comp [OF _ w_u32.xdr_emitter_axioms])+

section \<open>Properties of the RPC layer\<close>

text \<open>
  C15. Reassembly: when the peer sends a message as any sequence of fragments, cut into any
  TCP segments, \<open>rpc_recv\<close> returns exactly the concatenation of the fragments at the front
  of the receive buffer, its length, and the input behind the message; the one other
  outcome is that the self check rejects this very message.
\<close>

theorem rpc_recv_reassembles:
  assumes "fs \<noteq> []" and "io_data s = rpc_frames fs @ rest"
    and "length (concat fs) \<le> unat maxlen" and "unat maxlen \<le> BUF_SIZE"
    and "unat maxlen \<le> length buf"
  shows "\<exists>s'. io_data s' = rest \<and> rpc_recv s buf maxlen =
    (let buf' = concat fs @ drop (length (concat fs)) buf; n = of_nat (length (concat fs))
     in if rpc_recv_selfcheck buf' n then Some (buf', n, s') else None)"
proof -
  have "mem_store buf 0 (concat fs) = concat fs @ drop (length (concat fs)) buf"
    using assms(3,5) by (simp add: mem_store_def)
  then show ?thesis
    using rpc_recv_loop_frames [of fs s rest 0 maxlen buf] assms by (auto simp: rpc_recv_def Let_def)
qed

theorem rpc_recv_reassembles_witness:
  "\<exists>s'. io_data s' = [9] \<and>
     rpc_recv [Seg [0, 0], Seg [0, 2, 65, 66, 128, 0], Seg [0, 1, 67, 9]] [0, 0, 0, 0, 0, 0, 0, 0] 8 =
       Some ([65, 66, 67, 0, 0, 0, 0, 0], 3, s')"
proof -
  let ?s = "[Seg [0, 0], Seg [0, 2, 65, 66, 128, 0], Seg [0, 1, 67, 9]]"
  have fr: "io_data ?s = rpc_frames [[65, 66], [67]] @ [9]" by code_simp
  have ok: "rpc_recv_selfcheck [65, 66, 67, 0, 0, 0, 0, 0] 3"
    by (simp add: rpc_recv_selfcheck_def RPC_CALL_PROC_OFF_def)
  show ?thesis
    using rpc_recv_reassembles [OF _ fr, of 8 "[0, 0, 0, 0, 0, 0, 0, 0]"] ok
    by (simp add: BUF_SIZE_def)
qed

text \<open>The frame is the send buffer: the mark's four bytes, the message, and what else the buffer holds.\<close>

lemma send_frame:
  assumes "unat len < 2 ^ 31" and "4 + unat len \<le> length frame"
  shows "\<exists>tail. rpc_frames [take (unat len) (drop 4 frame)] = fst (rpc_send ks frame len) @ tail \<and>
    (snd (rpc_send ks frame len) \<longleftrightarrow> tail = [])"
proof -
  have "unat (4 + len) = 4 + unat len" using assms(1) by (simp add: unat_add_u32)
  then have "take (unat (4 + len)) (mem_store frame 0 (be32_bytes (0x80000000 OR len))) = rpc_frames [take (unat len) (drop 4 frame)]"
    using assms(2) by (simp add: mem_store_def rpc_mark_def min_absorb2)
  then show ?thesis
    using send_all_prefix [of "rpc_frames [take (unat len) (drop 4 frame)]" ks] by (simp add: rpc_send_def Let_def)
qed

text \<open>
  C24. A reply handed to \<open>rpc_send\<close> reaches the peer as one final fragment: of a frame that
  holds the message behind the four bytes of the mark, and may go on behind it, the peer has
  received a prefix of mark and message and nothing of what lies behind them, whatever part
  each send accepts, and the whole of mark and message exactly when the call reports success.
\<close>

theorem rpc_send_one_fragment:
  assumes "unat len < 2 ^ 31" and "4 + unat len \<le> length frame"
  shows "\<exists>rest. rpc_frames [take (unat len) (drop 4 frame)] = fst (rpc_send ks frame len) @ rest \<and>
    (snd (rpc_send ks frame len) \<longleftrightarrow> rest = [])"
  by (rule send_frame [OF assms])

theorem rpc_send_one_fragment_witness:
  "\<exists>rest. rpc_frames [[65, 66]] = fst (rpc_send [3, 1] [0, 0, 0, 0, 65, 66, 67, 68, 69] 2) @ rest \<and>
    (snd (rpc_send [3, 1] [0, 0, 0, 0, 65, 66, 67, 68, 69] 2) \<longleftrightarrow> rest = [])"
  using rpc_send_one_fragment [of 2 "[0, 0, 0, 0, 65, 66, 67, 68, 69]" "[3, 1]"] by simp

text \<open>
  The self check decides a WRITE call by its own length fields: a call laid out as
  header, credential, verifier, file handle, arguments and data length is rejected when the
  bytes behind the length word are not the padded data, and accepted when they are and the
  handle magic does not occur twice.
\<close>

theorem rpc_selfcheck_write_length:
  assumes "pre = write_call_prefix hdr flavor cred vflavor verf fh args"
    and "length hdr = 24" and "length args = 16"
    and "unat tot = length pre + 4 + length data" and "unat tot \<le> BUF_SIZE" and "dlen \<le> tot"
    and "rpc_peek_uint32 hdr 12 = 100003" and "rpc_peek_uint32 hdr 20 = 7"
    and "msg = pre @ be32_bytes dlen @ data"
  shows "(length data \<noteq> unat dlen + (4 - unat dlen mod 4) mod 4 \<longrightarrow>
      \<not> rpc_recv_selfcheck (msg @ junk) tot) \<and>
    (length data = unat dlen + (4 - unat dlen mod 4) mod 4 \<longrightarrow>
      fst (scan_magic (msg @ junk) (unat tot) 0 (0, 0, 0)) \<le> 1 \<longrightarrow>
      rpc_recv_selfcheck (msg @ junk) tot)"
proof -
  let ?e = "of_nat (length pre + 4) + xdr_round4 dlen"
  have hdr: "rpc_peek_uint32 (msg @ junk) k = rpc_peek_uint32 hdr k" if "k + 4 \<le> 24" for k
    using that assms(1,2,9)
    by (simp add: rpc_peek_uint32_def byte_at_def write_call_prefix_def nth_append)
  have exp: "rpc_write_expected_len (msg @ junk) tot = Some ?e"
    using rpc_write_expected_len_layout [of "msg @ junk" hdr flavor cred vflavor verf fh args dlen
        data junk tot] assms(1-6,9) by simp
  have d: "unat dlen \<le> 131072" using assms(5,6) by (simp add: word_le_nat_alt BUF_SIZE_def)
  have r: "unat (xdr_round4 dlen) = unat dlen + (4 - unat dlen mod 4) mod 4"
    using unat_xdr_round4 [of dlen] d by (simp add: unat_xdr_pad)
  have p: "length pre + 4 \<le> 131072" using assms(4,5) by (simp add: BUF_SIZE_def)
  have "unat ?e = length pre + 4 + unat (xdr_round4 dlen)"
    using p d r by (subst unat_add_u32) (simp_all add: unat_of_nat del: of_nat_add)
  then have "?e = tot \<longleftrightarrow> length data = unat dlen + (4 - unat dlen mod 4) mod 4"
    using assms(4) r by (auto simp: word_unat_eq_iff)
  moreover have "24 \<le> unat tot" using assms(1,2,4) by (simp add: write_call_prefix_def)
  ultimately show ?thesis
    using rpc_selfcheck_write [OF _ _ _ exp] hdr [of 12] hdr [of 20] assms(7,8)
    by (auto simp: RPC_PROG_NFS_def RPC_NFS3_PROC_WRITE_def)
qed

theorem rpc_selfcheck_write_length_witness:
  "\<not> rpc_recv_selfcheck
    ((write_call_prefix (replicate 12 0 @ be32_bytes 100003 @ be32_bytes 3 @ be32_bytes 7)
        0 [] 0 [] [1, 2, 3, 4] (replicate 16 0) @ be32_bytes 1 @ [65]) @ []) 69"
proof -
  let ?h = "replicate 12 0 @ be32_bytes 100003 @ be32_bytes 3 @ be32_bytes 7"
  have "rpc_peek_uint32 ?h 12 = 100003" "rpc_peek_uint32 ?h 20 = 7" by code_simp+
  then show ?thesis
    using rpc_selfcheck_write_length [OF refl, of ?h "replicate 16 0" 69 0 "[]" 0 "[]" "[1, 2, 3, 4]"
        "[65]" 1 _ "[]", OF _ _ _ _ _ _ _ refl]
    by (simp add: write_call_prefix_def opaque_bytes_def BUF_SIZE_def)
qed

text \<open>
  Parsing the CALL header: a well-formed call with an AUTH_UNIX credential is accepted
  with its header fields and the user and group of the credential, and the position is at
  the first byte of the arguments.
\<close>

theorem rpc_parse_call_auth_unix:
  assumes "xdr_wf x" and "\<not> xerr x" and "body = auth_unix_body stamp machine uid gid gids"
    and "length gids mod 4 = 0"
    and "xdr_view x = call_words c AUTH_FLAVOR_UNIX (of_nat (length body)) @ body @
      be32_bytes vflavor @ opaque_bytes verf @ args"
  shows "rpc_parse_call x =
    ((True, c\<lparr>auth_uid := uid, auth_gid := gid\<rparr>),
     xdr_advance (36 + length body + length (opaque_bytes verf)) x)"
proof (rule rpc_parse_call_words [OF assms(1,2,5)])
  fix y
  assume y: "xdr_wf y" "\<not> xerr y" "unat (xpos y) \<le> unat (xcap y)" "y = xdr_advance 32 x"
    and v: "xdr_view y = body @ be32_bytes vflavor @ opaque_bytes verf @ args"
    and eq: "rpc_parse_call x =
       (let call = c\<lparr>auth_uid := 0, auth_gid := 0\<rparr>;
            (call', x9) =
              (if AUTH_FLAVOR_UNIX = AUTH_FLAVOR_UNIX \<and> 12 \<le> (of_nat (length body) :: u32) \<and>
                  of_nat (length body) \<le> xcap y - xpos y
               then let ((uid, gid), z) = rpc_parse_auth_unix y (of_nat (length body))
                 in (call\<lparr>auth_uid := uid, auth_gid := gid\<rparr>, z)
               else (call, xdr_skip y (xdr_round4 (of_nat (length body)))));
            (verf_len, x11) = xdr_read_uint32 (xdr_skip x9 4);
            x12 = xdr_skip x11 (xdr_round4 verf_len)
        in ((\<not> xerr x12, call'), x12))"
  have len: "length body \<le> length (xdr_view y)" using v by simp
  note adv = xdr_advance_view [OF y(1) len]
  have cap: "length body \<le> unat (xcap y) - unat (xpos y)" "unat (xcap y) \<le> BUF_SIZE"
    using len length_xdr_view [OF y(1)] y(1) by (simp_all add: xdr_wf_def)
  then have ub: "unat (of_nat (length body) :: u32) = length body"
    by (simp add: unat_of_nat BUF_SIZE_def)
  have b12: "12 \<le> (of_nat (length body) :: u32)"
    unfolding word_le_nat_alt ub using assms(3) by (simp add: auth_unix_body_def)
  have le: "of_nat (length body) \<le> xcap y - xpos y"
    unfolding word_le_nat_alt ub using cap(1) y(3) by (simp add: unat_sub_u32)
  have au: "rpc_parse_auth_unix y (of_nat (length body)) = ((uid, gid), xdr_advance (length body) y)"
    using rpc_parse_auth_unix_body [OF y(1-3), of stamp machine uid gid gids] v assms(3,4) by simp
  have p: "unat (xpos (xdr_advance (length body) y)) \<le> unat (xcap (xdr_advance (length body) y))"
    using adv(1) cap(1) y(3) by (simp add: xdr_advance_def)
  have "xdr_view (xdr_advance (length body) y) = be32_bytes vflavor @ opaque_bytes verf @ args"
    using adv(2) v by simp
  note vf = rpc_verifier_view [OF adv(3) _ p this]
  show ?thesis
    using eq vf [of "c\<lparr>auth_uid := uid, auth_gid := gid\<rparr>"] b12 le au adv(4) y(2)
    by (simp add: y(4) xdr_advance_advance Let_def add.assoc)
qed

theorem rpc_parse_call_auth_unix_witness:
  "fst (rpc_parse_call (xdr_init_read
     (call_words \<lparr>call_xid = 7, call_prog = 100003, call_vers = 3, call_proc = 6,
                  auth_uid = 0, auth_gid = 0\<rparr> AUTH_FLAVOR_UNIX 20 @
      auth_unix_body 1 [] 501 20 [] @ be32_bytes 0 @ opaque_bytes []) 60)) =
   (True, \<lparr>call_xid = 7, call_prog = 100003, call_vers = 3, call_proc = 6,
           auth_uid = 501, auth_gid = 20\<rparr>)"
proof -
  let ?c = "\<lparr>call_xid = 7, call_prog = 100003, call_vers = 3, call_proc = 6,
             auth_uid = 0, auth_gid = 0\<rparr>"
  let ?m = "call_words ?c AUTH_FLAVOR_UNIX 20 @ auth_unix_body 1 [] 501 20 [] @ be32_bytes 0 @
      opaque_bytes []"
  have len: "length ?m = 60" by (simp add: call_words_def auth_unix_body_def opaque_bytes_def)
  then have "xdr_wf (xdr_init_read ?m 60)" "\<not> xerr (xdr_init_read ?m 60)"
    "xdr_view (xdr_init_read ?m 60) = ?m"
    by (simp_all add: xdr_wf_def xdr_init_read_def xdr_view_def mem_slice_def BUF_SIZE_def)
  then show ?thesis
    using rpc_parse_call_auth_unix [of "xdr_init_read ?m 60", OF _ _ refl, of "[]" ?c 1 "[]" 501 20 0
        "[]" "[]"]
    by (simp add: auth_unix_body_def opaque_bytes_def)
qed

text \<open>
  C38. The lengths of the header are rounded up in 32-bit arithmetic, and the skip that uses
  them adds without a carry test: a call whose credential claims \<^verbatim>\<open>0xFFFFFFFC\<close> bytes is
  accepted. The skip moves the position four bytes back, so the length word itself is taken
  for the verifier's flavor.
\<close>

theorem rpc_parse_call_accepts_wrapped_length:
  assumes "xdr_wf x" and "\<not> xerr x" and "flavor \<noteq> AUTH_FLAVOR_UNIX"
    and "xdr_view x = call_words c flavor 0xFFFFFFFC @ be32_bytes 0 @ args"
  shows "rpc_parse_call x = ((True, c\<lparr>auth_uid := 0, auth_gid := 0\<rparr>), xdr_advance 36 x)"
proof (rule rpc_parse_call_words [OF assms(1,2,4)])
  fix y
  assume y: "xdr_wf y" "\<not> xerr y" "unat (xpos y) \<le> unat (xcap y)" "y = xdr_advance 32 x"
    and v: "xdr_view y = be32_bytes 0 @ args"
    and eq: "rpc_parse_call x =
       (let call = c\<lparr>auth_uid := 0, auth_gid := 0\<rparr>;
            (call', x9) =
              (if flavor = AUTH_FLAVOR_UNIX \<and> 12 \<le> (0xFFFFFFFC :: u32) \<and>
                  0xFFFFFFFC \<le> xcap y - xpos y
               then let ((uid, gid), z) = rpc_parse_auth_unix y 0xFFFFFFFC
                 in (call\<lparr>auth_uid := uid, auth_gid := gid\<rparr>, z)
               else (call, xdr_skip y (xdr_round4 0xFFFFFFFC)));
            (verf_len, x11) = xdr_read_uint32 (xdr_skip x9 4);
            x12 = xdr_skip x11 (xdr_round4 verf_len)
        in ((\<not> xerr x12, call'), x12))"
  have r: "xdr_round4 0xFFFFFFFC = -4" by (simp add: xdr_round4_def)
  have "unat (xpos y) = unat (xpos x) + 32"
    unfolding y(4) by (rule xdr_advance_view(1) [OF assms(1)])
      (simp add: assms(4) call_words_def)
  then have "unat (xpos y - 4) \<le> unat (xcap y)" using y(3) by (simp add: unat_sub_u32)
  then have rewind: "xdr_skip y (-4) = y\<lparr>xpos := xpos y - 4\<rparr>"
    using y(2) by (simp add: xdr_skip_def word_less_nat_alt not_less)
  moreover have "xdr_skip (y\<lparr>xpos := xpos y - 4\<rparr>) 4 = y"
    using y(2,3) by (simp add: xdr_skip_def word_less_nat_alt not_less)
  moreover have rd: "xdr_read_uint32 y = (0, xdr_advance 4 y)"
    by (rule xdr_read_u32_view [OF y(1,2) v])
  moreover have "xdr_skip (xdr_advance 4 y) (xdr_round4 0) = xdr_advance 4 y"
    using xdr_read_u32_view(3,5) [OF y(1,2) v] by (simp add: xdr_skip_def xdr_round4_def word_less_nat_alt not_less)
  ultimately show ?thesis
    using eq assms(2,3) by (simp add: r y(4) xdr_advance_advance Let_def) (simp add: xdr_advance_def)
qed

theorem rpc_parse_call_accepts_wrapped_length_witness:
  "fst (fst (rpc_parse_call (xdr_init_read
     (call_words \<lparr>call_xid = 7, call_prog = 100003, call_vers = 3, call_proc = 0,
                  auth_uid = 0, auth_gid = 0\<rparr> AUTH_FLAVOR_NULL 0xFFFFFFFC @ be32_bytes 0) 36)))"
proof -
  let ?c = "\<lparr>call_xid = 7, call_prog = 100003, call_vers = 3, call_proc = 0,
             auth_uid = 0, auth_gid = 0\<rparr>"
  let ?m = "call_words ?c AUTH_FLAVOR_NULL 0xFFFFFFFC @ be32_bytes 0"
  have len: "length ?m = 36" by (simp add: call_words_def)
  then have "xdr_wf (xdr_init_read ?m 36)" "\<not> xerr (xdr_init_read ?m 36)"
    "xdr_view (xdr_init_read ?m 36) = ?m"
    by (simp_all add: xdr_wf_def xdr_init_read_def xdr_view_def mem_slice_def BUF_SIZE_def)
  then show ?thesis
    using rpc_parse_call_accepts_wrapped_length [of "xdr_init_read ?m 36" AUTH_FLAVOR_NULL ?c "[]"]
    by (simp add: rpc_consts)
qed

end
