(* ===== verification/Fid.thy ===== *)
theory Fid
  imports Nfsd_Prelude
begin

text \<open>
  File identifiers, \<^verbatim>\<open>src/src/mvsfid.c\<close>: the 64-bit FNV-1a hash of a data set and member
  name, computed with a multiplication split into 32-bit halves, and its fold to 32 bits.
  A NULL pointer is \<open>None\<close>.
\<close>

definition MVS_DSNAME_MAX :: nat where "MVS_DSNAME_MAX = 44"
definition MVS_MEMBER_MAX :: nat where "MVS_MEMBER_MAX = 8"
definition FNV_INIT_HI :: u32 where "FNV_INIT_HI = 0xCBF29CE4"
definition FNV_INIT_LO :: u32 where "FNV_INIT_LO = 0x84222325"
definition FNV_PRIME_HI :: u32 where "FNV_PRIME_HI = 0x00000100"
definition FNV_PRIME_LO :: u32 where "FNV_PRIME_LO = 0x000001B3"

definition make64 :: "u32 \<Rightarrow> u32 \<Rightarrow> u64" where
  "make64 hi lo = push_bit 32 (ucast hi) OR ucast lo"

definition fnv1a_mul :: "u64 \<Rightarrow> u64" where
  "fnv1a_mul hash =
     (let hi = ucast (drop_bit 32 hash) :: u32;
          lo = ucast (hash AND 0xFFFFFFFF) :: u32;
          cross = ucast hi * ucast FNV_PRIME_LO + ucast lo * ucast FNV_PRIME_HI :: u64;
          low64 = ucast lo * ucast FNV_PRIME_LO :: u64
      in low64 + push_bit 32 cross)"

definition fnv1a_step :: "u64 \<Rightarrow> u8 \<Rightarrow> u64" where
  "fnv1a_step hash b = fnv1a_mul (hash XOR ucast b)"

fun fnv1a_feed :: "u64 \<Rightarrow> bytes \<Rightarrow> u64" where
  "fnv1a_feed hash [] = hash"
| "fnv1a_feed hash (b # s) = fnv1a_feed (fnv1a_step hash b) s"

definition mvs_fid_hash :: "bytes option \<Rightarrow> bytes option \<Rightarrow> u64" where
  "mvs_fid_hash dsname member =
     (let h0 = make64 FNV_INIT_HI FNV_INIT_LO;
          h1 = (case dsname of None \<Rightarrow> h0 | Some s \<Rightarrow> fnv1a_feed h0 (take MVS_DSNAME_MAX s));
          h2 = fnv1a_step h1 0;
          h3 = (case member of None \<Rightarrow> h2 | Some s \<Rightarrow> fnv1a_feed h2 (take MVS_MEMBER_MAX s))
      in if h3 = 0 then make64 FNV_INIT_HI FNV_INIT_LO else h3)"

definition mvs_fid_ino32 :: "bytes option \<Rightarrow> bytes option \<Rightarrow> u32" where
  "mvs_fid_ino32 dsname member =
     (let h = mvs_fid_hash dsname member;
          lo = ucast (h AND 0xFFFFFFFF);
          hi = ucast (drop_bit 32 h);
          result = lo XOR hi
      in if result = 0 then FNV_INIT_LO else result)"

section \<open>The split multiplication\<close>

lemma and_mask32: "(x :: u64) AND 0xFFFFFFFF = take_bit 32 x"
  by (simp add: take_bit_eq_mask mask_eq_exp_minus_1)

lemma ucast_halves:
  "(ucast (ucast (drop_bit 32 (x :: u64)) :: u32) :: u64) = drop_bit 32 x"
  "(ucast (ucast (take_bit 32 (x :: u64)) :: u32) :: u64) = take_bit 32 x"
proof -
  have n: "n < 32" if "bit x (32 + n)" for n using bit_imp_le_length [OF that] by simp
  show "(ucast (ucast (drop_bit 32 x) :: u32) :: u64) = drop_bit 32 x"
    by (rule bit_word_eqI) (auto simp: bit_simps dest: n)
  show "(ucast (ucast (take_bit 32 x) :: u32) :: u64) = take_bit 32 x"
    by (rule bit_word_eqI) (auto simp: bit_simps)
qed

lemma split_halves: "(x :: u64) = drop_bit 32 x * 2 ^ 32 + take_bit 32 x"
  using bits_ident [of 32 x] by (simp add: push_bit_eq_mult)

text \<open>The cross terms give the product with the 64-bit FNV prime: the high parts overflow.\<close>

lemma fnv1a_mul_prime: "fnv1a_mul h = h * 0x100000001B3"
proof -
  define a b where "a = drop_bit 32 h" and "b = take_bit 32 h"
  have h: "h = a * 4294967296 + b" using split_halves [of h] by (simp add: a_def b_def)
  have "fnv1a_mul h = b * 0x1B3 + (a * 0x1B3 + b * 0x100) * 4294967296"
    by (simp add: fnv1a_mul_def Let_def and_mask32 ucast_halves FNV_PRIME_LO_def FNV_PRIME_HI_def
        push_bit_eq_mult a_def b_def)
  also have "\<dots> = (a * 4294967296 + b) * 0x100000001B3"
  proof -
    have "(4722366482869645213696 :: u64) = 0" by simp
    then have "a * 4722366482869645213696 = 0" by (simp only: mult_zero_right)
    then show ?thesis by (simp add: algebra_simps)
  qed
  finally show ?thesis using h by simp
qed

definition fnv1a_64 :: "u64 \<Rightarrow> bytes \<Rightarrow> u64" where
  "fnv1a_64 h s = foldl (\<lambda>h b. (h XOR ucast b) * 0x100000001B3) h s"

lemma fnv1a_feed_spec: "fnv1a_feed h s = fnv1a_64 h s"
  by (induction s arbitrary: h) (simp_all add: fnv1a_64_def fnv1a_step_def fnv1a_mul_prime)

lemma make64_init: "make64 FNV_INIT_HI FNV_INIT_LO = 0xCBF29CE484222325"
  by (simp add: make64_def FNV_INIT_HI_def FNV_INIT_LO_def)

section \<open>Properties of the file identifiers\<close>

text \<open>
  C30. The identifier is the standard hash: on names within the MVS limits, \<open>mvs_fid_hash\<close> is
  the 64-bit FNV-1a hash of data set name, a NUL byte and member name (its value 0 replaced
  by the offset basis), so it is never 0; a NULL member is the empty member name.
\<close>

theorem mvs_fid_hash_is_fnv1a:
  assumes "length ds \<le> 44" and "length mem \<le> 8"
  shows "mvs_fid_hash (Some ds) (Some mem) =
      (let h = fnv1a_64 0xCBF29CE484222325 (ds @ [0] @ mem)
       in if h = 0 then 0xCBF29CE484222325 else h) \<and>
    mvs_fid_hash (Some ds) None = mvs_fid_hash (Some ds) (Some []) \<and>
    mvs_fid_hash (Some ds) (Some mem) \<noteq> 0 \<and> mvs_fid_ino32 (Some ds) (Some mem) \<noteq> 0"
proof -
  have "fnv1a_step h 0 = fnv1a_64 h [0]" for h
    by (simp add: fnv1a_64_def fnv1a_step_def fnv1a_mul_prime)
  moreover have "fnv1a_64 (fnv1a_64 h s) t = fnv1a_64 h (s @ t)" for h s t
    by (simp add: fnv1a_64_def)
  ultimately show ?thesis
    using assms
    by (auto simp: mvs_fid_hash_def mvs_fid_ino32_def Let_def fnv1a_feed_spec make64_init
        MVS_DSNAME_MAX_def MVS_MEMBER_MAX_def) (simp_all add: FNV_INIT_LO_def)
qed

theorem mvs_fid_hash_is_fnv1a_witness:
  "mvs_fid_hash (Some [0xE2]) (Some [0xC1]) =
     (let h = fnv1a_64 0xCBF29CE484222325 [0xE2, 0, 0xC1]
      in if h = 0 then 0xCBF29CE484222325 else h)"
  using mvs_fid_hash_is_fnv1a [of "[0xE2]" "[0xC1]"] by simp

end
