(* ===== verification/Ebcdic.thy ===== *)
theory Ebcdic
  imports Nfsd_Prelude
begin

text \<open>
  Code pages, \<^verbatim>\<open>src/src/ebcdic.c\<close>: the two translation tables, the buffer translations and
  the conversion of an eight-byte member name, with the character classification of the
  run-time library in the EBCDIC code page of the MVS build, whose character literals are
  named here.
\<close>

section \<open>Translation tables\<close>

definition ebcdic_to_ascii_tab :: bytes where
  "ebcdic_to_ascii_tab =
     [0x00, 0x01, 0x02, 0x03, 0x1A, 0x09, 0x1A, 0x7F,
      0x1A, 0x1A, 0x1A, 0x0B, 0x0C, 0x0D, 0x0E, 0x0F,
      0x10, 0x11, 0x12, 0x13, 0x1A, 0x0A, 0x08, 0x1A,
      0x18, 0x19, 0x1A, 0x1A, 0x1C, 0x1D, 0x1E, 0x1F,
      0x1A, 0x1A, 0x1A, 0x1A, 0x1A, 0x0A, 0x17, 0x1B,
      0x1A, 0x1A, 0x1A, 0x1A, 0x1A, 0x05, 0x06, 0x07,
      0x1A, 0x1A, 0x16, 0x1A, 0x1A, 0x1A, 0x1A, 0x04,
      0x1A, 0x1A, 0x1A, 0x1A, 0x14, 0x15, 0x1A, 0x1A,
      0x20, 0x1A, 0x1A, 0x1A, 0x1A, 0x1A, 0x1A, 0x1A,
      0x1A, 0x1A, 0x5B, 0x2E, 0x3C, 0x28, 0x2B, 0x7C,
      0x26, 0x1A, 0x1A, 0x1A, 0x1A, 0x1A, 0x1A, 0x1A,
      0x1A, 0x1A, 0x21, 0x24, 0x2A, 0x29, 0x3B, 0x5E,
      0x2D, 0x2F, 0x1A, 0x1A, 0x1A, 0x1A, 0x1A, 0x1A,
      0x1A, 0x1A, 0x7C, 0x2C, 0x25, 0x5F, 0x3E, 0x3F,
      0x1A, 0x1A, 0x1A, 0x1A, 0x1A, 0x1A, 0x1A, 0x1A,
      0x1A, 0x60, 0x3A, 0x23, 0x40, 0x27, 0x3D, 0x22,
      0x1A, 0x61, 0x62, 0x63, 0x64, 0x65, 0x66, 0x67,
      0x68, 0x69, 0x1A, 0x1A, 0x1A, 0x1A, 0x1A, 0x1A,
      0x1A, 0x6A, 0x6B, 0x6C, 0x6D, 0x6E, 0x6F, 0x70,
      0x71, 0x72, 0x1A, 0x1A, 0x1A, 0x1A, 0x1A, 0x1A,
      0x1A, 0x7E, 0x73, 0x74, 0x75, 0x76, 0x77, 0x78,
      0x79, 0x7A, 0x1A, 0x1A, 0x1A, 0x5B, 0x1A, 0x1A,
      0x1A, 0x1A, 0x1A, 0x1A, 0x1A, 0x1A, 0x1A, 0x1A,
      0x1A, 0x1A, 0x1A, 0x1A, 0x1A, 0x5D, 0x1A, 0x1A,
      0x7B, 0x41, 0x42, 0x43, 0x44, 0x45, 0x46, 0x47,
      0x48, 0x49, 0x1A, 0x1A, 0x1A, 0x1A, 0x1A, 0x1A,
      0x7D, 0x4A, 0x4B, 0x4C, 0x4D, 0x4E, 0x4F, 0x50,
      0x51, 0x52, 0x1A, 0x1A, 0x1A, 0x1A, 0x1A, 0x1A,
      0x5C, 0x1A, 0x53, 0x54, 0x55, 0x56, 0x57, 0x58,
      0x59, 0x5A, 0x1A, 0x1A, 0x1A, 0x1A, 0x1A, 0x1A,
      0x30, 0x31, 0x32, 0x33, 0x34, 0x35, 0x36, 0x37,
      0x38, 0x39, 0x1A, 0x1A, 0x1A, 0x1A, 0x1A, 0xFF]"

definition ascii_to_ebcdic_tab :: bytes where
  "ascii_to_ebcdic_tab =
     [0x00, 0x01, 0x02, 0x03, 0x37, 0x2D, 0x2E, 0x2F,
      0x16, 0x05, 0x15, 0x0B, 0x0C, 0x0D, 0x0E, 0x0F,
      0x10, 0x11, 0x12, 0x13, 0x3C, 0x3D, 0x32, 0x26,
      0x18, 0x19, 0x3F, 0x27, 0x1C, 0x1D, 0x1E, 0x1F,
      0x40, 0x5A, 0x7F, 0x7B, 0x5B, 0x6C, 0x50, 0x7D,
      0x4D, 0x5D, 0x5C, 0x4E, 0x6B, 0x60, 0x4B, 0x61,
      0xF0, 0xF1, 0xF2, 0xF3, 0xF4, 0xF5, 0xF6, 0xF7,
      0xF8, 0xF9, 0x7A, 0x5E, 0x4C, 0x7E, 0x6E, 0x6F,
      0x7C, 0xC1, 0xC2, 0xC3, 0xC4, 0xC5, 0xC6, 0xC7,
      0xC8, 0xC9, 0xD1, 0xD2, 0xD3, 0xD4, 0xD5, 0xD6,
      0xD7, 0xD8, 0xD9, 0xE2, 0xE3, 0xE4, 0xE5, 0xE6,
      0xE7, 0xE8, 0xE9, 0xAD, 0xE0, 0xBD, 0x5F, 0x6D,
      0x79, 0x81, 0x82, 0x83, 0x84, 0x85, 0x86, 0x87,
      0x88, 0x89, 0x91, 0x92, 0x93, 0x94, 0x95, 0x96,
      0x97, 0x98, 0x99, 0xA2, 0xA3, 0xA4, 0xA5, 0xA6,
      0xA7, 0xA8, 0xA9, 0xC0, 0x4F, 0xD0, 0xA1, 0x07,
      0x3F, 0x3F, 0x3F, 0x3F, 0x3F, 0x3F, 0x3F, 0x3F,
      0x3F, 0x3F, 0x3F, 0x3F, 0x3F, 0x3F, 0x3F, 0x3F,
      0x3F, 0x3F, 0x3F, 0x3F, 0x3F, 0x3F, 0x3F, 0x3F,
      0x3F, 0x3F, 0x3F, 0x3F, 0x3F, 0x3F, 0x3F, 0x3F,
      0x3F, 0x3F, 0x3F, 0x3F, 0x3F, 0x3F, 0x3F, 0x3F,
      0x3F, 0x3F, 0x3F, 0x3F, 0x3F, 0x3F, 0x3F, 0x3F,
      0x3F, 0x3F, 0x3F, 0x3F, 0x3F, 0x3F, 0x3F, 0x3F,
      0x3F, 0x3F, 0x3F, 0x3F, 0x3F, 0x3F, 0x3F, 0x3F,
      0x3F, 0x3F, 0x3F, 0x3F, 0x3F, 0x3F, 0x3F, 0x3F,
      0x3F, 0x3F, 0x3F, 0x3F, 0x3F, 0x3F, 0x3F, 0x3F,
      0x3F, 0x3F, 0x3F, 0x3F, 0x3F, 0x3F, 0x3F, 0x3F,
      0x3F, 0x3F, 0x3F, 0x3F, 0x3F, 0x3F, 0x3F, 0x3F,
      0x3F, 0x3F, 0x3F, 0x3F, 0x3F, 0x3F, 0x3F, 0x3F,
      0x3F, 0x3F, 0x3F, 0x3F, 0x3F, 0x3F, 0x3F, 0x3F,
      0x3F, 0x3F, 0x3F, 0x3F, 0x3F, 0x3F, 0x3F, 0x3F,
      0x3F, 0x3F, 0x3F, 0x3F, 0x3F, 0x3F, 0x3F, 0xFF]"

definition ebcdic_to_ascii_c :: "u8 \<Rightarrow> u8" where
  "ebcdic_to_ascii_c e = ebcdic_to_ascii_tab ! unat e"

definition ascii_to_ebcdic_c :: "u8 \<Rightarrow> u8" where
  "ascii_to_ebcdic_c a = ascii_to_ebcdic_tab ! unat a"

definition ebcdic_to_ascii :: "bytes \<Rightarrow> bytes" where
  "ebcdic_to_ascii src = map ebcdic_to_ascii_c src"

definition ascii_to_ebcdic :: "bytes \<Rightarrow> bytes" where
  "ascii_to_ebcdic src = map ascii_to_ebcdic_c src"

section \<open>Characters of the MVS build\<close>

definition ch_space :: u8 where "ch_space = 0x40"
definition ch_slash :: u8 where "ch_slash = 0x61"
definition ch_dot :: u8 where "ch_dot = 0x4B"
definition ch_at :: u8 where "ch_at = 0x7C"
definition ch_hash :: u8 where "ch_hash = 0x7B"
definition ch_dollar :: u8 where "ch_dollar = 0x5B"
definition ch_equals :: u8 where "ch_equals = 0x7E"
definition ch_nl :: u8 where "ch_nl = 0x15"
definition ch_cr :: u8 where "ch_cr = 0x0D"

lemmas ch_defs = ch_space_def ch_slash_def ch_dot_def ch_at_def ch_hash_def ch_dollar_def
  ch_equals_def ch_nl_def ch_cr_def

definition isupper :: "u8 \<Rightarrow> bool" where
  "isupper c \<longleftrightarrow> 0xC1 \<le> c \<and> c \<le> 0xC9 \<or> 0xD1 \<le> c \<and> c \<le> 0xD9 \<or> 0xE2 \<le> c \<and> c \<le> 0xE9"

definition islower :: "u8 \<Rightarrow> bool" where
  "islower c \<longleftrightarrow> 0x81 \<le> c \<and> c \<le> 0x89 \<or> 0x91 \<le> c \<and> c \<le> 0x99 \<or> 0xA2 \<le> c \<and> c \<le> 0xA9"

definition isdigit :: "u8 \<Rightarrow> bool" where
  "isdigit c \<longleftrightarrow> 0xF0 \<le> c \<and> c \<le> 0xF9"

definition isspace :: "u8 \<Rightarrow> bool" where
  "isspace c \<longleftrightarrow> c \<in> {0x40, 0x05, 0x0B, 0x0C, 0x0D, 0x15}"

definition toupper :: "u8 \<Rightarrow> u8" where
  "toupper c = (if islower c then c + 0x40 else c)"

definition tolower :: "u8 \<Rightarrow> u8" where
  "tolower c = (if isupper c then c - 0x40 else c)"

section \<open>Member names\<close>

text \<open>Trailing blanks of the eight bytes are dropped and the rest is translated.\<close>

definition strip_trailing :: "u8 \<Rightarrow> bytes \<Rightarrow> bytes" where
  "strip_trailing c s = rev (dropWhile (\<lambda>b. b = c) (rev s))"

definition ebcdic_member_to_name :: "bytes \<Rightarrow> bytes" where
  "ebcdic_member_to_name member8 = map ebcdic_to_ascii_c (strip_trailing 0x40 (take 8 member8))"

section \<open>Facts about the tables\<close>

lemma strip_trailing_replicate:
  assumes "s \<noteq> [] \<longrightarrow> last s \<noteq> c"
  shows "strip_trailing c (s @ replicate n c) = s"
proof -
  have "dropWhile (\<lambda>b. b = c) (rev s) = rev s"
    using assms by (cases s rule: rev_cases) auto
  moreover have "dropWhile (\<lambda>b. b = c) (replicate n c @ t) = dropWhile (\<lambda>b. b = c) t" for t
    by (induction n) auto
  ultimately show ?thesis by (simp add: strip_trailing_def)
qed

lemma length_tabs [simp]:
  "length ebcdic_to_ascii_tab = 256" "length ascii_to_ebcdic_tab = 256"
  by (simp_all add: ebcdic_to_ascii_tab_def ascii_to_ebcdic_tab_def)

definition all_bytes :: bytes where
  "all_bytes =
     [0x0, 0x1, 0x2, 0x3, 0x4, 0x5, 0x6, 0x7, 0x8, 0x9, 0xa, 0xb, 0xc, 0xd, 0xe, 0xf,
      0x10, 0x11, 0x12, 0x13, 0x14, 0x15, 0x16, 0x17, 0x18, 0x19, 0x1a, 0x1b, 0x1c, 0x1d, 0x1e, 0x1f,
      0x20, 0x21, 0x22, 0x23, 0x24, 0x25, 0x26, 0x27, 0x28, 0x29, 0x2a, 0x2b, 0x2c, 0x2d, 0x2e, 0x2f,
      0x30, 0x31, 0x32, 0x33, 0x34, 0x35, 0x36, 0x37, 0x38, 0x39, 0x3a, 0x3b, 0x3c, 0x3d, 0x3e, 0x3f,
      0x40, 0x41, 0x42, 0x43, 0x44, 0x45, 0x46, 0x47, 0x48, 0x49, 0x4a, 0x4b, 0x4c, 0x4d, 0x4e, 0x4f,
      0x50, 0x51, 0x52, 0x53, 0x54, 0x55, 0x56, 0x57, 0x58, 0x59, 0x5a, 0x5b, 0x5c, 0x5d, 0x5e, 0x5f,
      0x60, 0x61, 0x62, 0x63, 0x64, 0x65, 0x66, 0x67, 0x68, 0x69, 0x6a, 0x6b, 0x6c, 0x6d, 0x6e, 0x6f,
      0x70, 0x71, 0x72, 0x73, 0x74, 0x75, 0x76, 0x77, 0x78, 0x79, 0x7a, 0x7b, 0x7c, 0x7d, 0x7e, 0x7f,
      0x80, 0x81, 0x82, 0x83, 0x84, 0x85, 0x86, 0x87, 0x88, 0x89, 0x8a, 0x8b, 0x8c, 0x8d, 0x8e, 0x8f,
      0x90, 0x91, 0x92, 0x93, 0x94, 0x95, 0x96, 0x97, 0x98, 0x99, 0x9a, 0x9b, 0x9c, 0x9d, 0x9e, 0x9f,
      0xa0, 0xa1, 0xa2, 0xa3, 0xa4, 0xa5, 0xa6, 0xa7, 0xa8, 0xa9, 0xaa, 0xab, 0xac, 0xad, 0xae, 0xaf,
      0xb0, 0xb1, 0xb2, 0xb3, 0xb4, 0xb5, 0xb6, 0xb7, 0xb8, 0xb9, 0xba, 0xbb, 0xbc, 0xbd, 0xbe, 0xbf,
      0xc0, 0xc1, 0xc2, 0xc3, 0xc4, 0xc5, 0xc6, 0xc7, 0xc8, 0xc9, 0xca, 0xcb, 0xcc, 0xcd, 0xce, 0xcf,
      0xd0, 0xd1, 0xd2, 0xd3, 0xd4, 0xd5, 0xd6, 0xd7, 0xd8, 0xd9, 0xda, 0xdb, 0xdc, 0xdd, 0xde, 0xdf,
      0xe0, 0xe1, 0xe2, 0xe3, 0xe4, 0xe5, 0xe6, 0xe7, 0xe8, 0xe9, 0xea, 0xeb, 0xec, 0xed, 0xee, 0xef,
      0xf0, 0xf1, 0xf2, 0xf3, 0xf4, 0xf5, 0xf6, 0xf7, 0xf8, 0xf9, 0xfa, 0xfb, 0xfc, 0xfd, 0xfe, 0xff]"

lemma all_bytes_upt: "all_bytes = map of_nat [0..<256]"
  by (simp add: all_bytes_def upt_rec)

lemma all_u8I: "list_all P all_bytes \<Longrightarrow> P c"
proof -
  have "unat c < 256" using unsigned_less [of c] by simp
  then have "c \<in> of_nat ` {0..<256}" by (intro image_eqI [of _ _ "unat c"]) simp_all
  then have "c \<in> set all_bytes" unfolding all_bytes_upt by (simp only: set_map set_upt)
  then show "list_all P all_bytes \<Longrightarrow> P c" by (simp add: list_all_iff)
qed

text \<open>Every ASCII character survives the way to EBCDIC and back.\<close>

lemma ebcdic_of_ascii:
  assumes "c < 0x80"
  shows "ebcdic_to_ascii_c (ascii_to_ebcdic_c c) = c"
proof -
  have "list_all (\<lambda>c. c < 0x80 \<longrightarrow> ebcdic_to_ascii_c (ascii_to_ebcdic_c c) = c) all_bytes"
    by code_simp
  from all_u8I [OF this, of c] show ?thesis using assms by simp
qed

text \<open>The characters of data set names, paths and member names survive the other way.\<close>

definition name_char :: "u8 \<Rightarrow> bool" where
  "name_char c \<longleftrightarrow> isupper c \<or> islower c \<or> isdigit c \<or>
     c = ch_dot \<or> c = ch_slash \<or> c = ch_at \<or> c = ch_hash \<or> c = ch_dollar"

lemma name_char_table:
  assumes "name_char c"
  shows "ascii_to_ebcdic_c (ebcdic_to_ascii_c c) = c" and "ebcdic_to_ascii_c c \<noteq> 0x20"
    and "c \<noteq> 0"
proof -
  have "list_all (\<lambda>c. name_char c \<longrightarrow>
      ascii_to_ebcdic_c (ebcdic_to_ascii_c c) = c \<and> ebcdic_to_ascii_c c \<noteq> 0x20 \<and> c \<noteq> 0) all_bytes"
    by code_simp
  from all_u8I [OF this, of c] assms
  show "ascii_to_ebcdic_c (ebcdic_to_ascii_c c) = c" "ebcdic_to_ascii_c c \<noteq> 0x20" "c \<noteq> 0" by simp_all
qed

lemma table_zero [simp]: "ebcdic_to_ascii_c c = 0 \<longleftrightarrow> c = 0" "ascii_to_ebcdic_c c = 0 \<longleftrightarrow> c = 0"
proof -
  have "list_all (\<lambda>c. (ebcdic_to_ascii_c c = 0 \<longleftrightarrow> c = 0) \<and> (ascii_to_ebcdic_c c = 0 \<longleftrightarrow> c = 0)) all_bytes"
    by code_simp
  from all_u8I [OF this, of c]
  show "ebcdic_to_ascii_c c = 0 \<longleftrightarrow> c = 0" "ascii_to_ebcdic_c c = 0 \<longleftrightarrow> c = 0" by simp_all
qed

text \<open>
  Case conversion, and that adding \<^verbatim>\<open>0x20\<close> to an ASCII capital is the lower-casing of the
  EBCDIC character.
\<close>

lemma upper_case_table:
  assumes "isupper c"
  shows "toupper (tolower c) = c" and "toupper c = c" and "islower (tolower c)"
proof -
  have "list_all (\<lambda>c. isupper c \<longrightarrow> toupper (tolower c) = c \<and> toupper c = c \<and> islower (tolower c))
      all_bytes"
    by code_simp
  from all_u8I [OF this, of c] assms
  show "toupper (tolower c) = c" "toupper c = c" "islower (tolower c)" by simp_all
qed

lemma ascii_lower_table:
  assumes "isupper c"
  shows "0x41 \<le> ebcdic_to_ascii_c c" "ebcdic_to_ascii_c c \<le> 0x5A"
    and "ebcdic_to_ascii_c c + 0x20 = ebcdic_to_ascii_c (tolower c)"
proof -
  have "list_all (\<lambda>c. isupper c \<longrightarrow> 0x41 \<le> ebcdic_to_ascii_c c \<and> ebcdic_to_ascii_c c \<le> 0x5A \<and>
      ebcdic_to_ascii_c c + 0x20 = ebcdic_to_ascii_c (tolower c)) all_bytes"
    by code_simp
  from all_u8I [OF this, of c] assms
  show "0x41 \<le> ebcdic_to_ascii_c c" "ebcdic_to_ascii_c c \<le> 0x5A"
    "ebcdic_to_ascii_c c + 0x20 = ebcdic_to_ascii_c (tolower c)" by simp_all
qed

lemma other_case_table:
  assumes "name_char c" and "\<not> isupper c"
  shows "\<not> (0x41 \<le> ebcdic_to_ascii_c c \<and> ebcdic_to_ascii_c c \<le> 0x5A)"
proof -
  have "list_all (\<lambda>c. name_char c \<longrightarrow> \<not> isupper c \<longrightarrow>
      \<not> (0x41 \<le> ebcdic_to_ascii_c c \<and> ebcdic_to_ascii_c c \<le> 0x5A)) all_bytes"
    by code_simp
  from all_u8I [OF this, of c] assms show ?thesis by simp
qed

lemma ascii_of_ebcdic_list:
  "list_all name_char s \<Longrightarrow> ascii_to_ebcdic (ebcdic_to_ascii s) = s"
  by (induction s) (simp_all add: ascii_to_ebcdic_def ebcdic_to_ascii_def name_char_table)

lemma zero_translate [simp]:
  "0 \<in> set (ebcdic_to_ascii s) \<longleftrightarrow> 0 \<in> set s" "0 \<in> set (ascii_to_ebcdic s) \<longleftrightarrow> 0 \<in> set s"
  by (auto simp: ebcdic_to_ascii_def ascii_to_ebcdic_def image_iff intro!: bexI [of _ 0])

lemma translate_length [simp]:
  "length (ebcdic_to_ascii s) = length s" "length (ascii_to_ebcdic s) = length s"
  by (simp_all add: ebcdic_to_ascii_def ascii_to_ebcdic_def)

lemma translate_append [simp]:
  "ebcdic_to_ascii (s @ t) = ebcdic_to_ascii s @ ebcdic_to_ascii t"
  "ascii_to_ebcdic (s @ t) = ascii_to_ebcdic s @ ascii_to_ebcdic t"
  "ebcdic_to_ascii [] = []" "ascii_to_ebcdic [] = []"
  by (simp_all add: ebcdic_to_ascii_def ascii_to_ebcdic_def)

section \<open>Properties of the code pages\<close>

text \<open>
  Text stored by a client reads back unchanged: translating ASCII text to EBCDIC and
  back is the identity, and the translated text has no new NUL bytes and the same length.
\<close>

theorem ebcdic_text_roundtrip:
  assumes "\<forall>c \<in> set s. c < 0x80"
  shows "ebcdic_to_ascii (ascii_to_ebcdic s) = s \<and> length (ascii_to_ebcdic s) = length s \<and>
    (0 \<in> set (ascii_to_ebcdic s) \<longleftrightarrow> 0 \<in> set s)"
  using assms by (auto simp: ebcdic_of_ascii ebcdic_to_ascii_def ascii_to_ebcdic_def intro!: map_idI
      image_eqI [of _ _ 0])

theorem ebcdic_text_roundtrip_witness:
  "ebcdic_to_ascii (ascii_to_ebcdic [0x48, 0x69, 0x0A]) = [0x48, 0x69, 0x0A]"
  using ebcdic_text_roundtrip [of "[0x48, 0x69, 0x0A]"] by simp

end
