(* ===== verification/Cfgopts.thy ===== *)
theory Cfgopts
  imports Ebcdic
begin

text \<open>
  Keyword options of the configuration file, \<^verbatim>\<open>src/src/cfgopts.c\<close>: parsing of the keywords
  behind an export or a data set, and folding both levels into the values of one data set.
  Text is EBCDIC, as in the MVS build; \<open>ebc\<close> is the value of a C string literal there.
\<close>

definition ebc :: "string \<Rightarrow> bytes" where
  "ebc s = map (\<lambda>c. ascii_to_ebcdic_c (of_char c)) s"

definition CFG_PERM_DIR_DEFAULT :: u16 where "CFG_PERM_DIR_DEFAULT = 511"
definition CFG_PERM_MEM_DEFAULT :: u16 where "CFG_PERM_MEM_DEFAULT = 511"
definition CFG_PERM_ROOT_DEFAULT :: u16 where "CFG_PERM_ROOT_DEFAULT = 365"
definition CFG_FILEEXT_MAX :: nat where "CFG_FILEEXT_MAX = 16"

datatype cfg_level = CFG_LEVEL_EXPORT | CFG_LEVEL_DATASET

record cfg_opts_t =
  has_readonly :: bool
  opt_readonly :: bool
  has_dirperm :: bool
  opt_dirperm :: u16
  has_memperm :: bool
  opt_memperm :: u16
  has_rootperm :: bool
  opt_rootperm :: u16
  has_fileext :: bool
  opt_fileext :: bytes
  has_nofileext :: bool

definition cfg_opts_zero :: cfg_opts_t where
  "cfg_opts_zero = \<lparr>has_readonly = False, opt_readonly = False, has_dirperm = False, opt_dirperm = 0,
     has_memperm = False, opt_memperm = 0, has_rootperm = False, opt_rootperm = 0,
     has_fileext = False, opt_fileext = [], has_nofileext = False\<rparr>"

fun cfg_stricmp :: "bytes \<Rightarrow> bytes \<Rightarrow> int" where
  "cfg_stricmp [] [] = 0"
| "cfg_stricmp [] (b # bs) = - uint b"
| "cfg_stricmp (a # as) [] = uint a"
| "cfg_stricmp (a # as) (b # bs) =
     (if toupper a \<noteq> toupper b then uint (toupper a) - uint (toupper b) else cfg_stricmp as bs)"

text \<open>
  \<^verbatim>\<open>strtol(v, &end, 8)\<close>: white space, a sign, octal digits; the value and the text at
  \<^verbatim>\<open>end\<close>, which is \<open>v\<close> itself when there is no digit.
\<close>

fun octal_digits :: "int \<Rightarrow> bytes \<Rightarrow> int \<times> bytes" where
  "octal_digits acc [] = (acc, [])"
| "octal_digits acc (c # s) =
     (if 0xF0 \<le> c \<and> c \<le> 0xF7 then octal_digits (8 * acc + uint (c - 0xF0)) s else (acc, c # s))"

definition strtol8 :: "bytes \<Rightarrow> int \<times> bytes" where
  "strtol8 v =
     (let s = dropWhile isspace v;
          (neg, s1) = (case s of [] \<Rightarrow> (False, s)
                       | c # s' \<Rightarrow> if c = 0x60 then (True, s') else if c = 0x4E then (False, s') else (False, s));
          (n, rest) = octal_digits 0 s1
      in if length rest = length s1 then (0, v) else (if neg then - n else n, rest))"

definition cfg_parse_octal :: "bytes \<Rightarrow> u16 option" where
  "cfg_parse_octal v =
     (if v = [] then None
      else let (val, rest) = strtol8 v in
        if rest \<noteq> [] then None
        else if val < 0 \<or> 511 < val then None
        else Some (of_int val))"

fun cfg_kw_match :: "bytes \<Rightarrow> bytes \<Rightarrow> bytes option" where
  "cfg_kw_match [] [] = None"
| "cfg_kw_match (c # val) [] = (if c = ch_equals then Some val else None)"
| "cfg_kw_match [] (k # key) = None"
| "cfg_kw_match (t # tok) (k # key) = (if toupper t \<noteq> toupper k then None else cfg_kw_match tok key)"

text \<open>
  Each result below is whether the call succeeds and the options as it leaves them. A bad
  character stops the copy of the extension half-way.
\<close>

definition cfg_set_fileext :: "bytes \<Rightarrow> cfg_opts_t \<Rightarrow> bool \<times> cfg_opts_t" where
  "cfg_set_fileext val out =
     (if val = [] then (False, out)
      else if CFG_FILEEXT_MAX - 1 < length val then (False, out)
      else let good = takeWhile (\<lambda>c. c \<noteq> ch_dot \<and> c \<noteq> ch_slash) val in
        if length good < length val
        then (False, out\<lparr>opt_fileext := map tolower good @ drop (length good) (opt_fileext out)\<rparr>)
        else (True, out\<lparr>opt_fileext := map tolower val, has_fileext := True\<rparr>))"

definition cfg_parse_keyword :: "bytes \<Rightarrow> cfg_level \<Rightarrow> cfg_opts_t \<Rightarrow> bool \<times> cfg_opts_t" where
  "cfg_parse_keyword t level out =
     (if cfg_stricmp t (ebc ''RO'') = 0 then (True, out\<lparr>has_readonly := True, opt_readonly := True\<rparr>)
      else if cfg_stricmp t (ebc ''RW'') = 0 then (True, out\<lparr>has_readonly := True, opt_readonly := False\<rparr>)
      else case cfg_kw_match t (ebc ''DIRPERM'') of
        Some val \<Rightarrow> (case cfg_parse_octal val of None \<Rightarrow> (False, out)
                     | Some p \<Rightarrow> (True, out\<lparr>opt_dirperm := p, has_dirperm := True\<rparr>))
      | None \<Rightarrow> (case cfg_kw_match t (ebc ''MEMPERM'') of
        Some val \<Rightarrow> (case cfg_parse_octal val of None \<Rightarrow> (False, out)
                     | Some p \<Rightarrow> (True, out\<lparr>opt_memperm := p, has_memperm := True\<rparr>))
      | None \<Rightarrow> (case cfg_kw_match t (ebc ''ROOTPERM'') of
        Some val \<Rightarrow> if level \<noteq> CFG_LEVEL_EXPORT then (False, out)
                    else (case cfg_parse_octal val of None \<Rightarrow> (False, out)
                          | Some p \<Rightarrow> (True, out\<lparr>opt_rootperm := p, has_rootperm := True\<rparr>))
      | None \<Rightarrow> (case cfg_kw_match t (ebc ''FILEEXT'') of
        Some val \<Rightarrow> cfg_set_fileext val out
      | None \<Rightarrow> if cfg_stricmp t (ebc ''NOFILEEXT'') = 0 then (True, out\<lparr>has_nofileext := True\<rparr>)
                else (False, out)))))"

fun cfg_parse_keywords_loop :: "bytes list \<Rightarrow> cfg_level \<Rightarrow> cfg_opts_t \<Rightarrow> bool \<times> cfg_opts_t" where
  "cfg_parse_keywords_loop [] level out = (True, out)"
| "cfg_parse_keywords_loop (t # toks) level out =
     (let (ok, out') = cfg_parse_keyword t level out in
      if ok then cfg_parse_keywords_loop toks level out' else (False, out'))"

definition cfg_parse_keywords :: "bytes list \<Rightarrow> cfg_level \<Rightarrow> bool \<times> cfg_opts_t" where
  "cfg_parse_keywords toks level =
     (let (ok, out) = cfg_parse_keywords_loop toks level cfg_opts_zero in
      if \<not> ok then (False, out)
      else if has_fileext out \<and> has_nofileext out then (False, out)
      else (True, out))"

text \<open>The resolved read-only flag, permissions and extension, or nothing on a conflict.\<close>

definition cfg_resolve_opts ::
  "cfg_opts_t option \<Rightarrow> cfg_opts_t \<Rightarrow> bytes \<Rightarrow> (bool \<times> u16 \<times> u16 \<times> bytes) option" where
  "cfg_resolve_opts exp_opts ds_opts fileext =
     (let (ro0, dp0, mp0) =
            (case exp_opts of None \<Rightarrow> (False, CFG_PERM_DIR_DEFAULT, CFG_PERM_MEM_DEFAULT)
             | Some e \<Rightarrow> (has_readonly e \<and> opt_readonly e,
                          if has_dirperm e then opt_dirperm e else CFG_PERM_DIR_DEFAULT,
                          if has_memperm e then opt_memperm e else CFG_PERM_MEM_DEFAULT));
          dp = (if has_dirperm ds_opts then opt_dirperm ds_opts else dp0);
          mp = (if has_memperm ds_opts then opt_memperm ds_opts else mp0);
          conflict = (has_readonly ds_opts \<and> \<not> opt_readonly ds_opts \<and>
                      (case exp_opts of None \<Rightarrow> False | Some e \<Rightarrow> has_readonly e \<and> opt_readonly e));
          ro = (if has_readonly ds_opts then opt_readonly ds_opts else ro0);
          fe0 = (case exp_opts of None \<Rightarrow> fileext
                 | Some e \<Rightarrow> if has_fileext e then strncpyz CFG_FILEEXT_MAX (opt_fileext e)
                             else if has_nofileext e then [] else fileext);
          fe = (if has_fileext ds_opts then strncpyz CFG_FILEEXT_MAX (opt_fileext ds_opts)
                else if has_nofileext ds_opts then [] else fe0)
      in if conflict then None else Some (ro, dp, mp, fe))"

section \<open>Properties of the options\<close>

text \<open>
  Read-only is a ceiling: with a read-only export, every data set the options are
  resolved for is read-only; a data set that asks for write access there is a configuration
  error, and without a word from either level a data set is writable.
\<close>

theorem cfg_readonly_ceiling:
  assumes "has_readonly e" and "opt_readonly e"
  shows "(has_readonly d \<and> \<not> opt_readonly d \<longrightarrow> cfg_resolve_opts (Some e) d fe = None) \<and>
    (cfg_resolve_opts (Some e) d fe = Some (ro, dp, mp, fe') \<longrightarrow> ro) \<and>
    (\<not> has_readonly d \<longrightarrow> (\<exists>dp mp fe'. cfg_resolve_opts None d fe = Some (False, dp, mp, fe')))"
proof (intro conjI impI)
  show "cfg_resolve_opts (Some e) d fe = None" if "has_readonly d \<and> \<not> opt_readonly d"
    using assms that by (simp add: cfg_resolve_opts_def Let_def)
  show ro if "cfg_resolve_opts (Some e) d fe = Some (ro, dp, mp, fe')"
    using assms that by (cases "has_readonly d"; cases "opt_readonly d")
      (simp_all add: cfg_resolve_opts_def Let_def split del: if_split)
  show "\<exists>dp mp fe'. cfg_resolve_opts None d fe = Some (False, dp, mp, fe')" if "\<not> has_readonly d"
    using that by (simp add: cfg_resolve_opts_def Let_def split del: if_split)
qed

theorem cfg_readonly_ceiling_witness:
  "cfg_resolve_opts (Some (cfg_opts_zero\<lparr>has_readonly := True, opt_readonly := True\<rparr>))
     (cfg_opts_zero\<lparr>has_readonly := True\<rparr>) [] = None"
  using cfg_readonly_ceiling [of "cfg_opts_zero\<lparr>has_readonly := True, opt_readonly := True\<rparr>"
      "cfg_opts_zero\<lparr>has_readonly := True\<rparr>" "[]"]
  by (simp add: cfg_opts_zero_def)

section \<open>Extensions\<close>

text \<open>An extension that was accepted can be told apart from the name in a path.\<close>

lemma cfg_set_fileext_ok:
  assumes "cfg_set_fileext val out = (True, out')"
  shows "opt_fileext out' = map tolower val" and "val \<noteq> []" and "length val < CFG_FILEEXT_MAX"
    and "ch_dot \<notin> set val" and "ch_slash \<notin> set val"
proof -
  have good: "length (takeWhile (\<lambda>c. c \<noteq> ch_dot \<and> c \<noteq> ch_slash) val) = length val"
    using assms length_takeWhile_le [of "\<lambda>c. c \<noteq> ch_dot \<and> c \<noteq> ch_slash" val]
    by (auto simp: cfg_set_fileext_def Let_def split: if_splits)
  then have "takeWhile (\<lambda>c. c \<noteq> ch_dot \<and> c \<noteq> ch_slash) val = val"
    using takeWhile_eq_take [of "\<lambda>c. c \<noteq> ch_dot \<and> c \<noteq> ch_slash" val] by simp
  then show "ch_dot \<notin> set val" "ch_slash \<notin> set val"
    by (auto simp: takeWhile_eq_all_conv)
  show "opt_fileext out' = map tolower val" "val \<noteq> []" "length val < CFG_FILEEXT_MAX"
    using assms by (auto simp: cfg_set_fileext_def Let_def CFG_FILEEXT_MAX_def split: if_splits)
qed

end
