(* ===== verification/Blkcalc.thy ===== *)
theory Blkcalc
  imports Ebcdic
begin

text \<open>
  Space prediction, the calculation part of \<^verbatim>\<open>src/src/mvsblkc.c\<close>: how many blocks the text
  of a member needs once it is cut into records (\<^verbatim>\<open>blkcalc_info_t\<close>, folded over the data as
  it arrives), how many blocks a data set has left behind a given TTR, and the decoding of
  a DSCB with the track capacities of \<^verbatim>\<open>src/src/mvsutl.c\<close>. Fields of C type \<^verbatim>\<open>int\<close> are
  \<open>int\<close> (they count blocks and characters of one member); \<^verbatim>\<open>uint32_t\<close> computations are on
  32-bit words.
\<close>

section \<open>Counting blocks\<close>

text \<open>\<open>RECFM_0\<close> is the value of a zeroed structure.\<close>

datatype blkcalc_recfm_t = RECFM_0 | RECFM_F | RECFM_V | RECFM_U

record blkcalc_info_t =
  dcb_recfm :: blkcalc_recfm_t
  dcb_blksize :: int
  dcb_lrecl :: int
  count_full_blocks :: int
  size_last_partial_block :: int
  last_unterm_text_line_chars :: int
  consumed_upto :: u32
  last_need :: u32
  last_avail :: u32

definition blkcalc_zero :: blkcalc_info_t where
  "blkcalc_zero = \<lparr>dcb_recfm = RECFM_0, dcb_blksize = 0, dcb_lrecl = 0, count_full_blocks = 0,
     size_last_partial_block = 0, last_unterm_text_line_chars = 0, consumed_upto = 0,
     last_need = 0, last_avail = 0\<rparr>"

definition blkc_recs_for_line :: "int \<Rightarrow> int \<Rightarrow> int" where
  "blkc_recs_for_line n reclen =
     (if reclen \<le> 0 then 0 else if n \<le> 0 then 1 else (n + reclen - 1) div reclen)"

definition blkc_emit_line_f :: "blkcalc_info_t \<Rightarrow> int \<Rightarrow> blkcalc_info_t" where
  "blkc_emit_line_f bi n =
     (if dcb_lrecl bi \<le> 0 \<or> dcb_blksize bi \<le> 0 then bi
      else let recs_per_blk = dcb_blksize bi div dcb_lrecl bi in
        if recs_per_blk \<le> 0 then bi
        else let recs_open = size_last_partial_block bi div dcb_lrecl bi;
                 tot = recs_open + blkc_recs_for_line n (dcb_lrecl bi)
          in bi\<lparr>count_full_blocks := count_full_blocks bi + tot div recs_per_blk,
                size_last_partial_block := (tot mod recs_per_blk) * dcb_lrecl bi\<rparr>)"

text \<open>One record of the variable format: \<open>chunk\<close> data bytes behind a four-byte prefix.\<close>

definition blkc_put_rec_v :: "blkcalc_info_t \<Rightarrow> int \<Rightarrow> blkcalc_info_t" where
  "blkc_put_rec_v bi chunk =
     (let reclen = 4 + chunk;
          part = (if size_last_partial_block bi = 0 then 4 else size_last_partial_block bi)
      in if dcb_blksize bi < part + reclen
         then bi\<lparr>count_full_blocks := count_full_blocks bi + 1, size_last_partial_block := 4 + reclen\<rparr>
         else bi\<lparr>size_last_partial_block := part + reclen\<rparr>)"

fun blkc_emit_v_loop :: "nat \<Rightarrow> int \<Rightarrow> int \<Rightarrow> blkcalc_info_t \<Rightarrow> blkcalc_info_t" where
  "blkc_emit_v_loop 0 data_max left bi = bi"
| "blkc_emit_v_loop (Suc k) data_max left bi =
     (let chunk = (if data_max < left then data_max else left);
          chunk' = (if chunk < 0 then 0 else chunk)
      in blkc_emit_v_loop k data_max (left - chunk') (blkc_put_rec_v bi chunk'))"

definition blkc_emit_line_v :: "blkcalc_info_t \<Rightarrow> int \<Rightarrow> blkcalc_info_t" where
  "blkc_emit_line_v bi n =
     (let data_max = dcb_lrecl bi - 4 in
      if data_max \<le> 0 then bi
      else blkc_emit_v_loop (nat (blkc_recs_for_line n data_max)) data_max n bi)"

definition blkc_emit_line :: "blkcalc_info_t \<Rightarrow> int \<Rightarrow> blkcalc_info_t" where
  "blkc_emit_line bi n =
     (if dcb_recfm bi = RECFM_V then blkc_emit_line_v bi n else blkc_emit_line_f bi n)"

definition blkcalc_info_init :: "blkcalc_recfm_t \<Rightarrow> int \<Rightarrow> int \<Rightarrow> blkcalc_info_t" where
  "blkcalc_info_init recfm block_size logical_rec_len =
     blkcalc_zero\<lparr>dcb_recfm := recfm, dcb_blksize := block_size, dcb_lrecl := logical_rec_len\<rparr>"

fun blkcalc_scan :: "blkcalc_info_t \<Rightarrow> int \<Rightarrow> bytes \<Rightarrow> blkcalc_info_t \<times> int" where
  "blkcalc_scan bi run [] = (bi, run)"
| "blkcalc_scan bi run (b # bs) =
     (if b = 0x0A then blkcalc_scan (blkc_emit_line bi run) 0 bs else blkcalc_scan bi (run + 1) bs)"

definition blkcalc_add_blocks_for_data :: "blkcalc_info_t \<Rightarrow> bytes \<Rightarrow> blkcalc_info_t" where
  "blkcalc_add_blocks_for_data bi buff =
     (let (bi', run) = blkcalc_scan bi (last_unterm_text_line_chars bi) buff
      in bi'\<lparr>last_unterm_text_line_chars := run\<rparr>)"

definition blkcalc_total_blocks :: "blkcalc_info_t \<Rightarrow> int" where
  "blkcalc_total_blocks bi =
     (let tmp = (if 0 < last_unterm_text_line_chars bi
                 then (blkc_emit_line bi (last_unterm_text_line_chars bi))
                        \<lparr>last_unterm_text_line_chars := 0\<rparr>
                 else bi)
      in count_full_blocks tmp + (if 0 < size_last_partial_block tmp then 1 else 0))"

section \<open>Track capacity\<close>

definition MVS_DEV_3350 :: u8 where "MVS_DEV_3350 = 0x0B"
definition MVS_DEV_3380 :: u8 where "MVS_DEV_3380 = 0x0E"
definition MVS_DEV_3390 :: u8 where "MVS_DEV_3390 = 0x0F"

definition g_cap_3390 :: "(u32 \<times> int) list" where
  "g_cap_3390 =
     [(27999, 1), (18453, 2), (13683, 3), (10797, 4), (8907, 5), (7549, 6), (6519, 7), (5727, 8),
      (5065, 9), (4567, 10), (4137, 11), (3769, 12), (3441, 13), (3175, 14), (2943, 15), (2711, 16),
      (2547, 17), (2377, 18), (2213, 19), (2083, 20), (1947, 21), (1851, 22), (1749, 23), (1647, 24),
      (1551, 25), (1483, 26), (1387, 27), (1319, 28), (1251, 29), (1183, 30), (1155, 31), (1087, 32),
      (1019, 33), (985, 34), (951, 35), (889, 36), (855, 37), (821, 38), (787, 39), (753, 40),
      (719, 41), (691, 42), (657, 43), (623, 44), (589, 45), (555, 46), (521, 48), (487, 49),
      (459, 50), (425, 52), (391, 54), (357, 55), (323, 57), (289, 59), (255, 61), (227, 64),
      (193, 66), (159, 69), (125, 72), (91, 75), (57, 78), (23, 82), (1, 86)]"

fun trkcap_lookup :: "(u32 \<times> int) list \<Rightarrow> u32 \<Rightarrow> int" where
  "trkcap_lookup [] blksize = 0"
| "trkcap_lookup ((min_len, nrec) # rows) blksize =
     (if min_len \<le> blksize then nrec else trkcap_lookup rows blksize)"

definition mvs_blocks_per_track :: "u8 \<Rightarrow> u32 \<Rightarrow> u32 \<Rightarrow> int" where
  "mvs_blocks_per_track devcode trklen blksize =
     (if blksize = 0 then 0
      else if devcode = MVS_DEV_3390 then
        (if 56664 < blksize then 0 else trkcap_lookup g_cap_3390 blksize)
      else if devcode = MVS_DEV_3380 then uint (1499 div (15 + (blksize + 12 + 31) div 32))
      else if devcode = MVS_DEV_3350 then uint (19254 div (185 + blksize))
      else if trklen = 0 then 0
      else uint (trklen div blksize))"

section \<open>Data set control blocks\<close>

text \<open>The raw block as the assembler routine fills it (the fields the C code reads).\<close>

record mvs_dscb_info_t =
  raw_status :: u8
  raw_volser :: bytes
  raw_nextents :: u8
  raw_tracks :: u32
  raw_create_date :: bytes
  raw_ref_date :: bytes
  raw_dsorg :: bytes
  raw_recfm :: u8
  raw_blksize :: bytes
  raw_lrecl :: bytes
  raw_devtype :: bytes
  raw_trklen :: bytes
  raw_trkcyl :: bytes
  raw_sec_flags :: u8
  raw_sec_qty :: u32
  raw_sec_tracks :: u32
  raw_lstar :: bytes
  raw_trbal :: bytes

definition MVS_DSCB_ST_OK :: u8 where "MVS_DSCB_ST_OK = 0"

record dataset_dscb_info_t =
  valid :: bool
  dsorg :: u8
  recfm :: u8
  nextents :: u8
  blksize :: u16
  lrecl :: u16
  volser :: bytes
  devcode :: u8
  trklen :: u32
  trkcyl :: u32
  tracks :: u32
  sec_qty :: u32
  sec_tracks :: u32
  sec_flags :: u8
  blocks_per_track :: int
  create_date :: u32
  ref_date :: u32
  lstar_tt :: u32
  lstar_r :: u8
  trbal :: u16

definition dscb_zero :: dataset_dscb_info_t where
  "dscb_zero = \<lparr>valid = False, dsorg = 0, recfm = 0, nextents = 0, blksize = 0, lrecl = 0,
     volser = [], devcode = 0, trklen = 0, trkcyl = 0, tracks = 0, sec_qty = 0, sec_tracks = 0,
     sec_flags = 0, blocks_per_track = 0, create_date = 0, ref_date = 0, lstar_tt = 0,
     lstar_r = 0, trbal = 0\<rparr>"

definition MVS_DSCB_U16 :: "bytes \<Rightarrow> u16" where
  "MVS_DSCB_U16 f = push_bit 8 (ucast (byte_at f 0)) OR ucast (byte_at f 1)"

definition blkc_date :: "bytes \<Rightarrow> u32" where
  "blkc_date d =
     (if byte_at d 0 = 0 \<and> byte_at d 1 = 0 \<and> byte_at d 2 = 0 then 0
      else ((if byte_at d 0 < 70 then 2000 else 1900) + ucast (byte_at d 0)) * 1000 +
           (push_bit 8 (ucast (byte_at d 1)) OR ucast (byte_at d 2)))"

text \<open>The result is the structure and whether it is usable (return value 0).\<close>

definition blkcalc_dataset_init :: "mvs_dscb_info_t \<Rightarrow> dataset_dscb_info_t \<times> bool" where
  "blkcalc_dataset_init raw =
     (if raw_status raw \<noteq> MVS_DSCB_ST_OK then (dscb_zero, False)
      else
        let bs = MVS_DSCB_U16 (raw_blksize raw);
            dev = byte_at (raw_devtype raw) 3;
            tl = ucast (MVS_DSCB_U16 (raw_trklen raw));
            n = mvs_blocks_per_track dev tl (ucast bs);
            sec = (if raw_sec_tracks raw = 0 \<and> 0 < raw_sec_qty raw \<and> raw_sec_flags raw AND 0xC0 = 0x40
                   then (if 0 < n then (raw_sec_qty raw + of_int n - 1) div of_int n else 0)
                   else raw_sec_tracks raw);
            lr = MVS_DSCB_U16 (raw_lrecl raw);
            ok = (0 < n \<and> 0 < bs \<and> 0 < lr \<and> 0 < raw_tracks raw)
        in (\<lparr>valid = ok, dsorg = byte_at (raw_dsorg raw) 0, recfm = raw_recfm raw,
             nextents = raw_nextents raw, blksize = bs, lrecl = lr,
             volser = strip_trailing ch_space (take 6 (raw_volser raw)),
             devcode = dev, trklen = tl, trkcyl = ucast (MVS_DSCB_U16 (raw_trkcyl raw)),
             tracks = raw_tracks raw, sec_qty = raw_sec_qty raw, sec_tracks = sec,
             sec_flags = raw_sec_flags raw, blocks_per_track = n,
             create_date = blkc_date (raw_create_date raw), ref_date = blkc_date (raw_ref_date raw),
             lstar_tt = ucast (MVS_DSCB_U16 (raw_lstar raw)), lstar_r = byte_at (raw_lstar raw) 2,
             trbal = MVS_DSCB_U16 (raw_trbal raw)\<rparr>, ok))"

definition blkc_recfm_of :: "u8 \<Rightarrow> blkcalc_recfm_t" where
  "blkc_recfm_of r =
     (if r AND 0xC0 = 0x80 then RECFM_F else if r AND 0xC0 = 0x40 then RECFM_V else RECFM_U)"

section \<open>Room behind a block\<close>

definition BLKC_TTR :: "u32 \<Rightarrow> u32 \<Rightarrow> u32" where
  "BLKC_TTR tt r = push_bit 8 tt OR (r AND 0xFF)"

definition BLKC_TTR_TT :: "u32 \<Rightarrow> u32" where "BLKC_TTR_TT ttr = drop_bit 8 ttr"
definition BLKC_TTR_R :: "u32 \<Rightarrow> u32" where "BLKC_TTR_R ttr = ttr AND 0xFF"
definition BLKC_MAX_EXTENTS :: u32 where "BLKC_MAX_EXTENTS = 16"

definition blkc_track_room :: "dataset_dscb_info_t \<Rightarrow> u32 \<Rightarrow> u32 \<Rightarrow> u32" where
  "blkc_track_room ds tt r =
     (let bpt = of_int (blocks_per_track ds) in
      if bpt = 0 then 0
      else let room =
          (if tt = lstar_tt ds then
             let slot = trklen ds div bpt;
                 room0 = (if 0 < slot then ucast (trbal ds) div slot else 0);
                 room1 = (if bpt < room0 then bpt else room0)
             in if ucast (lstar_r ds) < r
                then let used = r - ucast (lstar_r ds) in if used < room1 then room1 - used else 0
                else room1
           else if r < bpt then bpt - r else 0)
        in if 255 < r + room then (if r < 255 then 255 - r else 0) else room)"

definition blkc_blocks_available :: "dataset_dscb_info_t \<Rightarrow> u32 \<Rightarrow> u32" where
  "blkc_blocks_available ds last_block_ttr =
     (let bpt = of_int (blocks_per_track ds);
          tt = BLKC_TTR_TT last_block_ttr;
          r = BLKC_TTR_R last_block_ttr
      in if bpt = 0 then 0
         else let a0 = blkc_track_room ds tt r;
                  a1 = (if tt + 1 < tracks ds then a0 + (tracks ds - tt - 1) * bpt else a0)
           in if 0 < sec_tracks ds \<and> ucast (nextents ds) < BLKC_MAX_EXTENTS
              then a1 + sec_tracks ds * (BLKC_MAX_EXTENTS - ucast (nextents ds)) * bpt
              else a1)"

definition blkc_ttr_add :: "dataset_dscb_info_t \<Rightarrow> u32 \<Rightarrow> u32 \<Rightarrow> u32" where
  "blkc_ttr_add ds last_block_ttr nblocks =
     (let bpt = of_int (blocks_per_track ds);
          tt = BLKC_TTR_TT last_block_ttr;
          r = BLKC_TTR_R last_block_ttr
      in if bpt = 0 \<or> nblocks = 0 then last_block_ttr
         else let room = blkc_track_room ds tt r in
           if nblocks \<le> room then BLKC_TTR tt (r + nblocks)
           else let n = nblocks - room;
                    trks = (n + bpt - 1) div bpt
             in BLKC_TTR (tt + trks) (n - (trks - 1) * bpt))"

definition blkc_need :: "blkcalc_info_t \<Rightarrow> u32" where
  "blkc_need bi = (let n = of_int (blkcalc_total_blocks bi) in if n = 0 then 1 else n)"

text \<open>
  The result is whether the member fits and the predicted last block, which is left as it
  was when the arguments are unusable.
\<close>

definition blkcalc_will_member_fit ::
  "blkcalc_info_t \<Rightarrow> dataset_dscb_info_t \<Rightarrow> u32 \<Rightarrow> u32 \<Rightarrow> bool \<times> u32" where
  "blkcalc_will_member_fit bi ds last_block_ttr predicted =
     (if \<not> valid ds \<or> blocks_per_track ds \<le> 0 then (False, predicted)
      else let need = blkc_need bi;
               avail = blkc_blocks_available ds last_block_ttr
        in (need \<le> avail, blkc_ttr_add ds last_block_ttr need))"

section \<open>Feeding data in pieces\<close>

lemma blkc_put_rec_v_unterm:
  "blkc_put_rec_v (bi\<lparr>last_unterm_text_line_chars := r\<rparr>) c =
     (blkc_put_rec_v bi c)\<lparr>last_unterm_text_line_chars := r\<rparr>"
  by (simp add: blkc_put_rec_v_def Let_def)

lemma blkc_emit_v_loop_unterm:
  "blkc_emit_v_loop k m left (bi\<lparr>last_unterm_text_line_chars := r\<rparr>) =
     (blkc_emit_v_loop k m left bi)\<lparr>last_unterm_text_line_chars := r\<rparr>"
  by (induction k arbitrary: left bi) (simp_all add: Let_def blkc_put_rec_v_unterm)

lemma blkc_emit_line_unterm:
  "blkc_emit_line (bi\<lparr>last_unterm_text_line_chars := r\<rparr>) n =
     (blkc_emit_line bi n)\<lparr>last_unterm_text_line_chars := r\<rparr>"
  by (simp add: blkc_emit_line_def blkc_emit_line_v_def blkc_emit_line_f_def Let_def
      blkc_emit_v_loop_unterm)

lemma blkcalc_scan_unterm:
  "blkcalc_scan (bi\<lparr>last_unterm_text_line_chars := r\<rparr>) run s =
     (let (bi', run') = blkcalc_scan bi run s in (bi'\<lparr>last_unterm_text_line_chars := r\<rparr>, run'))"
  by (induction s arbitrary: bi run) (simp_all add: blkc_emit_line_unterm)

lemma blkcalc_scan_append:
  "blkcalc_scan bi run (s @ t) = (let (bi', run') = blkcalc_scan bi run s in blkcalc_scan bi' run' t)"
  by (induction s arbitrary: bi run) simp_all

lemma blkcalc_add_append:
  "blkcalc_add_blocks_for_data bi (s @ t) =
     blkcalc_add_blocks_for_data (blkcalc_add_blocks_for_data bi s) t"
  by (simp add: blkcalc_add_blocks_for_data_def blkcalc_scan_append blkcalc_scan_unterm split_def
      Let_def)

lemma blkcalc_add_Nil [simp]: "blkcalc_add_blocks_for_data bi [] = bi"
  by (simp add: blkcalc_add_blocks_for_data_def)

lemma blkc_emit_keeps [simp]:
  "dcb_recfm (blkc_emit_line bi n) = dcb_recfm bi" "dcb_blksize (blkc_emit_line bi n) = dcb_blksize bi"
  "dcb_lrecl (blkc_emit_line bi n) = dcb_lrecl bi"
  "consumed_upto (blkc_emit_line bi n) = consumed_upto bi"
  "last_unterm_text_line_chars (blkc_emit_line bi n) = last_unterm_text_line_chars bi"
proof -
  have v: "dcb_recfm (blkc_emit_v_loop k m left b) = dcb_recfm b \<and>
      dcb_blksize (blkc_emit_v_loop k m left b) = dcb_blksize b \<and>
      dcb_lrecl (blkc_emit_v_loop k m left b) = dcb_lrecl b \<and>
      consumed_upto (blkc_emit_v_loop k m left b) = consumed_upto b \<and>
      last_unterm_text_line_chars (blkc_emit_v_loop k m left b) = last_unterm_text_line_chars b"
    for k m left b
    by (induction k arbitrary: left b) (simp_all add: Let_def blkc_put_rec_v_def)
  show "dcb_recfm (blkc_emit_line bi n) = dcb_recfm bi"
    "dcb_blksize (blkc_emit_line bi n) = dcb_blksize bi"
    "dcb_lrecl (blkc_emit_line bi n) = dcb_lrecl bi"
    "consumed_upto (blkc_emit_line bi n) = consumed_upto bi"
    "last_unterm_text_line_chars (blkc_emit_line bi n) = last_unterm_text_line_chars bi"
    by (simp_all add: blkc_emit_line_def blkc_emit_line_v_def blkc_emit_line_f_def Let_def v)
qed

section \<open>Text lines\<close>

text \<open>The lengths of the terminated lines of a text, and of the characters behind the last one.\<close>

fun text_lines :: "int \<Rightarrow> bytes \<Rightarrow> int list \<times> int" where
  "text_lines run [] = ([], run)"
| "text_lines run (b # bs) =
     (if b = 0x0A then let (ls, tail) = text_lines 0 bs in (run # ls, tail)
      else text_lines (run + 1) bs)"

lemma blkcalc_scan_lines:
  "blkcalc_scan bi run s = (foldl blkc_emit_line bi (fst (text_lines run s)), snd (text_lines run s))"
  by (induction s arbitrary: bi run) (simp_all add: split_def Let_def)

lemma text_lines_nonneg:
  "0 \<le> run \<Longrightarrow> (\<forall>n \<in> set (fst (text_lines run s)). 0 \<le> n) \<and> 0 \<le> snd (text_lines run s)"
proof (induction s arbitrary: run)
  case (Cons b s)
  have z: "(\<forall>n \<in> set (fst (text_lines 0 s)). 0 \<le> n) \<and> 0 \<le> snd (text_lines 0 s)"
    by (rule Cons.IH) simp
  have "(\<forall>n \<in> set (fst (text_lines (run + 1) s)). 0 \<le> n) \<and> 0 \<le> snd (text_lines (run + 1) s)"
    by (rule Cons.IH) (use Cons.prems in simp)
  with z Cons.prems show ?case by (cases "b = 0x0A") (auto simp: split_def Let_def)
qed simp

text \<open>All lines of a text, the unterminated one included when it is not empty.\<close>

definition all_lines :: "bytes \<Rightarrow> int list" where
  "all_lines s = fst (text_lines 0 s) @ (if 0 < snd (text_lines 0 s) then [snd (text_lines 0 s)] else [])"

lemma all_lines_nonneg: "n \<in> set (all_lines s) \<Longrightarrow> 0 \<le> n"
  using text_lines_nonneg [of 0 s] by (auto simp: all_lines_def split: if_splits)

lemma blkcalc_total_lines:
  assumes "bi = blkcalc_info_init rf bs lr"
  shows "blkcalc_total_blocks (blkcalc_add_blocks_for_data bi s) =
    (let b = foldl blkc_emit_line bi (all_lines s)
     in count_full_blocks b + (if 0 < size_last_partial_block b then 1 else 0))"
  using assms
  by (simp add: blkcalc_total_blocks_def blkcalc_add_blocks_for_data_def blkcalc_scan_lines
      blkcalc_info_init_def blkcalc_zero_def all_lines_def Let_def blkc_emit_line_unterm)

section \<open>Fixed-length records\<close>

text \<open>The number of records so far, when the block count and the open block are in step.\<close>

definition f_state :: "int \<Rightarrow> int \<Rightarrow> int \<Rightarrow> blkcalc_info_t \<Rightarrow> bool" where
  "f_state bs lr recs bi \<longleftrightarrow>
     dcb_recfm bi \<noteq> RECFM_V \<and> dcb_blksize bi = bs \<and> dcb_lrecl bi = lr \<and>
     count_full_blocks bi = recs div (bs div lr) \<and>
     size_last_partial_block bi = recs mod (bs div lr) * lr"

lemma f_state_emit:
  assumes "f_state bs lr recs bi" and "0 < lr" and "lr \<le> bs" and "0 \<le> n"
  shows "f_state bs lr (recs + blkc_recs_for_line n lr) (blkc_emit_line bi n)"
proof -
  define q where "q = bs div lr"
  have q: "0 < q" using assms(2,3) by (simp add: q_def pos_imp_zdiv_pos_iff)
  have st: "count_full_blocks bi = recs div q" "size_last_partial_block bi = recs mod q * lr"
    "dcb_lrecl bi = lr" "dcb_blksize bi = bs" "dcb_recfm bi \<noteq> RECFM_V"
    using assms(1) by (simp_all add: f_state_def q_def)
  let ?t = "recs mod q + blkc_recs_for_line n lr"
  have "recs + blkc_recs_for_line n lr = ?t + q * (recs div q)" by simp
  then have "(recs + blkc_recs_for_line n lr) div q = recs div q + ?t div q"
    and "(recs + blkc_recs_for_line n lr) mod q = ?t mod q"
    using q div_mult_self2 [of q ?t "recs div q"] by (simp_all only: mod_mult_self2)
  then show ?thesis
    using st q assms(2,3)
    by (simp add: f_state_def blkc_emit_line_def blkc_emit_line_f_def Let_def flip: q_def)
qed

lemma f_state_fold:
  assumes "0 < lr" and "lr \<le> bs" and "\<forall>n \<in> set ls. 0 \<le> n" and "f_state bs lr recs bi"
  shows "f_state bs lr (recs + (\<Sum>n\<leftarrow>ls. blkc_recs_for_line n lr)) (foldl blkc_emit_line bi ls)"
  using assms
proof (induction ls arbitrary: recs bi)
  case (Cons n ls)
  then show ?case
    using f_state_emit [of bs lr recs bi n] Cons(1) [of "recs + blkc_recs_for_line n lr"]
    by (simp add: add.assoc)
qed simp

section \<open>Variable-length records\<close>

lemma blkc_recs_cover:
  assumes "0 < l" and "0 \<le> n"
  shows "n \<le> blkc_recs_for_line n l * l" and "1 \<le> blkc_recs_for_line n l"
proof -
  have m: "(n + l - 1) mod l < l" using assms(1) by simp
  have "(n + l - 1) div l * l = n + l - 1 - (n + l - 1) mod l"
    by (simp add: minus_mod_eq_div_mult)
  then have "n \<le> (n + l - 1) div l * l" using m by linarith
  then show "n \<le> blkc_recs_for_line n l * l"
    using assms by (simp add: blkc_recs_for_line_def)
  show "1 \<le> blkc_recs_for_line n l"
  proof (cases "n = 0")
    case False
    then have "l \<le> n + l - 1" using assms by simp
    then have "1 \<le> (n + l - 1) div l" using assms by (simp add: pos_imp_zdiv_pos_iff int_one_le_iff_zero_less)
    then show ?thesis using False assms by (simp add: blkc_recs_for_line_def)
  qed (use assms in \<open>simp add: blkc_recs_for_line_def\<close>)
qed

text \<open>
  The records of a line of \<open>n\<close> characters: the data is cut after every \<open>m\<close> characters, and an
  empty line is one empty record. A record has a prefix of four bytes.
\<close>

definition cut_line :: "int \<Rightarrow> int \<Rightarrow> int list" where
  "cut_line m n = (if n = 0 then [0] else replicate (nat (n div m)) m @ (if n mod m = 0 then [] else [n mod m]))"

definition v_records :: "int \<Rightarrow> bytes \<Rightarrow> int list" where
  "v_records lr s = concat (map (\<lambda>n. map (\<lambda>c. 4 + c) (cut_line (lr - 4) n)) (all_lines s))"

lemma cut_line_step: "0 < m \<Longrightarrow> m < n \<Longrightarrow> cut_line m n = m # cut_line m (n - m)"
proof -
  assume m: "0 < m" "m < n"
  have "n div m = (n - m) div m + 1" "n mod m = (n - m) mod m" using m div_pos_geq [of m n] mod_pos_geq [of m n] by simp_all
  moreover have "0 \<le> (n - m) div m" using m by (simp add: pos_imp_zdiv_nonneg_iff)
  ultimately show ?thesis using m by (simp add: cut_line_def nat_add_distrib)
qed

lemma recs_step: "0 < m \<Longrightarrow> m < n \<Longrightarrow> nat (blkc_recs_for_line n m) = Suc (nat (blkc_recs_for_line (n - m) m))"
proof -
  assume m: "0 < m" "m < n"
  have "(n + m - 1) div m = (n - m + m - 1) div m + 1" using m div_pos_geq [of m "n + m - 1"] by (simp add: algebra_simps)
  moreover have "0 \<le> (n - m + m - 1) div m" using m by (simp add: pos_imp_zdiv_nonneg_iff)
  ultimately show ?thesis using m by (simp add: blkc_recs_for_line_def nat_add_distrib)
qed

lemma emit_cuts:
  assumes "0 < m" and "0 \<le> n"
  shows "blkc_emit_v_loop (nat (blkc_recs_for_line n m)) m n bi = foldl blkc_put_rec_v bi (cut_line m n)"
  using assms(2)
proof (induction "nat n" arbitrary: n bi rule: less_induct)
  case less
  show ?case
  proof (cases "m < n")
    case True
    then show ?thesis using less(1) [of "n - m"] less(2) assms(1)
      by (simp add: recs_step cut_line_step Let_def)
  next
    case False
    show ?thesis
    proof (cases "n = 0")
      case True
      then show ?thesis using assms(1) by (simp add: blkc_recs_for_line_def cut_line_def)
    next
      case nz: False
      then have "(n + m - 1) div m = 1"
        using False less(2) assms(1) div_pos_geq [of m "n + m - 1"] div_pos_pos_trivial [of "n - 1" m] by simp
      then have "blkc_recs_for_line n m = 1" using nz less(2) assms(1) by (simp add: blkc_recs_for_line_def)
      moreover have "cut_line m n = [n]"
        using nz False less(2) assms(1) by (cases "n = m") (simp_all add: cut_line_def div_pos_pos_trivial mod_pos_pos_trivial)
      ultimately show ?thesis using False less(2) by simp
    qed
  qed
qed

lemma cut_line_bounds: "0 < m \<Longrightarrow> 0 \<le> n \<Longrightarrow> c \<in> set (cut_line m n) \<Longrightarrow> 0 \<le> c \<and> c \<le> m"
  using pos_mod_bound [of m n] by (auto simp: cut_line_def less_imp_le split: if_splits)

text \<open>
  Records in blocks one behind the other: every block has records, holds them behind its
  descriptor of four bytes within its size, and a block is left only for a record that does not
  fit it any more. The counters are those of such blocks.
\<close>

definition packed :: "int \<Rightarrow> int list list \<Rightarrow> bool" where
  "packed bs blocks \<longleftrightarrow> list_all (\<lambda>b. b \<noteq> [] \<and> 4 + sum_list b \<le> bs) blocks \<and>
     successively (\<lambda>b b'. bs < 4 + sum_list b + hd b') blocks"

definition v_state :: "int \<Rightarrow> int \<Rightarrow> int list list \<Rightarrow> blkcalc_info_t \<Rightarrow> bool" where
  "v_state bs lr blocks bi \<longleftrightarrow> dcb_recfm bi = RECFM_V \<and> dcb_blksize bi = bs \<and> dcb_lrecl bi = lr \<and>
     packed bs blocks \<and> list_all (list_all (\<lambda>r. 4 \<le> r)) blocks \<and>
     (if blocks = [] then count_full_blocks bi = 0 \<and> size_last_partial_block bi = 0
      else count_full_blocks bi + 1 = int (length blocks) \<and> size_last_partial_block bi = 4 + sum_list (last blocks))"

lemma v_state_total: "v_state bs lr blocks bi \<Longrightarrow> count_full_blocks bi + (if 0 < size_last_partial_block bi then 1 else 0) = int (length blocks)"
proof -
  assume v: "v_state bs lr blocks bi"
  show ?thesis
  proof (cases "blocks = []")
    case False
    then have "last blocks \<in> set blocks" by simp
    then have "\<forall>r \<in> set (last blocks). 4 \<le> r" using v by (auto simp: v_state_def list_all_iff)
    then have "0 \<le> sum_list (last blocks)" by (intro sum_list_nonneg) force
    then show ?thesis using v False by (simp add: v_state_def)
  qed (use v in \<open>simp add: v_state_def\<close>)
qed

lemma v_state_put:
  assumes "v_state bs lr blocks bi" and "0 \<le> c" and "c \<le> lr - 4" and "lr \<le> bs - 4"
  shows "\<exists>blocks'. concat blocks' = concat blocks @ [4 + c] \<and> v_state bs lr blocks' (blkc_put_rec_v bi c)"
proof (cases blocks rule: rev_cases)
  case Nil
  then show ?thesis using assms
    by (intro exI [of _ "[[4 + c]]"]) (simp add: v_state_def packed_def blkc_put_rec_v_def)
next
  case (snoc bks b)
  have b: "b \<noteq> []" "4 + sum_list b \<le> bs" "size_last_partial_block bi = 4 + sum_list b" "count_full_blocks bi = int (length bks)" "\<forall>r \<in> set b. 4 \<le> r"
    using assms(1) snoc by (auto simp: v_state_def packed_def list_all_iff)
  have "0 \<le> sum_list b" using b(5) by (intro sum_list_nonneg) force
  then have nz: "size_last_partial_block bi \<noteq> 0" using b(3) by simp
  show ?thesis
  proof (cases "bs < 4 + sum_list b + (4 + c)")
    case True
    then show ?thesis using assms snoc b nz
      by (intro exI [of _ "blocks @ [[4 + c]]"]) (auto simp: v_state_def packed_def blkc_put_rec_v_def successively_append_iff)
  next
    case False
    then show ?thesis using assms snoc b nz
      by (intro exI [of _ "bks @ [b @ [4 + c]]"]) (auto simp: v_state_def packed_def blkc_put_rec_v_def successively_append_iff)
  qed
qed

lemma v_state_puts:
  assumes "v_state bs lr blocks bi" and "\<forall>c \<in> set cs. 0 \<le> c \<and> c \<le> lr - 4" and "lr \<le> bs - 4"
  shows "\<exists>blocks'. concat blocks' = concat blocks @ map (\<lambda>c. 4 + c) cs \<and> v_state bs lr blocks' (foldl blkc_put_rec_v bi cs)"
  using assms(1,2)
proof (induction cs arbitrary: blocks bi)
  case (Cons c cs)
  obtain b1 where "concat b1 = concat blocks @ [4 + c]" "v_state bs lr b1 (blkc_put_rec_v bi c)"
    using v_state_put [OF Cons.prems(1) _ _ assms(3)] Cons.prems(2) by auto
  then show ?case using Cons.IH [of b1] Cons.prems(2) by auto
qed auto

lemma v_state_lines:
  assumes "v_state bs lr blocks bi" and "\<forall>n \<in> set ls. 0 \<le> n" and "lr \<le> bs - 4" and "4 < lr"
  shows "\<exists>blocks'. concat blocks' = concat blocks @ concat (map (\<lambda>n. map (\<lambda>c. 4 + c) (cut_line (lr - 4) n)) ls) \<and>
    v_state bs lr blocks' (foldl blkc_emit_line bi ls)"
  using assms(1,2)
proof (induction ls arbitrary: blocks bi)
  case (Cons n ls)
  have "blkc_emit_line bi n = foldl blkc_put_rec_v bi (cut_line (lr - 4) n)"
    using Cons.prems assms(4) emit_cuts [of "lr - 4" n bi] by (simp add: v_state_def blkc_emit_line_def blkc_emit_line_v_def)
  moreover have "\<forall>c \<in> set (cut_line (lr - 4) n). 0 \<le> c \<and> c \<le> lr - 4"
    using cut_line_bounds [of "lr - 4" n] Cons.prems(2) assms(4) by simp
  ultimately obtain b1 where "concat b1 = concat blocks @ map (\<lambda>c. 4 + c) (cut_line (lr - 4) n)" "v_state bs lr b1 (blkc_emit_line bi n)"
    using v_state_puts [OF Cons.prems(1) _ assms(3)] by metis
  then show ?case using Cons.IH [of b1] Cons.prems(2) by auto
qed auto

section \<open>The prediction along a chain of members\<close>

lemma and_FF: "(x :: u32) AND 0xFF = take_bit 8 x"
  by (simp add: take_bit_eq_mask mask_eq_exp_minus_1)

lemma BLKC_TTR_split:
  assumes "unat tt < 2 ^ 24" and "unat r < 256"
  shows "BLKC_TTR_TT (BLKC_TTR tt r) = tt" and "BLKC_TTR_R (BLKC_TTR tt r) = r"
proof -
  have r: "take_bit 8 r = r" using assms(2) by (simp add: word_unat_eq_iff unsigned_take_bit_eq
      take_bit_nat_eq_self)
  have tt: "take_bit 24 tt = tt" using assms(1) by (simp add: word_unat_eq_iff unsigned_take_bit_eq
      take_bit_nat_eq_self)
  have nb: "\<not> bit r n" if "8 \<le> n" for n
    using that r by (metis bit_take_bit_iff not_le)
  have nt: "\<not> bit tt n" if "24 \<le> n" for n
    using that tt by (metis bit_take_bit_iff not_le)
  show "BLKC_TTR_R (BLKC_TTR tt r) = r"
    unfolding BLKC_TTR_R_def BLKC_TTR_def and_FF by (rule bit_word_eqI) (auto simp: bit_simps nb)
  show "BLKC_TTR_TT (BLKC_TTR tt r) = tt"
    unfolding BLKC_TTR_TT_def BLKC_TTR_def and_FF
    by (rule bit_word_eqI) (auto simp: bit_simps nb nt intro: ccontr dest: nt)
qed

lemma BLKC_TTR_R_bound: "unat (BLKC_TTR_R ttr) < 256"
  unfolding BLKC_TTR_R_def and_FF unsigned_take_bit_eq using take_bit_nat_less_exp [of 8 "unat ttr"] by simp

lemma BLKC_TTR_TT_bound: "unat (BLKC_TTR_TT ttr) < 2 ^ 24"
proof -
  have "unat ttr < 2 ^ 32" using unsigned_less [of ttr] by simp
  then have "unat ttr div 256 < 2 ^ 24" by (simp add: less_mult_imp_div_less)
  then show ?thesis by (simp add: BLKC_TTR_TT_def drop_bit_eq_div unat_div_distrib)
qed

text \<open>A position the prediction can stand at: at or behind the last block recorded in the DSCB.\<close>

definition ttr_ok :: "dataset_dscb_info_t \<Rightarrow> u32 \<Rightarrow> u32 \<Rightarrow> bool" where
  "ttr_ok ds tt r \<longleftrightarrow> unat r < 256 \<and> tt < tracks ds \<and> lstar_tt ds \<le> tt \<and>
     (tt = lstar_tt ds \<longrightarrow> ucast (lstar_r ds) \<le> r)"

lemma unat_min_u32: "unat (if (a :: u32) < b then a else b) = min (unat a) (unat b)"
  by (simp add: word_less_nat_alt)

text \<open>Room on a track: a fixed number of slots, less the ones up to \<open>r\<close>, and at most 255 records.\<close>

definition track_slots :: "dataset_dscb_info_t \<Rightarrow> u32 \<Rightarrow> nat" where
  "track_slots ds tt =
     (let b = of_int (blocks_per_track ds) :: u32 in
      if tt = lstar_tt ds
      then min (unat b) (if 0 < trklen ds div b then unat (ucast (trbal ds) div (trklen ds div b)) else 0)
      else unat b)"

definition track_origin :: "dataset_dscb_info_t \<Rightarrow> u32 \<Rightarrow> nat" where
  "track_origin ds tt = (if tt = lstar_tt ds then unat (lstar_r ds) else 0)"

lemma capped_room:
  fixes r room :: u32
  assumes "unat r < 256" and "unat room \<le> 255"
  shows "unat (if 255 < r + room then (if r < 255 then 255 - r else 0) else room) =
    min (unat room) (255 - unat r)"
proof -
  have "unat (r + room) = unat r + unat room" using assms by (simp add: unat_add_u32)
  then show ?thesis using assms by (auto simp: word_less_nat_alt unat_sub_u32)
qed

lemma unat_ucast_widen:
  "unat (ucast (x :: u8) :: u32) = unat x" "unat (ucast (y :: u16) :: u32) = unat y"
proof -
  have "unat x < 2 ^ 8" "unat y < 2 ^ 16" using unsigned_less [of x] unsigned_less [of y] by simp_all
  then show "unat (ucast x :: u32) = unat x" "unat (ucast y :: u32) = unat y"
    by (simp_all add: unsigned_ucast_eq take_bit_nat_eq_self)
qed

lemma unat_bpt:
  assumes "0 < k" and "k \<le> 255"
  shows "unat (of_int k :: u32) = nat k"
proof -
  have "(of_int k :: u32) = of_nat (nat k)" using assms by simp
  also have "unat \<dots> = nat k" using assms by (simp only: unat_of_nat) simp
  finally show ?thesis .
qed

lemma track_room_nat:
  assumes b: "0 < blocks_per_track ds" "blocks_per_track ds \<le> 255"
    and r: "unat r < 256" and o: "track_origin ds tt \<le> unat r"
  shows "unat (blkc_track_room ds tt r) =
    min (track_slots ds tt - (unat r - track_origin ds tt)) (255 - unat r)"
proof -
  define bpt :: u32 where "bpt = of_int (blocks_per_track ds)"
  have ub: "unat bpt \<le> 255" "bpt \<noteq> 0"
    using unat_bpt [OF b] b by (auto simp: bpt_def word_unat_eq_iff)
  define base where "base = (if tt = lstar_tt ds then
      (let slot = trklen ds div bpt;
           room0 = (if 0 < slot then ucast (trbal ds) div slot else 0);
           room1 = (if bpt < room0 then bpt else room0)
       in if ucast (lstar_r ds) < r
          then let used = r - ucast (lstar_r ds) in if used < room1 then room1 - used else 0
          else room1)
    else if r < bpt then bpt - r else 0)"
  have base: "unat base = track_slots ds tt - (unat r - track_origin ds tt)"
    unfolding base_def track_slots_def track_origin_def bpt_def [symmetric] Let_def
    using o unfolding track_origin_def
    by (auto simp: word_less_nat_alt unat_sub_u32 unat_ucast_widen)
  have "track_slots ds tt \<le> 255"
    using ub by (simp add: track_slots_def Let_def bpt_def min.coboundedI1)
  then have "unat base \<le> 255" using base by simp
  moreover have "blkc_track_room ds tt r =
      (if 255 < r + base then (if r < 255 then 255 - r else 0) else base)"
    unfolding blkc_track_room_def bpt_def [symmetric] base_def Let_def by (simp only: ub(2) if_False)
  ultimately show ?thesis using capped_room [OF r] base by simp
qed

lemma available_split:
  assumes b: "0 < blocks_per_track ds" "blocks_per_track ds \<le> 255" and tt: "BLKC_TTR_TT ttr < tracks ds"
  shows "blkc_blocks_available ds ttr =
    blkc_track_room ds (BLKC_TTR_TT ttr) (BLKC_TTR_R ttr) +
    (tracks ds - BLKC_TTR_TT ttr - 1) * of_int (blocks_per_track ds) +
    (if 0 < sec_tracks ds \<and> ucast (nextents ds) < BLKC_MAX_EXTENTS
     then sec_tracks ds * (BLKC_MAX_EXTENTS - ucast (nextents ds)) * of_int (blocks_per_track ds) else 0)"
proof -
  let ?t = "BLKC_TTR_TT ttr"
  have "(of_int (blocks_per_track ds) :: u32) \<noteq> 0"
    using unat_bpt [OF b] b by (auto simp: word_unat_eq_iff)
  moreover have "unat (?t + 1) = unat ?t + 1"
    using BLKC_TTR_TT_bound [of ttr] by (simp add: unat_add_u32)
  then have "tracks ds = ?t + 1" if "\<not> ?t + 1 < tracks ds"
    using that tt by (simp add: word_less_nat_alt word_unat_eq_iff)
  ultimately show ?thesis by (auto simp: blkc_blocks_available_def Let_def)
qed

lemma track_origin_le: "ttr_ok ds tt r \<Longrightarrow> track_origin ds tt \<le> unat r"
  by (auto simp: ttr_ok_def track_origin_def word_le_nat_alt unat_ucast_widen)

lemma ceil_div_bounds:
  fixes M B :: nat
  assumes "0 < B" and "0 < M"
  defines "K \<equiv> (M + B - 1) div B"
  shows "1 \<le> K" and "(K - 1) * B < M" and "M \<le> K * B" and "M \<le> T * B \<Longrightarrow> K \<le> T"
proof -
  have K: "K = (M - 1) div B + 1"
    using assms div_add_self2 [of B "M - 1"] by (simp add: K_def)
  then show "1 \<le> K" by simp
  have "(K - 1) * B \<le> M - 1" unfolding K by simp
  then show "(K - 1) * B < M" using assms(2) by linarith
  have "M - 1 < ((M - 1) div B + 1) * B"
    using dividend_less_div_times [OF assms(1), of "M - 1"] by simp
  then show "M \<le> K * B" using K by simp
  assume "M \<le> T * B"
  then have "(K - 1) * B < T * B" using \<open>(K - 1) * B < M\<close> by linarith
  then have "K - 1 < T" by simp
  then show "K \<le> T" by simp
qed

text \<open>The case of a member that starts new tracks.\<close>

lemma ttr_add_new_tracks:
  fixes ds :: dataset_dscb_info_t and ttr n :: u32
  defines "tt \<equiv> BLKC_TTR_TT ttr" and "r \<equiv> BLKC_TTR_R ttr" and "b \<equiv> of_int (blocks_per_track ds) :: u32"
  defines "room \<equiv> blkc_track_room ds tt r"
  assumes b: "0 < blocks_per_track ds" "blocks_per_track ds \<le> 255"
    and small: "unat (tracks ds) \<le> 2 ^ 16" and ok: "ttr_ok ds tt r" and big: "room < n"
    and fit: "unat n \<le> unat room + (unat (tracks ds) - unat tt - 1) * nat (blocks_per_track ds)"
  obtains k m where "n = room + m" "blkc_ttr_add ds ttr n = BLKC_TTR (tt + k) (m - (k - 1) * b)"
    "unat (tt + k) = unat tt + unat k" "1 \<le> unat k" "unat tt + unat k < unat (tracks ds)"
    "1 \<le> unat (m - (k - 1) * b)" "unat (m - (k - 1) * b) \<le> unat b"
proof -
  define B where "B = nat (blocks_per_track ds)"
  define T where "T = unat (tracks ds) - unat tt - 1"
  have B: "unat b = B" "0 < B" "B \<le> 255" using unat_bpt [OF b] b by (simp_all add: b_def B_def)
  have tt: "unat tt < unat (tracks ds)" using ok by (simp add: ttr_ok_def word_less_nat_alt)
  define m where "m = n - room"
  have M: "unat m = unat n - unat room" "0 < unat m"
    using big by (simp_all add: m_def word_less_nat_alt unat_sub_u32)
  have MT: "unat m \<le> T * B" using fit M by (simp add: T_def B_def)
  have T: "T < 2 ^ 16" using small tt by (simp add: T_def)
  have "T * B \<le> 2 ^ 16 * 255" using T B(3) by (intro mult_le_mono) simp_all
  then have M24: "unat m \<le> 2 ^ 24" using MT by simp
  define k where "k = (m + b - 1) div b"
  have "unat (m + b) = unat m + B" using M24 B by (simp add: unat_add_u32)
  then have "unat (m + b - 1) = unat m + B - 1" using M(2) by (subst unat_sub_u32) simp_all
  then have K: "unat k = (unat m + B - 1) div B" using B(1) by (simp add: k_def unat_div_distrib)
  note c = ceil_div_bounds [OF B(2) M(2), folded K]
  have KT: "unat k \<le> T" using c(4) [OF MT] .
  have k1: "unat (k - 1) = unat k - 1" using c(1) by (subst unat_sub_u32) simp_all
  have "(unat k - 1) * B < 2 ^ 32" using c(2) M24 by simp
  then have kb: "unat ((k - 1) * b) = (unat k - 1) * B"
    using k1 B(1) by (simp add: unat_word_ariths)
  then have r': "unat (m - (k - 1) * b) = unat m - (unat k - 1) * B"
    using c(2) by (subst unat_sub_u32) simp_all
  have "unat m \<le> (unat k - 1) * B + B" using c(1,3) by (simp add: diff_mult_distrib)
  then have rb: "1 \<le> unat (m - (k - 1) * b)" "unat (m - (k - 1) * b) \<le> unat b"
    using r' c(2) B(1) by simp_all
  have ttk: "unat (tt + k) = unat tt + unat k"
    using KT T tt small by (simp add: unat_add_u32)
  have lt: "unat tt + unat k < unat (tracks ds)" using KT tt by (simp add: T_def)
  have "b \<noteq> 0" "n \<noteq> 0" using B big by (auto simp: word_unat_eq_iff word_less_nat_alt)
  then have "blkc_ttr_add ds ttr n = BLKC_TTR (tt + k) (m - (k - 1) * b)"
    using big leD by (fastforce simp: blkc_ttr_add_def Let_def tt_def r_def b_def room_def m_def k_def)
  with that [of m k] ttk c(1) lt rb show thesis by (simp add: m_def)
qed

lemma ttr_chain:
  fixes ds :: dataset_dscb_info_t and ttr n :: u32
  defines "tt \<equiv> BLKC_TTR_TT ttr" and "r \<equiv> BLKC_TTR_R ttr" and "ttr' \<equiv> blkc_ttr_add ds ttr n"
  assumes b: "0 < blocks_per_track ds" "blocks_per_track ds \<le> 255"
    and small: "unat (tracks ds) \<le> 2 ^ 16" and ok: "ttr_ok ds tt r"
    and fit: "unat n \<le> unat (blkc_track_room ds tt r) +
      (unat (tracks ds) - unat tt - 1) * nat (blocks_per_track ds)"
  shows "ttr_ok ds (BLKC_TTR_TT ttr') (BLKC_TTR_R ttr')" (is ?ok)
    and "blkc_blocks_available ds ttr' = blkc_blocks_available ds ttr - n" (is ?av)
proof -
  define room where "room = blkc_track_room ds tt r"
  define bw :: u32 where "bw = of_int (blocks_per_track ds)"
  have bw: "unat bw = nat (blocks_per_track ds)" "bw \<noteq> 0"
    using unat_bpt [OF b] b by (auto simp: bw_def word_unat_eq_iff)
  have r: "unat r < 256" and tt: "tt < tracks ds" and o: "track_origin ds tt \<le> unat r"
    using ok track_origin_le [OF ok] by (simp_all add: ttr_ok_def)
  note room_nat = track_room_nat [OF b r o, folded room_def]
  consider "n = 0" | "n \<noteq> 0" "n \<le> room" | "room < n" by force
  then have "?ok \<and> ?av"
  proof cases
    case 1
    then show ?thesis using ok by (simp add: ttr'_def blkc_ttr_add_def Let_def tt_def r_def)
  next
    case 2
    have "unat n \<le> unat room" using 2 by (simp add: word_le_nat_alt)
    then have n: "unat r + unat n < 256" "unat n \<le> track_slots ds tt - (unat r - track_origin ds tt)"
      using room_nat r by auto
    then have rn: "unat (r + n) = unat r + unat n" by (simp add: unat_add_u32)
    have new: "ttr' = BLKC_TTR tt (r + n)"
      using 2 bw by (simp add: ttr'_def blkc_ttr_add_def Let_def tt_def r_def room_def bw_def)
    have split: "BLKC_TTR_TT ttr' = tt" "BLKC_TTR_R ttr' = r + n"
      unfolding new using BLKC_TTR_split [of tt "r + n"] BLKC_TTR_TT_bound [of ttr] n rn
      by (simp_all add: tt_def)
    have ok': "ttr_ok ds tt (r + n)"
      using ok n rn by (auto simp: ttr_ok_def word_le_nat_alt)
    have "unat (blkc_track_room ds tt (r + n)) =
        min (track_slots ds tt - (unat r + unat n - track_origin ds tt)) (255 - (unat r + unat n))"
      using track_room_nat [OF b, of "r + n" tt] n rn o by simp
    also have "\<dots> = unat room - unat n" using room_nat n o by (auto simp: min_def)
    finally have "blkc_track_room ds tt (r + n) = room - n"
      using 2 by (simp add: word_unat_eq_iff unat_sub_u32 word_le_nat_alt)
    then show ?thesis
      using available_split [OF b, of ttr'] available_split [OF b, of ttr] tt ok'
      by (simp add: split tt_def [symmetric] r_def [symmetric] room_def [symmetric])
  next
    case 3
    obtain k m where km: "n = room + m" "ttr' = BLKC_TTR (tt + k) (m - (k - 1) * bw)"
      "unat (tt + k) = unat tt + unat k" "1 \<le> unat k" "unat tt + unat k < unat (tracks ds)"
      "1 \<le> unat (m - (k - 1) * bw)" "unat (m - (k - 1) * bw) \<le> unat bw"
      using ttr_add_new_tracks [OF b small, of ttr n] ok 3 fit
      unfolding tt_def r_def room_def ttr'_def bw_def by blast
    define r' where "r' = m - (k - 1) * bw"
    have r': "unat r' < 256" "unat r' \<le> unat bw" using km(7) bw b by (simp_all add: r'_def)
    have split: "BLKC_TTR_TT ttr' = tt + k" "BLKC_TTR_R ttr' = r'"
      using BLKC_TTR_split [of "tt + k" r'] km(2,3,5) small r' by (simp_all add: r'_def)
    have ls: "unat (lstar_tt ds) \<le> unat tt" using ok by (simp add: ttr_ok_def word_le_nat_alt)
    then have ne: "tt + k \<noteq> lstar_tt ds" using km(3,4) by (auto simp: word_unat_eq_iff)
    then have ok': "ttr_ok ds (tt + k) r'"
      using r' km(3,5) ls by (auto simp: ttr_ok_def word_less_nat_alt word_le_nat_alt)
    have "unat (blkc_track_room ds (tt + k) r') = unat bw - unat r'"
      using track_room_nat [OF b r'(1) track_origin_le [OF ok']] ne r' b bw
      by (simp add: track_slots_def track_origin_def Let_def bw_def [symmetric])
    then have rm: "blkc_track_room ds (tt + k) r' = bw - r'"
      using r'(2) by (simp add: word_unat_eq_iff unat_sub_u32)
    have lt: "tt + k < tracks ds" using km(3,5) by (simp add: word_less_nat_alt)
    define S where "S = (if 0 < sec_tracks ds \<and> ucast (nextents ds) < BLKC_MAX_EXTENTS
      then sec_tracks ds * (BLKC_MAX_EXTENTS - ucast (nextents ds)) * bw else 0)"
    have "blkc_blocks_available ds ttr' = bw - r' + (tracks ds - (tt + k) - 1) * bw + S"
      using available_split [OF b, of ttr'] lt rm by (simp add: split S_def bw_def)
    moreover have "blkc_blocks_available ds ttr = room + (tracks ds - tt - 1) * bw + S"
      using available_split [OF b, of ttr] tt by (simp add: S_def tt_def r_def room_def bw_def)
    ultimately show ?thesis
      using ok' by (simp add: split km(1) r'_def) (simp add: algebra_simps)
  qed
  then show ?ok ?av by simp_all
qed

section \<open>Properties of the space prediction\<close>

lemma add_pieces: "foldl blkcalc_add_blocks_for_data bi cs = blkcalc_add_blocks_for_data bi (concat cs)"
  by (induction cs arbitrary: bi) (simp_all add: blkcalc_add_append)

text \<open>
  C25. The estimate of a member in fixed-length records is exact for its text: fed in any
  pieces, the number of blocks is the number of records rounded up to whole blocks, where
  each line takes one record per started \<open>lr\<close> characters and at least one, and characters
  behind the last line feed count as a line of their own.
\<close>

theorem blkcalc_fixed_blocks:
  assumes "0 < lr" and "lr \<le> bs" and "rf \<noteq> RECFM_V"
  shows "blkcalc_total_blocks (foldl blkcalc_add_blocks_for_data (blkcalc_info_init rf bs lr) chunks) =
    ((\<Sum>n\<leftarrow>all_lines (concat chunks). max 1 ((n + lr - 1) div lr)) + bs div lr - 1) div (bs div lr)"
proof -
  define q where "q = bs div lr"
  have q: "0 < q" using assms by (simp add: q_def pos_imp_zdiv_pos_iff)
  let ?ls = "all_lines (concat chunks)" and ?bi = "blkcalc_info_init rf bs lr"
  have recs: "blkc_recs_for_line n lr = max 1 ((n + lr - 1) div lr)" if "n \<in> set ?ls" for n
    using all_lines_nonneg [OF that] blkc_recs_cover(2) [of lr n] assms(1)
    by (cases "n = 0") (auto simp: blkc_recs_for_line_def)
  define R where "R = (\<Sum>n\<leftarrow>?ls. max 1 ((n + lr - 1) div lr))"
  have R: "R = (\<Sum>n\<leftarrow>?ls. blkc_recs_for_line n lr)"
    unfolding R_def by (rule arg_cong [of _ _ sum_list], rule map_cong) (simp_all add: recs)
  have "f_state bs lr 0 ?bi"
    using assms(3) by (simp add: f_state_def blkcalc_info_init_def blkcalc_zero_def)
  then have st: "f_state bs lr R (foldl blkc_emit_line ?bi ?ls)"
    using f_state_fold [of lr bs ?ls 0 ?bi] assms all_lines_nonneg by (simp add: R)
  have "R div q + (if 0 < R mod q * lr then 1 else 0) = (R + q - 1) div q"
  proof (cases "R mod q = 0")
    case True
    then have "R + q - 1 = q - 1 + q * (R div q)" using mult_div_mod_eq [of q R] by linarith
    then have "(R + q - 1) div q = R div q + (q - 1) div q"
      using q div_mult_self2 [of q "q - 1" "R div q"] by (simp only:)
    then show ?thesis using True q by simp
  next
    case False
    have "0 \<le> R mod q" "R mod q < q" using q by simp_all
    with False have m: "0 \<le> R mod q - 1" "R mod q - 1 < q" "0 < R mod q" by simp_all
    have "R + q - 1 = (R mod q - 1) + q * (R div q + 1)" by (simp add: algebra_simps)
    then have "(R + q - 1) div q = R div q + 1"
      using q div_mult_self2 [of q "R mod q - 1" "R div q + 1"] m
      by (simp only: div_pos_pos_trivial)
    then show ?thesis using m(3) assms(1) by simp
  qed
  then show ?thesis
    using st blkcalc_total_lines [OF refl, of rf bs lr "concat chunks"]
    by (simp add: add_pieces f_state_def Let_def flip: q_def R_def)
qed

theorem blkcalc_fixed_blocks_witness:
  "blkcalc_total_blocks (foldl blkcalc_add_blocks_for_data (blkcalc_info_init RECFM_F 160 80)
     [[65, 66], [0x0A, 0x0A], [67]]) = 2"
  using blkcalc_fixed_blocks [of 80 160 RECFM_F "[[65, 66], [0x0A, 0x0A], [67]]"]
  by (simp add: all_lines_def)

text \<open>
  C26. The estimate of a member in variable-length records is exact: for a record length within
  the block (what the configuration check demands), the estimated number of blocks, of the text
  in whatever pieces it arrived, is that of the blocks that hold the records of all lines in
  order, each line cut into records of at most the record length and each record in one piece,
  behind a block descriptor each and within the block size, where a block is closed only when
  the next record does not fit it.
\<close>

theorem blkcalc_variable_blocks_suffice:
  assumes "4 < lr" and "lr \<le> bs - 4"
  shows "\<exists>blocks. concat blocks = v_records lr (concat pieces) \<and> packed bs blocks \<and>
    blkcalc_total_blocks (foldl blkcalc_add_blocks_for_data (blkcalc_info_init RECFM_V bs lr) pieces) = int (length blocks)"
proof -
  let ?bi = "blkcalc_info_init RECFM_V bs lr"
  have "v_state bs lr [] ?bi" by (simp add: v_state_def packed_def blkcalc_info_init_def blkcalc_zero_def)
  from v_state_lines [OF this _ assms(2,1), of "all_lines (concat pieces)"] obtain blocks where
    b: "concat blocks = v_records lr (concat pieces)" "v_state bs lr blocks (foldl blkc_emit_line ?bi (all_lines (concat pieces)))"
    using all_lines_nonneg by (auto simp: v_records_def)
  then show ?thesis
    using v_state_total [OF b(2)] by (intro exI [of _ blocks]) (simp add: add_pieces blkcalc_total_lines [OF refl] Let_def v_state_def)
qed

text \<open>Lines of five, no and two characters in records of at most four and blocks of at most sixteen bytes.\<close>

theorem blkcalc_variable_blocks_suffice_witness:
  "\<exists>blocks. concat blocks = [8, 5, 4, 6] \<and> packed 16 blocks \<and>
    blkcalc_total_blocks (foldl blkcalc_add_blocks_for_data (blkcalc_info_init RECFM_V 16 8)
      [[65, 66, 67], [68, 69, 0x0A, 0x0A, 70], [71, 0x0A]]) = int (length blocks)"
  using blkcalc_variable_blocks_suffice [of 8 16 "[[65, 66, 67], [68, 69, 0x0A, 0x0A, 70], [71, 0x0A]]"]
  by (simp add: v_records_def all_lines_def cut_line_def)

text \<open>
  Predicting one member after the other is exact: from a position at or behind the last
  block recorded for the data set, adding \<open>n\<close> blocks that fit the allocated tracks gives a
  position on an allocated track, again at or behind that block, from which exactly \<open>n\<close>
  blocks fewer are available.
\<close>

theorem blkc_prediction_chain:
  assumes "0 < blocks_per_track ds" and "blocks_per_track ds \<le> 255" and "unat (tracks ds) \<le> 2 ^ 16"
    and "ttr_ok ds (BLKC_TTR_TT ttr) (BLKC_TTR_R ttr)"
    and "unat n \<le> unat (blkc_track_room ds (BLKC_TTR_TT ttr) (BLKC_TTR_R ttr)) +
      (unat (tracks ds) - unat (BLKC_TTR_TT ttr) - 1) * nat (blocks_per_track ds)"
  shows "ttr_ok ds (BLKC_TTR_TT (blkc_ttr_add ds ttr n)) (BLKC_TTR_R (blkc_ttr_add ds ttr n)) \<and>
    blkc_blocks_available ds (blkc_ttr_add ds ttr n) = blkc_blocks_available ds ttr - n"
  using ttr_chain [OF assms] by simp

theorem blkc_prediction_chain_witness:
  "let ds = dscb_zero\<lparr>blocks_per_track := 10, tracks := 3, trklen := 1000, trbal := 200, lstar_r := 8\<rparr>
   in blkc_blocks_available ds (blkc_ttr_add ds (BLKC_TTR 0 8) 15) = 7"
proof -
  define ds where "ds = dscb_zero\<lparr>blocks_per_track := 10, tracks := 3, trklen := 1000,
    trbal := 200, lstar_r := 8\<rparr>"
  have s: "BLKC_TTR_TT (BLKC_TTR 0 8) = 0" "BLKC_TTR_R (BLKC_TTR 0 8) = 8"
    using BLKC_TTR_split [of 0 8] by simp_all
  have "blkc_track_room ds 0 8 = 2"
    by (simp add: ds_def dscb_zero_def blkc_track_room_def Let_def)
  moreover have "blkc_blocks_available ds (BLKC_TTR 0 8) = 22"
    using calculation
    by (simp add: blkc_blocks_available_def Let_def s) (simp add: ds_def dscb_zero_def)
  moreover have "ttr_ok ds 0 8" by (simp add: ttr_ok_def ds_def dscb_zero_def)
  ultimately show ?thesis
    using blkc_prediction_chain [of ds "BLKC_TTR 0 8" 15] s
    unfolding Let_def ds_def [symmetric] by (simp add: ds_def dscb_zero_def)
qed

end
