(* ===== verification/Exports.thy ===== *)
theory Exports
  imports Cfgopts Blkcalc
begin

text \<open>
  The export table, \<^verbatim>\<open>src/src/exports.c\<close>: loading of the configuration file (sections,
  lines and blocks of \<^verbatim>\<open>[Exports]\<close>, keyword options, the VTOC check of every data set,
  dropping of exports with an error) and the lookups the other components use.

  The table is the list of the first \<^verbatim>\<open>g_nexports\<close> entries, and an export's data sets the
  list of the first \<^verbatim>\<open>ndatasets\<close>. A pointer to an entry is its index. The configuration
  file is the list of what successive \<^verbatim>\<open>fgets\<close> calls return; the VTOC is a function
  \<open>vtoc\<close> from a data set name to the block \<^verbatim>\<open>mvs_dscb\<close> fills for it. Lines of \<^verbatim>\<open>[Init]\<close>
  go to the logger, which holds no state of this model.
\<close>

section \<open>State\<close>

definition MAX_EXPORTS :: nat where "MAX_EXPORTS = 16"
definition MAX_PDS_PER_EXPORT :: nat where "MAX_PDS_PER_EXPORT = 32"
definition MAX_PATH :: nat where "MAX_PATH = 256"
definition MAX_NAME :: nat where "MAX_NAME = 256"
definition MAX_FILE_EXT_LEN :: nat where "MAX_FILE_EXT_LEN = 16"
definition MAX_DSNAME_LEN :: nat where "MAX_DSNAME_LEN = 45"

record pds_dataset_t =
  dsname_ebcdic :: bytes
  dsname_ascii :: bytes
  dirname_ebcdic :: bytes
  dirname_ascii :: bytes
  file_ext :: bytes
  dscb :: dataset_dscb_info_t
  dir_mtime :: u32
  dir_sig :: u32
  dir_sig_check :: u32
  ds_readonly :: bool
  dirperm :: u16
  memperm :: u16

record export_t =
  export_path :: bytes
  export_path_ebcdic :: bytes
  host_path :: bytes
  host_path_ebcdic :: bytes
  exp_file_ext :: bytes
  exp_readonly :: bool
  rootperm :: u16
  failed :: bool
  datasets :: "pds_dataset_t list"

record exports_state =
  g_exports :: "export_t list"
  g_blk_open :: bool
  g_blk_exp_idx :: int
  g_blk_opts :: cfg_opts_t

definition upd_export :: "nat \<Rightarrow> (export_t \<Rightarrow> export_t) \<Rightarrow> exports_state \<Rightarrow> exports_state" where
  "upd_export i f st =
     (if i < length (g_exports st) then st\<lparr>g_exports := (g_exports st)[i := f (g_exports st ! i)]\<rparr>
      else st)"

section \<open>Lines and sections\<close>

datatype cfg_section = CFG_SECT_UNKNOWN | CFG_SECT_INIT | CFG_SECT_EXPORTS

definition CFG_SECT_OPEN :: u8 where "CFG_SECT_OPEN = 0xAD"
definition CFG_SECT_CLOSE :: u8 where "CFG_SECT_CLOSE = 0xBD"
definition CFG_BLOCK_OPEN :: u8 where "CFG_BLOCK_OPEN = 0xC0"
definition CFG_BLOCK_CLOSE :: u8 where "CFG_BLOCK_CLOSE = 0xD0"
definition CFG_MAX_TOKS :: nat where "CFG_MAX_TOKS = 16"

function cfg_tokens :: "bytes \<Rightarrow> bytes list" where
  "cfg_tokens s =
     (let s' = dropWhile isspace s in
      if s' = [] then []
      else takeWhile (\<lambda>c. \<not> isspace c) s' # cfg_tokens (dropWhile (\<lambda>c. \<not> isspace c) s'))"
  by pat_completeness auto
termination
proof (relation "measure length")
  fix s s' :: bytes
  assume s': "s' = dropWhile isspace s" and ne: "s' \<noteq> []"
  from ne obtain c t where t: "s' = c # t" by (cases s') auto
  then have "\<not> isspace c" using s' hd_dropWhile [of isspace s] by simp
  then have "length (dropWhile (\<lambda>c. \<not> isspace c) s') \<le> length t"
    by (simp add: t length_dropWhile_le)
  also have "length t < length s"
    using length_dropWhile_le [of isspace s] by (simp add: s' [symmetric] t)
  finally show "(dropWhile (\<lambda>c. \<not> isspace c) s', s) \<in> measure length" by simp
qed simp

declare cfg_tokens.simps [simp del]

definition cfg_tokenize :: "bytes \<Rightarrow> nat \<Rightarrow> bytes list option" where
  "cfg_tokenize s maxtoks =
     (let toks = cfg_tokens s in if maxtoks < length toks then None else Some toks)"

definition cfg_section_id :: "bytes \<Rightarrow> cfg_section" where
  "cfg_section_id name =
     (if cfg_stricmp name (ebc ''INIT'') = 0 then CFG_SECT_INIT
      else if cfg_stricmp name (ebc ''EXPORTS'') = 0 then CFG_SECT_EXPORTS
      else CFG_SECT_UNKNOWN)"

definition cfg_parse_section :: "bytes \<Rightarrow> cfg_section" where
  "cfg_parse_section p =
     (if CFG_SECT_CLOSE \<notin> set p then CFG_SECT_UNKNOWN
      else let s = takeWhile (\<lambda>c. c \<noteq> CFG_SECT_CLOSE) p;
               name = dropWhile isspace (drop 1 s)
        in cfg_section_id (rev (dropWhile isspace (rev name))))"

definition cfg_strip_line :: "bytes \<Rightarrow> bytes option" where
  "cfg_strip_line line =
     (let l = rev (dropWhile (\<lambda>c. c = ch_nl \<or> c = ch_cr) (rev line));
          p = dropWhile isspace l
      in case p of [] \<Rightarrow> None | c # t \<Rightarrow> if c = ch_hash then None else Some p)"

section \<open>Exports and data sets\<close>

text \<open>The text behind the last dot, as \<^verbatim>\<open>strrchr\<close> finds it.\<close>

definition after_last :: "u8 \<Rightarrow> bytes \<Rightarrow> bytes option" where
  "after_last c s = (if c \<in> set s then Some (rev (takeWhile (\<lambda>x. x \<noteq> c) (rev s))) else None)"

definition dataset_init :: "bytes \<Rightarrow> pds_dataset_t" where
  "dataset_init dsname =
     (let ds = strncpyz MAX_DSNAME_LEN dsname;
          dir = map tolower ds
      in \<lparr>dsname_ebcdic = ds, dsname_ascii = ebcdic_to_ascii ds,
          dirname_ebcdic = dir, dirname_ascii = ebcdic_to_ascii dir,
          file_ext = (case after_last ch_dot ds of None \<Rightarrow> []
                      | Some e \<Rightarrow> map tolower (strncpyz MAX_FILE_EXT_LEN e)),
          dscb = dscb_zero, dir_mtime = 0, dir_sig = 0, dir_sig_check = 0,
          ds_readonly = False, dirperm = CFG_PERM_DIR_DEFAULT, memperm = CFG_PERM_MEM_DEFAULT\<rparr>)"

fun find_index :: "('a \<Rightarrow> bool) \<Rightarrow> 'a list \<Rightarrow> nat option" where
  "find_index P [] = None"
| "find_index P (x # xs) = (if P x then Some 0 else map_option Suc (find_index P xs))"

definition new_export :: "bytes \<Rightarrow> export_t" where
  "new_export path =
     (let p = strncpyz MAX_PATH path
      in \<lparr>export_path = ebcdic_to_ascii p, export_path_ebcdic = p, host_path = [],
          host_path_ebcdic = [], exp_file_ext = [], exp_readonly = False,
          rootperm = CFG_PERM_ROOT_DEFAULT, failed = False, datasets = []\<rparr>)"

text \<open>The index is -1 when the table is full.\<close>

definition find_or_create_export :: "bytes \<Rightarrow> exports_state \<Rightarrow> int \<times> exports_state" where
  "find_or_create_export path st =
     (case find_index (\<lambda>e. export_path_ebcdic e = path) (g_exports st) of
        Some idx \<Rightarrow> (int idx, st)
      | None \<Rightarrow> if MAX_EXPORTS \<le> length (g_exports st) then (-1, st)
                else (int (length (g_exports st)), st\<lparr>g_exports := g_exports st @ [new_export path]\<rparr>))"

definition cfg_fail_export :: "int \<Rightarrow> exports_state \<Rightarrow> exports_state" where
  "cfg_fail_export exp_idx st =
     (if 0 \<le> exp_idx \<and> exp_idx < int (length (g_exports st))
      then upd_export (nat exp_idx) (\<lambda>e. e\<lparr>failed := True\<rparr>) st else st)"

text \<open>The legacy fields of an export are those of its first data set.\<close>

definition export_add :: "pds_dataset_t \<Rightarrow> export_t \<Rightarrow> export_t" where
  "export_add ds e =
     (let e' = e\<lparr>datasets := datasets e @ [ds]\<rparr> in
      if length (datasets e') = 1
      then e'\<lparr>host_path_ebcdic := strncpyz MAX_PATH (dsname_ebcdic ds),
              host_path := strncpyz MAX_PATH (dsname_ascii ds),
              exp_file_ext := strncpyz MAX_FILE_EXT_LEN (file_ext ds)\<rparr>
      else e')"

definition cfg_add_dataset ::
  "int \<Rightarrow> bytes \<Rightarrow> cfg_opts_t option \<Rightarrow> cfg_opts_t \<Rightarrow> exports_state \<Rightarrow> exports_state" where
  "cfg_add_dataset exp_idx dsname exp_opts ds_opts st =
     (if MAX_PDS_PER_EXPORT \<le> length (datasets (g_exports st ! nat exp_idx))
      then cfg_fail_export exp_idx st
      else let ds = dataset_init dsname in
        case cfg_resolve_opts exp_opts ds_opts (file_ext ds) of
          None \<Rightarrow> cfg_fail_export exp_idx st
        | Some (ro, dp, mp, fe) \<Rightarrow>
            upd_export (nat exp_idx)
              (export_add (ds\<lparr>ds_readonly := ro, dirperm := dp, memperm := mp, file_ext := fe\<rparr>)) st)"

definition cfg_open_block :: "bytes list \<Rightarrow> exports_state \<Rightarrow> exports_state" where
  "cfg_open_block toks st =
     (let broken = (\<lambda>s. s\<lparr>g_blk_open := True, g_blk_exp_idx := -1, g_blk_opts := cfg_opts_zero\<rparr>) in
      case toks of [] \<Rightarrow> broken st
      | path # kws \<Rightarrow>
          let (exp_idx, st1) = find_or_create_export path st in
          if exp_idx < 0 then broken st1
          else let (ok, opts) = cfg_parse_keywords kws CFG_LEVEL_EXPORT;
                   st2 = st1\<lparr>g_blk_open := True, g_blk_exp_idx := exp_idx, g_blk_opts := opts\<rparr>
            in if \<not> ok then cfg_fail_export exp_idx st2
               else upd_export (nat exp_idx)
                 (\<lambda>e. let e1 = (if has_readonly opts \<and> opt_readonly opts then e\<lparr>exp_readonly := True\<rparr> else e)
                      in if has_rootperm opts then e1\<lparr>rootperm := opt_rootperm opts\<rparr> else e1) st2)"

definition cfg_do_export_line :: "bytes \<Rightarrow> exports_state \<Rightarrow> exports_state" where
  "cfg_do_export_line p st =
     (if p = [CFG_BLOCK_CLOSE] then
        (if \<not> g_blk_open st then st else st\<lparr>g_blk_open := False\<rparr>)
      else case cfg_tokenize p CFG_MAX_TOKS of
        None \<Rightarrow> if g_blk_open st then cfg_fail_export (g_blk_exp_idx st) st else st
      | Some [] \<Rightarrow> st
      | Some (t0 # ts) \<Rightarrow>
          let toks = t0 # ts; has_open = (last toks = [CFG_BLOCK_OPEN]) in
          if g_blk_open st then
            (if has_open then cfg_fail_export (g_blk_exp_idx st) st
             else if g_blk_exp_idx st < 0 then st
             else if failed (g_exports st ! nat (g_blk_exp_idx st)) then st
             else let (ok, ds_opts) = cfg_parse_keywords ts CFG_LEVEL_DATASET in
               if \<not> ok then cfg_fail_export (g_blk_exp_idx st) st
               else cfg_add_dataset (g_blk_exp_idx st) t0 (Some (g_blk_opts st)) ds_opts st)
          else if has_open then cfg_open_block (butlast toks) st
          else case ts of [] \<Rightarrow> st
          | t1 # kws \<Rightarrow>
              let (exp_idx, st1) = find_or_create_export t0 st in
              if exp_idx < 0 then st1
              else let (ok, ds_opts) = cfg_parse_keywords kws CFG_LEVEL_DATASET in
                if \<not> ok then cfg_fail_export exp_idx st1
                else cfg_add_dataset exp_idx t1 None ds_opts st1)"

definition cfg_enter_section :: "bytes \<Rightarrow> exports_state \<Rightarrow> cfg_section \<times> exports_state" where
  "cfg_enter_section p st =
     (let st1 = (if g_blk_open st then (cfg_fail_export (g_blk_exp_idx st) st)\<lparr>g_blk_open := False\<rparr> else st)
      in (cfg_parse_section p, st1))"

section \<open>Loading\<close>

definition MVS_DSCB_DSORG_PO :: u8 where "MVS_DSCB_DSORG_PO = 0x02"
definition MVS_DSCB_RECFM_MASK :: u8 where "MVS_DSCB_RECFM_MASK = 0xC0"
definition MVS_DSCB_RECFM_V :: u8 where "MVS_DSCB_RECFM_V = 0x40"
definition MVS_DSCB_RECFM_F :: u8 where "MVS_DSCB_RECFM_F = 0x80"

text \<open>One data set against its VTOC entry: the entry decoded into it, and whether it is usable.\<close>

definition dataset_load_dscb :: "mvs_dscb_info_t \<Rightarrow> pds_dataset_t \<Rightarrow> pds_dataset_t \<times> bool" where
  "dataset_load_dscb raw ds =
     (if raw_status raw \<noteq> MVS_DSCB_ST_OK then (ds, False)
      else if byte_at (raw_dsorg raw) 0 AND MVS_DSCB_DSORG_PO = 0 then (ds, False)
      else let base = raw_recfm raw AND MVS_DSCB_RECFM_MASK in
        if base \<noteq> MVS_DSCB_RECFM_F \<and> base \<noteq> MVS_DSCB_RECFM_V then (ds, False)
        else if base = MVS_DSCB_RECFM_V \<and>
                uint (MVS_DSCB_U16 (raw_blksize raw)) - 4 < uint (MVS_DSCB_U16 (raw_lrecl raw))
        then (ds, False)
        else let (info, ok) = blkcalc_dataset_init raw in (ds\<lparr>dscb := info\<rparr>, ok))"

definition export_load_dscb :: "(bytes \<Rightarrow> mvs_dscb_info_t) \<Rightarrow> export_t \<Rightarrow> export_t" where
  "export_load_dscb vtoc e =
     (if failed e \<or> datasets e = [] then e
      else let rs = map (\<lambda>ds. dataset_load_dscb (vtoc (dsname_ebcdic ds)) ds) (datasets e)
        in e\<lparr>datasets := map fst rs, failed := (\<exists>r \<in> set rs. \<not> snd r)\<rparr>)"

definition cfg_load_dscb_info :: "(bytes \<Rightarrow> mvs_dscb_info_t) \<Rightarrow> exports_state \<Rightarrow> exports_state" where
  "cfg_load_dscb_info vtoc st = st\<lparr>g_exports := map (export_load_dscb vtoc) (g_exports st)\<rparr>"

definition cfg_drop_failed_exports :: "exports_state \<Rightarrow> exports_state" where
  "cfg_drop_failed_exports st = st\<lparr>g_exports := filter (\<lambda>e. \<not> failed e) (g_exports st)\<rparr>"

fun exports_load_lines :: "bytes list \<Rightarrow> cfg_section \<Rightarrow> exports_state \<Rightarrow> exports_state" where
  "exports_load_lines [] sect st = st"
| "exports_load_lines (line # lines) sect st =
     (case cfg_strip_line line of
        None \<Rightarrow> exports_load_lines lines sect st
      | Some p \<Rightarrow>
          if hd p = CFG_SECT_OPEN then
            let (sect', st') = cfg_enter_section p st in exports_load_lines lines sect' st'
          else case sect of
            CFG_SECT_EXPORTS \<Rightarrow> exports_load_lines lines sect (cfg_do_export_line p st)
          | _ \<Rightarrow> exports_load_lines lines sect st)"

text \<open>The return value and the state; without a file the state stays as it is.\<close>

definition exports_load ::
  "(bytes \<Rightarrow> mvs_dscb_info_t) \<Rightarrow> bytes list option \<Rightarrow> exports_state \<Rightarrow> int \<times> exports_state" where
  "exports_load vtoc config st =
     (case config of None \<Rightarrow> (-1, st)
      | Some lines \<Rightarrow>
          let st0 = st\<lparr>g_exports := [], g_blk_open := False, g_blk_exp_idx := -1\<rparr>;
              st1 = exports_load_lines lines CFG_SECT_EXPORTS st0;
              st2 = (if g_blk_open st1
                     then (cfg_fail_export (g_blk_exp_idx st1) st1)\<lparr>g_blk_open := False\<rparr> else st1);
              st3 = cfg_drop_failed_exports (cfg_load_dscb_info vtoc st2)
          in (int (length (g_exports st3)), st3))"

section \<open>Lookups\<close>

definition exports_count :: "export_t list \<Rightarrow> int" where
  "exports_count es = int (length es)"

definition exports_get :: "export_t list \<Rightarrow> int \<Rightarrow> export_t option" where
  "exports_get es idx = (if idx < 0 \<or> int (length es) \<le> idx then None else Some (es ! nat idx))"

definition exports_find_by_nfs_path :: "export_t list \<Rightarrow> bytes \<Rightarrow> nat option" where
  "exports_find_by_nfs_path es nfs_path = find_index (\<lambda>e. export_path e = nfs_path) es"

definition exports_find_by_id :: "export_t list \<Rightarrow> u32 \<Rightarrow> nat option" where
  "exports_find_by_id es eid = (if length es \<le> unat eid then None else Some (unat eid))"

definition exports_find_by_host_path :: "export_t list \<Rightarrow> bytes \<Rightarrow> nat option" where
  "exports_find_by_host_path es host = find_index (\<lambda>e. host = host_path_ebcdic e) es"

definition export_dataset_count :: "export_t list \<Rightarrow> int \<Rightarrow> int" where
  "export_dataset_count es export_idx =
     (case exports_get es export_idx of None \<Rightarrow> 0 | Some e \<Rightarrow> int (length (datasets e)))"

definition export_dataset_get :: "export_t list \<Rightarrow> int \<Rightarrow> int \<Rightarrow> pds_dataset_t option" where
  "export_dataset_get es export_idx dataset_idx =
     (case exports_get es export_idx of None \<Rightarrow> None
      | Some e \<Rightarrow> if dataset_idx < 0 \<or> int (length (datasets e)) \<le> dataset_idx then None
                  else Some (datasets e ! nat dataset_idx))"

definition export_dataset_find_by_dirname :: "export_t list \<Rightarrow> int \<Rightarrow> bytes \<Rightarrow> int" where
  "export_dataset_find_by_dirname es export_idx dirname =
     (case exports_get es export_idx of None \<Rightarrow> -1
      | Some e \<Rightarrow> (case find_index (\<lambda>ds. dirname_ebcdic ds = dirname) (datasets e) of
                     None \<Rightarrow> -1 | Some i \<Rightarrow> int i))"

definition export_dataset_touch :: "u32 \<Rightarrow> int \<Rightarrow> int \<Rightarrow> export_t list \<Rightarrow> export_t list" where
  "export_dataset_touch now export_idx dataset_idx es =
     (case export_dataset_get es export_idx dataset_idx of None \<Rightarrow> es
      | Some ds \<Rightarrow> es[nat export_idx := (es ! nat export_idx)
          \<lparr>datasets := (datasets (es ! nat export_idx))[nat dataset_idx := ds\<lparr>dir_mtime := now\<rparr>]\<rparr>])"

section \<open>Indices\<close>

lemma find_index_Some:
  "find_index P xs = Some i \<longleftrightarrow> i < length xs \<and> P (xs ! i) \<and> (\<forall>j < i. \<not> P (xs ! j))"
proof (induction xs arbitrary: i)
  case (Cons x xs)
  show ?case
  proof (cases i)
    case 0
    then show ?thesis by (cases "find_index P xs") auto
  next
    case (Suc k)
    then show ?thesis using Cons.IH [of k]
      by (cases "find_index P xs") (auto simp: less_Suc_eq_0_disj nth_Cons split: nat.splits)
  qed
qed simp

lemma find_index_None: "find_index P xs = None \<longleftrightarrow> (\<forall>x \<in> set xs. \<not> P x)"
  by (induction xs) auto

section \<open>The invariant of the table\<close>

definition dataset_shape :: "pds_dataset_t \<Rightarrow> bool" where
  "dataset_shape ds \<longleftrightarrow>
     length (dsname_ebcdic ds) \<le> 44 \<and> dsname_ascii ds = ebcdic_to_ascii (dsname_ebcdic ds) \<and>
     dirname_ebcdic ds = map tolower (dsname_ebcdic ds) \<and>
     dirname_ascii ds = ebcdic_to_ascii (dirname_ebcdic ds) \<and> length (file_ext ds) \<le> 15 \<and>
     ch_space \<notin> set (dsname_ebcdic ds)"

definition export_shape :: "export_t \<Rightarrow> bool" where
  "export_shape e \<longleftrightarrow>
     length (export_path_ebcdic e) \<le> 255 \<and> export_path e = ebcdic_to_ascii (export_path_ebcdic e) \<and>
     length (datasets e) \<le> 32 \<and> (\<forall>ds \<in> set (datasets e). dataset_shape ds)"

text \<open>While the file is read: bounds and shapes, and the open block points into the table.\<close>

definition load_inv :: "exports_state \<Rightarrow> bool" where
  "load_inv st \<longleftrightarrow> length (g_exports st) \<le> 16 \<and> (\<forall>e \<in> set (g_exports st). export_shape e) \<and>
     g_blk_exp_idx st < int (length (g_exports st))"

lemma upd_export_inv:
  assumes "load_inv st" and "\<And>e. export_shape e \<Longrightarrow> export_shape (f e)"
  shows "load_inv (upd_export i f st)"
proof (cases "i < length (g_exports st)")
  case True
  then have "export_shape (f (g_exports st ! i))" using assms by (simp add: load_inv_def)
  then show ?thesis
    using assms(1) True set_update_subset_insert [of "g_exports st" i "f (g_exports st ! i)"]
    by (auto simp: load_inv_def upd_export_def)
qed (use assms(1) in \<open>simp add: upd_export_def\<close>)

lemma cfg_fail_export_inv: "load_inv st \<Longrightarrow> load_inv (cfg_fail_export i st)"
  unfolding cfg_fail_export_def by (auto intro!: upd_export_inv simp: export_shape_def)

lemma find_or_create_export_inv:
  assumes "load_inv st"
  shows "load_inv (snd (find_or_create_export path st))"
    and "fst (find_or_create_export path st) < int (length (g_exports (snd (find_or_create_export path st))))"
proof -
  have "export_shape (new_export path)"
    by (simp add: new_export_def export_shape_def Let_def strncpyz_def MAX_PATH_def)
  then show "load_inv (snd (find_or_create_export path st))"
    "fst (find_or_create_export path st) < int (length (g_exports (snd (find_or_create_export path st))))"
    using assms
    by (auto simp: find_or_create_export_def load_inv_def MAX_EXPORTS_def find_index_Some
        split: option.splits)
qed

lemma dataset_init_shape: "ch_space \<notin> set dsname \<Longrightarrow> dataset_shape (dataset_init dsname)"
  by (auto dest: in_set_takeD simp: dataset_init_def dataset_shape_def Let_def strncpyz_def MAX_DSNAME_LEN_def
      MAX_FILE_EXT_LEN_def split: option.splits)

lemma cfg_resolve_opts_fileext:
  assumes "cfg_resolve_opts e d fe = Some (ro, dp, mp, fe')" and "length fe \<le> 15"
  shows "length fe' \<le> 15"
proof -
  have "length (strncpyz CFG_FILEEXT_MAX s) \<le> 15" for s :: bytes
    by (simp add: strncpyz_def CFG_FILEEXT_MAX_def)
  with assms show ?thesis
    unfolding cfg_resolve_opts_def Let_def by (auto split: if_splits option.splits)
qed

text \<open>Names come from tokens, which hold no blank.\<close>

lemma tokens_no_blank: "t \<in> set (cfg_tokens p) \<Longrightarrow> ch_space \<notin> set t"
proof (induction p rule: cfg_tokens.induct)
  case (1 p)
  have "isspace ch_space" by (simp add: isspace_def ch_space_def)
  then have w: "ch_space \<notin> set (takeWhile (\<lambda>c. \<not> isspace c) s)" for s using set_takeWhileD by fastforce
  show ?case using 1 w [of "dropWhile isspace p"] by (auto simp: cfg_tokens.simps [of p] Let_def split: if_splits)
qed

lemma tokenize_no_blank: "cfg_tokenize p n = Some ts \<Longrightarrow> t \<in> set ts \<Longrightarrow> ch_space \<notin> set t"
  using tokens_no_blank by (auto simp: cfg_tokenize_def Let_def split: if_splits)

lemma cfg_add_dataset_inv:
  assumes "load_inv st" and blank: "ch_space \<notin> set dsname"
  shows "load_inv (cfg_add_dataset i dsname eo d st)"
proof (cases "MAX_PDS_PER_EXPORT \<le> length (datasets (g_exports st ! nat i)) \<or>
    cfg_resolve_opts eo d (file_ext (dataset_init dsname)) = None")
  case True
  then show ?thesis
    using cfg_fail_export_inv [OF assms(1)] by (auto simp: cfg_add_dataset_def Let_def)
next
  case False
  then obtain ro dp mp fe where
    r: "cfg_resolve_opts eo d (file_ext (dataset_init dsname)) = Some (ro, dp, mp, fe)" by auto
  let ?ds = "(dataset_init dsname)\<lparr>ds_readonly := ro, dirperm := dp, memperm := mp, file_ext := fe\<rparr>"
  have sh: "dataset_shape ?ds"
    using cfg_resolve_opts_fileext [OF r] dataset_init_shape [OF blank] by (simp add: dataset_shape_def)
  let ?e = "g_exports st ! nat i"
  have "load_inv (st\<lparr>g_exports := (g_exports st)[nat i := export_add ?ds ?e]\<rparr>)"
    if i: "nat i < length (g_exports st)"
  proof -
    have "export_shape ?e" using assms i by (simp add: load_inv_def)
    then have "export_shape (export_add ?ds ?e)"
      using sh False by (auto simp: export_shape_def export_add_def Let_def MAX_PDS_PER_EXPORT_def)
    then show ?thesis
      using assms set_update_subset_insert [of "g_exports st" "nat i" "export_add ?ds ?e"]
      by (auto simp: load_inv_def)
  qed
  then show ?thesis
    using False r assms by (simp add: cfg_add_dataset_def Let_def upd_export_def)
qed

lemma load_inv_blk [simp]:
  "load_inv (st\<lparr>g_blk_open := b\<rparr>) = load_inv st"
  "load_inv st \<Longrightarrow> load_inv (st\<lparr>g_blk_open := b, g_blk_exp_idx := -1, g_blk_opts := o'\<rparr>)"
  "load_inv st \<Longrightarrow> i < int (length (g_exports st)) \<Longrightarrow>
     load_inv (st\<lparr>g_blk_open := b, g_blk_exp_idx := i, g_blk_opts := o'\<rparr>)"
  by (simp_all add: load_inv_def)

lemma cfg_open_block_inv:
  assumes "load_inv st"
  shows "load_inv (cfg_open_block toks st)"
proof (cases toks)
  case (Cons path kws)
  let ?r = "find_or_create_export path st" and ?k = "cfg_parse_keywords kws CFG_LEVEL_EXPORT"
  note f = find_or_create_export_inv [OF assms, of path]
  let ?st2 = "(snd ?r)\<lparr>g_blk_open := True, g_blk_exp_idx := fst ?r, g_blk_opts := snd ?k\<rparr>"
  have "load_inv ?st2" using f by simp
  then show ?thesis
    using Cons f cfg_fail_export_inv [of ?st2 "fst ?r"]
    by (auto simp: cfg_open_block_def Let_def split_def export_shape_def intro!: upd_export_inv)
qed (use assms in \<open>simp add: cfg_open_block_def\<close>)

lemma cfg_do_export_line_inv:
  assumes "load_inv st"
  shows "load_inv (cfg_do_export_line p st)"
proof -
  note rules = cfg_fail_export_inv cfg_add_dataset_inv cfg_open_block_inv
    find_or_create_export_inv(1) assms
  show ?thesis
    unfolding cfg_do_export_line_def
    by (auto simp: Let_def split_def rules dest: tokenize_no_blank split: list.splits option.splits if_splits)
qed

lemma exports_load_lines_inv:
  assumes "load_inv st"
  shows "load_inv (exports_load_lines ls sect st)"
  using assms
proof (induction ls arbitrary: sect st)
  case (Cons l ls)
  have "load_inv (snd (cfg_enter_section p st))" for p
    using Cons.prems by (simp add: cfg_enter_section_def Let_def cfg_fail_export_inv)
  then show ?case
    using Cons.prems Cons.IH
    by (auto simp: split_def Let_def cfg_do_export_line_inv split: option.splits cfg_section.splits)
qed simp

text \<open>What a data set satisfies that passed the VTOC check.\<close>

definition dscb_usable :: "dataset_dscb_info_t \<Rightarrow> bool" where
  "dscb_usable d \<longleftrightarrow> valid d \<and> dsorg d AND MVS_DSCB_DSORG_PO \<noteq> 0 \<and> 0 < blocks_per_track d \<and>
     0 < blksize d \<and> 0 < lrecl d \<and>
     (recfm d AND MVS_DSCB_RECFM_MASK = MVS_DSCB_RECFM_F \<or>
      recfm d AND MVS_DSCB_RECFM_MASK = MVS_DSCB_RECFM_V \<and> uint (lrecl d) \<le> uint (blksize d) - 4)"

lemma dataset_load_dscb_ok:
  assumes "dataset_load_dscb raw ds = (ds', True)"
  shows "dscb_usable (dscb ds')"
proof -
  let ?base = "raw_recfm raw AND MVS_DSCB_RECFM_MASK"
  have g: "raw_status raw = MVS_DSCB_ST_OK" "byte_at (raw_dsorg raw) 0 AND MVS_DSCB_DSORG_PO \<noteq> 0"
    "?base = MVS_DSCB_RECFM_F \<or> ?base = MVS_DSCB_RECFM_V"
    "?base = MVS_DSCB_RECFM_V \<longrightarrow>
       uint (MVS_DSCB_U16 (raw_lrecl raw)) \<le> uint (MVS_DSCB_U16 (raw_blksize raw)) - 4"
    and i: "ds' = ds\<lparr>dscb := fst (blkcalc_dataset_init raw)\<rparr>" "snd (blkcalc_dataset_init raw)"
    using assms by (auto simp: dataset_load_dscb_def Let_def split_def split: if_splits)
  then show ?thesis by (auto simp: dscb_usable_def blkcalc_dataset_init_def Let_def)
qed

lemma dataset_load_dscb_shape: "dataset_shape ds \<Longrightarrow> dataset_shape (fst (dataset_load_dscb raw ds))"
  by (auto simp: dataset_load_dscb_def dataset_shape_def Let_def split_def)

section \<open>Properties of the export table\<close>

lemma exports_load_ok:
  assumes "exports_load vtoc (Some lines) st = (n, st')"
  shows "n = exports_count (g_exports st') \<and> n \<le> 16 \<and> \<not> g_blk_open st' \<and>
    (\<forall>e \<in> set (g_exports st'). \<not> failed e \<and> export_shape e \<and>
       (\<forall>ds \<in> set (datasets e). dscb_usable (dscb ds)))"
proof -
  define st1 where "st1 = exports_load_lines lines CFG_SECT_EXPORTS
    (st\<lparr>g_exports := [], g_blk_open := False, g_blk_exp_idx := -1\<rparr>)"
  define st2 where "st2 = (if g_blk_open st1
    then (cfg_fail_export (g_blk_exp_idx st1) st1)\<lparr>g_blk_open := False\<rparr> else st1)"
  have "load_inv st1" unfolding st1_def by (rule exports_load_lines_inv) (simp add: load_inv_def)
  then have inv: "load_inv st2" by (simp add: st2_def cfg_fail_export_inv)
  have st': "st' = cfg_drop_failed_exports (cfg_load_dscb_info vtoc st2)"
    and n: "n = int (length (g_exports st'))"
    using assms by (auto simp: exports_load_def Let_def st1_def [symmetric] st2_def)
  have "\<not> g_blk_open st2" by (simp add: st2_def)
  then have closed: "\<not> g_blk_open st'"
    by (simp add: st' cfg_drop_failed_exports_def cfg_load_dscb_info_def)
  have "length (g_exports st') \<le> length (g_exports st2)"
    by (simp add: st' cfg_drop_failed_exports_def cfg_load_dscb_info_def order_trans [OF length_filter_le])
  then have len: "length (g_exports st') \<le> 16" using inv by (simp add: load_inv_def)
  have "\<not> failed e \<and> export_shape e \<and> (\<forall>ds \<in> set (datasets e). dscb_usable (dscb ds))"
    if e: "e \<in> set (g_exports st')" for e
  proof -
    obtain e0 where e0: "e0 \<in> set (g_exports st2)" "e = export_load_dscb vtoc e0" "\<not> failed e"
      using e by (auto simp: st' cfg_drop_failed_exports_def cfg_load_dscb_info_def)
    have sh: "export_shape e0" using inv e0(1) by (simp add: load_inv_def)
    show ?thesis
    proof (cases "failed e0 \<or> datasets e0 = []")
      case True
      then show ?thesis using e0 sh by (auto simp: export_load_dscb_def)
    next
      case False
      let ?l = "\<lambda>ds. dataset_load_dscb (vtoc (dsname_ebcdic ds)) ds"
      have ds: "datasets e = map (\<lambda>ds. fst (?l ds)) (datasets e0)"
        and ok: "\<And>ds. ds \<in> set (datasets e0) \<Longrightarrow> snd (?l ds)"
        and p: "export_path e = export_path e0" "export_path_ebcdic e = export_path_ebcdic e0"
        using e0(2,3) False by (auto simp: export_load_dscb_def Let_def)
      have "dscb_usable (dscb (fst (?l ds)))" if "ds \<in> set (datasets e0)" for ds
        using dataset_load_dscb_ok [of "vtoc (dsname_ebcdic ds)" ds "fst (?l ds)"] ok [OF that]
        by (cases "?l ds") simp
      then show ?thesis
        using sh e0(3) ds p by (auto simp: export_shape_def dataset_load_dscb_shape)
    qed
  qed
  then show ?thesis using n len closed by (simp add: exports_count_def)
qed

text \<open>
  C20. What loading a configuration establishes, whatever the file and the VTOC hold: the
  return value is the number of exports, the table is within its bounds, no export with an
  error is left, the names of every data set are consistent
  and without blanks, and every data set passed the
  VTOC check; records of a variable-length data set fit its blocks.
\<close>

theorem exports_load_invariant:
  assumes "exports_load vtoc (Some lines) st = (n, st')"
  shows "n = exports_count (g_exports st') \<and> n \<le> 16 \<and> \<not> g_blk_open st' \<and>
    (\<forall>e \<in> set (g_exports st'). \<not> failed e \<and> export_shape e \<and>
       (\<forall>ds \<in> set (datasets e). dscb_usable (dscb ds)))"
  by (rule exports_load_ok [OF assms])

definition sample_vtoc :: "bytes \<Rightarrow> mvs_dscb_info_t" where
  "sample_vtoc dsn =
     \<lparr>raw_status = 0, raw_volser = [0xC1], raw_nextents = 1, raw_tracks = 30, raw_create_date = [],
      raw_ref_date = [], raw_dsorg = [2, 0], raw_recfm = 0x90, raw_blksize = [12, 128],
      raw_lrecl = [0, 80], raw_devtype = [0, 0, 0, 15], raw_trklen = [220, 0], raw_trkcyl = [0, 15],
      raw_sec_flags = 0, raw_sec_qty = 0, raw_sec_tracks = 0, raw_lstar = [0, 1, 2], raw_trbal = [1, 0]\<rparr>"

definition exports_init :: exports_state where
  "exports_init = \<lparr>g_exports = [], g_blk_open = False, g_blk_exp_idx = -1, g_blk_opts = cfg_opts_zero\<rparr>"

text \<open>The line \<^verbatim>\<open>/X A.B\<close> in EBCDIC.\<close>

definition sample_line :: bytes where
  "sample_line = [0x61, 0xE7, 0x40, 0xC1, 0x4B, 0xC2, 0x15]"

lemma sample_load: "fst (exports_load sample_vtoc (Some [sample_line]) exports_init) = 1"
  by code_simp

theorem exports_load_invariant_witness:
  "let st = snd (exports_load sample_vtoc (Some [sample_line]) exports_init)
   in exports_count (g_exports st) = 1 \<and>
      (\<forall>e \<in> set (g_exports st). export_shape e \<and> (\<forall>ds \<in> set (datasets e). dscb_usable (dscb ds)))"
  using exports_load_invariant [of sample_vtoc "[sample_line]" exports_init 1
      "snd (exports_load sample_vtoc (Some [sample_line]) exports_init)"] sample_load
  by (simp add: Let_def prod_eq_iff)

text \<open>
  The read-only ceiling of an export does not reach data sets given on a line of their
  own: outside a block, a line that names an existing read-only export and a data set adds
  that data set as writable.
\<close>

theorem export_line_ignores_readonly:
  assumes "\<not> g_blk_open st" and "cfg_tokenize p CFG_MAX_TOKS = Some [path, dsn]"
    and "p \<noteq> [CFG_BLOCK_CLOSE]" and "dsn \<noteq> [CFG_BLOCK_OPEN]"
    and "find_index (\<lambda>e. export_path_ebcdic e = path) (g_exports st) = Some i"
    and "length (datasets (g_exports st ! i)) < MAX_PDS_PER_EXPORT" and "exp_readonly (g_exports st ! i)"
  shows "exp_readonly (g_exports (cfg_do_export_line p st) ! i) \<and>
    \<not> ds_readonly (last (datasets (g_exports (cfg_do_export_line p st) ! i)))"
proof -
  have i: "i < length (g_exports st)" using assms(5) by (simp add: find_index_Some)
  obtain dp mp fe where r:
    "cfg_resolve_opts None cfg_opts_zero (file_ext (dataset_init dsn)) = Some (False, dp, mp, fe)"
    by (simp add: cfg_resolve_opts_def Let_def cfg_opts_zero_def)
  let ?ds = "(dataset_init dsn)\<lparr>ds_readonly := False, dirperm := dp, memperm := mp, file_ext := fe\<rparr>"
  have "cfg_parse_keywords [] CFG_LEVEL_DATASET = (True, cfg_opts_zero)"
    by (simp add: cfg_parse_keywords_def cfg_opts_zero_def)
  then have "cfg_do_export_line p st = upd_export i (export_add ?ds) st"
    using assms r
    by (simp add: cfg_do_export_line_def find_or_create_export_def cfg_add_dataset_def)
  moreover have "exp_readonly (export_add d e) = exp_readonly e" "last (datasets (export_add d e)) = d"
    for d e by (simp_all add: export_add_def Let_def)
  ultimately show ?thesis using i assms(7) by (simp add: upd_export_def)
qed

theorem export_line_ignores_readonly_witness:
  "let st = exports_init\<lparr>g_exports := [(new_export [0x61, 0xE7])\<lparr>exp_readonly := True\<rparr>]\<rparr>
   in \<not> ds_readonly (last (datasets (g_exports
        (cfg_do_export_line [0x61, 0xE7, 0x40, 0xC1, 0x4B, 0xC2] st) ! 0)))"
proof -
  let ?st = "exports_init\<lparr>g_exports := [(new_export [0x61, 0xE7])\<lparr>exp_readonly := True\<rparr>]\<rparr>"
  have t: "cfg_tokenize [0x61, 0xE7, 0x40, 0xC1, 0x4B, 0xC2] CFG_MAX_TOKS =
      Some [[0x61, 0xE7], [0xC1, 0x4B, 0xC2]]" by code_simp
  have i: "find_index (\<lambda>e. export_path_ebcdic e = [0x61, 0xE7]) (g_exports ?st) = Some 0"
    by (simp add: new_export_def Let_def strncpyz_def MAX_PATH_def)
  show ?thesis
    using export_line_ignores_readonly [OF _ t _ _ i]
    by (simp add: exports_init_def CFG_BLOCK_CLOSE_def CFG_BLOCK_OPEN_def new_export_def Let_def
        MAX_PDS_PER_EXPORT_def)
qed

end
