(* ===== verification/Nfserr.thy ===== *)
theory Nfserr
  imports Nfsd_Prelude
begin

text \<open>
  Error numbers and NFS status codes, \<^verbatim>\<open>src/src/nfserr.c\<close> and the constants of
  \<^verbatim>\<open>src/src/nfsd.h\<close>. The numeric values of \<^verbatim>\<open>errno\<close> differ between run-time libraries, so
  they are the constructors of a type; \<open>EOTHER\<close> is any number the sources do not name.
\<close>

datatype errno_t = E_OK | EPERM | ENOENT | EIO | ENXIO | EACCES | EEXIST | EXDEV | ENODEV
  | ENOTDIR | EISDIR | EINVAL | EFBIG | ENOSPC | EROFS | EMLINK | ENAMETOOLONG | ENOTEMPTY
  | EDQUOT | EBUSY | ENOMEM | EBADF | EOTHER

definition NFS3_OK :: u32 where "NFS3_OK = 0"
definition NFS3ERR_PERM :: u32 where "NFS3ERR_PERM = 1"
definition NFS3ERR_NOENT :: u32 where "NFS3ERR_NOENT = 2"
definition NFS3ERR_IO :: u32 where "NFS3ERR_IO = 5"
definition NFS3ERR_NXIO :: u32 where "NFS3ERR_NXIO = 6"
definition NFS3ERR_ACCES :: u32 where "NFS3ERR_ACCES = 13"
definition NFS3ERR_EXIST :: u32 where "NFS3ERR_EXIST = 17"
definition NFS3ERR_XDEV :: u32 where "NFS3ERR_XDEV = 18"
definition NFS3ERR_NODEV :: u32 where "NFS3ERR_NODEV = 19"
definition NFS3ERR_NOTDIR :: u32 where "NFS3ERR_NOTDIR = 20"
definition NFS3ERR_ISDIR :: u32 where "NFS3ERR_ISDIR = 21"
definition NFS3ERR_INVAL :: u32 where "NFS3ERR_INVAL = 22"
definition NFS3ERR_FBIG :: u32 where "NFS3ERR_FBIG = 27"
definition NFS3ERR_NOSPC :: u32 where "NFS3ERR_NOSPC = 28"
definition NFS3ERR_ROFS :: u32 where "NFS3ERR_ROFS = 30"
definition NFS3ERR_MLINK :: u32 where "NFS3ERR_MLINK = 31"
definition NFS3ERR_NAMETOOLONG :: u32 where "NFS3ERR_NAMETOOLONG = 63"
definition NFS3ERR_NOTEMPTY :: u32 where "NFS3ERR_NOTEMPTY = 66"
definition NFS3ERR_DQUOT :: u32 where "NFS3ERR_DQUOT = 69"
definition NFS3ERR_STALE :: u32 where "NFS3ERR_STALE = 70"
definition NFS3ERR_BADHANDLE :: u32 where "NFS3ERR_BADHANDLE = 10001"
definition NFS3ERR_NOTSUPP :: u32 where "NFS3ERR_NOTSUPP = 10004"

lemmas nfs3_status_defs = NFS3_OK_def NFS3ERR_PERM_def NFS3ERR_NOENT_def NFS3ERR_IO_def
  NFS3ERR_NXIO_def NFS3ERR_ACCES_def NFS3ERR_EXIST_def NFS3ERR_XDEV_def NFS3ERR_NODEV_def
  NFS3ERR_NOTDIR_def NFS3ERR_ISDIR_def NFS3ERR_INVAL_def NFS3ERR_FBIG_def NFS3ERR_NOSPC_def
  NFS3ERR_ROFS_def NFS3ERR_MLINK_def NFS3ERR_NAMETOOLONG_def NFS3ERR_NOTEMPTY_def
  NFS3ERR_DQUOT_def NFS3ERR_STALE_def NFS3ERR_BADHANDLE_def NFS3ERR_NOTSUPP_def

fun vfs_errno_to_nfs3 :: "errno_t \<Rightarrow> u32" where
  "vfs_errno_to_nfs3 E_OK = NFS3_OK"
| "vfs_errno_to_nfs3 EPERM = NFS3ERR_PERM"
| "vfs_errno_to_nfs3 ENOENT = NFS3ERR_NOENT"
| "vfs_errno_to_nfs3 EIO = NFS3ERR_IO"
| "vfs_errno_to_nfs3 ENXIO = NFS3ERR_NXIO"
| "vfs_errno_to_nfs3 EACCES = NFS3ERR_ACCES"
| "vfs_errno_to_nfs3 EEXIST = NFS3ERR_EXIST"
| "vfs_errno_to_nfs3 EXDEV = NFS3ERR_XDEV"
| "vfs_errno_to_nfs3 ENODEV = NFS3ERR_NODEV"
| "vfs_errno_to_nfs3 ENOTDIR = NFS3ERR_NOTDIR"
| "vfs_errno_to_nfs3 EISDIR = NFS3ERR_ISDIR"
| "vfs_errno_to_nfs3 EINVAL = NFS3ERR_INVAL"
| "vfs_errno_to_nfs3 EFBIG = NFS3ERR_FBIG"
| "vfs_errno_to_nfs3 ENOSPC = NFS3ERR_NOSPC"
| "vfs_errno_to_nfs3 EROFS = NFS3ERR_ROFS"
| "vfs_errno_to_nfs3 EMLINK = NFS3ERR_MLINK"
| "vfs_errno_to_nfs3 ENAMETOOLONG = NFS3ERR_NAMETOOLONG"
| "vfs_errno_to_nfs3 ENOTEMPTY = NFS3ERR_NOTEMPTY"
| "vfs_errno_to_nfs3 EDQUOT = NFS3ERR_DQUOT"
| "vfs_errno_to_nfs3 e = NFS3ERR_IO"

text \<open>A failing call never reaches the client as success.\<close>

lemma vfs_errno_to_nfs3_ok: "vfs_errno_to_nfs3 e = NFS3_OK \<longleftrightarrow> e = E_OK"
  by (cases e) (simp_all add: nfs3_status_defs)

end
