(* ===== verification/Mvsio.thy ===== *)
theory Mvsio
  imports Exports Nfserr
begin

text \<open>
  Paths and member names, \<^verbatim>\<open>src/src/mvsio.c\<close>: the rules for member names, the classification
  of an EBCDIC path into export root, data set and member, and the extraction of data set
  and member name from a path, with the small converters for directory entries. Opening a
  data set for its DCB attributes is left to the system.
\<close>

section \<open>Member names\<close>

definition is_national :: "u8 \<Rightarrow> bool" where
  "is_national c \<longleftrightarrow> c = ch_at \<or> c = ch_hash \<or> c = ch_dollar"

definition mvs_member_name_valid :: "bytes \<Rightarrow> errno_t" where
  "mvs_member_name_valid member =
     (if length member = 0 then EINVAL
      else if 8 < length member then ENAMETOOLONG
      else if \<not> (isupper (member ! 0) \<or> is_national (member ! 0)) then EINVAL
      else if \<exists>c \<in> set (drop 1 member). \<not> (isupper c \<or> isdigit c \<or> is_national c) then EINVAL
      else E_OK)"

section \<open>Paths\<close>

datatype mvs_path_kind = MVS_PATH_NOT_EXPORTED | MVS_PATH_TYPE_ROOT | MVS_PATH_TYPE_DATASET
  | MVS_PATH_TYPE_PDS_MEMBER

text \<open>The part of the scan below one export: what is behind the export's path and a slash.\<close>

definition path_in_export :: "export_t list \<Rightarrow> nat \<Rightarrow> bytes \<Rightarrow> mvs_path_kind \<times> int \<times> int" where
  "path_in_export es i rel =
     (let comp = takeWhile (\<lambda>c. c \<noteq> ch_slash) rel;
          tail = drop (length comp + 1) rel
      in if length comp = 0 \<or> MAX_DSNAME_LEN \<le> length comp then (MVS_PATH_NOT_EXPORTED, -1, -1)
         else let ds_idx = export_dataset_find_by_dirname es (int i) comp in
           if ds_idx < 0 then (MVS_PATH_NOT_EXPORTED, -1, -1)
           else if ch_slash \<notin> set rel then (MVS_PATH_TYPE_DATASET, int i, ds_idx)
           else if tail = [] then (MVS_PATH_TYPE_DATASET, int i, ds_idx)
           else if ch_slash \<in> set tail then (MVS_PATH_NOT_EXPORTED, int i, ds_idx)
           else (MVS_PATH_TYPE_PDS_MEMBER, int i, ds_idx))"

fun path_scan :: "export_t list \<Rightarrow> nat \<Rightarrow> export_t list \<Rightarrow> bytes \<Rightarrow> mvs_path_kind \<times> int \<times> int" where
  "path_scan es i [] path = (MVS_PATH_NOT_EXPORTED, -1, -1)"
| "path_scan es i (e # rest) path =
     (let ep = export_path_ebcdic e in
      if path = ep then (MVS_PATH_TYPE_ROOT, int i, -1)
      else if length path \<le> length ep then path_scan es (Suc i) rest path
      else if take (length ep) path \<noteq> ep then path_scan es (Suc i) rest path
      else if path ! length ep \<noteq> ch_slash then path_scan es (Suc i) rest path
      else path_in_export es i (drop (length ep + 1) path))"

text \<open>The kind of the path, \<^verbatim>\<open>*export_idx\<close> and \<^verbatim>\<open>*dataset_idx\<close>.\<close>

definition mvs_path_type :: "export_t list \<Rightarrow> bytes \<Rightarrow> mvs_path_kind \<times> int \<times> int" where
  "mvs_path_type es path = path_scan es 0 es path"

definition before_last :: "u8 \<Rightarrow> bytes \<Rightarrow> bytes" where
  "before_last c s = rev (drop 1 (dropWhile (\<lambda>x. x \<noteq> c) (rev s)))"

text \<open>The error number (none on success), the data set name and the member name as returned.\<close>

definition mvs_get_pds_dsn_and_member ::
  "export_t list \<Rightarrow> bytes \<Rightarrow> int \<Rightarrow> errno_t option \<times> bytes \<times> bytes" where
  "mvs_get_pds_dsn_and_member es path export_idx =
     (let (level, _, ds_idx) = mvs_path_type es path in
      if level \<noteq> MVS_PATH_TYPE_DATASET \<and> level \<noteq> MVS_PATH_TYPE_PDS_MEMBER then (Some ENOENT, [], [])
      else case export_dataset_get es export_idx ds_idx of None \<Rightarrow> (Some ENOENT, [], [])
      | Some ds \<Rightarrow>
          let dsn = take 44 (dsname_ebcdic ds) in
          if level = MVS_PATH_TYPE_DATASET then (None, dsn, [])
          else case after_last ch_slash path of None \<Rightarrow> (None, dsn, [])
          | Some leaf \<Rightarrow>
              let file_name = strncpyz MAX_NAME leaf;
                  (name, ext) =
                    (if file_ext ds \<noteq> [] then
                       (case after_last ch_dot file_name of None \<Rightarrow> (file_name, [])
                        | Some e \<Rightarrow> (before_last ch_dot file_name, strncpyz MAX_FILE_EXT_LEN e))
                     else (file_name, []));
                  upper = map toupper name
              in if mvs_member_name_valid upper \<noteq> E_OK then (Some ENAMETOOLONG, dsn, [])
                 else if file_ext ds \<noteq> [] \<and> map tolower ext \<noteq> map tolower (file_ext ds)
                 then (Some ENOENT, dsn, take 8 upper)
                 else (None, dsn, take 8 upper))"

section \<open>Converters for directory entries\<close>

definition bytes_to_string :: "bytes \<Rightarrow> nat \<Rightarrow> bytes" where
  "bytes_to_string source len = cstr (strip_trailing ch_space (take len source))"

definition bcd_byte_to_int :: "u8 \<Rightarrow> int" where
  "bcd_byte_to_int b = 10 * uint (drop_bit 4 b AND 0x0F) + uint (b AND 0x0F)"

section \<open>Where a path leads\<close>

lemma rev_takeWhile_last:
  "c \<notin> set t \<Longrightarrow> rev (takeWhile (\<lambda>x. x \<noteq> c) (rev (s @ c # t))) = t"
  by (subst rev_append, simp, subst takeWhile_append2) auto

lemma after_last_append [simp]: "c \<notin> set t \<Longrightarrow> after_last c (s @ c # t) = Some t"
  using rev_takeWhile_last [of c t s] by (simp add: after_last_def)

lemma before_last_append [simp]: "c \<notin> set t \<Longrightarrow> before_last c (s @ c # t) = s"
  by (simp add: before_last_def, subst dropWhile_append2) auto

lemma takeWhile_slash: "c \<notin> set s \<Longrightarrow> takeWhile (\<lambda>x. x \<noteq> c) (s @ c # t) = s"
  by (subst takeWhile_append2) auto

lemma takeWhile_all: "c \<notin> set s \<Longrightarrow> takeWhile (\<lambda>x. x \<noteq> c) s = s"
  by (auto simp: takeWhile_eq_all_conv)

text \<open>An export claims a path: the path is the export's, or lies below it.\<close>

definition claims :: "export_t \<Rightarrow> bytes \<Rightarrow> bool" where
  "claims e path \<longleftrightarrow> path = export_path_ebcdic e \<or> (\<exists>rel. path = export_path_ebcdic e @ ch_slash # rel)"

lemma path_scan_skip:
  assumes "\<not> claims e path"
  shows "path_scan es i (e # rest) path = path_scan es (Suc i) rest path"
proof -
  let ?n = "length (export_path_ebcdic e)"
  have "\<not> (?n < length path \<and> take ?n path = export_path_ebcdic e \<and> path ! ?n = ch_slash)"
  proof
    assume a: "?n < length path \<and> take ?n path = export_path_ebcdic e \<and> path ! ?n = ch_slash"
    then have "path = export_path_ebcdic e @ ch_slash # drop (Suc ?n) path"
      by (metis id_take_nth_drop)
    then show False using assms by (auto simp: claims_def)
  qed
  then show ?thesis using assms by (auto simp: claims_def Let_def not_less)
qed

lemma path_scan_below:
  "path_scan es i (e # rest) (export_path_ebcdic e @ ch_slash # rel) = path_in_export es i rel"
  by (simp add: Let_def)

lemma path_scan_first:
  assumes "i < length rest" and "\<forall>j < i. \<not> claims (rest ! j) path"
  shows "path_scan es k rest path = path_scan es (k + i) (drop i rest) path"
  using assms
proof (induction i arbitrary: rest k)
  case (Suc i)
  then obtain e rest' where r: "rest = e # rest'" by (cases rest) auto
  have "\<not> claims e path" using Suc.prems(2) r by force
  then have "path_scan es k rest path = path_scan es (Suc k) rest' path"
    using path_scan_skip r by blast
  also have "\<dots> = path_scan es (Suc k + i) (drop i rest') path"
    using Suc.prems r by (intro Suc.IH) force+
  finally show ?case by (simp add: r)
qed simp

lemma mvs_path_type_below:
  assumes "i < length es" and "path = export_path_ebcdic (es ! i) @ ch_slash # rel"
    and "\<forall>j < i. \<not> claims (es ! j) path"
  shows "mvs_path_type es path = path_in_export es i rel"
proof -
  have "drop i es = es ! i # drop (Suc i) es" using assms(1) by (simp add: Cons_nth_drop_Suc)
  then show ?thesis
    using path_scan_first [OF assms(1,3), of es 0] assms(2) path_scan_below
    by (simp add: mvs_path_type_def)
qed

lemma mvs_path_type_root:
  assumes "i < length es" and "\<forall>j < i. \<not> claims (es ! j) (export_path_ebcdic (es ! i))"
  shows "mvs_path_type es (export_path_ebcdic (es ! i)) = (MVS_PATH_TYPE_ROOT, int i, -1)"
proof -
  have "drop i es = es ! i # drop (Suc i) es" using assms(1) by (simp add: Cons_nth_drop_Suc)
  then show ?thesis
    using path_scan_first [OF assms, of es 0] by (simp add: mvs_path_type_def Let_def)
qed

end
