(* ===== verification/Fhandle.thy ===== *)
theory Fhandle
  imports Xdr Fid Mvsio
begin

text \<open>
  File handles, \<^verbatim>\<open>src/src/fhandle.c\<close>: the 60-byte wire form of a handle, and the two
  directions between a handle, which names its object, and the ASCII path of the object.
\<close>

definition OUR_FHSIZE :: u32 where "OUR_FHSIZE = 60"
definition OUR_FH_MAGIC :: u32 where "OUR_FH_MAGIC = 0x4E465333"
definition FH_DSNAME_LEN :: nat where "FH_DSNAME_LEN = 44"
definition FH_MEMBER_LEN :: nat where "FH_MEMBER_LEN = 8"
definition FH_PAD_CHAR :: u8 where "FH_PAD_CHAR = 0x20"

record our_fhandle_t =
  fh_magic :: u32
  fh_export :: u32
  fh_dsname :: bytes
  fh_member :: bytes

section \<open>The wire form\<close>

definition fh_put_field :: "bytes \<Rightarrow> nat \<Rightarrow> bytes" where
  "fh_put_field src n = take n src @ replicate (n - length src) FH_PAD_CHAR"

definition fh_get_field :: "bytes \<Rightarrow> nat \<Rightarrow> bytes" where
  "fh_get_field src n = cstr (strip_trailing FH_PAD_CHAR (take n src))"

definition fh_encode :: "our_fhandle_t \<Rightarrow> bytes" where
  "fh_encode fh =
     be32_bytes (fh_magic fh) @ be32_bytes (fh_export fh) @
     fh_put_field (fh_dsname fh) FH_DSNAME_LEN @ fh_put_field (fh_member fh) FH_MEMBER_LEN"

definition fh_decode :: "bytes \<Rightarrow> u32 \<Rightarrow> our_fhandle_t option" where
  "fh_decode b len =
     (if len \<noteq> OUR_FHSIZE then None
      else let magic = be32_word (byte_at b 0) (byte_at b 1) (byte_at b 2) (byte_at b 3) in
        if magic \<noteq> OUR_FH_MAGIC then None
        else Some \<lparr>fh_magic = magic,
                   fh_export = be32_word (byte_at b 4) (byte_at b 5) (byte_at b 6) (byte_at b 7),
                   fh_dsname = fh_get_field (drop 8 b) FH_DSNAME_LEN,
                   fh_member = fh_get_field (drop (8 + FH_DSNAME_LEN) b) FH_MEMBER_LEN\<rparr>)"

section \<open>Handles and paths\<close>

definition fh_export_id :: "export_t \<Rightarrow> u32" where
  "fh_export_id e = mvs_fid_ino32 (Some (export_path_ebcdic e)) None"

definition fh_find_export :: "export_t list \<Rightarrow> u32 \<Rightarrow> nat option" where
  "fh_find_export es eid = find_index (\<lambda>e. fh_export_id e = eid) es"

definition fh_from_path :: "export_t list \<Rightarrow> bytes \<Rightarrow> our_fhandle_t option" where
  "fh_from_path es abspath =
     (let ebcdic_path = take (MAX_PATH - 1) (ascii_to_ebcdic abspath);
          (kind, export_idx, dataset_idx) = mvs_path_type es ebcdic_path
      in if kind = MVS_PATH_NOT_EXPORTED then None
         else case exports_get es export_idx of None \<Rightarrow> None
         | Some e \<Rightarrow>
             let fh = \<lparr>fh_magic = OUR_FH_MAGIC, fh_export = fh_export_id e, fh_dsname = [], fh_member = []\<rparr> in
             if kind = MVS_PATH_TYPE_ROOT then Some fh
             else case export_dataset_get es export_idx dataset_idx of None \<Rightarrow> None
             | Some ds \<Rightarrow>
                 let fh1 = fh\<lparr>fh_dsname := strncpyz MAX_DSNAME_LEN (dsname_ascii ds)\<rparr> in
                 if kind \<noteq> MVS_PATH_TYPE_PDS_MEMBER then Some fh1
                 else case mvs_get_pds_dsn_and_member es ebcdic_path export_idx of
                   (Some _, _, _) \<Rightarrow> None
                 | (None, _, mem) \<Rightarrow> Some (fh1\<lparr>fh_member := ebcdic_to_ascii mem\<rparr>))"

definition ascii_lower :: "u8 \<Rightarrow> u8" where
  "ascii_lower c = (if 0x41 \<le> c \<and> c \<le> 0x5A then c + 0x20 else c)"

definition fh_resolve :: "export_t list \<Rightarrow> our_fhandle_t \<Rightarrow> u32 \<Rightarrow> bytes option" where
  "fh_resolve es fh maxlen =
     (if fh_magic fh \<noteq> OUR_FH_MAGIC then None
      else case fh_find_export es (fh_export fh) of None \<Rightarrow> None
      | Some i \<Rightarrow>
          let e = es ! i;
              slash = ebcdic_to_ascii_c ch_slash;
              dot = ebcdic_to_ascii_c ch_dot
          in if fh_dsname fh = [] then Some (strncpyz (unat maxlen) (export_path e))
             else case find (\<lambda>ds. dsname_ascii ds = fh_dsname fh) (datasets e) of None \<Rightarrow> None
             | Some ds \<Rightarrow>
                 if fh_member fh = []
                 then Some (strncpyz (unat maxlen) (export_path e @ [slash] @ dirname_ascii ds))
                 else let member_lc = map ascii_lower (fh_member fh);
                          ext_ascii = ebcdic_to_ascii (take (MAX_FILE_EXT_LEN - 1) (file_ext ds))
                   in if ext_ascii \<noteq> []
                      then Some (strncpyz (unat maxlen) (export_path e @ [slash] @ dirname_ascii ds @
                             [slash] @ member_lc @ [dot] @ ext_ascii))
                      else Some (strncpyz (unat maxlen) (export_path e @ [slash] @ dirname_ascii ds @
                             [slash] @ member_lc)))"

section \<open>Writing a handle\<close>

definition xdr_write_fhandle :: "our_fhandle_t \<Rightarrow> xdr_t \<Rightarrow> xdr_t" where
  "xdr_write_fhandle fh x = xdr_write_opaque (fh_encode fh) OUR_FHSIZE x"

section \<open>The wire form and back\<close>

lemma length_fh_put_field [simp]: "length (fh_put_field s n) = n"
  by (simp add: fh_put_field_def)

lemma fh_field_roundtrip:
  assumes "length s \<le> n" and "0 \<notin> set s" and "s \<noteq> [] \<longrightarrow> last s \<noteq> FH_PAD_CHAR"
  shows "fh_get_field (fh_put_field s n @ t) n = s"
  using assms strip_trailing_replicate [OF assms(3)]
  by (simp add: fh_get_field_def fh_put_field_def cstr_id)

lemma length_fh_encode [simp]: "length (fh_encode fh) = 60"
  by (simp add: fh_encode_def FH_DSNAME_LEN_def FH_MEMBER_LEN_def)

lemma be32_word_at:
  assumes "n = length pre"
  shows "be32_word (byte_at (pre @ be32_bytes v @ t) n) (byte_at (pre @ be32_bytes v @ t) (n + 1))
    (byte_at (pre @ be32_bytes v @ t) (n + 2)) (byte_at (pre @ be32_bytes v @ t) (n + 3)) = v"
proof -
  have b: "byte_at (pre @ be32_bytes v @ t) (length pre + k) = be32_bytes v ! k" if "k < 4" for k
    using that by (auto simp: byte_at_def nth_append)
  show ?thesis
    using b [of 0] b [of 1] b [of 2] b [of 3] be32_word_nth [of v] assms by simp
qed

section \<open>Names\<close>

text \<open>A character of a valid member name.\<close>

definition member_char :: "u8 \<Rightarrow> bool" where
  "member_char c \<longleftrightarrow> isupper c \<or> isdigit c \<or> is_national c"

lemma member_name_chars:
  assumes "mvs_member_name_valid m = E_OK"
  shows "m \<noteq> []" and "length m \<le> 8" and "list_all member_char m"
proof -
  show "m \<noteq> []" "length m \<le> 8"
    using assms by (auto simp: mvs_member_name_valid_def split: if_splits)
  then obtain c t where m: "m = c # t" by (cases m) auto
  have "member_char c" "\<forall>x \<in> set t. member_char x"
    using assms by (auto simp: m mvs_member_name_valid_def member_char_def split: if_splits)
  then show "list_all member_char m" by (simp add: m list_all_iff)
qed

lemma not_case_char [simp]:
  "\<not> islower ch_slash" "\<not> islower ch_dot" "\<not> isupper ch_slash" "\<not> isupper ch_dot"
  "\<not> isdigit ch_slash" "\<not> isdigit ch_dot" "\<not> is_national ch_slash" "\<not> is_national ch_dot"
  "name_char ch_slash" "name_char ch_dot"
  by (simp_all add: islower_def isupper_def isdigit_def is_national_def ch_defs name_char_def)

lemma tolower_char:
  "\<not> isupper c \<Longrightarrow> tolower c = c" "tolower c = ch_slash \<longleftrightarrow> c = ch_slash"
  "tolower c = ch_dot \<longleftrightarrow> c = ch_dot" "name_char c \<Longrightarrow> name_char (tolower c)"
proof -
  show eq: "\<not> isupper c \<Longrightarrow> tolower c = c" for c by (simp add: tolower_def)
  have up: "isupper c \<Longrightarrow> islower (tolower c)" by (rule upper_case_table)
  show "tolower c = ch_slash \<longleftrightarrow> c = ch_slash"
    using up eq [of c] not_case_char by (cases "isupper c") auto
  show "tolower c = ch_dot \<longleftrightarrow> c = ch_dot"
    using up eq [of c] not_case_char by (cases "isupper c") auto
  show "name_char c \<Longrightarrow> name_char (tolower c)"
    using up eq [of c] by (cases "isupper c") (auto simp: name_char_def)
qed

lemma tolower_sep_sym [simp]:
  "ch_slash = tolower c \<longleftrightarrow> c = ch_slash" "ch_dot = tolower c \<longleftrightarrow> c = ch_dot"
  using tolower_char(2,3) [of c] by auto

lemma member_char_table:
  assumes "member_char c"
  shows "name_char c" and "toupper (tolower c) = c" and "c \<noteq> ch_slash" and "c \<noteq> ch_dot"
    and "ascii_lower (ebcdic_to_ascii_c c) = ebcdic_to_ascii_c (tolower c)"
proof -
  show n: "name_char c" using assms by (auto simp: member_char_def name_char_def is_national_def)
  show "c \<noteq> ch_slash" "c \<noteq> ch_dot"
    using assms not_case_char by (auto simp: member_char_def)
  have low: "\<not> islower c" if "\<not> isupper c"
    using assms that
    by (auto simp: member_char_def isdigit_def is_national_def islower_def ch_defs word_le_nat_alt)
  show "toupper (tolower c) = c"
    using upper_case_table [of c] low tolower_char(1) [of c] by (cases "isupper c") (auto simp: toupper_def)
  show "ascii_lower (ebcdic_to_ascii_c c) = ebcdic_to_ascii_c (tolower c)"
    using ascii_lower_table [of c] other_case_table [OF n] tolower_char(1) [of c]
    by (cases "isupper c") (auto simp: ascii_lower_def)
qed

lemma member_lower:
  assumes "list_all member_char m"
  shows "map ascii_lower (ebcdic_to_ascii m) = ebcdic_to_ascii (map tolower m)"
    and "map toupper (map tolower m) = m" and "list_all name_char (map tolower m)"
    and "ch_slash \<notin> set (map tolower m)" and "ch_dot \<notin> set (map tolower m)"
  using assms
  by (induction m)
    (auto simp: ebcdic_to_ascii_def member_char_table tolower_char dest: member_char_table(3,4))

section \<open>From a handle to its path and back\<close>

text \<open>What an export's configured names look like: path, data set names and extensions.\<close>

definition export_names_ok :: "export_t \<Rightarrow> bool" where
  "export_names_ok e \<longleftrightarrow> list_all name_char (export_path_ebcdic e) \<and>
     (\<forall>ds \<in> set (datasets e). dsname_ebcdic ds \<noteq> [] \<and> list_all name_char (dsname_ebcdic ds) \<and>
        ch_slash \<notin> set (dsname_ebcdic ds) \<and> list_all name_char (file_ext ds) \<and>
        ch_slash \<notin> set (file_ext ds) \<and> ch_dot \<notin> set (file_ext ds))"

definition leaf_name :: "pds_dataset_t \<Rightarrow> bytes \<Rightarrow> bytes" where
  "leaf_name ds m = map tolower m @ (if file_ext ds = [] then [] else ch_dot # file_ext ds)"

lemma slash_lower: "ch_slash \<in> set (map tolower s) \<longleftrightarrow> ch_slash \<in> set s"
  by (auto simp: tolower_char)

lemma name_char_lower: "list_all name_char s \<Longrightarrow> list_all name_char (map tolower s)"
  by (induction s) (simp_all add: tolower_char)

lemma leaf_name_facts:
  assumes "mvs_member_name_valid m = E_OK" and "list_all name_char (file_ext ds)"
    and "ch_slash \<notin> set (file_ext ds)"
  shows "leaf_name ds m \<noteq> []" and "ch_slash \<notin> set (leaf_name ds m)"
    and "list_all name_char (leaf_name ds m)"
  using member_name_chars [OF assms(1)] member_lower [of m] assms(2,3)
  by (auto simp: leaf_name_def ch_defs name_char_def)

text \<open>Data set \<open>d\<close> of export \<open>i\<close> is found by its own directory name and by its own name.\<close>

definition ds_selected :: "export_t list \<Rightarrow> nat \<Rightarrow> nat \<Rightarrow> bool" where
  "ds_selected es i d \<longleftrightarrow> i < length es \<and> d < length (datasets (es ! i)) \<and>
     export_shape (es ! i) \<and> export_names_ok (es ! i) \<and>
     (\<forall>k < d. dirname_ebcdic (datasets (es ! i) ! k) \<noteq> dirname_ebcdic (datasets (es ! i) ! d)) \<and>
     (\<forall>j < i. fh_export_id (es ! j) \<noteq> fh_export_id (es ! i))"

lemma ds_selected_find:
  assumes "ds_selected es i d"
  shows "export_dataset_find_by_dirname es (int i) (dirname_ebcdic (datasets (es ! i) ! d)) = int d"
    and "export_dataset_get es (int i) (int d) = Some (datasets (es ! i) ! d)"
    and "exports_get es (int i) = Some (es ! i)"
    and "fh_find_export es (fh_export_id (es ! i)) = Some i"
    and "find (\<lambda>x. dsname_ascii x = dsname_ascii (datasets (es ! i) ! d)) (datasets (es ! i)) =
      Some (datasets (es ! i) ! d)"
proof -
  let ?e = "es ! i" and ?ds = "datasets (es ! i) ! d"
  have i: "i < length es" and d: "d < length (datasets ?e)"
    and dirs: "\<forall>k < d. dirname_ebcdic (datasets ?e ! k) \<noteq> dirname_ebcdic ?ds"
    and sh: "export_shape ?e" and nm: "export_names_ok ?e"
    using assms by (simp_all add: ds_selected_def)
  show get: "exports_get es (int i) = Some ?e" using i by (simp add: exports_get_def)
  show "export_dataset_get es (int i) (int d) = Some ?ds"
    using get d by (simp add: export_dataset_get_def)
  have "find_index (\<lambda>x. dirname_ebcdic x = dirname_ebcdic ?ds) (datasets ?e) = Some d"
    using d dirs by (simp add: find_index_Some)
  then show "export_dataset_find_by_dirname es (int i) (dirname_ebcdic ?ds) = int d"
    using get by (simp add: export_dataset_find_by_dirname_def)
  show "fh_find_export es (fh_export_id ?e) = Some i"
    using assms by (simp add: fh_find_export_def find_index_Some ds_selected_def)
  have "dsname_ascii (datasets ?e ! k) \<noteq> dsname_ascii ?ds" if k: "k < d" for k
  proof
    assume eq: "dsname_ascii (datasets ?e ! k) = dsname_ascii ?ds"
    have in_set: "datasets ?e ! k \<in> set (datasets ?e)" "?ds \<in> set (datasets ?e)" using k d by simp_all
    then have "ebcdic_to_ascii (dsname_ebcdic (datasets ?e ! k)) = ebcdic_to_ascii (dsname_ebcdic ?ds)"
      using sh eq by (simp add: export_shape_def dataset_shape_def)
    then have "dsname_ebcdic (datasets ?e ! k) = dsname_ebcdic ?ds"
      using nm in_set ascii_of_ebcdic_list unfolding export_names_ok_def by metis
    then have "dirname_ebcdic (datasets ?e ! k) = dirname_ebcdic ?ds"
      using sh in_set by (simp add: export_shape_def dataset_shape_def)
    then show False using dirs k by simp
  qed
  then show "find (\<lambda>x. dsname_ascii x = dsname_ascii ?ds) (datasets ?e) = Some ?ds"
    using d by (auto simp: find_Some_iff intro!: exI [of _ d])
qed

definition member_path :: "export_t \<Rightarrow> pds_dataset_t \<Rightarrow> bytes \<Rightarrow> bytes" where
  "member_path e ds m = export_path_ebcdic e @ ch_slash # dirname_ebcdic ds @ ch_slash # leaf_name ds m"

lemma member_path_type:
  assumes sel: "ds_selected es i d" and m: "mvs_member_name_valid m = E_OK"
    and cl: "\<forall>j < i. \<not> claims (es ! j) (member_path (es ! i) (datasets (es ! i) ! d) m)"
  shows "mvs_path_type es (member_path (es ! i) (datasets (es ! i) ! d) m) =
    (MVS_PATH_TYPE_PDS_MEMBER, int i, int d)"
proof -
  let ?e = "es ! i" and ?ds = "datasets (es ! i) ! d"
  have i: "i < length es" and ds: "?ds \<in> set (datasets ?e)" "dataset_shape ?ds"
    "ch_slash \<notin> set (dsname_ebcdic ?ds)" "dsname_ebcdic ?ds \<noteq> []"
    "list_all name_char (file_ext ?ds)" "ch_slash \<notin> set (file_ext ?ds)"
    using sel by (auto simp: ds_selected_def export_shape_def export_names_ok_def)
  have dir: "dirname_ebcdic ?ds = map tolower (dsname_ebcdic ?ds)" "length (dirname_ebcdic ?ds) \<le> 44"
    using ds(2) by (auto simp: dataset_shape_def)
  then have noslash: "ch_slash \<notin> set (dirname_ebcdic ?ds)" "dirname_ebcdic ?ds \<noteq> []"
    using ds(3,4) slash_lower by auto
  note leaf = leaf_name_facts [OF m ds(5,6)]
  have "mvs_path_type es (member_path ?e ?ds m) =
      path_in_export es i (dirname_ebcdic ?ds @ ch_slash # leaf_name ?ds m)"
    by (rule mvs_path_type_below [OF i _ cl]) (simp add: member_path_def)
  also have "\<dots> = (MVS_PATH_TYPE_PDS_MEMBER, int i, int d)"
    using takeWhile_slash [OF noslash(1), of "leaf_name ?ds m"] noslash(2) dir(2) leaf
      ds_selected_find(1) [OF sel]
    by (simp add: path_in_export_def Let_def MAX_DSNAME_LEN_def)
  finally show ?thesis .
qed

lemma member_path_split:
  assumes sel: "ds_selected es i d" and m: "mvs_member_name_valid m = E_OK"
    and cl: "\<forall>j < i. \<not> claims (es ! j) (member_path (es ! i) (datasets (es ! i) ! d) m)"
    and len: "length (member_path (es ! i) (datasets (es ! i) ! d) m) \<le> 255"
  shows "mvs_get_pds_dsn_and_member es (member_path (es ! i) (datasets (es ! i) ! d) m) (int i) =
    (None, dsname_ebcdic (datasets (es ! i) ! d), m)"
proof -
  let ?e = "es ! i" and ?ds = "datasets (es ! i) ! d"
  let ?p = "member_path ?e ?ds m"
  have ds: "?ds \<in> set (datasets ?e)" "dataset_shape ?ds" "list_all name_char (file_ext ?ds)"
    "ch_slash \<notin> set (file_ext ?ds)" "ch_dot \<notin> set (file_ext ?ds)"
    using sel by (auto simp: ds_selected_def export_shape_def export_names_ok_def)
  note leaf = leaf_name_facts [OF m ds(3,4)] and mc = member_name_chars [OF m]
  note ml = member_lower [OF mc(3)]
  have p: "?p = (export_path_ebcdic ?e @ ch_slash # dirname_ebcdic ?ds) @ ch_slash # leaf_name ?ds m"
    by (simp add: member_path_def)
  have al: "after_last ch_slash ?p = Some (leaf_name ?ds m)"
    unfolding p by (rule after_last_append) (rule leaf(2))
  have fn: "strncpyz MAX_NAME (leaf_name ?ds m) = leaf_name ?ds m"
    using len by (simp add: p strncpyz_def MAX_NAME_def)
  have sh: "take 44 (dsname_ebcdic ?ds) = dsname_ebcdic ?ds" "strncpyz MAX_FILE_EXT_LEN (file_ext ?ds) = file_ext ?ds"
    using ds(2) by (simp_all add: dataset_shape_def strncpyz_def MAX_FILE_EXT_LEN_def)
  have sp: "after_last ch_dot (leaf_name ?ds m) = Some (file_ext ?ds)"
    "before_last ch_dot (leaf_name ?ds m) = map tolower m" if "file_ext ?ds \<noteq> []"
    using that ds(5) by (simp_all add: leaf_name_def)
  show ?thesis
  proof (cases "file_ext ?ds = []")
    case True
    then show ?thesis
      using member_path_type [OF sel m cl] ds_selected_find(2) [OF sel] al fn ml(2) m mc(2) sh
      by (simp add: mvs_get_pds_dsn_and_member_def Let_def leaf_name_def)
  next
    case False
    then show ?thesis
      using member_path_type [OF sel m cl] ds_selected_find(2) [OF sel] al fn ml(2) m mc(2) sh sp
      by (simp add: mvs_get_pds_dsn_and_member_def Let_def)
  qed
qed

lemma ascii_path_back:
  assumes "list_all name_char p" and "length p \<le> 255"
  shows "take (MAX_PATH - 1) (ascii_to_ebcdic (ebcdic_to_ascii p)) = p"
  using assms by (simp add: ascii_of_ebcdic_list MAX_PATH_def)

lemma snprintf_path: "length p \<le> 255 \<Longrightarrow> strncpyz (unat (256 :: u32)) p = p"
  by (simp add: strncpyz_def)

lemma slash_dot_ascii: "ebcdic_to_ascii [c] = [ebcdic_to_ascii_c c]"
  by (simp add: ebcdic_to_ascii_def)

section \<open>Properties of the file handles\<close>

lemma fh_wire_back:
  assumes "fh_magic fh = OUR_FH_MAGIC"
    and "length (fh_dsname fh) \<le> 44" and "0 \<notin> set (fh_dsname fh)"
    and "fh_dsname fh \<noteq> [] \<longrightarrow> last (fh_dsname fh) \<noteq> 0x20"
    and "length (fh_member fh) \<le> 8" and "0 \<notin> set (fh_member fh)"
    and "fh_member fh \<noteq> [] \<longrightarrow> last (fh_member fh) \<noteq> 0x20"
  shows "length (fh_encode fh) = 60 \<and> fh_decode (fh_encode fh) 60 = Some fh \<and>
    (n \<noteq> 60 \<longrightarrow> fh_decode (fh_encode fh) n = None) \<and>
    (x \<noteq> OUR_FH_MAGIC \<longrightarrow> fh_decode (fh_encode (fh\<lparr>fh_magic := x\<rparr>)) 60 = None)"
proof -
  let ?t = "\<lambda>fh. fh_put_field (fh_dsname fh) FH_DSNAME_LEN @ fh_put_field (fh_member fh) FH_MEMBER_LEN"
  have enc: "fh_encode fh = [] @ be32_bytes (fh_magic fh) @ be32_bytes (fh_export fh) @ ?t fh"
    "fh_encode fh = be32_bytes (fh_magic fh) @ be32_bytes (fh_export fh) @ ?t fh" for fh
    by (simp_all add: fh_encode_def)
  have w0: "be32_word (byte_at (fh_encode fh) 0) (byte_at (fh_encode fh) 1)
      (byte_at (fh_encode fh) 2) (byte_at (fh_encode fh) 3) = fh_magic fh" for fh
    using be32_word_at [of 0 "[]" "fh_magic fh" "be32_bytes (fh_export fh) @ ?t fh"]
    unfolding enc(1) [symmetric] by (simp add: numeral_eq_Suc)
  have w4: "be32_word (byte_at (fh_encode fh) 4) (byte_at (fh_encode fh) 5)
      (byte_at (fh_encode fh) 6) (byte_at (fh_encode fh) 7) = fh_export fh" for fh
    using be32_word_at [of 4 "be32_bytes (fh_magic fh)" "fh_export fh" "?t fh"]
    unfolding enc(2) [symmetric] by simp
  have "fh_get_field (drop 8 (fh_encode fh)) FH_DSNAME_LEN = fh_dsname fh"
    using fh_field_roundtrip [of "fh_dsname fh" FH_DSNAME_LEN] assms(2-4)
    by (simp add: enc(2) FH_DSNAME_LEN_def FH_PAD_CHAR_def)
  moreover have "fh_get_field (drop (8 + FH_DSNAME_LEN) (fh_encode fh)) FH_MEMBER_LEN = fh_member fh"
    using fh_field_roundtrip [of "fh_member fh" FH_MEMBER_LEN "[]"] assms(5-7)
    by (simp add: enc(2) FH_MEMBER_LEN_def FH_PAD_CHAR_def)
  ultimately have "fh_decode (fh_encode fh) 60 = Some fh"
    using assms(1) by (simp add: fh_decode_def Let_def w0 w4 OUR_FHSIZE_def del: One_nat_def)
  then show ?thesis by (simp add: fh_decode_def Let_def OUR_FHSIZE_def w0 del: One_nat_def)
qed

text \<open>
  The wire form of a handle is 60 bytes, and decoding them gives the handle back; with
  another length or another magic number nothing is decoded. Names are those MVS allows:
  within their field, without NUL bytes and trailing blanks.
\<close>

theorem fh_wire_roundtrip:
  assumes "fh_magic fh = OUR_FH_MAGIC"
    and "length (fh_dsname fh) \<le> 44" and "0 \<notin> set (fh_dsname fh)"
    and "fh_dsname fh \<noteq> [] \<longrightarrow> last (fh_dsname fh) \<noteq> 0x20"
    and "length (fh_member fh) \<le> 8" and "0 \<notin> set (fh_member fh)"
    and "fh_member fh \<noteq> [] \<longrightarrow> last (fh_member fh) \<noteq> 0x20"
  shows "length (fh_encode fh) = 60 \<and> fh_decode (fh_encode fh) 60 = Some fh \<and>
    (n \<noteq> 60 \<longrightarrow> fh_decode (fh_encode fh) n = None) \<and>
    (x \<noteq> OUR_FH_MAGIC \<longrightarrow> fh_decode (fh_encode (fh\<lparr>fh_magic := x\<rparr>)) 60 = None)"
  by (rule fh_wire_back [OF assms])

theorem fh_wire_roundtrip_witness:
  "fh_decode (fh_encode \<lparr>fh_magic = OUR_FH_MAGIC, fh_export = 7, fh_dsname = [0x41, 0x2E, 0x42],
     fh_member = [0x4D]\<rparr>) 60 =
   Some \<lparr>fh_magic = OUR_FH_MAGIC, fh_export = 7, fh_dsname = [0x41, 0x2E, 0x42], fh_member = [0x4D]\<rparr>"
  using fh_wire_roundtrip [of "\<lparr>fh_magic = OUR_FH_MAGIC, fh_export = 7,
      fh_dsname = [0x41, 0x2E, 0x42], fh_member = [0x4D]\<rparr>"] by simp

lemma fh_member_back:
  assumes "ds_selected es i d" and "mvs_member_name_valid m = E_OK"
    and "p = member_path (es ! i) (datasets (es ! i) ! d) m"
    and "\<forall>j < i. \<not> claims (es ! j) p" and "length p \<le> 255"
    and "fh = \<lparr>fh_magic = OUR_FH_MAGIC, fh_export = fh_export_id (es ! i),
      fh_dsname = dsname_ascii (datasets (es ! i) ! d), fh_member = ebcdic_to_ascii m\<rparr>"
  shows "fh_resolve es fh 256 = Some (ebcdic_to_ascii p) \<and>
    fh_from_path es (ebcdic_to_ascii p) = Some fh"
proof -
  let ?e = "es ! i" and ?ds = "datasets (es ! i) ! d"
  have ds: "dataset_shape ?ds" "list_all name_char (dsname_ebcdic ?ds)" "dsname_ebcdic ?ds \<noteq> []"
    "list_all name_char (file_ext ?ds)" "ch_slash \<notin> set (file_ext ?ds)"
    and e: "export_path ?e = ebcdic_to_ascii (export_path_ebcdic ?e)"
    "list_all name_char (export_path_ebcdic ?e)"
    using assms(1) by (auto simp: ds_selected_def export_shape_def export_names_ok_def)
  have sh: "dsname_ascii ?ds = ebcdic_to_ascii (dsname_ebcdic ?ds)"
    "dirname_ascii ?ds = ebcdic_to_ascii (dirname_ebcdic ?ds)"
    "dirname_ebcdic ?ds = map tolower (dsname_ebcdic ?ds)" "length (dsname_ebcdic ?ds) \<le> 44"
    "take (MAX_FILE_EXT_LEN - 1) (file_ext ?ds) = file_ext ?ds"
    using ds(1) by (simp_all add: dataset_shape_def MAX_FILE_EXT_LEN_def)
  note mc = member_name_chars [OF assms(2)]
  note sel = ds_selected_find [OF assms(1)] and leaf = leaf_name_facts [OF assms(2) ds(4,5)]
  have ne: "ebcdic_to_ascii m \<noteq> []" "dsname_ascii ?ds \<noteq> []"
    using mc(1) ds(3) by (simp_all add: sh(1) ebcdic_to_ascii_def)
  have path: "ebcdic_to_ascii p = export_path ?e @ [ebcdic_to_ascii_c ch_slash] @ dirname_ascii ?ds @
      [ebcdic_to_ascii_c ch_slash] @ map ascii_lower (ebcdic_to_ascii m) @
      (if file_ext ?ds = [] then [] else ebcdic_to_ascii_c ch_dot # ebcdic_to_ascii (file_ext ?ds))"
    unfolding assms(3) member_path_def leaf_name_def member_lower(1) [OF mc(3)] sh e(1)
    by (simp add: ebcdic_to_ascii_def)
  have nil: "ebcdic_to_ascii (file_ext ?ds) = [] \<longleftrightarrow> file_ext ?ds = []" by (simp add: ebcdic_to_ascii_def)
  have cut: "strncpyz (unat (256 :: u32)) (ebcdic_to_ascii p) = ebcdic_to_ascii p"
    using assms(5) by (intro snprintf_path) simp
  have "fh_resolve es fh 256 = Some (strncpyz (unat (256 :: u32)) (ebcdic_to_ascii p))"
    unfolding path using sel(4,5) ne
    by (simp add: fh_resolve_def assms(6) Let_def nil sh(5) del: One_nat_def)
  then have 1: "fh_resolve es fh 256 = Some (ebcdic_to_ascii p)" unfolding cut .
  have "list_all name_char p"
    using e(2) ds(2) leaf(3) name_char_lower by (simp add: assms(3) member_path_def sh(3))
  then have back_path: "take (MAX_PATH - 1) (ascii_to_ebcdic (ebcdic_to_ascii p)) = p"
    using assms(5) by (rule ascii_path_back)
  have ty: "mvs_path_type es p = (MVS_PATH_TYPE_PDS_MEMBER, int i, int d)"
    using member_path_type [OF assms(1,2)] assms(3,4) by simp
  have mem: "mvs_get_pds_dsn_and_member es p (int i) = (None, dsname_ebcdic ?ds, m)"
    using member_path_split [OF assms(1,2)] assms(3-5) by simp
  have "strncpyz MAX_DSNAME_LEN (dsname_ascii ?ds) = dsname_ascii ?ds"
    using sh(1,4) by (simp add: strncpyz_def MAX_DSNAME_LEN_def)
  then have 2: "fh_from_path es (ebcdic_to_ascii p) = Some fh"
    unfolding fh_from_path_def back_path using ty mem sel(2,3) by (simp add: Let_def assms(6))
  show ?thesis using 1 2 by simp
qed

text \<open>
  C18. A member's handle survives its path: for a member of a configured data set, resolving
  the handle gives the path \<^verbatim>\<open>export/dataset/member.ext\<close> (in ASCII, lower case), and making a
  handle of that path gives the same handle. It is enough that the data set is the first of
  its export with its name, that no earlier export claims the path or has the same
  identifier, and that the path fits its buffer.
\<close>

theorem fh_member_roundtrip:
  assumes "ds_selected es i d" and "mvs_member_name_valid m = E_OK"
    and "p = member_path (es ! i) (datasets (es ! i) ! d) m"
    and "\<forall>j < i. \<not> claims (es ! j) p" and "length p \<le> 255"
    and "fh = \<lparr>fh_magic = OUR_FH_MAGIC, fh_export = fh_export_id (es ! i),
      fh_dsname = dsname_ascii (datasets (es ! i) ! d), fh_member = ebcdic_to_ascii m\<rparr>"
  shows "fh_resolve es fh 256 = Some (ebcdic_to_ascii p) \<and>
    fh_from_path es (ebcdic_to_ascii p) = Some fh"
  by (rule fh_member_back [OF assms])

text \<open>A table with the export \<^verbatim>\<open>/X\<close> holding the data set \<^verbatim>\<open>A.B\<close>.\<close>

definition sample_exports :: "export_t list" where
  "sample_exports = [(new_export [0x61, 0xE7])\<lparr>datasets := [dataset_init [0xC1, 0x4B, 0xC2]]\<rparr>]"

lemma sample_names:
  "name_char 0xE7" "name_char 0xC1" "name_char 0xC2" "name_char 0x82" "tolower 0xC1 = 0x81"
  "tolower 0xC2 = 0x82" "tolower 0x4B = 0x4B"
  by code_simp+

lemma sample_dataset:
  "dsname_ebcdic (dataset_init [0xC1, 0x4B, 0xC2]) = [0xC1, 0x4B, 0xC2]"
  "file_ext (dataset_init [0xC1, 0x4B, 0xC2]) = [0x82]"
  "dirname_ebcdic (dataset_init [0xC1, 0x4B, 0xC2]) = [0x81, 0x4B, 0x82]"
  using sample_names
  by (simp_all add: dataset_init_def Let_def strncpyz_def MAX_DSNAME_LEN_def after_last_def ch_defs
      MAX_FILE_EXT_LEN_def)

lemma sample_selected: "ds_selected sample_exports 0 0"
proof -
  have "name_char 0x61" "name_char 0x4B" using not_case_char(9,10) by (simp_all add: ch_defs)
  moreover have "export_shape (sample_exports ! 0)"
    using dataset_init_shape [of "[0xC1, 0x4B, 0xC2]"] by (simp add: ch_space_def sample_exports_def export_shape_def new_export_def Let_def
        strncpyz_def MAX_PATH_def)
  ultimately show ?thesis
    using sample_names
    by (simp add: ds_selected_def export_names_ok_def sample_exports_def sample_dataset ch_defs)
      (simp add: new_export_def Let_def strncpyz_def MAX_PATH_def)
qed

theorem fh_member_roundtrip_witness:
  "fh_from_path sample_exports
     (ebcdic_to_ascii [0x61, 0xE7, 0x61, 0x81, 0x4B, 0x82, 0x61, 0x81, 0x4B, 0x82]) =
   Some \<lparr>fh_magic = OUR_FH_MAGIC, fh_export = fh_export_id (sample_exports ! 0),
     fh_dsname = dsname_ascii (datasets (sample_exports ! 0) ! 0), fh_member = ebcdic_to_ascii [0xC1]\<rparr>"
proof -
  have "mvs_member_name_valid [0xC1] = E_OK" by (simp add: mvs_member_name_valid_def isupper_def)
  moreover have "member_path (sample_exports ! 0) (datasets (sample_exports ! 0) ! 0) [0xC1] =
      [0x61, 0xE7, 0x61, 0x81, 0x4B, 0x82, 0x61, 0x81, 0x4B, 0x82]"
    using sample_names
    by (simp add: member_path_def leaf_name_def sample_exports_def sample_dataset ch_defs)
      (simp add: new_export_def Let_def strncpyz_def MAX_PATH_def)
  ultimately show ?thesis
    using fh_member_roundtrip [OF sample_selected, of "[0xC1]", OF _ refl _ _ refl] by simp
qed

text \<open>
  A directory's handle survives its path: the handles of an export's root and of a
  configured data set resolve to their ASCII paths, and those paths give the handles back.
\<close>

lemma fh_directory_back:
  assumes "ds_selected es i d" and "p = export_path_ebcdic (es ! i)"
    and "q = p @ ch_slash # dirname_ebcdic (datasets (es ! i) ! d)" and "length q \<le> 255"
    and "\<forall>j < i. \<not> claims (es ! j) p \<and> \<not> claims (es ! j) q"
    and "fh = \<lparr>fh_magic = OUR_FH_MAGIC, fh_export = fh_export_id (es ! i), fh_dsname = [], fh_member = []\<rparr>"
    and "dfh = fh\<lparr>fh_dsname := dsname_ascii (datasets (es ! i) ! d)\<rparr>"
  shows "fh_resolve es fh 256 = Some (ebcdic_to_ascii p) \<and> fh_from_path es (ebcdic_to_ascii p) = Some fh \<and>
    fh_resolve es dfh 256 = Some (ebcdic_to_ascii q) \<and> fh_from_path es (ebcdic_to_ascii q) = Some dfh"
proof -
  let ?e = "es ! i" and ?ds = "datasets (es ! i) ! d"
  have i: "i < length es" and ds: "dataset_shape ?ds" "list_all name_char (dsname_ebcdic ?ds)"
    "dsname_ebcdic ?ds \<noteq> []" "ch_slash \<notin> set (dsname_ebcdic ?ds)"
    and e: "export_path ?e = ebcdic_to_ascii p" "list_all name_char p"
    using assms(1) by (auto simp: ds_selected_def export_shape_def export_names_ok_def assms(2))
  have sh: "dsname_ascii ?ds = ebcdic_to_ascii (dsname_ebcdic ?ds)"
    "dirname_ascii ?ds = ebcdic_to_ascii (dirname_ebcdic ?ds)"
    "dirname_ebcdic ?ds = map tolower (dsname_ebcdic ?ds)" "length (dsname_ebcdic ?ds) \<le> 44"
    using ds(1) by (simp_all add: dataset_shape_def)
  have noslash: "ch_slash \<notin> set (dirname_ebcdic ?ds)" "dirname_ebcdic ?ds \<noteq> []"
    using ds(3,4) slash_lower by (auto simp: sh(3))
  note sel = ds_selected_find [OF assms(1)]
  have ne: "dsname_ascii ?ds \<noteq> []" using ds(3) by (simp add: sh(1) ebcdic_to_ascii_def)
  have lp: "length p \<le> 255" using assms(3,4) by simp
  have q: "ebcdic_to_ascii q = export_path ?e @ [ebcdic_to_ascii_c ch_slash] @ dirname_ascii ?ds"
    by (simp add: assms(3) e(1) sh(2) ebcdic_to_ascii_def)
  have cut: "strncpyz 256 (ebcdic_to_ascii p) = ebcdic_to_ascii p"
    "strncpyz 256 (ebcdic_to_ascii q) = ebcdic_to_ascii q"
    using lp assms(4) by (simp_all add: strncpyz_def)
  have 1: "fh_resolve es fh 256 = Some (ebcdic_to_ascii p)"
    using sel(4) cut(1) by (simp add: fh_resolve_def assms(6) Let_def e(1))
  have 3: "fh_resolve es dfh 256 = Some (ebcdic_to_ascii q)"
    using sel(4,5) ne cut(2) unfolding q by (simp add: fh_resolve_def assms(6,7) Let_def)
  have qn: "list_all name_char q"
    using e(2) ds(2) name_char_lower by (simp add: assms(3) sh(3))
  have tp: "mvs_path_type es p = (MVS_PATH_TYPE_ROOT, int i, -1)"
    using mvs_path_type_root [OF i] assms(2,5) by simp
  have dl: "length (dirname_ebcdic ?ds) \<le> 44" using sh(3,4) by simp
  have "mvs_path_type es q = path_in_export es i (dirname_ebcdic ?ds)"
    by (rule mvs_path_type_below [OF i]) (use assms(2,3,5) in auto)
  then have tq: "mvs_path_type es q = (MVS_PATH_TYPE_DATASET, int i, int d)"
    using noslash sel(1) dl takeWhile_all [OF noslash(1)]
    by (simp add: path_in_export_def Let_def MAX_DSNAME_LEN_def)
  have 2: "fh_from_path es (ebcdic_to_ascii p) = Some fh"
    unfolding fh_from_path_def ascii_path_back [OF e(2) lp] using tp sel(3) by (simp add: Let_def assms(6))
  have "strncpyz MAX_DSNAME_LEN (dsname_ascii ?ds) = dsname_ascii ?ds"
    using sh(1,4) by (simp add: strncpyz_def MAX_DSNAME_LEN_def)
  then have 4: "fh_from_path es (ebcdic_to_ascii q) = Some dfh"
    unfolding fh_from_path_def ascii_path_back [OF qn assms(4)]
    using tq sel(2,3) by (simp add: Let_def assms(6,7))
  show ?thesis using 1 2 3 4 by simp
qed

text \<open>
  Export identifiers look at 44 characters only: two exports whose paths agree in the
  first 44 characters have the same identifier, so every handle of the later one resolves
  to an object of the earlier.
\<close>

theorem fh_export_id_prefix:
  assumes "take 44 (export_path_ebcdic a) = take 44 (export_path_ebcdic b)"
  shows "fh_export_id a = fh_export_id b \<and>
    fh_find_export [a, b] (fh_export_id b) = Some 0"
proof -
  have "fh_export_id a = fh_export_id b"
    using assms by (simp add: fh_export_id_def mvs_fid_ino32_def mvs_fid_hash_def MVS_DSNAME_MAX_def)
  then show ?thesis by (simp add: fh_find_export_def)
qed

theorem fh_export_id_prefix_witness:
  "fh_find_export [new_export (replicate 44 0xC1 @ [0xC1]), new_export (replicate 44 0xC1 @ [0xC2])]
     (fh_export_id (new_export (replicate 44 0xC1 @ [0xC2]))) = Some 0"
  using fh_export_id_prefix [of "new_export (replicate 44 0xC1 @ [0xC1])"
      "new_export (replicate 44 0xC1 @ [0xC2])"]
  by (simp add: new_export_def Let_def strncpyz_def MAX_PATH_def)

end
