(* ===== verification/Reply.thy ===== *)
theory Reply
  imports Rpc Fhandle
begin

text \<open>
  How a handler writes its reply. A handler is a sequence of encoders on the output buffer,
  chosen by the arguments and the state; \<open>emits x enc y\<close> says that the buffer went from \<open>x\<close> to
  \<open>y\<close> by writing the bytes \<open>enc\<close>, or ran out of room on the way. The rules collected in
  \<open>emit_intros\<close> follow the encoders of \<^verbatim>\<open>src/src/xdr.c\<close> and \<^verbatim>\<open>src/src/rpc.c\<close>, so the encoding of
  a reply is found by applying them backwards.
\<close>

definition out_wf :: "xdr_t \<Rightarrow> bool" where
  "out_wf x \<longleftrightarrow> xdr_wf x \<and> unat (xpos x) \<le> unat (xcap x)"

definition emits :: "xdr_t \<Rightarrow> bytes \<Rightarrow> xdr_t \<Rightarrow> bool" where
  "emits x enc y \<longleftrightarrow>
     (xerr x \<longrightarrow> y = x) \<and>
     (out_wf x \<longrightarrow> xdr_wf y \<and> xdr_keeps x y \<and>
        (xerr y \<longleftrightarrow> xerr x \<or> unat (xcap x) < unat (xpos x) + length enc) \<and>
        (\<not> xerr y \<longrightarrow> y = xdr_append enc x))"

named_theorems emit_intros "encoders and the bytes they write"

lemma emitter_emits:
  assumes "xdr_emitter w enc"
  shows "emits x enc (w x)"
  unfolding emits_def out_wf_def
  using xdr_emitter.latched [OF assms] xdr_emitter.emitter_wf [OF assms] xdr_emitter.emitter_keeps [OF assms]
    xdr_emitter.emitter_error_iff [OF assms] xdr_emitter.emits [OF assms, of x] by force

lemma emits_Nil [emit_intros]: "emits x [] x"
  by (auto simp: emits_def xdr_append_def out_wf_def xdr_wf_def)

lemma emits_trans:
  assumes 1: "emits x e1 y" and 2: "emits y e2 z"
  shows "emits x (e1 @ e2) z"
  unfolding emits_def
proof (intro conjI impI)
  show "z = x" if "xerr x" using 1 2 that by (simp add: emits_def)
  assume wf: "out_wf x"
  then have y: "xdr_wf y" "xdr_keeps x y" "xerr y \<longleftrightarrow> xerr x \<or> unat (xcap x) < unat (xpos x) + length e1"
    "\<not> xerr y \<longrightarrow> y = xdr_append e1 x" using 1 by (auto simp: emits_def)
  have e: "xerr y \<Longrightarrow> z = y" using 2 by (simp add: emits_def)
  have wx: "xdr_wf x" using wf by (simp add: out_wf_def)
  have z: "xdr_wf z \<and> xdr_keeps x z \<and>
      (xerr z \<longleftrightarrow> xerr x \<or> unat (xcap x) < unat (xpos x) + length (e1 @ e2)) \<and> (\<not> xerr z \<longrightarrow> z = xdr_append (e1 @ e2) x)"
  proof (cases "xerr y")
    case True
    then show ?thesis using e y by auto
  next
    case False
    then have f: "unat (xpos x) + length e1 \<le> unat (xcap x)" "\<not> xerr x" using y(3) by auto
    have yy: "y = xdr_append e1 x" using False y(4) by simp
    note pos = xdr_append_wf(3,5) [OF wx f(1), folded yy]
    have "out_wf y" using y(1) pos f(1) by (simp add: out_wf_def)
    then have z: "xdr_wf z" "xdr_keeps y z" "xerr z \<longleftrightarrow> unat (xcap x) < unat (xpos x) + length e1 + length e2"
      "\<not> xerr z \<longrightarrow> z = xdr_append e2 y" using 2 False pos by (auto simp: emits_def)
    have "xdr_keeps x z" using y(2) z(2) xdr_keeps_trans by blast
    moreover have "\<not> xerr z \<longrightarrow> z = xdr_append (e1 @ e2) x"
      using z(3,4) xdr_append_append [OF wx, of e1 e2] yy by auto
    ultimately show ?thesis using z(1,3) f(2) by (simp add: add.assoc)
  qed
  then show "xdr_wf z" "xdr_keeps x z" "xerr z = (xerr x \<or> unat (xcap x) < unat (xpos x) + length (e1 @ e2))"
    "\<not> xerr z \<Longrightarrow> z = xdr_append (e1 @ e2) x" by blast+
qed

lemma emits_step: "emits x e1 y \<Longrightarrow> (\<And>x. emits x e2 (w x)) \<Longrightarrow> emits x (e1 @ e2) (w y)"
  using emits_trans by blast

lemma emits_u32 [emit_intros]: "emits x e y \<Longrightarrow> emits x (e @ be32_bytes v) (xdr_write_uint32 v y)"
  by (rule emits_step [OF _ emitter_emits [OF w_u32.xdr_emitter_axioms]])

lemma emits_u64 [emit_intros]: "emits x e y \<Longrightarrow> emits x (e @ be64_bytes v) (xdr_write_uint64 v y)"
  by (rule emits_step [OF _ emitter_emits [OF w_u64.xdr_emitter_axioms]])

lemma emits_hdr [emit_intros]:
  "emits x e y \<Longrightarrow> emits x (e @ reply_hdr_bytes xid st) (rpc_write_accept_hdr xid st y)"
  by (rule emits_step [OF _ emitter_emits [OF accept_hdr.xdr_emitter_axioms]])

lemma emits_mismatch [emit_intros]:
  "emits x e y \<Longrightarrow> emits x (e @ reply_hdr_bytes xid PROG_MISMATCH @ be32_bytes lo @ be32_bytes hi)
     (rpc_write_prog_mismatch xid lo hi y)"
  by (rule emits_step [OF _ emitter_emits [OF prog_mismatch_emitter]])

lemma emits_unavail [emit_intros]:
  "emits x e y \<Longrightarrow> emits x (e @ reply_hdr_bytes xid PROC_UNAVAIL) (rpc_write_proc_unavail xid y)"
  unfolding rpc_write_proc_unavail_def by (rule emits_hdr)

lemma emits_opaque [emit_intros]:
  assumes "emits x e y" and "unat len = length d" and "length d \<le> BUF_SIZE"
  shows "emits x (e @ opaque_bytes d) (xdr_write_opaque d len y)"
  using emits_step [OF assms(1) emitter_emits [OF xdr_write_opaque_emitter [of len d]]] assms(2,3) by simp

lemma emits_string [emit_intros]:
  "emits x e y \<Longrightarrow> unat len = length d \<Longrightarrow> length d \<le> BUF_SIZE \<Longrightarrow>
     emits x (e @ opaque_bytes d) (xdr_write_string d len y)"
  unfolding xdr_write_string_def by (rule emits_opaque)

lemma emits_raw [emit_intros]:
  assumes "emits x e y" and "unat len = length d" and "length d \<le> BUF_SIZE"
  shows "emits x (e @ d) (xdr_write_raw d len y)"
  using emits_step [OF assms(1) emitter_emits [OF xdr_write_raw_emitter [of len d]]] assms(2,3) by simp

lemma emits_fhandle [emit_intros]:
  "emits x e y \<Longrightarrow> emits x (e @ opaque_bytes (fh_encode fh)) (xdr_write_fhandle fh y)"
  unfolding xdr_write_fhandle_def by (rule emits_opaque) (simp_all add: OUR_FHSIZE_def BUF_SIZE_def)

text \<open>What the buffer then holds: a prefix of the encoding, all of it when there was room.\<close>

lemma emits_output:
  assumes "emits x enc y" and "xdr_wf x" and "\<not> xerr x" and "unat (xpos x) + length enc \<le> unat (xcap x)"
  shows "mem_slice (xbase y) (unat (xpos x)) (length enc) = enc" and "\<not> xerr y"
    and "unat (xpos y) = unat (xpos x) + length enc"
proof -
  have o: "out_wf x" using assms by (simp add: out_wf_def)
  show "\<not> xerr y" using assms o by (simp add: emits_def)
  then have "y = xdr_append enc x" using assms o by (simp add: emits_def)
  then show "mem_slice (xbase y) (unat (xpos x)) (length enc) = enc" "unat (xpos y) = unat (xpos x) + length enc"
    using assms(2,4) xdr_append_wf(3) [OF assms(2,4)] by (auto simp: xdr_append_def xdr_wf_def mem_slice_store_same)
qed

text \<open>A reply that starts with the header of an accepted call, written before the rest.\<close>

definition accepted :: "u32 \<Rightarrow> u32 \<Rightarrow> xdr_t \<Rightarrow> xdr_t \<Rightarrow> bool" where
  "accepted xid st out out' \<longleftrightarrow> (\<exists>y body. emits out (reply_hdr_bytes xid st) y \<and> emits y body out')"

named_theorems reply_intros "encoders keep a reply with its header"

lemma accepted_hdr [reply_intros]: "accepted xid st out (rpc_write_accept_hdr xid st out)"
  unfolding accepted_def using emits_hdr [OF emits_Nil, of out xid st] emits_Nil by auto

lemma accepted_emits: "accepted xid st out y \<Longrightarrow> emits y e z \<Longrightarrow> accepted xid st out z"
  unfolding accepted_def using emits_trans by blast

lemma accepted_u32 [reply_intros]: "accepted xid st out y \<Longrightarrow> accepted xid st out (xdr_write_uint32 v y)"
  by (erule accepted_emits) (rule emits_u32 [OF emits_Nil])

lemma accepted_u64 [reply_intros]: "accepted xid st out y \<Longrightarrow> accepted xid st out (xdr_write_uint64 v y)"
  by (erule accepted_emits) (rule emits_u64 [OF emits_Nil])

lemma accepted_opaque [reply_intros]:
  "accepted xid st out y \<Longrightarrow> unat len = length d \<Longrightarrow> length d \<le> BUF_SIZE \<Longrightarrow>
     accepted xid st out (xdr_write_opaque d len y)"
  by (erule accepted_emits) (rule emits_opaque [OF emits_Nil])

lemma accepted_string [reply_intros]:
  "accepted xid st out y \<Longrightarrow> unat len = length d \<Longrightarrow> length d \<le> BUF_SIZE \<Longrightarrow>
     accepted xid st out (xdr_write_string d len y)"
  by (erule accepted_emits) (rule emits_string [OF emits_Nil])

lemma accepted_raw [reply_intros]:
  "accepted xid st out y \<Longrightarrow> unat len = length d \<Longrightarrow> length d \<le> BUF_SIZE \<Longrightarrow>
     accepted xid st out (xdr_write_raw d len y)"
  by (erule accepted_emits) (rule emits_raw [OF emits_Nil])

lemma accepted_fhandle [reply_intros]: "accepted xid st out y \<Longrightarrow> accepted xid st out (xdr_write_fhandle fh y)"
  by (erule accepted_emits) (rule emits_fhandle [OF emits_Nil])

lemma accepted_mismatch [reply_intros]: "accepted xid PROG_MISMATCH out (rpc_write_prog_mismatch xid lo hi out)"
  unfolding rpc_write_prog_mismatch_def by (intro reply_intros)

lemma accepted_unavail [reply_intros]: "accepted xid PROC_UNAVAIL out (rpc_write_proc_unavail xid out)"
  unfolding rpc_write_proc_unavail_def by (rule accepted_hdr)

text \<open>A reply too long for its buffer still holds its header.\<close>

lemma accepted_body: "accepted xid st out out' \<Longrightarrow> \<exists>body. emits out (reply_hdr_bytes xid st @ body) out'"
  unfolding accepted_def using emits_trans by blast

lemma byte_at_slice:
  "\<lbrakk>off + n \<le> length b; length b' = length b; \<forall>i < off + n. byte_at b' i = byte_at b i\<rbrakk> \<Longrightarrow> mem_slice b' off n = mem_slice b off n"
  by (rule nth_equalityI) (auto simp: mem_slice_def byte_at_def)

lemma accepted_header:
  assumes a: "accepted xid st out out'" and wf: "xdr_wf out" and e: "\<not> xerr out" and r: "unat (xpos out) + 24 \<le> unat (xcap out)"
  shows "mem_slice (xbase out') (unat (xpos out)) 24 = reply_hdr_bytes xid st" and "unat (xpos out) + 24 \<le> unat (xpos out')"
proof -
  obtain y body where y: "emits out (reply_hdr_bytes xid st) y" "emits y body out'" using a by (auto simp: accepted_def)
  have l: "length (reply_hdr_bytes xid st) = 24" by (simp add: reply_hdr_bytes_def)
  note o = emits_output [OF y(1) wf e, unfolded l, OF r]
  have k: "xdr_wf y" "xdr_keeps out y" using y(1) wf r by (auto simp: emits_def out_wf_def)
  then have c: "xcap y = xcap out" "unat (xpos y) \<le> length (xbase y)" using o(3) r by (auto simp: xdr_keeps_def xdr_wf_def)
  then have "out_wf y" using k(1) o(3) r by (simp add: out_wf_def)
  then have "xdr_keeps y out'" using y(2) by (simp add: emits_def)
  then have z: "length (xbase out') = length (xbase y)" "unat (xpos y) \<le> unat (xpos out')"
    "\<forall>i < unat (xpos out) + 24. byte_at (xbase out') i = byte_at (xbase y) i" using o(3) by (simp_all add: xdr_keeps_def)
  show "mem_slice (xbase out') (unat (xpos out)) 24 = reply_hdr_bytes xid st"
    using byte_at_slice [OF _ z(1,3)] c(2) o(1,3) by simp
  show "unat (xpos out) + 24 \<le> unat (xpos out')" using z(2) o(3) by simp
qed

end
