(* ===== verification/Portmap.thy ===== *)
theory Portmap
  imports Reply
begin

text \<open>
  The port mapper, \<^verbatim>\<open>src/src/portmap.c\<close>: its two procedures on the three ports the server
  listens on. A handler takes the call, the input and the output buffer and gives both buffers
  back.
\<close>

section \<open>The handler\<close>

definition PROG_PORTMAP :: u32 where "PROG_PORTMAP = 100000"
definition PROG_NFS :: u32 where "PROG_NFS = 100003"
definition PROG_MOUNT :: u32 where "PROG_MOUNT = 100005"
definition VERS_PORTMAP :: u32 where "VERS_PORTMAP = 2"
definition VERS_NFS :: u32 where "VERS_NFS = 3"
definition VERS_MOUNT :: u32 where "VERS_MOUNT = 3"
definition PMAPPROC_NULL :: u32 where "PMAPPROC_NULL = 0"
definition PMAPPROC_GETPORT :: u32 where "PMAPPROC_GETPORT = 3"
definition IPPROTO_TCP_PMAP :: u32 where "IPPROTO_TCP_PMAP = 6"

text \<open>The ports set by the command line: \<^verbatim>\<open>g_port_pmap\<close>, \<^verbatim>\<open>g_port_mount\<close>, \<^verbatim>\<open>g_port_nfs\<close>.\<close>

record ports =
  g_port_pmap :: int
  g_port_mount :: int
  g_port_nfs :: int

definition pmap_port :: "ports \<Rightarrow> u32 \<Rightarrow> u32 \<Rightarrow> u32 \<Rightarrow> u32" where
  "pmap_port ps prog vers prot =
     (if prot = IPPROTO_TCP_PMAP then
        (if prog = PROG_NFS \<and> vers = VERS_NFS then of_int (g_port_nfs ps)
         else if prog = PROG_MOUNT \<and> vers = VERS_MOUNT then of_int (g_port_mount ps)
         else if prog = PROG_PORTMAP \<and> vers = VERS_PORTMAP then of_int (g_port_pmap ps)
         else 0)
      else 0)"

definition handle_portmap :: "ports \<Rightarrow> rpc_call_t \<Rightarrow> xdr_t \<Rightarrow> xdr_t \<Rightarrow> xdr_t \<times> xdr_t" where
  "handle_portmap ps call inp out =
     (if call_vers call \<noteq> VERS_PORTMAP
      then (inp, rpc_write_prog_mismatch (call_xid call) VERS_PORTMAP VERS_PORTMAP out)
      else if call_proc call = PMAPPROC_NULL
      then (inp, rpc_write_accept_hdr (call_xid call) RPC_SUCCESS out)
      else if call_proc call = PMAPPROC_GETPORT
      then let (prog, i1) = xdr_read_uint32 inp;
               (vers, i2) = xdr_read_uint32 i1;
               (prot, i3) = xdr_read_uint32 i2;
               (_, i4) = xdr_read_uint32 i3
        in (i4, xdr_write_uint32 (pmap_port ps prog vers prot) (rpc_write_accept_hdr (call_xid call) RPC_SUCCESS out))
      else (inp, rpc_write_proc_unavail (call_xid call) out))"

section \<open>Properties\<close>

lemma read4:
  assumes "xdr_wf x" and "\<not> xerr x" and "xdr_view x = be32_bytes a @ be32_bytes b @ be32_bytes c @ be32_bytes d @ rest"
  shows "\<exists>x1 x2 x3 x4. xdr_read_uint32 x = (a, x1) \<and> xdr_read_uint32 x1 = (b, x2) \<and> xdr_read_uint32 x2 = (c, x3) \<and>
    xdr_read_uint32 x3 = (d, x4)"
proof -
  let ?x1 = "xdr_advance 4 x" and ?x2 = "xdr_advance 4 (xdr_advance 4 x)" and ?x3 = "xdr_advance 4 (xdr_advance 4 (xdr_advance 4 x))"
  have 1: "xdr_read_uint32 x = (a, ?x1)" using r_u32.decodes [OF assms] by simp
  have v1: "xdr_view ?x1 = be32_bytes b @ be32_bytes c @ be32_bytes d @ rest" "xdr_wf ?x1" "\<not> xerr ?x1"
    using xdr_advance_view [OF assms(1), of 4] assms by simp_all
  have v2: "xdr_view ?x2 = be32_bytes c @ be32_bytes d @ rest" "xdr_wf ?x2" "\<not> xerr ?x2"
    using xdr_advance_view [OF v1(2), of 4] v1 by simp_all
  have v3: "xdr_view ?x3 = be32_bytes d @ rest" "xdr_wf ?x3" "\<not> xerr ?x3"
    using xdr_advance_view [OF v2(2), of 4] v2 by simp_all
  show ?thesis using 1 r_u32.decodes [OF v1(2,3,1)] r_u32.decodes [OF v2(2,3,1)] r_u32.decodes [OF v3(2,3,1)] by auto
qed

text \<open>
  A GETPORT request finds the server: asked for a program, a version and a protocol, the
  reply is the accepted header and one word, the port the program listens on over TCP in the
  version served, and zero for anything else.
\<close>
theorem getport_answers:
  assumes "xdr_wf inp" and "\<not> xerr inp"
    and "xdr_view inp = be32_bytes prog @ be32_bytes vers @ be32_bytes prot @ be32_bytes port @ rest"
    and "call_vers call = VERS_PORTMAP" and "call_proc call = PMAPPROC_GETPORT"
  shows "emits out (reply_hdr_bytes (call_xid call) RPC_SUCCESS @ be32_bytes
      (if (prog, vers, prot) = (100003, 3, 6) then of_int (g_port_nfs ps)
       else if (prog, vers, prot) = (100005, 3, 6) then of_int (g_port_mount ps)
       else if (prog, vers, prot) = (100000, 2, 6) then of_int (g_port_pmap ps) else 0))
    (snd (handle_portmap ps call inp out))"
proof -
  have p: "pmap_port ps prog vers prot = (if (prog, vers, prot) = (100003, 3, 6) then of_int (g_port_nfs ps)
       else if (prog, vers, prot) = (100005, 3, 6) then of_int (g_port_mount ps)
       else if (prog, vers, prot) = (100000, 2, 6) then of_int (g_port_pmap ps) else 0)"
    by (cases "prot = 6") (simp_all add: pmap_port_def IPPROTO_TCP_PMAP_def PROG_NFS_def PROG_MOUNT_def PROG_PORTMAP_def
        VERS_NFS_def VERS_MOUNT_def VERS_PORTMAP_def)
  have "snd (handle_portmap ps call inp out) =
      xdr_write_uint32 (pmap_port ps prog vers prot) (rpc_write_accept_hdr (call_xid call) RPC_SUCCESS out)"
    using read4 [OF assms(1-3)] assms(4,5) by (auto simp: handle_portmap_def PMAPPROC_NULL_def PMAPPROC_GETPORT_def)
  then have "emits out (([] @ reply_hdr_bytes (call_xid call) RPC_SUCCESS) @ be32_bytes (pmap_port ps prog vers prot))
      (snd (handle_portmap ps call inp out))"
    using emits_u32 [OF emits_hdr [OF emits_Nil]] by simp
  then show ?thesis unfolding p by simp
qed

theorem getport_answers_witness:
  "emits (xdr_init_write (replicate 64 0) 64)
     (reply_hdr_bytes 7 RPC_SUCCESS @ be32_bytes 2049)
     (snd (handle_portmap \<lparr>g_port_pmap = 111, g_port_mount = 2050, g_port_nfs = 2049\<rparr>
        \<lparr>call_xid = 7, call_prog = PROG_PORTMAP, call_vers = VERS_PORTMAP, call_proc = PMAPPROC_GETPORT,
          auth_uid = 0, auth_gid = 0\<rparr>
        (xdr_init_read (be32_bytes 100003 @ be32_bytes 3 @ be32_bytes 6 @ be32_bytes 0) 16)
        (xdr_init_write (replicate 64 0) 64)))"
  using getport_answers [of "xdr_init_read (be32_bytes 100003 @ be32_bytes 3 @ be32_bytes 6 @ be32_bytes 0) 16" 100003 3 6 0 "[]"
    "\<lparr>call_xid = 7, call_prog = PROG_PORTMAP, call_vers = VERS_PORTMAP, call_proc = PMAPPROC_GETPORT, auth_uid = 0, auth_gid = 0\<rparr>"
    "xdr_init_write (replicate 64 0) 64" "\<lparr>g_port_pmap = 111, g_port_mount = 2050, g_port_nfs = 2049\<rparr>"]
  by (simp add: xdr_init_read_def xdr_wf_def xdr_view_def BUF_SIZE_def mem_slice_def)

lemma portmap_replies: "\<exists>st. accepted (call_xid call) st out (snd (handle_portmap ps call inp out))"
  by (auto simp: handle_portmap_def Let_def split_def intro: reply_intros)

end
