(* ===== verification/Spill.thy ===== *)
theory Spill
  imports Nfserr
begin

text \<open>
  The scratch file behind a large pending member, \<^verbatim>\<open>src/src/mvsspl.c\<close>. The file is accessed
  in blocks of 4096 bytes: a write loads each block it touches, changes it and stores it.
  The bytes of the file are \<open>spl_file\<close>; the library calls that can fail (\<^verbatim>\<open>fopen\<close>,
  \<^verbatim>\<open>fclose\<close>, \<^verbatim>\<open>fseek\<close>, \<^verbatim>\<open>fwrite\<close>) take their outcome from a script of failures, one entry
  per call, and succeed when the script is used up. Every operation returns whether it
  succeeded (the only error number is \<^verbatim>\<open>EIO\<close>), the file and the rest of the script. Two failures
  are idealised: a read (\<^verbatim>\<open>fread\<close>) always delivers what the file holds, and a write that fails
  leaves the file as it was, where \<^verbatim>\<open>fwrite\<close> may have stored a part.
\<close>

section \<open>State and library calls\<close>

type_synonym faults = "bool list"

fun io_ok :: "faults \<Rightarrow> bool \<times> faults" where
  "io_ok [] = (True, [])"
| "io_ok (b # fs) = (\<not> b, fs)"

definition SPILL_BLK :: nat where "SPILL_BLK = 4096"

record pww_spill_t =
  spl_open :: bool
  spl_size :: u32
  spl_slot :: int
  spl_dirty :: bool
  spl_file :: bytes

definition spill_zero :: pww_spill_t where
  "spill_zero = \<lparr>spl_open = False, spl_size = 0, spl_slot = 0, spl_dirty = False, spl_file = []\<rparr>"

text \<open>Reading a block at an offset, filled up with zeros, and writing at an offset.\<close>

definition file_block :: "bytes \<Rightarrow> nat \<Rightarrow> bytes" where
  "file_block f off =
     (let d = take SPILL_BLK (drop off f) in d @ replicate (SPILL_BLK - length d) 0)"

definition file_write :: "bytes \<Rightarrow> nat \<Rightarrow> bytes \<Rightarrow> bytes" where
  "file_write f off d =
     take off (f @ replicate (off - length f) 0) @ d @ drop (off + length d) f"

section \<open>Operations\<close>

definition spill_open_f :: "int \<Rightarrow> pww_spill_t \<Rightarrow> faults \<Rightarrow> bool \<times> pww_spill_t \<times> faults" where
  "spill_open_f slot_id sp fs =
     (if spl_open sp then (True, sp, fs)
      else let (ok, fs1) = io_ok fs in
        if \<not> ok then (False, sp, fs1)
        else (True, \<lparr>spl_open = True, spl_size = 0, spl_slot = slot_id, spl_dirty = False, spl_file = []\<rparr>, fs1))"

definition spill_sync :: "pww_spill_t \<Rightarrow> faults \<Rightarrow> bool \<times> pww_spill_t \<times> faults" where
  "spill_sync sp fs =
     (if \<not> spl_dirty sp then (True, sp, fs)
      else let (ok, fs1) = io_ok fs in
        if \<not> ok then (False, sp\<lparr>spl_open := False\<rparr>, fs1)
        else let (ok2, fs2) = io_ok fs1 in
          if \<not> ok2 then (False, sp\<lparr>spl_open := False\<rparr>, fs2)
          else (True, sp\<lparr>spl_dirty := False\<rparr>, fs2))"

definition spill_blocks :: "u32 \<Rightarrow> nat" where
  "spill_blocks sz = unat ((sz + of_nat SPILL_BLK - 1) div of_nat SPILL_BLK)"

text \<open>The block, or nothing when the positioning fails.\<close>

definition spill_load_block :: "pww_spill_t \<Rightarrow> nat \<Rightarrow> faults \<Rightarrow> bytes option \<times> faults" where
  "spill_load_block sp b fs =
     (if spill_blocks (spl_size sp) \<le> b then (Some (replicate SPILL_BLK 0), fs)
      else let (ok, fs1) = io_ok fs in
        if \<not> ok then (None, fs1) else (Some (file_block (spl_file sp) (b * SPILL_BLK)), fs1))"

definition spill_store_block ::
  "pww_spill_t \<Rightarrow> nat \<Rightarrow> bytes \<Rightarrow> faults \<Rightarrow> bool \<times> pww_spill_t \<times> faults" where
  "spill_store_block sp b blk fs =
     (let (ok, fs1) = io_ok fs in
      if \<not> ok then (False, sp, fs1)
      else let (ok2, fs2) = io_ok fs1 in
        if \<not> ok2 then (False, sp, fs2)
        else (True, sp\<lparr>spl_file := file_write (spl_file sp) (b * SPILL_BLK) blk, spl_dirty := True\<rparr>, fs2))"

text \<open>The part of the data that falls into block \<open>b\<close>, laid over the loaded block.\<close>

definition spill_overlay :: "nat \<Rightarrow> nat \<Rightarrow> bytes \<Rightarrow> bytes \<Rightarrow> bytes" where
  "spill_overlay b off data blk =
     (let blk_lo = b * SPILL_BLK;
          lo = max off blk_lo;
          hi = min (off + length data) (blk_lo + SPILL_BLK)
      in if data \<noteq> [] \<and> lo < hi
         then mem_store blk (lo - blk_lo) (mem_slice data (lo - off) (hi - lo)) else blk)"

fun spill_write_loop ::
  "nat list \<Rightarrow> nat \<Rightarrow> bytes \<Rightarrow> pww_spill_t \<Rightarrow> faults \<Rightarrow> bool \<times> pww_spill_t \<times> faults" where
  "spill_write_loop [] off data sp fs = (True, sp, fs)"
| "spill_write_loop (b # bs) off data sp fs =
     (case spill_load_block sp b fs of
        (None, fs1) \<Rightarrow> (False, sp, fs1)
      | (Some blk, fs1) \<Rightarrow>
          (case spill_store_block sp b (spill_overlay b off data blk) fs1 of
             (False, sp1, fs2) \<Rightarrow> (False, sp1, fs2)
           | (True, sp1, fs2) \<Rightarrow> spill_write_loop bs off data sp1 fs2))"

definition spill_write ::
  "pww_spill_t \<Rightarrow> u32 \<Rightarrow> bytes \<Rightarrow> faults \<Rightarrow> bool \<times> pww_spill_t \<times> faults" where
  "spill_write sp off data fs =
     (let len = of_nat (length data) :: u32;
          end_off = off + len;
          new_size = (if 0 < len \<and> spl_size sp < end_off then end_off
                      else if len = 0 \<and> spl_size sp < off then off else spl_size sp)
      in if new_size = spl_size sp \<and> len = 0 then (True, sp, fs)
         else
           let cur_blocks = spill_blocks (spl_size sp);
               need_blocks = spill_blocks new_size;
               first = (if 0 < len \<and> unat off div SPILL_BLK < cur_blocks
                        then unat off div SPILL_BLK else cur_blocks);
               lastb = (if spl_size sp < new_size then need_blocks - 1
                       else unat (end_off - 1) div SPILL_BLK);
               (ok, sp1, fs1) = (if first + 1 < cur_blocks then spill_sync sp fs else (True, sp, fs))
           in if \<not> ok then (False, sp1, fs1)
              else let (ok2, sp2, fs2) = spill_write_loop [first..<lastb + 1] (unat off) data sp1 fs1
                in if \<not> ok2 then (False, sp2, fs2) else (True, sp2\<lparr>spl_size := new_size\<rparr>, fs2))"

definition spill_truncate :: "pww_spill_t \<Rightarrow> u32 \<Rightarrow> faults \<Rightarrow> bool \<times> pww_spill_t \<times> faults" where
  "spill_truncate sp sz fs =
     (if spl_size sp < sz then spill_write sp sz [] fs else (True, sp\<lparr>spl_size := sz\<rparr>, fs))"

text \<open>The data read, or nothing; a read past the end of the file is short and fails.\<close>

definition spill_read ::
  "pww_spill_t \<Rightarrow> u32 \<Rightarrow> u32 \<Rightarrow> faults \<Rightarrow> bytes option \<times> pww_spill_t \<times> faults" where
  "spill_read sp off len fs =
     (if len = 0 then (Some [], sp, fs)
      else let (ok, sp1, fs1) = spill_sync sp fs in
        if \<not> ok then (None, sp1, fs1)
        else let (ok2, fs2) = io_ok fs1 in
          if \<not> ok2 then (None, sp1, fs2)
          else let d = mem_slice (spl_file sp1) (unat off) (unat len) in
            (if length d \<noteq> unat len then None else Some d, sp1, fs2))"

definition spill_close :: "pww_spill_t \<Rightarrow> pww_spill_t" where
  "spill_close sp = sp\<lparr>spl_open := False, spl_size := 0, spl_dirty := False\<rparr>"

definition spill_transition ::
  "pww_spill_t \<Rightarrow> int \<Rightarrow> bytes \<Rightarrow> faults \<Rightarrow> bool \<times> pww_spill_t \<times> faults" where
  "spill_transition sp slot_id data fs =
     (case spill_open_f slot_id sp fs of
        (False, sp1, fs1) \<Rightarrow> (False, sp1, fs1)
      | (True, sp1, fs1) \<Rightarrow>
          if data \<noteq> [] then
            (case spill_write sp1 0 data fs1 of
               (False, sp2, fs2) \<Rightarrow> (False, spill_close sp2, fs2)
             | (True, sp2, fs2) \<Rightarrow> (True, sp2, fs2))
          else (True, sp1, fs1))"

section \<open>What a file holds\<close>

text \<open>
  The abstract view of a spilled member is its bytes. Writing at an offset replaces bytes,
  and fills a gap behind the end with zeros.
\<close>

definition splice :: "bytes \<Rightarrow> nat \<Rightarrow> bytes \<Rightarrow> bytes" where
  "splice c off d = take off (c @ replicate (off - length c) 0) @ d @ drop (off + length d) c"

definition spill_content :: "pww_spill_t \<Rightarrow> bytes" where
  "spill_content sp = take (unat (spl_size sp)) (spl_file sp)"

definition SPILL_MAX :: nat where "SPILL_MAX = 1048576"

text \<open>An open file has whole blocks, just enough for its size; sizes are those of members.\<close>

definition spill_wf :: "pww_spill_t \<Rightarrow> bool" where
  "spill_wf sp \<longleftrightarrow> spl_open sp \<and> unat (spl_size sp) \<le> SPILL_MAX \<and>
     unat (spl_size sp) \<le> length (spl_file sp) \<and>
     spill_blocks (spl_size sp) * SPILL_BLK \<le> length (spl_file sp)"

text \<open>Nothing is left in the last block behind the size, nor in blocks behind it.\<close>

definition spill_clean :: "pww_spill_t \<Rightarrow> bool" where
  "spill_clean sp \<longleftrightarrow> (\<forall>i < length (spl_file sp). unat (spl_size sp) \<le> i \<longrightarrow> spl_file sp ! i = 0)"

lemma length_splice: "length (splice c off d) = max (length c) (off + length d)"
  by (simp add: splice_def)

lemma nth_splice:
  assumes "i < length (splice c off d)"
  shows "splice c off d ! i =
    (if off \<le> i \<and> i < off + length d then d ! (i - off) else if i < length c then c ! i else 0)"
  using assms unfolding length_splice
  by (auto simp: splice_def nth_append min_def less_max_iff_disj)

lemma splice_Nil: "off \<le> length c \<Longrightarrow> splice c off [] = c"
  by (simp add: splice_def)

lemma spill_blocks_nat:
  assumes "unat sz \<le> SPILL_MAX"
  shows "spill_blocks sz = (unat sz + 4095) div 4096"
proof -
  have "sz + of_nat SPILL_BLK - 1 = sz + 4095" by (simp add: SPILL_BLK_def)
  moreover have "unat (4095 + sz) = unat sz + 4095"
    using assms by (simp add: unat_add_u32 SPILL_MAX_def)
  moreover have "unat (of_nat SPILL_BLK :: u32) = 4096" by (simp add: SPILL_BLK_def)
  ultimately show ?thesis by (simp add: spill_blocks_def unat_div_distrib)
qed

section \<open>One pass over the blocks\<close>

lemma length_overlay [simp]: "length (spill_overlay b off d blk) = length blk"
  by (simp add: spill_overlay_def Let_def)

lemma nth_overlay:
  assumes "length blk = SPILL_BLK" and "j < SPILL_BLK"
  shows "spill_overlay b off d blk ! j =
    (if off \<le> b * SPILL_BLK + j \<and> b * SPILL_BLK + j < off + length d
     then d ! (b * SPILL_BLK + j - off) else blk ! j)"
proof -
  define lo where "lo = max off (b * SPILL_BLK)"
  define hi where "hi = min (off + length d) (b * SPILL_BLK + SPILL_BLK)"
  show ?thesis
  proof (cases "d \<noteq> [] \<and> lo < hi")
    case True
    have len: "length (mem_slice d (lo - off) (hi - lo)) = hi - lo"
      using True by (auto simp: lo_def hi_def max_def min_def)
    have fit: "lo - b * SPILL_BLK + (hi - lo) \<le> length blk"
      using True assms(1) by (auto simp: lo_def hi_def)
    have "spill_overlay b off d blk = mem_store blk (lo - b * SPILL_BLK) (mem_slice d (lo - off) (hi - lo))"
      using True by (simp add: spill_overlay_def Let_def lo_def hi_def)
    moreover have "mem_store blk (lo - b * SPILL_BLK) (mem_slice d (lo - off) (hi - lo)) ! j =
        (if lo - b * SPILL_BLK \<le> j \<and> j < lo - b * SPILL_BLK + (hi - lo)
         then mem_slice d (lo - off) (hi - lo) ! (j - (lo - b * SPILL_BLK)) else blk ! j)"
      using nth_mem_store [of "lo - b * SPILL_BLK" "mem_slice d (lo - off) (hi - lo)" blk j] len fit assms
      by simp
    moreover have "lo - b * SPILL_BLK \<le> j \<and> j < lo - b * SPILL_BLK + (hi - lo) \<longleftrightarrow>
        off \<le> b * SPILL_BLK + j \<and> b * SPILL_BLK + j < off + length d"
      using True assms(2) by (auto simp: lo_def hi_def)
    moreover have "mem_slice d (lo - off) (hi - lo) ! (j - (lo - b * SPILL_BLK)) =
        d ! (b * SPILL_BLK + j - off)" if "off \<le> b * SPILL_BLK + j" "b * SPILL_BLK + j < off + length d"
    proof -
      have "lo - off + (j - (lo - b * SPILL_BLK)) = b * SPILL_BLK + j - off"
        "j - (lo - b * SPILL_BLK) < hi - lo" "lo - off + (j - (lo - b * SPILL_BLK)) < length d"
        using that assms(2) True by (auto simp: lo_def hi_def max_def)
      then show ?thesis by (simp add: mem_slice_def)
    qed
    ultimately show ?thesis by simp
  next
    case False
    then have "\<not> (off \<le> b * SPILL_BLK + j \<and> b * SPILL_BLK + j < off + length d)"
      using assms(2) by (auto simp: lo_def hi_def)
    moreover have "spill_overlay b off d blk = blk"
      by (simp only: spill_overlay_def Let_def lo_def [symmetric] hi_def [symmetric] False if_False)
    ultimately show ?thesis by auto
  qed
qed

definition block_step :: "nat \<Rightarrow> nat \<Rightarrow> bytes \<Rightarrow> bytes \<Rightarrow> nat \<Rightarrow> bytes" where
  "block_step cur off d f b =
     file_write f (b * SPILL_BLK)
       (spill_overlay b off d (if cur \<le> b then replicate SPILL_BLK 0 else file_block f (b * SPILL_BLK)))"

lemma spill_loop_blocks:
  assumes "cur = spill_blocks (spl_size sp)"
  shows "spill_write_loop bs off d sp [] =
    (True, sp\<lparr>spl_file := foldl (block_step cur off d) (spl_file sp) bs,
              spl_dirty := (bs \<noteq> [] \<or> spl_dirty sp)\<rparr>, [])"
  using assms
proof (induction bs arbitrary: sp)
  case (Cons b bs)
  let ?sp = "sp\<lparr>spl_file := block_step cur off d (spl_file sp) b, spl_dirty := True\<rparr>"
  have "spill_write_loop (b # bs) off d sp [] = spill_write_loop bs off d ?sp []"
    using Cons.prems by (simp add: spill_load_block_def spill_store_block_def block_step_def)
  then show ?case using Cons.IH [of ?sp] Cons.prems by simp
qed simp

lemma file_block_nth:
  assumes "off + SPILL_BLK \<le> length f"
  shows "length (file_block f off) = SPILL_BLK" and "j < SPILL_BLK \<Longrightarrow> file_block f off ! j = f ! (off + j)"
  using assms by (simp_all add: file_block_def Let_def)

lemma block_step_nth:
  assumes "b * SPILL_BLK \<le> length f" and "b < cur \<longrightarrow> Suc b * SPILL_BLK \<le> length f"
  shows "length (block_step cur off d f b) = max (length f) (Suc b * SPILL_BLK)" (is ?len)
    and "i < max (length f) (Suc b * SPILL_BLK) \<Longrightarrow> block_step cur off d f b ! i =
      (if b * SPILL_BLK \<le> i \<and> i < Suc b * SPILL_BLK
       then (if off \<le> i \<and> i < off + length d then d ! (i - off) else if b < cur then f ! i else 0)
       else f ! i)"
proof -
  define blk where "blk = (if cur \<le> b then replicate SPILL_BLK 0 else file_block f (b * SPILL_BLK))"
  have lb: "length blk = SPILL_BLK"
    using assms(2) file_block_nth(1) [of "b * SPILL_BLK" f] by (auto simp: blk_def add.commute)
  have step: "block_step cur off d f b = file_write f (b * SPILL_BLK) (spill_overlay b off d blk)"
    by (simp add: block_step_def blk_def)
  show ?len
    using assms(1) lb by (simp add: step file_write_def add.commute)
  assume i: "i < max (length f) (Suc b * SPILL_BLK)"
  show "block_step cur off d f b ! i =
      (if b * SPILL_BLK \<le> i \<and> i < Suc b * SPILL_BLK
       then (if off \<le> i \<and> i < off + length d then d ! (i - off) else if b < cur then f ! i else 0)
       else f ! i)"
  proof (cases "b * SPILL_BLK \<le> i \<and> i < Suc b * SPILL_BLK")
    case True
    then obtain j where j: "i = b * SPILL_BLK + j" "j < SPILL_BLK"
      by (metis le_add_diff_inverse mult_Suc add.commute nat_add_left_cancel_less)
    have "block_step cur off d f b ! i = spill_overlay b off d blk ! j"
      using assms(1) lb j by (simp add: step file_write_def nth_append)
    moreover have "blk ! j = (if b < cur then f ! i else 0)"
      using j assms(2) file_block_nth(2) [of "b * SPILL_BLK" f j] by (auto simp: blk_def add.commute)
    ultimately show ?thesis using nth_overlay [OF lb j(2), of b off d] j True by simp
  next
    case False
    then show ?thesis
      using i assms(1) lb by (auto simp: step file_write_def nth_append)
  qed
qed

lemma block_fold_nth:
  assumes "first \<le> k" and "first * SPILL_BLK \<le> length f" and "cur * SPILL_BLK \<le> length f"
  shows "length (foldl (block_step cur off d) f [first..<k]) =
      (if first < k then max (length f) (k * SPILL_BLK) else length f) \<and>
    (\<forall>i < length (foldl (block_step cur off d) f [first..<k]).
      foldl (block_step cur off d) f [first..<k] ! i =
      (if first * SPILL_BLK \<le> i \<and> i < k * SPILL_BLK
       then (if off \<le> i \<and> i < off + length d then d ! (i - off)
             else if i < cur * SPILL_BLK then f ! i else 0)
       else f ! i))"
  using assms(1)
proof (induction k rule: dec_induct)
  case base
  show ?case by auto
next
  case (step k)
  let ?g = "foldl (block_step cur off d) f [first..<k]"
  have len: "length ?g = (if first < k then max (length f) (k * SPILL_BLK) else length f)"
    using step.IH by simp
  have nth: "\<forall>i < length ?g. ?g ! i =
      (if first * SPILL_BLK \<le> i \<and> i < k * SPILL_BLK
       then (if off \<le> i \<and> i < off + length d then d ! (i - off)
             else if i < cur * SPILL_BLK then f ! i else 0)
       else f ! i)"
    using step.IH by simp
  have fold: "foldl (block_step cur off d) f [first..<Suc k] = block_step cur off d ?g k"
    using step.hyps by simp
  have k1: "k * SPILL_BLK \<le> length ?g" using len step.hyps assms(2) by (cases "first < k") auto
  have "Suc k * SPILL_BLK \<le> cur * SPILL_BLK" if "k < cur" using that by (intro mult_le_mono1) simp
  then have k2: "k < cur \<longrightarrow> Suc k * SPILL_BLK \<le> length ?g"
    using len assms(3) by (auto simp: max_def split: if_splits)
  note bs = block_step_nth [where cur = cur and off = off and d = d, OF k1 k2]
  have blk: "k * SPILL_BLK \<le> i \<Longrightarrow> i < Suc k * SPILL_BLK \<Longrightarrow> k < cur \<longleftrightarrow> i < cur * SPILL_BLK" for i
  proof
    assume i: "k * SPILL_BLK \<le> i" "i < Suc k * SPILL_BLK"
    show "i < cur * SPILL_BLK" if "k < cur"
      using i(2) that mult_le_mono1 [of "Suc k" cur SPILL_BLK] by simp
    show "k < cur" if "i < cur * SPILL_BLK"
      using le_less_trans [OF i(1) that] by simp
  qed
  have "block_step cur off d ?g k ! i =
        (if first * SPILL_BLK \<le> i \<and> i < Suc k * SPILL_BLK
         then (if off \<le> i \<and> i < off + length d then d ! (i - off)
               else if i < cur * SPILL_BLK then f ! i else 0)
         else f ! i)" if i: "i < max (length ?g) (Suc k * SPILL_BLK)" for i
    proof (cases "k * SPILL_BLK \<le> i \<and> i < Suc k * SPILL_BLK")
      case True
      have "first * SPILL_BLK \<le> i"
        using True mult_le_mono1 [OF step.hyps(1), of SPILL_BLK] by linarith
      moreover have "?g ! i = f ! i" if "i < length ?g" using nth that True by simp
      moreover have "i < length ?g" if "i < cur * SPILL_BLK"
        using that len assms(3) by (auto simp: max_def split: if_splits)
      ultimately show ?thesis using bs(2) [OF i] True blk [of i] by auto
    next
      case False
      then have il: "i < length ?g" "block_step cur off d ?g k ! i = ?g ! i"
        using bs(2) [OF i] i k1 by auto
      then show ?thesis using nth False by auto
    qed
  moreover have "max (length ?g) (Suc k * SPILL_BLK) = max (length f) (Suc k * SPILL_BLK)"
    using len by (auto simp: max_def)
  ultimately show ?case using bs(1) step.hyps by (simp add: fold)
qed

section \<open>Writing refines the splice\<close>

lemma div_blk: "x div SPILL_BLK * SPILL_BLK \<le> x" "x < Suc (x div SPILL_BLK) * SPILL_BLK"
proof -
  show "x div SPILL_BLK * SPILL_BLK \<le> x" by (rule div_times_less_eq_dividend)
  show "x < Suc (x div SPILL_BLK) * SPILL_BLK"
    using dividend_less_div_times [of SPILL_BLK x] by (simp add: SPILL_BLK_def add.commute)
qed

lemma spill_blocks_bounds:
  assumes "unat sz \<le> SPILL_MAX"
  shows "unat sz \<le> spill_blocks sz * SPILL_BLK"
    and "unat sz \<le> k * SPILL_BLK \<Longrightarrow> spill_blocks sz \<le> k"
proof -
  show "unat sz \<le> spill_blocks sz * SPILL_BLK"
    using dividend_less_div_times [of 4096 "unat sz + 4095"]
    by (simp add: spill_blocks_nat [OF assms] SPILL_BLK_def)
  assume "unat sz \<le> k * SPILL_BLK"
  then have "(unat sz + 4095) div 4096 \<le> (k * 4096 + 4095) div 4096"
    by (intro div_le_mono) (simp add: SPILL_BLK_def)
  then show "spill_blocks sz \<le> k" by (simp add: spill_blocks_nat [OF assms])
qed

lemma spill_sync_ok: "spill_sync sp [] = (True, sp\<lparr>spl_dirty := False\<rparr>, [])"
  by (simp add: spill_sync_def)

text \<open>
  The range of blocks a write goes over: it covers the data and the gap in front of it, it
  ends with the last block of the new size, and it starts at a block that exists or at the
  first that does not.
\<close>

lemma spill_write_file:
  assumes wf: "spill_wf sp" and open_off: "unat off + length d \<le> SPILL_MAX"
    and go: "d \<noteq> [] \<or> spl_size sp < off"
  defines "n \<equiv> max (unat (spl_size sp)) (unat off + length d)"
  obtains f where "spill_write sp off d [] =
      (True, sp\<lparr>spl_file := f, spl_size := of_nat n, spl_dirty := spl_dirty (fst (snd (spill_write sp off d [])))\<rparr>, [])"
    and "length f = max (length (spl_file sp)) (spill_blocks (of_nat n) * SPILL_BLK)"
    and "\<forall>i < length f. f ! i =
      (if unat off \<le> i \<and> i < unat off + length d then d ! (i - unat off)
       else if i < spill_blocks (spl_size sp) * SPILL_BLK then spl_file sp ! i
       else if i < spill_blocks (of_nat n) * SPILL_BLK then 0 else spl_file sp ! i)"
proof -
  define cur where "cur = spill_blocks (spl_size sp)"
  define B where "B = SPILL_BLK"
  have Bpos: "0 < B" by (simp add: B_def SPILL_BLK_def)
  have sz: "unat (spl_size sp) \<le> SPILL_MAX" and fl: "cur * B \<le> length (spl_file sp)"
    using wf by (simp_all add: spill_wf_def cur_def B_def)
  have nmax: "n \<le> SPILL_MAX" using sz open_off by (simp add: n_def)
  then have un: "unat (of_nat n :: u32) = n" by (simp add: unat_of_nat SPILL_MAX_def)
  define need where "need = spill_blocks (of_nat n)"
  have curb: "unat (spl_size sp) \<le> cur * B" "\<And>k. unat (spl_size sp) \<le> k * B \<Longrightarrow> cur \<le> k"
    using spill_blocks_bounds [OF sz] by (simp_all add: cur_def B_def)
  have needb: "n \<le> need * B" "\<And>k. n \<le> k * B \<Longrightarrow> need \<le> k"
    using spill_blocks_bounds [of "of_nat n"] nmax by (simp_all add: un need_def B_def)
  have cn: "cur \<le> need" using curb(2) [of need] needb(1) by (simp add: n_def)
  have len: "unat (of_nat (length d) :: u32) = length d" "(0 :: u32) < of_nat (length d) \<longleftrightarrow> d \<noteq> []"
    "of_nat (length d) = (0 :: u32) \<longleftrightarrow> d = []"
    using open_off by (simp_all add: unat_of_nat SPILL_MAX_def word_less_nat_alt word_unat_eq_iff)
  define e where "e = off + of_nat (length d)"
  have e: "unat e = unat off + length d"
    using len(1) open_off by (simp add: e_def unat_add_u32 SPILL_MAX_def)
  have grow: "spl_size sp < of_nat n \<longleftrightarrow> unat (spl_size sp) < unat off + length d"
    unfolding word_less_nat_alt un by (simp add: n_def less_max_iff_disj)
  have new: "(if d \<noteq> [] \<and> spl_size sp < e then e
      else if of_nat (length d) = (0 :: u32) \<and> spl_size sp < off then off else spl_size sp) = of_nat n"
  proof (cases "unat (spl_size sp) < unat off + length d")
    case True
    then have "of_nat n = e" by (simp add: word_unat_eq_iff un e) (simp add: n_def)
    moreover have "e = off" if "d = []" using that by (simp add: e_def)
    ultimately show ?thesis using True e len go by (auto simp: word_less_nat_alt)
  next
    case False
    then have "of_nat n = spl_size sp" by (simp add: word_unat_eq_iff un) (simp add: n_def)
    then show ?thesis using False e len by (auto simp: word_less_nat_alt)
  qed
  have noret: "\<not> (of_nat n = spl_size sp \<and> of_nat (length d) = (0 :: u32))"
    using go grow len(3) by (auto simp: word_less_nat_alt)
  define first where "first = (if d \<noteq> [] \<and> unat off div B < cur then unat off div B else cur)"
  define k where "k = (if spl_size sp < of_nat n then need - 1 else unat (e - 1) div B) + 1"
  have firstle: "first \<le> cur" by (simp add: first_def)
  have dl: "first * B \<le> unat off" if "d \<noteq> []"
  proof -
    have "first \<le> unat off div B" using that by (simp add: first_def)
    then have "first * B \<le> unat off div B * B" by (rule mult_le_mono1)
    also have "\<dots> \<le> unat off" by (rule div_times_less_eq_dividend)
    finally show ?thesis .
  qed
  have kgrow: "k = need" if "spl_size sp < of_nat n"
  proof -
    have "0 < n" using that by (auto simp: word_less_nat_alt un)
    then have "0 < need" using needb(1) by (cases need) auto
    then show ?thesis using that by (simp add: k_def)
  qed
  have kstay: "first < k" "k \<le> cur" "unat off + length d \<le> k * B" "need = cur"
    if s: "\<not> spl_size sp < of_nat n"
  proof -
    have le: "unat off + length d \<le> unat (spl_size sp)" using s unfolding grow by simp
    then have d: "d \<noteq> []" using go by (auto simp: word_less_nat_alt)
    have nsz: "n = unat (spl_size sp)" using le by (simp add: n_def)
    have "unat (e - 1) = unat off + length d - 1" using d e by (subst unat_sub_u32) (cases d; simp)+
    then have kk: "k = (unat off + length d - 1) div B + 1" using s by (simp add: k_def)
    have off: "unat off < cur * B" using le d curb(1) by (cases d) auto
    then have "unat off div B < cur" by (rule less_mult_imp_div_less)
    moreover have "unat off div B \<le> (unat off + length d - 1) div B" using d by (intro div_le_mono) (cases d; simp)
    ultimately show "first < k" using d kk by (simp add: first_def)
    have "unat off + length d - 1 < cur * B" using le d curb(1) by (cases d) auto
    then show "k \<le> cur" using kk less_mult_imp_div_less [of "unat off + length d - 1" cur B] by simp
    have "unat off + length d - 1 < k * B"
      using kk dividend_less_div_times [OF Bpos, of "unat off + length d - 1"] by simp
    then show "unat off + length d \<le> k * B" by simp
    show "need = cur" using needb(2) [of cur] curb(1) cn nsz by simp
  qed
  have fk: "first \<le> k" and du: "unat off + length d \<le> k * B"
  proof -
    show "first \<le> k"
      by (cases "spl_size sp < of_nat n") (use kgrow kstay(1) firstle cn in force)+
    show "unat off + length d \<le> k * B"
    proof (cases "spl_size sp < of_nat n")
      case True
      have "unat off + length d \<le> n" by (simp add: n_def)
      then show ?thesis using kgrow [OF True] needb(1) by simp
    qed (rule kstay(3))
  qed
  define f where "f = foldl (block_step cur (unat off) d) (spl_file sp) [first..<k]"
  have "first * B \<le> length (spl_file sp)" using firstle fl mult_le_mono1 [of first cur B] by linarith
  note bf = block_fold_nth [OF fk this [unfolded B_def] fl [unfolded B_def], of "unat off" d,
      folded f_def B_def]
  have lf: "length f = max (length (spl_file sp)) (need * B)"
  proof (cases "spl_size sp < of_nat n")
    case True
    then have k: "k = need" by (rule kgrow)
    show ?thesis
    proof (cases "first < k")
      case False
      then have "need = cur" using k firstle cn by simp
      then show ?thesis using False bf fl by simp
    qed (use bf k in simp)
  next
    case False
    have "k * B \<le> length (spl_file sp)"
      using fl mult_le_mono1 [OF kstay(2) [OF False], of B] by linarith
    then show ?thesis using kstay(1,4) [OF False] bf fl by simp
  qed
  have nth: "f ! i = (if unat off \<le> i \<and> i < unat off + length d then d ! (i - unat off)
       else if i < cur * B then spl_file sp ! i else if i < need * B then 0 else spl_file sp ! i)"
    if i: "i < length f" for i
  proof -
    have fi: "f ! i = (if first * B \<le> i \<and> i < k * B
       then (if unat off \<le> i \<and> i < unat off + length d then d ! (i - unat off)
             else if i < cur * B then spl_file sp ! i else 0) else spl_file sp ! i)"
      using bf i by blast
    have range: "first * B \<le> i \<and> i < k * B" if "unat off \<le> i" "i < unat off + length d"
      using that dl du by (cases "d = []") auto
    have fc: "first * B \<le> i" if "\<not> i < cur * B"
      using that mult_le_mono1 [OF firstle, of B] by linarith
    show ?thesis
    proof (cases "spl_size sp < of_nat n")
      case True
      then show ?thesis using fi range kgrow fc by auto
    next
      case False
      have "i < cur * B" if "i < k * B"
        using that mult_le_mono1 [OF kstay(2) [OF False], of B] by linarith
      then show ?thesis using fi range kstay(4) [OF False] by auto
    qed
  qed
  obtain dirty where "spill_write sp off d [] =
      (True, sp\<lparr>spl_file := f, spl_size := of_nat n, spl_dirty := dirty\<rparr>, [])"
  proof (cases "first + 1 < cur")
    case True
    then show ?thesis
      using that [of "[first..<k] \<noteq> [] \<or> spl_dirty (sp\<lparr>spl_dirty := False\<rparr>)"] noret
        spill_loop_blocks [of cur "sp\<lparr>spl_dirty := False\<rparr>" "[first..<k]" "unat off" d]
      unfolding spill_write_def Let_def e_def [symmetric] cur_def [symmetric] B_def [symmetric] len(2)
      unfolding new need_def [symmetric] first_def [symmetric] k_def [symmetric]
      by (simp add: spill_sync_ok cur_def f_def)
  next
    case False
    then show ?thesis
      using that [of "[first..<k] \<noteq> [] \<or> spl_dirty sp"] noret
        spill_loop_blocks [of cur sp "[first..<k]" "unat off" d]
      unfolding spill_write_def Let_def e_def [symmetric] cur_def [symmetric] B_def [symmetric] len(2)
      unfolding new need_def [symmetric] first_def [symmetric] k_def [symmetric]
      by (simp add: cur_def f_def)
  qed
  then show thesis
    using that [of f] lf nth by (simp add: need_def B_def cur_def)
qed

lemma spill_write_refines:
  assumes wf: "spill_wf sp" and mx: "unat off + length d \<le> SPILL_MAX"
    and gap: "unat off \<le> unat (spl_size sp) \<or> spill_clean sp"
  obtains sp' where "spill_write sp off d [] = (True, sp', [])" and "spill_wf sp'"
    and "spill_content sp' = splice (spill_content sp) (unat off) d"
    and "unat (spl_size sp') = max (unat (spl_size sp)) (unat off + length d)"
    and "spill_clean sp \<Longrightarrow> spill_clean sp'" and "spl_slot sp' = spl_slot sp"
proof (cases "d \<noteq> [] \<or> spl_size sp < off")
  case False
  then have "spill_write sp off d [] = (True, sp, [])" "unat off \<le> unat (spl_size sp)" "d = []"
    by (auto simp: spill_write_def Let_def word_less_nat_alt)
  moreover have "splice (spill_content sp) (unat off) [] = spill_content sp"
    using calculation(2) wf by (intro splice_Nil) (simp add: spill_content_def spill_wf_def)
  ultimately show ?thesis using that [of sp] wf by auto
next
  case True
  define n where "n = max (unat (spl_size sp)) (unat off + length d)"
  define cur where "cur = spill_blocks (spl_size sp) * SPILL_BLK"
  define need where "need = spill_blocks (of_nat n) * SPILL_BLK"
  have sz: "unat (spl_size sp) \<le> SPILL_MAX" "unat (spl_size sp) \<le> length (spl_file sp)"
    "cur \<le> length (spl_file sp)" using wf by (simp_all add: spill_wf_def cur_def)
  have nm: "n \<le> SPILL_MAX" using mx sz(1) by (simp add: n_def)
  then have un: "unat (of_nat n :: u32) = n" by (simp add: unat_of_nat SPILL_MAX_def)
  have cb: "unat (spl_size sp) \<le> cur" "n \<le> need"
    using spill_blocks_bounds(1) [OF sz(1)] spill_blocks_bounds(1) [of "of_nat n"] nm un
    by (simp_all add: cur_def need_def)
  obtain f dirty where w: "spill_write sp off d [] =
      (True, sp\<lparr>spl_file := f, spl_size := of_nat n, spl_dirty := dirty\<rparr>, [])"
    and lf: "length f = max (length (spl_file sp)) need"
    and nth: "\<forall>i < length f. f ! i =
      (if unat off \<le> i \<and> i < unat off + length d then d ! (i - unat off)
       else if i < cur then spl_file sp ! i else if i < need then 0 else spl_file sp ! i)"
    using spill_write_file [OF wf mx True] unfolding n_def cur_def need_def by blast
  let ?sp = "sp\<lparr>spl_file := f, spl_size := of_nat n, spl_dirty := dirty\<rparr>"
  have nl: "n \<le> length f" using lf cb by simp
  have wf': "spill_wf ?sp" using wf nm nl lf by (simp add: spill_wf_def un need_def)
  have cont: "spill_content ?sp = splice (spill_content sp) (unat off) d"
  proof (rule nth_equalityI)
    show "length (spill_content ?sp) = length (splice (spill_content sp) (unat off) d)"
      using nl sz(2) by (simp add: spill_content_def un length_splice) (simp add: n_def)
    fix i assume "i < length (spill_content ?sp)"
    then have i: "i < n" "i < length f" using nl by (simp_all add: spill_content_def un)
    then have sp: "i < length (splice (spill_content sp) (unat off) d)"
      using sz(2) by (simp add: spill_content_def length_splice) (simp add: n_def)
    have gapzero: "spl_file sp ! i = 0" if "unat (spl_size sp) \<le> i" "i < cur" "\<not> unat off \<le> i"
      using gap that sz(3) by (auto simp: spill_clean_def)
    have "i < unat off + length d" if "unat (spl_size sp) \<le> i" using i(1) that by (simp add: n_def)
    then show "spill_content ?sp ! i = splice (spill_content sp) (unat off) d ! i"
      using nth_splice [OF sp] nth i sz cb gapzero
      by (auto simp: spill_content_def un less_le_trans [of i n])
  qed
  have clean: "spill_clean ?sp" if c: "spill_clean sp"
    unfolding spill_clean_def
  proof (intro allI impI)
    fix i assume i: "i < length (spl_file ?sp)" "unat (spl_size ?sp) \<le> i"
    then have "unat (spl_size sp) \<le> i" "\<not> i < unat off + length d" by (simp_all add: un) (simp_all add: n_def)
    then show "spl_file ?sp ! i = 0"
      using nth i(1) c lf sz(3) by (auto simp: spill_clean_def)
  qed
  show ?thesis
    using that [OF w wf' cont] clean by (simp add: un n_def [symmetric])
qed

section \<open>Properties of the scratch file\<close>

text \<open>
  Writing to the scratch file is writing to a byte sequence: in a well-formed file whose
  space behind the end is clean, or at an offset up to the end, a write succeeds, gives the
  content with the bytes replaced and a gap filled with zeros, keeps the file well-formed and
  clean, and a read of the whole returns that content.
\<close>

theorem spill_write_content:
  assumes "spill_wf sp" and "unat off + length d \<le> SPILL_MAX"
    and "unat off \<le> unat (spl_size sp) \<or> spill_clean sp"
  shows "\<exists>sp'. spill_write sp off d [] = (True, sp', []) \<and> spill_wf sp' \<and>
    spill_content sp' = splice (spill_content sp) (unat off) d \<and>
    (spill_clean sp \<longrightarrow> spill_clean sp') \<and>
    fst (spill_read sp' 0 (spl_size sp') []) = Some (splice (spill_content sp) (unat off) d)"
proof -
  obtain sp' where w: "spill_write sp off d [] = (True, sp', [])" "spill_wf sp'"
    "spill_content sp' = splice (spill_content sp) (unat off) d" "spill_clean sp \<Longrightarrow> spill_clean sp'"
    using spill_write_refines [OF assms] by blast
  have "fst (spill_read sp' 0 (spl_size sp') []) = Some (spill_content sp')"
    using w(2) by (auto simp: spill_read_def spill_sync_ok spill_content_def spill_wf_def mem_slice_def
        word_unat_eq_iff)
  then show ?thesis using w by auto
qed

theorem spill_write_content_witness:
  "\<exists>sp'. spill_write (spill_zero\<lparr>spl_open := True\<rparr>) 3 [1, 2] [] = (True, sp', []) \<and>
     spill_content sp' = [0, 0, 0, 1, 2]"
proof -
  let ?sp = "spill_zero\<lparr>spl_open := True\<rparr>"
  have "spill_wf ?sp" using spill_blocks_nat [of 0] by (simp add: spill_wf_def spill_zero_def)
  moreover have "spill_clean ?sp" by (simp add: spill_clean_def spill_zero_def)
  moreover have "spill_content ?sp = []" by (simp add: spill_content_def spill_zero_def)
  moreover have "splice [] 3 [1, 2] = [0, 0, 0, 1, 2]" by code_simp
  ultimately show ?thesis
    using spill_write_content [of ?sp 3 "[1, 2]"] by (auto simp: SPILL_MAX_def)
qed

text \<open>
  C36. A shrunk file keeps what it held: shrinking gives the prefix, but growing again within
  the same number of blocks brings the old bytes back instead of zeros.
\<close>

theorem spill_truncate_resurfaces:
  assumes "spill_wf sp" and "n < m" and "m \<le> spl_size sp" and "spill_blocks n = spill_blocks m"
  shows "\<exists>sp1 sp2. spill_truncate sp n [] = (True, sp1, []) \<and>
    spill_content sp1 = take (unat n) (spill_content sp) \<and>
    spill_truncate sp1 m [] = (True, sp2, []) \<and>
    spill_content sp2 = take (unat m) (spill_content sp)"
proof -
  let ?sp1 = "sp\<lparr>spl_size := n\<rparr>" and ?sp2 = "sp\<lparr>spl_size := m\<rparr>"
  have u: "unat n < unat m" "unat m \<le> unat (spl_size sp)"
    using assms(2,3) by (simp_all add: word_less_nat_alt word_le_nat_alt)
  then have 1: "spill_truncate sp n [] = (True, ?sp1, [])"
    by (simp add: spill_truncate_def word_less_nat_alt)
  have mx: "unat m \<le> SPILL_MAX" using assms(1) u by (simp add: spill_wf_def)
  have "0 < spill_blocks m" using spill_blocks_bounds(1) [OF mx] u by (cases "spill_blocks m") auto
  then have "spill_write ?sp1 m [] [] = (True, ?sp2, [])"
    using assms(2,4) by (auto simp: spill_write_def Let_def)
  then have 2: "spill_truncate ?sp1 m [] = (True, ?sp2, [])" using assms(2) by (simp add: spill_truncate_def)
  have "spill_content ?sp1 = take (unat n) (spill_content sp)"
    "spill_content ?sp2 = take (unat m) (spill_content sp)"
    using u by (simp_all add: spill_content_def min_def)
  with 1 2 show ?thesis by blast
qed

theorem spill_truncate_resurfaces_witness:
  "\<exists>sp1 sp2. spill_truncate \<lparr>spl_open = True, spl_size = 3, spl_slot = 0, spl_dirty = False,
       spl_file = [7, 8, 9] @ replicate 4093 0\<rparr> 1 [] = (True, sp1, []) \<and>
     spill_truncate sp1 3 [] = (True, sp2, []) \<and> spill_content sp2 = [7, 8, 9]"
proof -
  let ?sp = "\<lparr>spl_open = True, spl_size = 3, spl_slot = 0, spl_dirty = False,
    spl_file = [7, 8, 9] @ replicate 4093 0\<rparr>"
  have b: "spill_blocks 1 = 1" "spill_blocks 3 = 1"
    using spill_blocks_nat [of 1] spill_blocks_nat [of 3] by (simp_all add: SPILL_MAX_def)
  have "spill_wf ?sp" by (simp add: spill_wf_def SPILL_MAX_def b SPILL_BLK_def)
  then show ?thesis
    using spill_truncate_resurfaces [of ?sp 1 3] b by (auto simp: spill_content_def)
qed

end
