(* ===== verification/Pending.thy ===== *)
theory Pending
  imports Spill Exports
begin

text \<open>
  One pending member, the slot-level part of \<^verbatim>\<open>src/src/mvspww.c\<close>: the bytes a client has
  written to a member before it is flushed, held in memory up to 16 KB and in a scratch file
  beyond. A slot's buffer is the list of its \<^verbatim>\<open>buf_cap\<close> bytes, empty for a NULL pointer;
  what \<^verbatim>\<open>realloc\<close> adds is a byte \<open>junk\<close> the program knows nothing about. Fields that only
  feed the performance log (write gaps and ages) are left out. An offset so close to 2^64 that
  offset and length wrap around passes the checks of the program; its \<^verbatim>\<open>memset\<close> and \<^verbatim>\<open>memcpy\<close> then
  leave the buffer, while \<open>pww_store_range\<close> stores nothing. The theorems exclude such offsets.
\<close>

definition PWW_MAX_PENDING :: nat where "PWW_MAX_PENDING = 8"
definition PWW_SPILL_THRESHOLD :: nat where "PWW_SPILL_THRESHOLD = 16 * 1024"
definition PWW_MAX_MEMBER_BYTES :: nat where "PWW_MAX_MEMBER_BYTES = 1024 * 1024"
definition PWW_IDLE_TIMEOUT_SECONDS :: int where "PWW_IDLE_TIMEOUT_SECONDS = 1"

record pending_member_t =
  used :: bool
  pm_export :: int
  pm_dataset :: int
  pm_dsname :: bytes
  pm_member :: bytes
  buf :: bytes
  high_water :: u32
  last_write_time :: int
  dirty :: bool
  enq_held :: bool
  allocated :: bool
  ddname :: bytes
  spill :: pww_spill_t
  blkcalc :: blkcalc_info_t

definition pending_zero :: pending_member_t where
  "pending_zero = \<lparr>used = False, pm_export = 0, pm_dataset = 0, pm_dsname = [], pm_member = [],
     buf = [], high_water = 0, last_write_time = 0, dirty = False, enq_held = False,
     allocated = False, ddname = [], spill = spill_zero, blkcalc = blkcalc_zero\<rparr>"

section \<open>Operations on a slot\<close>

definition has_spill_file_open :: "pending_member_t \<Rightarrow> bool" where
  "has_spill_file_open pm = spl_open (spill pm)"

function grow_cap :: "nat \<Rightarrow> nat \<Rightarrow> nat" where
  "grow_cap c need = (if 0 < c \<and> c < need then grow_cap (2 * c) need else c)"
  by pat_completeness auto
termination by (relation "measure (\<lambda>(c, need). need - c)") auto

declare grow_cap.simps [simp del]

text \<open>An error number (none on success), the slot and the rest of the failure script.\<close>

definition pww_slot_ensure_cap ::
  "u8 \<Rightarrow> pending_member_t \<Rightarrow> nat \<Rightarrow> faults \<Rightarrow> errno_t option \<times> pending_member_t \<times> faults" where
  "pww_slot_ensure_cap junk pm need fs =
     (if PWW_SPILL_THRESHOLD < need then (Some ENOSPC, pm, fs)
      else if need \<le> length (buf pm) then (None, pm, fs)
      else let new_cap = min PWW_SPILL_THRESHOLD
                 (grow_cap (if length (buf pm) \<noteq> 0 then length (buf pm) else 4096) need);
               (ok, fs1) = io_ok fs
        in if \<not> ok then (Some ENOMEM, pm, fs1)
           else (None, pm\<lparr>buf := buf pm @ replicate (new_cap - length (buf pm)) junk\<rparr>, fs1))"

definition pww_spill_transition ::
  "int \<Rightarrow> pending_member_t \<Rightarrow> faults \<Rightarrow> errno_t option \<times> pending_member_t \<times> faults" where
  "pww_spill_transition slot pm fs =
     (let (ok, sp, fs1) = spill_transition (spill pm) slot (take (unat (high_water pm)) (buf pm)) fs in
      if \<not> ok then (Some EIO, pm\<lparr>spill := sp\<rparr>, fs1)
      else (None, pm\<lparr>spill := sp, buf := []\<rparr>, fs1))"

definition pww_set_dirty :: "int \<Rightarrow> pending_member_t \<Rightarrow> pending_member_t" where
  "pww_set_dirty now pm = pm\<lparr>dirty := True, last_write_time := now\<rparr>"

definition pww_check_member_cap :: "u64 \<Rightarrow> u32 \<Rightarrow> errno_t option" where
  "pww_check_member_cap offset count =
     (if offset + ucast count \<le> of_nat PWW_MAX_MEMBER_BYTES then None else Some ENOSPC)"

definition pww_store_range ::
  "u8 \<Rightarrow> int \<Rightarrow> pending_member_t \<Rightarrow> u64 \<Rightarrow> bytes \<Rightarrow> faults
     \<Rightarrow> errno_t option \<times> pending_member_t \<times> faults" where
  "pww_store_range junk slot pm offset data fs =
     (let end_off = offset + of_nat (length data);
          (err, pm1, fs1) =
            (if \<not> has_spill_file_open pm \<and> end_off \<le> of_nat PWW_SPILL_THRESHOLD then
               (case pww_slot_ensure_cap junk pm (unat end_off) fs of
                  (Some e, pm', fs') \<Rightarrow> (Some e, pm', fs')
                | (None, pm', fs') \<Rightarrow>
                    let hw = unat (high_water pm'); o' = unat offset;
                        b1 = (if hw < o' then mem_store (buf pm') hw (replicate (o' - hw) 0) else buf pm')
                    in (None, pm'\<lparr>buf := mem_store b1 o' data\<rparr>, fs'))
             else
               (case (if \<not> has_spill_file_open pm then pww_spill_transition slot pm fs else (None, pm, fs)) of
                  (Some e, pm', fs') \<Rightarrow> (Some e, pm', fs')
                | (None, pm', fs') \<Rightarrow>
                    let (ok, sp, fs'') = spill_write (spill pm') (ucast offset) data fs'
                    in (if ok then None else Some EIO, pm'\<lparr>spill := sp\<rparr>, fs'')))
      in case err of Some e \<Rightarrow> (Some e, pm1, fs1)
         | None \<Rightarrow> (None, if ucast (high_water pm1) < end_off
                          then pm1\<lparr>high_water := ucast end_off\<rparr> else pm1, fs1))"

definition pww_read_range ::
  "pending_member_t \<Rightarrow> u32 \<Rightarrow> u32 \<Rightarrow> faults \<Rightarrow> bytes option \<times> pending_member_t \<times> faults" where
  "pww_read_range pm off len fs =
     (if len = 0 then (Some [], pm, fs)
      else if \<not> has_spill_file_open pm then (Some (mem_slice (buf pm) (unat off) (unat len)), pm, fs)
      else let (r, sp, fs1) = spill_read (spill pm) off len fs in (r, pm\<lparr>spill := sp\<rparr>, fs1))"

text \<open>The part of \<^verbatim>\<open>pww_truncate\<close> that changes the bytes of an existing slot.\<close>

definition pww_resize ::
  "u8 \<Rightarrow> int \<Rightarrow> pending_member_t \<Rightarrow> u32 \<Rightarrow> faults \<Rightarrow> errno_t option \<times> pending_member_t \<times> faults" where
  "pww_resize junk slot pm sz fs =
     (if has_spill_file_open pm then
        (let (ok, sp, fs1) = spill_truncate (spill pm) sz fs
         in (if ok then None else Some EIO, pm\<lparr>spill := sp\<rparr>, fs1))
      else if unat sz \<le> PWW_SPILL_THRESHOLD then
        (case (if length (buf pm) < unat sz then pww_slot_ensure_cap junk pm (unat sz) fs else (None, pm, fs)) of
           (Some e, pm', fs') \<Rightarrow> (Some e, pm', fs')
         | (None, pm', fs') \<Rightarrow>
             (None, if high_water pm' < sz
                    then pm'\<lparr>buf := mem_store (buf pm') (unat (high_water pm'))
                                    (replicate (unat (sz - high_water pm')) 0)\<rparr>
                    else pm', fs'))
      else
        (case pww_spill_transition slot pm fs of
           (Some e, pm', fs') \<Rightarrow> (Some e, pm', fs')
         | (None, pm', fs') \<Rightarrow>
             let (ok, sp, fs'') = spill_write (spill pm') sz [] fs'
             in (if ok then None else Some EIO, pm'\<lparr>spill := sp\<rparr>, fs'')))"

definition rpc_header_at :: "bytes \<Rightarrow> nat \<Rightarrow> bool" where
  "rpc_header_at p i \<longleftrightarrow>
     mem_slice p i 4 = [0, 0, 0, 0] \<and> mem_slice p (i + 4) 4 = [0, 0, 0, 2] \<and>
     mem_slice p (i + 8) 4 = [0x00, 0x01, 0x86, 0xA3]"

text \<open>The offset of the first embedded CALL header at a multiple of four.\<close>

definition pww_find_rpc_header :: "bytes \<Rightarrow> nat option" where
  "pww_find_rpc_header p =
     find (\<lambda>i. i + 16 \<le> length p \<and> rpc_header_at p i) (map (\<lambda>k. 4 * k) [0..<length p div 4])"

section \<open>What a slot holds\<close>

definition pm_content :: "pending_member_t \<Rightarrow> bytes" where
  "pm_content pm =
     take (unat (high_water pm)) (if has_spill_file_open pm then spl_file (spill pm) else buf pm)"

text \<open>
  A slot is well-formed when its bytes are in one place and reach up to the high-water mark.
  The scratch file may be longer than the mark; it is in step when it is not.
\<close>

definition pm_wf :: "pending_member_t \<Rightarrow> bool" where
  "pm_wf pm \<longleftrightarrow>
     (if has_spill_file_open pm
      then spill_wf (spill pm) \<and> unat (high_water pm) \<le> unat (spl_size (spill pm))
      else unat (high_water pm) \<le> length (buf pm) \<and> length (buf pm) \<le> PWW_SPILL_THRESHOLD)"

definition pm_in_step :: "pending_member_t \<Rightarrow> bool" where
  "pm_in_step pm \<longleftrightarrow> has_spill_file_open pm \<longrightarrow>
     spl_size (spill pm) = high_water pm \<and> spill_clean (spill pm)"

lemma pm_wf_length: "pm_wf pm \<Longrightarrow> length (pm_content pm) = unat (high_water pm)"
  by (auto simp: pm_wf_def pm_content_def spill_wf_def)

lemma pm_wf_max: "pm_wf pm \<Longrightarrow> unat (high_water pm) \<le> SPILL_MAX"
  by (auto simp: pm_wf_def spill_wf_def PWW_SPILL_THRESHOLD_def SPILL_MAX_def split: if_splits)

lemma grow_cap_ge: "0 < c \<Longrightarrow> need \<le> grow_cap c need \<and> c \<le> grow_cap c need"
proof (induction c need rule: grow_cap.induct)
  case (1 c need)
  show ?case
  proof (cases "c < need")
    case True
    then have "need \<le> grow_cap (2 * c) need \<and> 2 * c \<le> grow_cap (2 * c) need"
      using 1 by simp
    then show ?thesis using True 1(2) by (subst (1 2) grow_cap.simps) simp
  qed (subst (1 2) grow_cap.simps, simp)
qed

lemma ensure_cap_ok:
  assumes "need \<le> PWW_SPILL_THRESHOLD" and "length (buf pm) \<le> PWW_SPILL_THRESHOLD"
  obtains b where "pww_slot_ensure_cap junk pm need [] = (None, pm\<lparr>buf := buf pm @ b\<rparr>, [])"
    and "need \<le> length (buf pm @ b)" and "length (buf pm @ b) \<le> PWW_SPILL_THRESHOLD"
proof (cases "need \<le> length (buf pm)")
  case True
  then show ?thesis using that [of "[]"] assms by (simp add: pww_slot_ensure_cap_def)
next
  case False
  let ?c = "if length (buf pm) \<noteq> 0 then length (buf pm) else 4096"
  let ?n = "min PWW_SPILL_THRESHOLD (grow_cap ?c need)"
  have g: "need \<le> grow_cap ?c need" "?c \<le> grow_cap ?c need" using grow_cap_ge [of ?c need] by simp_all
  then have "need \<le> ?n" "length (buf pm) \<le> ?n" using assms False by auto
  then show ?thesis
    using that [of "replicate (?n - length (buf pm)) junk"] False assms
    by (simp add: pww_slot_ensure_cap_def)
qed


section \<open>The slot refines a byte string\<close>

text \<open>In memory: the gap behind the mark is filled with zeros, then the data is laid over.\<close>

lemma mem_splice:
  assumes "hw \<le> length b" and "off + length d \<le> length b" and "hw \<le> n" and "n \<le> length b"
    and "n = max hw (off + length d)"
  shows "take n (mem_store (if hw < off then mem_store b hw (replicate (off - hw) 0) else b) off d)
         = splice (take hw b) off d"
proof (rule nth_equalityI)
  show "length (take n (mem_store (if hw < off then mem_store b hw (replicate (off - hw) 0) else b) off d))
        = length (splice (take hw b) off d)"
    using assms by (simp add: length_splice)
next
  fix i
  assume "i < length (take n (mem_store (if hw < off then mem_store b hw (replicate (off - hw) 0) else b) off d))"
  then have i: "i < n" using assms(4) by simp
  then have "i < length (splice (take hw b) off d)" using assms by (simp add: length_splice)
  then show "take n (mem_store (if hw < off then mem_store b hw (replicate (off - hw) 0) else b) off d) ! i
        = splice (take hw b) off d ! i"
    using assms i by (auto simp: nth_splice nth_mem_store)
qed

lemma splice_take:
  assumes "k \<le> length c" and "off \<le> k"
  shows "take (max k (off + length d)) (splice c off d) = splice (take k c) off d"
  using assms by (intro nth_equalityI) (auto simp: length_splice nth_splice)

lemma spill_open_f_ok:
  "\<not> spl_open sp \<Longrightarrow> spill_open_f n sp [] =
     (True, \<lparr>spl_open = True, spl_size = 0, spl_slot = n, spl_dirty = False, spl_file = []\<rparr>, [])"
  by (simp add: spill_open_f_def)

lemma spill_transition_ok:
  assumes "\<not> spl_open sp" and "length d \<le> SPILL_MAX"
  obtains sp' where "spill_transition sp n d [] = (True, sp', [])" and "spill_wf sp'"
    and "spill_content sp' = d" and "unat (spl_size sp') = length d" and "spill_clean sp'"
proof -
  let ?e = "\<lparr>spl_open = True, spl_size = 0, spl_slot = n, spl_dirty = False, spl_file = []\<rparr>"
  have wf: "spill_wf ?e" and cl: "spill_clean ?e" and c: "spill_content ?e = []"
    by (auto simp: spill_wf_def spill_clean_def spill_content_def spill_blocks_def SPILL_BLK_def)
  show ?thesis
  proof (cases "d = []")
    case True
    then show ?thesis using that [of ?e] wf cl c assms
      by (simp add: spill_transition_def spill_open_f_ok)
  next
    case False
    obtain sp' where "spill_write ?e 0 d [] = (True, sp', [])" "spill_wf sp'"
      "spill_content sp' = splice (spill_content ?e) (unat (0 :: u32)) d"
      "unat (spl_size sp') = max (unat (spl_size ?e)) (unat (0 :: u32) + length d)"
      "spill_clean ?e \<Longrightarrow> spill_clean sp'"
      using spill_write_refines [OF wf, of 0 d] assms cl by auto
    then show ?thesis using that [of sp'] False cl c assms
      by (simp add: spill_transition_def spill_open_f_ok splice_def)
  qed
qed


lemma unat_of_len: "length d \<le> SPILL_MAX \<Longrightarrow> unat (of_nat (length d) :: u64) = length d"
  by (simp add: unat_of_nat SPILL_MAX_def)

lemma unat_end_off:
  assumes "unat (off :: u64) + length d \<le> SPILL_MAX"
  shows "unat (off + of_nat (length d)) = unat off + length d"
  using assms by (simp add: unat_add_lem [THEN iffD1] unat_of_len SPILL_MAX_def)

lemma unat_down:
  assumes "unat (x :: u64) \<le> SPILL_MAX"
  shows "unat (ucast x :: u32) = unat x"
  using assms by (simp add: unsigned_ucast_eq take_bit_nat_eq_self SPILL_MAX_def)

lemma unat_up: "unat (ucast (x :: u32) :: u64) = unat x"
  using unsigned_less [where 'a = nat, of x] by (simp add: unsigned_ucast_eq take_bit_nat_eq_self)

lemma raise_mark:
  fixes pm :: pending_member_t
  assumes "unat (e :: u64) \<le> SPILL_MAX"
  defines "pm' \<equiv> (if ucast (high_water pm) < e then pm\<lparr>high_water := ucast e\<rparr> else pm)"
  shows "unat (high_water pm') = max (unat (high_water pm)) (unat e)"
    and "buf pm' = buf pm" and "spill pm' = spill pm" and "has_spill_file_open pm' = has_spill_file_open pm"
  using assms by (auto simp: word_less_nat_alt unat_up unat_down has_spill_file_open_def)

text \<open>The two halves of a store: in memory, and in the scratch file.\<close>

lemma store_in_memory:
  assumes wf: "pm_wf pm" and m: "\<not> has_spill_file_open pm"
    and e: "unat off + length d \<le> PWW_SPILL_THRESHOLD"
  obtains pm' where "pww_store_range junk slot pm off d [] = (None, pm', [])" and "pm_wf pm'"
    and "pm_content pm' = splice (pm_content pm) (unat off) d"
    and "unat (high_water pm') = max (unat (high_water pm)) (unat off + length d)"
    and "\<not> has_spill_file_open pm'"
proof -
  have e': "unat off + length d \<le> SPILL_MAX" using e by (simp add: PWW_SPILL_THRESHOLD_def SPILL_MAX_def)
  note ue = unat_end_off [OF e']
  have hl: "unat (high_water pm) \<le> length (buf pm)" "length (buf pm) \<le> PWW_SPILL_THRESHOLD"
    using wf m by (auto simp: pm_wf_def)
  obtain b where b: "pww_slot_ensure_cap junk pm (unat off + length d) [] = (None, pm\<lparr>buf := buf pm @ b\<rparr>, [])"
    and l: "unat off + length d \<le> length (buf pm @ b)" "length (buf pm @ b) \<le> PWW_SPILL_THRESHOLD"
    using ensure_cap_ok [OF e hl(2)] by blast
  let ?B = "buf pm @ b" and ?h = "unat (high_water pm)" and ?o = "unat off"
  let ?M = "mem_store (if ?h < ?o then mem_store ?B ?h (replicate (?o - ?h) 0) else ?B) ?o d"
  let ?p = "pm\<lparr>buf := ?M\<rparr>"
  let ?q = "if ucast (high_water ?p) < off + of_nat (length d)
            then ?p\<lparr>high_water := ucast (off + of_nat (length d))\<rparr> else ?p"
  have th: "off + of_nat (length d) \<le> of_nat PWW_SPILL_THRESHOLD"
    using e by (simp add: word_le_nat_alt ue PWW_SPILL_THRESHOLD_def)
  note rm = raise_mark [of "off + of_nat (length d)" ?p, unfolded ue, OF e']
  have run: "pww_store_range junk slot pm off d [] = (None, ?q, [])"
    using m th b by (simp add: pww_store_range_def ue Let_def)
  have op: "\<not> has_spill_file_open ?q" using rm(4) m by (simp add: has_spill_file_open_def)
  have hw: "unat (high_water ?q) = max ?h (?o + length d)" using rm(1) by simp
  have bq: "buf ?q = ?M" using rm(2) by simp
  have lM: "length ?M = length ?B" by simp
  have "pm_content ?q = take (max ?h (?o + length d)) ?M" using op by (simp only: pm_content_def hw bq if_False)
  also have "\<dots> = splice (take ?h ?B) ?o d" using hl l by (intro mem_splice) auto
  also have "take ?h ?B = pm_content pm" using m hl by (simp add: pm_content_def)
  finally have ct: "pm_content ?q = splice (pm_content pm) ?o d" .
  have "pm_wf ?q" unfolding pm_wf_def using op hw bq lM l hl by (simp only: if_False) simp
  then show ?thesis using that [OF run _ ct hw op] by blast
qed

lemma store_in_file:
  assumes wf: "pm_wf pm" and m: "has_spill_file_open pm"
    and e: "unat off + length d \<le> SPILL_MAX"
    and gap: "unat off \<le> unat (high_water pm) \<or> pm_in_step pm"
  obtains pm' where "pww_store_range junk slot pm off d [] = (None, pm', [])" and "pm_wf pm'"
    and "pm_content pm' = splice (pm_content pm) (unat off) d"
    and "unat (high_water pm') = max (unat (high_water pm)) (unat off + length d)"
    and "pm_in_step pm \<Longrightarrow> pm_in_step pm'"
proof -
  note ue = unat_end_off [OF e]
  have uo: "unat (ucast off :: u32) = unat off" using e by (intro unat_down) simp
  have sw: "spill_wf (spill pm)" and hs: "unat (high_water pm) \<le> unat (spl_size (spill pm))"
    using wf m by (auto simp: pm_wf_def)
  have g: "unat (ucast off :: u32) \<le> unat (spl_size (spill pm)) \<or> spill_clean (spill pm)"
    using gap m hs by (auto simp: uo pm_in_step_def)
  obtain sp' where sp': "spill_write (spill pm) (ucast off) d [] = (True, sp', [])" "spill_wf sp'"
    "spill_content sp' = splice (spill_content (spill pm)) (unat off) d"
    "unat (spl_size sp') = max (unat (spl_size (spill pm))) (unat off + length d)"
    "spill_clean (spill pm) \<Longrightarrow> spill_clean sp'"
    using spill_write_refines [OF sw _ g, of d] e by (auto simp: uo)
  let ?p = "pm\<lparr>spill := sp'\<rparr>"
  let ?q = "if ucast (high_water ?p) < off + of_nat (length d)
            then ?p\<lparr>high_water := ucast (off + of_nat (length d))\<rparr> else ?p"
  note rm = raise_mark [of "off + of_nat (length d)" ?p, unfolded ue, OF e]
  have run: "pww_store_range junk slot pm off d [] = (None, ?q, [])"
    using m sp'(1) by (simp add: pww_store_range_def Let_def)
  have op: "has_spill_file_open ?q" using rm(4) sp'(2) by (simp add: has_spill_file_open_def spill_wf_def)
  have hw: "unat (high_water ?q) = max (unat (high_water pm)) (unat off + length d)" using rm(1) by simp
  have sq: "spill ?q = sp'" using rm(3) by simp
  have in_file: "take (unat (high_water x)) (spl_file (spill x)) = take (unat (high_water x)) (spill_content (spill x))"
    if "unat (high_water x) \<le> unat (spl_size (spill x))" for x
    using that by (simp add: spill_content_def min_absorb1)
  have hq: "unat (high_water ?q) \<le> unat (spl_size (spill ?q))" using hw sq sp'(4) hs by simp
  have lc: "length (spill_content (spill pm)) = unat (spl_size (spill pm))"
    using sw by (simp add: spill_content_def spill_wf_def)
  have "pm_content ?q = take (max (unat (high_water pm)) (unat off + length d)) (splice (spill_content (spill pm)) (unat off) d)"
    using op in_file [OF hq] by (simp only: pm_content_def if_True hw sq sp'(3))
  also have "\<dots> = splice (take (unat (high_water pm)) (spill_content (spill pm))) (unat off) d"
  proof (cases "unat off \<le> unat (high_water pm)")
    case True
    then show ?thesis using hs lc by (intro splice_take) simp_all
  next
    case False
    then have "unat (high_water pm) = length (spill_content (spill pm))"
      using gap m lc by (simp add: pm_in_step_def)
    then show ?thesis by (simp add: length_splice)
  qed
  also have "take (unat (high_water pm)) (spill_content (spill pm)) = pm_content pm"
    using m in_file [OF hs] by (simp add: pm_content_def)
  finally have ct: "pm_content ?q = splice (pm_content pm) (unat off) d" .
  have w: "pm_wf ?q" unfolding pm_wf_def using op hq sp'(2) sq by (simp only: if_True)
  have "pm_in_step ?q" if "pm_in_step pm"
    using that m sp'(4,5) hw sq op unfolding pm_in_step_def
    by (metis (no_types, lifting) word_unat_eq_iff)
  then show ?thesis using that [OF run w ct hw] by blast
qed


text \<open>Moving a slot's bytes into the scratch file does not change them.\<close>

lemma transition_keeps:
  assumes wf: "pm_wf pm" and m: "\<not> has_spill_file_open pm"
  obtains pm' where "pww_spill_transition slot pm [] = (None, pm', [])" and "pm_wf pm'"
    and "pm_content pm' = pm_content pm" and "high_water pm' = high_water pm"
    and "has_spill_file_open pm'" and "pm_in_step pm'"
proof -
  let ?c = "take (unat (high_water pm)) (buf pm)"
  have hl: "unat (high_water pm) \<le> length (buf pm)" "length (buf pm) \<le> SPILL_MAX"
    using wf m by (auto simp: pm_wf_def PWW_SPILL_THRESHOLD_def SPILL_MAX_def)
  obtain sp where sp: "spill_transition (spill pm) slot ?c [] = (True, sp, [])" "spill_wf sp"
    "spill_content sp = ?c" "unat (spl_size sp) = length ?c" "spill_clean sp"
    using spill_transition_ok [of "spill pm" ?c slot] m hl by (auto simp: has_spill_file_open_def)
  let ?p = "pm\<lparr>spill := sp, buf := []\<rparr>"
  have sz: "spl_size sp = high_water pm" using sp(4) hl by (simp add: word_unat_eq_iff)
  have op: "has_spill_file_open ?p" using sp(2) by (simp add: has_spill_file_open_def spill_wf_def)
  show ?thesis
  proof (rule that [of ?p])
    show "pww_spill_transition slot pm [] = (None, ?p, [])" using sp(1) by (simp add: pww_spill_transition_def)
    show "pm_wf ?p" using op sp(2) sz by (simp add: pm_wf_def)
    show "pm_content ?p = pm_content pm" using op m sp(3) sz by (simp add: pm_content_def spill_content_def)
    show "pm_in_step ?p" using sz sp(5) by (simp add: pm_in_step_def)
  qed (use op in simp_all)
qed

lemma store_via_transition:
  assumes m: "\<not> has_spill_file_open pm" and t: "of_nat PWW_SPILL_THRESHOLD < off + of_nat (length d)"
    and p: "pww_spill_transition slot pm [] = (None, pm', [])" and o': "has_spill_file_open pm'"
  shows "pww_store_range junk slot pm off d [] = pww_store_range junk slot pm' off d []"
  using m t p o' by (simp add: pww_store_range_def Let_def not_le [symmetric])

lemma store_range_refines:
  assumes wf: "pm_wf pm" and e: "unat off + length d \<le> SPILL_MAX"
    and gap: "unat off \<le> unat (high_water pm) \<or> pm_in_step pm"
  obtains pm' where "pww_store_range junk slot pm off d [] = (None, pm', [])" and "pm_wf pm'"
    and "pm_content pm' = splice (pm_content pm) (unat off) d"
    and "unat (high_water pm') = max (unat (high_water pm)) (unat off + length d)"
    and "pm_in_step pm \<Longrightarrow> pm_in_step pm'"
proof (cases "has_spill_file_open pm")
  case True
  then show ?thesis using store_in_file [OF wf _ e gap] that by blast
next
  case m: False
  show ?thesis
  proof (cases "unat off + length d \<le> PWW_SPILL_THRESHOLD")
    case True
    obtain q where "pww_store_range junk slot pm off d [] = (None, q, [])" "pm_wf q"
      "pm_content q = splice (pm_content pm) (unat off) d"
      "unat (high_water q) = max (unat (high_water pm)) (unat off + length d)" "\<not> has_spill_file_open q"
      using store_in_memory [OF wf m True] by blast
    then show ?thesis using that [of q] by (simp add: pm_in_step_def)
  next
    case False
    obtain q where q: "pww_spill_transition slot pm [] = (None, q, [])" "pm_wf q"
      "pm_content q = pm_content pm" "high_water q = high_water pm" "has_spill_file_open q" "pm_in_step q"
      using transition_keeps [OF wf m] by blast
    have "of_nat PWW_SPILL_THRESHOLD < off + of_nat (length d)"
      using False by (simp add: word_less_nat_alt unat_end_off [OF e] PWW_SPILL_THRESHOLD_def)
    then have eq: "pww_store_range junk slot pm off d [] = pww_store_range junk slot q off d []"
      by (rule store_via_transition [OF m _ q(1,5)])
    show ?thesis
      unfolding eq using store_in_file [OF q(2) q(5) e] q(3,4,6) that unfolding eq by metis
  qed
qed

lemma read_range_content:
  assumes wf: "pm_wf pm" and e: "unat off + unat len \<le> unat (high_water pm)"
  obtains pm' where "pww_read_range pm off len [] = (Some (mem_slice (pm_content pm) (unat off) (unat len)), pm', [])"
    and "pm_wf pm'" and "pm_content pm' = pm_content pm" and "high_water pm' = high_water pm"
    and "pm_in_step pm \<Longrightarrow> pm_in_step pm'"
proof -
  have cut: "mem_slice (take h f) (unat off) (unat len) = mem_slice f (unat off) (unat len)"
    if "unat off + unat len \<le> h" for h :: nat and f
    using that by (simp add: mem_slice_def take_drop min_absorb1)
  consider
      (none) "len = 0"
    | (in_mem) "len \<noteq> 0" "\<not> has_spill_file_open pm" 
    | (in_file) "len \<noteq> 0" "has_spill_file_open pm"
    by blast
  then show ?thesis
  proof cases
    case none
    then show ?thesis using that [of pm] wf by (simp add: pww_read_range_def mem_slice_def)
  next
    case in_mem
    then show ?thesis using that [of pm] wf cut [OF e] by (simp add: pww_read_range_def pm_content_def)
  next
    case in_file
    let ?p = "pm\<lparr>spill := spill pm\<lparr>spl_dirty := False\<rparr>\<rparr>"
    have fl: "unat off + unat len \<le> length (spl_file (spill pm))"
      using wf e in_file(2) by (auto simp: pm_wf_def spill_wf_def)
    show ?thesis
    proof (rule that [of ?p])
      show "pww_read_range pm off len [] = (Some (mem_slice (pm_content pm) (unat off) (unat len)), ?p, [])"
        using in_file fl cut [OF e] by (simp add: pww_read_range_def pm_content_def spill_read_def spill_sync_ok Let_def)
    qed (use wf in \<open>auto simp: pm_wf_def pm_content_def pm_in_step_def has_spill_file_open_def spill_wf_def spill_clean_def\<close>)
  qed
qed


text \<open>Changing the size: cut off, or filled up with zeros.\<close>

definition resize_bytes :: "bytes \<Rightarrow> nat \<Rightarrow> bytes" where
  "resize_bytes c n = take n c @ replicate (n - length c) 0"

lemma splice_grow: "length c \<le> n \<Longrightarrow> splice c n [] = resize_bytes c n"
  by (simp add: splice_def resize_bytes_def)

lemma resize_take: "n \<le> length c \<Longrightarrow> resize_bytes c n = take n c"
  by (simp add: resize_bytes_def)

lemma resize_in_memory:
  assumes wf: "pm_wf pm" and m: "\<not> has_spill_file_open pm" and z: "unat sz \<le> PWW_SPILL_THRESHOLD"
  obtains pm' where "pww_resize junk slot pm sz [] = (None, pm', [])" and "pm_wf (pm'\<lparr>high_water := sz\<rparr>)"
    and "pm_content (pm'\<lparr>high_water := sz\<rparr>) = resize_bytes (pm_content pm) (unat sz)"
    and "\<not> has_spill_file_open pm'"
proof -
  let ?h = "unat (high_water pm)" and ?z = "unat sz"
  have hl: "?h \<le> length (buf pm)" "length (buf pm) \<le> PWW_SPILL_THRESHOLD"
    using wf m by (auto simp: pm_wf_def)
  obtain b where b: "(if length (buf pm) < ?z then pww_slot_ensure_cap junk pm ?z [] else (None, pm, []))
        = (None, pm\<lparr>buf := buf pm @ b\<rparr>, [])"
    and l: "?z \<le> length (buf pm @ b)" "length (buf pm @ b) \<le> PWW_SPILL_THRESHOLD"
  proof (cases "length (buf pm) < ?z")
    case True
    obtain b where "pww_slot_ensure_cap junk pm ?z [] = (None, pm\<lparr>buf := buf pm @ b\<rparr>, [])"
      "?z \<le> length (buf pm @ b)" "length (buf pm @ b) \<le> PWW_SPILL_THRESHOLD"
      using ensure_cap_ok [OF z hl(2)] by blast
    then show ?thesis using that [of b] True by simp
  next
    case False
    then show ?thesis using that [of "[]"] hl by simp
  qed
  let ?M = "if ?h < ?z then mem_store (buf pm @ b) ?h (replicate (?z - ?h) 0) else buf pm @ b"
  let ?p = "pm\<lparr>buf := ?M\<rparr>"
  have d: "high_water pm < sz \<Longrightarrow> unat (sz - high_water pm) = ?z - ?h"
    by (simp add: unat_sub)
  have run: "pww_resize junk slot pm sz [] = (None, ?p, [])"
    using m z b d by (auto simp: pww_resize_def word_less_nat_alt)
  have "take ?z ?M = resize_bytes (take ?h (buf pm)) ?z"
    using hl l by (intro nth_equalityI) (auto simp: resize_bytes_def nth_append nth_mem_store)
  then have "pm_content (?p\<lparr>high_water := sz\<rparr>) = resize_bytes (pm_content pm) ?z"
    using m by (simp add: pm_content_def has_spill_file_open_def)
  moreover have "pm_wf (?p\<lparr>high_water := sz\<rparr>)" using m l by (simp add: pm_wf_def has_spill_file_open_def)
  ultimately show ?thesis using that [OF run] m by (simp add: has_spill_file_open_def)
qed

lemma spill_wf_shrink:
  assumes "spill_wf sp" and "sz \<le> spl_size sp"
  shows "spill_wf (sp\<lparr>spl_size := sz\<rparr>)"
proof -
  have u: "unat sz \<le> unat (spl_size sp)" using assms(2) by (simp add: word_le_nat_alt)
  have m: "unat (spl_size sp) \<le> SPILL_MAX" using assms(1) by (simp add: spill_wf_def)
  have "spill_blocks sz \<le> spill_blocks (spl_size sp)"
    using u m by (simp add: spill_blocks_nat div_le_mono)
  then have "spill_blocks sz * SPILL_BLK \<le> spill_blocks (spl_size sp) * SPILL_BLK" by (rule mult_le_mono1)
  then have "spill_blocks sz * SPILL_BLK \<le> length (spl_file sp)"
    using assms(1) unfolding spill_wf_def by linarith
  then show ?thesis using assms(1) u m by (simp add: spill_wf_def)
qed

lemma file_grow:
  assumes wf: "pm_wf pm" and m: "has_spill_file_open pm" and z: "unat sz \<le> SPILL_MAX"
    and st: "pm_in_step pm" and g: "high_water pm \<le> sz"
  obtains sp where "spill_write (spill pm) sz [] [] = (True, sp, [])"
    and "pm_wf (pm\<lparr>spill := sp, high_water := sz\<rparr>)"
    and "pm_content (pm\<lparr>spill := sp, high_water := sz\<rparr>) = resize_bytes (pm_content pm) (unat sz)"
    and "pm_in_step (pm\<lparr>spill := sp, high_water := sz\<rparr>)"
proof -
  have sw: "spill_wf (spill pm)" and cl: "spill_clean (spill pm)" and sz: "spl_size (spill pm) = high_water pm"
    using wf m st by (auto simp: pm_wf_def pm_in_step_def)
  obtain sp where sp: "spill_write (spill pm) sz [] [] = (True, sp, [])" "spill_wf sp"
    "spill_content sp = splice (spill_content (spill pm)) (unat sz) []"
    "unat (spl_size sp) = max (unat (spl_size (spill pm))) (unat sz + length ([] :: bytes))" "spill_clean sp"
    using spill_write_refines [OF sw, of sz "[]"] z cl by auto
  have ssz: "spl_size sp = sz" using sp(4) g sz by (simp add: word_unat_eq_iff word_le_nat_alt)
  have op: "spl_open sp" using sp(2) by (simp add: spill_wf_def)
  have c: "pm_content pm = spill_content (spill pm)" using m sz by (simp add: pm_content_def spill_content_def)
  have "length (spill_content (spill pm)) \<le> unat sz"
    using sw sz g by (simp add: spill_content_def spill_wf_def word_le_nat_alt)
  then have "take (unat sz) (spl_file sp) = resize_bytes (pm_content pm) (unat sz)"
    using sp(3) ssz c by (simp add: splice_grow spill_content_def)
  then show ?thesis using that [OF sp(1)] sp(2,5) ssz op
    by (simp add: pm_wf_def pm_content_def pm_in_step_def has_spill_file_open_def)
qed

lemma resize_content:
  assumes wf: "pm_wf pm" and z: "unat sz \<le> SPILL_MAX" and g: "sz \<le> high_water pm \<or> pm_in_step pm"
  obtains pm' where "pww_resize junk slot pm sz [] = (None, pm', [])" and "pm_wf (pm'\<lparr>high_water := sz\<rparr>)"
    and "pm_content (pm'\<lparr>high_water := sz\<rparr>) = resize_bytes (pm_content pm) (unat sz)"
    and "pm_in_step pm \<Longrightarrow> high_water pm \<le> sz \<Longrightarrow> pm_in_step (pm'\<lparr>high_water := sz\<rparr>)"
proof (cases "has_spill_file_open pm")
  case m: True
  show ?thesis
  proof (cases "spl_size (spill pm) < sz")
    case True
    have hs: "high_water pm \<le> spl_size (spill pm)" using wf m by (simp add: pm_wf_def word_le_nat_alt)
    then have st: "pm_in_step pm" and le: "high_water pm \<le> sz" using True g by auto
    obtain sp where "spill_write (spill pm) sz [] [] = (True, sp, [])"
      "pm_wf (pm\<lparr>spill := sp, high_water := sz\<rparr>)"
      "pm_content (pm\<lparr>spill := sp, high_water := sz\<rparr>) = resize_bytes (pm_content pm) (unat sz)"
      "pm_in_step (pm\<lparr>spill := sp, high_water := sz\<rparr>)"
      using file_grow [OF wf m z st le] by blast
    then show ?thesis using that [of "pm\<lparr>spill := sp\<rparr>"] m True
      by (simp add: pww_resize_def spill_truncate_def)
  next
    case False
    let ?p = "pm\<lparr>spill := (spill pm)\<lparr>spl_size := sz\<rparr>\<rparr>"
    have sw: "spill_wf (spill pm)" using wf m by (simp add: pm_wf_def)
    have le: "sz \<le> high_water pm" using g m False by (auto simp: pm_in_step_def)
    have w: "spill_wf ((spill pm)\<lparr>spl_size := sz\<rparr>)" using sw False by (auto simp: spill_wf_shrink not_less)
    have lc: "unat sz \<le> length (pm_content pm)" using le wf by (simp add: pm_wf_length word_le_nat_alt)
    have run: "pww_resize junk slot pm sz [] = (None, ?p, [])"
      using m False by (simp add: pww_resize_def spill_truncate_def)
    show ?thesis
    proof (rule that [OF run])
      show "pm_wf (?p\<lparr>high_water := sz\<rparr>)" using w m by (simp add: pm_wf_def has_spill_file_open_def)
      show "pm_content (?p\<lparr>high_water := sz\<rparr>) = resize_bytes (pm_content pm) (unat sz)"
        using m lc le by (simp add: resize_take pm_content_def has_spill_file_open_def min_absorb1 word_le_nat_alt)
      show "pm_in_step (?p\<lparr>high_water := sz\<rparr>)" if "pm_in_step pm" "high_water pm \<le> sz"
        using that le m by (auto simp: pm_in_step_def has_spill_file_open_def spill_clean_def)
    qed
  qed
next
  case m: False
  show ?thesis
  proof (cases "unat sz \<le> PWW_SPILL_THRESHOLD")
    case True
    obtain q where "pww_resize junk slot pm sz [] = (None, q, [])" "pm_wf (q\<lparr>high_water := sz\<rparr>)"
      "pm_content (q\<lparr>high_water := sz\<rparr>) = resize_bytes (pm_content pm) (unat sz)" "\<not> has_spill_file_open q"
      using resize_in_memory [OF wf m True] by blast
    then show ?thesis using that [of q] by (simp add: pm_in_step_def has_spill_file_open_def)
  next
    case False
    obtain q where q: "pww_spill_transition slot pm [] = (None, q, [])" "pm_wf q"
      "pm_content q = pm_content pm" "high_water q = high_water pm" "has_spill_file_open q" "pm_in_step q"
      using transition_keeps [OF wf m] by blast
    have "unat (high_water pm) \<le> PWW_SPILL_THRESHOLD" using wf m by (auto simp: pm_wf_def)
    then have "high_water q \<le> sz" using False q(4) by (simp add: word_le_nat_alt)
    then obtain sp where "spill_write (spill q) sz [] [] = (True, sp, [])"
      "pm_wf (q\<lparr>spill := sp, high_water := sz\<rparr>)"
      "pm_content (q\<lparr>spill := sp, high_water := sz\<rparr>) = resize_bytes (pm_content q) (unat sz)"
      "pm_in_step (q\<lparr>spill := sp, high_water := sz\<rparr>)"
      using file_grow [OF q(2,5) z q(6)] by blast
    then show ?thesis using that [of "q\<lparr>spill := sp\<rparr>"] m False q(1,3) by (simp add: pww_resize_def)
  qed
qed

section \<open>What the storage operations leave alone\<close>

text \<open>Only the bytes, the mark and the scratch file of a slot change.\<close>

definition same_slot :: "pending_member_t \<Rightarrow> pending_member_t \<Rightarrow> bool" where
  "same_slot pm pm' \<longleftrightarrow>
     pm' = pm\<lparr>buf := buf pm', high_water := high_water pm', spill := spill pm'\<rparr>"

lemma same_slot_refl [simp]: "same_slot pm pm" by (simp add: same_slot_def)

lemma same_slotI [simp]:
  "same_slot pm (pm\<lparr>buf := b\<rparr>)" "same_slot pm (pm\<lparr>spill := s\<rparr>)" "same_slot pm (pm\<lparr>high_water := h\<rparr>)"
  by (simp_all add: same_slot_def)

lemma same_slot_trans: "same_slot a b \<Longrightarrow> same_slot b c \<Longrightarrow> same_slot a c"
  unfolding same_slot_def by (cases a, cases b, cases c) simp

lemma same_slot_fields:
  assumes "same_slot pm pm'"
  shows "used pm' = used pm" "pm_export pm' = pm_export pm" "pm_dataset pm' = pm_dataset pm"
    "pm_dsname pm' = pm_dsname pm" "pm_member pm' = pm_member pm" "dirty pm' = dirty pm"
    "last_write_time pm' = last_write_time pm" "enq_held pm' = enq_held pm"
    "allocated pm' = allocated pm" "ddname pm' = ddname pm" "blkcalc pm' = blkcalc pm"
  using assms unfolding same_slot_def by (cases pm, cases pm', simp)+

lemma read_range_same: "pww_read_range pm off len fs = (r, pm', fs') \<Longrightarrow> same_slot pm pm'"
  by (auto simp: pww_read_range_def split: if_splits prod.splits)

lemma ensure_cap_same: "pww_slot_ensure_cap junk pm need fs = (r, pm', fs') \<Longrightarrow> same_slot pm pm'"
  by (auto simp: pww_slot_ensure_cap_def Let_def split: if_splits prod.splits)

lemma transition_same: "pww_spill_transition slot pm fs = (r, pm', fs') \<Longrightarrow> same_slot pm pm'"
  by (auto simp: pww_spill_transition_def Let_def same_slot_def split: if_splits prod.splits)

lemma same_slot_step [intro]:
  "same_slot a b \<Longrightarrow> same_slot a (b\<lparr>buf := x\<rparr>)" "same_slot a b \<Longrightarrow> same_slot a (b\<lparr>spill := y\<rparr>)"
  "same_slot a b \<Longrightarrow> same_slot a (b\<lparr>high_water := z\<rparr>)"
  by (blast intro: same_slot_trans same_slotI)+

lemma store_range_same:
  assumes "pww_store_range junk slot pm off d fs = (r, pm', fs')"
  shows "same_slot pm pm'"
proof -
  obtain e1 p1 f1 where c: "pww_slot_ensure_cap junk pm (unat (off + of_nat (length d))) fs = (e1, p1, f1)"
    by (metis surj_pair)
  obtain e2 p2 f2 where t: "(if \<not> has_spill_file_open pm then pww_spill_transition slot pm fs else (None, pm, fs)) = (e2, p2, f2)"
    by (metis surj_pair)
  obtain o3 s3 f3 where w: "spill_write (spill p2) (ucast off) d f2 = (o3, s3, f3)" by (metis surj_pair)
  have "same_slot pm p1" "same_slot pm p2"
    using ensure_cap_same [OF c] transition_same [of slot pm fs e2 p2 f2] t by (auto split: if_splits)
  then show ?thesis
    using assms unfolding pww_store_range_def Let_def c t
    by (cases e1; cases e2) (auto simp: w split: if_splits)
qed

lemma resize_same:
  assumes "pww_resize junk slot pm sz fs = (r, pm', fs')"
  shows "same_slot pm pm'"
proof -
  obtain e1 p1 f1 where c: "(if length (buf pm) < unat sz then pww_slot_ensure_cap junk pm (unat sz) fs else (None, pm, fs)) = (e1, p1, f1)"
    by (metis surj_pair)
  obtain e2 p2 f2 where t: "pww_spill_transition slot pm fs = (e2, p2, f2)" by (metis surj_pair)
  obtain o3 s3 f3 where w: "spill_write (spill p2) sz [] f2 = (o3, s3, f3)" by (metis surj_pair)
  have "same_slot pm p1" "same_slot pm p2"
    using ensure_cap_same [of junk pm "unat sz" fs e1 p1 f1] c transition_same [OF t] by (auto split: if_splits)
  then show ?thesis
    using assms unfolding pww_resize_def Let_def c t
    by (cases e1; cases e2; cases "spill_truncate (spill pm) sz fs") (auto simp: w split: if_splits)
qed


section \<open>Properties\<close>

lemma slice_of_splice: "mem_slice (splice c off d) off (length d) = d"
  by (simp add: mem_slice_def splice_def)

text \<open>
  C11. A write to a pending member refines the byte-string update, in memory, in the scratch
  file and across the switch from one to the other: without an I/O failure it succeeds, the
  slot stays well-formed, its content is the old content with the data laid over it at the
  offset (a gap filled with zeros), the other fields of the slot stay, and reading the range
  back gives the data. Behind the end of the content the scratch file must not be longer
  than the high-water mark.
\<close>
theorem pww_store_range_content:
  assumes "pm_wf pm" and "unat off + length d \<le> PWW_MAX_MEMBER_BYTES"
    and "unat off \<le> unat (high_water pm) \<or> pm_in_step pm"
  shows "\<exists>pm' pm''. pww_store_range junk slot pm off d [] = (None, pm', []) \<and> pm_wf pm' \<and>
    pm_content pm' = splice (pm_content pm) (unat off) d \<and> same_slot pm pm' \<and>
    pww_read_range pm' (ucast off) (of_nat (length d)) [] = (Some d, pm'', [])"
proof -
  have e: "unat off + length d \<le> SPILL_MAX" using assms(2) by (simp add: PWW_MAX_MEMBER_BYTES_def SPILL_MAX_def)
  obtain pm' where p: "pww_store_range junk slot pm off d [] = (None, pm', [])" "pm_wf pm'"
    "pm_content pm' = splice (pm_content pm) (unat off) d"
    "unat (high_water pm') = max (unat (high_water pm)) (unat off + length d)"
    using store_range_refines [OF assms(1) e assms(3)] by blast
  have u: "unat (ucast off :: u32) = unat off" "unat (of_nat (length d) :: u32) = length d"
    using e by (auto simp: unat_down unat_of_nat SPILL_MAX_def)
  then obtain pm'' where "pww_read_range pm' (ucast off) (of_nat (length d)) [] =
      (Some (mem_slice (pm_content pm') (unat off) (length d)), pm'', [])"
    using read_range_content [OF p(2), of "ucast off" "of_nat (length d)"] p(4) by auto
  then show ?thesis using p store_range_same [OF p(1)] by (simp add: slice_of_splice)
qed

theorem pww_store_range_content_witness:
  "\<exists>pm' pm''. pww_store_range 0xFF 0 pending_zero 2 [0x41, 0x0A] [] = (None, pm', []) \<and> pm_wf pm' \<and>
    pm_content pm' = [0, 0, 0x41, 0x0A] \<and> same_slot pending_zero pm' \<and>
    pww_read_range pm' 2 2 [] = (Some [0x41, 0x0A], pm'', [])"
proof -
  have "pm_wf pending_zero" "pm_in_step pending_zero"
    by (simp_all add: pm_wf_def pm_in_step_def pending_zero_def has_spill_file_open_def spill_zero_def)
  moreover have "splice (pm_content pending_zero) 2 [0x41, 0x0A] = [0, 0, 0x41, 0x0A]"
    by (simp add: pm_content_def splice_def pending_zero_def has_spill_file_open_def spill_zero_def numeral_2_eq_2)
  ultimately show ?thesis
    using pww_store_range_content [of pending_zero 2 "[0x41, 0x0A]" "0xFF" 0]
    by (simp add: PWW_MAX_MEMBER_BYTES_def)
qed

end
