(* ===== verification/Admit.thy ===== *)
theory Admit
  imports Pending
begin

text \<open>
  Admission of a write, the second half of \<^verbatim>\<open>src/src/mvsblkc.c\<close>: before bytes are stored in a
  slot the blocks the member would need are counted, incrementally when the write continues
  the part already counted and by a scan of the stored bytes otherwise, and the members
  pending for the same dataset are laid out one behind the other on the space the volume
  table of contents reports. That table is a parameter: for a dataset name, the return code
  of the reading routine and the block it filled in.
\<close>

section \<open>The model\<close>

type_synonym vtoc_t = "bytes \<Rightarrow> int \<times> mvs_dscb_info_t"

definition BLKC_SCAN :: nat where "BLKC_SCAN = 4096"

text \<open>What the scan of the volume leaves in the dataset's entry, or nothing when it fails.\<close>

definition blkc_vtoc_read :: "vtoc_t \<Rightarrow> pds_dataset_t \<Rightarrow> pds_dataset_t option" where
  "blkc_vtoc_read vtoc ds =
     (let (rc, raw) = vtoc (dsname_ebcdic ds) in
      if 4 < rc \<or> raw_status raw \<noteq> MVS_DSCB_ST_OK then None
      else Some (ds\<lparr>dscb := (dscb ds)\<lparr>lstar_tt := ucast (MVS_DSCB_U16 (raw_lstar raw)),
             lstar_r := byte_at (raw_lstar raw) 2, trbal := MVS_DSCB_U16 (raw_trbal raw),
             tracks := raw_tracks raw, nextents := raw_nextents raw\<rparr>\<rparr>))"

text \<open>The counters, or nothing when a read fails, with the slot and the failure script.\<close>

function blkc_scan_stored ::
  "pending_member_t \<Rightarrow> blkcalc_info_t \<Rightarrow> nat \<Rightarrow> nat \<Rightarrow> faults
     \<Rightarrow> blkcalc_info_t option \<times> pending_member_t \<times> faults" where
  "blkc_scan_stored pm bi off hi fs =
     (if off < hi then
        (let n = min (hi - off) BLKC_SCAN in
         case pww_read_range pm (of_nat off) (of_nat n) fs of
           (None, pm', fs') \<Rightarrow> (None, pm', fs')
         | (Some d, pm', fs') \<Rightarrow> blkc_scan_stored pm' (blkcalc_add_blocks_for_data bi d) (off + n) hi fs')
      else (Some bi, pm, fs))"
  by pat_completeness auto
termination
  by (relation "measure (\<lambda>(pm, bi, off, hi, fs). hi - off)") (auto simp: BLKC_SCAN_def)

function blkc_scan_gap :: "blkcalc_info_t \<Rightarrow> nat \<Rightarrow> blkcalc_info_t" where
  "blkc_scan_gap bi left =
     (if 0 < left then
        (let c = min left BLKC_SCAN
         in blkc_scan_gap (blkcalc_add_blocks_for_data bi (replicate c 0)) (left - c))
      else bi)"
  by pat_completeness auto
termination by (relation "measure snd") (auto simp: BLKC_SCAN_def)

declare blkc_scan_stored.simps [simp del] blkc_scan_gap.simps [simp del]

definition blkc_build_trial ::
  "pending_member_t \<Rightarrow> bytes \<Rightarrow> u64 \<Rightarrow> faults
     \<Rightarrow> blkcalc_info_t option \<times> pending_member_t \<times> faults" where
  "blkc_build_trial pm data offset fs =
     (let off32 = ucast offset :: u32;
          hw = high_water pm;
          end_off = off32 + of_nat (length data)
      in if off32 = hw \<and> consumed_upto (blkcalc pm) = hw then
           (Some ((blkcalc_add_blocks_for_data (blkcalc pm) data)\<lparr>consumed_upto := end_off\<rparr>), pm, fs)
         else
           let bi = blkcalc_info_init (dcb_recfm (blkcalc pm)) (dcb_blksize (blkcalc pm))
                      (dcb_lrecl (blkcalc pm))
           in case blkc_scan_stored pm bi 0 (if off32 \<le> hw then unat off32 else unat hw) fs of
                (None, pm1, fs1) \<Rightarrow> (None, pm1, fs1)
              | (Some b1, pm1, fs1) \<Rightarrow>
                  let b2 = (if off32 \<le> hw then b1 else blkc_scan_gap b1 (unat (off32 - hw)));
                      b3 = blkcalc_add_blocks_for_data b2 data
                  in if end_off < hw then
                       (case blkc_scan_stored pm1 b3 (unat end_off) (unat hw) fs1 of
                          (None, pm2, fs2) \<Rightarrow> (None, pm2, fs2)
                        | (Some b4, pm2, fs2) \<Rightarrow> (Some (b4\<lparr>consumed_upto := hw\<rparr>), pm2, fs2))
                     else (Some (b3\<lparr>consumed_upto := end_off\<rparr>), pm1, fs1))"

text \<open>
  The other slots pending for the same dataset, laid out behind the member; nothing when one
  of them no longer fits.
\<close>

fun blkc_fit_others :: "dataset_dscb_info_t \<Rightarrow> u32 \<Rightarrow> pending_member_t list \<Rightarrow> u32 option" where
  "blkc_fit_others ds ttr [] = Some ttr"
| "blkc_fit_others ds ttr (other # others) =
     (let (fits, ttr') = blkcalc_will_member_fit (blkcalc other) ds ttr ttr
      in if fits then blkc_fit_others ds ttr' others else None)"

definition blkc_others :: "pending_member_t list \<Rightarrow> nat \<Rightarrow> pending_member_t list" where
  "blkc_others pool i =
     map (\<lambda>j. pool ! j) (filter (\<lambda>j. used (pool ! j) \<and> j \<noteq> i \<and>
       pm_dsname (pool ! j) = pm_dsname (pool ! i)) [0..<length pool])"

text \<open>The dataset entry of an export replaced.\<close>

definition export_dataset_set :: "int \<Rightarrow> int \<Rightarrow> pds_dataset_t \<Rightarrow> export_t list \<Rightarrow> export_t list" where
  "export_dataset_set e d ds es =
     es[nat e := (es ! nat e)\<lparr>datasets := (datasets (es ! nat e))[nat d := ds]\<rparr>]"

definition blkcalc_admit_write ::
  "vtoc_t \<Rightarrow> export_t list \<Rightarrow> pending_member_t list \<Rightarrow> nat \<Rightarrow> bytes \<Rightarrow> u64 \<Rightarrow> faults
     \<Rightarrow> errno_t option \<times> export_t list \<times> pending_member_t list \<times> faults" where
  "blkcalc_admit_write vtoc es pool i data offset fs =
     (let pm = pool ! i in
      case export_dataset_get es (pm_export pm) (pm_dataset pm) of
        None \<Rightarrow> (None, es, pool, fs)
      | Some ds0 \<Rightarrow>
          if \<not> valid (dscb ds0) then (None, es, pool, fs)
          else case blkc_vtoc_read vtoc ds0 of
            None \<Rightarrow> (Some EIO, es, pool, fs)
          | Some ds \<Rightarrow>
              let es1 = export_dataset_set (pm_export pm) (pm_dataset pm) ds es in
              case blkc_build_trial pm data offset fs of
                (None, pm1, fs1) \<Rightarrow> (Some EIO, es1, pool[i := pm1], fs1)
              | (Some t, pm1, fs1) \<Rightarrow>
                  let pool1 = pool[i := pm1];
                      ttr = BLKC_TTR (lstar_tt (dscb ds)) (ucast (lstar_r (dscb ds)));
                      t' = t\<lparr>last_need := blkc_need t, last_avail := blkc_blocks_available (dscb ds) ttr\<rparr>;
                      (fits, ttr1) = blkcalc_will_member_fit t' (dscb ds) ttr ttr
                  in if \<not> fits then (Some ENOSPC, es1, pool1, fs1)
                     else case blkc_fit_others (dscb ds) ttr1 (blkc_others pool1 i) of
                       None \<Rightarrow> (Some ENOSPC, es1, pool1, fs1)
                     | Some _ \<Rightarrow> (None, es1, pool1[i := pm1\<lparr>blkcalc := t'\<rparr>], fs1))"

definition blkcalc_slot_reset :: "export_t list \<Rightarrow> pending_member_t \<Rightarrow> pending_member_t" where
  "blkcalc_slot_reset es pm =
     (case export_dataset_get es (pm_export pm) (pm_dataset pm) of
        None \<Rightarrow> pm\<lparr>blkcalc := blkcalc_zero\<rparr>
      | Some ds \<Rightarrow>
          if \<not> valid (dscb ds) then pm\<lparr>blkcalc := blkcalc_zero\<rparr>
          else pm\<lparr>blkcalc := blkcalc_info_init (blkc_recfm_of (recfm (dscb ds)))
                   (uint (blksize (dscb ds))) (uint (lrecl (dscb ds)))\<rparr>)"

section \<open>Counting incrementally is counting the content\<close>

text \<open>
  The counters of a slot agree with its bytes: what was counted reaches at least to the
  high-water mark, and when it ends there it is the count of exactly the stored bytes.
\<close>

definition blkc_fresh :: "blkcalc_info_t \<Rightarrow> blkcalc_info_t" where
  "blkc_fresh bi = blkcalc_info_init (dcb_recfm bi) (dcb_blksize bi) (dcb_lrecl bi)"

definition same_count :: "blkcalc_info_t \<Rightarrow> blkcalc_info_t \<Rightarrow> bool" where
  "same_count a b \<longleftrightarrow> a = b\<lparr>consumed_upto := consumed_upto a, last_need := last_need a, last_avail := last_avail a\<rparr>"

definition counted :: "pending_member_t \<Rightarrow> bool" where
  "counted pm \<longleftrightarrow> high_water pm \<le> consumed_upto (blkcalc pm) \<and>
     (consumed_upto (blkcalc pm) = high_water pm \<longrightarrow>
        same_count (blkcalc pm) (blkcalc_add_blocks_for_data (blkc_fresh (blkcalc pm)) (pm_content pm)))"

lemma blkc_scan_gap_zeros:
  "blkc_scan_gap bi n = blkcalc_add_blocks_for_data bi (replicate n 0)"
proof (induction bi n rule: blkc_scan_gap.induct)
  case (1 bi left)
  show ?case
  proof (cases "0 < left")
    case True
    let ?c = "min left BLKC_SCAN"
    have "replicate left (0 :: u8) = replicate ?c 0 @ replicate (left - ?c) 0"
      by (simp flip: replicate_add)
    moreover have "blkc_scan_gap bi left =
        blkc_scan_gap (blkcalc_add_blocks_for_data bi (replicate ?c 0)) (left - ?c)"
      using True by (subst blkc_scan_gap.simps) (simp add: Let_def)
    ultimately show ?thesis using 1 True by (simp add: blkcalc_add_append)
  qed (subst blkc_scan_gap.simps, simp)
qed

lemma scan_stored_content:
  assumes "pm_wf pm" and "hi \<le> unat (high_water pm)" and "off \<le> hi"
  shows "\<exists>pm'. blkc_scan_stored pm bi off hi [] =
      (Some (blkcalc_add_blocks_for_data bi (mem_slice (pm_content pm) off (hi - off))), pm', []) \<and>
      pm_wf pm' \<and> pm_content pm' = pm_content pm \<and> high_water pm' = high_water pm \<and>
      (pm_in_step pm \<longrightarrow> pm_in_step pm') \<and> same_slot pm pm'"
  using assms
proof (induction pm bi off hi "[] :: faults" rule: blkc_scan_stored.induct)
  case (1 pm bi off hi)
  show ?case
  proof (cases "off < hi")
    case True
    let ?n = "min (hi - off) BLKC_SCAN"
    have hm: "unat (high_water pm) \<le> SPILL_MAX" using 1 by (simp add: pm_wf_max)
    have un: "unat (of_nat off :: u32) = off" "unat (of_nat ?n :: u32) = ?n"
      using hm 1(3,4) by (auto simp: unat_of_nat SPILL_MAX_def intro!: mod_less)
    obtain p where p: "pww_read_range pm (of_nat off) (of_nat ?n) [] =
        (Some (mem_slice (pm_content pm) off ?n), p, [])"
      "pm_wf p" "pm_content p = pm_content pm" "high_water p = high_water pm"
      "pm_in_step pm \<Longrightarrow> pm_in_step p"
      using read_range_content [OF 1(2), of "of_nat off" "of_nat ?n"] 1(3) True unfolding un by force
    have sl: "mem_slice (pm_content pm) off (hi - off) =
        mem_slice (pm_content pm) off ?n @ mem_slice (pm_content pm) (off + ?n) (hi - (off + ?n))"
      using mem_slice_append [of "pm_content pm" off ?n "hi - (off + ?n)"] True by simp
    have "\<exists>p'. blkc_scan_stored p (blkcalc_add_blocks_for_data bi (mem_slice (pm_content pm) off ?n)) (off + ?n) hi [] =
      (Some (blkcalc_add_blocks_for_data (blkcalc_add_blocks_for_data bi (mem_slice (pm_content pm) off ?n))
          (mem_slice (pm_content p) (off + ?n) (hi - (off + ?n)))), p', []) \<and>
      pm_wf p' \<and> pm_content p' = pm_content p \<and> high_water p' = high_water p \<and>
      (pm_in_step p \<longrightarrow> pm_in_step p') \<and> same_slot p p'"
      by (rule 1(1) [OF True refl p(1) [symmetric] refl refl]) (use p 1 True in auto)
    then show ?thesis
      using p True read_range_same [OF p(1)] same_slot_trans
      by (subst (1) blkc_scan_stored.simps) (auto simp: Let_def sl blkcalc_add_append)
  qed (use 1 in \<open>simp add: blkc_scan_stored.simps mem_slice_def\<close>)
qed


text \<open>The bookkeeping fields do not influence the count.\<close>

definition set_books :: "u32 \<Rightarrow> u32 \<Rightarrow> u32 \<Rightarrow> blkcalc_info_t \<Rightarrow> blkcalc_info_t" where
  "set_books c n a bi = bi\<lparr>consumed_upto := c, last_need := n, last_avail := a\<rparr>"

lemma set_books_sel [simp]:
  "dcb_recfm (set_books c n a bi) = dcb_recfm bi" "dcb_blksize (set_books c n a bi) = dcb_blksize bi"
  "dcb_lrecl (set_books c n a bi) = dcb_lrecl bi" "count_full_blocks (set_books c n a bi) = count_full_blocks bi"
  "size_last_partial_block (set_books c n a bi) = size_last_partial_block bi"
  "last_unterm_text_line_chars (set_books c n a bi) = last_unterm_text_line_chars bi"
  by (simp_all add: set_books_def)

lemma set_books_put: "blkc_put_rec_v (set_books c n a bi) k = set_books c n a (blkc_put_rec_v bi k)"
  by (simp add: blkc_put_rec_v_def set_books_def Let_def)

lemma set_books_loop: "blkc_emit_v_loop k m l (set_books c n a bi) = set_books c n a (blkc_emit_v_loop k m l bi)"
  by (induction k m l bi rule: blkc_emit_v_loop.induct) (simp_all add: set_books_put Let_def)

lemma set_books_emit: "blkc_emit_line (set_books c n a bi) l = set_books c n a (blkc_emit_line bi l)"
  by (simp add: blkc_emit_line_def blkc_emit_line_v_def set_books_loop Let_def blkc_emit_line_f_def)
     (simp add: set_books_def)

lemma set_books_scan:
  "blkcalc_scan (set_books c n a bi) r d = (set_books c n a (fst (blkcalc_scan bi r d)), snd (blkcalc_scan bi r d))"
  by (induction bi r d rule: blkcalc_scan.induct) (simp_all add: set_books_emit)

lemma set_books_add:
  "blkcalc_add_blocks_for_data (set_books c n a bi) d = set_books c n a (blkcalc_add_blocks_for_data bi d)"
  by (simp add: blkcalc_add_blocks_for_data_def set_books_scan split_def Let_def) (simp add: set_books_def)

lemma same_count_iff: "same_count x y \<longleftrightarrow> (\<exists>c n a. x = set_books c n a y)"
  by (auto simp: same_count_def set_books_def)

lemma same_count_add:
  "same_count x y \<Longrightarrow> same_count (blkcalc_add_blocks_for_data x d) (blkcalc_add_blocks_for_data y d)"
  by (metis same_count_iff set_books_add)

lemma same_count_books:
  "same_count x y \<Longrightarrow> same_count (x\<lparr>consumed_upto := c\<rparr>) y"
  "same_count x y \<Longrightarrow> same_count (x\<lparr>last_need := n, last_avail := a\<rparr>) y"
  by (cases x; cases y; simp add: same_count_def)+

lemma same_count_refl [simp]: "same_count x x" by (simp add: same_count_def)

lemma splice_pieces:
  assumes "off + length d \<le> length c"
  shows "splice c off d = mem_slice c 0 off @ d @ mem_slice c (off + length d) (length c - (off + length d))"
  using assms by (simp add: splice_def mem_slice_def)


lemma trial_consumed:
  assumes "unat offset + length d \<le> SPILL_MAX"
  shows "unat ((ucast (offset :: u64) :: u32) + of_nat (length d)) = unat offset + length d"
proof -
  have "unat (ucast offset :: u32) = unat offset" "unat (of_nat (length d) :: u32) = length d"
    using assms by (auto simp: unat_down unat_of_nat SPILL_MAX_def)
  then show ?thesis using assms by (subst unat_add_lem [THEN iffD1]) (auto simp: SPILL_MAX_def)
qed

lemma splice_gap:
  assumes "length c \<le> off"
  shows "splice c off d = mem_slice c 0 (length c) @ replicate (off - length c) 0 @ d"
  using assms by (simp add: splice_def mem_slice_def)

lemma splice_over:
  assumes "off \<le> length c" and "length c \<le> off + length d"
  shows "splice c off d = mem_slice c 0 off @ d"
  using assms by (simp add: splice_def mem_slice_def)

text \<open>What building the counters for a write promises, whichever way it goes.\<close>

definition trial_ok :: "pending_member_t \<Rightarrow> bytes \<Rightarrow> u64 \<Rightarrow> blkcalc_info_t \<Rightarrow> pending_member_t \<Rightarrow> bool" where
  "trial_ok pm d offset t pm' \<longleftrightarrow>
     same_count t (blkcalc_add_blocks_for_data (blkc_fresh (blkcalc pm)) (splice (pm_content pm) (unat offset) d)) \<and>
     unat (consumed_upto t) = max (unat (high_water pm)) (unat offset + length d) \<and>
     pm_wf pm' \<and> pm_content pm' = pm_content pm \<and> high_water pm' = high_water pm \<and>
     (pm_in_step pm \<longrightarrow> pm_in_step pm') \<and> same_slot pm pm'"

lemma trial_incremental:
  assumes wf: "pm_wf pm" and ct: "counted pm" and e: "unat offset + length d \<le> SPILL_MAX"
    and T: "(ucast offset :: u32) = high_water pm" "consumed_upto (blkcalc pm) = high_water pm"
  obtains t where "blkc_build_trial pm d offset [] = (Some t, pm, [])" and "trial_ok pm d offset t pm"
proof -
  let ?t = "(blkcalc_add_blocks_for_data (blkcalc pm) d)\<lparr>consumed_upto := ucast offset + of_nat (length d)\<rparr>"
  have uo: "unat (high_water pm) = unat offset" using e T(1) [symmetric] by (simp add: unat_down)
  then have "splice (pm_content pm) (unat offset) d = pm_content pm @ d"
    using pm_wf_length [OF wf] by (simp add: splice_def)
  moreover have "same_count (blkcalc pm) (blkcalc_add_blocks_for_data (blkc_fresh (blkcalc pm)) (pm_content pm))"
    using ct T by (simp add: counted_def)
  ultimately have "trial_ok pm d offset ?t pm"
    using wf uo trial_consumed [OF e] by (simp add: trial_ok_def blkcalc_add_append same_count_add same_count_books)
  moreover have "blkc_build_trial pm d offset [] = (Some ?t, pm, [])"
    using T by (simp add: blkc_build_trial_def Let_def)
  ultimately show ?thesis by (rule that [rotated])
qed

text \<open>The head of a full scan: the bytes before the data, the gap and the data.\<close>

definition scan_head :: "pending_member_t \<Rightarrow> bytes \<Rightarrow> u64 \<Rightarrow> bytes" where
  "scan_head pm d offset =
     take (unat offset) (pm_content pm) @ replicate (unat offset - length (pm_content pm)) 0 @ d"

lemma trial_head:
  fixes offset :: u64 and d :: bytes
  assumes wf: "pm_wf pm" and e: "unat offset + length d \<le> SPILL_MAX"
  defines "o' \<equiv> ucast offset :: u32"
  obtains pm1 b1 where "blkc_scan_stored pm bi 0 (if o' \<le> high_water pm then unat o' else unat (high_water pm)) [] = (Some b1, pm1, [])"
    and "blkcalc_add_blocks_for_data (if o' \<le> high_water pm then b1 else blkc_scan_gap b1 (unat (o' - high_water pm))) d
         = blkcalc_add_blocks_for_data bi (scan_head pm d offset)"
    and "pm_wf pm1" and "pm_content pm1 = pm_content pm" and "high_water pm1 = high_water pm"
    and "pm_in_step pm \<longrightarrow> pm_in_step pm1" and "same_slot pm pm1"
proof -
  let ?k = "if o' \<le> high_water pm then unat o' else unat (high_water pm)"
  let ?b1 = "blkcalc_add_blocks_for_data bi (mem_slice (pm_content pm) 0 (?k - 0))"
  have uo: "unat o' = unat offset" using e by (simp add: o'_def unat_down)
  have lc: "length (pm_content pm) = unat (high_water pm)" using wf by (rule pm_wf_length)
  have hb: "?k \<le> unat (high_water pm)" by (simp add: word_le_nat_alt)
  obtain pm1 where p1: "blkc_scan_stored pm bi 0 ?k [] = (Some ?b1, pm1, [])" "pm_wf pm1"
    "pm_content pm1 = pm_content pm" "high_water pm1 = high_water pm" "pm_in_step pm \<longrightarrow> pm_in_step pm1" "same_slot pm pm1"
    using scan_stored_content [OF wf hb, of 0 bi] by blast
  have "blkcalc_add_blocks_for_data (if o' \<le> high_water pm then ?b1 else blkc_scan_gap ?b1 (unat (o' - high_water pm))) d
         = blkcalc_add_blocks_for_data bi (scan_head pm d offset)"
  proof (cases "o' \<le> high_water pm")
    case True
    then have "unat offset - length (pm_content pm) = 0" using lc uo by (simp add: word_le_nat_alt)
    then have "scan_head pm d offset = mem_slice (pm_content pm) 0 (?k - 0) @ d"
      using True uo by (simp add: scan_head_def mem_slice_def)
    then show ?thesis using True by (simp add: blkcalc_add_append)
  next
    case False
    then have le: "unat (high_water pm) \<le> unat offset" and df: "unat (o' - high_water pm) = unat offset - unat (high_water pm)"
      using uo by (simp_all add: word_le_nat_alt unat_sub)
    have "scan_head pm d offset = mem_slice (pm_content pm) 0 (?k - 0) @ replicate (unat (o' - high_water pm)) 0 @ d"
      using False lc df le by (simp add: scan_head_def mem_slice_def)
    then show ?thesis using False by (simp add: blkcalc_add_append blkc_scan_gap_zeros)
  qed
  then show ?thesis using that p1 by blast
qed

lemma trial_scan:
  assumes wf: "pm_wf pm" and e: "unat offset + length d \<le> SPILL_MAX"
    and F: "\<not> ((ucast offset :: u32) = high_water pm \<and> consumed_upto (blkcalc pm) = high_water pm)"
  obtains t pm' where "blkc_build_trial pm d offset [] = (Some t, pm', [])" and "trial_ok pm d offset t pm'"
proof -
  let ?o = "ucast offset :: u32" and ?c = "pm_content pm" and ?hw = "high_water pm" and ?bi = "blkc_fresh (blkcalc pm)"
  let ?e = "?o + of_nat (length d)"
  obtain pm1 b1 where p1: "blkc_scan_stored pm ?bi 0 (if ?o \<le> ?hw then unat ?o else unat ?hw) [] = (Some b1, pm1, [])"
    and b: "blkcalc_add_blocks_for_data (if ?o \<le> ?hw then b1 else blkc_scan_gap b1 (unat (?o - ?hw))) d
         = blkcalc_add_blocks_for_data ?bi (scan_head pm d offset)"
    and p1': "pm_wf pm1" "pm_content pm1 = ?c" "high_water pm1 = ?hw" "pm_in_step pm \<longrightarrow> pm_in_step pm1" "same_slot pm pm1"
    by (rule trial_head [OF wf e])
  have ue: "unat ?e = unat offset + length d" using e by (rule trial_consumed)
  have lc: "length ?c = unat ?hw" using wf by (rule pm_wf_length)
  note run = blkc_build_trial_def Let_def blkc_fresh_def [symmetric] p1 b prod.case option.case
  show ?thesis
  proof (cases "?e < ?hw")
    case True
    then have le: "unat offset + length d \<le> unat ?hw" using ue by (simp add: word_less_nat_alt)
    let ?tl = "mem_slice ?c (unat ?e) (unat ?hw - unat ?e)"
    let ?t = "(blkcalc_add_blocks_for_data (blkcalc_add_blocks_for_data ?bi (scan_head pm d offset)) ?tl)\<lparr>consumed_upto := ?hw\<rparr>"
    obtain pm2 where p2: "blkc_scan_stored pm1 (blkcalc_add_blocks_for_data ?bi (scan_head pm d offset)) (unat ?e) (unat ?hw) [] =
        (Some (blkcalc_add_blocks_for_data (blkcalc_add_blocks_for_data ?bi (scan_head pm d offset)) ?tl), pm2, [])"
      "pm_wf pm2" "pm_content pm2 = ?c" "high_water pm2 = ?hw" "pm_in_step pm1 \<longrightarrow> pm_in_step pm2" "same_slot pm1 pm2"
      using scan_stored_content [OF p1'(1), of "unat ?hw" "unat ?e"] p1' le ue by fastforce
    have "splice ?c (unat offset) d = scan_head pm d offset @ ?tl"
      using le lc ue by (simp add: scan_head_def splice_def mem_slice_def)
    then have "trial_ok pm d offset ?t pm2"
      using p1' p2 le same_slot_trans by (auto simp: trial_ok_def blkcalc_add_append same_count_books max_absorb1)
    moreover have "blkc_build_trial pm d offset [] = (Some ?t, pm2, [])"
      unfolding run using F True p2(1) by auto
    ultimately show ?thesis by (rule that [rotated])
  next
    case False
    let ?t = "(blkcalc_add_blocks_for_data ?bi (scan_head pm d offset))\<lparr>consumed_upto := ?e\<rparr>"
    have "splice ?c (unat offset) d = scan_head pm d offset"
      using False lc ue by (simp add: scan_head_def splice_def word_less_nat_alt)
    then have "trial_ok pm d offset ?t pm1"
      using p1' ue False by (simp add: trial_ok_def same_count_books max_absorb2 word_less_nat_alt)
    moreover have "blkc_build_trial pm d offset [] = (Some ?t, pm1, [])"
      unfolding run using F False by auto
    ultimately show ?thesis by (rule that [rotated])
  qed
qed

lemma build_trial_counts:
  assumes "pm_wf pm" and "counted pm" and "unat offset + length d \<le> SPILL_MAX"
  obtains t pm' where "blkc_build_trial pm d offset [] = (Some t, pm', [])" and "trial_ok pm d offset t pm'"
  using trial_incremental [OF assms] trial_scan [OF assms(1,3)] by metis


section \<open>Layout of the pending members\<close>

text \<open>A data set that cannot take another extent, with the table entries in their ranges.\<close>

definition no_extend :: "dataset_dscb_info_t \<Rightarrow> bool" where
  "no_extend ds \<longleftrightarrow> 0 < blocks_per_track ds \<and> blocks_per_track ds \<le> 255 \<and> unat (tracks ds) \<le> 2 ^ 16 \<and>
     (sec_tracks ds = 0 \<or> BLKC_MAX_EXTENTS \<le> ucast (nextents ds))"

lemma unat_sum_le: "unat ((a :: u32) + b) \<le> unat a + unat b"
  by (simp add: unat_word_ariths)

lemma unat_prod_le: "unat ((a :: u32) * b) \<le> unat a * unat b"
  by (simp add: unat_word_ariths)

lemma unat_minus_le: "b \<le> a \<Longrightarrow> unat ((a :: u32) - b) = unat a - unat b"
  by (simp add: unat_sub)

lemma within_tracks:
  assumes ne: "no_extend ds" and tt: "BLKC_TTR_TT ttr < tracks ds" and n: "n \<le> blkc_blocks_available ds ttr"
  shows "unat n \<le> unat (blkc_track_room ds (BLKC_TTR_TT ttr) (BLKC_TTR_R ttr)) +
      (unat (tracks ds) - unat (BLKC_TTR_TT ttr) - 1) * nat (blocks_per_track ds)"
proof -
  let ?t = "BLKC_TTR_TT ttr" and ?b = "of_int (blocks_per_track ds) :: u32"
  let ?room = "blkc_track_room ds ?t (BLKC_TTR_R ttr)"
  have b: "0 < blocks_per_track ds" "blocks_per_track ds \<le> 255" using ne by (auto simp: no_extend_def)
  have av: "blkc_blocks_available ds ttr = ?room + (tracks ds - ?t - 1) * ?b"
    using available_split [OF b tt] ne by (auto simp: no_extend_def)
  have lt: "unat ?t < unat (tracks ds)" using tt by (simp add: word_less_nat_alt)
  then have "unat (tracks ds - ?t) = unat (tracks ds) - unat ?t" using tt by (simp add: unat_sub)
  moreover have "(1 :: u32) \<le> tracks ds - ?t" using lt calculation by (simp add: word_le_nat_alt)
  ultimately have u: "unat (tracks ds - ?t - 1) = unat (tracks ds) - unat ?t - 1" by (simp add: unat_sub)
  have "unat n \<le> unat (?room + (tracks ds - ?t - 1) * ?b)" using n av by (simp add: word_le_nat_alt)
  also have "\<dots> \<le> unat ?room + unat ((tracks ds - ?t - 1) * ?b)" by (rule unat_sum_le)
  also have "unat ((tracks ds - ?t - 1) * ?b) \<le> unat (tracks ds - ?t - 1) * unat ?b" by (rule unat_prod_le)
  also have "unat ?b = nat (blocks_per_track ds)" using unat_bpt [OF b] by simp
  finally show ?thesis using u by simp
qed

lemma fit_step:
  assumes ne: "no_extend ds" and ok: "ttr_ok ds (BLKC_TTR_TT ttr) (BLKC_TTR_R ttr)"
    and f: "blkcalc_will_member_fit bi ds ttr p = (True, ttr')"
  shows "ttr_ok ds (BLKC_TTR_TT ttr') (BLKC_TTR_R ttr')"
    and "unat (blkc_need bi) + unat (blkc_blocks_available ds ttr') = unat (blkc_blocks_available ds ttr)"
proof -
  have n: "blkc_need bi \<le> blkc_blocks_available ds ttr" and t: "ttr' = blkc_ttr_add ds ttr (blkc_need bi)"
    using f by (auto simp: blkcalc_will_member_fit_def Let_def split: if_splits)
  have tt: "BLKC_TTR_TT ttr < tracks ds" using ok by (simp add: ttr_ok_def)
  note c = ttr_chain [OF _ _ _ ok within_tracks [OF ne tt n], folded t]
  show "ttr_ok ds (BLKC_TTR_TT ttr') (BLKC_TTR_R ttr')" using c(1) ne by (simp add: no_extend_def)
  have "blkc_blocks_available ds ttr' = blkc_blocks_available ds ttr - blkc_need bi"
    using c(2) ne by (simp add: no_extend_def)
  then show "unat (blkc_need bi) + unat (blkc_blocks_available ds ttr') = unat (blkc_blocks_available ds ttr)"
    using n by (simp add: unat_sub word_le_nat_alt)
qed

lemma fit_others_sum:
  "no_extend ds \<Longrightarrow> ttr_ok ds (BLKC_TTR_TT ttr) (BLKC_TTR_R ttr) \<Longrightarrow> blkc_fit_others ds ttr others = Some t \<Longrightarrow>
   (\<Sum>o'\<leftarrow>others. unat (blkc_need (blkcalc o'))) \<le> unat (blkc_blocks_available ds ttr)"
proof (induction others arbitrary: ttr)
  case (Cons x xs)
  obtain t1 where f: "blkcalc_will_member_fit (blkcalc x) ds ttr ttr = (True, t1)" "blkc_fit_others ds t1 xs = Some t"
    using Cons.prems(3) by (auto split: prod.splits if_splits)
  show ?case
    using Cons.IH [OF Cons.prems(1) fit_step(1) [OF Cons.prems(1,2) f(1)] f(2)]
      fit_step(2) [OF Cons.prems(1,2) f(1)] by simp
qed simp


section \<open>Admission\<close>

lemma blkc_others_upd:
  assumes "i < length pool" and "pm_dsname p = pm_dsname (pool ! i)"
  shows "blkc_others (pool[i := p]) i = blkc_others pool i"
proof -
  have "filter (\<lambda>j. used (pool[i := p] ! j) \<and> j \<noteq> i \<and> pm_dsname (pool[i := p] ! j) = pm_dsname (pool[i := p] ! i)) [0..<length pool]
      = filter (\<lambda>j. used (pool ! j) \<and> j \<noteq> i \<and> pm_dsname (pool ! j) = pm_dsname (pool ! i)) [0..<length pool]"
    using assms by (intro filter_cong) (auto simp: nth_list_update)
  then show ?thesis by (auto simp: blkc_others_def)
qed

lemma need_books [simp]: "blkc_need (set_books c n a bi) = blkc_need bi"
proof -
  have "blkc_emit_line (set_books c n a bi) k = set_books c n a (blkc_emit_line bi k)" for k by (rule set_books_emit)
  then show ?thesis by (simp add: blkc_need_def blkcalc_total_blocks_def Let_def)
qed

lemma need_same_count: "same_count x y \<Longrightarrow> blkc_need x = blkc_need y"
  by (auto simp: same_count_iff)

lemma same_count_sym: "same_count x y \<Longrightarrow> same_count y x"
  by (cases x; cases y) (simp add: same_count_def)

text \<open>The shape of a successful admission for a data set whose space is known.\<close>

lemma admit_success:
  assumes "blkcalc_admit_write vtoc es pool i d offset fs = (None, es', pool', fs')" and "i < length pool"
    and "export_dataset_get es (pm_export (pool ! i)) (pm_dataset (pool ! i)) = Some ds0" and "valid (dscb ds0)"
  obtains ds t pm1 ttr1 t2 where "blkc_vtoc_read vtoc ds0 = Some ds"
    and "blkc_build_trial (pool ! i) d offset fs = (Some t, pm1, fs')"
    and "blkcalc_will_member_fit t (dscb ds) (BLKC_TTR (lstar_tt (dscb ds)) (ucast (lstar_r (dscb ds))))
           (BLKC_TTR (lstar_tt (dscb ds)) (ucast (lstar_r (dscb ds)))) = (True, ttr1)"
    and "blkc_fit_others (dscb ds) ttr1 (blkc_others (pool[i := pm1]) i) = Some t2"
    and "pool' = pool[i := pm1\<lparr>blkcalc := t\<lparr>last_need := blkc_need t, last_avail := blkc_blocks_available (dscb ds)
           (BLKC_TTR (lstar_tt (dscb ds)) (ucast (lstar_r (dscb ds))))\<rparr>\<rparr>]"
proof -
  have nb: "blkc_need (t\<lparr>last_need := n, last_avail := a\<rparr>) = blkc_need t" for t n a
    by (rule need_same_count) (simp add: same_count_books)
  then have fb: "blkcalc_will_member_fit (t\<lparr>last_need := n, last_avail := a\<rparr>) x y z = blkcalc_will_member_fit t x y z" for t n a x y z
    by (simp add: blkcalc_will_member_fit_def)
  show ?thesis
    using assms that
    by (auto simp: blkcalc_admit_write_def Let_def fb split: option.splits prod.splits if_splits)
qed

text \<open>
  C3. An admitted write leaves room. Whatever extents the data set may still take, the counters
  of the slot are those of the bytes the member will hold after the write, however the write
  lies over what is stored, and the blocks of the member are at most those available behind
  the last block. When the data set can take no further extent and its last-block pointer lies
  on an allocated track, the blocks of this member and of all other members pending for the
  data set together are at most the available ones.
\<close>
theorem admit_write_leaves_room:
  assumes "blkcalc_admit_write vtoc es pool i d offset [] = (None, es', pool', fs')" and "i < length pool"
    and "export_dataset_get es (pm_export (pool ! i)) (pm_dataset (pool ! i)) = Some ds0" and "valid (dscb ds0)"
    and "blkc_vtoc_read vtoc ds0 = Some ds"
    and "pm_wf (pool ! i)" and "counted (pool ! i)" and "unat offset + length d \<le> PWW_MAX_MEMBER_BYTES"
  shows "same_count (blkcalc (pool' ! i)) (blkcalc_add_blocks_for_data (blkc_fresh (blkcalc (pool ! i)))
           (splice (pm_content (pool ! i)) (unat offset) d)) \<and>
    (let free = unat (blkc_blocks_available (dscb ds) (BLKC_TTR (lstar_tt (dscb ds)) (ucast (lstar_r (dscb ds))))) in
     unat (blkc_need (blkcalc (pool' ! i))) \<le> free \<and>
     (no_extend (dscb ds) \<and> lstar_tt (dscb ds) < tracks (dscb ds) \<longrightarrow>
        unat (blkc_need (blkcalc (pool' ! i))) + (\<Sum>pm\<leftarrow>blkc_others pool' i. unat (blkc_need (blkcalc pm))) \<le> free))"
proof -
  let ?l = "BLKC_TTR (lstar_tt (dscb ds)) (ucast (lstar_r (dscb ds)))"
  have e: "unat offset + length d \<le> SPILL_MAX" using assms(8) by (simp add: PWW_MAX_MEMBER_BYTES_def SPILL_MAX_def)
  obtain t pm1 ttr1 t2 n a where b: "blkc_build_trial (pool ! i) d offset [] = (Some t, pm1, fs')"
    and f: "blkcalc_will_member_fit t (dscb ds) ?l ?l = (True, ttr1)"
    and o': "blkc_fit_others (dscb ds) ttr1 (blkc_others (pool[i := pm1]) i) = Some t2"
    and p: "pool' = pool[i := pm1\<lparr>blkcalc := t\<lparr>last_need := n, last_avail := a\<rparr>\<rparr>]"
    using admit_success [OF assms(1-4)] assms(5) by (metis option.inject)
  have ok: "trial_ok (pool ! i) d offset t pm1"
    using build_trial_counts [OF assms(6,7) e] b by (metis Pair_inject option.inject)
  then have dn: "pm_dsname pm1 = pm_dsname (pool ! i)" by (simp add: trial_ok_def same_slot_fields)
  have oth: "blkc_others pool' i = blkc_others pool i" "blkc_others (pool[i := pm1]) i = blkc_others pool i"
    using assms(2) dn by (simp_all add: p blkc_others_upd)
  have need: "blkc_need (blkcalc (pool' ! i)) = blkc_need t"
    using assms(2) by (simp add: p need_same_count [OF same_count_books(2) [OF same_count_refl]])
  have "blkc_need t \<le> blkc_blocks_available (dscb ds) ?l"
    using f by (auto simp: blkcalc_will_member_fit_def Let_def split: if_splits)
  then have alone: "unat (blkc_need (blkcalc (pool' ! i))) \<le> unat (blkc_blocks_available (dscb ds) ?l)"
    by (simp add: need word_le_nat_alt)
  have together: "unat (blkc_need (blkcalc (pool' ! i))) + (\<Sum>pm\<leftarrow>blkc_others pool' i. unat (blkc_need (blkcalc pm)))
      \<le> unat (blkc_blocks_available (dscb ds) ?l)" if ne: "no_extend (dscb ds)" and tt: "lstar_tt (dscb ds) < tracks (dscb ds)"
  proof -
    have "lstar_tt (dscb ds) < 2 ^ 24" using ne tt by (simp add: no_extend_def word_less_nat_alt)
    moreover have r: "unat (ucast (lstar_r (dscb ds)) :: u32) < 256"
      using unsigned_less [where 'a = nat, of "lstar_r (dscb ds)"] by (simp add: unat_ucast_widen)
    ultimately have "BLKC_TTR_TT ?l = lstar_tt (dscb ds)" "BLKC_TTR_R ?l = ucast (lstar_r (dscb ds))"
      by (simp_all add: BLKC_TTR_split word_less_nat_alt)
    then have tok: "ttr_ok (dscb ds) (BLKC_TTR_TT ?l) (BLKC_TTR_R ?l)" using tt r by (simp add: ttr_ok_def)
    show ?thesis using fit_step(2) [OF ne tok f] fit_others_sum [OF ne fit_step(1) [OF ne tok f] o'] by (simp add: oth need)
  qed
  have "same_count (t\<lparr>last_need := n, last_avail := a\<rparr>) (blkcalc_add_blocks_for_data (blkc_fresh (blkcalc (pool ! i)))
           (splice (pm_content (pool ! i)) (unat offset) d))"
    using ok by (simp add: trial_ok_def same_count_books)
  then show ?thesis using alone together assms(2) unfolding Let_def by (simp add: p)
qed


text \<open>
  The sum needs that no further extent can be taken. With secondary space left it does not hold:
  the room of the extents to come is credited from every position, so members that are laid out
  one behind the other in that room are each given all of it. Here ten blocks are left, and two
  members of ten blocks each are found to fit, one behind the other.
\<close>

definition extend_dscb :: dataset_dscb_info_t where
  "extend_dscb = dscb_zero\<lparr>valid := True, recfm := 0x90, blksize := 800, lrecl := 80, blocks_per_track := 10, trklen := 9000,
     tracks := 15, sec_tracks := 1, nextents := 15\<rparr>"

lemma secondary_space_overbooked:
  "blkc_blocks_available extend_dscb (BLKC_TTR 14 10) = 10 \<and>
   blkc_need ((blkcalc_info_init RECFM_F 800 80)\<lparr>count_full_blocks := 10\<rparr>) = 10 \<and>
   blkc_fit_others extend_dscb (BLKC_TTR 14 10) (replicate 2 (pending_zero\<lparr>blkcalc := (blkcalc_info_init RECFM_F 800 80)\<lparr>count_full_blocks := 10\<rparr>\<rparr>)) \<noteq> None"
  by code_simp

text \<open>A data set of 15 tracks with 10 blocks each, its last block on track 3, and one slot.\<close>

definition admit_dscb :: dataset_dscb_info_t where
  "admit_dscb = dscb_zero\<lparr>valid := True, recfm := 0x90, blksize := 800, lrecl := 80,
     blocks_per_track := 10, trklen := 9000, tracks := 15\<rparr>"

definition admit_vtoc :: vtoc_t where
  "admit_vtoc n = (0, \<lparr>raw_status = 0, raw_volser = [], raw_nextents = 1, raw_tracks = 15,
     raw_create_date = [], raw_ref_date = [], raw_dsorg = [2, 0], raw_recfm = 0x90,
     raw_blksize = [3, 32], raw_lrecl = [0, 80], raw_devtype = [0, 0, 0, 0], raw_trklen = [],
     raw_trkcyl = [], raw_sec_flags = 0, raw_sec_qty = 0, raw_sec_tracks = 0,
     raw_lstar = [0, 3, 5], raw_trbal = [16, 0]\<rparr>)"

definition admit_dataset :: pds_dataset_t where
  "admit_dataset = \<lparr>dsname_ebcdic = [0xC1], dsname_ascii = [0x41], dirname_ebcdic = [0xC1],
     dirname_ascii = [0x41], file_ext = [], dscb = admit_dscb, dir_mtime = 0, dir_sig = 0,
     dir_sig_check = 0, ds_readonly = False, dirperm = 0, memperm = 0\<rparr>"

definition admit_exports :: "export_t list" where
  "admit_exports = [\<lparr>export_path = [], export_path_ebcdic = [], host_path = [], host_path_ebcdic = [],
     exp_file_ext = [], exp_readonly = False, rootperm = 0, failed = False, datasets = [admit_dataset]\<rparr>]"

definition admit_slot :: pending_member_t where
  "admit_slot = pending_zero\<lparr>used := True, pm_dsname := [0xC1], pm_member := [0xC2],
     blkcalc := blkcalc_info_init RECFM_F 800 80\<rparr>"

definition admit_current :: pds_dataset_t where
  "admit_current = admit_dataset\<lparr>dscb := admit_dscb\<lparr>lstar_tt := 3, lstar_r := 5, trbal := 4096,
     tracks := 15, nextents := 1\<rparr>\<rparr>"

theorem admit_write_leaves_room_witness:
  "\<exists>es' pool' fs'. blkcalc_admit_write admit_vtoc admit_exports [admit_slot] 0 [0x41, 0x0A] 0 [] = (None, es', pool', fs') \<and>
     unat (blkc_need (blkcalc (pool' ! 0))) \<le> 114 \<and>
     unat (blkc_need (blkcalc (pool' ! 0))) + (\<Sum>pm\<leftarrow>blkc_others pool' 0. unat (blkc_need (blkcalc pm))) \<le> 114"
proof -
  obtain r es' pool' fs' where a: "blkcalc_admit_write admit_vtoc admit_exports [admit_slot] 0 [0x41, 0x0A] 0 [] = (r, es', pool', fs')"
    by (metis surj_pair)
  have "fst (blkcalc_admit_write admit_vtoc admit_exports [admit_slot] 0 [0x41, 0x0A] 0 []) = None" by code_simp
  then have a': "blkcalc_admit_write admit_vtoc admit_exports [admit_slot] 0 [0x41, 0x0A] 0 [] = (None, es', pool', fs')"
    using a by simp
  have ds: "blkc_vtoc_read admit_vtoc admit_dataset = Some admit_current" by code_simp
  have g: "export_dataset_get admit_exports (pm_export ([admit_slot] ! 0)) (pm_dataset ([admit_slot] ! 0)) = Some admit_dataset"
    by code_simp
  have w: "pm_wf admit_slot" "pm_content admit_slot = []" by code_simp+
  then have w': "counted admit_slot"
    unfolding counted_def by simp (simp add: admit_slot_def pending_zero_def blkcalc_info_init_def blkcalc_zero_def blkc_fresh_def)
  have c: "valid (dscb admit_dataset)" "no_extend (dscb admit_current)" "lstar_tt (dscb admit_current) < tracks (dscb admit_current)"
    by (simp_all add: no_extend_def admit_current_def admit_dscb_def dscb_zero_def admit_dataset_def)
  have av: "unat (blkc_blocks_available (dscb admit_current)
      (BLKC_TTR (lstar_tt (dscb admit_current)) (ucast (lstar_r (dscb admit_current))))) = 114" by code_simp
  show ?thesis
    using admit_write_leaves_room [OF a' _ g c(1) ds] c w w' av a'
    by (auto simp: PWW_MAX_MEMBER_BYTES_def Let_def)
qed

end
