(* ===== verification/Pdir.thy ===== *)
theory Pdir
  imports Mvsio Nfserr
begin

text \<open>
  Directories of partitioned data sets, \<^verbatim>\<open>src/src/mvspdir.c\<close>: the ISPF statistics kept in
  the user data of a directory entry, the directory blocks and the lookup of a member. A
  directory is the list of its 256-byte blocks, what reading the data set gives after the
  length word in front of each block is skipped; a data set that cannot be opened is a
  missing list. The member list is a list of entries; its allocation in steps of forty is not
  modelled, so that running out of memory is left out. Numbers that fit 32 bits (line counts,
  seconds) are integers, with the conversion to \<^verbatim>\<open>int32_t\<close> written out; \<open>tz\<close> is the
  offset of local time, \<^verbatim>\<open>g_tz_offset\<close> of \<^verbatim>\<open>src/src/mvsutl.c\<close>.
\<close>

section \<open>Entries and dates\<close>

definition to_i32 :: "int \<Rightarrow> int" where
  "to_i32 x = sint (word_of_int x :: u32)"

record pds_member_entry_t =
  crdate :: int
  chgdate :: int
  me_size :: int
  initSize :: int
  modCount :: int
  me_name :: bytes
  me_user :: bytes
  first_block_tt :: u16
  entry_type :: u8
  me_ver :: u8
  me_mod :: u8
  first_block_rec :: u8
  ispf_flags :: u8
  info_flags :: u8

definition MVS_PDSDIR_IFLG_ISPFSTATS :: u8 where "MVS_PDSDIR_IFLG_ISPFSTATS = 0x80"
definition MVS_PDSDIR_ALIAS_MASK :: u8 where "MVS_PDSDIR_ALIAS_MASK = 0x80"
definition MVS_PDSDIR_USERDATA_COUNT_MASK :: u8 where "MVS_PDSDIR_USERDATA_COUNT_MASK = 0x1F"
definition MVS_PDSDIR_ISPF_EXT_STATS :: u8 where "MVS_PDSDIR_ISPF_EXT_STATS = 0x04"
definition MVS_PDSDIR_ENDMARK :: bytes where "MVS_PDSDIR_ENDMARK = replicate 8 0xFF"
definition MVS_ISPF_STATS_LEN :: nat where "MVS_ISPF_STATS_LEN = 30"

definition mvs_pds_member_entry_init :: pds_member_entry_t where
  "mvs_pds_member_entry_init =
     \<lparr>crdate = 0, chgdate = 0, me_size = 0, initSize = 0, modCount = 0, me_name = [], me_user = [],
      first_block_tt = 0, entry_type = 0, me_ver = 0, me_mod = 0, first_block_rec = 0,
      ispf_flags = 0, info_flags = 0\<rparr>"

definition mvs_local_epoch_to_utc :: "int \<Rightarrow> int \<Rightarrow> int" where
  "mvs_local_epoch_to_utc tz t = t - tz"

definition mvs_utc_to_local_epoch :: "int \<Rightarrow> int \<Rightarrow> int" where
  "mvs_utc_to_local_epoch tz t = t + tz"

definition leap :: "int \<Rightarrow> bool" where
  "leap y \<longleftrightarrow> y mod 4 = 0 \<and> (y mod 100 \<noteq> 0 \<or> y mod 400 = 0)"

text \<open>Seconds since 1970 of a date with month and day of month (the years are positive).\<close>

definition ispf_tm_to_timet :: "int \<Rightarrow> nat \<Rightarrow> int \<Rightarrow> int \<Rightarrow> int \<Rightarrow> int \<Rightarrow> int" where
  "ispf_tm_to_timet year mon mday hour mins sec =
     (let mdays = [0, 31, 59, 90, 120, 151, 181, 212, 243, 273, 304, 334];
          y = year - 1;
          leaps = (y div 4 - y div 100 + y div 400) - (1969 div 4 - 1969 div 100 + 1969 div 400);
          days = (year - 1970) * 365 + leaps + mdays ! mon + (if leap year \<and> 1 < mon then 1 else 0)
                 + (mday - 1)
      in days * 86400 + hour * 3600 + mins * 60 + sec)"

fun julian_loop :: "nat \<Rightarrow> int list \<Rightarrow> int \<Rightarrow> nat \<times> int" where
  "julian_loop m [] yday = (11, 31)"
| "julian_loop m (d # dim) yday = (if yday \<le> d then (m, yday) else julian_loop (m + 1) dim (yday - d))"

definition julian_to_md :: "int \<Rightarrow> int \<Rightarrow> nat \<times> int" where
  "julian_to_md year yday =
     julian_loop 0 [31, if leap year then 29 else 28, 31, 30, 31, 30, 31, 31, 30, 31, 30, 31] yday"

text \<open>The packed date (four bytes) and, when present, the packed hour and minute.\<close>

definition convert_ispf_datetime :: "int \<Rightarrow> bytes \<Rightarrow> bytes option \<Rightarrow> int \<Rightarrow> int" where
  "convert_ispf_datetime tz dateptr hhmmf seconds =
     (let year = 1900 + 100 * bcd_byte_to_int (byte_at dateptr 0) + bcd_byte_to_int (byte_at dateptr 1);
          day_of_year = 10 * bcd_byte_to_int (byte_at dateptr 2)
                        + uint (drop_bit 4 (byte_at dateptr 3) AND 0x0F);
          (mon, day_of_mon) = julian_to_md year day_of_year;
          (hour, mins) = (case hhmmf of None \<Rightarrow> (0, 0)
                          | Some h \<Rightarrow> (bcd_byte_to_int (byte_at h 0), bcd_byte_to_int (byte_at h 1)))
      in mvs_local_epoch_to_utc tz (ispf_tm_to_timet year mon day_of_mon hour mins seconds))"

text \<open>
  The library's \<^verbatim>\<open>gmtime\<close>: year and day of the year (from zero) of a day number, found by
  walking away from 1970, and the time of day.
\<close>

definition year_len :: "int \<Rightarrow> int" where
  "year_len y = (if leap y then 366 else 365)"

function gm_forward :: "int \<Rightarrow> int \<Rightarrow> int \<times> int" where
  "gm_forward y d = (if d < year_len y then (y, d) else gm_forward (y + 1) (d - year_len y))"
  by pat_completeness auto
termination by (relation "measure (\<lambda>(y, d). nat (d + 1))") (auto simp: year_len_def split: if_splits)

function gm_backward :: "int \<Rightarrow> int \<Rightarrow> int \<times> int" where
  "gm_backward y d = (if 0 \<le> d then (y, d) else gm_backward (y - 1) (d + year_len (y - 1)))"
  by pat_completeness auto
termination by (relation "measure (\<lambda>(y, d). nat (- d))") (auto simp: year_len_def)

declare gm_forward.simps [simp del] gm_backward.simps [simp del]

definition gmtime_date :: "int \<Rightarrow> int \<times> int" where
  "gmtime_date t = (let d = t div 86400 in if 0 \<le> d then gm_forward 1970 d else gm_backward 1970 d)"

definition gmtime_clock :: "int \<Rightarrow> int \<times> int \<times> int" where
  "gmtime_clock t = (let s = t mod 86400 in (s div 3600, s mod 3600 div 60, s mod 60))"

definition int_to_bcd :: "int \<Rightarrow> u8" where
  "int_to_bcd v = push_bit 4 (word_of_int (v div 10 mod 10)) OR word_of_int (v mod 10)"

definition ispf_pack_date :: "int \<Rightarrow> bytes" where
  "ispf_pack_date t =
     (let (year, yday) = gmtime_date t; ddd = yday + 1
      in [int_to_bcd ((year - 1900) div 100), int_to_bcd ((year - 1900) mod 100),
          int_to_bcd (ddd div 10), push_bit 4 (word_of_int (ddd mod 10)) OR 0x0F])"

section \<open>Statistics\<close>

definition be16_at :: "bytes \<Rightarrow> nat \<Rightarrow> u16" where
  "be16_at b i = push_bit 8 (ucast (byte_at b i)) OR ucast (byte_at b (i + 1))"

definition be16_bytes :: "u16 \<Rightarrow> bytes" where
  "be16_bytes v = [ucast (drop_bit 8 v), ucast v]"

definition i32_at :: "bytes \<Rightarrow> nat \<Rightarrow> int" where
  "i32_at b i =
     sint (be32_word (byte_at b i) (byte_at b (i + 1)) (byte_at b (i + 2)) (byte_at b (i + 3)))"

definition mvs_extract_ispf_stats :: "int \<Rightarrow> bytes \<Rightarrow> pds_member_entry_t \<Rightarrow> pds_member_entry_t" where
  "mvs_extract_ispf_stats tz ud entry =
     (let flags = byte_at ud 2;
          seconds = bcd_byte_to_int (byte_at ud 3);
          e = entry\<lparr>info_flags := MVS_PDSDIR_IFLG_ISPFSTATS, me_ver := byte_at ud 0, me_mod := byte_at ud 1,
                    ispf_flags := flags,
                    crdate := to_i32 (convert_ispf_datetime tz (drop 4 ud) None 0),
                    chgdate := to_i32 (convert_ispf_datetime tz (drop 8 ud) (Some (drop 12 ud))
                                         (uint (word_of_int seconds :: u8)))\<rparr>
      in if flags AND MVS_PDSDIR_ISPF_EXT_STATS \<noteq> 0 then
           e\<lparr>me_size := i32_at ud 14, initSize := i32_at ud 18, modCount := i32_at ud 22,
             me_user := bytes_to_string (drop 26 ud) 8\<rparr>
         else
           e\<lparr>me_size := uint (be16_at ud 14), initSize := uint (be16_at ud 16),
             modCount := uint (be16_at ud 18), me_user := bytes_to_string (drop 20 ud) 8\<rparr>)"

definition mvs_set_no_ispf_stats :: "int \<Rightarrow> pds_member_entry_t \<Rightarrow> pds_member_entry_t" where
  "mvs_set_no_ispf_stats now entry =
     entry\<lparr>me_ver := 0, me_mod := 0, ispf_flags := 0, me_size := 999, initSize := 999, modCount := 0,
           me_user := [], crdate := to_i32 now, chgdate := to_i32 now\<rparr>"

definition count_lf :: "bytes \<Rightarrow> int" where
  "count_lf b = int (length (filter (\<lambda>c. c = 0x0A) b))"

definition mvs_ispf_count_lines :: "bytes \<Rightarrow> int" where
  "mvs_ispf_count_lines b =
     (if b = [] then 0 else count_lf b + (if last b \<noteq> 0x0A then 1 else 0))"

definition ispf_v16 :: "int \<Rightarrow> u16" where
  "ispf_v16 n = (if 0xFFFF < n then 0xFFFF else word_of_int n)"

definition mvs_encode_ispf_stats :: "int \<Rightarrow> pds_member_entry_t \<Rightarrow> bytes" where
  "mvs_encode_ispf_stats tz entry =
     (let t = mvs_utc_to_local_epoch tz (chgdate entry);
          (chg_hour, chg_min, chg_sec) = gmtime_clock t;
          u = take 8 (me_user entry)
      in [me_ver entry, me_mod entry, ispf_flags entry AND NOT MVS_PDSDIR_ISPF_EXT_STATS, int_to_bcd chg_sec]
         @ ispf_pack_date (mvs_utc_to_local_epoch tz (crdate entry)) @ ispf_pack_date t
         @ [int_to_bcd chg_hour, int_to_bcd chg_min]
         @ be16_bytes (ispf_v16 (me_size entry)) @ be16_bytes (ispf_v16 (initSize entry))
         @ be16_bytes (ispf_v16 (modCount entry))
         @ u @ replicate (8 - length u) ch_space @ [0x40, 0x40])"

text \<open>The user name \<^verbatim>\<open>NFSD\<close> in EBCDIC.\<close>

definition nfsd_user :: bytes where "nfsd_user = [0xD5, 0xC6, 0xE2, 0xC4]"

text \<open>The new statistics and whether to write them.\<close>

definition mvs_build_write_stats ::
  "pds_member_entry_t option \<Rightarrow> int \<Rightarrow> int \<Rightarrow> pds_member_entry_t \<times> bool" where
  "mvs_build_write_stats existing line_count now =
     (case existing of
        None \<Rightarrow> (mvs_pds_member_entry_init\<lparr>info_flags := MVS_PDSDIR_IFLG_ISPFSTATS, ispf_flags := 0,
                  me_ver := 1, me_mod := 1, crdate := to_i32 now, chgdate := to_i32 now,
                  me_size := line_count, initSize := line_count, modCount := 0, me_user := nfsd_user\<rparr>, True)
      | Some ex \<Rightarrow>
          if info_flags ex AND MVS_PDSDIR_IFLG_ISPFSTATS = 0 then (mvs_pds_member_entry_init, False)
          else (ex\<lparr>chgdate := to_i32 now, me_size := line_count,
                   me_mod := (if me_mod ex < 99 then me_mod ex + 1 else 99)\<rparr>, True))"


section \<open>Directory blocks\<close>

text \<open>\<^verbatim>\<open>memcmp\<close> and \<^verbatim>\<open>strcmp\<close>: the order of unsigned bytes.\<close>

fun bytes_less :: "bytes \<Rightarrow> bytes \<Rightarrow> bool" where
  "bytes_less (a # as) (b # bs) = (a < b \<or> a = b \<and> bytes_less as bs)"
| "bytes_less [] (b # bs) = True"
| "bytes_less as [] = False"

text \<open>The entry at an offset of a block and its length.\<close>

definition mvs_pds_member_entry_set :: "int \<Rightarrow> int \<Rightarrow> bytes \<Rightarrow> nat \<Rightarrow> pds_member_entry_t \<times> nat" where
  "mvs_pds_member_entry_set tz now blk pos =
     (let c = byte_at blk (pos + 11);
          hw = unat (c AND MVS_PDSDIR_USERDATA_COUNT_MASK);
          e = mvs_pds_member_entry_init\<lparr>me_name := bytes_to_string (drop pos blk) 8,
                first_block_tt := be16_at blk (pos + 8), first_block_rec := byte_at blk (pos + 10),
                entry_type := c AND MVS_PDSDIR_ALIAS_MASK\<rparr>
      in (if 30 \<le> hw * 2 then mvs_extract_ispf_stats tz (drop (pos + 12) blk) e
          else mvs_set_no_ispf_stats now e, 12 + hw * 2))"

definition mvs_skip_dir_entry :: "bytes \<Rightarrow> nat \<Rightarrow> nat" where
  "mvs_skip_dir_entry blk pos =
     12 + unat (byte_at blk (pos + 11) AND MVS_PDSDIR_USERDATA_COUNT_MASK) * 2"

text \<open>The entries from \<open>pos\<close> on that are not before \<open>start\<close>, and whether the end was seen.\<close>

function dir_block_loop ::
  "int \<Rightarrow> int \<Rightarrow> bytes \<Rightarrow> bytes \<Rightarrow> nat \<Rightarrow> nat \<Rightarrow> pds_member_entry_t list \<times> bool" where
  "dir_block_loop tz now blk start blk_end pos =
     (if pos < blk_end then
        (if mem_slice blk pos 8 = MVS_PDSDIR_ENDMARK then ([], True)
         else if \<not> bytes_less (mem_slice blk pos 8) start then
           (let (e, n) = mvs_pds_member_entry_set tz now blk pos;
                (es, eod) = dir_block_loop tz now blk start blk_end (pos + n)
            in (e # es, eod))
         else dir_block_loop tz now blk start blk_end (pos + mvs_skip_dir_entry blk pos))
      else ([], False))"
  by pat_completeness auto
termination
  by (relation "measure (\<lambda>(tz, now, blk, start, blk_end, pos). blk_end - pos)")
     (auto simp: mvs_pds_member_entry_set_def mvs_skip_dir_entry_def Let_def)

declare dir_block_loop.simps [simp del]

definition mvs_process_dir_block ::
  "int \<Rightarrow> int \<Rightarrow> bytes \<Rightarrow> bytes \<Rightarrow> pds_member_entry_t list \<times> bool" where
  "mvs_process_dir_block tz now blk start = dir_block_loop tz now blk start (unat (be16_at blk 0)) 2"

fun mvs_read_pds_dir ::
  "int \<Rightarrow> int \<Rightarrow> bytes \<Rightarrow> bytes list \<Rightarrow> pds_member_entry_t list \<times> bool" where
  "mvs_read_pds_dir tz now start [] = ([], False)"
| "mvs_read_pds_dir tz now start (blk # blks) =
     (if length blk \<noteq> 256 then ([], False)
      else let (es, eod) = mvs_process_dir_block tz now blk start in
        if eod then (es, True)
        else let (es', eod') = mvs_read_pds_dir tz now start blks in (es @ es', eod'))"

text \<open>The directories of all data sets; one that cannot be opened is missing.\<close>

type_synonym pds_dirs = "bytes \<Rightarrow> bytes list option"

definition mvs_pds_member_list ::
  "pds_dirs \<Rightarrow> int \<Rightarrow> int \<Rightarrow> bytes \<Rightarrow> bytes \<Rightarrow> (pds_member_entry_t list \<times> bool) option" where
  "mvs_pds_member_list dirs tz now dsname start =
     (if 44 < length dsname then None
      else case dirs dsname of None \<Rightarrow> None
        | Some blks \<Rightarrow> Some (mvs_read_pds_dir tz now start blks))"

text \<open>
  The lookup compares eight bytes at the member's address, so bytes behind the end of a
  short name take part; they are the parameter \<open>tl_bytes\<close>.
\<close>

definition mvs_pds_get_member_entry ::
  "pds_dirs \<Rightarrow> int \<Rightarrow> int \<Rightarrow> bytes \<Rightarrow> bytes \<Rightarrow> bytes \<Rightarrow> errno_t + pds_member_entry_t" where
  "mvs_pds_get_member_entry dirs tz now tl_bytes dsname member =
     (case mvs_pds_member_list dirs tz now dsname (take 8 (member @ 0 # tl_bytes)) of
        None \<Rightarrow> Inl EINVAL
      | Some ([], _) \<Rightarrow> Inl ENOENT
      | Some (e # _, _) \<Rightarrow> if me_name e \<noteq> member then Inl ENOENT else Inr e)"

definition sig_step :: "u32 \<Rightarrow> u32 \<Rightarrow> u32" where
  "sig_step h b = (h XOR b) * 16777619"

definition sig_entry :: "u32 \<Rightarrow> pds_member_entry_t \<Rightarrow> u32" where
  "sig_entry h e =
     fold (\<lambda>b h. sig_step h b)
       (map (\<lambda>j. ucast (byte_at (me_name e) j)) [0..<8]
        @ [ucast (first_block_tt e AND 0xFF), ucast (drop_bit 8 (first_block_tt e) AND 0xFF),
           ucast (first_block_rec e)]) h"

definition mvs_pds_dir_sig_calc :: "pds_member_entry_t list \<Rightarrow> u32" where
  "mvs_pds_dir_sig_calc es = sig_step (fold (\<lambda>e h. sig_entry h e) es 2166136261) (of_nat (length es))"

definition mvs_pds_dir_signature :: "pds_dirs \<Rightarrow> int \<Rightarrow> int \<Rightarrow> bytes \<Rightarrow> u32 option" where
  "mvs_pds_dir_signature dirs tz now dsname =
     map_option (\<lambda>r. mvs_pds_dir_sig_calc (fst r))
       (mvs_pds_member_list dirs tz now dsname (replicate 8 0))"

section \<open>The calendar\<close>

text \<open>Days from 1970 to the first day of a year.\<close>

definition days_before :: "int \<Rightarrow> int" where
  "days_before y = (y - 1970) * 365 +
     (((y - 1) div 4 - (y - 1) div 100 + (y - 1) div 400) - (1969 div 4 - 1969 div 100 + 1969 div 400))"

lemma div_step: "0 < k \<Longrightarrow> (y :: int) div k - (y - 1) div k = (if y mod k = 0 then 1 else 0)"
proof -
  assume k: "0 < k"
  show ?thesis
  proof (cases "y mod k = 0")
    case True
    then obtain q where "y = k * q" by (auto simp: mod_eq_0_iff_dvd elim: dvdE)
    moreover have "(k * q - 1) div k = q - 1"
      using k by (intro int_div_pos_eq [of _ _ _ "k - 1"]) (auto simp: algebra_simps)
    ultimately show ?thesis using k by simp
  next
    case False
    have b: "0 \<le> y mod k" "y mod k < k" using k by simp_all
    have "(y - 1) div k = y div k"
    proof (rule int_div_pos_eq [of _ _ _ "y mod k - 1"])
      show "y - 1 = k * (y div k) + (y mod k - 1)" by (simp add: algebra_simps)
    qed (use False b in linarith)+
    then show ?thesis using False by simp
  qed
qed

lemma leap_count:
  assumes "(x :: int) = z + 365 + (if A then 1 else 0) - (if B then 1 else 0) + (if C then 1 else 0)"
    and "C \<Longrightarrow> B" and "B \<Longrightarrow> A"
  shows "x = z + (if A \<and> (\<not> B \<or> C) then 366 else 365)"
  using assms(1) by (cases A; cases B; cases C) (use assms(2,3) in simp_all)

lemma mod_zero_down: "c dvd b \<Longrightarrow> (a :: int) mod b = 0 \<Longrightarrow> a mod c = 0"
  by (auto simp: mod_eq_0_iff_dvd)

lemma year_sum:
  "(y + 1 - 1970) * 365 + ((a - b + c) - k) =
     (y - 1970) * 365 + ((a' - b' + c') - k) + 365 + (a - a') - (b - b') + (c - c')" for y a b c :: int
  by simp

lemma days_before_step: "days_before (y + 1) = days_before y + year_len y"
proof -
  have "days_before (y + 1) = days_before y + 365 + (y div 4 - (y - 1) div 4)
      - (y div 100 - (y - 1) div 100) + (y div 400 - (y - 1) div 400)"
    unfolding days_before_def add_diff_cancel_right' by (rule year_sum)
  also have "\<dots> = days_before y + 365 + (if y mod 4 = 0 then 1 else 0) - (if y mod 100 = 0 then 1 else 0)
      + (if y mod 400 = 0 then 1 else 0)"
    by (simp only: div_step [OF zero_less_numeral])
  finally have "days_before (y + 1) = days_before y + 365 + (if y mod 4 = 0 then 1 else 0)
      - (if y mod 100 = 0 then 1 else 0) + (if y mod 400 = 0 then 1 else 0)" .
  moreover have "y mod 400 = 0 \<Longrightarrow> y mod 100 = 0" "y mod 100 = 0 \<Longrightarrow> y mod 4 = 0"
    by (erule mod_zero_down [rotated], simp)+
  ultimately show ?thesis unfolding year_len_def leap_def by (rule leap_count)
qed

lemma days_before_1970 [simp]: "days_before 1970 = 0" by (simp add: days_before_def)

lemma gm_forward_spec:
  "0 \<le> d \<Longrightarrow> gm_forward y d = (y', d') \<Longrightarrow>
     days_before y' + d' = days_before y + d \<and> 0 \<le> d' \<and> d' < year_len y'"
proof (induction y d rule: gm_forward.induct)
  case (1 y d)
  show ?case
  proof (cases "d < year_len y")
    case True
    then show ?thesis using 1 by (simp add: gm_forward.simps)
  next
    case False
    then show ?thesis using 1 days_before_step [of y] by (subst (asm) (2) gm_forward.simps) simp
  qed
qed

lemma gm_backward_spec:
  "d < year_len y \<Longrightarrow> gm_backward y d = (y', d') \<Longrightarrow>
     days_before y' + d' = days_before y + d \<and> 0 \<le> d' \<and> d' < year_len y'"
proof (induction y d rule: gm_backward.induct)
  case (1 y d)
  show ?case
  proof (cases "0 \<le> d")
    case True
    then show ?thesis using 1 by (simp add: gm_backward.simps)
  next
    case False
    then show ?thesis using 1 days_before_step [of "y - 1"] by (subst (asm) (2) gm_backward.simps) simp
  qed
qed

lemma gmtime_date_spec:
  assumes "gmtime_date t = (y, d)"
  shows "days_before y + d = t div 86400" and "0 \<le> d" and "d < year_len y"
proof -
  have "days_before y + d = t div 86400 \<and> 0 \<le> d \<and> d < year_len y"
  proof (cases "0 \<le> t div 86400")
    case True
    then show ?thesis using gm_forward_spec [of "t div 86400" 1970 y d] assms by (simp add: gmtime_date_def Let_def)
  next
    case False
    then show ?thesis using gm_backward_spec [of "t div 86400" 1970 y d] assms
      by (simp add: gmtime_date_def Let_def year_len_def)
  qed
  then show "days_before y + d = t div 86400" "0 \<le> d" "d < year_len y" by auto
qed

text \<open>Splitting a day of the year into month and day and joining it again.\<close>

lemma julian_days:
  assumes "yday \<le> year_len y" and "julian_to_md y yday = (m, dm)"
  shows "[0, 31, 59, 90, 120, 151, 181, 212, 243, 273, 304, 334] ! m + (if leap y \<and> 1 < m then 1 else 0) + dm = yday"
proof (cases "leap y")
  case True
  then show ?thesis using assms by (simp add: julian_to_md_def year_len_def split: if_splits)
next
  case False
  then show ?thesis using assms by (simp add: julian_to_md_def year_len_def split: if_splits)
qed

lemma julian_join:
  assumes "yday \<le> year_len y" and "julian_to_md y yday = (m, dm)"
  shows "ispf_tm_to_timet y m dm h mi sc = (days_before y + yday - 1) * 86400 + h * 3600 + mi * 60 + sc"
proof -
  have "ispf_tm_to_timet y m dm h mi sc =
      (days_before y + ([0, 31, 59, 90, 120, 151, 181, 212, 243, 273, 304, 334] ! m
         + (if leap y \<and> 1 < m then 1 else 0) + dm) - 1) * 86400 + h * 3600 + mi * 60 + sc"
    unfolding ispf_tm_to_timet_def days_before_def Let_def by (simp only: add.assoc add_diff_eq)
  then show ?thesis unfolding julian_days [OF assms] .
qed

lemma div_less_mult: "0 < k \<Longrightarrow> x < n * k \<Longrightarrow> x div k < (n :: int)"
proof (rule ccontr)
  assume k: "0 < k" "x < n * k" "\<not> x div k < n"
  then have "n * k \<le> x div k * k" by (intro mult_right_mono) auto
  also have "\<dots> \<le> x" using k by (simp add: div_times_less_eq_dividend flip: minus_mod_eq_div_mult)
  finally show False using k by simp
qed

lemma clock_join:
  assumes "gmtime_clock t = (h, mi, sc)"
  shows "h * 3600 + mi * 60 + sc = t mod 86400" and "0 \<le> h" "h < 24" "0 \<le> mi" "mi < 60" "0 \<le> sc" "sc < 60"
proof -
  have d: "h = t mod 86400 div 3600" "mi = t mod 86400 mod 3600 div 60" "sc = t mod 86400 mod 60"
    using assms by (auto simp: gmtime_clock_def Let_def)
  have "t mod 86400 mod 60 = t mod 86400 mod 3600 mod 60" by (simp add: mod_mod_cancel)
  then show "h * 3600 + mi * 60 + sc = t mod 86400" unfolding d
    using div_mult_mod_eq [of "t mod 86400" 3600] div_mult_mod_eq [of "t mod 86400 mod 3600" 60] by linarith
  have b: "0 \<le> t mod 86400" "t mod 86400 < 24 * 3600" "t mod 86400 mod 3600 < 60 * 60" by simp_all
  show "0 \<le> h" "0 \<le> mi" "0 \<le> sc" "sc < 60" unfolding d by (simp_all add: pos_imp_zdiv_nonneg_iff)
  show "h < 24" "mi < 60" unfolding d using b by (intro div_less_mult; simp)+
qed


section \<open>Packed decimals\<close>

lemma bcd_roundtrip:
  assumes "0 \<le> v" and "v < 100"
  shows "bcd_byte_to_int (int_to_bcd v) = v"
proof -
  have "\<forall>k \<in> set [0..99]. bcd_byte_to_int (int_to_bcd k) = k" by code_simp
  then show ?thesis using assms by simp
qed

lemma last_digit_roundtrip:
  assumes "0 \<le> v" and "v < 10"
  shows "uint (drop_bit 4 (push_bit 4 (word_of_int v :: u8) OR 0x0F) AND 0x0F) = v"
proof -
  have "\<forall>k \<in> set [0..9]. uint (drop_bit 4 (push_bit 4 (word_of_int k :: u8) OR 0x0F) AND 0x0F) = k" by code_simp
  then show ?thesis using assms by simp
qed

lemma be16_roundtrip: "be16_at (be16_bytes v @ r) 0 = v"
proof (rule bit_word_eqI)
  fix n assume "n < LENGTH(16)"
  then show "bit (be16_at (be16_bytes v @ r) 0) n = bit v n"
    by (cases "n < 8") (auto simp: be16_at_def be16_bytes_def byte_at_def bit_simps)
qed

text \<open>Years whose two packed bytes hold them.\<close>

lemma pack_date_roundtrip:
  assumes g: "gmtime_date t = (y, d)" and y: "1900 \<le> y" "y < 11900"
  shows "convert_ispf_datetime tz (ispf_pack_date t @ r) hm sc =
    t - t mod 86400 - tz + (case hm of None \<Rightarrow> 0
       | Some h \<Rightarrow> bcd_byte_to_int (byte_at h 0) * 3600 + bcd_byte_to_int (byte_at h 1) * 60) + sc"
proof -
  let ?p = "ispf_pack_date t @ r"
  note gs = gmtime_date_spec [OF g]
  have d: "0 \<le> d" "d < 366" using gs by (auto simp: year_len_def split: if_splits)
  have b: "byte_at ?p 0 = int_to_bcd ((y - 1900) div 100)" "byte_at ?p 1 = int_to_bcd ((y - 1900) mod 100)"
    "byte_at ?p 2 = int_to_bcd ((d + 1) div 10)" "byte_at ?p 3 = push_bit 4 (word_of_int ((d + 1) mod 10)) OR 0x0F"
    by (simp_all add: ispf_pack_date_def g byte_at_def Let_def numeral_2_eq_2 numeral_3_eq_3)
  have "bcd_byte_to_int (byte_at ?p 0) = (y - 1900) div 100" "bcd_byte_to_int (byte_at ?p 1) = (y - 1900) mod 100"
    unfolding b using y by (auto intro!: bcd_roundtrip)
  then have yr: "1900 + 100 * bcd_byte_to_int (byte_at ?p 0) + bcd_byte_to_int (byte_at ?p 1) = y"
    by (simp add: mult_div_mod_eq)
  have "bcd_byte_to_int (byte_at ?p 2) = (d + 1) div 10" unfolding b using d by (intro bcd_roundtrip) auto
  moreover have "uint (drop_bit 4 (byte_at ?p 3) AND 0x0F) = (d + 1) mod 10"
    unfolding b by (rule last_digit_roundtrip) auto
  ultimately have dy: "10 * bcd_byte_to_int (byte_at ?p 2) + uint (drop_bit 4 (byte_at ?p 3) AND 0x0F) = d + 1"
    by (simp add: mult_div_mod_eq)
  obtain m dm where j: "julian_to_md y (d + 1) = (m, dm)" by (cases "julian_to_md y (d + 1)")
  have ti: "ispf_tm_to_timet y m dm h mi s = (t - t mod 86400) + h * 3600 + mi * 60 + s" for h mi s
    using julian_join [OF _ j, of h mi s] gs by (simp add: minus_mod_eq_div_mult)
  show ?thesis
    unfolding convert_ispf_datetime_def yr dy j Let_def
    by (simp add: ti mvs_local_epoch_to_utc_def split: option.splits)
qed


section \<open>Statistics survive the directory\<close>

lemma gm_forward_year: "0 \<le> d \<Longrightarrow> gm_forward y d = (y', d') \<Longrightarrow> y \<le> y' \<and> (y' - y) * 365 \<le> d"
proof (induction y d rule: gm_forward.induct)
  case (1 y d)
  show ?case
  proof (cases "d < year_len y")
    case True
    then show ?thesis using 1 by (simp add: gm_forward.simps)
  next
    case False
    then have "y + 1 \<le> y' \<and> (y' - (y + 1)) * 365 \<le> d - year_len y"
      using 1 by (subst (asm) (2) gm_forward.simps) simp
    then show ?thesis by (simp add: year_len_def split: if_splits)
  qed
qed

lemma gm_backward_year:
  "d \<le> 0 \<or> y' = y \<Longrightarrow> gm_backward y d = (y', d') \<Longrightarrow> y' \<le> y \<and> (y' < y \<longrightarrow> d + (y - y' - 1) * 365 < 0)"
proof (induction y d rule: gm_backward.induct)
  case (1 y d)
  show ?case
  proof (cases "0 \<le> d")
    case True
    then show ?thesis using 1 by (simp add: gm_backward.simps)
  next
    case False
    let ?d = "d + year_len (y - 1)"
    have r: "gm_backward (y - 1) ?d = (y', d')" using 1(3) False by (subst (asm) gm_backward.simps) simp
    show ?thesis
    proof (cases "0 \<le> ?d")
      case True
      then have "y' = y - 1" using r by (simp add: gm_backward.simps)
      then show ?thesis using False by simp
    next
      case F: False
      then have "y' \<le> y - 1 \<and> (y' < y - 1 \<longrightarrow> ?d + (y - 1 - y' - 1) * 365 < 0)"
        using 1(1) [OF False _ r] by simp
      then show ?thesis using False by (auto simp: year_len_def split: if_splits)
    qed
  qed
qed

lemma year_of_i32:
  assumes "- (2 ^ 31) - 86400 \<le> t" and "t < 2 ^ 31 + 86400" and g: "gmtime_date t = (y, d)"
  shows "1900 \<le> y" and "y < 11900"
proof -
  have b: "- 24857 \<le> t div 86400" "t div 86400 \<le> 24857"
    using zdiv_mono1 [of "- (2 ^ 31) - 86400" t 86400] zdiv_mono1 [of t "2 ^ 31 + 86400" 86400] assms(1,2) by simp_all
  have "1900 \<le> y \<and> y < 11900"
  proof (cases "0 \<le> t div 86400")
    case True
    then show ?thesis using gm_forward_year [of "t div 86400" 1970 y d] g b by (simp add: gmtime_date_def Let_def)
  next
    case False
    then have "gm_backward 1970 (t div 86400) = (y, d)" using g by (simp add: gmtime_date_def Let_def)
    then have "y \<le> 1970" "y < 1970 \<longrightarrow> t div 86400 + (1970 - y - 1) * 365 < 0"
      using gm_backward_year [of "t div 86400" y 1970 d] False by auto
    then show ?thesis using b by (cases "y < 1970") simp_all
  qed
  then show "1900 \<le> y" "y < 11900" by auto
qed

lemma to_i32_id: "- (2 ^ 31) \<le> x \<Longrightarrow> x < 2 ^ 31 \<Longrightarrow> to_i32 x = x"
  by (simp add: to_i32_def sint_sbintrunc' signed_take_bit_int_eq_self)

lemma v16_uint: "0 \<le> n \<Longrightarrow> uint (ispf_v16 n) = min n 65535"
  by (simp add: ispf_v16_def uint_word_of_int)

lemma user_roundtrip:
  assumes "length u \<le> 8" and "0 \<notin> set u" and "u \<noteq> [] \<longrightarrow> last u \<noteq> ch_space"
  shows "bytes_to_string (u @ replicate (8 - length u) ch_space @ r) 8 = u"
  using assms by (simp add: bytes_to_string_def strip_trailing_replicate cstr_id)


lemma length_pack_date [simp]: "length (ispf_pack_date t) = 4"
  by (simp add: ispf_pack_date_def Let_def split: prod.splits)

lemma length_be16 [simp]: "length (be16_bytes v) = 2"
  by (simp add: be16_bytes_def)

lemma be16_at_drop: "be16_at b n = be16_at (drop n b) 0"
  by (auto simp: be16_at_def byte_at_def)

text \<open>The fields of an encoded record, each at its offset.\<close>

lemma encode_fields:
  fixes e :: pds_member_entry_t and tz :: int
  defines "ud \<equiv> mvs_encode_ispf_stats tz e"
  defines "u \<equiv> take 8 (me_user e)"
  shows "byte_at ud 0 = me_ver e" and "byte_at ud 1 = me_mod e"
    and "byte_at ud 2 = ispf_flags e AND NOT MVS_PDSDIR_ISPF_EXT_STATS"
    and "\<exists>r. drop 4 ud = ispf_pack_date (crdate e + tz) @ r"
    and "\<exists>r. drop 8 ud = ispf_pack_date (chgdate e + tz) @ r"
    and "gmtime_clock (chgdate e + tz) = (h, m, sc) \<Longrightarrow>
      byte_at ud 3 = int_to_bcd sc \<and> byte_at (drop 12 ud) 0 = int_to_bcd h \<and> byte_at (drop 12 ud) 1 = int_to_bcd m"
    and "be16_at ud 14 = ispf_v16 (me_size e)" and "be16_at ud 16 = ispf_v16 (initSize e)"
    and "be16_at ud 18 = ispf_v16 (modCount e)"
    and "\<exists>r. drop 20 ud = u @ replicate (8 - length u) ch_space @ r"
proof -
  obtain h' m' s' where c: "gmtime_clock (chgdate e + tz) = (h', m', s')" by (cases "gmtime_clock (chgdate e + tz)")
  have ud: "ud = [me_ver e, me_mod e, ispf_flags e AND NOT MVS_PDSDIR_ISPF_EXT_STATS, int_to_bcd s']
      @ ispf_pack_date (crdate e + tz) @ ispf_pack_date (chgdate e + tz) @ [int_to_bcd h', int_to_bcd m']
      @ be16_bytes (ispf_v16 (me_size e)) @ be16_bytes (ispf_v16 (initSize e)) @ be16_bytes (ispf_v16 (modCount e))
      @ u @ replicate (8 - length u) ch_space @ [0x40, 0x40]"
    by (simp add: ud_def u_def mvs_encode_ispf_stats_def mvs_utc_to_local_epoch_def Let_def c)
  show "byte_at ud 0 = me_ver e" "byte_at ud 1 = me_mod e"
    "byte_at ud 2 = ispf_flags e AND NOT MVS_PDSDIR_ISPF_EXT_STATS"
    unfolding ud by (simp_all add: byte_at_def)
  show "\<exists>r. drop 4 ud = ispf_pack_date (crdate e + tz) @ r" "\<exists>r. drop 8 ud = ispf_pack_date (chgdate e + tz) @ r"
    "\<exists>r. drop 20 ud = u @ replicate (8 - length u) ch_space @ r"
    unfolding ud by (simp_all add: drop_Cons')
  show "gmtime_clock (chgdate e + tz) = (h, m, sc) \<Longrightarrow>
      byte_at ud 3 = int_to_bcd sc \<and> byte_at (drop 12 ud) 0 = int_to_bcd h \<and> byte_at (drop 12 ud) 1 = int_to_bcd m"
    unfolding ud using c by (simp add: byte_at_def drop_Cons')
  show "be16_at ud 14 = ispf_v16 (me_size e)" "be16_at ud 16 = ispf_v16 (initSize e)" "be16_at ud 18 = ispf_v16 (modCount e)"
    by (subst be16_at_drop, simp add: ud drop_Cons' be16_roundtrip)+
qed

lemma ext_flag_cleared: "(f AND NOT MVS_PDSDIR_ISPF_EXT_STATS) AND MVS_PDSDIR_ISPF_EXT_STATS = 0"
  by (simp add: and.assoc)

text \<open>
  C27. ISPF statistics survive the directory: reading back the user data written for an entry
  gives its version, modification level, change time to the second, line counts up to
  65535 and user. The creation time comes back as the start of its local day and the
  extended-statistics flag is cleared.
\<close>
theorem ispf_stats_roundtrip:
  assumes "\<bar>tz\<bar> \<le> 86400" and "- (2 ^ 31) \<le> chgdate e" and "chgdate e < 2 ^ 31"
    and "86400 - 2 ^ 31 \<le> crdate e" and "crdate e < 2 ^ 31"
    and "0 \<le> me_size e" and "0 \<le> initSize e" and "0 \<le> modCount e"
    and "length (me_user e) \<le> 8" and "0 \<notin> set (me_user e)" and "me_user e \<noteq> [] \<longrightarrow> last (me_user e) \<noteq> ch_space"
  shows "mvs_extract_ispf_stats tz (mvs_encode_ispf_stats tz e) e0 =
    e0\<lparr>info_flags := MVS_PDSDIR_IFLG_ISPFSTATS, me_ver := me_ver e, me_mod := me_mod e,
       ispf_flags := ispf_flags e AND NOT MVS_PDSDIR_ISPF_EXT_STATS,
       crdate := crdate e - (crdate e + tz) mod 86400, chgdate := chgdate e,
       me_size := min (me_size e) 65535, initSize := min (initSize e) 65535,
       modCount := min (modCount e) 65535, me_user := me_user e\<rparr>"
proof -
  let ?ud = "mvs_encode_ispf_stats tz e"
  obtain h m sc where c: "gmtime_clock (chgdate e + tz) = (h, m, sc)" by (cases "gmtime_clock (chgdate e + tz)")
  note cj = clock_join [OF c] and f = encode_fields [where tz = tz and e = e]
  obtain y1 d1 y2 d2 where g: "gmtime_date (crdate e + tz) = (y1, d1)" "gmtime_date (chgdate e + tz) = (y2, d2)"
    by (metis surj_pair)
  have y: "1900 \<le> y1" "y1 < 11900" "1900 \<le> y2" "y2 < 11900"
    using year_of_i32 [OF _ _ g(1)] year_of_i32 [OF _ _ g(2)] assms(1-5) by auto
  have r: "0 \<le> (crdate e + tz) mod 86400" "(crdate e + tz) mod 86400 < 86400" by simp_all
  have cr: "to_i32 (convert_ispf_datetime tz (drop 4 ?ud) None 0) = crdate e - (crdate e + tz) mod 86400"
  proof -
    have "convert_ispf_datetime tz (drop 4 ?ud) None 0 = crdate e - (crdate e + tz) mod 86400"
      using f(4) pack_date_roundtrip [OF g(1) y(1,2), of tz _ None 0] by auto
    then show ?thesis using assms(4,5) r by (simp add: to_i32_id)
  qed
  have bc: "bcd_byte_to_int (int_to_bcd sc) = sc" "bcd_byte_to_int (int_to_bcd h) = h" "bcd_byte_to_int (int_to_bcd m) = m"
    using cj by (simp_all add: bcd_roundtrip)
  have sc8: "uint (word_of_int sc :: u8) = sc" using cj by (simp add: uint_word_of_int)
  have ch: "to_i32 (convert_ispf_datetime tz (drop 8 ?ud) (Some (drop 12 ?ud))
      (uint (word_of_int (bcd_byte_to_int (byte_at ?ud 3)) :: u8))) = chgdate e"
  proof -
    obtain rr where "drop 8 ?ud = ispf_pack_date (chgdate e + tz) @ rr" using f(5) by auto
    then have "convert_ispf_datetime tz (drop 8 ?ud) (Some (drop 12 ?ud)) sc = chgdate e"
      using pack_date_roundtrip [OF g(2) y(3,4), of tz rr "Some (drop 12 ?ud)" sc] f(6) [OF c] bc cj(1) by simp
    then show ?thesis using assms(2,3) f(6) [OF c] bc(1) sc8 by (simp add: to_i32_id)
  qed
  have us: "bytes_to_string (drop 20 ?ud) 8 = me_user e"
    using f(10) assms(9-11) user_roundtrip [of "me_user e"] by auto
  show ?thesis
    unfolding mvs_extract_ispf_stats_def Let_def f(1-3) ext_flag_cleared ch cr
    using assms(6-8) us by (simp add: f(7-9) v16_uint)
qed

theorem ispf_stats_roundtrip_witness:
  "chgdate (mvs_extract_ispf_stats (- 18000) (mvs_encode_ispf_stats (- 18000)
     (fst (mvs_build_write_stats None 3 1700000000))) mvs_pds_member_entry_init) = 1700000000"
proof -
  let ?e = "fst (mvs_build_write_stats None 3 1700000000)"
  have "chgdate ?e = 1700000000" "crdate ?e = 1700000000" "me_size ?e = 3" "initSize ?e = 3" "modCount ?e = 0"
    "me_user ?e = nfsd_user"
    by (simp_all add: mvs_build_write_stats_def to_i32_id)
  then show ?thesis
    using ispf_stats_roundtrip [of "- 18000" ?e mvs_pds_member_entry_init]
    by (simp add: nfsd_user_def ch_space_def)
qed


section \<open>The signature of a directory\<close>

lemma sig_mult_inj: "a * (16777619 :: u32) = b * 16777619 \<longleftrightarrow> a = b"
proof
  assume "a * (16777619 :: u32) = b * 16777619"
  then have "a * 16777619 * 899433627 = b * 16777619 * 899433627" by simp
  moreover have "(16777619 :: u32) * 899433627 = 1" by simp
  ultimately show "a = b" by (simp only: mult.assoc mult_1_right)
qed simp

lemma xor_cancel_u32: "(a :: u32) XOR b = a XOR c \<longleftrightarrow> b = c" "(b :: u32) XOR a = c XOR a \<longleftrightarrow> b = c"
  by (metis xor.left_commute xor_self_eq xor.right_neutral xor.commute)+

lemma sig_step_inj: "sig_step h b = sig_step h' b \<longleftrightarrow> h = h'" "sig_step h b = sig_step h c \<longleftrightarrow> b = c"
  by (simp_all add: sig_step_def sig_mult_inj xor_cancel_u32)

lemma sig_fold_inj: "fold (\<lambda>b h. sig_step h b) bs h = fold (\<lambda>b h. sig_step h b) bs h' \<longleftrightarrow> h = h'"
  by (induction bs arbitrary: h h') (simp_all add: sig_step_inj)

lemma sig_entry_inj: "sig_entry h e = sig_entry h' e \<longleftrightarrow> h = h'"
  by (simp only: sig_entry_def sig_fold_inj)

lemma sig_entries_inj: "fold (\<lambda>e h. sig_entry h e) es h = fold (\<lambda>e h. sig_entry h e) es h' \<longleftrightarrow> h = h'"
  by (induction es arbitrary: h h') (simp_all add: sig_entry_inj)

lemma unat_ucast_u8_u32: "unat (ucast (x :: u8) :: u32) = unat x"
  using unsigned_less [where 'a = nat, of x] by (simp add: unsigned_ucast_eq take_bit_nat_eq_self)

lemma sig_byte_inj: "ucast (a :: u8) = (ucast b :: u32) \<longleftrightarrow> a = b"
  by (metis unat_ucast_u8_u32 word_unat_eq_iff)

lemma sig_entry_rec:
  assumes "first_block_rec e' \<noteq> first_block_rec e" and "me_name e' = me_name e"
    and "first_block_tt e' = first_block_tt e"
  shows "sig_entry h e' \<noteq> sig_entry h e"
  using assms by (simp add: sig_entry_def sig_step_inj sig_byte_inj)

text \<open>
  The directory signature sees every member that is rewritten in place: when one member's
  entry changes only in the record number of its first block, the signature changes, whatever
  the other members are.
\<close>
theorem dir_signature_sees_rewrite:
  assumes "first_block_rec e' \<noteq> first_block_rec e" and "me_name e' = me_name e"
    and "first_block_tt e' = first_block_tt e"
  shows "mvs_pds_dir_sig_calc (es @ e' # fs) \<noteq> mvs_pds_dir_sig_calc (es @ e # fs)"
  using sig_entry_rec [OF assms] by (simp add: mvs_pds_dir_sig_calc_def sig_step_inj sig_entries_inj)

theorem dir_signature_sees_rewrite_witness:
  "mvs_pds_dir_sig_calc [mvs_pds_member_entry_init\<lparr>first_block_rec := 2\<rparr>] \<noteq>
   mvs_pds_dir_sig_calc [mvs_pds_member_entry_init\<lparr>first_block_rec := 1\<rparr>]"
  using dir_signature_sees_rewrite [of "mvs_pds_member_entry_init\<lparr>first_block_rec := 2\<rparr>"
      "mvs_pds_member_entry_init\<lparr>first_block_rec := 1\<rparr>" "[]" "[]"] by simp

end
