(* ===== verification/Pdirlook.thy ===== *)
theory Pdirlook
  imports Pdir
begin

text \<open>
  What the directory scan of \<^verbatim>\<open>src/src/mvspdir.c\<close> finds: the abstract view of a directory is a
  list of raw entries (name, address of the first block, count byte, user data), laid out in
  blocks as the access method writes them.
\<close>

section \<open>Raw entries\<close>

record dir_raw =
  raw_name :: bytes
  raw_tt :: u16
  raw_r :: u8
  raw_c :: u8
  raw_ud :: bytes

definition raw_bytes :: "dir_raw \<Rightarrow> bytes" where
  "raw_bytes r = raw_name r @ be16_bytes (raw_tt r) @ [raw_r r, raw_c r] @ raw_ud r"

definition raw_ok :: "dir_raw \<Rightarrow> bool" where
  "raw_ok r \<longleftrightarrow> length (raw_name r) = 8 \<and> raw_name r \<noteq> MVS_PDSDIR_ENDMARK \<and>
     length (raw_ud r) = unat (raw_c r AND MVS_PDSDIR_USERDATA_COUNT_MASK) * 2"

definition raw_key :: "dir_raw \<Rightarrow> bytes \<times> u16 \<times> u8" where
  "raw_key r = (bytes_to_string (raw_name r) 8, raw_tt r, raw_r r)"

definition entry_key :: "pds_member_entry_t \<Rightarrow> bytes \<times> u16 \<times> u8" where
  "entry_key e = (me_name e, first_block_tt e, first_block_rec e)"

lemma extract_keeps_key: "entry_key (mvs_extract_ispf_stats tz ud e) = entry_key e"
  by (simp add: mvs_extract_ispf_stats_def entry_key_def Let_def)

lemma no_stats_keeps_key: "entry_key (mvs_set_no_ispf_stats now e) = entry_key e"
  by (simp add: mvs_set_no_ispf_stats_def entry_key_def)

lemma byte_at_append: "byte_at (a @ b) (length a + i) = byte_at b i"
  by (simp add: byte_at_def)

lemma raw_at:
  assumes "raw_ok r"
  shows "mem_slice (pre @ raw_bytes r @ post) (length pre) 8 = raw_name r"
    and "entry_key (fst (mvs_pds_member_entry_set tz now (pre @ raw_bytes r @ post) (length pre))) = raw_key r"
    and "snd (mvs_pds_member_entry_set tz now (pre @ raw_bytes r @ post) (length pre)) = length (raw_bytes r)"
    and "mvs_skip_dir_entry (pre @ raw_bytes r @ post) (length pre) = length (raw_bytes r)"
proof -
  let ?b = "pre @ raw_bytes r @ post"
  have l: "length (raw_name r) = 8" and u: "length (raw_ud r) = unat (raw_c r AND MVS_PDSDIR_USERDATA_COUNT_MASK) * 2"
    using assms by (auto simp: raw_ok_def)
  have b: "byte_at ?b (length pre + 10) = raw_r r" "byte_at ?b (length pre + 11) = raw_c r"
    "be16_at ?b (length pre + 8) = raw_tt r"
    using l by (simp_all add: byte_at_append raw_bytes_def byte_at_def nth_append be16_bytes_def)
       (simp add: be16_at_drop [of "_ @ _"] be16_bytes_def be16_roundtrip [unfolded be16_bytes_def, simplified])
  have n: "bytes_to_string (drop (length pre) ?b) 8 = bytes_to_string (raw_name r) 8"
    using l by (simp add: bytes_to_string_def raw_bytes_def)
  show "mem_slice ?b (length pre) 8 = raw_name r" using l by (simp add: mem_slice_def raw_bytes_def)
  show "entry_key (fst (mvs_pds_member_entry_set tz now ?b (length pre))) = raw_key r"
    unfolding mvs_pds_member_entry_set_def Let_def b n
    by (simp add: extract_keeps_key no_stats_keeps_key) (simp add: entry_key_def raw_key_def)
  show "snd (mvs_pds_member_entry_set tz now ?b (length pre)) = length (raw_bytes r)"
    unfolding mvs_pds_member_entry_set_def Let_def b using l u by (simp add: raw_bytes_def be16_bytes_def)
  show "mvs_skip_dir_entry ?b (length pre) = length (raw_bytes r)"
    unfolding mvs_skip_dir_entry_def b using l u by (simp add: raw_bytes_def be16_bytes_def)
qed


section \<open>Blocks\<close>

lemma loop_raws:
  assumes "\<forall>r \<in> set rs. raw_ok r"
    and "blk = pre @ concat (map raw_bytes rs) @ post"
    and "length pre + length (concat (map raw_bytes rs)) \<le> blk_end"
    and "dir_block_loop tz now blk start blk_end (length pre + length (concat (map raw_bytes rs))) = ([], eod)"
  shows "\<exists>es. dir_block_loop tz now blk start blk_end (length pre) = (es, eod) \<and>
    map entry_key es = map raw_key (filter (\<lambda>r. \<not> bytes_less (raw_name r) start) rs)"
  using assms
proof (induction rs arbitrary: pre)
  case (Cons r rs)
  let ?tl = "concat (map raw_bytes rs) @ post"
  have ok: "raw_ok r" and b: "blk = pre @ raw_bytes r @ ?tl" using Cons.prems by auto
  note at = raw_at [OF ok, where pre = pre and post = ?tl, folded b]
  have pos: "0 < length (raw_bytes r)" using ok by (simp add: raw_bytes_def raw_ok_def)
  have "length pre + length (raw_bytes r) \<le> blk_end" using Cons.prems(3) by simp
  then have lt: "length pre < blk_end" using pos by linarith
  have nm: "raw_name r \<noteq> MVS_PDSDIR_ENDMARK" using ok by (simp add: raw_ok_def)
  obtain es where es: "dir_block_loop tz now blk start blk_end (length pre + length (raw_bytes r)) = (es, eod)"
    "map entry_key es = map raw_key (filter (\<lambda>r. \<not> bytes_less (raw_name r) start) rs)"
    using Cons.IH [of "pre @ raw_bytes r"] Cons.prems by (auto simp: add.assoc)
  show ?case
  proof (cases "bytes_less (raw_name r) start")
    case True
    then show ?thesis using lt nm at es
      by (subst dir_block_loop.simps) simp
  next
    case False
    obtain e n where en: "mvs_pds_member_entry_set tz now blk (length pre) = (e, n)" by (metis surj_pair)
    then have "entry_key e = raw_key r" "n = length (raw_bytes r)" using at(2,3) [of tz now] by simp_all
    then show ?thesis using lt nm at(1) es False en
      by (subst dir_block_loop.simps) simp
  qed
qed simp

text \<open>A block of 256 bytes with its entries, the last one with the end mark behind them.\<close>

definition block_holds :: "bytes \<Rightarrow> dir_raw list \<Rightarrow> bool \<Rightarrow> bool" where
  "block_holds blk rs at_end \<longleftrightarrow> length blk = 256 \<and> (\<forall>r \<in> set rs. raw_ok r) \<and>
     (\<exists>n post. blk = be16_bytes n @ concat (map raw_bytes rs) @ post \<and>
        (if at_end then 2 + length (concat (map raw_bytes rs)) < unat n \<and> take 8 post = MVS_PDSDIR_ENDMARK
         else unat n = 2 + length (concat (map raw_bytes rs))))"

fun dir_holds :: "bytes list \<Rightarrow> dir_raw list list \<Rightarrow> bool" where
  "dir_holds [b] [rs] = block_holds b rs True"
| "dir_holds (b # bs) (rs # rss) = (block_holds b rs False \<and> dir_holds bs rss)"
| "dir_holds bs rss = False"

lemma block_scan:
  assumes "block_holds blk rs at_end"
  shows "\<exists>es. mvs_process_dir_block tz now blk start = (es, at_end) \<and>
    map entry_key es = map raw_key (filter (\<lambda>r. \<not> bytes_less (raw_name r) start) rs)"
proof -
  obtain n post where b: "blk = be16_bytes n @ concat (map raw_bytes rs) @ post"
    and e: "if at_end then 2 + length (concat (map raw_bytes rs)) < unat n \<and> take 8 post = MVS_PDSDIR_ENDMARK
         else unat n = 2 + length (concat (map raw_bytes rs))"
    and ok: "\<forall>r \<in> set rs. raw_ok r"
    using assms by (auto simp: block_holds_def)
  have n: "be16_at blk 0 = n" unfolding b by (rule be16_roundtrip)
  let ?p = "2 + length (concat (map raw_bytes rs))"
  have sl: "mem_slice blk ?p 8 = take 8 post" by (simp add: b mem_slice_def be16_bytes_def)
  have "dir_block_loop tz now blk start (unat n) ?p = ([], at_end)"
    using e sl by (cases at_end) (subst dir_block_loop.simps, simp)+
  then show ?thesis
    using loop_raws [OF ok b, of "unat n" tz now start at_end] e n
    by (auto simp: mvs_process_dir_block_def split: if_splits)
qed

lemma dir_scan_step:
  assumes b: "block_holds b rs False" and r: "mvs_read_pds_dir tz now start bs = (es', True)"
    and k: "map entry_key es' = map raw_key (filter (\<lambda>r. \<not> bytes_less (raw_name r) start) (concat rss))"
  shows "\<exists>es. mvs_read_pds_dir tz now start (b # bs) = (es, True) \<and>
    map entry_key es = map raw_key (filter (\<lambda>r. \<not> bytes_less (raw_name r) start) (concat (rs # rss)))"
proof -
  obtain es where "mvs_process_dir_block tz now b start = (es, False)"
    "map entry_key es = map raw_key (filter (\<lambda>r. \<not> bytes_less (raw_name r) start) rs)"
    using block_scan [OF b] by blast
  moreover have "length b = 256" using b by (simp add: block_holds_def)
  ultimately show ?thesis using r k by simp
qed

lemma dir_scan:
  "dir_holds bs rss \<Longrightarrow> \<exists>es. mvs_read_pds_dir tz now start bs = (es, True) \<and>
    map entry_key es = map raw_key (filter (\<lambda>r. \<not> bytes_less (raw_name r) start) (concat rss))"
proof (induction bs rss rule: dir_holds.induct, goal_cases)
  case (1 b rs)
  then show ?case using block_scan [of b rs True tz now start] by (auto simp: block_holds_def)
next
  case (2 b b' bs rs rss)
  then show ?case using dir_scan_step [of b rs tz now start "b' # bs" _ rss]
    by (auto simp del: mvs_read_pds_dir.simps)
next
  case (3 b bs rs rs' rss)
  then have "block_holds b rs False" "dir_holds bs (rs' # rss)" by (cases bs; simp)+
  then show ?case using 3 dir_scan_step [of b rs tz now start bs _ "rs' # rss"]
    by (auto simp del: mvs_read_pds_dir.simps)
qed auto

section \<open>Names\<close>

text \<open>A name in a directory is padded with blanks; its characters are above the blank.\<close>

definition pad_name :: "nat \<Rightarrow> bytes \<Rightarrow> bytes" where
  "pad_name k n = n @ replicate (k - length n) ch_space"

definition plain_name :: "bytes \<Rightarrow> bool" where
  "plain_name n \<longleftrightarrow> (\<forall>c \<in> set n. ch_space < c)"

lemma plain_name_Cons [simp]: "plain_name (c # n) \<longleftrightarrow> ch_space < c \<and> plain_name n"
  by (auto simp: plain_name_def)

lemma plain_name_Nil [simp]: "plain_name []" by (simp add: plain_name_def)

lemma plain_no_nul: "plain_name n \<Longrightarrow> 0 \<notin> set n"
  by (auto simp: plain_name_def ch_space_def)

lemma pad_not_below_blanks: "plain_name n \<Longrightarrow> length n \<le> k \<Longrightarrow> \<not> bytes_less (pad_name k n) (replicate k ch_space)"
proof (cases n)
  case Nil
  have "\<not> bytes_less (replicate j ch_space) (replicate j ch_space)" for j by (induction j) auto
  then show ?thesis using Nil by (simp add: pad_name_def)
next
  case (Cons c n')
  assume "plain_name n" "length n \<le> k"
  then show ?thesis using Cons by (cases k) (auto simp: pad_name_def)
qed

lemma start_cut:
  assumes "plain_name n" and "plain_name m" and "length n \<le> k" and "length m \<le> k"
  shows "bytes_less (pad_name k n) (take k (m @ 0 # t)) \<longleftrightarrow> bytes_less (pad_name k n) (pad_name k m)"
  using assms
proof (induction m arbitrary: n k)
  case Nil
  have "\<not> bytes_less (pad_name k n) (take k (0 # t))"
    using Nil by (cases k; cases n) (auto simp: pad_name_def ch_space_def)
  then show ?case using pad_not_below_blanks [OF Nil(1,3)] by (simp add: pad_name_def)
next
  case (Cons c m)
  then obtain j where k: "k = Suc j" by (cases k) auto
  then show ?case using Cons by (cases n) (auto simp: pad_name_def)
qed

lemma bytes_less_irrefl [simp]: "\<not> bytes_less a a"
  by (induction a) auto

lemma bytes_less_trans: "bytes_less a b \<Longrightarrow> bytes_less b c \<Longrightarrow> bytes_less a c"
proof (induction a b arbitrary: c rule: bytes_less.induct)
  case (1 a as b bs)
  then show ?case by (cases c) auto
next
  case (2 b bs)
  then show ?case by (cases c) auto
qed auto

lemma pad_to_string: "plain_name n \<Longrightarrow> length n \<le> 8 \<Longrightarrow> bytes_to_string (pad_name 8 n) 8 = n"
  using user_roundtrip [of n "[]"] plain_no_nul [of n]
  by (cases n rule: rev_cases) (auto simp: pad_name_def plain_name_def)


section \<open>Looking a member up\<close>

text \<open>A directory in ascending order of plain names.\<close>

definition dir_sorted :: "dir_raw list \<Rightarrow> bool" where
  "dir_sorted rs \<longleftrightarrow> sorted_wrt (\<lambda>a b. bytes_less (raw_name a) (raw_name b)) rs \<and>
     (\<forall>r \<in> set rs. \<exists>n. plain_name n \<and> length n \<le> 8 \<and> raw_name r = pad_name 8 n)"

lemma filter_from_present:
  assumes "dir_sorted rs" and "r \<in> set rs" and "\<not> bytes_less (raw_name r) x" and "\<And>q. q \<in> set rs \<Longrightarrow> bytes_less (raw_name q) (raw_name r) \<Longrightarrow> bytes_less (raw_name q) x"
  shows "\<exists>t. filter (\<lambda>q. \<not> bytes_less (raw_name q) x) rs = r # t"
proof -
  obtain as bs where s: "rs = as @ r # bs" using assms(2) by (auto simp: in_set_conv_decomp)
  have "\<forall>q \<in> set as. bytes_less (raw_name q) (raw_name r)"
    using assms(1) by (auto simp: dir_sorted_def s sorted_wrt_append)
  then have "filter (\<lambda>q. \<not> bytes_less (raw_name q) x) as = []" using assms(4) s by (auto simp: filter_empty_conv)
  then show ?thesis using s assms(3) by simp
qed

text \<open>
  C12. The lookup of a member is exact: in a directory laid out in blocks, in ascending order
  of its blank-padded names and closed by the end mark, a member is found exactly when the
  directory has it, with the address of its own entry, whatever bytes lie behind the name the
  caller passes; otherwise the error is ENOENT.
\<close>
theorem pds_lookup_exact:
  assumes d: "dir_holds bs rss" and so: "dir_sorted (concat rss)" and dn: "dirs dsname = Some bs" "length dsname \<le> 44"
    and m: "plain_name member" "length member \<le> 8"
  shows "case mvs_pds_get_member_entry dirs tz now tl_bytes dsname member of
      Inr e \<Rightarrow> \<exists>r \<in> set (concat rss). raw_name r = pad_name 8 member \<and> entry_key e = raw_key r
    | Inl err \<Rightarrow> err = ENOENT \<and> (\<forall>r \<in> set (concat rss). raw_name r \<noteq> pad_name 8 member)"
proof -
  let ?x = "take 8 (member @ 0 # tl_bytes)"
  let ?f = "filter (\<lambda>r. \<not> bytes_less (raw_name r) ?x) (concat rss)"
  have cut: "bytes_less (raw_name r) ?x \<longleftrightarrow> bytes_less (raw_name r) (pad_name 8 member)" if "r \<in> set (concat rss)" for r
    using that so start_cut m by (fastforce simp: dir_sorted_def)
  have key: "fst (raw_key r) = member \<longleftrightarrow> raw_name r = pad_name 8 member" if "r \<in> set (concat rss)" for r
    using that so m by (fastforce simp: dir_sorted_def raw_key_def pad_to_string)
  obtain es where es: "mvs_read_pds_dir tz now ?x bs = (es, True)" "map entry_key es = map raw_key ?f"
    using dir_scan [OF d] by blast
  have ml: "mvs_pds_member_list dirs tz now dsname ?x = Some (es, True)"
    using es(1) dn by (simp add: mvs_pds_member_list_def)
  have pres: "\<exists>t. ?f = r # t" if "r \<in> set (concat rss)" "raw_name r = pad_name 8 member" for r
  proof (rule filter_from_present [OF so that(1)])
    show "\<not> bytes_less (raw_name r) ?x" using cut [OF that(1)] that(2) by simp
  qed (use cut that(2) in simp)
  show ?thesis
  proof (cases es)
    case Nil
    then have "\<forall>r \<in> set (concat rss). raw_name r \<noteq> pad_name 8 member" using es(2) pres by fastforce
    then show ?thesis using ml Nil by (simp add: mvs_pds_get_member_entry_def)
  next
    case (Cons e es')
    then obtain r t where f: "?f = r # t" and ek: "entry_key e = raw_key r" using es(2) by (cases ?f) auto
    have "r \<in> set ?f" unfolding f by simp
    then have rs: "r \<in> set (concat rss)" by simp
    have nm: "me_name e = fst (raw_key r)" using ek by (simp add: entry_key_def flip: ek)
    show ?thesis
    proof (cases "me_name e = member")
      case True
      then have "raw_name r = pad_name 8 member" using nm key [OF rs] by simp
      then show ?thesis using ml Cons True rs ek by (auto simp: mvs_pds_get_member_entry_def)
    next
      case False
      then have "raw_name r \<noteq> pad_name 8 member" using nm key [OF rs] by simp
      then have "\<forall>q \<in> set (concat rss). raw_name q \<noteq> pad_name 8 member" using pres f by fastforce
      then show ?thesis using ml Cons False by (simp add: mvs_pds_get_member_entry_def)
    qed
  qed
qed

text \<open>A directory of one block with the member \<^verbatim>\<open>A\<close>.\<close>

definition sample_raw :: dir_raw where
  "sample_raw = \<lparr>raw_name = pad_name 8 [0xC1], raw_tt = 1, raw_r = 2, raw_c = 0, raw_ud = []\<rparr>"

definition sample_dir_block :: bytes where
  "sample_dir_block = be16_bytes 26 @ raw_bytes sample_raw @ MVS_PDSDIR_ENDMARK @ replicate 234 0"

theorem pds_lookup_exact_witness:
  "case mvs_pds_get_member_entry (\<lambda>_. Some [sample_dir_block]) 0 0 [0xFF] [0xC4] [0xC1] of
      Inr e \<Rightarrow> entry_key e = ([0xC1], 1, 2) | Inl err \<Rightarrow> err = ENOENT \<and> False"
proof -
  have p: "plain_name [0xC1]" by (simp add: ch_space_def)
  have "length (pad_name 8 [0xC1]) = 8" by (simp add: pad_name_def)
  moreover have "hd (pad_name 8 [0xC1]) \<noteq> hd MVS_PDSDIR_ENDMARK"
    by (simp add: pad_name_def MVS_PDSDIR_ENDMARK_def hd_replicate)
  ultimately have ok: "raw_ok sample_raw" by (auto simp: raw_ok_def sample_raw_def)
  have lb: "length (raw_bytes sample_raw) = 12"
    by (simp add: raw_bytes_def sample_raw_def be16_bytes_def pad_name_def)
  have "length sample_dir_block = 256" "take 8 (MVS_PDSDIR_ENDMARK @ replicate 234 0) = MVS_PDSDIR_ENDMARK"
    using lb by (simp_all add: sample_dir_block_def be16_bytes_def MVS_PDSDIR_ENDMARK_def)
  then have "block_holds sample_dir_block [sample_raw] True"
    unfolding block_holds_def using ok lb
    by (intro conjI exI [of _ 26] exI [of _ "MVS_PDSDIR_ENDMARK @ replicate 234 0"]) (simp_all add: sample_dir_block_def)
  then have h: "dir_holds [sample_dir_block] [[sample_raw]]" by simp
  have s: "dir_sorted (concat [[sample_raw]])" using p by (auto simp: dir_sorted_def sample_raw_def intro!: exI [of _ "[0xC1]"])
  have k: "raw_key sample_raw = ([0xC1], 1, 2)"
    using pad_to_string [OF p] by (simp add: raw_key_def sample_raw_def)
  show ?thesis
    using pds_lookup_exact [OF h s, of "\<lambda>_. Some [sample_dir_block]" "[0xC4]" "[0xC1]" 0 0 "[0xFF]"] p k
    by (auto simp: sample_raw_def split: sum.splits)
qed

end
