(* ===== verification/Slotpool.thy ===== *)
theory Slotpool
  imports Main
begin

text \<open>
  The contract of the fixed pools of the server: the open directories, the read positions, the
  cached file sizes and the pending members are all kept in arrays from which an operation picks
  an element to reuse. A pick lies in the array, and is an idle element whenever there is one.
  What every client relies on follows: the new element is there, at most one busy element is
  lost, and only when all are busy, and keys stay unique.
\<close>

locale slot_pool =
  fixes busy :: "'t \<Rightarrow> 'a \<Rightarrow> bool" and pick :: "'t \<Rightarrow> 'a list \<Rightarrow> nat"
  assumes pick_bound: "xs \<noteq> [] \<Longrightarrow> pick t xs < length xs"
    and pick_idle: "x \<in> set xs \<Longrightarrow> \<not> busy t x \<Longrightarrow> \<not> busy t (xs ! pick t xs)"
begin

lemma placed: "xs \<noteq> [] \<Longrightarrow> y \<in> set (xs[pick t xs := y])"
  using pick_bound by (simp add: set_update_memI)

lemma survives: "i < length xs \<Longrightarrow> i \<noteq> pick t xs \<Longrightarrow> xs[pick t xs := y] ! i = xs ! i"
  by simp

lemma lost_only_when_full:
  assumes "x \<in> set xs" and "busy t x" and "x \<notin> set (xs[pick t xs := y])"
  shows "x = xs ! pick t xs \<and> (\<forall>z \<in> set xs. busy t z)"
proof -
  obtain i where i: "i < length xs" "xs ! i = x" using assms(1) by (auto simp: in_set_conv_nth)
  have "i = pick t xs"
    using assms(3) i by (metis length_list_update nth_list_update_neq nth_mem)
  then show ?thesis using i assms(2) pick_idle by metis
qed

text \<open>Keys of the elements that count as present stay unique when a fresh key is placed.\<close>

lemma keys_unique:
  assumes "\<forall>i < length xs. \<forall>j < length xs. p (xs ! i) \<longrightarrow> p (xs ! j) \<longrightarrow> key (xs ! i) = key (xs ! j) \<longrightarrow> i = j"
    and "\<forall>x \<in> set xs. p x \<longrightarrow> key x \<noteq> key y" and "xs \<noteq> []"
  shows "\<forall>i < length (xs[pick t xs := y]). \<forall>j < length (xs[pick t xs := y]).
    p (xs[pick t xs := y] ! i) \<longrightarrow> p (xs[pick t xs := y] ! j) \<longrightarrow>
    key (xs[pick t xs := y] ! i) = key (xs[pick t xs := y] ! j) \<longrightarrow> i = j"
  using assms pick_bound [OF assms(3), of t] by (auto simp: nth_list_update split: if_splits)

end

text \<open>The least element by a stamp, as the loops over the arrays find it.\<close>

fun lru_scan :: "('a \<Rightarrow> int) \<Rightarrow> 'a list \<Rightarrow> nat \<Rightarrow> nat \<Rightarrow> int \<Rightarrow> nat" where
  "lru_scan f [] i lru w = lru"
| "lru_scan f (x # xs) i lru w = (if f x < w then lru_scan f xs (i + 1) i (f x) else lru_scan f xs (i + 1) lru w)"

lemma lru_scan_bound: "lru < i + length xs \<Longrightarrow> lru_scan f xs i lru w < i + length xs"
proof (induction xs arbitrary: i lru w)
  case (Cons x xs)
  then show ?case using Cons.IH [of "i" "i + 1"] Cons.IH [of lru "i + 1"] by (auto simp: less_Suc_eq)
qed simp

end
