(* ===== verification/Dol.thy ===== *)
theory Dol
  imports Pdirlook Slotpool
begin

text \<open>
  The list of open directories, \<^verbatim>\<open>src/src/mvsdol.c\<close>: a pool of eight directory objects, each
  with the member list it has read, reused when free, expired or least recently used, and the
  search in a member list. An object's member list is a list; keeping its allocated space over
  a reuse is not modelled. An open handle is the directory blocks still to be read. The time is a parameter of every operation.
\<close>

section \<open>The pool\<close>

definition MAX_OPEN_DIRS :: nat where "MAX_OPEN_DIRS = 8"
definition MVSVFS_DIR_OPENLIST_TIMEOUT_SECS :: int where "MVSVFS_DIR_OPENLIST_TIMEOUT_SECS = 30"

record vfs_dir =
  vd_used :: bool
  dir_level :: int
  vd_export :: int
  vd_dataset :: int
  pds_fh :: "bytes list option"
  pds_dsname :: bytes
  next_cookie :: u64
  member_list :: "pds_member_entry_t list"
  end_of_dir_read :: bool
  last_used_time :: int

definition vfs_dir_zero :: vfs_dir where
  "vfs_dir_zero = \<lparr>vd_used = False, dir_level = 0, vd_export = 0, vd_dataset = 0, pds_fh = None,
     pds_dsname = [], next_cookie = 0, member_list = [], end_of_dir_read = False, last_used_time = 0\<rparr>"

definition dir_openlist_claim :: "int \<Rightarrow> vfs_dir \<Rightarrow> vfs_dir" where
  "dir_openlist_claim now slot = vfs_dir_zero\<lparr>last_used_time := now\<rparr>"

definition dir_openlist_init :: "vfs_dir list" where
  "dir_openlist_init = replicate MAX_OPEN_DIRS vfs_dir_zero"

definition dir_expired :: "int \<Rightarrow> vfs_dir \<Rightarrow> bool" where
  "dir_expired now d \<longleftrightarrow> MVSVFS_DIR_OPENLIST_TIMEOUT_SECS < now - last_used_time d"

text \<open>The first free or expired object; \<open>lru\<close> is the oldest one seen so far.\<close>

fun dol_scan :: "int \<Rightarrow> vfs_dir list \<Rightarrow> nat \<Rightarrow> nat \<Rightarrow> int \<Rightarrow> nat" where
  "dol_scan now [] i lru lru_age = lru"
| "dol_scan now (d # ds) i lru lru_age =
     (if \<not> vd_used d \<or> dir_expired now d then i
      else let age = now - last_used_time d in
        if lru_age < age then dol_scan now ds (i + 1) i age else dol_scan now ds (i + 1) lru lru_age)"

definition dir_openlist_find_free :: "int \<Rightarrow> vfs_dir list \<Rightarrow> nat \<times> vfs_dir list" where
  "dir_openlist_find_free now pool =
     (let i = dol_scan now pool 0 0 (now - last_used_time (hd pool))
      in (i, pool[i := dir_openlist_claim now (pool ! i)]))"

definition dir_openlist_free :: "nat \<Rightarrow> vfs_dir list \<Rightarrow> vfs_dir list" where
  "dir_openlist_free i pool = pool[i := vfs_dir_zero]"

definition dir_openlist_find_by_dsname :: "int \<Rightarrow> bytes \<Rightarrow> vfs_dir list \<Rightarrow> nat option \<times> vfs_dir list" where
  "dir_openlist_find_by_dsname now dsn pool =
     (case find (\<lambda>i. vd_used (pool ! i) \<and> \<not> dir_expired now (pool ! i) \<and> pds_dsname (pool ! i) = dsn)
             [0..<length pool] of
        None \<Rightarrow> (None, pool)
      | Some i \<Rightarrow> (Some i, pool[i := (pool ! i)\<lparr>last_used_time := now\<rparr>]))"

definition dir_openlist_invalidate :: "bytes \<Rightarrow> vfs_dir list \<Rightarrow> vfs_dir list" where
  "dir_openlist_invalidate dsn pool =
     map (\<lambda>d. if vd_used d \<and> pds_dsname d = dsn then vfs_dir_zero else d) pool"

section \<open>The pool as a slot pool\<close>

lemma dol_scan_props:
  "lru < i + length ds \<Longrightarrow> dol_scan now ds i lru w < i + length ds \<and>
     (d \<in> set ds \<longrightarrow> \<not> (vd_used d \<and> \<not> dir_expired now d) \<longrightarrow>
       i \<le> dol_scan now ds i lru w \<and>
       \<not> (vd_used (ds ! (dol_scan now ds i lru w - i)) \<and> \<not> dir_expired now (ds ! (dol_scan now ds i lru w - i))))"
proof (induction ds arbitrary: i lru w)
  case (Cons a ds)
  have n: "(a # ds) ! (x - i) = ds ! (x - (i + 1))" if "i + 1 \<le> x" for x
    using that Suc_diff_Suc [of i x] by (metis Suc_eq_plus1 Suc_le_eq nth_Cons_Suc)
  show ?case using Cons.prems Cons.IH [of i "i + 1" "now - last_used_time a"] Cons.IH [of lru "i + 1" w]
    by (auto simp: Let_def less_Suc_eq n)
qed simp

definition dir_busy :: "int \<Rightarrow> vfs_dir \<Rightarrow> bool" where
  "dir_busy now d \<longleftrightarrow> vd_used d \<and> \<not> dir_expired now d"

interpretation open_dirs: slot_pool dir_busy "\<lambda>now pool. fst (dir_openlist_find_free now pool)"
proof
  fix pool :: "vfs_dir list" and now d
  let ?w = "now - last_used_time (hd pool)"
  show "pool \<noteq> [] \<Longrightarrow> fst (dir_openlist_find_free now pool) < length pool"
    using dol_scan_props [of 0 0 pool now ?w] by (simp add: dir_openlist_find_free_def Let_def)
  show "d \<in> set pool \<Longrightarrow> \<not> dir_busy now d \<Longrightarrow> \<not> dir_busy now (pool ! fst (dir_openlist_find_free now pool))"
    using dol_scan_props [of 0 0 pool now ?w d] by (cases pool) (auto simp: dir_openlist_find_free_def Let_def dir_busy_def)
qed

section \<open>Searching a member list\<close>

definition SEARCH_OP_LT :: u8 where "SEARCH_OP_LT = 1"
definition SEARCH_OP_EQ :: u8 where "SEARCH_OP_EQ = 2"
definition SEARCH_OP_GT :: u8 where "SEARCH_OP_GT = 4"
definition SEARCH_OP_LE :: u8 where "SEARCH_OP_LE = SEARCH_OP_LT OR SEARCH_OP_EQ"
definition SEARCH_OP_GE :: u8 where "SEARCH_OP_GE = SEARCH_OP_GT OR SEARCH_OP_EQ"

text \<open>The index of an equal name, or the lower end of the slice when it is used up.\<close>

function dol_search_loop :: "bytes list \<Rightarrow> bytes \<Rightarrow> int \<Rightarrow> int \<Rightarrow> int + int" where
  "dol_search_loop names m lo hi =
     (if lo \<le> hi then
        (let mid = (lo + hi) div 2; c = names ! nat mid
         in if bytes_less c m then dol_search_loop names m (mid + 1) hi
            else if bytes_less m c then dol_search_loop names m lo (mid - 1)
            else Inl mid)
      else Inr lo)"
  by pat_completeness auto
termination by (relation "measure (\<lambda>(names, m, lo, hi). nat (hi - lo + 1))") auto

declare dol_search_loop.simps [simp del]

definition dol_after_slice :: "u8 \<Rightarrow> int \<Rightarrow> int \<Rightarrow> int option" where
  "dol_after_slice op n lo =
     (if op AND SEARCH_OP_GT \<noteq> 0 then (if lo < n then Some lo else None)
      else if op AND SEARCH_OP_LT \<noteq> 0 then (if 0 < lo then Some (lo - 1) else None)
      else None)"

definition dir_openlist_search_members :: "bytes list \<Rightarrow> bytes \<Rightarrow> u8 \<Rightarrow> int option" where
  "dir_openlist_search_members names m op =
     (let n = int (length names) in
      if n = 0 then None
      else case dol_search_loop names m 0 (n - 1) of
          Inl mid \<Rightarrow>
            if op AND SEARCH_OP_EQ \<noteq> 0 then Some mid
            else if op AND SEARCH_OP_GT \<noteq> 0 then dol_after_slice op n (mid + 1)
            else if 0 < mid then Some (mid - 1) else None
        | Inr lo \<Rightarrow> dol_after_slice op n lo)"

section \<open>The search finds the nearest member\<close>

definition names_ascend :: "bytes list \<Rightarrow> bool" where
  "names_ascend names \<longleftrightarrow> sorted_wrt bytes_less names"

lemma bytes_less_total: "bytes_less a b \<or> a = b \<or> bytes_less b a"
proof (induction a b rule: bytes_less.induct)
  case (1 a as b bs)
  then show ?case by (cases "a = b") (auto simp: neq_iff)
next
  case (3 as)
  then show ?case by (cases as) auto
qed auto

lemma bytes_less_asym: "bytes_less a b \<Longrightarrow> \<not> bytes_less b a"
  using bytes_less_trans bytes_less_irrefl by blast

lemma ascend_nth: "names_ascend names \<Longrightarrow> i < j \<Longrightarrow> j < length names \<Longrightarrow> bytes_less (names ! i) (names ! j)"
  by (simp add: names_ascend_def sorted_wrt_iff_nth_less)

text \<open>What the loop knows: names before the slice are smaller, names behind it are larger.\<close>

definition slice_inv :: "bytes list \<Rightarrow> bytes \<Rightarrow> int \<Rightarrow> int \<Rightarrow> bool" where
  "slice_inv names m lo hi \<longleftrightarrow> 0 \<le> lo \<and> lo \<le> hi + 1 \<and> hi < int (length names) \<and>
     (\<forall>i < length names. (int i < lo \<longrightarrow> bytes_less (names ! i) m) \<and> (hi < int i \<longrightarrow> bytes_less m (names ! i)))"

lemma slice_up:
  assumes "names_ascend names" and "slice_inv names m lo hi" and "lo \<le> k" "k \<le> hi" and "bytes_less (names ! nat k) m"
  shows "slice_inv names m (k + 1) hi"
proof -
  have "bytes_less (names ! i) m" if "i < length names" "int i < k + 1" for i
  proof (cases "int i = k")
    case True
    then show ?thesis using assms(5) by (metis nat_int)
  next
    case False
    then have "bytes_less (names ! i) (names ! nat k)" using assms that by (intro ascend_nth) (auto simp: slice_inv_def)
    then show ?thesis using assms(5) bytes_less_trans by blast
  qed
  then show ?thesis using assms by (auto simp: slice_inv_def)
qed

lemma slice_down:
  assumes "names_ascend names" and "slice_inv names m lo hi" and "lo \<le> k" "k \<le> hi" and "bytes_less m (names ! nat k)"
  shows "slice_inv names m lo (k - 1)"
proof -
  have "bytes_less m (names ! i)" if "i < length names" "k - 1 < int i" for i
  proof (cases "int i = k")
    case True
    then show ?thesis using assms(5) by (metis nat_int)
  next
    case False
    then have "bytes_less (names ! nat k) (names ! i)" using assms that by (intro ascend_nth) (auto simp: slice_inv_def)
    then show ?thesis using assms(5) bytes_less_trans by blast
  qed
  then show ?thesis using assms by (auto simp: slice_inv_def)
qed

lemma search_loop_spec:
  assumes "names_ascend names" and "slice_inv names m lo hi"
  shows "case dol_search_loop names m lo hi of
      Inl k \<Rightarrow> 0 \<le> k \<and> k < int (length names) \<and> names ! nat k = m
    | Inr k \<Rightarrow> slice_inv names m k (k - 1)"
  using assms
proof (induction names m lo hi rule: dol_search_loop.induct)
  case (1 names m lo hi)
  let ?k = "(lo + hi) div 2" and ?c = "names ! nat ((lo + hi) div 2)"
  show ?case
  proof (cases "lo \<le> hi")
    case True
    have k: "lo \<le> ?k" "?k \<le> hi" using True by auto
    consider "bytes_less ?c m" | "\<not> bytes_less ?c m" "bytes_less m ?c" | "\<not> bytes_less ?c m" "\<not> bytes_less m ?c" "?c = m"
      using bytes_less_total by blast
    then show ?thesis
    proof cases
      case 1
      then show ?thesis using "1.IH"(1) [OF True refl refl] "1.prems" slice_up k True
        by (subst dol_search_loop.simps) (simp add: Let_def)
    next
      case 2
      then show ?thesis using "1.IH"(2) [OF True refl refl] "1.prems" slice_down k True
        by (subst dol_search_loop.simps) (simp add: Let_def)
    next
      case 3
      then show ?thesis using "1.prems" k True
        by (subst dol_search_loop.simps) (auto simp: Let_def slice_inv_def)
    qed
  next
    case False
    then have "hi = lo - 1" using "1.prems"(2) by (simp add: slice_inv_def)
    then show ?thesis using "1.prems" False by (simp add: dol_search_loop.simps)
  qed
qed


text \<open>Where the loop ends, every name is placed by its index alone.\<close>

lemma search_loop_places:
  fixes names :: "bytes list" and m :: bytes
  assumes a: "names_ascend names" and ne: "names \<noteq> []"
  defines "r \<equiv> dol_search_loop names m 0 (int (length names) - 1)"
  shows "r = Inl k \<Longrightarrow> 0 \<le> k \<and> k < int (length names) \<and> (\<forall>i < length names.
      (bytes_less (names ! i) m \<longleftrightarrow> int i < k) \<and> (bytes_less m (names ! i) \<longleftrightarrow> k < int i) \<and> (names ! i = m \<longleftrightarrow> int i = k))"
    and "r = Inr k \<Longrightarrow> 0 \<le> k \<and> k \<le> int (length names) \<and> (\<forall>i < length names.
      (bytes_less (names ! i) m \<longleftrightarrow> int i < k) \<and> (bytes_less m (names ! i) \<longleftrightarrow> k \<le> int i) \<and> names ! i \<noteq> m)"
proof -
  have "slice_inv names m 0 (int (length names) - 1)" using ne by (simp add: slice_inv_def)
  note sp = search_loop_spec [OF a this, folded r_def]
  show "0 \<le> k \<and> k < int (length names) \<and> (\<forall>i < length names.
      (bytes_less (names ! i) m \<longleftrightarrow> int i < k) \<and> (bytes_less m (names ! i) \<longleftrightarrow> k < int i) \<and> (names ! i = m \<longleftrightarrow> int i = k))"
    if "r = Inl k"
  proof -
    have k: "0 \<le> k" "k < int (length names)" "names ! nat k = m" using sp that by auto
    have "bytes_less (names ! i) m" if "int i < k" for i using ascend_nth [OF a, of i "nat k"] k that by auto
    moreover have "bytes_less m (names ! i)" if "k < int i" "i < length names" for i
      using ascend_nth [OF a, of "nat k" i] k that by auto
    ultimately show ?thesis using k bytes_less_asym bytes_less_irrefl by (metis int_nat_eq linorder_less_linear nat_int)
  qed
  show "0 \<le> k \<and> k \<le> int (length names) \<and> (\<forall>i < length names.
      (bytes_less (names ! i) m \<longleftrightarrow> int i < k) \<and> (bytes_less m (names ! i) \<longleftrightarrow> k \<le> int i) \<and> names ! i \<noteq> m)"
    if "r = Inr k"
  proof -
    have sl: "slice_inv names m k (k - 1)" using sp that by simp
    then have "bytes_less (names ! i) m \<or> bytes_less m (names ! i)" if "i < length names" for i
      using that by (cases "int i < k") (auto simp: slice_inv_def)
    then show ?thesis using sl bytes_less_asym bytes_less_irrefl unfolding slice_inv_def by force
  qed
qed

definition search_matches :: "bytes list \<Rightarrow> bytes \<Rightarrow> u8 \<Rightarrow> nat \<Rightarrow> bool" where
  "search_matches names m op i \<longleftrightarrow> i < length names \<and>
     (op AND SEARCH_OP_LT \<noteq> 0 \<and> bytes_less (names ! i) m \<or> op AND SEARCH_OP_EQ \<noteq> 0 \<and> names ! i = m \<or>
      op AND SEARCH_OP_GT \<noteq> 0 \<and> bytes_less m (names ! i))"

lemmas search_ops = SEARCH_OP_LT_def SEARCH_OP_EQ_def SEARCH_OP_GT_def SEARCH_OP_LE_def SEARCH_OP_GE_def

text \<open>
  The search in a member list is the search for the nearest match: in a list in ascending
  order, for each of the five operators, nothing is returned exactly when no member stands in
  the asked relation to the name; otherwise the member returned does, and it is the first such
  member for the operators that look upwards and the last one for the others.
\<close>
theorem search_members_nearest:
  assumes a: "names_ascend names"
    and op: "op \<in> {SEARCH_OP_LT, SEARCH_OP_EQ, SEARCH_OP_GT, SEARCH_OP_LE, SEARCH_OP_GE}"
  shows "case dir_openlist_search_members names m op of
      None \<Rightarrow> \<forall>i. \<not> search_matches names m op i
    | Some k \<Rightarrow> 0 \<le> k \<and> search_matches names m op (nat k) \<and>
        (\<forall>i. search_matches names m op i \<longrightarrow> (if op AND SEARCH_OP_GT \<noteq> 0 then nat k \<le> i else i \<le> nat k))"
proof (cases "names = []")
  case True
  then show ?thesis by (simp add: dir_openlist_search_members_def search_matches_def)
next
  case ne: False
  note pl = search_loop_places [OF a ne]
  show ?thesis
  proof (cases "dol_search_loop names m 0 (int (length names) - 1)")
    case (Inl k)
    then have "0 \<le> k \<and> k < int (length names) \<and> (\<forall>i < length names.
      (bytes_less (names ! i) m \<longleftrightarrow> int i < k) \<and> (bytes_less m (names ! i) \<longleftrightarrow> k < int i) \<and> (names ! i = m \<longleftrightarrow> int i = k))"
      by (rule pl(1))
    then show ?thesis using op ne Inl
      by (auto simp: dir_openlist_search_members_def dol_after_slice_def search_matches_def Let_def search_ops)
  next
    case (Inr k)
    then have "0 \<le> k \<and> k \<le> int (length names) \<and> (\<forall>i < length names.
      (bytes_less (names ! i) m \<longleftrightarrow> int i < k) \<and> (bytes_less m (names ! i) \<longleftrightarrow> k \<le> int i) \<and> names ! i \<noteq> m)"
      by (rule pl(2))
    moreover have "nat (int (length names) - 1) < length names" using ne by (cases names) auto
    ultimately show ?thesis using op ne Inr
      by (auto simp: dir_openlist_search_members_def dol_after_slice_def search_matches_def Let_def search_ops)
  qed
qed

theorem search_members_nearest_witness:
  "dir_openlist_search_members [[0xC1], [0xC1, 0xC2], [0xC4]] [0xC3] SEARCH_OP_GE = Some 2 \<and>
   search_matches [[0xC1], [0xC1, 0xC2], [0xC4]] [0xC3] SEARCH_OP_GE 2"
proof -
  have "dir_openlist_search_members [[0xC1], [0xC1, 0xC2], [0xC4]] [0xC3] SEARCH_OP_GE = Some 2" by code_simp
  moreover have "names_ascend [[0xC1], [0xC1, 0xC2], [0xC4]]" by (simp add: names_ascend_def)
  ultimately show ?thesis
    using search_members_nearest [of "[[0xC1], [0xC1, 0xC2], [0xC4]]" SEARCH_OP_GE "[0xC3]"] by simp
qed

end
