(* ===== verification/Flush.thy ===== *)
theory Flush
  imports Admit Dol
begin

text \<open>
  Writing a pending member to its data set, \<^verbatim>\<open>src/src/mvspwfl.c\<close>: the table of data sets
  recently found full, the writing of a member under a recovery routine, its statistics, and
  the flush of a slot. The state is that of the write-back layer as a whole, shared with
  \<^verbatim>\<open>src/src/mvspww.c\<close>: the slots, the export table, the list of open directories, the full
  table and the flag that asks for a shutdown. What the system does is a script of outcomes,
  one per call that can fail (enqueue, allocation, opening, writing and closing the member,
  STOW); every call succeeds once the script is used up. Text a member holds after a write is
  \<open>lib\<close>, the user data of its directory entry \<open>dir_ud\<close>. Setting up the recovery routine is
  taken to succeed. The directories as they were before the operation, the volume table, the
  names the allocation gives, the byte left in fresh memory and the zone offset are the
  parameters \<open>env\<close>.
\<close>

section \<open>State\<close>

datatype sys_out = SysOk | SysFail | SysAbend nat

fun sys_next :: "sys_out list \<Rightarrow> sys_out \<times> sys_out list" where
  "sys_next [] = (SysOk, [])"
| "sys_next (x # xs) = (x, xs)"

type_synonym member_key = "bytes \<times> bytes"

record mvs_env =
  env_vtoc :: vtoc_t
  env_dirs :: pds_dirs
  env_ddname :: "bytes \<Rightarrow> bytes \<Rightarrow> bytes"
  env_junk :: u8
  env_tz :: int
  env_tail :: bytes

record pww_state =
  pool :: "pending_member_t list"
  pexports :: "export_t list"
  dir_pool :: "vfs_dir list"
  g_pww_full :: "(bytes \<times> int) list"
  g_fatal_abend :: bool
  spill_io :: faults
  sysq :: "sys_out list"
  enqs :: "bytes list"
  lib :: "member_key \<Rightarrow> bytes option"
  dir_ud :: "member_key \<Rightarrow> bytes option"

section \<open>Data sets known to be full\<close>

definition PWW_FULL_REMEMBER :: nat where "PWW_FULL_REMEMBER = 4"
definition PWW_FULL_EXPIRY_SEC :: int where "PWW_FULL_EXPIRY_SEC = 60"

text \<open>The loop of \<^verbatim>\<open>pdsflush_dataset_mark_full\<close>: the entry to use and whether it is the data set's own.\<close>

fun full_slot :: "bytes \<Rightarrow> (bytes \<times> int) list \<Rightarrow> nat \<Rightarrow> nat \<Rightarrow> int \<Rightarrow> nat" where
  "full_slot dsn [] i oldest owhen = oldest"
| "full_slot dsn ((d, when') # ts) i oldest owhen =
     (if when' \<noteq> 0 \<and> d = dsn then i
      else if when' < owhen then full_slot dsn ts (i + 1) i when'
      else full_slot dsn ts (i + 1) oldest owhen)"

definition pdsflush_dataset_mark_full :: "bytes \<Rightarrow> int \<Rightarrow> (bytes \<times> int) list \<Rightarrow> (bytes \<times> int) list" where
  "pdsflush_dataset_mark_full dsn now tab =
     tab[full_slot dsn tab 0 0 (snd (hd tab)) := (take (MAX_DSNAME_LEN - 1) dsn, now)]"

definition pdsflush_dataset_clear_full :: "bytes \<Rightarrow> (bytes \<times> int) list \<Rightarrow> (bytes \<times> int) list" where
  "pdsflush_dataset_clear_full dsn tab =
     map (\<lambda>(d, when'). if when' \<noteq> 0 \<and> d = dsn then (d, 0) else (d, when')) tab"

text \<open>Whether the data set is in the table; entries passed on the way that have expired are dropped.\<close>

fun pdsflush_dataset_is_full :: "bytes \<Rightarrow> int \<Rightarrow> (bytes \<times> int) list \<Rightarrow> bool \<times> (bytes \<times> int) list" where
  "pdsflush_dataset_is_full dsn now [] = (False, [])"
| "pdsflush_dataset_is_full dsn now ((d, when') # ts) =
     (if when' = 0 then (let (r, ts') = pdsflush_dataset_is_full dsn now ts in (r, (d, when') # ts'))
      else if PWW_FULL_EXPIRY_SEC < now - when' then
        (let (r, ts') = pdsflush_dataset_is_full dsn now ts in (r, (d, 0) # ts'))
      else if d = dsn then (True, (d, when') # ts)
      else (let (r, ts') = pdsflush_dataset_is_full dsn now ts in (r, (d, when') # ts')))"

definition pdsflush_abend_recoverable :: "nat \<Rightarrow> bool" where
  "pdsflush_abend_recoverable code \<longleftrightarrow> code = 0xB14 \<or> code = 0xB37 \<or> code = 0xD37 \<or> code = 0xE37"

section \<open>Writing a member\<close>

definition PWW_XLATE :: nat where "PWW_XLATE = 4096"

text \<open>
  How the writing ends: with the line count, with an error return, or with an abend. A slot's
  scratch file and the member's text change on the way.
\<close>

datatype flush_out = FlOk int | FlErr | FlAbend nat

text \<open>Closing the file after a failure: the return code is ignored, an abend is not.\<close>

definition close_after_error :: "sys_out list \<Rightarrow> flush_out \<times> sys_out list" where
  "close_after_error ss =
     (case sys_next ss of (SysAbend c, ss') \<Rightarrow> (FlAbend c, ss') | (_, ss') \<Rightarrow> (FlErr, ss'))"

text \<open>
  The loop over chunks from \<open>off\<close> up to the high-water mark \<open>hw\<close>, with the count of line ends
  and the last byte so far. The text written is appended to \<open>out\<close>.
\<close>

function write_chunks ::
  "nat \<Rightarrow> pending_member_t \<Rightarrow> nat \<Rightarrow> int \<Rightarrow> u8 \<Rightarrow> bytes \<Rightarrow> faults \<Rightarrow> sys_out list
     \<Rightarrow> flush_out \<times> u8 \<times> pending_member_t \<times> bytes \<times> faults \<times> sys_out list" where
  "write_chunks hw pm off lines lst out fs ss =
     (if off < hw then
        (let n = min (hw - off) PWW_XLATE in
         case pww_read_range pm (of_nat off) (of_nat n) fs of
           (None, pm', fs') \<Rightarrow>
             (let (r, ss') = close_after_error ss in (r, lst, pm', out, fs', ss'))
         | (Some d, pm', fs') \<Rightarrow>
             (case sys_next ss of
                 (SysFail, ss1) \<Rightarrow>
                   (let (r, ss') = close_after_error ss1 in (r, lst, pm', out, fs', ss'))
               | (SysAbend c, ss') \<Rightarrow> (FlAbend c, lst, pm', out, fs', ss')
               | (SysOk, ss') \<Rightarrow>
                   write_chunks hw pm' (off + n) (lines + count_lf d) (last d) (out @ ascii_to_ebcdic d) fs' ss'))
      else (FlOk lines, lst, pm, out, fs, ss))"
  by pat_completeness auto
termination
  by (relation "measure (\<lambda>(hw, pm, off, r). hw - off)") (auto simp: PWW_XLATE_def)

declare write_chunks.simps [simp del]

text \<open>The result, and the slot, the member's text (nothing when it was not opened) and the scripts.\<close>

definition pdsflush_write_member ::
  "pending_member_t \<Rightarrow> faults \<Rightarrow> sys_out list
     \<Rightarrow> flush_out \<times> pending_member_t \<times> bytes option \<times> faults \<times> sys_out list" where
  "pdsflush_write_member pm fs ss =
     (case sys_next ss of
        (SysFail, ss1) \<Rightarrow> (FlErr, pm, None, fs, ss1)
      | (SysAbend c, ss1) \<Rightarrow> (FlAbend c, pm, None, fs, ss1)
      | (SysOk, ss1) \<Rightarrow>
          (case write_chunks (unat (high_water pm)) pm 0 0 0 [] fs ss1 of
             (FlOk lines, lst, pm', out, fs', ss2) \<Rightarrow>
               (let lines' = (if 0 < high_water pm \<and> lst \<noteq> 0x0A then lines + 1 else lines) in
                case sys_next ss2 of
                  (SysOk, ss3) \<Rightarrow> (FlOk lines', pm', Some out, fs', ss3)
                | (SysFail, ss3) \<Rightarrow> (FlErr, pm', Some out, fs', ss3)
                | (SysAbend c, ss3) \<Rightarrow> (FlAbend c, pm', Some out, fs', ss3))
           | (r, lst, pm', out, fs', ss2) \<Rightarrow> (r, pm', Some out, fs', ss2)))"

definition slot_key :: "pending_member_t \<Rightarrow> member_key" where
  "slot_key pm = (pm_dsname pm, pm_member pm)"

definition put_slot :: "nat \<Rightarrow> pending_member_t \<Rightarrow> pww_state \<Rightarrow> pww_state" where
  "put_slot i pm s = s\<lparr>pool := (pool s)[i := pm]\<rparr>"

text \<open>
  The guarded write of slot \<open>i\<close>: the number of lines or an error number, and whether an abend
  was intercepted. An error number of the run-time library is not known to the sources.
\<close>

definition pdsflush_write_member_guarded ::
  "int \<Rightarrow> nat \<Rightarrow> pww_state \<Rightarrow> (errno_t + int) \<times> bool \<times> pww_state" where
  "pdsflush_write_member_guarded now i s =
     (let (r, pm', out, fs', ss') = pdsflush_write_member (pool s ! i) (spill_io s) (sysq s);
          k = slot_key (pool s ! i);
          s1 = (put_slot i pm' s)\<lparr>spill_io := fs', sysq := ss',
                  lib := (case out of None \<Rightarrow> lib s | Some t \<Rightarrow> (lib s)(k \<mapsto> t))\<rparr>
      in case r of
           FlOk lines \<Rightarrow> (Inr lines, False, s1)
         | FlErr \<Rightarrow> (Inl EOTHER, False, s1)
         | FlAbend code \<Rightarrow>
             if pdsflush_abend_recoverable code
             then (Inl ENOSPC, True, s1\<lparr>g_pww_full := pdsflush_dataset_mark_full (fst k) now (g_pww_full s)\<rparr>)
             else (Inl EIO, True, s1\<lparr>g_fatal_abend := True\<rparr>))"

section \<open>Statistics and the flush\<close>

definition pdsflush_apply_stats :: "member_key \<Rightarrow> bytes \<Rightarrow> pww_state \<Rightarrow> sys_out \<times> pww_state" where
  "pdsflush_apply_stats k ud s =
     (case sys_next (sysq s) of
        (SysOk, ss1) \<Rightarrow>
          (case sys_next ss1 of
             (SysOk, ss2) \<Rightarrow> (SysOk, s\<lparr>sysq := ss2, dir_ud := (dir_ud s)(k \<mapsto> ud)\<rparr>)
           | (r, ss2) \<Rightarrow> (r, s\<lparr>sysq := ss2\<rparr>))
      | (r, ss1) \<Rightarrow> (r, s\<lparr>sysq := ss1\<rparr>))"

definition pdsflush_apply_stats_guarded :: "member_key \<Rightarrow> bytes \<Rightarrow> pww_state \<Rightarrow> pww_state" where
  "pdsflush_apply_stats_guarded k ud s =
     (case pdsflush_apply_stats k ud s of
        (SysAbend code, s1) \<Rightarrow> if pdsflush_abend_recoverable code then s1 else s1\<lparr>g_fatal_abend := True\<rparr>
      | (_, s1) \<Rightarrow> s1)"

definition clean_slot :: "nat \<Rightarrow> pww_state \<Rightarrow> pww_state" where
  "clean_slot i s = put_slot i ((pool s ! i)\<lparr>dirty := False\<rparr>) s"

definition pdsflush_slot :: "mvs_env \<Rightarrow> int \<Rightarrow> nat \<Rightarrow> pww_state \<Rightarrow> errno_t option \<times> pww_state" where
  "pdsflush_slot env now i s =
     (let pm = pool s ! i;
          (full, tab) = pdsflush_dataset_is_full (pm_dsname pm) now (g_pww_full s);
          s0 = s\<lparr>g_pww_full := tab\<rparr>
      in if full then (Some ENOSPC, clean_slot i s0)
         else
           let existing = (case mvs_pds_get_member_entry (env_dirs env) (env_tz env) now (env_tail env)
                                 (pm_dsname pm) (pm_member pm) of Inl _ \<Rightarrow> None | Inr e \<Rightarrow> Some e)
           in case pdsflush_write_member_guarded now i s0 of
                (Inl err, abended, s1) \<Rightarrow> (Some err, if abended then clean_slot i s1 else s1)
              | (Inr line_count, _, s1) \<Rightarrow>
                  let s2 = (clean_slot i s1)\<lparr>g_pww_full := pdsflush_dataset_clear_full (pm_dsname pm) (g_pww_full s1)\<rparr>;
                      (new_stats, want) = mvs_build_write_stats existing line_count now;
                      s3 = (if want then pdsflush_apply_stats_guarded (slot_key pm)
                                           (mvs_encode_ispf_stats (env_tz env) new_stats) s2
                            else s2)
                  in (None, s3\<lparr>pexports := export_dataset_touch (of_int now) (pm_export pm) (pm_dataset pm) (pexports s3),
                               dir_pool := dir_openlist_invalidate (pm_dsname pm) (dir_pool s3)\<rparr>))"


section \<open>The full table\<close>

lemma full_slot_bound: "oldest < i + length tab \<Longrightarrow> full_slot dsn tab i oldest w < i + length tab"
proof (induction dsn tab i oldest w rule: full_slot.induct)
  case (2 dsn d w ts i oldest owhen)
  then show ?case using 2(1,2) by (auto simp: less_Suc_eq)
qed simp

lemma mark_full_length [simp]: "length (pdsflush_dataset_mark_full dsn now tab) = length tab"
  by (simp add: pdsflush_dataset_mark_full_def)

lemma is_full_length [simp]: "length (snd (pdsflush_dataset_is_full dsn now tab)) = length tab"
  by (induction tab) (auto simp: split_def Let_def)

lemma is_full_iff:
  "fst (pdsflush_dataset_is_full dsn now tab) \<longleftrightarrow>
     (\<exists>t. (dsn, t) \<in> set tab \<and> t \<noteq> 0 \<and> now - t \<le> PWW_FULL_EXPIRY_SEC)"
proof (induction tab)
  case (Cons p ts)
  then show ?case by (cases p) (auto simp: split_def Let_def)
qed simp

lemma clear_full_absent: "(dsn, t) \<in> set (pdsflush_dataset_clear_full dsn tab) \<Longrightarrow> t = 0"
  by (auto simp: pdsflush_dataset_clear_full_def split: if_splits)

text \<open>
  A data set found full is remembered for a minute: after it is marked, a query within
  sixty seconds says full; a query later than sixty seconds after every mark the table has for
  it, or after the mark is cleared, does not; the table keeps its size.
\<close>
theorem full_table_memory:
  assumes "tab \<noteq> []" and "length dsn < MAX_DSNAME_LEN" and "t \<noteq> 0"
  shows "(now - t \<le> PWW_FULL_EXPIRY_SEC \<longrightarrow> fst (pdsflush_dataset_is_full dsn now (pdsflush_dataset_mark_full dsn t tab))) \<and>
    ((\<forall>u. (dsn, u) \<in> set tab \<longrightarrow> PWW_FULL_EXPIRY_SEC < now - u) \<longrightarrow> PWW_FULL_EXPIRY_SEC < now - t \<longrightarrow>
      \<not> fst (pdsflush_dataset_is_full dsn now (pdsflush_dataset_mark_full dsn t tab))) \<and>
    \<not> fst (pdsflush_dataset_is_full dsn now (pdsflush_dataset_clear_full dsn tab)) \<and>
    length (pdsflush_dataset_mark_full dsn t tab) = length tab"
proof (intro conjI)
  have n: "take (MAX_DSNAME_LEN - 1) dsn = dsn" using assms(2) by simp
  let ?k = "full_slot dsn tab 0 0 (snd (hd tab))"
  have k: "?k < length tab" using full_slot_bound [of 0 0 tab dsn "snd (hd tab)"] assms(1) by simp
  have m: "pdsflush_dataset_mark_full dsn t tab = tab[?k := (dsn, t)]" unfolding pdsflush_dataset_mark_full_def n ..
  have "(dsn, t) \<in> set (pdsflush_dataset_mark_full dsn t tab)" unfolding m using k by (simp add: set_update_memI)
  then show "now - t \<le> PWW_FULL_EXPIRY_SEC \<longrightarrow> fst (pdsflush_dataset_is_full dsn now (pdsflush_dataset_mark_full dsn t tab))"
    using assms(3) by (auto simp: is_full_iff)
  have "set (pdsflush_dataset_mark_full dsn t tab) \<subseteq> insert (dsn, t) (set tab)" unfolding m by (rule set_update_subset_insert)
  then show "(\<forall>u. (dsn, u) \<in> set tab \<longrightarrow> PWW_FULL_EXPIRY_SEC < now - u) \<longrightarrow> PWW_FULL_EXPIRY_SEC < now - t \<longrightarrow>
      \<not> fst (pdsflush_dataset_is_full dsn now (pdsflush_dataset_mark_full dsn t tab))"
    by (fastforce simp: is_full_iff)
qed (auto simp: is_full_iff dest: clear_full_absent)

theorem full_table_memory_witness:
  "fst (pdsflush_dataset_is_full [0xC1] 130 (pdsflush_dataset_mark_full [0xC1] 100 (replicate 4 ([], 0)))) \<and>
   \<not> fst (pdsflush_dataset_is_full [0xC1] 161 (pdsflush_dataset_mark_full [0xC1] 100 (replicate 4 ([], 0))))"
  using full_table_memory [of "replicate 4 ([], 0)" "[0xC1]" 100 130]
    full_table_memory [of "replicate 4 ([], 0)" "[0xC1]" 100 161]
  by (simp add: PWW_FULL_EXPIRY_SEC_def MAX_DSNAME_LEN_def)

section \<open>The text that is written\<close>

lemma ascii_to_ebcdic_append: "ascii_to_ebcdic (a @ b) = ascii_to_ebcdic a @ ascii_to_ebcdic b"
  by (simp add: ascii_to_ebcdic_def)

lemma count_lf_append: "count_lf (a @ b) = count_lf a + count_lf b"
  by (simp add: count_lf_def)

lemma drop_slice: "off + n \<le> length c \<Longrightarrow> drop off c = mem_slice c off n @ drop (off + n) c"
  by (simp add: mem_slice_def drop_drop add.commute flip: drop_drop)

lemma write_chunks_ok:
  assumes "pm_wf pm" and "hw = unat (high_water pm)" and "off \<le> hw"
  shows "\<exists>pm'. write_chunks hw pm off lines lst out [] [] =
      (FlOk (lines + count_lf (drop off (pm_content pm))), if off < hw then last (pm_content pm) else lst, pm',
       out @ ascii_to_ebcdic (drop off (pm_content pm)), [], []) \<and>
      pm_wf pm' \<and> pm_content pm' = pm_content pm \<and> same_slot pm pm' \<and> high_water pm' = high_water pm"
  using assms
proof (induction "hw - off" arbitrary: pm off lines lst out rule: less_induct)
  case less
  have lc: "length (pm_content pm) = hw" using less.prems pm_wf_length by simp
  show ?case
  proof (cases "off < hw")
    case False
    then show ?thesis using less.prems lc
      by (subst write_chunks.simps) (simp add: count_lf_def ascii_to_ebcdic_def)
  next
    case True
    define n where "n = min (hw - off) PWW_XLATE"
    let ?c = "pm_content pm"
    define d where "d = mem_slice ?c off n"
    have n: "0 < n" "off + n \<le> hw" using True by (auto simp: n_def PWW_XLATE_def)
    have dec: "hw - (off + n) < hw - off" using n by simp
    have "hw \<le> SPILL_MAX" using less.prems pm_wf_max by simp
    then have un: "unat (of_nat off :: u32) = off" "unat (of_nat n :: u32) = n"
      using n by (auto simp: unat_of_nat SPILL_MAX_def intro!: mod_less)
    obtain p where p: "pww_read_range pm (of_nat off) (of_nat n) [] = (Some d, p, [])" "pm_wf p"
      "pm_content p = ?c" "high_water p = high_water pm"
      using read_range_content [OF less.prems(1), of "of_nat off" "of_nat n"] n less.prems(2) unfolding un d_def by metis
    have sl: "drop off ?c = d @ drop (off + n) ?c" unfolding d_def using n lc by (intro drop_slice) simp
    have ld: "off + n = hw \<Longrightarrow> last d = last ?c"
      using sl lc n(1) True by (metis append_Nil2 drop_all le_refl last_drop)
    obtain p' where p': "write_chunks hw p (off + n) (lines + count_lf d) (last d) (out @ ascii_to_ebcdic d) [] [] =
        (FlOk (lines + count_lf d + count_lf (drop (off + n) ?c)), if off + n < hw then last ?c else last d, p',
         (out @ ascii_to_ebcdic d) @ ascii_to_ebcdic (drop (off + n) ?c), [], [])"
      "pm_wf p'" "pm_content p' = ?c" "same_slot p p'" "high_water p' = high_water pm"
      using less.hyps [OF dec p(2), of "lines + count_lf d" "last d" "out @ ascii_to_ebcdic d"] p n less.prems(2)
      by auto
    have "write_chunks hw pm off lines lst out [] [] =
        write_chunks hw p (off + n) (lines + count_lf d) (last d) (out @ ascii_to_ebcdic d) [] []"
      using True p(1) by (subst write_chunks.simps) (simp add: Let_def n_def)
    then show ?thesis
      using p' read_range_same [OF p(1)] same_slot_trans True ld n(2)
      by (auto simp: sl count_lf_append ascii_to_ebcdic_append)
  qed
qed


lemma count_lines_content:
  assumes "pm_wf pm"
  shows "(if 0 < high_water pm \<and> last (pm_content pm) \<noteq> 0x0A then count_lf (pm_content pm) + 1 else count_lf (pm_content pm))
    = mvs_ispf_count_lines (pm_content pm)"
  using pm_wf_length [OF assms] by (auto simp: mvs_ispf_count_lines_def count_lf_def word_less_nat_alt)

lemma write_member_ok:
  assumes wf: "pm_wf pm"
  obtains pm' where "pdsflush_write_member pm [] [] =
      (FlOk (mvs_ispf_count_lines (pm_content pm)), pm', Some (ascii_to_ebcdic (pm_content pm)), [], [])"
    and "pm_wf pm'" and "pm_content pm' = pm_content pm" and "same_slot pm pm'" and "high_water pm' = high_water pm"
proof -
  let ?c = "pm_content pm" and ?h = "unat (high_water pm)"
  obtain pm' where p: "write_chunks ?h pm 0 0 0 [] [] [] =
      (FlOk (count_lf ?c), if 0 < ?h then last ?c else 0, pm', ascii_to_ebcdic ?c, [], [])"
    "pm_wf pm'" "pm_content pm' = ?c" "same_slot pm pm'" "high_water pm' = high_water pm"
    using write_chunks_ok [OF wf refl, of 0 0 0 "[]"] by auto
  have "(if 0 < high_water pm \<and> (if 0 < ?h then last ?c else 0) \<noteq> 0x0A then count_lf ?c + 1 else count_lf ?c)
      = mvs_ispf_count_lines ?c"
    using count_lines_content [OF wf] by (auto simp: word_less_nat_alt)
  then have "pdsflush_write_member pm [] [] = (FlOk (mvs_ispf_count_lines ?c), pm', Some (ascii_to_ebcdic ?c), [], [])"
    using p(1) by (simp add: pdsflush_write_member_def Let_def)
  then show ?thesis using that p by blast
qed

lemma apply_stats_guarded_keeps:
  "pool (pdsflush_apply_stats_guarded k ud s) = pool s" "pexports (pdsflush_apply_stats_guarded k ud s) = pexports s"
  "dir_pool (pdsflush_apply_stats_guarded k ud s) = dir_pool s" "g_pww_full (pdsflush_apply_stats_guarded k ud s) = g_pww_full s"
  "spill_io (pdsflush_apply_stats_guarded k ud s) = spill_io s" "enqs (pdsflush_apply_stats_guarded k ud s) = enqs s"
  "lib (pdsflush_apply_stats_guarded k ud s) = lib s"
  by (auto simp: pdsflush_apply_stats_guarded_def pdsflush_apply_stats_def split: prod.splits sys_out.splits)

lemma is_full_entries: "(d, t) \<in> set (snd (pdsflush_dataset_is_full dsn now tab)) \<Longrightarrow> t = 0 \<or> (d, t) \<in> set tab"
proof (induction tab)
  case (Cons p ts)
  then show ?case by (cases p) (auto simp: split_def Let_def split: if_splits)
qed simp

lemma flush_slot_ok:
  assumes "i < length (pool s)" and "pm_wf (pool s ! i)" and "spill_io s = []" and "sysq s = []"
    and "\<not> fst (pdsflush_dataset_is_full (pm_dsname (pool s ! i)) now (g_pww_full s))"
  shows "\<exists>s' pm'. pdsflush_slot env now i s = (None, s') \<and> pool s' = (pool s)[i := pm'] \<and> \<not> dirty pm' \<and> pm_wf pm' \<and>
    pm_content pm' = pm_content (pool s ! i) \<and> slot_key pm' = slot_key (pool s ! i) \<and>
    lib s' = (lib s)(slot_key (pool s ! i) \<mapsto> ascii_to_ebcdic (pm_content (pool s ! i))) \<and>
    \<not> fst (pdsflush_dataset_is_full (pm_dsname (pool s ! i)) now (g_pww_full s')) \<and>
    (\<forall>d \<in> set (dir_pool s'). \<not> (vd_used d \<and> pds_dsname d = pm_dsname (pool s ! i))) \<and>
    spill_io s' = [] \<and> sysq s' = [] \<and> enqs s' = enqs s \<and>
    (\<forall>d t. (d, t) \<in> set (g_pww_full s') \<longrightarrow> t = 0 \<or> (d, t) \<in> set (g_pww_full s))"
proof -
  let ?pm = "pool s ! i"
  obtain tab where tab: "pdsflush_dataset_is_full (pm_dsname ?pm) now (g_pww_full s) = (False, tab)"
    using assms(5) by (cases "pdsflush_dataset_is_full (pm_dsname ?pm) now (g_pww_full s)") auto
  obtain p where p: "pdsflush_write_member ?pm [] [] =
      (FlOk (mvs_ispf_count_lines (pm_content ?pm)), p, Some (ascii_to_ebcdic (pm_content ?pm)), [], [])"
    "pm_wf p" "pm_content p = pm_content ?pm" "same_slot ?pm p" "high_water p = high_water ?pm"
    using write_member_ok [OF assms(2)] by blast
  let ?q = "p\<lparr>dirty := False\<rparr>"
  have q: "pm_wf ?q" "pm_content ?q = pm_content ?pm" "slot_key ?q = slot_key ?pm"
    using p by (auto simp: pm_wf_def pm_content_def has_spill_file_open_def slot_key_def same_slot_fields)
  have cl: "\<not> fst (pdsflush_dataset_is_full dsn now (pdsflush_dataset_clear_full dsn t))" for dsn t
    by (auto simp: is_full_iff dest: clear_full_absent)
  have inv: "\<forall>d \<in> set (dir_openlist_invalidate dsn ds). \<not> (vd_used d \<and> pds_dsname d = dsn)" for dsn ds
    by (auto simp: dir_openlist_invalidate_def vfs_dir_zero_def split: if_splits)
  have ts: "t = 0 \<or> (d, t) \<in> set (g_pww_full s)" if "(d, t) \<in> set (pdsflush_dataset_clear_full dsn tab)" for d t dsn
    using that is_full_entries [of d t "pm_dsname ?pm" now "g_pww_full s"] tab
    by (auto simp: pdsflush_dataset_clear_full_def split: if_splits)
  have sq: "sysq (pdsflush_apply_stats_guarded k ud x) = []" if "sysq x = []" for k ud x
    using that by (simp add: pdsflush_apply_stats_guarded_def pdsflush_apply_stats_def)
  show ?thesis
    using assms(1,3,4) p(1) q cl inv ts
    by (auto simp: pdsflush_slot_def tab pdsflush_write_member_guarded_def Let_def clean_slot_def put_slot_def
        apply_stats_guarded_keeps sq split: prod.splits intro!: exI [of _ ?q])
qed


text \<open>
  A flush writes the member: for a slot whose data set is not known to be full, when the
  scratch file and the system calls work, the flush succeeds, the member's text in the data
  set is the slot's content translated to EBCDIC, the slot is clean and holds the same bytes,
  no other member's text changes, the data set is not marked full, no open directory of the
  data set is left and the locks held stay.
\<close>
theorem flush_stores_member:
  assumes "i < length (pool s)" and "pm_wf (pool s ! i)" and "spill_io s = []" and "sysq s = []"
    and "\<not> fst (pdsflush_dataset_is_full (pm_dsname (pool s ! i)) now (g_pww_full s))"
  shows "\<exists>s' pm'. pdsflush_slot env now i s = (None, s') \<and> pool s' = (pool s)[i := pm'] \<and> \<not> dirty pm' \<and> pm_wf pm' \<and>
    pm_content pm' = pm_content (pool s ! i) \<and> slot_key pm' = slot_key (pool s ! i) \<and>
    lib s' = (lib s)(slot_key (pool s ! i) \<mapsto> ascii_to_ebcdic (pm_content (pool s ! i))) \<and>
    \<not> fst (pdsflush_dataset_is_full (pm_dsname (pool s ! i)) now (g_pww_full s')) \<and>
    (\<forall>d \<in> set (dir_pool s'). \<not> (vd_used d \<and> pds_dsname d = pm_dsname (pool s ! i))) \<and>
    spill_io s' = [] \<and> enqs s' = enqs s"
  using flush_slot_ok [OF assms, of env] by blast

definition flush_env :: mvs_env where
  "flush_env = \<lparr>env_vtoc = admit_vtoc, env_dirs = (\<lambda>_. None), env_ddname = (\<lambda>_ _. [0xC4]),
     env_junk = 0xEE, env_tz = 0, env_tail = []\<rparr>"

definition flush_state :: pww_state where
  "flush_state = \<lparr>pool = [admit_slot\<lparr>buf := [0x41, 0x0A], high_water := 2, dirty := True\<rparr>],
     pexports = admit_exports, dir_pool = [], g_pww_full = [], g_fatal_abend = False, spill_io = [],
     sysq = [], enqs = [], lib = Map.empty, dir_ud = Map.empty\<rparr>"

theorem flush_stores_member_witness:
  "\<exists>s'. pdsflush_slot flush_env 100 0 flush_state = (None, s') \<and> lib s' ([0xC1], [0xC2]) = Some [0xC1, 0x15]"
proof -
  let ?pm = "pool flush_state ! 0"
  have "pm_wf ?pm" "pm_content ?pm = [0x41, 0x0A]" "slot_key ?pm = ([0xC1], [0xC2])"
    by (simp_all add: flush_state_def admit_slot_def pending_zero_def pm_wf_def pm_content_def
        has_spill_file_open_def spill_zero_def slot_key_def PWW_SPILL_THRESHOLD_def)
  moreover have "ascii_to_ebcdic [0x41, 0x0A] = [0xC1, 0x15]" by code_simp
  moreover have "length (pool flush_state) = 1" "spill_io flush_state = []" "sysq flush_state = []" "g_pww_full flush_state = []"
    by (simp_all add: flush_state_def)
  ultimately show ?thesis using flush_stores_member [of 0 flush_state 100 flush_env] by auto
qed

end
