(* ===== verification/Pww.thy ===== *)
theory Pww
  imports Flush
begin

text \<open>
  The pool of pending members, \<^verbatim>\<open>src/src/mvspww.c\<close>: eight slots, each with the enqueue and the
  allocation that protect its member, filled by create, write and truncate and emptied by
  flushing, discarding or eviction. The state is that of \<^verbatim>\<open>Flush\<close>. Calls that run without a
  recovery routine only return; for them an abend in the script counts as a failing return
  code. The tables that feed the performance log (recent flushes, gaps between writes) and the
  log messages, such as the search for RPC headers in written data, are left out.
\<close>

section \<open>Locks\<close>

definition pad_to :: "nat \<Rightarrow> bytes \<Rightarrow> bytes" where
  "pad_to n s = take n s @ replicate (n - length s) ch_space"

definition pww_spfedit_rname :: "bytes \<Rightarrow> bytes \<Rightarrow> bytes" where
  "pww_spfedit_rname dsn member = pad_to 44 dsn @ pad_to 8 member"

definition slot_rname :: "pending_member_t \<Rightarrow> bytes" where
  "slot_rname pm = pww_spfedit_rname (pm_dsname pm) (pm_member pm)"

definition sys_call :: "pww_state \<Rightarrow> sys_out \<times> pww_state" where
  "sys_call s = (let (r, ss) = sys_next (sysq s) in (r, s\<lparr>sysq := ss\<rparr>))"

definition enq_add :: "bytes \<Rightarrow> pww_state \<Rightarrow> pww_state" where
  "enq_add r s = s\<lparr>enqs := r # enqs s\<rparr>"

definition enq_del :: "bytes \<Rightarrow> pww_state \<Rightarrow> pww_state" where
  "enq_del r s = s\<lparr>enqs := remove1 r (enqs s)\<rparr>"

definition pww_lock :: "mvs_env \<Rightarrow> nat \<Rightarrow> pww_state \<Rightarrow> errno_t option \<times> pww_state" where
  "pww_lock env i s =
     (let pm = pool s ! i; rname = slot_rname pm; (r, s1) = sys_call s in
      if r \<noteq> SysOk then (Some EACCES, s1)
      else let s2 = put_slot i (pm\<lparr>enq_held := True\<rparr>) (enq_add rname s1); (r2, s3) = sys_call s2 in
        if r2 \<noteq> SysOk then
          let (r3, s4) = sys_call s3
          in (Some EIO, put_slot i (pm\<lparr>enq_held := False\<rparr>) (if r3 = SysOk then enq_del rname s4 else s4))
        else (None, put_slot i (pm\<lparr>enq_held := True, allocated := True,
                ddname := strip_trailing ch_space (cstr (take 8 (env_ddname env (pm_dsname pm) (pm_member pm))))\<rparr>) s3))"

definition pww_unalloc_guarded :: "nat \<Rightarrow> pww_state \<Rightarrow> pww_state" where
  "pww_unalloc_guarded i s =
     (let pm = pool s ! i in
      if \<not> allocated pm then s
      else let (r, s1) = sys_call s;
               s2 = (case r of SysAbend _ \<Rightarrow> s1\<lparr>g_fatal_abend := True\<rparr> | _ \<Rightarrow> s1)
        in put_slot i (pm\<lparr>allocated := False, ddname := []\<rparr>) s2)"

definition pww_deq_guarded :: "nat \<Rightarrow> pww_state \<Rightarrow> pww_state" where
  "pww_deq_guarded i s =
     (let pm = pool s ! i in
      if \<not> enq_held pm then s
      else let (r, s1) = sys_call s;
               s2 = (case r of SysAbend _ \<Rightarrow> s1\<lparr>g_fatal_abend := True\<rparr> | SysOk \<Rightarrow> enq_del (slot_rname pm) s1 | SysFail \<Rightarrow> s1)
        in put_slot i (pm\<lparr>enq_held := False\<rparr>) s2)"

definition pww_unlock :: "nat \<Rightarrow> pww_state \<Rightarrow> pww_state" where
  "pww_unlock i s = pww_deq_guarded i (pww_unalloc_guarded i s)"

text \<open>Releasing a slot: unlock, close the scratch file, free the buffer, clear.\<close>

definition pww_slot_release :: "nat \<Rightarrow> pww_state \<Rightarrow> pww_state" where
  "pww_slot_release i s =
     (let s1 = pww_unlock i s
      in put_slot i (pending_zero\<lparr>used := False\<rparr>) s1)"

section \<open>Slots\<close>

definition pww_slot_find :: "bytes \<Rightarrow> bytes \<Rightarrow> pww_state \<Rightarrow> nat option" where
  "pww_slot_find dsn member s =
     find (\<lambda>i. used (pool s ! i) \<and> pm_dsname (pool s ! i) = dsn \<and> pm_member (pool s ! i) = member)
       [0..<length (pool s)]"

definition pww_slot_at :: "int \<Rightarrow> pww_state \<Rightarrow> pending_member_t option" where
  "pww_slot_at i s =
     (if i < 0 \<or> int PWW_MAX_PENDING \<le> i then None
      else if \<not> used (pool s ! nat i) then None else Some (pool s ! nat i))"

fun pww_lru :: "pending_member_t list \<Rightarrow> nat \<Rightarrow> nat \<Rightarrow> int \<Rightarrow> nat" where
  "pww_lru [] i lru w = lru"
| "pww_lru (pm # pms) i lru w =
     (if last_write_time pm < w then pww_lru pms (i + 1) i (last_write_time pm) else pww_lru pms (i + 1) lru w)"

definition pww_slot_take :: "mvs_env \<Rightarrow> int \<Rightarrow> pww_state \<Rightarrow> nat \<times> pww_state" where
  "pww_slot_take env now s =
     (case find (\<lambda>i. \<not> used (pool s ! i)) [0..<length (pool s)] of
        Some i \<Rightarrow> (i, s)
      | None \<Rightarrow>
          let lru = pww_lru (tl (pool s)) 1 0 (last_write_time (hd (pool s)));
              s1 = (if dirty (pool s ! lru) then snd (pdsflush_slot env now lru s) else s)
          in (lru, pww_slot_release lru s1))"

definition pww_slot_init ::
  "int \<Rightarrow> int \<Rightarrow> int \<Rightarrow> bytes \<Rightarrow> bytes \<Rightarrow> export_t list \<Rightarrow> pending_member_t" where
  "pww_slot_init now e d dsn member es =
     blkcalc_slot_reset es
       (pending_zero\<lparr>used := True, pm_export := e, pm_dataset := d, pm_dsname := take 44 dsn,
          pm_member := take 8 member, last_write_time := now\<rparr>)"

definition pww_slot_new ::
  "mvs_env \<Rightarrow> int \<Rightarrow> int \<Rightarrow> int \<Rightarrow> bytes \<Rightarrow> bytes \<Rightarrow> pww_state \<Rightarrow> (errno_t + nat) \<times> pww_state" where
  "pww_slot_new env now e d dsn member s =
     (let (i, s1) = pww_slot_take env now s;
          s2 = put_slot i (pww_slot_init now e d dsn member (pexports s1)) s1
      in case pww_lock env i s2 of
           (Some err, s3) \<Rightarrow> (Inl err, pww_slot_release i s3)
         | (None, s3) \<Rightarrow> (Inr i, s3))"

definition pww_check_dataset_space :: "int \<Rightarrow> bytes \<Rightarrow> pww_state \<Rightarrow> errno_t option \<times> pww_state" where
  "pww_check_dataset_space now dsn s =
     (let (full, tab) = pdsflush_dataset_is_full dsn now (g_pww_full s)
      in (if full then Some ENOSPC else None, s\<lparr>g_pww_full := tab\<rparr>))"

text \<open>Admission and storing on a slot of the state.\<close>

definition slot_admit :: "mvs_env \<Rightarrow> nat \<Rightarrow> bytes \<Rightarrow> u64 \<Rightarrow> pww_state \<Rightarrow> errno_t option \<times> pww_state" where
  "slot_admit env i data offset s =
     (let (err, es', pl', fs') = blkcalc_admit_write (env_vtoc env) (pexports s) (pool s) i data offset (spill_io s)
      in (err, s\<lparr>pexports := es', pool := pl', spill_io := fs'\<rparr>))"

definition slot_store :: "mvs_env \<Rightarrow> nat \<Rightarrow> bytes \<Rightarrow> u64 \<Rightarrow> pww_state \<Rightarrow> errno_t option \<times> pww_state" where
  "slot_store env i data offset s =
     (let (err, pm', fs') = pww_store_range (env_junk env) (int i) (pool s ! i) offset data (spill_io s)
      in (err, (put_slot i pm' s)\<lparr>spill_io := fs'\<rparr>))"

definition slot_set_dirty :: "int \<Rightarrow> nat \<Rightarrow> pww_state \<Rightarrow> pww_state" where
  "slot_set_dirty now i s = put_slot i (pww_set_dirty now (pool s ! i)) s"

section \<open>Operations\<close>

definition pww_create ::
  "mvs_env \<Rightarrow> int \<Rightarrow> int \<Rightarrow> int \<Rightarrow> bytes \<Rightarrow> bytes \<Rightarrow> pww_state \<Rightarrow> errno_t option \<times> pww_state" where
  "pww_create env now e d dsn member s =
     (case pww_check_dataset_space now dsn s of
        (Some err, s0) \<Rightarrow> (Some err, s0)
      | (None, s0) \<Rightarrow>
          let (r, created, s1) =
            (case pww_slot_find dsn member s0 of
               None \<Rightarrow> (let (r, s1) = pww_slot_new env now e d dsn member s0 in (r, True, s1))
             | Some i \<Rightarrow> (Inr i, False,
                 put_slot i (blkcalc_slot_reset (pexports s0) ((pool s0 ! i)\<lparr>high_water := 0\<rparr>)) s0))
          in case r of
               Inl err \<Rightarrow> (Some err, s1)
             | Inr i \<Rightarrow>
                 (case slot_admit env i [] 0 s1 of
                    (Some err, s2) \<Rightarrow> (Some err, if created then pww_slot_release i s2 else s2)
                  | (None, s2) \<Rightarrow> (None, slot_set_dirty now i s2)))"

definition pww_write ::
  "mvs_env \<Rightarrow> int \<Rightarrow> int \<Rightarrow> int \<Rightarrow> bytes \<Rightarrow> bytes \<Rightarrow> bytes \<Rightarrow> u64 \<Rightarrow> pww_state \<Rightarrow> errno_t option \<times> pww_state" where
  "pww_write env now e d dsn member data offset s =
     (case pww_check_member_cap offset (of_nat (length data)) of
        Some err \<Rightarrow> (Some err, s)
      | None \<Rightarrow>
          case pww_check_dataset_space now dsn s of
            (Some err, s0) \<Rightarrow> (Some err, s0)
          | (None, s0) \<Rightarrow>
              let (r, s1) =
                (case pww_slot_find dsn member s0 of
                   None \<Rightarrow> if offset \<noteq> 0 then (Inl EIO, s0) else pww_slot_new env now e d dsn member s0
                 | Some i \<Rightarrow> (Inr i, s0))
              in case r of
                   Inl err \<Rightarrow> (Some err, s1)
                 | Inr i \<Rightarrow>
                     (case slot_admit env i data offset s1 of
                        (Some err, s2) \<Rightarrow> (Some err, s2)
                      | (None, s2) \<Rightarrow>
                          (case slot_store env i data offset s2 of
                             (Some err, s3) \<Rightarrow> (Some err, s3)
                           | (None, s3) \<Rightarrow> (None, slot_set_dirty now i s3))))"

definition pww_truncate ::
  "mvs_env \<Rightarrow> int \<Rightarrow> int \<Rightarrow> int \<Rightarrow> bytes \<Rightarrow> bytes \<Rightarrow> u32 \<Rightarrow> pww_state \<Rightarrow> errno_t option \<times> pww_state" where
  "pww_truncate env now e d dsn member sz s =
     (if of_nat PWW_MAX_MEMBER_BYTES < sz then (Some ENOSPC, s)
      else case pww_slot_find dsn member s of
        None \<Rightarrow>
          if sz \<noteq> 0 then (None, s)
          else (case pww_slot_new env now e d dsn member s of
              (Inl err, s1) \<Rightarrow> (Some err, s1)
            | (Inr i, s1) \<Rightarrow>
                (case slot_admit env i [] 0 s1 of
                   (Some err, s2) \<Rightarrow> (Some err, pww_slot_release i s2)
                 | (None, s2) \<Rightarrow> (None, slot_set_dirty now i s2)))
      | Some i \<Rightarrow>
          if sz = high_water (pool s ! i) then (None, s)
          else case (if high_water (pool s ! i) < sz then slot_admit env i [] (ucast sz) s else (None, s)) of
              (Some err, s1) \<Rightarrow> (Some err, s1)
            | (None, s1) \<Rightarrow>
                (case pww_resize (env_junk env) (int i) (pool s1 ! i) sz (spill_io s1) of
                   (Some err, pm', fs') \<Rightarrow> (Some err, (put_slot i pm' s1)\<lparr>spill_io := fs'\<rparr>)
                 | (None, pm', fs') \<Rightarrow>
                     (None, slot_set_dirty now i ((put_slot i (pm'\<lparr>high_water := sz\<rparr>) s1)\<lparr>spill_io := fs'\<rparr>))))"

definition pww_discard :: "bytes \<Rightarrow> bytes \<Rightarrow> pww_state \<Rightarrow> bool \<times> pww_state" where
  "pww_discard dsn member s =
     (case pww_slot_find dsn member s of None \<Rightarrow> (False, s) | Some i \<Rightarrow> (True, pww_slot_release i s))"

definition pww_flush_member :: "mvs_env \<Rightarrow> int \<Rightarrow> bytes \<Rightarrow> bytes \<Rightarrow> pww_state \<Rightarrow> errno_t option \<times> pww_state" where
  "pww_flush_member env now dsn member s =
     (case pww_slot_find dsn member s of
        None \<Rightarrow> (None, s)
      | Some i \<Rightarrow> if \<not> dirty (pool s ! i) then (None, s) else pdsflush_slot env now i s)"

text \<open>Flushing and releasing one slot, as the two loops over the pool do.\<close>

definition flush_release :: "mvs_env \<Rightarrow> int \<Rightarrow> nat \<Rightarrow> pww_state \<Rightarrow> pww_state" where
  "flush_release env now i s =
     pww_slot_release i (if dirty (pool s ! i) then snd (pdsflush_slot env now i s) else s)"

definition pww_flush_idle :: "mvs_env \<Rightarrow> int \<Rightarrow> pww_state \<Rightarrow> pww_state" where
  "pww_flush_idle env now s =
     fold (\<lambda>i s. if \<not> used (pool s ! i) then s
                 else if now - last_write_time (pool s ! i) \<le> PWW_IDLE_TIMEOUT_SECONDS then s
                 else flush_release env now i s) [0..<length (pool s)] s"

definition pww_flush_all :: "mvs_env \<Rightarrow> int \<Rightarrow> pww_state \<Rightarrow> pww_state" where
  "pww_flush_all env now s =
     fold (\<lambda>i s. if \<not> used (pool s ! i) then s else flush_release env now i s) [0..<length (pool s)] s"

definition pww_touch_stats ::
  "mvs_env \<Rightarrow> int \<Rightarrow> int \<Rightarrow> int \<Rightarrow> bytes \<Rightarrow> bytes \<Rightarrow> int \<Rightarrow> pww_state \<Rightarrow> pww_state" where
  "pww_touch_stats env now e d dsn member new_time s =
     (let slot = map_option (\<lambda>i. pool s ! i) (pww_slot_find dsn member s);
          rname = pww_spfedit_rname dsn member
      in if (case slot of None \<Rightarrow> False | Some pm \<Rightarrow> dirty pm) then s
         else case mvs_pds_get_member_entry (env_dirs env) (env_tz env) now (env_tail env) dsn member of
             Inl _ \<Rightarrow> s
           | Inr entry \<Rightarrow>
               if info_flags entry AND MVS_PDSDIR_IFLG_ISPFSTATS = 0 then s
               else if chgdate entry = to_i32 new_time then s
               else
                 let own_enq = (case slot of None \<Rightarrow> True | Some pm \<Rightarrow> \<not> enq_held pm);
                     (r0, s0) = (if own_enq then sys_call s else (SysOk, s))
                 in if r0 \<noteq> SysOk then s0
                    else
                      let s1 = (if own_enq then enq_add rname s0 else s0);
                          ud = mvs_encode_ispf_stats (env_tz env) (entry\<lparr>chgdate := to_i32 new_time\<rparr>);
                          (r2, s2) = pdsflush_apply_stats (dsn, member) ud s1;
                          s3 = (if r2 \<noteq> SysOk then s2
                                else s2\<lparr>pexports := export_dataset_touch (of_int now) e d (pexports s2),
                                        dir_pool := dir_openlist_invalidate dsn (dir_pool s2)\<rparr>)
                      in if own_enq then (let (r4, s4) = sys_call s3 in if r4 = SysOk then enq_del rname s4 else s4)
                         else s3)"

definition pww_init :: "pww_state \<Rightarrow> pww_state" where
  "pww_init s = s\<lparr>pool := replicate PWW_MAX_PENDING pending_zero\<rparr>"


section \<open>Who holds what\<close>

text \<open>
  What identifies a slot: whether it is used, its member and its locks. Most operations leave
  the identities alone, and the pool invariant speaks of nothing else.
\<close>

type_synonym ident_t = "bool \<times> member_key \<times> bool \<times> bool"

definition ident :: "pending_member_t \<Rightarrow> ident_t" where
  "ident pm = (used pm, slot_key pm, enq_held pm, allocated pm)"

definition idents :: "pww_state \<Rightarrow> ident_t list" where
  "idents s = map ident (pool s)"

definition key_ok :: "member_key \<Rightarrow> bool" where
  "key_ok k \<longleftrightarrow> length (fst k) \<le> 44 \<and> length (snd k) \<le> 8 \<and> ch_space \<notin> set (fst k) \<and> ch_space \<notin> set (snd k)"

definition key_rname :: "member_key \<Rightarrow> bytes" where
  "key_rname k = pww_spfedit_rname (fst k) (snd k)"

definition ids_inv :: "ident_t list \<Rightarrow> bytes list \<Rightarrow> bool" where
  "ids_inv ids es \<longleftrightarrow> length ids = PWW_MAX_PENDING \<and>
     (\<forall>i < length ids. fst (ids ! i) \<longrightarrow>
        (\<exists>k. ids ! i = (True, k, True, True) \<and> key_ok k \<and> key_rname k \<in> set es)) \<and>
     (\<forall>i < length ids. \<forall>j < length ids. i \<noteq> j \<longrightarrow> fst (ids ! i) \<longrightarrow> fst (ids ! j) \<longrightarrow>
        fst (snd (ids ! i)) \<noteq> fst (snd (ids ! j)))"

definition pool_inv :: "pww_state \<Rightarrow> bool" where
  "pool_inv s \<longleftrightarrow> ids_inv (idents s) (enqs s)"

lemma pad_to_inj:
  assumes "pad_to n a = pad_to n b" and "length a \<le> n" "length b \<le> n" and "ch_space \<notin> set a" "ch_space \<notin> set b"
  shows "a = b"
proof -
  have "takeWhile (\<lambda>c. c \<noteq> ch_space) (pad_to n x) = x" if "length x \<le> n" "ch_space \<notin> set x" for x
    using that by (auto simp: pad_to_def takeWhile_append takeWhile_replicate)
  then show ?thesis using assms by metis
qed

lemma key_rname_inj: "key_ok k \<Longrightarrow> key_ok k' \<Longrightarrow> key_rname k = key_rname k' \<Longrightarrow> k = k'"
proof -
  assume ok: "key_ok k" "key_ok k'" and eq: "key_rname k = key_rname k'"
  have "length (pad_to 44 (fst k)) = length (pad_to 44 (fst k'))" using ok by (simp add: key_ok_def pad_to_def)
  then have "pad_to 44 (fst k) = pad_to 44 (fst k')" "pad_to 8 (snd k) = pad_to 8 (snd k')"
    using eq by (simp_all add: key_rname_def pww_spfedit_rname_def)
  then show "k = k'" using ok by (auto simp: key_ok_def prod_eq_iff dest: pad_to_inj)
qed

lemma ident_same_slot: "same_slot a b \<Longrightarrow> ident b = ident a"
  by (simp add: ident_def slot_key_def same_slot_fields)

lemma idents_put: "idents (put_slot i pm s) = (idents s)[i := ident pm]"
  by (simp add: idents_def put_slot_def map_update)

lemma idents_put_same: "ident pm = ident (pool s ! i) \<Longrightarrow> idents (put_slot i pm s) = idents s"
  by (simp add: idents_put) (simp add: idents_def list_update_id map_update [symmetric])

lemma put_slot_sel [simp]:
  "pool (put_slot i pm s) = (pool s)[i := pm]" "enqs (put_slot i pm s) = enqs s"
  "pexports (put_slot i pm s) = pexports s" "spill_io (put_slot i pm s) = spill_io s"
  "sysq (put_slot i pm s) = sysq s" "lib (put_slot i pm s) = lib s" "g_pww_full (put_slot i pm s) = g_pww_full s"
  "dir_pool (put_slot i pm s) = dir_pool s" "g_fatal_abend (put_slot i pm s) = g_fatal_abend s"
  by (simp_all add: put_slot_def)

lemma idents_cong: "pool s' = pool s \<Longrightarrow> idents s' = idents s"
  by (simp add: idents_def)

lemma sys_call_sel:
  assumes "sys_call s = (r, s')"
  shows "pool s' = pool s" "enqs s' = enqs s" "pexports s' = pexports s" "spill_io s' = spill_io s" "lib s' = lib s"
    "g_pww_full s' = g_pww_full s" "idents s' = idents s"
  using assms by (auto simp: sys_call_def Let_def idents_def split: prod.splits)

section \<open>Flushing leaves the identities alone\<close>

lemma write_chunks_same: "write_chunks hw pm off lines lst out fs ss = (r, l, pm', o', fs', ss') \<Longrightarrow> same_slot pm pm'"
proof (induction hw pm off lines lst out fs ss rule: write_chunks.induct)
  case (1 hw pm off lines lst out fs ss)
  show ?case
  proof (cases "off < hw")
    case False
    then show ?thesis using 1(2) by (simp add: write_chunks.simps)
  next
    case True
    define n where "n = min (hw - off) PWW_XLATE"
    obtain d q f where r: "pww_read_range pm (of_nat off) (of_nat n) fs = (d, q, f)" by (metis surj_pair)
    have q: "same_slot pm q" using read_range_same [OF r] .
    obtain so ss1 where n': "sys_next ss = (so, ss1)" by (cases "sys_next ss")
    show ?thesis
    proof (cases d)
      case None
      then show ?thesis using 1(2) True r q by (subst (asm) write_chunks.simps) (auto simp: Let_def n_def split: prod.splits)
    next
      case (Some dd)
      show ?thesis
      proof (cases so)
        case SysOk
        have "write_chunks hw pm off lines lst out fs ss =
            write_chunks hw q (off + n) (lines + count_lf dd) (last dd) (out @ ascii_to_ebcdic dd) f ss1"
          using True r Some n' SysOk by (subst write_chunks.simps) (simp add: Let_def n_def)
        then have "same_slot q pm'"
          using 1(1) [OF True refl r [unfolded n_def, symmetric] Some refl n' [symmetric] SysOk] 1(2) by (simp add: n_def)
        then show ?thesis using q same_slot_trans by blast
      qed (use 1(2) True r q Some n' in \<open>subst (asm) write_chunks.simps, auto simp: Let_def n_def split: prod.splits\<close>)+
    qed
  qed
qed


lemma write_member_same: "pdsflush_write_member pm fs ss = (r, pm', t, fs', ss') \<Longrightarrow> same_slot pm pm'"
  by (auto simp: pdsflush_write_member_def Let_def dest: write_chunks_same
      split: prod.splits sys_out.splits flush_out.splits)

lemma guarded_same:
  assumes "pdsflush_write_member_guarded now i s = (r, ab, s')"
  shows "idents s' = idents s" "enqs s' = enqs s"
proof -
  obtain q pm' t fs ss where w: "pdsflush_write_member (pool s ! i) (spill_io s) (sysq s) = (q, pm', t, fs, ss)" by (metis surj_pair)
  have p: "ident pm' = ident (pool s ! i)" using ident_same_slot [OF write_member_same [OF w]] .
  have "pool s' = (pool s)[i := pm'] \<and> enqs s' = enqs s"
    using assms by (auto simp: pdsflush_write_member_guarded_def Let_def w split: flush_out.splits if_splits)
  then show "idents s' = idents s" "enqs s' = enqs s"
    using idents_put_same [OF p] by (auto simp: idents_def)
qed

lemma clean_slot_same: "idents (clean_slot i s) = idents s" "enqs (clean_slot i s) = enqs s"
  by (simp_all add: clean_slot_def idents_put_same ident_def slot_key_def)

lemma flush_same: "idents (snd (pdsflush_slot env now i s)) = idents s" "enqs (snd (pdsflush_slot env now i s)) = enqs s"
proof -
  obtain full tab where f: "pdsflush_dataset_is_full (pm_dsname (pool s ! i)) now (g_pww_full s) = (full, tab)" by (metis surj_pair)
  let ?s0 = "s\<lparr>g_pww_full := tab\<rparr>"
  have s0: "idents ?s0 = idents s" "enqs ?s0 = enqs s" by (simp_all add: idents_def)
  obtain r ab s1 where g: "pdsflush_write_member_guarded now i ?s0 = (r, ab, s1)" by (metis surj_pair)
  have s1: "idents s1 = idents s" "enqs s1 = enqs s" using guarded_same [OF g] s0 by auto
  have up: "idents (x\<lparr>g_pww_full := a\<rparr>) = idents x" "idents (x\<lparr>pexports := b, dir_pool := c\<rparr>) = idents x" for x a b c
    by (simp_all add: idents_def)
  have st: "idents (pdsflush_apply_stats_guarded k ud x) = idents x" for k ud x
    by (simp add: idents_def apply_stats_guarded_keeps)
  have "idents (snd (pdsflush_slot env now i s)) = idents s \<and> enqs (snd (pdsflush_slot env now i s)) = enqs s"
    using s0 s1 clean_slot_same
    by (simp add: pdsflush_slot_def f g Let_def up st apply_stats_guarded_keeps split: sum.splits prod.splits)
  then show "idents (snd (pdsflush_slot env now i s)) = idents s" "enqs (snd (pdsflush_slot env now i s)) = enqs s" by auto
qed

section \<open>The invariant of the pool\<close>

text \<open>The invariant for all slots but one, and a key no other slot has.\<close>

definition ids_inv_but :: "nat \<Rightarrow> ident_t list \<Rightarrow> bytes list \<Rightarrow> bool" where
  "ids_inv_but i ids es \<longleftrightarrow> length ids = PWW_MAX_PENDING \<and>
     (\<forall>j < length ids. j \<noteq> i \<longrightarrow> fst (ids ! j) \<longrightarrow>
        (\<exists>k. ids ! j = (True, k, True, True) \<and> key_ok k \<and> key_rname k \<in> set es)) \<and>
     (\<forall>a < length ids. \<forall>b < length ids. a \<noteq> b \<longrightarrow> a \<noteq> i \<longrightarrow> b \<noteq> i \<longrightarrow> fst (ids ! a) \<longrightarrow> fst (ids ! b) \<longrightarrow>
        fst (snd (ids ! a)) \<noteq> fst (snd (ids ! b)))"

definition fresh_key :: "member_key \<Rightarrow> nat \<Rightarrow> ident_t list \<Rightarrow> bool" where
  "fresh_key k i ids \<longleftrightarrow> (\<forall>j < length ids. j \<noteq> i \<longrightarrow> fst (ids ! j) \<longrightarrow> fst (snd (ids ! j)) \<noteq> k)"

lemma inv_but: "ids_inv ids es \<Longrightarrow> ids_inv_but i ids es"
  by (auto simp: ids_inv_def ids_inv_but_def)

lemma inv_fresh: "ids_inv ids es \<Longrightarrow> i < length ids \<Longrightarrow> fst (ids ! i) \<Longrightarrow> fresh_key (fst (snd (ids ! i))) i ids"
  by (auto simp: ids_inv_def fresh_key_def)

lemma but_update [simp]: "ids_inv_but i (ids[i := x]) es = ids_inv_but i ids es"
  by (auto simp: ids_inv_but_def)

lemma fresh_update [simp]: "fresh_key k i (ids[i := x]) = fresh_key k i ids"
  by (auto simp: fresh_key_def)

lemma but_mono: "ids_inv_but i ids es \<Longrightarrow> set es \<subseteq> set es' \<Longrightarrow> ids_inv_but i ids es'"
  unfolding ids_inv_but_def by blast

lemma but_remove:
  assumes "ids_inv_but i ids es" and "fresh_key k i ids" and "key_ok k"
  shows "ids_inv_but i ids (remove1 (key_rname k) es)"
proof -
  have "key_rname k' \<in> set (remove1 (key_rname k) es)"
    if "j < length ids" "j \<noteq> i" "ids ! j = (True, k', True, True)" "key_ok k'" "key_rname k' \<in> set es" for j k'
  proof -
    have "k' \<noteq> k" using assms(2) that by (force simp: fresh_key_def)
    then have "key_rname k' \<noteq> key_rname k" using key_rname_inj assms(3) that(4) by blast
    then show ?thesis using that(5) by simp
  qed
  then show ?thesis using assms(1) unfolding ids_inv_but_def by blast
qed

lemma inv_of_but:
  assumes "ids_inv_but i ids es" and "fst (ids ! i) \<Longrightarrow> \<exists>k. ids ! i = (True, k, True, True) \<and> key_ok k \<and> key_rname k \<in> set es \<and> fresh_key k i ids"
  shows "ids_inv ids es"
  unfolding ids_inv_def
proof (intro conjI allI impI)
  show "length ids = PWW_MAX_PENDING" using assms(1) by (simp add: ids_inv_but_def)
  show "\<exists>k. ids ! j = (True, k, True, True) \<and> key_ok k \<and> key_rname k \<in> set es" if "j < length ids" "fst (ids ! j)" for j
    using assms that unfolding ids_inv_but_def by (cases "j = i") blast+
  show "fst (snd (ids ! a)) \<noteq> fst (snd (ids ! b))"
    if ab: "a < length ids" "b < length ids" "a \<noteq> b" "fst (ids ! a)" "fst (ids ! b)" for a b
  proof -
    consider "a = i" | "b = i" | "a \<noteq> i" "b \<noteq> i" by blast
    then show ?thesis
    proof cases
      case 1
      then show ?thesis using assms(2) ab unfolding fresh_key_def by (metis fst_conv snd_conv)
    next
      case 2
      then show ?thesis using assms(2) ab unfolding fresh_key_def by (metis fst_conv snd_conv)
    next
      case 3
      then show ?thesis using assms(1) ab unfolding ids_inv_but_def by blast
    qed
  qed
qed

lemma but_free:
  assumes "ids_inv_but i ids es" and "i < length ids"
  shows "ids_inv (ids[i := (False, x)]) es"
  by (rule inv_of_but [of i]) (use assms in simp_all)

lemma but_take:
  assumes "ids_inv_but i ids es" and "i < length ids" and "fresh_key k i ids" and "key_ok k" and "key_rname k \<in> set es"
  shows "ids_inv (ids[i := (True, k, True, True)]) es"
  by (rule inv_of_but [of i]) (use assms in simp_all)

section \<open>Every operation keeps the invariant\<close>

lemma unalloc_pool:
  "\<exists>p. pool (pww_unalloc_guarded i s) = (pool s)[i := p] \<and> slot_key p = slot_key (pool s ! i) \<and>
     enq_held p = enq_held (pool s ! i) \<and> enqs (pww_unalloc_guarded i s) = enqs s"
proof (cases "allocated (pool s ! i)")
  case True
  obtain r s1 where c: "sys_call s = (r, s1)" by (metis surj_pair)
  show ?thesis using True sys_call_sel [OF c]
    by (intro exI [of _ "(pool s ! i)\<lparr>allocated := False, ddname := []\<rparr>"])
       (auto simp: pww_unalloc_guarded_def c Let_def slot_key_def split: sys_out.splits)
next
  case False
  then show ?thesis by (intro exI [of _ "pool s ! i"]) (simp add: pww_unalloc_guarded_def)
qed

lemma deq_pool:
  "\<exists>p. pool (pww_deq_guarded i s) = (pool s)[i := p] \<and>
     (enqs (pww_deq_guarded i s) = enqs s \<or>
      enq_held (pool s ! i) \<and> enqs (pww_deq_guarded i s) = remove1 (slot_rname (pool s ! i)) (enqs s))"
proof (cases "enq_held (pool s ! i)")
  case True
  obtain r s1 where c: "sys_call s = (r, s1)" by (metis surj_pair)
  show ?thesis using True sys_call_sel [OF c]
    by (intro exI [of _ "(pool s ! i)\<lparr>enq_held := False\<rparr>"])
       (auto simp: pww_deq_guarded_def c Let_def enq_del_def split: sys_out.splits)
next
  case False
  then show ?thesis by (intro exI [of _ "pool s ! i"]) (simp add: pww_deq_guarded_def)
qed

lemma slot_rname_key: "slot_rname pm = key_rname (slot_key pm)"
  by (simp add: slot_rname_def key_rname_def slot_key_def)

lemma release_pool:
  obtains es where "idents (pww_slot_release i s) = (idents s)[i := ident pending_zero]"
    and "enqs (pww_slot_release i s) = es"
    and "es = enqs s \<or> i < length (pool s) \<and> enq_held (pool s ! i) \<and> es = remove1 (key_rname (slot_key (pool s ! i))) (enqs s) \<or> length (pool s) \<le> i"
proof -
  let ?u = "pww_unalloc_guarded i s"
  obtain p where p: "pool ?u = (pool s)[i := p]" "slot_key p = slot_key (pool s ! i)"
    "enq_held p = enq_held (pool s ! i)" "enqs ?u = enqs s"
    using unalloc_pool by blast
  obtain q where q: "pool (pww_deq_guarded i ?u) = (pool ?u)[i := q]"
    "enqs (pww_deq_guarded i ?u) = enqs ?u \<or>
      enq_held (pool ?u ! i) \<and> enqs (pww_deq_guarded i ?u) = remove1 (slot_rname (pool ?u ! i)) (enqs ?u)"
    using deq_pool by blast
  have z: "pending_zero\<lparr>used := False\<rparr> = pending_zero" by (simp add: pending_zero_def)
  have "idents (pww_slot_release i s) = (idents s)[i := ident pending_zero]"
    by (simp add: pww_slot_release_def pww_unlock_def Let_def z idents_put) (simp add: idents_def p q map_update)
  moreover have "enqs (pww_slot_release i s) = enqs (pww_deq_guarded i ?u)"
    by (simp add: pww_slot_release_def pww_unlock_def Let_def)
  ultimately show ?thesis using that q(2) p by (cases "i < length (pool s)") (auto simp: slot_rname_key)
qed

lemma length_idents [simp]: "length (idents s) = length (pool s)"
  by (simp add: idents_def)

lemma nth_idents: "i < length (pool s) \<Longrightarrow> idents s ! i = ident (pool s ! i)"
  by (simp add: idents_def)

lemma release_inv:
  assumes "ids_inv_but i (idents s) (enqs s)" and "i < length (pool s)"
    and "enq_held (pool s ! i) \<Longrightarrow> key_ok (slot_key (pool s ! i)) \<and> fresh_key (slot_key (pool s ! i)) i (idents s)"
  shows "pool_inv (pww_slot_release i s)"
proof -
  obtain es where r: "idents (pww_slot_release i s) = (idents s)[i := ident pending_zero]"
    "enqs (pww_slot_release i s) = es"
    "es = enqs s \<or> i < length (pool s) \<and> enq_held (pool s ! i) \<and> es = remove1 (key_rname (slot_key (pool s ! i))) (enqs s) \<or> length (pool s) \<le> i"
    using release_pool by blast
  have "ids_inv_but i (idents s) es" using r(3) assms by (auto intro: but_remove)
  then show ?thesis using assms(2) by (simp add: pool_inv_def r(1,2) ident_def pending_zero_def but_free)
qed

lemma used_slot:
  assumes "pool_inv s" and "i < length (pool s)" and "used (pool s ! i)"
  shows "key_ok (slot_key (pool s ! i))" "fresh_key (slot_key (pool s ! i)) i (idents s)"
    "enq_held (pool s ! i)" "allocated (pool s ! i)"
proof -
  have "\<exists>k. ident (pool s ! i) = (True, k, True, True) \<and> key_ok k"
    using assms by (auto simp: pool_inv_def ids_inv_def nth_idents ident_def)
  then show "key_ok (slot_key (pool s ! i))" "enq_held (pool s ! i)" "allocated (pool s ! i)" by (auto simp: ident_def)
  have "fresh_key (fst (snd (idents s ! i))) i (idents s)"
    using assms by (intro inv_fresh) (auto simp: pool_inv_def nth_idents ident_def)
  then show "fresh_key (slot_key (pool s ! i)) i (idents s)" using assms(2) by (simp add: nth_idents ident_def)
qed

lemma release_used_inv:
  assumes "pool_inv s" and "i < length (pool s)" and "used (pool s ! i)"
  shows "pool_inv (pww_slot_release i s)"
  using assms used_slot [OF assms] by (intro release_inv) (auto simp: pool_inv_def inv_but)

lemma flush_inv: "pool_inv s \<Longrightarrow> pool_inv (snd (pdsflush_slot env now i s))"
  by (simp add: pool_inv_def flush_same)

lemma flush_length [simp]: "length (pool (snd (pdsflush_slot env now i s))) = length (pool s)"
  using flush_same(1) [of env now i s] length_idents by metis

lemma flush_used: "i < length (pool s) \<Longrightarrow> j < length (pool s) \<Longrightarrow> used (pool (snd (pdsflush_slot env now i s)) ! j) = used (pool s ! j)"
  using flush_same(1) [of env now i s] nth_idents [of j] by (metis flush_length fst_conv ident_def)

lemma pww_lru_bound: "lru < i + length pms \<Longrightarrow> pww_lru pms i lru w < i + length pms"
proof (induction pms i lru w rule: pww_lru.induct)
  case (2 pm pms i lru w)
  then show ?case using 2(1,2) by auto
qed simp


lemma pool_8: "pool_inv s \<Longrightarrow> length (pool s) = PWW_MAX_PENDING"
  using length_idents [of s] by (auto simp: pool_inv_def ids_inv_def)

lemma find_upt_Some: "find P [0..<n] = Some i \<Longrightarrow> i < n \<and> P i"
  by (auto simp: find_Some_iff)

lemma find_upt_None: "find P [0..<n] = None \<Longrightarrow> i < n \<Longrightarrow> \<not> P i"
  by (auto simp: find_None_iff)

lemma take_inv:
  assumes inv: "pool_inv s" and t: "pww_slot_take env now s = (i, s')"
  shows "pool_inv s'" and "i < length (pool s')" and "\<not> used (pool s' ! i)"
    and "\<And>k. (\<forall>j < length (pool s). used (pool s ! j) \<longrightarrow> slot_key (pool s ! j) \<noteq> k) \<Longrightarrow> fresh_key k i (idents s')"
proof -
  have "pool_inv s' \<and> i < length (pool s') \<and> \<not> used (pool s' ! i) \<and>
    (\<forall>k. (\<forall>j < length (pool s). used (pool s ! j) \<longrightarrow> slot_key (pool s ! j) \<noteq> k) \<longrightarrow> fresh_key k i (idents s'))"
  proof (cases "find (\<lambda>i. \<not> used (pool s ! i)) [0..<length (pool s)]")
    case (Some j)
    then have "i = j" "s' = s" using t by (auto simp: pww_slot_take_def)
    then show ?thesis using find_upt_Some [OF Some] inv by (auto simp: fresh_key_def nth_idents ident_def)
  next
    case None
    define lru where "lru = pww_lru (tl (pool s)) 1 0 (last_write_time (hd (pool s)))"
    define s1 where "s1 = (if dirty (pool s ! lru) then snd (pdsflush_slot env now lru s) else s)"
    have r: "i = lru" "s' = pww_slot_release lru s1"
      using t None by (auto simp: pww_slot_take_def lru_def s1_def Let_def)
    have ne: "pool s \<noteq> []" using pool_8 [OF inv] by (auto simp: PWW_MAX_PENDING_def)
    have b: "lru < length (pool s)" using pww_lru_bound [of 0 1 "tl (pool s)"] ne unfolding lru_def by (cases "pool s") auto
    have s1: "pool_inv s1" "length (pool s1) = length (pool s)" "idents s1 = idents s"
      using inv flush_same by (auto simp: s1_def pool_inv_def)
    have u: "used (pool s1 ! lru)"
      using find_upt_None [OF None, of lru] b flush_used [OF b b] by (auto simp: s1_def)
    have ids: "idents s' = (idents s)[lru := ident pending_zero]"
      using release_pool [of lru s1] r(2) s1(3) by metis
    have l: "length (pool s') = length (pool s)" using ids length_idents by (metis length_list_update)
    have "\<not> used (pool s' ! lru)"
      using ids b l by (metis (mono_tags, lifting) fst_conv ident_def length_idents nth_idents nth_list_update_eq
          pending_zero_def pending_member_t.select_convs(1))
    moreover have "pool_inv s'" unfolding r(2) using s1 b u by (intro release_used_inv) auto
    ultimately show ?thesis using r(1) b l ids
      by (auto simp: fresh_key_def nth_list_update nth_idents ident_def)
  qed
  then show "pool_inv s'" "i < length (pool s')" "\<not> used (pool s' ! i)"
    "\<And>k. (\<forall>j < length (pool s). used (pool s ! j) \<longrightarrow> slot_key (pool s ! j) \<noteq> k) \<Longrightarrow> fresh_key k i (idents s')"
    by blast+
qed

lemma find_slot_None:
  assumes "pww_slot_find dsn member s = None"
  shows "\<forall>j < length (pool s). used (pool s ! j) \<longrightarrow> slot_key (pool s ! j) \<noteq> (dsn, member)"
  using find_upt_None [OF assms [unfolded pww_slot_find_def]] by (auto simp: slot_key_def)

lemma find_slot_Some:
  "pww_slot_find dsn member s = Some i \<Longrightarrow> i < length (pool s) \<and> used (pool s ! i) \<and> slot_key (pool s ! i) = (dsn, member)"
  using find_upt_Some by (fastforce simp: pww_slot_find_def slot_key_def)

lemma ident_slot_reset: "ident (blkcalc_slot_reset es pm) = ident pm" "used (blkcalc_slot_reset es pm) = used pm"
  "slot_key (blkcalc_slot_reset es pm) = slot_key pm" "enq_held (blkcalc_slot_reset es pm) = enq_held pm"
  by (simp_all add: blkcalc_slot_reset_def ident_def slot_key_def split: option.splits)

text \<open>Locking a fresh slot either completes its identity or leaves it without locks.\<close>

lemma lock_inv:
  assumes b: "ids_inv_but i (idents s) (enqs s)" and i: "i < length (pool s)" and k: "ident (pool s ! i) = (True, k, False, False)"
    and ok: "key_ok k" "fresh_key k i (idents s)" and l: "pww_lock env i s = (r, s')"
  shows "r = None \<Longrightarrow> pool_inv s' \<and> ident (pool s' ! i) = (True, k, True, True) \<and> length (pool s') = length (pool s)"
    and "r \<noteq> None \<Longrightarrow> ids_inv_but i (idents s') (enqs s') \<and> \<not> enq_held (pool s' ! i) \<and> length (pool s') = length (pool s)"
proof -
  let ?pm = "pool s ! i"
  obtain r1 s1 where c1: "sys_call s = (r1, s1)" by (metis surj_pair)
  let ?s2 = "put_slot i (?pm\<lparr>enq_held := True\<rparr>) (enq_add (slot_rname ?pm) s1)"
  obtain r2 s3 where c2: "sys_call ?s2 = (r2, s3)" by (metis surj_pair)
  obtain r3 s4 where c3: "sys_call s3 = (r3, s4)" by (metis surj_pair)
  note e1 = sys_call_sel [OF c1] and e2 = sys_call_sel [OF c2] and e3 = sys_call_sel [OF c3]
  have kk: "slot_key ?pm = k" "used ?pm" "\<not> enq_held ?pm" "\<not> allocated ?pm" using k by (auto simp: ident_def)
  have rn: "slot_rname ?pm = key_rname k" by (simp add: slot_rname_key kk)
  have es3: "enqs s3 = key_rname k # enqs s" "pool s3 = (pool s)[i := ?pm\<lparr>enq_held := True\<rparr>]"
    using e1 e2 rn by (simp_all add: enq_add_def)
  show "pool_inv s' \<and> ident (pool s' ! i) = (True, k, True, True) \<and> length (pool s') = length (pool s)" if "r = None"
  proof -
    have s': "\<exists>dd. s' = put_slot i (?pm\<lparr>enq_held := True, allocated := True, ddname := dd\<rparr>) s3"
      using l that by (auto simp: pww_lock_def Let_def c1 c2 c3 split: if_splits)
    then have "idents s' = (idents s)[i := (True, k, True, True)]" "enqs s' = key_rname k # enqs s"
      using es3 kk i by (auto simp: idents_put idents_def map_update ident_def slot_key_def)
    moreover have "ids_inv_but i (idents s) (key_rname k # enqs s)" using b by (rule but_mono) auto
    ultimately show ?thesis using s' i ok es3(2) kk
      by (auto simp: pool_inv_def but_take ident_def slot_key_def)
  qed
  show "ids_inv_but i (idents s') (enqs s') \<and> \<not> enq_held (pool s' ! i) \<and> length (pool s') = length (pool s)" if "r \<noteq> None"
  proof (cases "r1 = SysOk")
    case False
    then have "s' = s1" using l that by (auto simp: pww_lock_def Let_def c1 split: if_splits prod.splits)
    then show ?thesis using e1 b kk by simp
  next
    case True
    then have "s' = put_slot i (?pm\<lparr>enq_held := False\<rparr>) (if r3 = SysOk then enq_del (slot_rname ?pm) s4 else s4)"
      using l that by (auto simp: pww_lock_def Let_def c1 c2 c3 split: if_splits)
    note s' = this [unfolded rn]
    have "enqs s' = enqs s \<or> enqs s' = key_rname k # enqs s" using s' e3(2) es3(1) by (auto simp: enq_del_def)
    then have "ids_inv_but i (idents s) (enqs s')" using b by (auto intro: but_mono)
    moreover have "idents s' = (idents s)[i := ident (?pm\<lparr>enq_held := False\<rparr>)]"
      using s' e3 es3 by (auto simp: idents_put idents_def enq_del_def map_update)
    ultimately show ?thesis using s' i e3 es3 by (auto simp: enq_del_def)
  qed
qed


lemma new_inv:
  assumes inv: "pool_inv s" and n: "pww_slot_find dsn member s = None" and k: "key_ok (dsn, member)"
    and new: "pww_slot_new env now e d dsn member s = (r, s')"
  shows "pool_inv s'" and "r = Inr i \<Longrightarrow> i < length (pool s') \<and> used (pool s' ! i) \<and> slot_key (pool s' ! i) = (dsn, member)"
proof -
  obtain j s1 where t: "pww_slot_take env now s = (j, s1)" by (metis surj_pair)
  note ti = take_inv [OF inv t]
  let ?p = "pww_slot_init now e d dsn member (pexports s1)"
  let ?s2 = "put_slot j ?p s1"
  have id: "ident ?p = (True, (dsn, member), False, False)"
    using k by (simp add: pww_slot_init_def ident_slot_reset) (simp add: ident_def slot_key_def pending_zero_def key_ok_def)
  have b2: "ids_inv_but j (idents ?s2) (enqs ?s2)" "j < length (pool ?s2)" "ident (pool ?s2 ! j) = (True, (dsn, member), False, False)"
    "fresh_key (dsn, member) j (idents ?s2)"
    using ti inv_but id find_slot_None [OF n] by (auto simp: idents_put pool_inv_def)
  obtain q s3 where l: "pww_lock env j ?s2 = (q, s3)" by (metis surj_pair)
  note lo = lock_inv [OF b2(1,2,3) k b2(4) l]
  have "pool_inv s' \<and> (r = Inr i \<longrightarrow> i < length (pool s') \<and> used (pool s' ! i) \<and> slot_key (pool s' ! i) = (dsn, member))"
  proof (cases q)
    case None
    then have "r = Inr j" "s' = s3" using new t l by (auto simp: pww_slot_new_def Let_def)
    then show ?thesis using lo(1) [OF None] b2(2) by (auto simp: ident_def)
  next
    case (Some err)
    then have "r = Inl err" "s' = pww_slot_release j s3" using new t l by (auto simp: pww_slot_new_def Let_def)
    moreover have "pool_inv (pww_slot_release j s3)"
      using lo(2) Some b2(2) by (intro release_inv) auto
    ultimately show ?thesis by simp
  qed
  then show "pool_inv s'" "r = Inr i \<Longrightarrow> i < length (pool s') \<and> used (pool s' ! i) \<and> slot_key (pool s' ! i) = (dsn, member)" by auto
qed

lemma scan_stored_same: "blkc_scan_stored pm bi off hi fs = (r, pm', fs') \<Longrightarrow> same_slot pm pm'"
proof (induction pm bi off hi fs rule: blkc_scan_stored.induct)
  case (1 pm bi off hi fs)
  show ?case
  proof (cases "off < hi")
    case False
    then show ?thesis using 1(2) by (simp add: blkc_scan_stored.simps)
  next
    case True
    obtain d q f where rd: "pww_read_range pm (of_nat off) (of_nat (min (hi - off) BLKC_SCAN)) fs = (d, q, f)" by (metis surj_pair)
    show ?thesis
    proof (cases d)
      case None
      then show ?thesis using 1(2) True rd read_range_same [OF rd] by (subst (asm) blkc_scan_stored.simps) (simp add: Let_def)
    next
      case (Some dd)
      have "blkc_scan_stored pm bi off hi fs =
          blkc_scan_stored q (blkcalc_add_blocks_for_data bi dd) (off + min (hi - off) BLKC_SCAN) hi f"
        using True rd Some by (subst blkc_scan_stored.simps) (simp add: Let_def)
      then have "same_slot q pm'" using 1(1) [OF True refl rd [symmetric] Some refl] 1(2) by simp
      then show ?thesis using read_range_same [OF rd] same_slot_trans by blast
    qed
  qed
qed

lemma build_trial_same: "blkc_build_trial pm d off fs = (r, pm', fs') \<Longrightarrow> same_slot pm pm'"
  unfolding blkc_build_trial_def Let_def
  by (auto dest!: scan_stored_same intro: same_slot_trans split: if_splits prod.splits option.splits)

lemma admit_pool:
  assumes "blkcalc_admit_write vtoc es pl i d off fs = (r, es', pl', fs')"
  shows "\<exists>p b. same_slot (pl ! i) p \<and> (pl' = pl \<or> pl' = pl[i := p] \<or> pl' = pl[i := p\<lparr>blkcalc := b\<rparr>])"
proof -
  obtain t p f where bt: "blkc_build_trial (pl ! i) d off fs = (t, p, f)" by (metis surj_pair)
  have "same_slot (pl ! i) p" using build_trial_same [OF bt] .
  then show ?thesis using assms bt
    by (auto simp: blkcalc_admit_write_def Let_def split: option.splits if_splits prod.splits)
qed

lemma admit_same:
  assumes "slot_admit env i d off s = (r, s')"
  shows "idents s' = idents s" "enqs s' = enqs s"
proof -
  obtain err es' pl' fs' where a: "blkcalc_admit_write (env_vtoc env) (pexports s) (pool s) i d off (spill_io s) = (err, es', pl', fs')"
    by (metis surj_pair)
  obtain p b where p: "same_slot (pool s ! i) p"
    "pl' = pool s \<or> pl' = (pool s)[i := p] \<or> pl' = (pool s)[i := p\<lparr>blkcalc := b\<rparr>]"
    using admit_pool [OF a] by blast
  have s': "s' = s\<lparr>pexports := es', pool := pl', spill_io := fs'\<rparr>" using assms a by (simp add: slot_admit_def)
  have "ident p = ident (pool s ! i)" "ident (p\<lparr>blkcalc := b\<rparr>) = ident (pool s ! i)"
    using ident_same_slot [OF p(1)] by (simp_all add: ident_def slot_key_def)
  then have "map ident pl' = map ident (pool s)" using p(2) idents_put_same [of _ s i] by (auto simp: idents_def)
  then show "idents s' = idents s" "enqs s' = enqs s" by (auto simp: s' idents_def)
qed

lemma store_same:
  assumes "slot_store env i d off s = (r, s')"
  shows "idents s' = idents s" "enqs s' = enqs s"
proof -
  obtain err pm' fs' where a: "pww_store_range (env_junk env) (int i) (pool s ! i) off d (spill_io s) = (err, pm', fs')"
    by (metis surj_pair)
  have "ident pm' = ident (pool s ! i)" using ident_same_slot [OF store_range_same [OF a]] .
  then show "idents s' = idents s" "enqs s' = enqs s"
    using assms a idents_put_same [of pm' s i] by (auto simp: slot_store_def idents_def)
qed

lemma set_dirty_same: "idents (slot_set_dirty now i s) = idents s" "enqs (slot_set_dirty now i s) = enqs s"
  by (simp_all add: slot_set_dirty_def idents_put_same ident_def slot_key_def pww_set_dirty_def)


lemma space_same:
  assumes "pww_check_dataset_space now dsn s = (r, s')"
  shows "idents s' = idents s" "enqs s' = enqs s" "pool s' = pool s"
  using assms by (auto simp: pww_check_dataset_space_def idents_def split: prod.splits)

lemma same_inv: "idents s' = idents s \<Longrightarrow> enqs s' = enqs s \<Longrightarrow> pool_inv s \<Longrightarrow> pool_inv s'"
  by (simp add: pool_inv_def)

lemma same_used: "idents s' = idents s \<Longrightarrow> i < length (pool s) \<Longrightarrow> used (pool s ! i) \<Longrightarrow> i < length (pool s') \<and> used (pool s' ! i)"
  by (metis fst_conv ident_def length_idents nth_idents)

lemma create_inv:
  assumes inv: "pool_inv s" and k: "key_ok (dsn, member)"
  shows "pool_inv (snd (pww_create env now e d dsn member s))"
proof -
  obtain r0 s0 where c: "pww_check_dataset_space now dsn s = (r0, s0)" by (metis surj_pair)
  have i0: "pool_inv s0" using space_same [OF c] inv same_inv by blast
  show ?thesis
  proof (cases "pww_slot_find dsn member s0")
    case None
    obtain r s1 where n: "pww_slot_new env now e d dsn member s0 = (r, s1)" by (metis surj_pair)
    note ni = new_inv [OF i0 None k n]
    show ?thesis
    proof (cases r)
      case (Inr i)
      obtain ra s2 where a: "slot_admit env i [] 0 s1 = (ra, s2)" by (metis surj_pair)
      have i2: "pool_inv s2" "i < length (pool s2)" "used (pool s2 ! i)"
        using admit_same [OF a] ni(1) ni(2) [OF Inr] same_inv same_used by blast+
      show ?thesis using i0 i2 release_used_inv [OF i2] set_dirty_same same_inv [OF _ _ i2(1)]
        by (auto simp: pww_create_def c None n Inr a Let_def split: option.splits)
    qed (use i0 ni(1) in \<open>auto simp: pww_create_def c None n Let_def split: option.splits\<close>)
  next
    case (Some i)
    let ?s1 = "put_slot i (blkcalc_slot_reset (pexports s0) ((pool s0 ! i)\<lparr>high_water := 0\<rparr>)) s0"
    have "idents ?s1 = idents s0"
      by (rule idents_put_same) (simp add: ident_slot_reset, simp add: ident_def slot_key_def)
    then have i1: "pool_inv ?s1" using i0 by (intro same_inv [OF _ _ i0]) auto
    obtain ra s2 where a: "slot_admit env i [] 0 ?s1 = (ra, s2)" by (metis surj_pair)
    have i2: "pool_inv s2" using admit_same [OF a] i1 same_inv by blast
    show ?thesis using i0 i2 set_dirty_same same_inv [OF _ _ i2]
      by (auto simp: pww_create_def c Some a Let_def split: option.splits)
  qed
qed

lemma write_inv:
  assumes inv: "pool_inv s" and k: "key_ok (dsn, member)"
  shows "pool_inv (snd (pww_write env now e d dsn member data off s))"
proof -
  obtain r0 s0 where c: "pww_check_dataset_space now dsn s = (r0, s0)" by (metis surj_pair)
  have i0: "pool_inv s0" using space_same [OF c] inv same_inv by blast
  let ?rest = "\<lambda>r s1. case r of Inl err \<Rightarrow> (Some err, s1) | Inr i \<Rightarrow>
         (case slot_admit env i data off s1 of (Some err, s2) \<Rightarrow> (Some err, s2)
          | (None, s2) \<Rightarrow> (case slot_store env i data off s2 of (Some err, s3) \<Rightarrow> (Some err, s3)
                           | (None, s3) \<Rightarrow> (None, slot_set_dirty now i s3)))"
  have rest: "pool_inv (snd (?rest r s1))" if i1: "pool_inv s1" for r s1
  proof (cases r)
    case (Inr i)
    obtain ra s2 where a: "slot_admit env i data off s1 = (ra, s2)" by (metis surj_pair)
    obtain rb s3 where b: "slot_store env i data off s2 = (rb, s3)" by (metis surj_pair)
    have i2: "pool_inv s2" "pool_inv s3" using admit_same [OF a] store_same [OF b] i1 same_inv by blast+
    then show ?thesis using set_dirty_same same_inv [OF _ _ i2(2)] by (cases ra; cases rb) (simp_all add: Inr a b)
  qed (use i1 in simp)
  have new: "pool_inv (snd (?rest r s1))" if "pww_slot_find dsn member s0 = None"
    "pww_slot_new env now e d dsn member s0 = (r, s1)" for r s1
    using rest new_inv(1) [OF i0 that(1) k that(2)] .
  obtain r s1 where n: "pww_slot_new env now e d dsn member s0 = (r, s1)" by (metis surj_pair)
  show ?thesis using inv i0 rest [OF i0, of "Inr i" for i] new [OF _ n]
    by (cases "pww_check_member_cap off (of_nat (length data))"; cases r0; cases "pww_slot_find dsn member s0"; cases "off = 0")
      (auto simp: pww_write_def c n)
qed

lemma resize_put_same:
  assumes "pww_resize junk slot (pool s ! i) sz fs = (r, pm', fs')"
  shows "idents ((put_slot i pm' s)\<lparr>spill_io := f\<rparr>) = idents s"
    and "idents ((put_slot i (pm'\<lparr>high_water := sz\<rparr>) s)\<lparr>spill_io := f\<rparr>) = idents s"
proof -
  have "ident pm' = ident (pool s ! i)" using ident_same_slot [OF resize_same [OF assms]] .
  then show "idents ((put_slot i pm' s)\<lparr>spill_io := f\<rparr>) = idents s"
    "idents ((put_slot i (pm'\<lparr>high_water := sz\<rparr>) s)\<lparr>spill_io := f\<rparr>) = idents s"
    using idents_put_same [of pm' s i] idents_put_same [of "pm'\<lparr>high_water := sz\<rparr>" s i]
    by (auto simp: idents_def ident_def slot_key_def)
qed

lemma truncate_inv:
  assumes inv: "pool_inv s" and k: "key_ok (dsn, member)"
  shows "pool_inv (snd (pww_truncate env now e d dsn member sz s))"
proof (cases "pww_slot_find dsn member s")
  case None
  obtain r s1 where n: "pww_slot_new env now e d dsn member s = (r, s1)" by (metis surj_pair)
  note ni = new_inv [OF inv None k n]
  show ?thesis
  proof (cases r)
    case (Inr i)
    obtain ra s2 where a: "slot_admit env i [] 0 s1 = (ra, s2)" by (metis surj_pair)
    have i2: "pool_inv s2" "i < length (pool s2)" "used (pool s2 ! i)"
      using admit_same [OF a] ni(1) ni(2) [OF Inr] same_inv same_used by blast+
    show ?thesis using inv i2 release_used_inv [OF i2] set_dirty_same same_inv [OF _ _ i2(1)]
      by (auto simp: pww_truncate_def None n Inr a split: option.splits)
  qed (use inv ni(1) in \<open>auto simp: pww_truncate_def None n\<close>)
next
  case (Some i)
  obtain ra s1 where a: "(if high_water (pool s ! i) < sz then slot_admit env i [] (ucast sz) s else (None, s)) = (ra, s1)"
    by (metis surj_pair)
  have i1: "pool_inv s1" using a inv admit_same [of env i "[]" "ucast sz" s] same_inv by (auto split: if_splits)
  obtain rb pm' fs' where b: "pww_resize (env_junk env) (int i) (pool s1 ! i) sz (spill_io s1) = (rb, pm', fs')" by (metis surj_pair)
  note rp = resize_put_same [OF b]
  have "pool_inv ((put_slot i pm' s1)\<lparr>spill_io := fs'\<rparr>)" by (rule same_inv [OF rp(1) _ i1]) simp
  moreover have "pool_inv (slot_set_dirty now i ((put_slot i (pm'\<lparr>high_water := sz\<rparr>) s1)\<lparr>spill_io := fs'\<rparr>))"
    using rp(2) by (intro same_inv [OF _ _ i1]) (simp_all add: set_dirty_same)
  ultimately show ?thesis using inv i1
    by (simp add: pww_truncate_def Some a b split: option.splits)
qed

lemma discard_inv: "pool_inv s \<Longrightarrow> pool_inv (snd (pww_discard dsn member s))"
  using find_slot_Some release_used_inv by (auto simp: pww_discard_def split: option.splits)

lemma flush_member_inv: "pool_inv s \<Longrightarrow> pool_inv (snd (pww_flush_member env now dsn member s))"
  by (auto simp: pww_flush_member_def flush_inv split: option.splits)

lemma flush_release_inv:
  assumes "pool_inv s" and "i < length (pool s)" and "used (pool s ! i)"
  shows "pool_inv (flush_release env now i s)" and "length (pool (flush_release env now i s)) = length (pool s)"
proof -
  let ?s1 = "if dirty (pool s ! i) then snd (pdsflush_slot env now i s) else s"
  have s1: "pool_inv ?s1" "i < length (pool ?s1)" "used (pool ?s1 ! i)"
    using assms flush_used [OF assms(2,2)] by (auto simp: flush_inv)
  show i: "pool_inv (flush_release env now i s)" unfolding flush_release_def using release_used_inv [OF s1] .
  show "length (pool (flush_release env now i s)) = length (pool s)" using pool_8 [OF i] pool_8 [OF assms(1)] by simp
qed

lemma fold_inv:
  assumes "\<And>i s. i \<in> set xs \<Longrightarrow> P s \<Longrightarrow> P (f i s)" and "P s"
  shows "P (fold f xs s)"
  using assms by (induction xs arbitrary: s) auto

lemma idle_inv: "pool_inv s \<Longrightarrow> pool_inv (pww_flush_idle env now s)"
  unfolding pww_flush_idle_def by (rule fold_inv) (auto simp: pool_8 intro: flush_release_inv)

lemma flush_all_inv: "pool_inv s \<Longrightarrow> pool_inv (pww_flush_all env now s)"
  unfolding pww_flush_all_def by (rule fold_inv) (auto simp: pool_8 intro: flush_release_inv)

end
