(* ===== verification/Poolprop.thy ===== *)
theory Poolprop
  imports Pww
begin

text \<open>
  What holds of the pool of pending members over whole runs: the operations of
  \<^verbatim>\<open>src/src/mvspww.c\<close> as steps of one relation, each with its own environment, since the
  directories and the volume table change between calls; the lock invariant by rule induction;
  what draining the pool leaves; what a write leaves pending, and what it costs when it is
  refused.
\<close>

section \<open>Steps\<close>

datatype pww_op =
    OpCreate int int bytes bytes
  | OpWrite int int bytes bytes bytes u64
  | OpTruncate int int bytes bytes u32
  | OpDiscard bytes bytes
  | OpFlushMember bytes bytes
  | OpFlushIdle
  | OpFlushAll
  | OpTouch int int bytes bytes int

fun op_key :: "pww_op \<Rightarrow> member_key option" where
  "op_key (OpCreate e d dsn m) = Some (dsn, m)"
| "op_key (OpWrite e d dsn m dat off) = Some (dsn, m)"
| "op_key (OpTruncate e d dsn m sz) = Some (dsn, m)"
| "op_key (OpDiscard dsn m) = Some (dsn, m)"
| "op_key (OpFlushMember dsn m) = Some (dsn, m)"
| "op_key OpFlushIdle = None"
| "op_key OpFlushAll = None"
| "op_key (OpTouch e d dsn m t) = Some (dsn, m)"

fun pww_apply :: "mvs_env \<Rightarrow> int \<Rightarrow> pww_op \<Rightarrow> pww_state \<Rightarrow> pww_state" where
  "pww_apply env now (OpCreate e d dsn m) s = snd (pww_create env now e d dsn m s)"
| "pww_apply env now (OpWrite e d dsn m dat off) s = snd (pww_write env now e d dsn m dat off s)"
| "pww_apply env now (OpTruncate e d dsn m sz) s = snd (pww_truncate env now e d dsn m sz s)"
| "pww_apply env now (OpDiscard dsn m) s = snd (pww_discard dsn m s)"
| "pww_apply env now (OpFlushMember dsn m) s = snd (pww_flush_member env now dsn m s)"
| "pww_apply env now OpFlushIdle s = pww_flush_idle env now s"
| "pww_apply env now OpFlushAll s = pww_flush_all env now s"
| "pww_apply env now (OpTouch e d dsn m t) s = pww_touch_stats env now e d dsn m t s"

text \<open>Names come from the directory layer: at most 44 and 8 characters, none a blank.\<close>

definition op_ok :: "pww_op \<Rightarrow> bool" where
  "op_ok p \<longleftrightarrow> (case op_key p of None \<Rightarrow> True | Some k \<Rightarrow> key_ok k)"

inductive pww_reach :: "pww_state \<Rightarrow> bool" where
  reach_init: "pww_reach (pww_init s)"
| reach_step: "pww_reach s \<Longrightarrow> op_ok p \<Longrightarrow> pww_reach (pww_apply env now p s)"

section \<open>The lock invariant\<close>

lemma inv_more_enqs: "ids_inv ids es \<Longrightarrow> set es \<subseteq> set es' \<Longrightarrow> ids_inv ids es'"
  unfolding ids_inv_def by blast

lemma apply_stats_keeps:
  assumes "pdsflush_apply_stats k ud s = (r, s')"
  shows "pool s' = pool s \<and> enqs s' = enqs s"
  using assms by (auto simp: pdsflush_apply_stats_def split: prod.splits sys_out.splits)

lemma sys_call_keeps: "sys_call s = (r, s') \<Longrightarrow> pool s' = pool s \<and> enqs s' = enqs s"
  by (simp add: sys_call_sel)

lemma touch_enqs:
  "pool (pww_touch_stats env now e d dsn m t s) = pool s \<and>
   set (enqs s) \<subseteq> set (enqs (pww_touch_stats env now e d dsn m t s))"
  unfolding pww_touch_stats_def Let_def
  by (auto simp: enq_add_def enq_del_def dest!: apply_stats_keeps sys_call_keeps split: if_splits prod.splits sum.splits)

lemma touch_inv: "pool_inv s \<Longrightarrow> pool_inv (pww_touch_stats env now e d dsn m t s)"
  using touch_enqs [of env now e d dsn m t s] inv_more_enqs by (simp add: pool_inv_def idents_def)

lemma init_inv: "pool_inv (pww_init s)"
  by (auto simp: pool_inv_def ids_inv_def pww_init_def idents_def ident_def pending_zero_def)

lemmas op_invs = create_inv write_inv truncate_inv discard_inv flush_member_inv idle_inv flush_all_inv touch_inv

lemma apply_inv: "pool_inv s \<Longrightarrow> op_ok p \<Longrightarrow> pool_inv (pww_apply env now p s)"
  by (cases p) (auto simp: op_ok_def intro: op_invs)

lemma reach_inv: "pww_reach s \<Longrightarrow> pool_inv s"
  by (induction rule: pww_reach.induct) (auto intro: init_inv apply_inv)

lemma inv_slot:
  assumes inv: "pool_inv s" and i: "i < PWW_MAX_PENDING" "used (pool s ! i)"
  shows "enq_held (pool s ! i) \<and> allocated (pool s ! i) \<and> slot_rname (pool s ! i) \<in> set (enqs s) \<and>
    key_ok (slot_key (pool s ! i)) \<and>
    (\<forall>j < PWW_MAX_PENDING. used (pool s ! j) \<longrightarrow> slot_key (pool s ! j) = slot_key (pool s ! i) \<longrightarrow> j = i)"
  using assms pool_8 [OF inv] unfolding pool_inv_def ids_inv_def
  by (fastforce simp: nth_idents ident_def slot_rname_key)

lemma inv_find:
  assumes inv: "pool_inv s" and i: "i < PWW_MAX_PENDING" "used (pool s ! i)"
  shows "pww_slot_find (pm_dsname (pool s ! i)) (pm_member (pool s ! i)) s = Some i"
proof (cases "pww_slot_find (pm_dsname (pool s ! i)) (pm_member (pool s ! i)) s")
  case None
  then show ?thesis using i pool_8 [OF inv] find_upt_None [OF None [unfolded pww_slot_find_def], of i] by simp
next
  case (Some j)
  then show ?thesis using find_slot_Some [OF Some] inv_slot [OF inv i] pool_8 [OF inv] by (simp add: slot_key_def)
qed

text \<open>
  The lock invariant of the pool: however the operations are interleaved and whatever the
  system calls answer, the pool has eight slots, every slot in use holds the SPFEDIT enqueue of
  its member and its allocation, no member is in two slots, and the search for a member finds
  its slot.
\<close>
theorem pool_locked:
  assumes "pww_reach s"
  shows "length (pool s) = PWW_MAX_PENDING \<and>
    (\<forall>i < PWW_MAX_PENDING. used (pool s ! i) \<longrightarrow>
       enq_held (pool s ! i) \<and> allocated (pool s ! i) \<and> slot_rname (pool s ! i) \<in> set (enqs s) \<and>
       pww_slot_find (pm_dsname (pool s ! i)) (pm_member (pool s ! i)) s = Some i \<and>
       (\<forall>j < PWW_MAX_PENDING. used (pool s ! j) \<longrightarrow> slot_key (pool s ! j) = slot_key (pool s ! i) \<longrightarrow> j = i))"
  using reach_inv [OF assms] pool_8 inv_slot inv_find by blast

section \<open>Draining the pool\<close>

lemma idents_release: "idents (pww_slot_release i s) = (idents s)[i := ident pending_zero]"
  by (rule release_pool)

lemma idents_flush_release: "idents (flush_release env now i s) = (idents s)[i := ident pending_zero]"
  by (simp add: flush_release_def idents_release flush_same)

lemma used_idents: "i < length (pool s) \<Longrightarrow> used (pool s ! i) = fst (idents s ! i)"
  by (simp add: nth_idents ident_def)

lemma pool_length_idents: "idents s' = idents s \<Longrightarrow> length (pool s') = length (pool s)"
  by (metis length_idents)

text \<open>One step of the draining loop.\<close>

definition drain_step :: "mvs_env \<Rightarrow> int \<Rightarrow> nat \<Rightarrow> pww_state \<Rightarrow> pww_state" where
  "drain_step env now i s = (if \<not> used (pool s ! i) then s else flush_release env now i s)"

lemma flush_all_steps: "pww_flush_all env now s = fold (drain_step env now) [0..<length (pool s)] s"
  by (simp add: pww_flush_all_def drain_step_def [abs_def])

lemma drain_step_idents:
  "idents (drain_step env now i s) = idents s \<and> \<not> used (pool s ! i) \<or>
   idents (drain_step env now i s) = (idents s)[i := ident pending_zero]"
  by (simp add: drain_step_def idents_flush_release)

lemma drain_idents:
  assumes "\<forall>i \<in> set xs. i < length (pool s)"
  shows "length (pool (fold (drain_step env now) xs s)) = length (pool s) \<and>
    (\<forall>i < length (pool s). used (pool (fold (drain_step env now) xs s) ! i) \<longrightarrow> i \<notin> set xs \<and> used (pool s ! i))"
  using assms
proof (induction xs arbitrary: s)
  case (Cons x xs)
  let ?s = "drain_step env now x s"
  have l: "length (pool ?s) = length (pool s)"
    using drain_step_idents [of env now x s] by (metis length_idents length_list_update)
  have u: "i \<noteq> x \<and> used (pool s ! i)" if "i < length (pool s)" "used (pool ?s ! i)" for i
    using drain_step_idents [of env now x s] that l Cons.prems
    by (auto simp: used_idents nth_list_update ident_def pending_zero_def split: if_splits)
  have ih: "length (pool (fold (drain_step env now) xs ?s)) = length (pool ?s)"
    "\<forall>i < length (pool ?s). used (pool (fold (drain_step env now) xs ?s) ! i) \<longrightarrow> i \<notin> set xs \<and> used (pool ?s ! i)"
    using Cons.IH [of ?s] Cons.prems l by auto
  show ?case using ih u l by auto
qed simp

text \<open>No entry of the full table is in force.\<close>

definition none_full :: "int \<Rightarrow> (bytes \<times> int) list \<Rightarrow> bool" where
  "none_full now tab \<longleftrightarrow> (\<forall>d t. (d, t) \<in> set tab \<longrightarrow> t = 0 \<or> PWW_FULL_EXPIRY_SEC < now - t)"

lemma none_full_query: "none_full now tab \<Longrightarrow> \<not> fst (pdsflush_dataset_is_full dsn now tab)"
  by (fastforce simp: none_full_def is_full_iff)

lemma release_ok:
  assumes "sysq s = []"
  shows "pool (pww_slot_release i s) = (pool s)[i := pending_zero] \<and> lib (pww_slot_release i s) = lib s \<and>
    spill_io (pww_slot_release i s) = spill_io s \<and> sysq (pww_slot_release i s) = [] \<and>
    g_pww_full (pww_slot_release i s) = g_pww_full s"
proof -
  have z: "pending_zero\<lparr>used := False\<rparr> = pending_zero" by (simp add: pending_zero_def)
  show ?thesis using assms
    by (auto simp: pww_slot_release_def pww_unlock_def pww_unalloc_guarded_def pww_deq_guarded_def sys_call_def
        enq_del_def Let_def z)
qed

definition quiet :: "int \<Rightarrow> pww_state \<Rightarrow> bool" where
  "quiet now s \<longleftrightarrow> spill_io s = [] \<and> sysq s = [] \<and> none_full now (g_pww_full s)"

lemma flush_release_ok:
  assumes i: "i < length (pool s)" and wf: "pm_wf (pool s ! i)" and q: "quiet now s"
  shows "pool (flush_release env now i s) = (pool s)[i := pending_zero] \<and> quiet now (flush_release env now i s) \<and>
    lib (flush_release env now i s) = (if dirty (pool s ! i)
      then (lib s)(slot_key (pool s ! i) \<mapsto> ascii_to_ebcdic (pm_content (pool s ! i))) else lib s)"
proof (cases "dirty (pool s ! i)")
  case True
  obtain s' pm' where f: "pdsflush_slot env now i s = (None, s')" "pool s' = (pool s)[i := pm']"
    "lib s' = (lib s)(slot_key (pool s ! i) \<mapsto> ascii_to_ebcdic (pm_content (pool s ! i)))"
    "spill_io s' = []" "sysq s' = []"
    "\<forall>d t. (d, t) \<in> set (g_pww_full s') \<longrightarrow> t = 0 \<or> (d, t) \<in> set (g_pww_full s)"
    using flush_slot_ok [OF i wf _ _ none_full_query, of now env] q unfolding quiet_def by blast
  have "none_full now (g_pww_full s')" using f(6) q unfolding quiet_def none_full_def by blast
  then show ?thesis using True f release_ok [OF f(5), of i] by (simp add: flush_release_def quiet_def)
next
  case False
  then show ?thesis using q release_ok [of s i] by (simp add: flush_release_def quiet_def)
qed

definition drained :: "pww_state \<Rightarrow> nat list \<Rightarrow> member_key \<Rightarrow> bytes option" where
  "drained s xs k = (case find (\<lambda>i. used (pool s ! i) \<and> dirty (pool s ! i) \<and> slot_key (pool s ! i) = k) xs of
     None \<Rightarrow> lib s k | Some i \<Rightarrow> Some (ascii_to_ebcdic (pm_content (pool s ! i))))"

lemma find_cong_on: "(\<And>x. x \<in> set xs \<Longrightarrow> P x = Q x) \<Longrightarrow> find P xs = find Q xs"
  by (induction xs) auto

lemma find_in_set: "find P xs = Some x \<Longrightarrow> x \<in> set xs"
  by (auto simp: find_Some_iff)

lemma drain_lib:
  assumes "\<forall>i \<in> set xs. i < length (pool s) \<and> (used (pool s ! i) \<longrightarrow> pm_wf (pool s ! i))" and "quiet now s" and "distinct xs"
    and "\<forall>i \<in> set xs. \<forall>j \<in> set xs. used (pool s ! i) \<longrightarrow> used (pool s ! j) \<longrightarrow> slot_key (pool s ! i) = slot_key (pool s ! j) \<longrightarrow> i = j"
  shows "lib (fold (drain_step env now) xs s) k = drained s xs k"
  using assms
proof (induction xs arbitrary: s)
  case (Cons x xs)
  let ?s = "drain_step env now x s"
  have st: "pool ?s = (if used (pool s ! x) then (pool s)[x := pending_zero] else pool s)" "quiet now ?s"
    "lib ?s = (if used (pool s ! x) \<and> dirty (pool s ! x)
       then (lib s)(slot_key (pool s ! x) \<mapsto> ascii_to_ebcdic (pm_content (pool s ! x))) else lib s)"
    using flush_release_ok [of x s now env] Cons.prems by (auto simp: drain_step_def)
  have same: "pool ?s ! i = pool s ! i" if "i \<in> set xs" for i
    using that Cons.prems(3) st(1) by (cases "i = x") auto
  have l: "length (pool ?s) = length (pool s)" using st(1) by simp
  have "lib (fold (drain_step env now) xs ?s) k = drained ?s xs k"
    using Cons.prems st(2) l same by (intro Cons.IH) auto
  also have "\<dots> = drained s (x # xs) k"
  proof -
    have f: "find (\<lambda>i. used (pool ?s ! i) \<and> dirty (pool ?s ! i) \<and> slot_key (pool ?s ! i) = k) xs =
      find (\<lambda>i. used (pool s ! i) \<and> dirty (pool s ! i) \<and> slot_key (pool s ! i) = k) xs"
      using same by (intro find_cong_on) simp
    let ?f = "find (\<lambda>i. used (pool s ! i) \<and> dirty (pool s ! i) \<and> slot_key (pool s ! i) = k) xs"
    have x: "?f = None" if "used (pool s ! x)" "slot_key (pool s ! x) = k"
      using that Cons.prems(3,4) by (auto simp: find_None_iff)
    show ?thesis
    proof (cases ?f)
      case None
      then show ?thesis unfolding drained_def f by (cases "k = slot_key (pool s ! x)") (simp_all add: st(3))
    next
      case (Some i)
      then have "i \<in> set xs" by (rule find_in_set)
      then have "pool ?s ! i = pool s ! i" by (rule same)
      moreover have "\<not> (used (pool s ! x) \<and> slot_key (pool s ! x) = k)" using x Some by auto
      ultimately show ?thesis unfolding drained_def f by (auto simp: Some)
    qed
  qed
  finally show ?case by simp
qed (simp add: drained_def)

lemma drained_pool:
  assumes inv: "pool_inv s"
  shows "drained s [0..<length (pool s)] k = (case pww_slot_find (fst k) (snd k) s of
      Some i \<Rightarrow> if dirty (pool s ! i) then Some (ascii_to_ebcdic (pm_content (pool s ! i))) else lib s k
    | None \<Rightarrow> lib s k)"
proof (cases "find (\<lambda>i. used (pool s ! i) \<and> dirty (pool s ! i) \<and> slot_key (pool s ! i) = k) [0..<length (pool s)]")
  case None
  have "\<not> dirty (pool s ! i)" if "pww_slot_find (fst k) (snd k) s = Some i" for i
    using find_slot_Some [OF that] find_upt_None [OF None, of i] by auto
  then show ?thesis using None by (auto simp: drained_def split: option.splits)
next
  case (Some i)
  then have i: "i < PWW_MAX_PENDING" "used (pool s ! i)" "dirty (pool s ! i)" "slot_key (pool s ! i) = k"
    using find_upt_Some [OF Some] pool_8 [OF inv] by auto
  then have "pww_slot_find (fst k) (snd k) s = Some i" using inv_find [OF inv i(1,2)] by (auto simp: slot_key_def)
  then show ?thesis using Some i(3) by (simp add: drained_def)
qed

text \<open>Draining frees every slot; when nothing fails it stores every unwritten member.\<close>

lemma flush_all_frees: "pm \<in> set (pool (pww_flush_all env now s)) \<Longrightarrow> \<not> used pm"
  using drain_idents [of "[0..<length (pool s)]" s env now] by (auto simp: flush_all_steps in_set_conv_nth)

definition pending_view :: "pww_state \<Rightarrow> member_key \<Rightarrow> bytes option" where
  "pending_view s k = (case pww_slot_find (fst k) (snd k) s of
      Some i \<Rightarrow> if dirty (pool s ! i) then Some (ascii_to_ebcdic (pm_content (pool s ! i))) else lib s k
    | None \<Rightarrow> lib s k)"

lemma flush_all_stores:
  assumes inv: "pool_inv s" and "quiet now s" and "\<forall>pm \<in> set (pool s). used pm \<longrightarrow> pm_wf pm"
  shows "lib (pww_flush_all env now s) k = pending_view s k"
proof -
  have "lib (pww_flush_all env now s) k = drained s [0..<length (pool s)] k"
    unfolding flush_all_steps
    using assms inv_slot [OF inv] pool_8 [OF inv] by (intro drain_lib) auto
  then show ?thesis by (simp add: drained_pool [OF inv] pending_view_def)
qed

text \<open>
  Draining ends with nothing pending: after the flush of all members, whatever the system
  answered, no slot is in use; and when nothing fails, no data set is known to be full and the
  slots are well-formed, the members in the library afterwards are exactly those before, with
  every member that had unwritten data replaced by that data in EBCDIC.
\<close>
theorem flush_all_drains:
  assumes "pww_reach s"
  shows "(\<forall>pm \<in> set (pool (pww_flush_all env now s)). \<not> used pm) \<and>
    (quiet now s \<longrightarrow> (\<forall>pm \<in> set (pool s). used pm \<longrightarrow> pm_wf pm) \<longrightarrow>
      (\<forall>k. lib (pww_flush_all env now s) k =
         (case pww_slot_find (fst k) (snd k) s of
            Some i \<Rightarrow> if dirty (pool s ! i) then Some (ascii_to_ebcdic (pm_content (pool s ! i))) else lib s k
          | None \<Rightarrow> lib s k)))"
  using flush_all_frees flush_all_stores [OF reach_inv [OF assms]] unfolding pending_view_def by blast

section \<open>What a write leaves pending\<close>

text \<open>A slot that holds the same bytes for the same member.\<close>

definition slot_eq :: "pending_member_t \<Rightarrow> pending_member_t \<Rightarrow> bool" where
  "slot_eq p q \<longleftrightarrow> pm_wf q \<and> pm_content q = pm_content p \<and> high_water q = high_water p \<and>
     (pm_in_step p \<longrightarrow> pm_in_step q) \<and> ident q = ident p"

lemma build_trial_keeps:
  assumes "pm_wf pm" and "unat off + length d \<le> SPILL_MAX"
  obtains t q where "blkc_build_trial pm d off [] = (Some t, q, [])" and "slot_eq pm q"
proof (cases "(ucast off :: u32) = high_water pm \<and> consumed_upto (blkcalc pm) = high_water pm")
  case True
  then show ?thesis using that [of _ pm] assms(1) by (simp add: blkc_build_trial_def Let_def slot_eq_def)
next
  case False
  obtain t q where "blkc_build_trial pm d off [] = (Some t, q, [])" "trial_ok pm d off t q"
    using trial_scan [OF assms False] by blast
  then show ?thesis using that [of t q] ident_same_slot [of pm q] by (simp add: trial_ok_def slot_eq_def)
qed

lemma slot_eq_blkcalc: "slot_eq p q \<Longrightarrow> slot_eq p (q\<lparr>blkcalc := b\<rparr>)"
  by (auto simp: slot_eq_def pm_wf_def pm_content_def pm_in_step_def has_spill_file_open_def ident_def slot_key_def)

lemma admit_keeps:
  assumes "slot_admit env i d off s = (r, s')" and "spill_io s = []" and "pm_wf (pool s ! i)"
    and "unat off + length d \<le> SPILL_MAX"
  obtains q where "pool s' = (pool s)[i := q]" and "slot_eq (pool s ! i) q"
    and "spill_io s' = []" and "sysq s' = sysq s" and "lib s' = lib s" and "g_pww_full s' = g_pww_full s"
proof -
  obtain t q where q: "blkc_build_trial (pool s ! i) d off [] = (Some t, q, [])" "slot_eq (pool s ! i) q"
    using build_trial_keeps [OF assms(3,4)] by blast
  have same: "slot_eq (pool s ! i) (pool s ! i)" using assms(3) by (simp add: slot_eq_def)
  have "\<exists>q. pool s' = (pool s)[i := q] \<and> slot_eq (pool s ! i) q \<and> spill_io s' = [] \<and> sysq s' = sysq s \<and>
      lib s' = lib s \<and> g_pww_full s' = g_pww_full s"
    using assms(1,2) q same slot_eq_blkcalc [OF q(2)]
    by (auto simp: slot_admit_def blkcalc_admit_write_def Let_def split: option.splits prod.splits if_splits
        intro: exI [of _ "pool s ! i"])
  then show ?thesis using that by blast
qed

lemma lock_ok:
  assumes "sysq s = []"
  obtains s' dd where "pww_lock env i s = (None, s')"
    and "pool s' = (pool s)[i := (pool s ! i)\<lparr>enq_held := True, allocated := True, ddname := dd\<rparr>]"
    and "spill_io s' = spill_io s" and "sysq s' = []" and "lib s' = lib s" and "g_pww_full s' = g_pww_full s"
  using that assms by (simp add: pww_lock_def sys_call_def Let_def enq_add_def put_slot_def)

text \<open>Taking a slot: free, or freed by writing its member first.\<close>

lemma take_ok:
  assumes inv: "pool_inv s" and q: "quiet now s" and wf: "\<forall>pm \<in> set (pool s). used pm \<longrightarrow> pm_wf pm"
    and t: "pww_slot_take env now s = (i, s1)"
  shows "i < length (pool s) \<and> (\<exists>p. pool s1 = (pool s)[i := p]) \<and> quiet now s1 \<and>
    lib s1 = (if used (pool s ! i) \<and> dirty (pool s ! i)
      then (lib s)(slot_key (pool s ! i) \<mapsto> ascii_to_ebcdic (pm_content (pool s ! i))) else lib s)"
proof (cases "find (\<lambda>i. \<not> used (pool s ! i)) [0..<length (pool s)]")
  case (Some j)
  then have "i = j" "s1 = s" "j < length (pool s)" "\<not> used (pool s ! j)"
    using t find_upt_Some [OF Some] by (auto simp: pww_slot_take_def)
  then show ?thesis using q by (auto intro: exI [of _ "pool s ! j"])
next
  case None
  define l where "l = pww_lru (tl (pool s)) 1 0 (last_write_time (hd (pool s)))"
  have e: "i = l" "s1 = flush_release env now l s"
    using t None by (auto simp: pww_slot_take_def Let_def l_def flush_release_def)
  have ll: "l < length (pool s)"
    using pww_lru_bound [of 0 1 "tl (pool s)" "last_write_time (hd (pool s))"] pool_8 [OF inv]
    by (simp add: l_def PWW_MAX_PENDING_def)
  then have "used (pool s ! l)" using find_upt_None [OF None ll] by simp
  then show ?thesis using e ll flush_release_ok [OF ll _ q, of env] wf by auto
qed

lemma new_slot_content:
  assumes "p = (pww_slot_init now e d dsn m es)\<lparr>enq_held := True, allocated := True, ddname := dd\<rparr>" and "key_ok (dsn, m)"
  shows "pm_wf p \<and> pm_content p = [] \<and> high_water p = 0 \<and> pm_in_step p \<and> used p \<and> slot_key p = (dsn, m)"
  using assms by (auto simp: pww_slot_init_def blkcalc_slot_reset_def pending_zero_def pm_wf_def pm_content_def pm_in_step_def
      has_spill_file_open_def spill_zero_def slot_key_def key_ok_def split: option.splits)

text \<open>
  The slot an operation works on, found or new: it holds the member's pending bytes, the other
  slots are untouched, and a member written out to make room is in the library.
\<close>

definition ready_slot :: "int \<Rightarrow> pww_state \<Rightarrow> nat \<Rightarrow> pww_state \<Rightarrow> member_key \<Rightarrow> bytes \<Rightarrow> bool" where
  "ready_slot now s i s1 k c \<longleftrightarrow> i < length (pool s1) \<and> pool_inv s1 \<and> quiet now s1 \<and> used (pool s1 ! i) \<and>
     slot_key (pool s1 ! i) = k \<and> pm_wf (pool s1 ! i) \<and> pm_content (pool s1 ! i) = c \<and>
     (\<exists>p. pool s1 = (pool s)[i := p]) \<and>
     lib s1 = (if used (pool s ! i) \<and> dirty (pool s ! i) \<and> slot_key (pool s ! i) \<noteq> k
       then (lib s)(slot_key (pool s ! i) \<mapsto> ascii_to_ebcdic (pm_content (pool s ! i))) else lib s)"

lemma new_ok:
  assumes inv: "pool_inv s" and q: "quiet now s" and wf: "\<forall>pm \<in> set (pool s). used pm \<longrightarrow> pm_wf pm"
    and f: "pww_slot_find dsn m s = None" and k: "key_ok (dsn, m)"
  obtains i s1 where "pww_slot_new env now e d dsn m s = (Inr i, s1)" and "ready_slot now s i s1 (dsn, m) []"
    and "pm_in_step (pool s1 ! i)" and "high_water (pool s1 ! i) = 0"
proof -
  obtain i s0 where t: "pww_slot_take env now s = (i, s0)" by (metis surj_pair)
  note tk = take_ok [OF inv q wf t]
  let ?s1 = "put_slot i (pww_slot_init now e d dsn m (pexports s0)) s0"
  obtain s2 dd where l: "pww_lock env i ?s1 = (None, s2)"
    "pool s2 = (pool ?s1)[i := (pool ?s1 ! i)\<lparr>enq_held := True, allocated := True, ddname := dd\<rparr>]"
    "spill_io s2 = spill_io ?s1" "sysq s2 = []" "lib s2 = lib ?s1" "g_pww_full s2 = g_pww_full ?s1"
    using lock_ok [of ?s1 env i] tk unfolding quiet_def by auto
  have n: "pww_slot_new env now e d dsn m s = (Inr i, s2)" using t l(1) by (simp add: pww_slot_new_def)
  note ni = new_inv [OF inv f k n]
  have c: "pm_wf (pool s2 ! i) \<and> pm_content (pool s2 ! i) = [] \<and> high_water (pool s2 ! i) = 0 \<and> pm_in_step (pool s2 ! i)"
    using new_slot_content [OF refl k] l(2) tk by auto
  have "slot_key (pool s ! i) \<noteq> (dsn, m)" if "used (pool s ! i)"
    using find_upt_None [OF f [unfolded pww_slot_find_def], of i] that tk by (auto simp: slot_key_def)
  then have "ready_slot now s i s2 (dsn, m) []"
    using ni(1) ni(2) [OF refl] c l tk by (auto simp: ready_slot_def quiet_def)
  then show ?thesis using that n c by blast
qed

lemma found_ready:
  assumes "pool_inv s" and "quiet now s" and "\<forall>pm \<in> set (pool s). used pm \<longrightarrow> pm_wf pm" and "pww_slot_find dsn m s = Some i"
  shows "ready_slot now s i s (dsn, m) (pm_content (pool s ! i))"
  using assms find_slot_Some [OF assms(4)] by (auto simp: ready_slot_def intro!: exI [of _ "pool s ! i"])

lemma cap_bound:
  assumes "pww_check_member_cap off (of_nat (length d)) = None" and "unat off + length d < 2 ^ 32"
  shows "unat off + length d \<le> SPILL_MAX"
proof -
  have l: "unat (of_nat (length d) :: u32) = length d" using assms(2) by (simp add: unat_of_nat)
  have "unat (off + ucast (of_nat (length d) :: u32)) = unat off + length d"
    using assms(2) l by (simp add: unat_word_ariths unat_up)
  then show ?thesis using assms(1)
    by (auto simp: pww_check_member_cap_def word_le_nat_alt SPILL_MAX_def PWW_MAX_MEMBER_BYTES_def split: if_splits)
qed

lemma set_dirty_content [simp]:
  "pm_wf (pww_set_dirty now p) = pm_wf p" "pm_content (pww_set_dirty now p) = pm_content p"
  by (simp_all add: pww_set_dirty_def pm_wf_def pm_content_def has_spill_file_open_def)

text \<open>Admission and storing on a ready slot.\<close>

lemma admit_store_ok:
  assumes r: "ready_slot now s i s1 k c" and e: "unat off + length d \<le> SPILL_MAX"
    and g: "unat off \<le> unat (high_water (pool s1 ! i)) \<or> pm_in_step (pool s1 ! i)"
    and a: "slot_admit env i d off s1 = (None, s2)"
  obtains s3 where "slot_store env i d off s2 = (None, s3)"
    and "ready_slot now s i (slot_set_dirty now i s3) k (splice c (unat off) d)" and "dirty (pool (slot_set_dirty now i s3) ! i)"
proof -
  have io: "spill_io s1 = []" and wf: "pm_wf (pool s1 ! i)" and i: "i < length (pool s1)"
    using r by (auto simp: ready_slot_def quiet_def)
  obtain q where q: "pool s2 = (pool s1)[i := q]" "slot_eq (pool s1 ! i) q" "spill_io s2 = []"
    "sysq s2 = sysq s1" "lib s2 = lib s1" "g_pww_full s2 = g_pww_full s1"
    using admit_keeps [OF a io wf e] by blast
  obtain p where p: "pww_store_range (env_junk env) (int i) q off d [] = (None, p, [])" "pm_wf p"
    "pm_content p = splice (pm_content q) (unat off) d"
    using store_range_refines [of q off d "env_junk env" "int i"] q(2) e g unfolding slot_eq_def by metis
  let ?s3 = "(put_slot i p s2)\<lparr>spill_io := []\<rparr>" and ?p = "pww_set_dirty now p"
  have st: "slot_store env i d off s2 = (None, ?s3)" using p(1) q(1,3) i by (simp add: slot_store_def)
  have "ident ?p = ident (pool s1 ! i)"
    using ident_same_slot [OF store_range_same [OF p(1)]] q(2) by (simp add: slot_eq_def ident_def slot_key_def pww_set_dirty_def)
  moreover have "pool_inv (slot_set_dirty now i ?s3)"
    using r admit_same [OF a] store_same [OF st] set_dirty_same
    by (auto simp: ready_slot_def intro: same_inv [of _ s1])
  moreover have "pm_wf ?p" "pm_content ?p = splice (pm_content q) (unat off) d"
    using p(2,3) by simp_all
  ultimately have "ready_slot now s i (slot_set_dirty now i ?s3) k (splice c (unat off) d)"
    using r q i by (auto simp: ready_slot_def slot_set_dirty_def quiet_def ident_def slot_eq_def)
  moreover have "dirty (pool (slot_set_dirty now i ?s3) ! i)" using i q(1) by (simp add: slot_set_dirty_def pww_set_dirty_def)
  ultimately show ?thesis using that st by blast
qed

definition pending_bytes :: "pww_state \<Rightarrow> member_key \<Rightarrow> bytes" where
  "pending_bytes s k = (case pww_slot_find (fst k) (snd k) s of None \<Rightarrow> [] | Some i \<Rightarrow> pm_content (pool s ! i))"

definition write_gap_ok :: "pww_state \<Rightarrow> member_key \<Rightarrow> u64 \<Rightarrow> bool" where
  "write_gap_ok s k off \<longleftrightarrow> (case pww_slot_find (fst k) (snd k) s of None \<Rightarrow> True
     | Some i \<Rightarrow> unat off \<le> unat (high_water (pool s ! i)) \<or> pm_in_step (pool s ! i))"

lemma quiet_space:
  assumes "quiet now s" and "pww_check_dataset_space now dsn s = (r, s0)"
  shows "r = None" and "quiet now s0" and "pool s0 = pool s" and "lib s0 = lib s" and "enqs s0 = enqs s"
proof -
  have "\<not> fst (pdsflush_dataset_is_full dsn now (g_pww_full s))" using assms(1) none_full_query by (simp add: quiet_def)
  then show "r = None" "pool s0 = pool s" "lib s0 = lib s" "enqs s0 = enqs s"
    using assms(2) by (auto simp: pww_check_dataset_space_def split: prod.splits)
  have "none_full now (snd (pdsflush_dataset_is_full dsn now (g_pww_full s)))"
    using assms(1) is_full_entries unfolding quiet_def none_full_def by blast
  then show "quiet now s0" using assms by (auto simp: pww_check_dataset_space_def quiet_def split: prod.splits)
qed

lemma write_ok:
  assumes inv: "pool_inv s" and q: "quiet now s" and wf: "\<forall>pm \<in> set (pool s). used pm \<longrightarrow> pm_wf pm" and k: "key_ok (dsn, m)"
    and b: "unat off + length d < 2 ^ 32" and g: "write_gap_ok s (dsn, m) off"
    and w: "pww_write env now e ds dsn m d off s = (None, s')"
  obtains i where "ready_slot now s i s' (dsn, m) (splice (pending_bytes s (dsn, m)) (unat off) d)" and "dirty (pool s' ! i)"
proof -
  note found = that
  obtain r0 s0 where c: "pww_check_dataset_space now dsn s = (r0, s0)" by (metis surj_pair)
  note c0 = quiet_space [OF q c]
  have inv0: "pool_inv s0" using inv c0 same_inv [of s0 s] by (simp add: idents_def)
  have wf0: "\<forall>pm \<in> set (pool s0). used pm \<longrightarrow> pm_wf pm" using wf c0 by simp
  have cap: "pww_check_member_cap off (of_nat (length d)) = None"
    using w by (auto simp: pww_write_def split: option.splits)
  note e = cap_bound [OF cap b]
  have fs: "pww_slot_find dsn m s0 = pww_slot_find dsn m s" by (simp add: pww_slot_find_def c0)
  have swap: "ready_slot now s0 j t kk cc = ready_slot now s j t kk cc" for j t kk cc by (simp add: ready_slot_def c0)
  have fin: thesis if sl: "ready_slot now s i s1 (dsn, m) (pending_bytes s (dsn, m))"
    "unat off \<le> unat (high_water (pool s1 ! i)) \<or> pm_in_step (pool s1 ! i)"
    and run: "(case slot_admit env i d off s1 of (Some err, s2) \<Rightarrow> (Some err, s2)
        | (None, s2) \<Rightarrow> (case slot_store env i d off s2 of (Some err, s3) \<Rightarrow> (Some err, s3)
            | (None, s3) \<Rightarrow> (None, slot_set_dirty now i s3))) = (None, s')" for i s1
  proof -
    obtain s2 where a: "slot_admit env i d off s1 = (None, s2)" using run by (auto split: prod.splits option.splits)
    obtain s3 where "slot_store env i d off s2 = (None, s3)"
      "ready_slot now s i (slot_set_dirty now i s3) (dsn, m) (splice (pending_bytes s (dsn, m)) (unat off) d)"
      "dirty (pool (slot_set_dirty now i s3) ! i)"
      using admit_store_ok [OF sl(1) e sl(2) a] by blast
    then show thesis using found run a by auto
  qed
  show thesis
  proof (cases "pww_slot_find dsn m s0")
    case (Some i)
    have "ready_slot now s i s0 (dsn, m) (pending_bytes s (dsn, m))"
      using found_ready [OF inv0 c0(2) wf0 Some] Some swap by (simp add: pending_bytes_def c0 fs [symmetric])
    moreover have "unat off \<le> unat (high_water (pool s0 ! i)) \<or> pm_in_step (pool s0 ! i)"
      using g Some by (simp add: write_gap_ok_def c0 fs [symmetric])
    ultimately show thesis using fin [of i s0] w by (simp add: pww_write_def cap c c0(1) Some)
  next
    case None
    have o: "off = 0" using w by (cases "off = 0") (simp_all add: pww_write_def cap c c0(1) None)
    obtain i s1 where n: "pww_slot_new env now e ds dsn m s0 = (Inr i, s1)" "ready_slot now s0 i s1 (dsn, m) []"
      "pm_in_step (pool s1 ! i)"
      using new_ok [OF inv0 c0(2) wf0 None k] by metis
    have "pending_bytes s (dsn, m) = []" using None fs by (simp add: pending_bytes_def)
    then show thesis using fin [of i s1, unfolded o] n swap w [unfolded o] by (simp add: pww_write_def cap [unfolded o] c c0(1) None)
  qed
qed

lemma quiet_later: "quiet now s \<Longrightarrow> now \<le> now' \<Longrightarrow> quiet now' s"
  unfolding quiet_def none_full_def by (meson diff_right_mono less_le_trans)

text \<open>
  C2. What a client writes and commits is what the library holds. In a reachable state where
  nothing fails and no data set is known to be full, a write that is accepted leaves the member
  pending with the data laid over its pending bytes (none when it was not pending), every other
  slot that keeps its member untouched and a member that had to make room written out; the
  commit that follows succeeds and stores exactly those bytes in EBCDIC. The write must not lie
  behind the end of a scratch file longer than the high-water mark.
\<close>
theorem write_commit_stores:
  assumes "pww_reach s" and "quiet now s" and "\<forall>pm \<in> set (pool s). used pm \<longrightarrow> pm_wf pm" and "key_ok (dsn, m)"
    and "unat off + length d < 2 ^ 32" and "write_gap_ok s (dsn, m) off"
    and "pww_write env now e ds dsn m d off s = (None, s1)" and "now \<le> now'"
  shows "\<exists>i s2. pww_slot_find dsn m s1 = Some i \<and>
    pm_content (pool s1 ! i) = splice (pending_bytes s (dsn, m)) (unat off) d \<and>
    (\<forall>j < PWW_MAX_PENDING. j \<noteq> i \<longrightarrow> pool s1 ! j = pool s ! j) \<and>
    lib s1 = (if used (pool s ! i) \<and> dirty (pool s ! i) \<and> slot_key (pool s ! i) \<noteq> (dsn, m)
       then (lib s)(slot_key (pool s ! i) \<mapsto> ascii_to_ebcdic (pm_content (pool s ! i))) else lib s) \<and>
    pww_flush_member env' now' dsn m s1 = (None, s2) \<and>
    lib s2 = (lib s1)((dsn, m) \<mapsto> ascii_to_ebcdic (splice (pending_bytes s (dsn, m)) (unat off) d))"
proof -
  obtain i where r: "ready_slot now s i s1 (dsn, m) (splice (pending_bytes s (dsn, m)) (unat off) d)" and d: "dirty (pool s1 ! i)"
    using write_ok [OF reach_inv [OF assms(1)] assms(2-7)] by blast
  have i: "i < length (pool s1)" "pool_inv s1" "quiet now' s1" "used (pool s1 ! i)" "slot_key (pool s1 ! i) = (dsn, m)"
    "pm_wf (pool s1 ! i)" using r quiet_later [OF _ assms(8)] by (auto simp: ready_slot_def)
  have f: "pww_slot_find dsn m s1 = Some i"
    using inv_find [OF i(2)] i(1,4,5) pool_8 [OF i(2)] by (auto simp: slot_key_def)
  obtain s2 where "pdsflush_slot env' now' i s1 = (None, s2)"
    "lib s2 = (lib s1)(slot_key (pool s1 ! i) \<mapsto> ascii_to_ebcdic (pm_content (pool s1 ! i)))"
    using flush_slot_ok [OF i(1,6) _ _ none_full_query, of now' env'] i(3) unfolding quiet_def by blast
  then show ?thesis using f d r i(5) by (intro exI [of _ i] exI [of _ s2]) (auto simp: pww_flush_member_def ready_slot_def)
qed

section \<open>A refused first write\<close>

text \<open>
  A first write that the space prediction refuses leaves an empty slot behind: the member
  is then pending with no bytes although nothing of it was accepted, so the directory layer,
  which looks at the pool first, reports size zero for a member that is still in the library.
  A refused creation frees its slot instead.
\<close>
theorem refused_write_leaves_empty_slot:
  assumes "pww_reach s" and "quiet now s" and "\<forall>pm \<in> set (pool s). used pm \<longrightarrow> pm_wf pm" and "key_ok (dsn, m)"
    and "pww_slot_find dsn m s = None" and "length d \<le> PWW_MAX_MEMBER_BYTES"
    and "pww_write env now e ds dsn m d 0 s = (Some err, s1)"
  shows "\<exists>i. pww_slot_find dsn m s1 = Some i \<and> pm_content (pool s1 ! i) = [] \<and> high_water (pool s1 ! i) = 0 \<and>
    lib s1 (dsn, m) = lib s (dsn, m)"
proof -
  obtain r0 s0 where c: "pww_check_dataset_space now dsn s = (r0, s0)" by (metis surj_pair)
  note c0 = quiet_space [OF assms(2) c] and inv = reach_inv [OF assms(1)]
  have inv0: "pool_inv s0" using inv c0 same_inv [of s0 s] by (simp add: idents_def)
  have wf0: "\<forall>pm \<in> set (pool s0). used pm \<longrightarrow> pm_wf pm" using assms(3) c0 by simp
  have n0: "pww_slot_find dsn m s0 = None" using assms(5) by (simp add: pww_slot_find_def c0)
  have cap: "pww_check_member_cap 0 (of_nat (length d)) = None" and e: "unat (0 :: u64) + length d \<le> SPILL_MAX"
    using assms(6) by (auto simp: pww_check_member_cap_def word_le_nat_alt PWW_MAX_MEMBER_BYTES_def SPILL_MAX_def unat_of_nat unat_up)
  obtain i t where n: "pww_slot_new env now e ds dsn m s0 = (Inr i, t)" "ready_slot now s0 i t (dsn, m) []"
    "pm_in_step (pool t ! i)" "high_water (pool t ! i) = 0"
    using new_ok [OF inv0 c0(2) wf0 n0 assms(4)] by metis
  obtain r t1 where a: "slot_admit env i d 0 t = (r, t1)" by (metis surj_pair)
  have "r \<noteq> None"
  proof
    assume "r = None"
    then obtain t2 where "slot_store env i d 0 t1 = (None, t2)" using admit_store_ok [OF n(2) e] n(3) a by blast
    then show False using assms(7) a \<open>r = None\<close> by (simp add: pww_write_def cap c c0(1) n0 n(1))
  qed
  then have s1: "s1 = t1" using assms(7) a by (auto simp: pww_write_def cap c c0(1) n0 n(1))
  obtain q where q: "pool t1 = (pool t)[i := q]" "slot_eq (pool t ! i) q" "lib t1 = lib t"
    using admit_keeps [OF a _ _ e] n(2) unfolding ready_slot_def quiet_def by blast
  have i: "i < length (pool t1)" "pool_inv t1" "used (pool t1 ! i)" "slot_key (pool t1 ! i) = (dsn, m)"
    using n(2) q admit_same [OF a] same_inv [of t1 t] by (auto simp: ready_slot_def slot_eq_def ident_def)
  have "pww_slot_find dsn m t1 = Some i"
    using inv_find [OF i(2) _ i(3)] i(1,4) pool_8 [OF i(2)] by (auto simp: slot_key_def)
  then show ?thesis using q n(2,4) i(1) s1 c0(4) by (auto simp: slot_eq_def ready_slot_def)
qed

section \<open>The limit of a member\<close>

text \<open>
  The limit check of a write adds in 64 bits: it accepts exactly the offset and count whose
  sum, taken modulo the word, is at most the limit. So an offset of minus the count, far beyond
  any member, is accepted too.
\<close>
theorem member_cap_modulo:
  "(pww_check_member_cap off count = None \<longleftrightarrow> (unat off + unat count) mod 2 ^ 64 \<le> PWW_MAX_MEMBER_BYTES) \<and>
   (0 < count \<longrightarrow> pww_check_member_cap (- ucast count) count = None \<and> 2 ^ 63 \<le> unat (- ucast count :: u64))"
proof (intro conjI impI)
  have "unat (off + ucast count) = (unat off + unat count) mod 2 ^ 64"
    by (simp add: unat_word_ariths unat_up)
  then show "pww_check_member_cap off count = None \<longleftrightarrow> (unat off + unat count) mod 2 ^ 64 \<le> PWW_MAX_MEMBER_BYTES"
    by (simp add: pww_check_member_cap_def word_le_nat_alt PWW_MAX_MEMBER_BYTES_def)
  show "pww_check_member_cap (- ucast count) count = None" by (simp add: pww_check_member_cap_def)
  assume "0 < count"
  then have c: "0 < unat (ucast count :: u64)" "unat (ucast count :: u64) < 2 ^ 32"
    using unsigned_less [of count, where 'a = nat] by (simp_all add: unat_up word_less_nat_alt)
  then have "(ucast count :: u64) \<noteq> 0" by auto
  then have "unat (- ucast count :: u64) = 2 ^ 64 - unat (ucast count :: u64)"
    using unat_sub_if' [of 0 "ucast count :: u64"] c by (simp add: word_le_nat_alt)
  then show "2 ^ 63 \<le> unat (- ucast count :: u64)" using c by simp
qed

theorem member_cap_modulo_witness: "pww_check_member_cap (- 1) 1 = None \<and> 2 ^ 63 \<le> unat (- 1 :: u64)"
  using member_cap_modulo [of 0 1] by simp

section \<open>Witnesses\<close>

definition pool_start :: pww_state where "pool_start = pww_init flush_state"

definition pool_created :: pww_state where
  "pool_created = pww_apply flush_env 100 (OpCreate 0 0 [0xC1] [0xC2]) pool_start"

lemma key_ok_sample: "key_ok ([0xC1], [0xC2])"
  by (simp add: key_ok_def ch_space_def)

lemma start_state: "pww_reach pool_start" "quiet now pool_start" "pww_slot_find dsn m pool_start = None"
  "pm \<in> set (pool pool_start) \<Longrightarrow> \<not> used pm"
proof -
  show "pww_reach pool_start" unfolding pool_start_def by (rule reach_init)
  show "quiet now pool_start" by (simp add: quiet_def none_full_def pool_start_def pww_init_def flush_state_def)
  show "\<not> used pm" if "pm \<in> set (pool pool_start)" for pm
    using that by (simp add: pool_start_def pww_init_def pending_zero_def)
  then show "pww_slot_find dsn m pool_start = None" 
    by (auto simp: pww_slot_find_def find_None_iff)
qed

lemma created_state: "used (pool pool_created ! 0) \<and> dirty (pool pool_created ! 0) \<and> high_water (pool pool_created ! 0) = 0 \<and>
   slot_key (pool pool_created ! 0) = ([0xC1], [0xC2]) \<and> \<not> spl_open (spill (pool pool_created ! 0)) \<and> buf (pool pool_created ! 0) = [] \<and>
   list_all (\<lambda>pm. \<not> used pm) (tl (pool pool_created)) \<and> length (pool pool_created) = 8 \<and>
   spill_io pool_created = [] \<and> sysq pool_created = [] \<and> g_pww_full pool_created = []"
  by code_simp

lemma created_reach: "pww_reach pool_created"
  unfolding pool_created_def by (rule reach_step [OF start_state(1)]) (simp add: op_ok_def key_ok_sample)

theorem pool_locked_witness:
  "length (pool pool_created) = PWW_MAX_PENDING \<and> used (pool pool_created ! 0) \<and> enq_held (pool pool_created ! 0) \<and>
   slot_rname (pool pool_created ! 0) \<in> set (enqs pool_created)"
  using pool_locked [OF created_reach] created_state by (simp add: PWW_MAX_PENDING_def)

theorem flush_all_drains_witness:
  "list_all (\<lambda>pm. \<not> used pm) (pool (pww_flush_all flush_env 103 pool_created)) \<and>
   lib (pww_flush_all flush_env 103 pool_created) ([0xC1], [0xC2]) = Some []"
proof -
  have q: "quiet 103 pool_created" using created_state by (simp add: quiet_def none_full_def)
  have c: "pm_wf (pool pool_created ! 0)" "pm_content (pool pool_created ! 0) = []"
    using created_state by (simp_all add: pm_wf_def pm_content_def has_spill_file_open_def)
  have "\<forall>pm \<in> set (pool pool_created). used pm \<longrightarrow> pm_wf pm"
    using created_state c(1) by (cases "pool pool_created") (auto simp: list_all_iff)
  moreover have "pww_slot_find [0xC1] [0xC2] pool_created = Some 0"
    using inv_find [OF reach_inv [OF created_reach], of 0] created_state by (simp add: PWW_MAX_PENDING_def slot_key_def)
  ultimately show ?thesis
    using flush_all_drains [OF created_reach, of flush_env 103] q created_state c(2) by (simp add: ascii_to_ebcdic_def list_all_iff)
qed

lemma start_new:
  obtains i t where "pww_slot_new env now e d [0xC1] [0xC2] pool_start = (Inr i, t)"
    "ready_slot now pool_start i t ([0xC1], [0xC2]) []" "pm_in_step (pool t ! i)"
  using new_ok [OF reach_inv [OF start_state(1)] start_state(2) _ start_state(3) key_ok_sample] start_state(4) by metis

lemma start_space: "pww_check_dataset_space now dsn pool_start = (None, pool_start)"
  by (simp add: pww_check_dataset_space_def pool_start_def pww_init_def flush_state_def)

lemma start_admit:
  "fst (pww_slot_new flush_env 100 0 0 [0xC1] [0xC2] pool_start) = Inr 0 \<and>
   fst (slot_admit flush_env 0 [0x41, 0x0A] 0 (snd (pww_slot_new flush_env 100 0 0 [0xC1] [0xC2] pool_start))) = None"
  by code_simp

lemma start_write: "\<exists>s1. pww_write flush_env 100 0 0 [0xC1] [0xC2] [0x41, 0x0A] 0 pool_start = (None, s1)"
proof -
  obtain i t where n: "pww_slot_new flush_env 100 0 0 [0xC1] [0xC2] pool_start = (Inr i, t)"
    "ready_slot 100 pool_start i t ([0xC1], [0xC2]) []" "pm_in_step (pool t ! i)"
    using start_new by metis
  have "i = 0" using start_admit n(1) by simp
  have e: "unat (0 :: u64) + length [0x41, 0x0A :: u8] \<le> SPILL_MAX" by (simp add: SPILL_MAX_def)
  obtain t1 where a: "slot_admit flush_env 0 [0x41, 0x0A] 0 t = (None, t1)"
    using start_admit n(1) by (metis prod.collapse snd_conv)
  moreover obtain t2 where "slot_store flush_env 0 [0x41, 0x0A] 0 t1 = (None, t2)"
    using admit_store_ok [OF n(2) _ _ a [folded \<open>i = 0\<close>]] n(3) e \<open>i = 0\<close> by blast
  ultimately show ?thesis using n(1) a \<open>i = 0\<close>
    by (simp add: pww_write_def start_space start_state(3) pww_check_member_cap_def PWW_MAX_MEMBER_BYTES_def)
qed

theorem write_commit_stores_witness:
  "\<exists>s1 s2. pww_write flush_env 100 0 0 [0xC1] [0xC2] [0x41, 0x0A] 0 pool_start = (None, s1) \<and>
     pww_flush_member flush_env 101 [0xC1] [0xC2] s1 = (None, s2) \<and>
     lib s2 ([0xC1], [0xC2]) = Some [0xC1, 0x15]"
proof -
  obtain s1 where w: "pww_write flush_env 100 0 0 [0xC1] [0xC2] [0x41, 0x0A] 0 pool_start = (None, s1)"
    using start_write by blast
  have "pending_bytes pool_start ([0xC1], [0xC2]) = []" "write_gap_ok pool_start ([0xC1], [0xC2]) 0"
    by (simp_all add: pending_bytes_def write_gap_ok_def start_state(3))
  moreover have "splice [] (unat (0 :: u64)) [0x41, 0x0A] = [0x41, 0x0A]" "ascii_to_ebcdic [0x41, 0x0A] = [0xC1, 0x15]"
    by code_simp+
  ultimately show ?thesis
    using write_commit_stores [OF start_state(1,2) _ key_ok_sample _ _ w, of 101 flush_env] start_state(4) w by auto
qed

definition no_vtoc_env :: mvs_env where
  "no_vtoc_env = flush_env\<lparr>env_vtoc := \<lambda>v. (8, snd (admit_vtoc v))\<rparr>"

lemma no_vtoc_refused:
  "fst (pww_slot_new no_vtoc_env 100 0 0 [0xC1] [0xC2] pool_start) = Inr 0 \<and>
   fst (slot_admit no_vtoc_env 0 [0x41, 0x0A] 0 (snd (pww_slot_new no_vtoc_env 100 0 0 [0xC1] [0xC2] pool_start))) = Some EIO"
  by code_simp

theorem refused_write_leaves_empty_slot_witness:
  "\<exists>s1 i. pww_write no_vtoc_env 100 0 0 [0xC1] [0xC2] [0x41, 0x0A] 0 pool_start = (Some EIO, s1) \<and>
     pww_slot_find [0xC1] [0xC2] s1 = Some i \<and> high_water (pool s1 ! i) = 0"
proof -
  obtain t t1 where "pww_slot_new no_vtoc_env 100 0 0 [0xC1] [0xC2] pool_start = (Inr 0, t)"
    "slot_admit no_vtoc_env 0 [0x41, 0x0A] 0 t = (Some EIO, t1)"
    using no_vtoc_refused by (metis prod.collapse snd_conv)
  then have w: "pww_write no_vtoc_env 100 0 0 [0xC1] [0xC2] [0x41, 0x0A] 0 pool_start = (Some EIO, t1)"
    by (simp add: pww_write_def start_space start_state(3) pww_check_member_cap_def PWW_MAX_MEMBER_BYTES_def)
  show ?thesis
    using refused_write_leaves_empty_slot [OF start_state(1,2) _ key_ok_sample start_state(3) _ w] start_state(4) w
    by (auto simp: PWW_MAX_MEMBER_BYTES_def)
qed

end
