(* ===== verification/Fsz.thy ===== *)
theory Fsz
  imports Poolprop
begin

text \<open>
  The cache of file sizes, \<^verbatim>\<open>src/src/mvsfsz.c\<close>: the size of a member in text form is only known by
  reading it, so it is kept in a table of 250 entries, each good for one state of the member
  (its first block and its ISPF size and change date). What opening the member in text mode
  gives is a parameter, nothing when it cannot be opened.
\<close>

section \<open>The table\<close>

definition MVSFSZ_CACHE_CAPACITY :: nat where "MVSFSZ_CACHE_CAPACITY = 250"
definition MVSFSZ_DSNAME_LEN :: nat where "MVSFSZ_DSNAME_LEN = 45"
definition MVSFSZ_MEMBER_LEN :: nat where "MVSFSZ_MEMBER_LEN = 9"

record mvsfsz_entry_t =
  fz_dsname :: bytes
  fz_member :: bytes
  file_size :: u64
  ttr_tt :: u16
  ttr_r :: u8
  ispf_size :: int
  ispf_mtime :: int

record fsz_slot =
  in_use :: bool
  fz_last_used :: int
  fz_entry :: mvsfsz_entry_t

record fsz_state =
  g_cache :: "fsz_slot list"
  g_count :: int

definition fsz_entry_zero :: mvsfsz_entry_t where
  "fsz_entry_zero = \<lparr>fz_dsname = [], fz_member = [], file_size = 0, ttr_tt = 0, ttr_r = 0, ispf_size = 0, ispf_mtime = 0\<rparr>"

definition fsz_slot_zero :: fsz_slot where
  "fsz_slot_zero = \<lparr>in_use = False, fz_last_used = 0, fz_entry = fsz_entry_zero\<rparr>"

definition mvsfsz_init :: fsz_state where
  "mvsfsz_init = \<lparr>g_cache = replicate MVSFSZ_CACHE_CAPACITY fsz_slot_zero, g_count = 0\<rparr>"

definition slot_is :: "bytes \<Rightarrow> bytes \<Rightarrow> fsz_slot \<Rightarrow> bool" where
  "slot_is dsn m x \<longleftrightarrow> in_use x \<and> fz_member (fz_entry x) = m \<and> fz_dsname (fz_entry x) = dsn"

definition find_entry :: "bytes \<Rightarrow> bytes \<Rightarrow> fsz_state \<Rightarrow> nat option" where
  "find_entry dsn m c = find (\<lambda>i. slot_is dsn m (g_cache c ! i)) [0..<length (g_cache c)]"

definition fsz_free_index :: "fsz_slot list \<Rightarrow> nat" where
  "fsz_free_index xs =
     (case find (\<lambda>i. \<not> in_use (xs ! i)) [0..<length xs] of
        Some i \<Rightarrow> i
      | None \<Rightarrow> lru_scan fz_last_used (tl xs) 1 0 (fz_last_used (hd xs)))"

definition evict_entry :: "nat \<Rightarrow> fsz_state \<Rightarrow> fsz_state" where
  "evict_entry i c = c\<lparr>g_cache := (g_cache c)[i := fsz_slot_zero], g_count := g_count c - 1\<rparr>"

definition find_free_slot :: "fsz_state \<Rightarrow> nat \<times> fsz_state" where
  "find_free_slot c =
     (let i = fsz_free_index (g_cache c)
      in if \<not> in_use (g_cache c ! i) then (i, c) else (i, evict_entry i c))"

definition fill_entry :: "bytes \<Rightarrow> bytes \<Rightarrow> u64 \<Rightarrow> u16 \<Rightarrow> u8 \<Rightarrow> int \<Rightarrow> int \<Rightarrow> mvsfsz_entry_t" where
  "fill_entry dsn m sz tt r isz mt =
     \<lparr>fz_dsname = take (MVSFSZ_DSNAME_LEN - 1) dsn, fz_member = take (MVSFSZ_MEMBER_LEN - 1) m, file_size = sz,
      ttr_tt = tt, ttr_r = r, ispf_size = isz, ispf_mtime = mt\<rparr>"

definition mvsfsz_put :: "int \<Rightarrow> bytes \<Rightarrow> bytes \<Rightarrow> u64 \<Rightarrow> u16 \<Rightarrow> u8 \<Rightarrow> int \<Rightarrow> int \<Rightarrow> fsz_state \<Rightarrow> fsz_state" where
  "mvsfsz_put now dsn m sz tt r isz mt c =
     (let (i, c1) = (case find_entry dsn m c of Some i \<Rightarrow> (i, c)
          | None \<Rightarrow> (let (i, c0) = find_free_slot c in (i, c0\<lparr>g_count := g_count c0 + 1\<rparr>)))
      in c1\<lparr>g_cache := (g_cache c1)[i := \<lparr>in_use = True, fz_last_used = now, fz_entry = fill_entry dsn m sz tt r isz mt\<rparr>]\<rparr>)"

definition mvsfsz_get :: "bytes \<Rightarrow> bytes \<Rightarrow> fsz_state \<Rightarrow> mvsfsz_entry_t option" where
  "mvsfsz_get dsn m c = map_option (\<lambda>i. fz_entry (g_cache c ! i)) (find_entry dsn m c)"

definition mvsfsz_invalidate :: "bytes \<Rightarrow> bytes \<Rightarrow> fsz_state \<Rightarrow> bool \<times> fsz_state" where
  "mvsfsz_invalidate dsn m c =
     (case find_entry dsn m c of None \<Rightarrow> (False, c) | Some i \<Rightarrow> (True, evict_entry i c))"

definition mvsfsz_count :: "fsz_state \<Rightarrow> int" where
  "mvsfsz_count c = g_count c"

text \<open>Reading the member in pieces of 512 bytes and adding up what was read.\<close>

function size_loop :: "bytes \<Rightarrow> u64 \<Rightarrow> u64" where
  "size_loop t acc = (if t = [] then acc else size_loop (drop 512 t) (acc + of_nat (length (take 512 t))))"
  by pat_completeness auto
termination by (relation "measure (\<lambda>(t, acc). length t)") auto

declare size_loop.simps [simp del]

definition stamp_matches :: "pds_member_entry_t \<Rightarrow> mvsfsz_entry_t \<Rightarrow> bool" where
  "stamp_matches e x \<longleftrightarrow> ispf_size x = me_size e \<and> ispf_mtime x = chgdate e \<and> ttr_tt x = first_block_tt e \<and>
     ttr_r x = first_block_rec e"

definition mvsfsz_get_member_size ::
  "int \<Rightarrow> bytes option \<Rightarrow> bytes \<Rightarrow> bytes \<Rightarrow> pds_member_entry_t \<Rightarrow> fsz_state \<Rightarrow> u64 option \<times> fsz_state" where
  "mvsfsz_get_member_size now text dsn m e c =
     (let miss = (\<lambda>c1. case text of None \<Rightarrow> (None, c1)
            | Some t \<Rightarrow> (let n = size_loop t 0 in
                (Some n, mvsfsz_put now dsn m n (first_block_tt e) (first_block_rec e) (me_size e) (chgdate e) c1)))
      in case find_entry dsn m c of
           None \<Rightarrow> miss c
         | Some i \<Rightarrow>
             if stamp_matches e (fz_entry (g_cache c ! i))
             then (Some (file_size (fz_entry (g_cache c ! i))),
                   c\<lparr>g_cache := (g_cache c)[i := (g_cache c ! i)\<lparr>fz_last_used := now\<rparr>]\<rparr>)
             else miss (evict_entry i c))"

section \<open>The table as a slot pool\<close>

lemma fsz_free_index_bound: "xs \<noteq> [] \<Longrightarrow> fsz_free_index xs < length xs"
  using lru_scan_bound [of 0 1 "tl xs" fz_last_used "fz_last_used (hd xs)"]
  by (auto simp: fsz_free_index_def split: option.splits dest: find_upt_Some)

lemma fsz_free_index_idle: "x \<in> set xs \<Longrightarrow> \<not> in_use x \<Longrightarrow> \<not> in_use (xs ! fsz_free_index xs)"
  by (auto simp: fsz_free_index_def in_set_conv_nth split: option.splits dest: find_upt_Some find_upt_None)

interpretation sizes: slot_pool "\<lambda>_::unit. in_use" "\<lambda>_. fsz_free_index"
  by unfold_locales (auto simp: fsz_free_index_bound fsz_free_index_idle)

section \<open>The invariant\<close>

definition slot_name :: "fsz_slot \<Rightarrow> member_key" where
  "slot_name x = (fz_dsname (fz_entry x), fz_member (fz_entry x))"

definition fsz_inv :: "fsz_state \<Rightarrow> bool" where
  "fsz_inv c \<longleftrightarrow> length (g_cache c) = MVSFSZ_CACHE_CAPACITY \<and>
     g_count c = int (length (filter in_use (g_cache c))) \<and>
     (\<forall>i < length (g_cache c). \<forall>j < length (g_cache c). in_use (g_cache c ! i) \<longrightarrow> in_use (g_cache c ! j) \<longrightarrow>
        slot_name (g_cache c ! i) = slot_name (g_cache c ! j) \<longrightarrow> i = j)"

lemma filter_update_length:
  "i < length xs \<Longrightarrow> int (length (filter p (xs[i := y]))) =
     int (length (filter p xs)) - (if p (xs ! i) then 1 else 0) + (if p y then 1 else 0)"
proof (induction xs arbitrary: i)
  case (Cons x xs)
  show ?case
  proof (cases i)
    case (Suc k)
    then show ?thesis using Cons.IH [of k] Cons.prems by (auto split: if_splits)
  qed simp
qed simp

lemma find_entry_Some: "find_entry dsn m c = Some i \<Longrightarrow> i < length (g_cache c) \<and> slot_is dsn m (g_cache c ! i)"
  unfolding find_entry_def by (rule find_upt_Some)

lemma find_entry_None: "find_entry dsn m c = None \<Longrightarrow> x \<in> set (g_cache c) \<Longrightarrow> \<not> slot_is dsn m x"
  unfolding find_entry_def by (auto simp: in_set_conv_nth dest: find_upt_None)

lemma evict_inv:
  assumes inv: "fsz_inv c" and i: "i < length (g_cache c)" "in_use (g_cache c ! i)"
  shows "fsz_inv (evict_entry i c)"
  using assms by (auto simp: fsz_inv_def evict_entry_def filter_update_length fsz_slot_zero_def nth_list_update)

lemma set_evict: "set (g_cache (evict_entry i c)) \<subseteq> insert fsz_slot_zero (set (g_cache c))"
  by (simp add: evict_entry_def set_update_subset_insert)

definition stamp_of :: "mvsfsz_entry_t \<Rightarrow> int \<times> int \<times> u16 \<times> u8" where
  "stamp_of x = (ispf_size x, ispf_mtime x, ttr_tt x, ttr_r x)"

definition member_stamp :: "pds_member_entry_t \<Rightarrow> int \<times> int \<times> u16 \<times> u8" where
  "member_stamp e = (me_size e, chgdate e, first_block_tt e, first_block_rec e)"

text \<open>The sizes kept are those of the members, by name and stamp.\<close>

definition fsz_truth :: "(member_key \<Rightarrow> int \<times> int \<times> u16 \<times> u8 \<Rightarrow> u64) \<Rightarrow> fsz_state \<Rightarrow> bool" where
  "fsz_truth sz c \<longleftrightarrow> (\<forall>x \<in> set (g_cache c). in_use x \<longrightarrow>
     file_size (fz_entry x) = sz (slot_name x) (stamp_of (fz_entry x)))"

lemma size_loop_length: "size_loop t acc = acc + of_nat (length t)"
proof (induction t acc rule: size_loop.induct)
  case (1 t acc)
  show ?case
  proof (cases "t = []")
    case False
    have "length t = length (take 512 t) + length (drop 512 t)" by (metis append_take_drop_id length_append)
    then show ?thesis using 1 [OF False] False by (subst size_loop.simps) (simp add: add.assoc flip: of_nat_add)
  qed (simp add: size_loop.simps)
qed

lemma put_fresh:
  assumes inv: "fsz_inv c" and n: "find_entry dsn m c = None" and l: "length dsn \<le> 44" "length m \<le> 8"
    and x: "x = \<lparr>in_use = True, fz_last_used = now, fz_entry = fill_entry dsn m sz tt r isz mt\<rparr>"
  shows "fsz_inv (mvsfsz_put now dsn m sz tt r isz mt c) \<and>
    g_cache (mvsfsz_put now dsn m sz tt r isz mt c) = (g_cache c)[fsz_free_index (g_cache c) := x]"
proof -
  let ?i = "fsz_free_index (g_cache c)"
  have ne: "g_cache c \<noteq> []" using inv by (auto simp: fsz_inv_def MVSFSZ_CACHE_CAPACITY_def)
  have i: "?i < length (g_cache c)" using fsz_free_index_bound [OF ne] .
  have cache: "g_cache (mvsfsz_put now dsn m sz tt r isz mt c) = (g_cache c)[?i := x]"
    by (simp add: mvsfsz_put_def n find_free_slot_def Let_def evict_entry_def x)
  have cnt: "g_count (mvsfsz_put now dsn m sz tt r isz mt c) = g_count c + (if in_use (g_cache c ! ?i) then 0 else 1)"
    by (simp add: mvsfsz_put_def n find_free_slot_def Let_def evict_entry_def)
  have "\<forall>y \<in> set (g_cache c). in_use y \<longrightarrow> slot_name y \<noteq> slot_name x"
    using find_entry_None [OF n] l by (auto simp: x slot_name_def slot_is_def fill_entry_def MVSFSZ_DSNAME_LEN_def MVSFSZ_MEMBER_LEN_def)
  then have un: "\<forall>i < length ((g_cache c)[?i := x]). \<forall>j < length ((g_cache c)[?i := x]).
      in_use ((g_cache c)[?i := x] ! i) \<longrightarrow> in_use ((g_cache c)[?i := x] ! j) \<longrightarrow>
      slot_name ((g_cache c)[?i := x] ! i) = slot_name ((g_cache c)[?i := x] ! j) \<longrightarrow> i = j"
    using sizes.keys_unique [of "g_cache c" in_use slot_name x] inv ne unfolding fsz_inv_def by blast
  have "in_use x" by (simp add: x)
  then have "g_count (mvsfsz_put now dsn m sz tt r isz mt c) = int (length (filter in_use ((g_cache c)[?i := x])))"
    using inv unfolding cnt filter_update_length [OF i] fsz_inv_def by simp
  then show ?thesis using inv un unfolding fsz_inv_def cache by simp
qed

lemma truth_update:
  "fsz_truth sz c \<Longrightarrow> (in_use x \<Longrightarrow> file_size (fz_entry x) = sz (slot_name x) (stamp_of (fz_entry x))) \<Longrightarrow>
   g_cache c' = (g_cache c)[i := x] \<Longrightarrow> fsz_truth sz c'"
  unfolding fsz_truth_def using set_update_subset_insert by fastforce

lemma get_after:
  assumes "fsz_inv c" and "i < length (g_cache c)" and "slot_is dsn m (g_cache c ! i)"
  shows "mvsfsz_get dsn m c = Some (fz_entry (g_cache c ! i))"
proof (cases "find_entry dsn m c")
  case None
  then show ?thesis using assms find_entry_None by (metis nth_mem)
next
  case (Some j)
  then have "j = i" using assms find_entry_Some [OF Some] by (auto simp: fsz_inv_def slot_is_def slot_name_def)
  then show ?thesis by (simp add: mvsfsz_get_def Some)
qed

lemma miss_ok:
  assumes inv: "fsz_inv c" and n: "find_entry dsn m c = None" and l: "length dsn \<le> 44" "length m \<le> 8"
    and tr: "fsz_truth sz c" and s: "n = sz (dsn, m) (member_stamp e)"
    and c': "c' = mvsfsz_put now dsn m n (first_block_tt e) (first_block_rec e) (me_size e) (chgdate e) c"
  shows "fsz_inv c' \<and> fsz_truth sz c' \<and> (\<exists>x. mvsfsz_get dsn m c' = Some x \<and> stamp_matches e x \<and> file_size x = n)"
proof -
  let ?x = "\<lparr>in_use = True, fz_last_used = now,
    fz_entry = fill_entry dsn m n (first_block_tt e) (first_block_rec e) (me_size e) (chgdate e)\<rparr>"
  let ?i = "fsz_free_index (g_cache c)"
  have p: "fsz_inv c'" "g_cache c' = (g_cache c)[?i := ?x]" using put_fresh [OF inv n l refl] c' by auto
  have xs: "slot_name ?x = (dsn, m)" "stamp_of (fz_entry ?x) = member_stamp e" "file_size (fz_entry ?x) = n" "slot_is dsn m ?x"
    "stamp_matches e (fz_entry ?x)"
    using l by (simp_all add: slot_name_def stamp_of_def member_stamp_def fill_entry_def slot_is_def stamp_matches_def
        MVSFSZ_DSNAME_LEN_def MVSFSZ_MEMBER_LEN_def)
  have i: "?i < length (g_cache c)" using inv by (intro fsz_free_index_bound) (auto simp: fsz_inv_def MVSFSZ_CACHE_CAPACITY_def)
  have "fsz_truth sz c'" by (rule truth_update [OF tr _ p(2)]) (simp only: xs(1,2,3), simp only: s)
  moreover have "mvsfsz_get dsn m c' = Some (fz_entry ?x)" using get_after [OF p(1), of ?i dsn m] i xs(4) p(2) by simp
  ultimately show ?thesis using p(1) xs(3,5) by blast
qed

lemma size_cache_ok:
  assumes "fsz_inv c" and "fsz_truth sz c" and "length dsn \<le> 44" and "length m \<le> 8"
    and "sz (dsn, m) (member_stamp e) = of_nat (length t)"
  shows "\<exists>c' x. mvsfsz_get_member_size now (Some t) dsn m e c = (Some (of_nat (length t)), c') \<and>
    fsz_inv c' \<and> fsz_truth sz c' \<and> mvsfsz_get dsn m c' = Some x \<and> stamp_matches e x \<and> file_size x = of_nat (length t)"
proof (cases "find_entry dsn m c")
  case None
  then show ?thesis
    using miss_ok [OF assms(1) None assms(3,4,2) assms(5) [symmetric] refl, of now]
    by (auto simp: mvsfsz_get_member_size_def Let_def size_loop_length)
next
  case (Some i)
  let ?x = "g_cache c ! i"
  have i: "i < length (g_cache c)" "slot_is dsn m ?x" using find_entry_Some [OF Some] by auto
  have nm: "slot_name ?x = (dsn, m)" "in_use ?x" using i(2) by (auto simp: slot_is_def slot_name_def)
  show ?thesis
  proof (cases "stamp_matches e (fz_entry ?x)")
    case True
    let ?c = "c\<lparr>g_cache := (g_cache c)[i := ?x\<lparr>fz_last_used := now\<rparr>]\<rparr>"
    have st: "stamp_of (fz_entry ?x) = member_stamp e" using True by (simp add: stamp_matches_def stamp_of_def member_stamp_def)
    then have sz: "file_size (fz_entry ?x) = of_nat (length t)"
      using assms(2,5) nm i(1) unfolding fsz_truth_def by (metis nth_mem)
    have inv: "fsz_inv ?c"
      using assms(1) i(1) nm(2) by (auto simp: fsz_inv_def filter_update_length nth_list_update slot_name_def)
    moreover have "fsz_truth sz ?c"
      by (rule truth_update [OF assms(2), of "?x\<lparr>fz_last_used := now\<rparr>"]) (use nm st sz assms(5) in \<open>simp_all add: slot_name_def\<close>)
    moreover have "mvsfsz_get dsn m ?c = Some (fz_entry ?x)"
      using get_after [OF inv, of i dsn m] i by (simp add: slot_is_def)
    ultimately show ?thesis using True sz Some by (auto simp: mvsfsz_get_member_size_def Let_def)
  next
    case False
    let ?c = "evict_entry i c"
    have inv: "fsz_inv ?c" using evict_inv [OF assms(1) i(1) nm(2)] .
    have tr: "fsz_truth sz ?c"
      by (rule truth_update [OF assms(2), of fsz_slot_zero]) (simp_all add: fsz_slot_zero_def evict_entry_def)
    have "\<not> slot_is dsn m (g_cache ?c ! j)" if "j < length (g_cache ?c)" for j
    proof (cases "j = i")
      case True
      then show ?thesis using i(1) by (simp add: evict_entry_def slot_is_def fsz_slot_zero_def)
    next
      case False
      then show ?thesis using that assms(1) i nm by (auto simp: evict_entry_def fsz_inv_def slot_is_def slot_name_def)
    qed
    then have n: "find_entry dsn m ?c = None" by (auto simp: find_entry_def find_None_iff)
    show ?thesis using False Some miss_ok [OF inv n assms(3,4) tr assms(5) [symmetric] refl, of now]
      by (auto simp: mvsfsz_get_member_size_def Let_def size_loop_length)
  qed
qed

text \<open>
  C28. The size cache is transparent: when the table is in order and what it holds is the size
  of each member by name and stamp, the size answered for a member that can be read is the
  length of its text, whether it was cached, stale or missing; the table stays in order and
  truthful, and holds the member's size under its current stamp afterwards.
\<close>
theorem size_cache_transparent:
  assumes "fsz_inv c" and "fsz_truth sz c" and "length dsn \<le> 44" and "length m \<le> 8"
    and "sz (dsn, m) (member_stamp e) = of_nat (length t)"
  shows "\<exists>c' x. mvsfsz_get_member_size now (Some t) dsn m e c = (Some (of_nat (length t)), c') \<and>
    fsz_inv c' \<and> fsz_truth sz c' \<and> mvsfsz_get dsn m c' = Some x \<and> stamp_matches e x \<and> file_size x = of_nat (length t)"
  by (rule size_cache_ok [OF assms])

lemma init_cache: "fsz_inv mvsfsz_init" "fsz_truth sz mvsfsz_init"
  by (auto simp: fsz_inv_def fsz_truth_def mvsfsz_init_def fsz_slot_zero_def)

theorem size_cache_transparent_witness:
  "\<exists>c'. mvsfsz_get_member_size 7 (Some [0xC1, 0x15]) [0xC1] [0xC2] (mvs_pds_member_entry_init) mvsfsz_init = (Some 2, c') \<and> fsz_inv c'"
  using size_cache_transparent [OF init_cache, of "[0xC1]" "[0xC2]" "\<lambda>_ _. 2" mvs_pds_member_entry_init "[0xC1, 0x15]" 7]
  by auto

end
