(* ===== verification/Prw.thy ===== *)
theory Prw
  imports Fsz
begin

text \<open>
  Reading members from the library, \<^verbatim>\<open>src/src/mvsprw.c\<close>: every read opens the member in text mode,
  goes to the offset and reads; a table of twenty entries remembers where the last read of a
  member ended, so that the next one can go there by position. What opening the member gives is
  a parameter (nothing when it cannot be opened) and the calls of the run-time library take
  their outcomes from a script; a position is the number of bytes before it, and the end of the
  file is seen by a read that asks for more than is left. The offset of \<^verbatim>\<open>fseek\<close> is a signed
  32-bit number on this system.
\<close>

section \<open>The table of positions\<close>

definition MVS_RCACHE_ENTRIES :: nat where "MVS_RCACHE_ENTRIES = 20"
definition MVS_RCACHE_MAX_AGE_SECONDS :: int where "MVS_RCACHE_MAX_AGE_SECONDS = 5"

record mvs_rcache_entry_t =
  rc_used :: bool
  rc_dsname :: bytes
  rc_member :: bytes
  rc_export :: int
  rc_last_used :: int
  last_offset :: u32
  last_nread :: u32
  last_getpos :: nat
  has_last_getpos :: bool

definition mvs_rcache_entry_reset :: mvs_rcache_entry_t where
  "mvs_rcache_entry_reset = \<lparr>rc_used = False, rc_dsname = [], rc_member = [], rc_export = 0, rc_last_used = 0,
     last_offset = 0, last_nread = 0, last_getpos = 0, has_last_getpos = False\<rparr>"

definition mvs_rcache_init :: "mvs_rcache_entry_t list" where
  "mvs_rcache_init = replicate MVS_RCACHE_ENTRIES mvs_rcache_entry_reset"

definition mvs_rcache_find_entry :: "int \<Rightarrow> bytes \<Rightarrow> bytes \<Rightarrow> int \<Rightarrow> mvs_rcache_entry_t list \<Rightarrow> nat option" where
  "mvs_rcache_find_entry now dsn m ex rc =
     find (\<lambda>i. rc_used (rc ! i) \<and> now \<le> rc_last_used (rc ! i) + MVS_RCACHE_MAX_AGE_SECONDS \<and>
               rc_dsname (rc ! i) = dsn \<and> rc_member (rc ! i) = m \<and> rc_export (rc ! i) = ex) [0..<length rc]"

definition rcache_free_index :: "int \<Rightarrow> mvs_rcache_entry_t list \<Rightarrow> nat" where
  "rcache_free_index now rc =
     (case find (\<lambda>i. \<not> rc_used (rc ! i) \<or> rc_last_used (rc ! i) + MVS_RCACHE_MAX_AGE_SECONDS < now) [0..<length rc] of
        Some i \<Rightarrow> i
      | None \<Rightarrow> lru_scan rc_last_used (tl rc) 1 0 (rc_last_used (hd rc)))"

definition mvs_rcache_get_free_entry :: "int \<Rightarrow> mvs_rcache_entry_t list \<Rightarrow> nat \<times> mvs_rcache_entry_t list" where
  "mvs_rcache_get_free_entry now rc =
     (let i = rcache_free_index now rc in (i, rc[i := mvs_rcache_entry_reset]))"

definition rcache_busy :: "int \<Rightarrow> mvs_rcache_entry_t \<Rightarrow> bool" where
  "rcache_busy now e \<longleftrightarrow> rc_used e \<and> now \<le> rc_last_used e + MVS_RCACHE_MAX_AGE_SECONDS"

interpretation positions: slot_pool rcache_busy rcache_free_index
proof
  fix rc :: "mvs_rcache_entry_t list" and now e
  show "rc \<noteq> [] \<Longrightarrow> rcache_free_index now rc < length rc"
    using lru_scan_bound [of 0 1 "tl rc" rc_last_used "rc_last_used (hd rc)"]
    by (auto simp: rcache_free_index_def split: option.splits dest: find_upt_Some)
  show "e \<in> set rc \<Longrightarrow> \<not> rcache_busy now e \<Longrightarrow> \<not> rcache_busy now (rc ! rcache_free_index now rc)"
    by (auto simp: rcache_free_index_def rcache_busy_def in_set_conv_nth split: option.splits dest!: find_upt_Some find_upt_None)
qed

section \<open>Reading\<close>

text \<open>The position \<^verbatim>\<open>fseek\<close> goes to, nothing when it refuses a negative one.\<close>

definition fseek_pos :: "u64 \<Rightarrow> nat option" where
  "fseek_pos off = (let o' = sint (ucast off :: 32 word) in if o' < 0 then None else Some (nat o'))"

text \<open>The data and the end-of-file flag, or nothing; the entry and the rest of the script.\<close>

definition mvs_pds_member_pread ::
  "int \<Rightarrow> bytes \<Rightarrow> u32 \<Rightarrow> u64 \<Rightarrow> mvs_rcache_entry_t \<Rightarrow> sys_out list
     \<Rightarrow> (bytes \<times> bool) option \<times> mvs_rcache_entry_t \<times> sys_out list" where
  "mvs_pds_member_pread now t count off e ss =
     (let (pos, ss1) =
        (if off = 0 then (Some 0, ss)
         else let (r, ss') = sys_next ss;
                  target = (if has_last_getpos e \<and> off = ucast (last_offset e + last_nread e)
                            then Some (last_getpos e) else fseek_pos off)
           in (if r = SysOk then target else None, ss'))
      in case pos of
           None \<Rightarrow> (None, mvs_rcache_entry_reset, ss1)
         | Some p \<Rightarrow>
             let d = take (unat count) (drop p t); (r, ss2) = sys_next ss1 in
             if r \<noteq> SysOk then (None, mvs_rcache_entry_reset, ss2)
             else if length d < unat count then (Some (d, True), mvs_rcache_entry_reset, ss2)
             else let (r3, ss3) = sys_next ss2;
                      e1 = e\<lparr>rc_last_used := now, last_offset := ucast off, last_nread := of_nat (length d)\<rparr>
               in (Some (d, False),
                   if r3 = SysOk then e1\<lparr>has_last_getpos := True, last_getpos := p + length d\<rparr>
                   else mvs_rcache_entry_reset, ss3))"

definition mvs_pds_member_read ::
  "int \<Rightarrow> bytes option \<Rightarrow> bytes \<Rightarrow> bytes \<Rightarrow> int \<Rightarrow> u64 \<Rightarrow> u32 \<Rightarrow> mvs_rcache_entry_t list \<Rightarrow> sys_out list
     \<Rightarrow> (bytes \<times> bool) option \<times> mvs_rcache_entry_t list \<times> sys_out list" where
  "mvs_pds_member_read now text dsn m ex off count rc ss =
     (let (i, rc1) =
        (if off = 0 then mvs_rcache_get_free_entry now rc
         else case mvs_rcache_find_entry now dsn m ex rc of
             Some i \<Rightarrow> (i, rc)
           | None \<Rightarrow> mvs_rcache_get_free_entry now rc);
        e0 = rc1 ! i;
        e = (if rc_used e0 then e0
             else e0\<lparr>rc_used := True, rc_dsname := take 44 dsn, rc_member := take 8 m, rc_export := ex\<rparr>);
        (r, ss1) = sys_next ss
      in case (if r = SysOk then text else None) of
           None \<Rightarrow> (None, rc1[i := e], ss1)
         | Some t \<Rightarrow>
             let (res, e', ss2) = mvs_pds_member_pread now t count off e ss1; (r3, ss3) = sys_next ss2
             in (if r3 = SysOk then res else None, rc1[i := e'], ss3))"

section \<open>What a read returns\<close>

text \<open>A remembered position is where the remembered read ended.\<close>

definition rc_ok :: "mvs_rcache_entry_t \<Rightarrow> bool" where
  "rc_ok e \<longleftrightarrow> has_last_getpos e \<longrightarrow> last_getpos e = unat (last_offset e + last_nread e)"

definition rc_inv :: "mvs_rcache_entry_t list \<Rightarrow> bool" where
  "rc_inv rc \<longleftrightarrow> length rc = MVS_RCACHE_ENTRIES \<and> (\<forall>e \<in> set rc. rc_ok e)"

lemma unat_cut: "unat (off :: u64) < 2 ^ 32 \<Longrightarrow> unat (ucast off :: u32) = unat off"
  by (simp add: unsigned_ucast_eq take_bit_nat_eq_self)

lemma fseek_small: "unat off < 2 ^ 31 \<Longrightarrow> fseek_pos off = Some (unat off)"
proof -
  assume "unat off < 2 ^ 31"
  then obtain n where n: "unat off = n" "n < 2 ^ 31" by blast
  have "unat (ucast off :: 32 word) = n" using n by (simp add: unat_cut)
  then have u: "uint (ucast off :: 32 word) = int n" by (metis uint_nat)
  have "sint (ucast off :: 32 word) = int n"
    unfolding sint_uint u using n(2) by (intro signed_take_bit_int_eq_self) simp_all
  then show ?thesis using n(1) by (simp add: fseek_pos_def Let_def)
qed

lemma pread_exact:
  assumes ok: "rc_ok e" and b: "unat off + unat count < 2 ^ 31"
  obtains e' where "mvs_pds_member_pread now t count off e [] =
      (Some (take (unat count) (drop (unat off) t), length t < unat off + unat count \<and> 0 < unat count), e', [])" and "rc_ok e'"
proof -
  let ?d = "take (unat count) (drop (unat off) t)"
  have pos: "(if has_last_getpos e \<and> off = ucast (last_offset e + last_nread e) then Some (last_getpos e) else fseek_pos off)
      = Some (unat off)"
    using ok fseek_small [of off] b by (auto simp: rc_ok_def unat_up)
  have z: "off = 0 \<Longrightarrow> unat off = 0" by simp
  have len: "length ?d < unat count \<longleftrightarrow> length t < unat off + unat count \<and> 0 < unat count" by auto
  let ?e = "e\<lparr>rc_last_used := now, last_offset := ucast off, last_nread := of_nat (length ?d),
     has_last_getpos := True, last_getpos := unat off + length ?d\<rparr>"
  have run: "mvs_pds_member_pread now t count off e [] =
      (if length ?d < unat count then (Some (?d, True), mvs_rcache_entry_reset, []) else (Some (?d, False), ?e, []))"
    using pos z unfolding mvs_pds_member_pread_def by (cases "off = 0") (simp_all add: Let_def)
  have l: "length ?d \<le> unat count" by simp
  have "unat (ucast off + of_nat (length ?d) :: u32) = unat off + length ?d"
    using b l by (simp add: unat_word_ariths unat_cut unat_of_nat)
  then have "rc_ok ?e" by (simp add: rc_ok_def)
  then show ?thesis using that run len
    by (cases "length ?d < unat count") (auto simp: rc_ok_def mvs_rcache_entry_reset_def)
qed

lemma free_entry_inv:
  assumes "rc_inv rc" and "mvs_rcache_get_free_entry now rc = (i, rc')"
  shows "rc_inv rc' \<and> i < length rc'"
proof -
  have ne: "rc \<noteq> []" using assms(1) by (auto simp: rc_inv_def MVS_RCACHE_ENTRIES_def)
  have rc': "rc' = rc[i := mvs_rcache_entry_reset]" "i = rcache_free_index now rc"
    using assms(2) by (auto simp: mvs_rcache_get_free_entry_def Let_def)
  have "rc_ok mvs_rcache_entry_reset" by (simp add: rc_ok_def mvs_rcache_entry_reset_def)
  then have "rc_inv rc'" using assms(1) set_update_subset_insert [of rc i] unfolding rc_inv_def rc'(1) by auto
  then show ?thesis using positions.pick_bound [OF ne] rc' by simp
qed

text \<open>
  C13. A read returns the bytes of the member: whatever the table remembers from earlier reads,
  when no call fails and the range ends below two gigabytes, the data are the member's text in
  EBCDIC from the offset, cut at its end, and end of file is reported exactly when a non-empty
  range reaches past the end; the table keeps its shape and its positions stay right.
\<close>
theorem member_read_exact:
  assumes "rc_inv rc" and "unat off + unat count < 2 ^ 31"
  shows "\<exists>rc'. mvs_pds_member_read now (Some t) dsn m ex off count rc [] =
      (Some (take (unat count) (drop (unat off) t), length t < unat off + unat count \<and> 0 < unat count), rc', []) \<and> rc_inv rc'"
proof -
  obtain i rc1 where s: "(if off = 0 then mvs_rcache_get_free_entry now rc
         else case mvs_rcache_find_entry now dsn m ex rc of Some i \<Rightarrow> (i, rc)
           | None \<Rightarrow> mvs_rcache_get_free_entry now rc) = (i, rc1)" by (metis surj_pair)
  have i: "rc_inv rc1" "i < length rc1"
    using s free_entry_inv [OF assms(1)] assms(1) find_upt_Some
    by (auto simp: mvs_rcache_find_entry_def split: if_splits option.splits)
  define e where "e = (if rc_used (rc1 ! i) then rc1 ! i
    else (rc1 ! i)\<lparr>rc_used := True, rc_dsname := take 44 dsn, rc_member := take 8 m, rc_export := ex\<rparr>)"
  have "rc_ok (rc1 ! i)" using i by (simp add: rc_inv_def)
  then have ok: "rc_ok e" by (simp add: e_def rc_ok_def)
  obtain e' where p: "mvs_pds_member_pread now t count off e [] =
      (Some (take (unat count) (drop (unat off) t), length t < unat off + unat count \<and> 0 < unat count), e', [])" "rc_ok e'"
    using pread_exact [OF ok assms(2)] by blast
  have "rc_inv (rc1[i := e'])" using i(1) p(2) set_update_subset_insert [of rc1 i e'] unfolding rc_inv_def by auto
  then show ?thesis using p(1) unfolding mvs_pds_member_read_def s e_def by (simp add: Let_def)
qed

theorem member_read_exact_witness:
  "\<exists>rc'. mvs_pds_member_read 9 (Some [0xC1, 0xC2, 0x15]) [0xC1] [0xC2] 0 1 8 mvs_rcache_init [] = (Some ([0xC2, 0x15], True), rc', [])"
proof -
  have "rc_inv mvs_rcache_init" by (simp add: rc_inv_def mvs_rcache_init_def rc_ok_def mvs_rcache_entry_reset_def)
  then show ?thesis using member_read_exact [of mvs_rcache_init 1 8 9 "[0xC1, 0xC2, 0x15]" "[0xC1]" "[0xC2]" 0] by auto
qed

end
