(* ===== verification/Vfs.thy ===== *)
theory Vfs
  imports Prw Fhandle
begin

text \<open>
  The file-system interface of the server on MVS, \<^verbatim>\<open>src/src/mvsvfs.c\<close>: attributes, reading,
  writing, creating, removing, renaming, truncating, times, statistics and directory listings,
  each from an ASCII path. The state joins the write-back layer, the size cache, the table of
  read positions and the epoch directories report until they change. Time does not advance
  during a call. A call of the run-time library that can fail takes its outcome from the script
  of the write-back layer; a member's text is what \<open>lib\<close> holds, so a member is opened when it is
  there. What \<^verbatim>\<open>rename\<close> does with an existing target is left to the run-time library by the
  source: the script either refuses or the target is replaced. Log and trace calls, and the
  dump of a failed \<^verbatim>\<open>vfs_stat\<close>, are left out.
\<close>

section \<open>State\<close>

definition MAX_PATH_LEN :: nat where "MAX_PATH_LEN = 256"

record vfs_state =
  pw :: pww_state
  fsz :: fsz_state
  rcache :: "mvs_rcache_entry_t list"
  g_dir_epoch :: int
  stack_word :: u64

record vfs_stat_t =
  st_ftype :: u32
  st_mode :: u32
  st_nlink :: u32
  st_uid :: u32
  st_gid :: u32
  st_size :: u64
  st_used :: u64
  st_rdev_maj :: u32
  st_rdev_min :: u32
  st_fsid :: u64
  st_fileid :: u64
  atime_sec :: u32
  atime_nsec :: u32
  mtime_sec :: u32
  mtime_nsec :: u32
  ctime_sec :: u32
  ctime_nsec :: u32
  raw_dev :: u32
  raw_ino :: u32
  fs_readonly :: u32

definition NF3REG :: u32 where "NF3REG = 1"
definition NF3DIR :: u32 where "NF3DIR = 2"

definition ebcdic_path :: "bytes \<Rightarrow> bytes" where
  "ebcdic_path path = take (MAX_PATH_LEN - 1) (ascii_to_ebcdic path)"

definition vexports :: "vfs_state \<Rightarrow> export_t list" where
  "vexports s = pexports (pw s)"

definition vfs_call :: "vfs_state \<Rightarrow> sys_out \<times> vfs_state" where
  "vfs_call s = (let (r, p) = sys_call (pw s) in (r, s\<lparr>pw := p\<rparr>))"

section \<open>Attributes\<close>

definition vfs_report_mode :: "u16 \<Rightarrow> bool \<Rightarrow> u32" where
  "vfs_report_mode perm ro = (if ro then ucast perm AND NOT 0x92 else ucast perm)"

definition mvs_check_writable :: "export_t list \<Rightarrow> int \<Rightarrow> int \<Rightarrow> errno_t option" where
  "mvs_check_writable es e d =
     (case export_dataset_get es e d of
        Some ds \<Rightarrow> if ds_readonly ds then Some EROFS else None
      | None \<Rightarrow> None)"

text \<open>The fields all objects fill in the same way.\<close>

definition stat_of ::
  "u32 \<Rightarrow> u32 \<Rightarrow> bool \<Rightarrow> u32 \<Rightarrow> u64 \<Rightarrow> int \<Rightarrow> bytes option \<Rightarrow> bytes option \<Rightarrow> u32 \<Rightarrow> u32 \<Rightarrow> u32 \<Rightarrow> vfs_stat_t" where
  "stat_of ft m ro nl sz e dsn mem at mt ct =
     \<lparr>st_ftype = ft, st_mode = m, st_nlink = nl, st_uid = 0, st_gid = 0, st_size = sz, st_used = sz,
      st_rdev_maj = 0, st_rdev_min = 0, st_fsid = of_int e + 1, st_fileid = mvs_fid_hash dsn mem,
      atime_sec = at, atime_nsec = 0, mtime_sec = mt, mtime_nsec = 0, ctime_sec = ct, ctime_nsec = 0,
      raw_dev = of_int e + 1, raw_ino = mvs_fid_ino32 dsn mem, fs_readonly = (if ro then 1 else 0)\<rparr>"

definition mvsvfs_find_cached_member ::
  "int \<Rightarrow> bytes \<Rightarrow> bytes \<Rightarrow> vfs_dir list \<Rightarrow> pds_member_entry_t option \<times> vfs_dir list" where
  "mvsvfs_find_cached_member now dsn m ds =
     (case dir_openlist_find_by_dsname now dsn ds of
        (None, ds1) \<Rightarrow> (None, ds1)
      | (Some i, ds1) \<Rightarrow>
          let l = member_list (ds1 ! i)
          in (map_option (\<lambda>k. l ! nat k) (dir_openlist_search_members (map me_name l) m SEARCH_OP_EQ), ds1))"

text \<open>
  The size of a member: the cache answers without opening the member when it knows this state
  of it. The result is ignored by the caller, so a member that cannot be opened gets whatever
  the variable for the size holds.
\<close>

definition member_size ::
  "int \<Rightarrow> bytes \<Rightarrow> bytes \<Rightarrow> pds_member_entry_t \<Rightarrow> vfs_state \<Rightarrow> u64 \<times> vfs_state" where
  "member_size now dsn m e s =
     (let hit = (case find_entry dsn m (fsz s) of None \<Rightarrow> False
                 | Some i \<Rightarrow> stamp_matches e (fz_entry (g_cache (fsz s) ! i)));
          (r, s1) = (if hit then (SysOk, s) else vfs_call s);
          (sz, c) = mvsfsz_get_member_size now (if r = SysOk then lib (pw s1) (dsn, m) else None) dsn m e (fsz s)
      in (case sz of Some n \<Rightarrow> n | None \<Rightarrow> stack_word s, s1\<lparr>fsz := c\<rparr>))"

definition vfs_stat_pds_member ::
  "mvs_env \<Rightarrow> int \<Rightarrow> bytes \<Rightarrow> int \<Rightarrow> int \<Rightarrow> vfs_state \<Rightarrow> (errno_t + vfs_stat_t) \<times> vfs_state" where
  "vfs_stat_pds_member env now path e d s =
     (case export_dataset_get (vexports s) e d of
        None \<Rightarrow> (Inl ENOENT, s)
      | Some ds \<Rightarrow>
          (case mvs_get_pds_dsn_and_member (vexports s) path e of
             (Some err, _, _) \<Rightarrow> (Inl err, s)
           | (None, dsn, m) \<Rightarrow>
               let mode = vfs_report_mode (memperm ds) (ds_readonly ds); ro = ds_readonly ds in
               case pww_slot_find dsn m (pw s) of
                 Some i \<Rightarrow>
                   (Inr (stat_of NF3REG mode ro 1 (ucast (high_water (pool (pw s) ! i))) e (Some dsn) (Some m)
                           (of_int now) (of_int now) (of_int now)), s)
               | None \<Rightarrow>
                   let (hit, dp) = mvsvfs_find_cached_member now dsn m (dir_pool (pw s));
                       s1 = s\<lparr>pw := (pw s)\<lparr>dir_pool := dp\<rparr>\<rparr>;
                       entry = (case hit of Some x \<Rightarrow> Inr x
                         | None \<Rightarrow> mvs_pds_get_member_entry (env_dirs env) (env_tz env) now (env_tail env) dsn m)
                   in case entry of
                        Inl _ \<Rightarrow> (Inl ENOENT, s1)
                      | Inr x \<Rightarrow>
                          let (sz, s2) = member_size now dsn m x s1
                          in (Inr (stat_of NF3REG mode ro 1 sz e (Some dsn) (Some m)
                                (of_int (chgdate x)) (of_int (chgdate x)) (of_int (crdate x))), s2)))"

definition vfs_dir_epoch :: "int \<Rightarrow> vfs_state \<Rightarrow> u32 \<times> vfs_state" where
  "vfs_dir_epoch now s =
     (let ep = (if g_dir_epoch s = 0 then now else g_dir_epoch s) in (of_int ep, s\<lparr>g_dir_epoch := ep\<rparr>))"

definition DIR_REFRESH_THROTTLE_SECS :: u32 where "DIR_REFRESH_THROTTLE_SECS = 10"

text \<open>The entry of the data set after its directory was looked at, and whether it had changed.\<close>

definition dir_refresh :: "mvs_env \<Rightarrow> int \<Rightarrow> pds_dataset_t \<Rightarrow> pds_dataset_t \<times> bool" where
  "dir_refresh env now ds =
     (let now_secs = of_int now :: u32 in
      if dir_sig_check ds = 0 \<or> DIR_REFRESH_THROTTLE_SECS \<le> now_secs - dir_sig_check ds then
        (let (ds1, changed) =
           (case mvs_pds_dir_signature (env_dirs env) (env_tz env) now (dsname_ebcdic ds) of
              None \<Rightarrow> (ds, False)
            | Some g \<Rightarrow> if dir_sig_check ds \<noteq> 0 \<and> g \<noteq> dir_sig ds
                        then (ds\<lparr>dir_mtime := now_secs, dir_sig := g\<rparr>, True) else (ds\<lparr>dir_sig := g\<rparr>, False))
         in (ds1\<lparr>dir_sig_check := now_secs\<rparr>, changed))
      else (ds, False))"

definition vfs_stat_dataset ::
  "mvs_env \<Rightarrow> int \<Rightarrow> int \<Rightarrow> int \<Rightarrow> vfs_state \<Rightarrow> (errno_t + vfs_stat_t) \<times> vfs_state" where
  "vfs_stat_dataset env now e d s =
     (case export_dataset_get (vexports s) e d of
        None \<Rightarrow> (Inl ENOENT, s)
      | Some ds0 \<Rightarrow>
          let (ds, changed) = dir_refresh env now ds0;
              p = pw s;
              s1 = s\<lparr>pw := p\<lparr>pexports := export_dataset_set e d ds (pexports p),
                      dir_pool := (if changed then dir_openlist_invalidate (dsname_ebcdic ds) (dir_pool p) else dir_pool p)\<rparr>\<rparr>;
              (dmtime, s2) = (if dir_mtime ds \<noteq> 0 then (dir_mtime ds, s1) else vfs_dir_epoch now s1)
          in (Inr (stat_of NF3DIR (vfs_report_mode (dirperm ds) (ds_readonly ds)) (ds_readonly ds) 2 4096 e
                     (Some (dsname_ebcdic ds)) None dmtime dmtime dmtime), s2))"

definition vfs_stat_root :: "int \<Rightarrow> int \<Rightarrow> vfs_state \<Rightarrow> (errno_t + vfs_stat_t) \<times> vfs_state" where
  "vfs_stat_root now e s =
     (case exports_get (vexports s) e of
        None \<Rightarrow> (Inl ENOENT, s)
      | Some ex \<Rightarrow>
          let (epoch, s1) = vfs_dir_epoch now s
          in (Inr (stat_of NF3DIR (vfs_report_mode (rootperm ex) True) True 2 4096 e
                     (Some (export_path_ebcdic ex)) None epoch epoch epoch), s1))"

definition vfs_stat :: "mvs_env \<Rightarrow> int \<Rightarrow> bytes \<Rightarrow> vfs_state \<Rightarrow> (errno_t + vfs_stat_t) \<times> vfs_state" where
  "vfs_stat env now path s =
     (let ep = ebcdic_path path; (kind, e, d) = mvs_path_type (vexports s) ep in
      case kind of
        MVS_PATH_TYPE_PDS_MEMBER \<Rightarrow> vfs_stat_pds_member env now ep e d s
      | MVS_PATH_TYPE_DATASET \<Rightarrow> vfs_stat_dataset env now e d s
      | MVS_PATH_TYPE_ROOT \<Rightarrow> vfs_stat_root now e s
      | MVS_PATH_NOT_EXPORTED \<Rightarrow> (Inl ENOENT, s))"

section \<open>Data\<close>

text \<open>The data read and the end-of-file flag.\<close>

definition vfs_pread :: "mvs_env \<Rightarrow> int \<Rightarrow> bytes \<Rightarrow> u32 \<Rightarrow> u64 \<Rightarrow> vfs_state \<Rightarrow> (errno_t + bytes \<times> bool) \<times> vfs_state" where
  "vfs_pread env now path count offset s =
     (let ep = ebcdic_path path; (kind, e, _) = mvs_path_type (vexports s) ep in
      if kind = MVS_PATH_TYPE_DATASET \<or> kind = MVS_PATH_TYPE_ROOT then (Inl EACCES, s)
      else if kind \<noteq> MVS_PATH_TYPE_PDS_MEMBER then (Inl ENOENT, s)
      else case mvs_get_pds_dsn_and_member (vexports s) ep e of
        (Some err, _, _) \<Rightarrow> (Inl err, s)
      | (None, dsn, m) \<Rightarrow>
          (case pww_slot_find dsn m (pw s) of
             Some i \<Rightarrow>
               let pm = pool (pw s) ! i; hw = high_water pm in
               if ucast hw \<le> offset then (Inr ([], True), s)
               else
                 let off = ucast offset :: u32;
                     avail = hw - off;
                     n = (if count < avail then count else avail);
                     (r, pm', fs) = pww_read_range pm off n (spill_io (pw s));
                     s1 = s\<lparr>pw := (put_slot i pm' (pw s))\<lparr>spill_io := fs\<rparr>\<rparr>
                 in (case r of None \<Rightarrow> (Inl EIO, s1) | Some b \<Rightarrow> (Inr (b, hw \<le> off + n), s1))
           | None \<Rightarrow>
               let (r, rc, ss) = mvs_pds_member_read now (lib (pw s) (dsn, m)) dsn m e offset count (rcache s) (sysq (pw s));
                   s1 = s\<lparr>rcache := rc, pw := (pw s)\<lparr>sysq := ss\<rparr>\<rparr>
               in (case r of None \<Rightarrow> (Inl EOTHER, s1) | Some (b, eof) \<Rightarrow> (Inr (ebcdic_to_ascii b, eof), s1))))"

text \<open>Where a write, a creation or a truncation goes: export, data set and names, or an error.\<close>

definition member_target :: "export_t list \<Rightarrow> bytes \<Rightarrow> int \<Rightarrow> int \<Rightarrow> errno_t + bytes \<times> bytes" where
  "member_target es ep e d =
     (case mvs_check_writable es e d of
        Some err \<Rightarrow> Inl err
      | None \<Rightarrow> (case mvs_get_pds_dsn_and_member es ep e of (Some err, _, _) \<Rightarrow> Inl err | (None, dsn, m) \<Rightarrow> Inr (dsn, m)))"

definition lift_pw :: "(errno_t option \<times> pww_state) \<Rightarrow> vfs_state \<Rightarrow> errno_t option \<times> vfs_state" where
  "lift_pw r s = (fst r, s\<lparr>pw := snd r\<rparr>)"

definition vfs_pwrite :: "mvs_env \<Rightarrow> int \<Rightarrow> bytes \<Rightarrow> bytes \<Rightarrow> u64 \<Rightarrow> vfs_state \<Rightarrow> errno_t option \<times> vfs_state" where
  "vfs_pwrite env now path data offset s =
     (let ep = ebcdic_path path; (kind, e, d) = mvs_path_type (vexports s) ep in
      if kind \<noteq> MVS_PATH_TYPE_PDS_MEMBER
      then (Some (if kind = MVS_PATH_TYPE_ROOT \<or> kind = MVS_PATH_TYPE_DATASET then EISDIR else ENOENT), s)
      else case member_target (vexports s) ep e d of
        Inl err \<Rightarrow> (Some err, s)
      | Inr (dsn, m) \<Rightarrow> lift_pw (pww_write env now e d dsn m data offset (pw s)) s)"

definition vfs_commit :: "mvs_env \<Rightarrow> int \<Rightarrow> bytes \<Rightarrow> vfs_state \<Rightarrow> errno_t option \<times> vfs_state" where
  "vfs_commit env now path s =
     (let ep = ebcdic_path path; (kind, e, _) = mvs_path_type (vexports s) ep in
      if kind \<noteq> MVS_PATH_TYPE_PDS_MEMBER then (None, s)
      else case mvs_get_pds_dsn_and_member (vexports s) ep e of
        (Some _, _, _) \<Rightarrow> (None, s)
      | (None, dsn, m) \<Rightarrow> lift_pw (pww_flush_member env now dsn m (pw s)) s)"

definition vfs_create :: "mvs_env \<Rightarrow> int \<Rightarrow> bytes \<Rightarrow> u32 \<Rightarrow> vfs_state \<Rightarrow> errno_t option \<times> vfs_state" where
  "vfs_create env now path mode s =
     (let ep = ebcdic_path path; (kind, e, d) = mvs_path_type (vexports s) ep in
      if kind \<noteq> MVS_PATH_TYPE_PDS_MEMBER then (Some EACCES, s)
      else case member_target (vexports s) ep e d of
        Inl err \<Rightarrow> (Some err, s)
      | Inr (dsn, m) \<Rightarrow> lift_pw (pww_create env now e d dsn m (pw s)) s)"

text \<open>The run-time library's \<^verbatim>\<open>_unlink\<close> and \<^verbatim>\<open>rename\<close> on members.\<close>

definition lib_unlink :: "member_key \<Rightarrow> vfs_state \<Rightarrow> errno_t option \<times> vfs_state" where
  "lib_unlink k s =
     (let (r, s1) = vfs_call s; p = pw s1 in
      if r \<noteq> SysOk then (Some EOTHER, s1)
      else if lib p k = None then (Some ENOENT, s1)
      else (None, s1\<lparr>pw := p\<lparr>lib := (lib p)(k := None), dir_ud := (dir_ud p)(k := None)\<rparr>\<rparr>))"

definition lib_rename :: "member_key \<Rightarrow> member_key \<Rightarrow> vfs_state \<Rightarrow> errno_t option \<times> vfs_state" where
  "lib_rename k k' s =
     (let (r, s1) = vfs_call s; p = pw s1 in
      if r \<noteq> SysOk then (Some EOTHER, s1)
      else if lib p k = None then (Some ENOENT, s1)
      else (None, s1\<lparr>pw := p\<lparr>lib := ((lib p)(k := None))(k' := lib p k),
                             dir_ud := ((dir_ud p)(k := None))(k' := dir_ud p k)\<rparr>\<rparr>))"

definition dir_changed :: "int \<Rightarrow> int \<Rightarrow> int \<Rightarrow> bytes \<Rightarrow> vfs_state \<Rightarrow> vfs_state" where
  "dir_changed now e d dsn s =
     s\<lparr>pw := (pw s)\<lparr>pexports := export_dataset_touch (of_int now) e d (pexports (pw s)),
                     dir_pool := dir_openlist_invalidate dsn (dir_pool (pw s))\<rparr>\<rparr>"

definition vfs_remove :: "mvs_env \<Rightarrow> int \<Rightarrow> bytes \<Rightarrow> vfs_state \<Rightarrow> errno_t option \<times> vfs_state" where
  "vfs_remove env now path s =
     (let ep = ebcdic_path path; (kind, e, d) = mvs_path_type (vexports s) ep in
      if kind \<noteq> MVS_PATH_TYPE_PDS_MEMBER then (Some EISDIR, s)
      else case member_target (vexports s) ep e d of
        Inl err \<Rightarrow> (Some err, s)
      | Inr (dsn, m) \<Rightarrow>
          let (had_pending, p) = pww_discard dsn m (pw s);
              (r, s1) = lib_unlink (dsn, m) (s\<lparr>pw := p\<rparr>)
          in case r of
               None \<Rightarrow> (None, dir_changed now e d dsn s1)
             | Some err \<Rightarrow> if had_pending \<and> err = ENOENT then (None, dir_changed now e d dsn s1) else (Some err, s1))"

definition vfs_rename :: "mvs_env \<Rightarrow> int \<Rightarrow> bytes \<Rightarrow> bytes \<Rightarrow> vfs_state \<Rightarrow> errno_t option \<times> vfs_state" where
  "vfs_rename env now from_path to_path s =
     (let es = vexports s; ef = ebcdic_path from_path; et = ebcdic_path to_path;
          (kf, fe, fd) = mvs_path_type es ef; (kt, te, td) = mvs_path_type es et in
      if kf \<noteq> MVS_PATH_TYPE_PDS_MEMBER \<or> kt \<noteq> MVS_PATH_TYPE_PDS_MEMBER then (Some EISDIR, s)
      else case mvs_get_pds_dsn_and_member es ef fe of
        (Some err, _, _) \<Rightarrow> (Some err, s)
      | (None, fdsn, fm) \<Rightarrow>
        (case mvs_get_pds_dsn_and_member es et te of
           (Some err, _, _) \<Rightarrow> (Some err, s)
         | (None, tdsn, tm) \<Rightarrow>
            if mvs_check_writable es fe fd \<noteq> None \<or> mvs_check_writable es te td \<noteq> None then (Some EROFS, s)
            else if fdsn \<noteq> tdsn then (Some EXDEV, s)
            else case pww_flush_member env now fdsn fm (pw s) of
              (Some err, p) \<Rightarrow> (Some err, s\<lparr>pw := p\<rparr>)
            | (None, p) \<Rightarrow>
                let p1 = snd (pww_discard tdsn tm p);
                    (r, s1) = lib_rename (fdsn, fm) (tdsn, tm) (s\<lparr>pw := p1\<rparr>)
                in case r of Some err \<Rightarrow> (Some err, s1)
                   | None \<Rightarrow> (None, dir_changed now fe fd fdsn (s1\<lparr>pw := snd (pww_discard fdsn fm (pw s1))\<rparr>))))"

definition vfs_truncate :: "mvs_env \<Rightarrow> int \<Rightarrow> bytes \<Rightarrow> u64 \<Rightarrow> vfs_state \<Rightarrow> errno_t option \<times> vfs_state" where
  "vfs_truncate env now path sz s =
     (let ep = ebcdic_path path; (kind, e, d) = mvs_path_type (vexports s) ep in
      if kind \<noteq> MVS_PATH_TYPE_PDS_MEMBER then (Some EISDIR, s)
      else case member_target (vexports s) ep e d of
        Inl err \<Rightarrow> (Some err, s)
      | Inr (dsn, m) \<Rightarrow>
          if of_nat PWW_MAX_MEMBER_BYTES < sz then (Some ENOSPC, s)
          else if sz \<noteq> 0 \<and> pww_slot_find dsn m (pw s) = None then
            (case vfs_stat env now path s of
               (Inl err, s1) \<Rightarrow> (Some err, s1)
             | (Inr st, s1) \<Rightarrow> if sz < st_size st then (Some EIO, s1) else (None, s1))
          else lift_pw (pww_truncate env now e d dsn m (ucast sz) (pw s)) s)"

definition SET_DONT_CHANGE :: u32 where "SET_DONT_CHANGE = 0"
definition SET_TO_SERVER_TIME :: u32 where "SET_TO_SERVER_TIME = 1"
definition SET_TO_CLIENT_TIME :: u32 where "SET_TO_CLIENT_TIME = 2"

definition vfs_set_times ::
  "mvs_env \<Rightarrow> int \<Rightarrow> bytes \<Rightarrow> u32 \<Rightarrow> u32 \<Rightarrow> u32 \<Rightarrow> u32 \<Rightarrow> vfs_state \<Rightarrow> errno_t option \<times> vfs_state" where
  "vfs_set_times env now path set_atime asec set_mtime msec s =
     (let t = (if set_mtime = SET_TO_CLIENT_TIME then Some (uint msec)
               else if set_mtime = SET_TO_SERVER_TIME then Some now
               else if set_atime = SET_TO_CLIENT_TIME then Some (uint asec)
               else if set_atime = SET_TO_SERVER_TIME then Some now else None)
      in case t of None \<Rightarrow> (None, s)
         | Some new_time \<Rightarrow>
             let ep = ebcdic_path path; (kind, e, d) = mvs_path_type (vexports s) ep in
             if kind \<noteq> MVS_PATH_TYPE_PDS_MEMBER then (None, s)
             else case mvs_check_writable (vexports s) e d of
               Some err \<Rightarrow> (Some err, s)
             | None \<Rightarrow>
                 (case mvs_get_pds_dsn_and_member (vexports s) ep e of
                    (Some _, _, _) \<Rightarrow> (None, s)
                  | (None, dsn, m) \<Rightarrow> (None, s\<lparr>pw := pww_touch_stats env now e d dsn m new_time (pw s)\<rparr>)))"

section \<open>File-system statistics\<close>

record vfs_fsstat_t =
  total_bytes :: u64
  free_bytes :: u64
  avail_bytes :: u64
  total_files :: u64
  free_files :: u64
  avail_files :: u64
  invarsec :: u32

definition VFS_FSSTAT_NOMINAL_BYTES :: u64 where "VFS_FSSTAT_NOMINAL_BYTES = 64 * 1024 * 1024"
definition VFS_FSSTAT_NOMINAL_FILES :: u64 where "VFS_FSSTAT_NOMINAL_FILES = 65535"

definition vfs_fsstat_dataset :: "pds_dataset_t option \<Rightarrow> u64 \<times> u64" where
  "vfs_fsstat_dataset ds0 =
     (case ds0 of None \<Rightarrow> (0, 0)
      | Some ds \<Rightarrow>
          if \<not> valid (dscb ds) \<or> blocks_per_track (dscb ds) \<le> 0 then (0, 0)
          else
            let bpt = of_int (blocks_per_track (dscb ds)) :: u64; blk = ucast (blksize (dscb ds)) :: u64;
                total = ucast (tracks (dscb ds)) * bpt * blk;
                us = (ucast (lstar_tt (dscb ds)) * bpt + ucast (lstar_r (dscb ds))) * blk
            in (total, if us < total then total - us else 0))"

definition vfs_fsstat :: "bytes \<Rightarrow> vfs_state \<Rightarrow> vfs_fsstat_t" where
  "vfs_fsstat path s =
     (let es = vexports s; (_, e, _) = mvs_path_type es (ebcdic_path path);
          sums = (if 0 \<le> e
                  then map (\<lambda>i. vfs_fsstat_dataset (export_dataset_get es e (int i))) [0..<nat (export_dataset_count es e)]
                  else []);
          t0 = sum_list (map fst sums); f0 = sum_list (map snd sums);
          (t, f) = (if t0 = 0 then (VFS_FSSTAT_NOMINAL_BYTES, VFS_FSSTAT_NOMINAL_BYTES) else (t0, f0))
      in \<lparr>total_bytes = t, free_bytes = f, avail_bytes = f, total_files = VFS_FSSTAT_NOMINAL_FILES,
          free_files = VFS_FSSTAT_NOMINAL_FILES, avail_files = VFS_FSSTAT_NOMINAL_FILES, invarsec = 0\<rparr>)"

section \<open>Directory listings\<close>

text \<open>A cookie is the member name in EBCDIC, blank filled, read as a big-endian number.\<close>

definition cookie_bytes :: "bytes \<Rightarrow> bytes" where
  "cookie_bytes name =
     (let n = take 8 name in (if n = [] then [0] else n) @ replicate (8 - max 1 (length n)) ch_space)"

definition be64_word :: "bytes \<Rightarrow> u64" where
  "be64_word b = push_bit 32 (ucast (be32_word (b ! 0) (b ! 1) (b ! 2) (b ! 3))) OR
     ucast (be32_word (b ! 4) (b ! 5) (b ! 6) (b ! 7))"

definition to_cookie :: "bytes \<Rightarrow> u64" where
  "to_cookie name = be64_word (cookie_bytes name)"

text \<open>The bytes stored up to the first blank; as a C string they end at a zero byte.\<close>

definition from_cookie :: "u64 \<Rightarrow> bytes" where
  "from_cookie c = takeWhile (\<lambda>b. b \<noteq> ch_space) (be64_bytes c)"

definition generate_file_name :: "bytes \<Rightarrow> bytes \<Rightarrow> nat \<Rightarrow> bytes" where
  "generate_file_name ext name buflen =
     (let n = map tolower (take (buflen - 1) name);
          room = (\<lambda>u. if u + 1 < buflen then buflen - u - 1 else 0);
          n1 = n @ take (room (length n)) [ch_dot];
          n2 = n1 @ take (room (length n1)) ext
      in ebcdic_to_ascii (if ext \<noteq> [] then n2 else n))"

text \<open>The directory blocks of a data set, or the error number of the failed opening.\<close>

definition mvs_open_pds_dir :: "pds_dirs \<Rightarrow> bytes \<Rightarrow> errno_t + bytes list" where
  "mvs_open_pds_dir dirs dsn =
     (if 44 < length dsn then Inl EINVAL else case dirs dsn of None \<Rightarrow> Inl EOTHER | Some b \<Rightarrow> Inr b)"

definition set_dirs :: "vfs_dir list \<Rightarrow> vfs_state \<Rightarrow> vfs_state" where
  "set_dirs ds s = s\<lparr>pw := (pw s)\<lparr>dir_pool := ds\<rparr>\<rparr>"

definition vdirs :: "vfs_state \<Rightarrow> vfs_dir list" where
  "vdirs s = dir_pool (pw s)"

definition MVS_LEVEL_ROOT :: int where "MVS_LEVEL_ROOT = 0"
definition MVS_LEVEL_DATASET :: int where "MVS_LEVEL_DATASET = 1"

text \<open>A new object for the directory of a data set.\<close>

definition open_new_dir :: "mvs_env \<Rightarrow> int \<Rightarrow> pds_dataset_t \<Rightarrow> int \<Rightarrow> int \<Rightarrow> vfs_dir list \<Rightarrow> (errno_t + nat) \<times> vfs_dir list" where
  "open_new_dir env now ds e d dp =
     (let (i, dp1) = dir_openlist_find_free now dp;
          dir = (dp1 ! i)\<lparr>vd_used := True, dir_level := MVS_LEVEL_DATASET, vd_export := e, vd_dataset := d,
                  pds_dsname := take 45 (dsname_ebcdic ds), next_cookie := 0, member_list := [], end_of_dir_read := False\<rparr>
      in case mvs_open_pds_dir (env_dirs env) (dsname_ebcdic ds) of
           Inl err \<Rightarrow> (Inl err, dir_openlist_free i dp1)
         | Inr b \<Rightarrow> (Inr i, dp1[i := dir\<lparr>pds_fh := Some b\<rparr>]))"

definition vfs_opendir :: "mvs_env \<Rightarrow> int \<Rightarrow> bytes \<Rightarrow> vfs_state \<Rightarrow> (errno_t + nat) \<times> vfs_state" where
  "vfs_opendir env now path s =
     (let ep = ebcdic_path path; (kind, e, d) = mvs_path_type (vexports s) ep in
      if kind = MVS_PATH_TYPE_ROOT then
        (let (i, dp) = dir_openlist_find_free now (vdirs s)
         in (Inr i, set_dirs (dp[i := (dp ! i)\<lparr>vd_used := True, dir_level := MVS_LEVEL_ROOT, vd_export := e, vd_dataset := - 1,
               pds_dsname := take 44 ep, next_cookie := 0, member_list := [], end_of_dir_read := False, pds_fh := None\<rparr>]) s))
      else if kind \<noteq> MVS_PATH_TYPE_DATASET then (Inl ENOENT, s)
      else case export_dataset_get (vexports s) e d of
        None \<Rightarrow> (Inl ENOENT, s)
      | Some ds \<Rightarrow>
          (case dir_openlist_find_by_dsname now (dsname_ebcdic ds) (vdirs s) of
             (Some i, dp) \<Rightarrow>
               if end_of_dir_read (dp ! i) then (Inr i, set_dirs dp s)
               else
                 let dir = (dp ! i)\<lparr>pds_fh := None, member_list := [], end_of_dir_read := False\<rparr> in
                 (case mvs_open_pds_dir (env_dirs env) (dsname_ebcdic ds) of
                    Inr b \<Rightarrow> (Inr i, set_dirs (dp[i := dir\<lparr>pds_fh := Some b\<rparr>]) s)
                  | Inl _ \<Rightarrow> (let (r, dp2) = open_new_dir env now ds e d (dp[i := dir]) in (r, set_dirs dp2 s)))
           | (None, dp) \<Rightarrow> (let (r, dp2) = open_new_dir env now ds e d dp in (r, set_dirs dp2 s))))"

text \<open>The next entry: its name, its file id and the cookie behind it.\<close>

definition root_readdir_next ::
  "export_t list \<Rightarrow> vfs_dir \<Rightarrow> nat \<Rightarrow> u64 \<Rightarrow> (bytes \<times> u64 \<times> u64) option" where
  "root_readdir_next es dir maxname cookie =
     (let index = sint (ucast cookie :: 32 word); count = export_dataset_count es (vd_export dir) in
      if index < 0 \<or> count \<le> index then None
      else case export_dataset_get es (vd_export dir) index of
        None \<Rightarrow> None
      | Some ds \<Rightarrow> Some (take (maxname - 1) (dirname_ascii ds), mvs_fid_hash (Some (dsname_ebcdic ds)) None, of_int (index + 1)))"

definition load_members :: "mvs_env \<Rightarrow> int \<Rightarrow> bytes \<Rightarrow> vfs_dir \<Rightarrow> vfs_dir" where
  "load_members env now raw dir =
     (let (l, eod) = mvs_read_pds_dir (env_tz env) now (take 8 (raw @ 0 # env_tail env))
                       (case pds_fh dir of None \<Rightarrow> [] | Some b \<Rightarrow> b)
      in dir\<lparr>member_list := l, end_of_dir_read := eod, pds_fh := map_option (\<lambda>_. []) (pds_fh dir)\<rparr>)"

definition vfs_readdir_next ::
  "mvs_env \<Rightarrow> int \<Rightarrow> nat \<Rightarrow> nat \<Rightarrow> u64 \<Rightarrow> vfs_state \<Rightarrow> (bytes \<times> u64 \<times> u64) option \<times> vfs_state" where
  "vfs_readdir_next env now i maxname cookie s =
     (let dir0 = vdirs s ! i in
      if dir_level dir0 = MVS_LEVEL_ROOT then (root_readdir_next (vexports s) dir0 maxname cookie, s)
      else
        let raw = from_cookie cookie; name = cstr raw;
            load = (member_list dir0 = [] \<or> \<not> bytes_less name (me_name (last (member_list dir0))))
        in if load \<and> end_of_dir_read dir0 then (None, s)
           else
             let dir = (if load then load_members env now raw dir0 else dir0);
                 s1 = set_dirs ((vdirs s)[i := dir]) s
             in case dir_openlist_search_members (map me_name (member_list dir)) name SEARCH_OP_GT of
                  None \<Rightarrow> (None, s1)
                | Some k \<Rightarrow>
                    let x = member_list dir ! nat k; c = to_cookie (me_name x);
                        ext = (case export_dataset_get (vexports s) (vd_export dir) (vd_dataset dir) of
                                 None \<Rightarrow> [] | Some ds \<Rightarrow> file_ext ds)
                    in (Some (generate_file_name ext (me_name x) maxname,
                              mvs_fid_hash (Some (pds_dsname dir)) (Some (me_name x)), c),
                        set_dirs ((vdirs s)[i := dir\<lparr>next_cookie := c\<rparr>]) s))"

definition vfs_seekdir_to :: "nat \<Rightarrow> u64 \<Rightarrow> vfs_state \<Rightarrow> vfs_state" where
  "vfs_seekdir_to i cookie s = set_dirs ((vdirs s)[i := (vdirs s ! i)\<lparr>next_cookie := cookie\<rparr>]) s"

definition vfs_closedir :: "nat \<Rightarrow> vfs_state \<Rightarrow> vfs_state" where
  "vfs_closedir i s = set_dirs ((vdirs s)[i := (vdirs s ! i)\<lparr>pds_fh := None\<rparr>]) s"

end
