(* ===== verification/Vfsprop.thy ===== *)
theory Vfsprop
  imports Vfs
begin

text \<open>
  Properties of the file-system interface: cookies name members, a read-only data set refuses
  every change, a listing shows every member once and ends, what was written stays readable, and
  the listing kept after a restart in the middle of a directory is incomplete.
\<close>

section \<open>Cookies\<close>

definition member_text :: "bytes \<Rightarrow> bool" where
  "member_text name \<longleftrightarrow> name \<noteq> [] \<and> length name \<le> 8 \<and> ch_space \<notin> set name \<and> 0 \<notin> set name"

lemma be64_bytes_word:
  assumes "length b = 8"
  shows "be64_bytes (be64_word b) = b"
proof -
  obtain a0 a1 a2 a3 a4 a5 a6 a7 where b: "b = [a0, a1, a2, a3, a4, a5, a6, a7]"
    using assms by (auto simp: eval_nat_numeral length_Suc_conv)
  have hi: "(ucast (drop_bit 32 (push_bit 32 (ucast x :: u64) OR ucast y)) :: u32) = x" for x y :: u32
    by (rule bit_word_eqI) (auto simp: bit_simps)
  have lo: "(ucast (push_bit 32 (ucast x :: u64) OR ucast y) :: u32) = y" for x y :: u32
    by (rule bit_word_eqI) (auto simp: bit_simps)
  have w: "be64_word b = push_bit 32 (ucast (be32_word a0 a1 a2 a3)) OR ucast (be32_word a4 a5 a6 a7)"
    by (simp add: b be64_word_def)
  show ?thesis unfolding w be64_bytes_def hi lo by (simp add: b)
qed

lemma takeWhile_until: "c \<notin> set xs \<Longrightarrow> takeWhile (\<lambda>b. b \<noteq> c) (xs @ replicate n c) = xs"
  by (cases n) (auto simp: takeWhile_append)

lemma from_to_cookie: "member_text name \<Longrightarrow> from_cookie (to_cookie name) = name"
proof -
  assume m: "member_text name"
  then have c: "cookie_bytes name = name @ replicate (8 - length name) ch_space"
    by (cases name) (auto simp: cookie_bytes_def member_text_def)
  moreover have "length (cookie_bytes name) = 8" using m c by (simp add: member_text_def)
  ultimately show ?thesis using m by (simp add: from_cookie_def to_cookie_def be64_bytes_word takeWhile_until member_text_def)
qed

lemma cstr_member: "member_text name \<Longrightarrow> cstr name = name"
  by (auto simp: member_text_def cstr_def takeWhile_eq_all_conv)

section \<open>Read-only data sets\<close>

lemma target_readonly:
  "export_dataset_get es e d = Some ds \<Longrightarrow> ds_readonly ds \<Longrightarrow> member_target es ep e d = Inl EROFS"
  by (simp add: member_target_def mvs_check_writable_def)

text \<open>
  C16. A read-only data set is never changed: on a member path of a data set marked read-only,
  writing, creating, removing and truncating answer EROFS; so does setting a time, whichever of
  the two times the request sets and whether to the client's or to the server's time, while a
  request that sets neither answers success; renaming from or to it fails; and none of them
  changes anything.
\<close>
theorem readonly_unchanged:
  assumes "mvs_path_type (vexports s) (ebcdic_path path) = (MVS_PATH_TYPE_PDS_MEMBER, e, d)"
    and "export_dataset_get (vexports s) e d = Some ds" and "ds_readonly ds"
  shows "vfs_pwrite env now path data off s = (Some EROFS, s) \<and>
    vfs_create env now path mode s = (Some EROFS, s) \<and>
    vfs_remove env now path s = (Some EROFS, s) \<and>
    vfs_truncate env now path sz s = (Some EROFS, s) \<and>
    vfs_set_times env now path sa asec sm msec s =
      (if sa \<in> {SET_TO_SERVER_TIME, SET_TO_CLIENT_TIME} \<or> sm \<in> {SET_TO_SERVER_TIME, SET_TO_CLIENT_TIME} then Some EROFS else None, s) \<and>
    (\<exists>err. vfs_rename env now path other s = (Some err, s)) \<and>
    (\<exists>err. vfs_rename env now other path s = (Some err, s))"
proof (intro conjI)
  have w: "mvs_check_writable (vexports s) e d = Some EROFS" using assms(2,3) by (simp add: mvs_check_writable_def)
  note t = target_readonly [OF assms(2,3)]
  show "vfs_pwrite env now path data off s = (Some EROFS, s)" by (simp add: vfs_pwrite_def assms(1) t)
  show "vfs_create env now path mode s = (Some EROFS, s)" by (simp add: vfs_create_def assms(1) t)
  show "vfs_remove env now path s = (Some EROFS, s)" by (simp add: vfs_remove_def assms(1) t)
  show "vfs_truncate env now path sz s = (Some EROFS, s)" by (simp add: vfs_truncate_def assms(1) t)
  show "vfs_set_times env now path sa asec sm msec s =
      (if sa \<in> {SET_TO_SERVER_TIME, SET_TO_CLIENT_TIME} \<or> sm \<in> {SET_TO_SERVER_TIME, SET_TO_CLIENT_TIME} then Some EROFS else None, s)"
    by (simp add: vfs_set_times_def assms(1) w)
  show "\<exists>err. vfs_rename env now path other s = (Some err, s)"
    by (cases "mvs_path_type (vexports s) (ebcdic_path other)")
      (auto simp: vfs_rename_def Let_def assms(1) w split: prod.splits option.splits)
  show "\<exists>err. vfs_rename env now other path s = (Some err, s)"
    by (cases "mvs_path_type (vexports s) (ebcdic_path other)")
      (auto simp: vfs_rename_def Let_def assms(1) w split: prod.splits option.splits)
qed

section \<open>Listings\<close>

lemma first_above_unique:
  assumes "\<forall>i < n. p i \<longleftrightarrow> k \<le> i" and "\<forall>i < n. p i \<longleftrightarrow> j \<le> int i" and "k \<le> n" "0 \<le> j" "j \<le> int n"
  shows "j = int k"
proof (rule ccontr)
  assume "j \<noteq> int k"
  then consider "j < int k" | "int k < j" by linarith
  then show False
  proof cases
    case 1
    then have "nat j < n" using assms(3,4) by linarith
    then show False using assms(1,2) 1 assms(4) by (metis int_nat_eq nat_less_iff not_le order_refl)
  next
    case 2
    then have "k < n" using assms(5) by linarith
    then show False using assms(1,2) 2 by (metis not_le order_refl)
  qed
qed

lemma search_gt:
  assumes a: "names_ascend names" and k: "\<forall>i < length names. bytes_less m (names ! i) \<longleftrightarrow> k \<le> i" and l: "k \<le> length names"
  shows "dir_openlist_search_members names m SEARCH_OP_GT = (if k < length names then Some (int k) else None)"
proof (cases "names = []")
  case True
  then show ?thesis using l by (simp add: dir_openlist_search_members_def)
next
  case ne: False
  note pl = search_loop_places [OF a ne, of m]
  show ?thesis
  proof (cases "dol_search_loop names m 0 (int (length names) - 1)")
    case (Inl j)
    note p = pl(1) [OF Inl]
    have "j + 1 = int k" by (rule first_above_unique [OF k]) (use p l in auto)
    then show ?thesis using ne Inl by (auto simp: dir_openlist_search_members_def dol_after_slice_def Let_def search_ops)
  next
    case (Inr j)
    note p = pl(2) [OF Inr]
    have "j = int k" by (rule first_above_unique [OF k]) (use p l in auto)
    then show ?thesis using ne Inr by (auto simp: dir_openlist_search_members_def dol_after_slice_def Let_def search_ops)
  qed
qed

text \<open>Reading a directory entry by entry, as the listing handlers do; the flag says that it ended.\<close>

fun list_dir :: "nat \<Rightarrow> mvs_env \<Rightarrow> int \<Rightarrow> nat \<Rightarrow> nat \<Rightarrow> u64 \<Rightarrow> vfs_state \<Rightarrow> (bytes \<times> u64 \<times> u64) list \<times> bool \<times> vfs_state" where
  "list_dir 0 env now i maxname cookie s = ([], False, s)"
| "list_dir (Suc n) env now i maxname cookie s =
     (case vfs_readdir_next env now i maxname cookie s of
        (None, s1) \<Rightarrow> ([], True, s1)
      | (Some (nm, fid, c), s1) \<Rightarrow> (let (l, e, s2) = list_dir n env now i maxname c s1 in ((nm, fid, c) # l, e, s2)))"

definition good_list :: "pds_member_entry_t list \<Rightarrow> bool" where
  "good_list l \<longleftrightarrow> names_ascend (map me_name l) \<and> (\<forall>x \<in> set l. member_text (me_name x))"

definition dir_ext :: "vfs_state \<Rightarrow> vfs_dir \<Rightarrow> bytes" where
  "dir_ext s dir = (case export_dataset_get (vexports s) (vd_export dir) (vd_dataset dir) of None \<Rightarrow> [] | Some ds \<Rightarrow> file_ext ds)"

definition shown :: "bytes \<Rightarrow> bytes \<Rightarrow> nat \<Rightarrow> pds_member_entry_t \<Rightarrow> bytes \<times> u64 \<times> u64" where
  "shown ext dsn maxname x =
     (generate_file_name ext (me_name x) maxname, mvs_fid_hash (Some dsn) (Some (me_name x)), to_cookie (me_name x))"

text \<open>The cookie stands before entry \<open>k\<close> of the list.\<close>

definition stands_at :: "pds_member_entry_t list \<Rightarrow> u64 \<Rightarrow> nat \<Rightarrow> bool" where
  "stands_at l c k \<longleftrightarrow> k \<le> length l \<and> (\<forall>j < length l. bytes_less (cstr (from_cookie c)) (me_name (l ! j)) \<longleftrightarrow> k \<le> j)"

definition dir_loaded :: "vfs_dir \<Rightarrow> pds_member_entry_t list \<Rightarrow> bool" where
  "dir_loaded dir l \<longleftrightarrow> dir_level dir \<noteq> MVS_LEVEL_ROOT \<and> member_list dir = l \<and>
     (end_of_dir_read dir \<or> pds_fh dir = None \<or> pds_fh dir = Some [])"

lemma set_dirs_sel [simp]:
  "vdirs (set_dirs ds s) = ds" "vexports (set_dirs ds s) = vexports s" "set_dirs ds' (set_dirs ds s) = set_dirs ds' s"
  by (simp_all add: set_dirs_def vdirs_def vexports_def)

lemma stands_next:
  assumes "good_list l" and "k < length l"
  shows "stands_at l (to_cookie (me_name (l ! k))) (Suc k)"
proof -
  have m: "member_text (me_name (l ! k))" using assms by (simp add: good_list_def)
  have a: "names_ascend (map me_name l)" using assms by (simp add: good_list_def)
  have "bytes_less (me_name (l ! k)) (me_name (l ! j)) \<longleftrightarrow> Suc k \<le> j" if "j < length l" for j
  proof -
    consider "k < j" | "k = j" | "j < k" by linarith
    then show ?thesis
    proof cases
      case 1
      then show ?thesis using ascend_nth [OF a 1] that by simp
    next
      case 2
      then show ?thesis using bytes_less_irrefl by simp
    next
      case 3
      then show ?thesis using ascend_nth [OF a 3] assms(2) bytes_less_asym by fastforce
    qed
  qed
  then show ?thesis using assms(2) m by (simp add: stands_at_def from_to_cookie cstr_member)
qed

lemma stands_start:
  assumes "good_list l"
  shows "stands_at l 0 0"
proof -
  have "cstr (from_cookie 0) = []" by code_simp
  then show ?thesis using assms unfolding stands_at_def good_list_def member_text_def
    by (metis bytes_less.simps(2) le0 list.exhaust nth_mem)
qed

lemma next_shows:
  assumes g: "good_list l" and d: "dir_loaded (vdirs s ! i) l" and k: "stands_at l c k" "k < length l"
  shows "vfs_readdir_next env now i maxname c s =
    (Some (shown (dir_ext s (vdirs s ! i)) (pds_dsname (vdirs s ! i)) maxname (l ! k)),
     set_dirs ((vdirs s)[i := (vdirs s ! i)\<lparr>next_cookie := to_cookie (me_name (l ! k))\<rparr>]) s)"
proof -
  let ?d = "vdirs s ! i"
  have ne: "l \<noteq> []" using k(2) by auto
  then have "bytes_less (cstr (from_cookie c)) (me_name (last l))"
    using k by (auto simp: stands_at_def last_conv_nth)
  then have nl: "\<not> (member_list ?d = [] \<or> \<not> bytes_less (cstr (from_cookie c)) (me_name (last (member_list ?d))))"
    using d ne by (simp add: dir_loaded_def)
  have "dir_openlist_search_members (map me_name l) (cstr (from_cookie c)) SEARCH_OP_GT = Some (int k)"
    using search_gt [of "map me_name l" "cstr (from_cookie c)" k] g k by (simp add: good_list_def stands_at_def)
  then show ?thesis using d nl unfolding vfs_readdir_next_def Let_def
    by (simp add: dir_loaded_def shown_def dir_ext_def)
qed

lemma next_ends:
  assumes d: "dir_loaded (vdirs s ! i) l" and k: "stands_at l c (length l)"
  shows "\<exists>s'. vfs_readdir_next env now i maxname c s = (None, s')"
proof -
  let ?d = "vdirs s ! i"
  have load: "member_list ?d = [] \<or> \<not> bytes_less (cstr (from_cookie c)) (me_name (last (member_list ?d)))"
    using d k by (cases "l = []") (auto simp: dir_loaded_def stands_at_def last_conv_nth)
  show ?thesis
  proof (cases "end_of_dir_read ?d")
    case True
    then show ?thesis using d load by (simp add: vfs_readdir_next_def Let_def dir_loaded_def)
  next
    case False
    then have "member_list (load_members env now (from_cookie c) ?d) = []"
      using d by (auto simp: dir_loaded_def load_members_def Let_def split: prod.splits)
    then show ?thesis using d load False
      by (auto simp: vfs_readdir_next_def Let_def dir_loaded_def dir_openlist_search_members_def)
  qed
qed

lemma list_rest:
  assumes "good_list l" and "dir_loaded (vdirs s ! i) l" and "stands_at l c k" and "i < length (vdirs s)" and "n = length l - k"
  shows "\<exists>s'. list_dir (Suc n) env now i maxname c s =
    (map (shown (dir_ext s (vdirs s ! i)) (pds_dsname (vdirs s ! i)) maxname) (drop k l), True, s')"
  using assms
proof (induction n arbitrary: s c k)
  case 0
  then have k: "k = length l" by (simp add: stands_at_def)
  then obtain s' where "vfs_readdir_next env now i maxname c s = (None, s')" using next_ends [of s i l c env now maxname] 0 by auto
  then show ?case by (simp add: k)
next
  case (Suc n)
  then have k: "k < length l" by linarith
  let ?c = "to_cookie (me_name (l ! k))"
  let ?s = "set_dirs ((vdirs s)[i := (vdirs s ! i)\<lparr>next_cookie := ?c\<rparr>]) s"
  have "dir_loaded (vdirs ?s ! i) l" using Suc.prems(2,4) by (simp add: dir_loaded_def)
  then obtain s' where "list_dir (Suc n) env now i maxname ?c ?s =
      (map (shown (dir_ext ?s (vdirs ?s ! i)) (pds_dsname (vdirs ?s ! i)) maxname) (drop (Suc k) l), True, s')"
    using Suc.IH [of ?s ?c "Suc k"] Suc.prems stands_next [OF Suc.prems(1) k] by fastforce
  moreover have "dir_ext ?s (vdirs ?s ! i) = dir_ext s (vdirs s ! i)" "pds_dsname (vdirs ?s ! i) = pds_dsname (vdirs s ! i)"
    using Suc.prems(4) by (simp_all add: dir_ext_def)
  ultimately have r: "list_dir (Suc n) env now i maxname ?c ?s =
      (map (shown (dir_ext s (vdirs s ! i)) (pds_dsname (vdirs s ! i)) maxname) (drop (Suc k) l), True, s')" by simp
  have "drop k l = l ! k # drop (Suc k) l" using k by (simp add: Cons_nth_drop_Suc)
  then show ?case
    using next_shows [OF Suc.prems(1,2,3) k, of env now maxname] r
    by (subst list_dir.simps) (simp add: shown_def)
qed

lemma cookie_zero: "from_cookie 0 = replicate 8 0" "cstr (from_cookie 0) = []"
  by code_simp+

text \<open>A directory just opened is read by the first call.\<close>

definition dir_fresh :: "vfs_dir \<Rightarrow> bytes list \<Rightarrow> bool" where
  "dir_fresh dir b \<longleftrightarrow> dir_level dir \<noteq> MVS_LEVEL_ROOT \<and> member_list dir = [] \<and> \<not> end_of_dir_read dir \<and> pds_fh dir = Some b"

lemma list_fresh:
  assumes i: "i < length (vdirs s)" and f: "dir_fresh (vdirs s ! i) b"
    and r: "mvs_read_pds_dir (env_tz env) now (replicate 8 0) b = (l, eod)" and g: "good_list l"
  shows "\<exists>s'. list_dir (Suc (length l)) env now i maxname 0 s =
    (map (shown (dir_ext s (vdirs s ! i)) (pds_dsname (vdirs s ! i)) maxname) l, True, s')"
proof -
  let ?d = "vdirs s ! i"
  define d1 where "d1 = load_members env now (from_cookie 0) ?d"
  have d1: "d1 = ?d\<lparr>member_list := l, end_of_dir_read := eod, pds_fh := Some []\<rparr>"
    using f r by (simp add: d1_def load_members_def cookie_zero dir_fresh_def)
  let ?s = "set_dirs ((vdirs s)[i := d1]) s"
  have load: "vfs_readdir_next env now i maxname 0 s =
      (case dir_openlist_search_members (map me_name l) [] SEARCH_OP_GT of
         None \<Rightarrow> (None, ?s)
       | Some k \<Rightarrow> (Some (shown (dir_ext s ?d) (pds_dsname ?d) maxname (l ! nat k)),
             set_dirs ((vdirs s)[i := d1\<lparr>next_cookie := to_cookie (me_name (l ! nat k))\<rparr>]) s))"
    using f unfolding vfs_readdir_next_def Let_def d1_def [symmetric]
    by (simp add: dir_fresh_def cookie_zero(2) d1 shown_def dir_ext_def split: option.splits)
  have ld: "dir_loaded (vdirs ?s ! i) l" using f i by (simp add: dir_loaded_def dir_fresh_def d1)
  have same: "dir_ext ?s (vdirs ?s ! i) = dir_ext s ?d" "pds_dsname (vdirs ?s ! i) = pds_dsname ?d"
    using i by (simp_all add: dir_ext_def d1)
  show ?thesis
  proof (cases l)
    case Nil
    then show ?thesis using load by (simp add: dir_openlist_search_members_def)
  next
    case (Cons x xs)
    have st: "stands_at l 0 0" "0 < length l" using stands_start [OF g] Cons by auto
    have "dir_openlist_search_members (map me_name l) [] SEARCH_OP_GT = Some 0"
      using search_gt [of "map me_name l" "[]" 0] g st by (auto simp: good_list_def stands_at_def cookie_zero(2))
    then have eq: "vfs_readdir_next env now i maxname 0 s = vfs_readdir_next env now i maxname 0 ?s"
      using load next_shows [OF g ld st, of env now maxname] i same by simp
    have "list_dir (Suc (length l)) env now i maxname 0 s = list_dir (Suc (length l)) env now i maxname 0 ?s"
      by (subst (1 2) list_dir.simps) (simp only: eq)
    then show ?thesis using list_rest [OF g ld st(1) _ refl, of env now maxname] i same by simp
  qed
qed

lemma find_upt_unique:
  assumes "i < n" and "P i" and "\<And>j. j < n \<Longrightarrow> P j \<Longrightarrow> j = i"
  shows "find P [0..<n] = Some i"
proof (cases "find P [0..<n]")
  case None
  then show ?thesis using find_upt_None [OF None assms(1)] assms(2) by simp
next
  case (Some j)
  then show ?thesis using find_upt_Some [OF Some] assms(3) [of j] by simp
qed

text \<open>Opening a directory that is not open.\<close>

definition opens_dir :: "mvs_env \<Rightarrow> int \<Rightarrow> bytes \<Rightarrow> pds_dataset_t \<Rightarrow> bytes list \<Rightarrow> vfs_state \<Rightarrow> bool" where
  "opens_dir env now path ds b s \<longleftrightarrow>
     (\<exists>e d. mvs_path_type (vexports s) (ebcdic_path path) = (MVS_PATH_TYPE_DATASET, e, d) \<and>
        export_dataset_get (vexports s) e d = Some ds) \<and>
     length (dsname_ebcdic ds) \<le> 44 \<and> vdirs s \<noteq> [] \<and>
     (\<forall>x \<in> set (vdirs s). \<not> (vd_used x \<and> pds_dsname x = dsname_ebcdic ds)) \<and>
     env_dirs env (dsname_ebcdic ds) = Some b"

lemma opendir_new:
  assumes "opens_dir env now path ds b s"
  obtains i dir dp where "vfs_opendir env now path s = (Inr i, set_dirs (dp[i := dir]) s)" and "i < length dp"
    and "dir_fresh dir b" and "dir_ext s dir = file_ext ds" and "pds_dsname dir = dsname_ebcdic ds"
    and "vd_used dir" and "last_used_time dir = now"
    and "\<forall>j < length dp. j \<noteq> i \<longrightarrow> \<not> (vd_used (dp ! j) \<and> pds_dsname (dp ! j) = dsname_ebcdic ds)"
proof -
  obtain e d where p: "mvs_path_type (vexports s) (ebcdic_path path) = (MVS_PATH_TYPE_DATASET, e, d)"
    "export_dataset_get (vexports s) e d = Some ds" using assms by (auto simp: opens_dir_def)
  note o = assms [unfolded opens_dir_def]
  have no: "dir_openlist_find_by_dsname now (dsname_ebcdic ds) (vdirs s) = (None, vdirs s)"
    using o by (auto simp: dir_openlist_find_by_dsname_def find_None_iff split: option.splits dest!: find_upt_Some)
  obtain i dp where f: "dir_openlist_find_free now (vdirs s) = (i, dp)" by (metis surj_pair)
  have dp: "dp = (vdirs s)[i := vfs_dir_zero\<lparr>last_used_time := now\<rparr>]"
    using f by (auto simp: dir_openlist_find_free_def Let_def dir_openlist_claim_def)
  have i: "i < length dp" using open_dirs.pick_bound [of "vdirs s" now] o f dp by auto
  define dir where "dir = (dp ! i)\<lparr>vd_used := True, dir_level := MVS_LEVEL_DATASET, vd_export := e, vd_dataset := d,
     pds_dsname := take 45 (dsname_ebcdic ds), next_cookie := 0, member_list := [], end_of_dir_read := False, pds_fh := Some b\<rparr>"
  have "vfs_opendir env now path s = (Inr i, set_dirs (dp[i := dir]) s)"
    using p no f o by (simp add: vfs_opendir_def open_new_dir_def mvs_open_pds_dir_def dir_def Let_def)
  moreover have "dir_fresh dir b" by (simp add: dir_fresh_def dir_def MVS_LEVEL_ROOT_def MVS_LEVEL_DATASET_def)
  moreover have "dir_ext s dir = file_ext ds" "pds_dsname dir = dsname_ebcdic ds" "vd_used dir" "last_used_time dir = now"
    using i p(2) o by (simp_all add: dir_ext_def dir_def dp)
  moreover have "\<forall>j < length dp. j \<noteq> i \<longrightarrow> \<not> (vd_used (dp ! j) \<and> pds_dsname (dp ! j) = dsname_ebcdic ds)"
    using o by (simp add: dp)
  ultimately show ?thesis using that i by blast
qed

text \<open>
  C10. A listing shows every member exactly once and ends. When the directory of an exported
  data set is not open yet and its blocks hold members with proper names in ascending order,
  opening it and asking for the next entry from the cookie zero on, each time with the cookie
  just returned, gives the members of the directory in order, each with its file name, its file
  id and its cookie, and ends after as many calls as there are members and one more.
\<close>
theorem listing_complete:
  assumes "opens_dir env now path ds b s"
    and "mvs_read_pds_dir (env_tz env) now (replicate 8 0) b = (l, eod)" and "good_list l"
  shows "\<exists>i s0 s'. vfs_opendir env now path s = (Inr i, s0) \<and>
    list_dir (Suc (length l)) env now i maxname 0 s0 = (map (shown (file_ext ds) (dsname_ebcdic ds) maxname) l, True, s')"
proof -
  obtain i dir dp where o: "vfs_opendir env now path s = (Inr i, set_dirs (dp[i := dir]) s)" "i < length dp"
    "dir_fresh dir b" "dir_ext s dir = file_ext ds" "pds_dsname dir = dsname_ebcdic ds"
    using opendir_new [OF assms(1)] by metis
  have "dir_ext (set_dirs (dp[i := dir]) s) dir = file_ext ds" using o(4) by (simp add: dir_ext_def)
  then show ?thesis using list_fresh [of i "set_dirs (dp[i := dir]) s" b env now l eod maxname] assms(2,3) o by auto
qed

text \<open>
  C40. A listing taken up in the middle hides members from the next one. When a directory that
  is not open is asked for the entries behind a member name, as a client does that comes back
  with a cookie after the directory was closed by a change or by time, only the members from
  that name on are read and kept as the whole directory: a listing opened right after it from
  the beginning shows these members and no others.
\<close>
theorem resumed_listing_hides:
  assumes "opens_dir env now path ds b s" and "member_text name"
    and "mvs_read_pds_dir (env_tz env) now (take 8 (name @ 0 # env_tail env)) b = (l, True)" and "good_list l"
  shows "\<exists>i s0 r s1 s2 s3. vfs_opendir env now path s = (Inr i, s0) \<and>
    vfs_readdir_next env now i maxname (to_cookie name) s0 = (r, s1) \<and>
    vfs_opendir env now path (vfs_closedir i s1) = (Inr i, s2) \<and>
    list_dir (Suc (length l)) env now i maxname 0 s2 = (map (shown (file_ext ds) (dsname_ebcdic ds) maxname) l, True, s3)"
proof -
  obtain i dir dp where o: "vfs_opendir env now path s = (Inr i, set_dirs (dp[i := dir]) s)" "i < length dp"
    "dir_fresh dir b" "dir_ext s dir = file_ext ds" "pds_dsname dir = dsname_ebcdic ds" "vd_used dir" "last_used_time dir = now"
    and others: "\<forall>j < length dp. j \<noteq> i \<longrightarrow> \<not> (vd_used (dp ! j) \<and> pds_dsname (dp ! j) = dsname_ebcdic ds)"
    using opendir_new [OF assms(1)] by metis
  let ?s0 = "set_dirs (dp[i := dir]) s"
  have rd: "load_members env now (from_cookie (to_cookie name)) dir = dir\<lparr>member_list := l, end_of_dir_read := True, pds_fh := Some []\<rparr>"
    using o(3) assms(3) by (simp add: load_members_def from_to_cookie [OF assms(2)] dir_fresh_def)
  let ?d = "dir\<lparr>member_list := l, end_of_dir_read := True, pds_fh := Some []\<rparr>"
  have nx: "vfs_readdir_next env now i maxname (to_cookie name) ?s0 =
      (case dir_openlist_search_members (map me_name l) (cstr (from_cookie (to_cookie name))) SEARCH_OP_GT of
         None \<Rightarrow> (None, set_dirs (dp[i := ?d]) s)
       | Some k \<Rightarrow> (Some (shown (dir_ext s dir) (pds_dsname dir) maxname (l ! nat k)),
             set_dirs (dp[i := ?d\<lparr>next_cookie := to_cookie (me_name (l ! nat k))\<rparr>]) s))"
    using o(2,3) unfolding vfs_readdir_next_def Let_def
    by (simp add: dir_fresh_def rd shown_def dir_ext_def split: option.splits)
  have d0: "?d = ?d\<lparr>next_cookie := next_cookie dir\<rparr>" by simp
  have "\<exists>r c. vfs_readdir_next env now i maxname (to_cookie name) ?s0 = (r, set_dirs (dp[i := ?d\<lparr>next_cookie := c\<rparr>]) s)"
  proof (cases "dir_openlist_search_members (map me_name l) (cstr (from_cookie (to_cookie name))) SEARCH_OP_GT")
    case None
    show ?thesis unfolding nx None by (intro exI [of _ None] exI [of _ "next_cookie dir"]) simp
  next
    case (Some k)
    show ?thesis unfolding nx Some option.simps prod.inject by blast
  qed
  then obtain r c where r: "vfs_readdir_next env now i maxname (to_cookie name) ?s0 = (r, set_dirs (dp[i := ?d\<lparr>next_cookie := c\<rparr>]) s)"
    by blast
  let ?e = "?d\<lparr>next_cookie := c, pds_fh := None\<rparr>"
  let ?s1 = "set_dirs (dp[i := ?d\<lparr>next_cookie := c\<rparr>]) s"
  have cl: "vfs_closedir i ?s1 = set_dirs (dp[i := ?e]) s" using o(2) by (simp add: vfs_closedir_def)
  have fi: "dir_openlist_find_by_dsname now (dsname_ebcdic ds) (dp[i := ?e]) = (Some i, dp[i := ?e\<lparr>last_used_time := now\<rparr>])"
  proof -
    have "find (\<lambda>j. vd_used (dp[i := ?e] ! j) \<and> \<not> dir_expired now (dp[i := ?e] ! j) \<and> pds_dsname (dp[i := ?e] ! j) = dsname_ebcdic ds)
        [0..<length (dp[i := ?e])] = Some i"
      using o others
      by (intro find_upt_unique) (auto simp: dir_expired_def MVSVFS_DIR_OPENLIST_TIMEOUT_SECS_def nth_list_update split: if_splits)
    then show ?thesis using o(2) by (simp add: dir_openlist_find_by_dsname_def)
  qed
  have op2: "vfs_opendir env now path (vfs_closedir i ?s1) = (Inr i, set_dirs (dp[i := ?e\<lparr>last_used_time := now\<rparr>]) s)"
    using assms(1) fi o(2) unfolding cl by (auto simp: vfs_opendir_def opens_dir_def Let_def)
  let ?s2 = "set_dirs (dp[i := ?e\<lparr>last_used_time := now\<rparr>]) s"
  have "dir_loaded (vdirs ?s2 ! i) l" using o(2,3) by (simp add: dir_loaded_def dir_fresh_def)
  then obtain s3 where "list_dir (Suc (length l)) env now i maxname 0 ?s2 =
      (map (shown (dir_ext ?s2 (vdirs ?s2 ! i)) (pds_dsname (vdirs ?s2 ! i)) maxname) (drop 0 l), True, s3)"
    using list_rest [OF assms(4) _ stands_start [OF assms(4)], of ?s2 i "length l" env now maxname] o(2) by auto
  moreover have "dir_ext ?s2 (vdirs ?s2 ! i) = file_ext ds" "pds_dsname (vdirs ?s2 ! i) = dsname_ebcdic ds"
    using o(2,4,5) by (simp_all add: dir_ext_def)
  ultimately show ?thesis using o(1) r op2 by auto
qed

section \<open>Names in the export table\<close>

text \<open>What the path functions look at. Space, times and signatures change, names do not.\<close>

type_synonym ds_id = "bytes \<times> bytes \<times> bytes \<times> bool \<times> bytes \<times> bytes"

definition ds_names :: "pds_dataset_t \<Rightarrow> ds_id" where
  "ds_names ds = (dirname_ebcdic ds, dsname_ebcdic ds, file_ext ds, ds_readonly ds, dirname_ascii ds, dsname_ascii ds)"

definition export_names :: "export_t \<Rightarrow> bytes \<times> bytes \<times> ds_id list" where
  "export_names e = (export_path_ebcdic e, export_path e, map ds_names (datasets e))"

definition same_names :: "export_t list \<Rightarrow> export_t list \<Rightarrow> bool" where
  "same_names es es' \<longleftrightarrow> map export_names es = map export_names es'"

lemma same_names_refl [simp]: "same_names es es" by (simp add: same_names_def)

lemma same_names_trans: "same_names a b \<Longrightarrow> same_names b c \<Longrightarrow> same_names a c" by (simp add: same_names_def)

lemma same_names_length: "same_names es es' \<Longrightarrow> length es' = length es"
  by (metis length_map same_names_def)

lemma nth_names:
  "map f xs = map f ys \<Longrightarrow> i < length xs \<Longrightarrow> f (ys ! i) = f (xs ! i)"
  by (metis length_map nth_map)

lemma same_names_nth: "same_names es es' \<Longrightarrow> i < length es \<Longrightarrow> export_names (es' ! i) = export_names (es ! i)"
  unfolding same_names_def by (rule nth_names)

lemma exports_get_names:
  assumes "same_names es es'"
  shows "map_option export_names (exports_get es' e) = map_option export_names (exports_get es e)"
  using same_names_length [OF assms] same_names_nth [OF assms, of "nat e"] by (auto simp: exports_get_def nat_less_iff)

lemma dataset_get_names:
  assumes "same_names es es'"
  shows "map_option ds_names (export_dataset_get es' e d) = map_option ds_names (export_dataset_get es e d)"
proof (cases "exports_get es e")
  case None
  then show ?thesis using exports_get_names [OF assms, of e] by (simp add: export_dataset_get_def)
next
  case (Some x)
  then obtain y where y: "exports_get es' e = Some y" "export_names y = export_names x"
    using exports_get_names [OF assms, of e] by auto
  then have m: "map ds_names (datasets x) = map ds_names (datasets y)" by (simp add: export_names_def)
  then have "length (datasets y) = length (datasets x)" by (metis length_map)
  then show ?thesis using nth_names [OF m, of "nat d"] by (auto simp: export_dataset_get_def Some y(1) nat_less_iff)
qed

lemma find_index_names:
  "map ds_names xs = map ds_names ys \<Longrightarrow> find_index (\<lambda>ds. dirname_ebcdic ds = n) xs = find_index (\<lambda>ds. dirname_ebcdic ds = n) ys"
proof (induction xs arbitrary: ys)
  case (Cons x xs)
  then obtain y ys' where y: "ys = y # ys'" "ds_names y = ds_names x" "map ds_names xs = map ds_names ys'"
    by (cases ys) auto
  have "dirname_ebcdic y = dirname_ebcdic x" using y(2) by (simp add: ds_names_def)
  then show ?case using Cons.IH [OF y(3)] y(1) by simp
qed simp

lemma find_dirname_names:
  assumes "same_names es es'"
  shows "export_dataset_find_by_dirname es' e n = export_dataset_find_by_dirname es e n"
proof (cases "exports_get es e")
  case None
  then show ?thesis using exports_get_names [OF assms, of e] by (simp add: export_dataset_find_by_dirname_def)
next
  case (Some x)
  then obtain y where y: "exports_get es' e = Some y" "export_names y = export_names x"
    using exports_get_names [OF assms, of e] by auto
  then have "map ds_names (datasets y) = map ds_names (datasets x)" by (simp add: export_names_def)
  from find_index_names [OF this, of n] show ?thesis by (simp add: export_dataset_find_by_dirname_def Some y(1))
qed

lemma path_type_names:
  assumes "same_names es es'"
  shows "mvs_path_type es' p = mvs_path_type es p"
proof -
  have pe: "path_in_export es' i r = path_in_export es i r" for i r
    by (simp add: path_in_export_def find_dirname_names [OF assms] Let_def)
  have "path_scan es' i ys p = path_scan es i xs p" if "map export_names xs = map export_names ys" for i xs ys
    using that
  proof (induction xs arbitrary: i ys)
    case (Cons x xs)
    then obtain y ys' where y: "ys = y # ys'" "export_names y = export_names x" "map export_names xs = map export_names ys'"
      by (cases ys) auto
    have "export_path_ebcdic y = export_path_ebcdic x" using y(2) by (simp add: export_names_def)
    then show ?case using Cons.IH [OF y(3)] y(1) by (simp add: pe Let_def)
  qed simp
  from this [of es es' 0] show ?thesis using assms by (simp add: mvs_path_type_def same_names_def)
qed

lemma get_names:
  assumes "same_names es es'"
  shows "mvs_get_pds_dsn_and_member es' p e = mvs_get_pds_dsn_and_member es p e"
proof -
  obtain k a d where t: "mvs_path_type es p = (k, a, d)" by (metis prod_cases3)
  note g = dataset_get_names [OF assms, of e d]
  show ?thesis
  proof (cases "export_dataset_get es e d")
    case None
    then have "export_dataset_get es' e d = None" using g by simp
    then show ?thesis using None by (simp add: mvs_get_pds_dsn_and_member_def path_type_names [OF assms] t)
  next
    case (Some ds)
    then obtain ds' where ds': "export_dataset_get es' e d = Some ds'" "ds_names ds' = ds_names ds" using g by auto
    then have n: "dsname_ebcdic ds' = dsname_ebcdic ds" "file_ext ds' = file_ext ds" by (simp_all add: ds_names_def)
    show ?thesis
      by (cases "after_last ch_slash p")
        (simp_all add: mvs_get_pds_dsn_and_member_def path_type_names [OF assms] t Some ds'(1) n Let_def split: option.split)
  qed
qed

lemma dataset_set_names:
  assumes "export_dataset_get es e d = Some ds" and "ds_names ds' = ds_names ds"
  shows "same_names es (export_dataset_set e d ds' es)"
proof -
  let ?e = "es ! nat e"
  have i: "nat e < length es" "nat d < length (datasets ?e)" "datasets ?e ! nat d = ds"
    using assms(1) by (auto simp: export_dataset_get_def exports_get_def split: if_splits)
  have "map ds_names ((datasets ?e)[nat d := ds']) = map ds_names (datasets ?e)"
    using i assms(2) by (metis list_update_id map_update)
  then have "export_names (?e\<lparr>datasets := (datasets ?e)[nat d := ds']\<rparr>) = export_names ?e"
    by (simp add: export_names_def)
  then show ?thesis unfolding same_names_def export_dataset_set_def using i(1) by (metis list_update_id map_update)
qed

lemma touch_names: "same_names es (export_dataset_touch t e d es)"
proof (cases "export_dataset_get es e d")
  case None
  then show ?thesis by (simp add: export_dataset_touch_def)
next
  case (Some ds)
  have "export_dataset_touch t e d es = export_dataset_set e d (ds\<lparr>dir_mtime := t\<rparr>) es"
    by (simp add: export_dataset_touch_def Some export_dataset_set_def)
  then show ?thesis using dataset_set_names [OF Some, of "ds\<lparr>dir_mtime := t\<rparr>"] by (simp add: ds_names_def)
qed

section \<open>The write-back layer keeps the names\<close>

lemma guarded_exports: "pdsflush_write_member_guarded now i s = (r, ab, s') \<Longrightarrow> pexports s' = pexports s"
  by (auto simp: pdsflush_write_member_guarded_def Let_def split: prod.splits flush_out.splits if_splits)

lemma flush_names: "same_names (pexports s) (pexports (snd (pdsflush_slot env now i s)))"
proof -
  obtain full tab where f: "pdsflush_dataset_is_full (pm_dsname (pool s ! i)) now (g_pww_full s) = (full, tab)" by (metis surj_pair)
  obtain r ab s1 where g: "pdsflush_write_member_guarded now i (s\<lparr>g_pww_full := tab\<rparr>) = (r, ab, s1)" by (metis prod_cases3)
  have "pexports s1 = pexports s" using guarded_exports [OF g] by simp
  then show ?thesis
    by (simp add: pdsflush_slot_def f g Let_def clean_slot_def apply_stats_guarded_keeps touch_names split: sum.splits prod.splits)
qed

lemma release_exports: "pexports (pww_slot_release i s) = pexports s"
  by (auto simp: pww_slot_release_def pww_unlock_def pww_unalloc_guarded_def pww_deq_guarded_def sys_call_def enq_del_def Let_def
      split: prod.splits sys_out.splits)

lemma new_names:
  assumes "pww_slot_new env now e d dsn m s = (r, s')"
  shows "same_names (pexports s) (pexports s')"
proof -
  obtain i s1 where t: "pww_slot_take env now s = (i, s1)" by (metis surj_pair)
  have s1: "same_names (pexports s) (pexports s1)"
    using t flush_names [of s env now] by (auto simp: pww_slot_take_def Let_def release_exports split: option.splits if_splits)
  obtain q s3 where l: "pww_lock env i (put_slot i (pww_slot_init now e d dsn m (pexports s1)) s1) = (q, s3)" by (metis surj_pair)
  have "pexports s3 = pexports s1"
    using l by (auto simp: pww_lock_def sys_call_def enq_add_def enq_del_def Let_def split: prod.splits if_splits)
  then show ?thesis using assms t l s1 by (auto simp: pww_slot_new_def release_exports split: option.splits)
qed

lemma vtoc_read_names: "blkc_vtoc_read v ds = Some ds' \<Longrightarrow> ds_names ds' = ds_names ds"
  by (auto simp: blkc_vtoc_read_def Let_def ds_names_def split: prod.splits if_splits)

lemma admit_names:
  assumes "slot_admit env i dat off s = (r, s')"
  shows "same_names (pexports s) (pexports s')"
  using assms dataset_set_names vtoc_read_names
  by (auto simp: slot_admit_def blkcalc_admit_write_def Let_def split: prod.splits option.splits if_splits)

lemma write_names:
  assumes "pww_write env now e d dsn m dat off s = (r, s')"
  shows "same_names (pexports s) (pexports s')"
proof -
  obtain r0 s0 where c: "pww_check_dataset_space now dsn s = (r0, s0)" by (metis surj_pair)
  have s0: "pexports s0 = pexports s" using c by (auto simp: pww_check_dataset_space_def split: prod.splits)
  obtain q s1 where n: "pww_slot_new env now e d dsn m s0 = (q, s1)" by (metis surj_pair)
  define wr where "wr i t = (case slot_admit env i dat off t of (Some err, s2) \<Rightarrow> (Some err, s2)
        | (None, s2) \<Rightarrow> (case slot_store env i dat off s2 of (Some err, s3) \<Rightarrow> (Some err, s3)
            | (None, s3) \<Rightarrow> (None, slot_set_dirty now i s3)))" for i t
  have rest: "same_names (pexports t) (pexports (snd (wr i t)))" for i t
  proof -
    obtain ra s2 where a: "slot_admit env i dat off t = (ra, s2)" by (metis surj_pair)
    obtain rb s3 where b: "slot_store env i dat off s2 = (rb, s3)" by (metis surj_pair)
    have "pexports s3 = pexports s2" using b by (auto simp: slot_store_def split: prod.splits)
    then show ?thesis using admit_names [OF a] by (cases ra; cases rb) (simp_all add: wr_def a b slot_set_dirty_def)
  qed
  have n1: "same_names (pexports s) (pexports s1)" using new_names [OF n] s0 by simp
  have "pww_write env now e d dsn m dat off s = (case pww_check_member_cap off (of_nat (length dat)) of Some err \<Rightarrow> (Some err, s)
      | None \<Rightarrow> (case r0 of Some err \<Rightarrow> (Some err, s0)
      | None \<Rightarrow> (case pww_slot_find dsn m s0 of Some i \<Rightarrow> wr i s0
      | None \<Rightarrow> if off \<noteq> 0 then (Some EIO, s0) else (case q of Inl err \<Rightarrow> (Some err, s1) | Inr i \<Rightarrow> wr i s1))))"
    unfolding pww_write_def wr_def [symmetric] Let_def c n
    by (cases "pww_check_member_cap off (of_nat (length dat))"; cases r0; cases "pww_slot_find dsn m s0"; cases q) (simp_all add: n split: if_splits)
  then have "s' = s \<or> s' = s0 \<or> s' = s1 \<or> (\<exists>i. s' = snd (wr i s0)) \<or> (\<exists>i. s' = snd (wr i s1))"
    using assms by (auto simp: prod_eq_iff split: option.splits if_splits sum.splits)
  then show ?thesis using rest [of s0] rest [of s1] n1 s0 same_names_trans [OF n1] by auto
qed

section \<open>Reading what was written\<close>

lemma target_names:
  assumes "member_target es ep e d = Inr (dsn, m)"
  shows "mvs_get_pds_dsn_and_member es ep e = (None, dsn, m)"
  using assms by (auto simp: member_target_def split: option.splits prod.splits)

text \<open>Reading a range that lies in a pending member.\<close>

lemma pread_pending:
  assumes t: "mvs_path_type (vexports s) (ebcdic_path path) = (MVS_PATH_TYPE_PDS_MEMBER, e, d)"
    and g: "mvs_get_pds_dsn_and_member (vexports s) (ebcdic_path path) e = (None, dsn, m)"
    and f: "pww_slot_find dsn m (pw s) = Some i" and wf: "pm_wf (pool (pw s) ! i)" and io: "spill_io (pw s) = []"
    and r: "unat off + n \<le> length (pm_content (pool (pw s) ! i))" "n \<noteq> 0" "unat off + n < 2 ^ 32"
  shows "\<exists>eof s'. vfs_pread env now path (of_nat n) off s = (Inr (mem_slice (pm_content (pool (pw s) ! i)) (unat off) n, eof), s')"
proof -
  let ?pm = "pool (pw s) ! i" and ?o = "ucast off :: u32" and ?n = "of_nat n :: u32"
  have h: "length (pm_content ?pm) = unat (high_water ?pm)" using pm_wf_length [OF wf] by simp
  have u: "unat ?o = unat off" "unat ?n = n" using r(3) by (auto simp: unsigned_ucast_eq take_bit_nat_eq_self unat_of_nat)
  have "\<not> ucast (high_water ?pm) \<le> off" using r h by (simp add: word_le_nat_alt unat_up)
  moreover have "unat (high_water ?pm - ?o) = unat (high_water ?pm) - unat off" using r h u by (simp add: unat_sub_u32)
  then have "(if ?n < high_water ?pm - ?o then ?n else high_water ?pm - ?o) = ?n"
    using r h u by (auto simp: word_less_nat_alt word_unat_eq_iff)
  moreover obtain pm' where "pww_read_range ?pm ?o ?n [] = (Some (mem_slice (pm_content ?pm) (unat off) n), pm', [])"
    using read_range_content [OF wf, of ?o ?n] r h u by (metis)
  ultimately show ?thesis using t g f io by (auto simp: vfs_pread_def Let_def)
qed

text \<open>The bytes at an offset of the member a path names, as long as they are pending.\<close>

definition pending_at :: "vfs_state \<Rightarrow> bytes \<Rightarrow> u64 \<Rightarrow> bytes \<Rightarrow> bool" where
  "pending_at s path off data \<longleftrightarrow>
     (\<exists>e d dsn m i. mvs_path_type (vexports s) (ebcdic_path path) = (MVS_PATH_TYPE_PDS_MEMBER, e, d) \<and>
        mvs_get_pds_dsn_and_member (vexports s) (ebcdic_path path) e = (None, dsn, m) \<and>
        pww_slot_find dsn m (pw s) = Some i \<and> pm_wf (pool (pw s) ! i) \<and> spill_io (pw s) = [] \<and>
        unat off + length data \<le> length (pm_content (pool (pw s) ! i)) \<and> unat off + length data < 2 ^ 32 \<and>
        mem_slice (pm_content (pool (pw s) ! i)) (unat off) (length data) = data)"

lemma pread_pending_at:
  assumes "pending_at s path off data" and "data \<noteq> []"
  shows "\<exists>eof s2. vfs_pread env now path (of_nat (length data)) off s = (Inr (data, eof), s2)"
  using assms pread_pending [of s path _ _ _ _ _ off "length data" env now] unfolding pending_at_def
  by (metis length_0_conv)

text \<open>
  What an accepted write leaves: in a state of the pool where nothing fails and no data set is
  known to be full, the data are pending at their offset.
\<close>

lemma pwrite_pending:
  assumes "pool_inv (pw s)" and "quiet now (pw s)" and "\<forall>pm \<in> set (pool (pw s)). used pm \<longrightarrow> pm_wf pm"
    and "mvs_get_pds_dsn_and_member (vexports s) (ebcdic_path path) e = (None, dsn, m)"
    and "mvs_path_type (vexports s) (ebcdic_path path) = (MVS_PATH_TYPE_PDS_MEMBER, e, d)"
    and "key_ok (dsn, m)" and "unat off + length data < 2 ^ 32" and "write_gap_ok (pw s) (dsn, m) off"
    and "vfs_pwrite env now path data off s = (None, s1)"
  shows "pending_at s1 path off data \<and> pool_inv (pw s1) \<and> quiet now (pw s1)"
proof -
  obtain p1 where w: "pww_write env now e d dsn m data off (pw s) = (None, p1)" and s1: "s1 = s\<lparr>pw := p1\<rparr>"
    using assms(4,5,9) by (cases "pww_write env now e d dsn m data off (pw s)")
      (auto simp: vfs_pwrite_def member_target_def lift_pw_def split: option.splits prod.splits)
  obtain i where r: "ready_slot now (pw s) i p1 (dsn, m) (splice (pending_bytes (pw s) (dsn, m)) (unat off) data)"
    using write_ok [OF assms(1,2,3,6,7,8) w] by blast
  have i: "i < length (pool p1)" "pool_inv p1" "quiet now p1" "used (pool p1 ! i)" "slot_key (pool p1 ! i) = (dsn, m)"
    "pm_wf (pool p1 ! i)" and c: "pm_content (pool p1 ! i) = splice (pending_bytes (pw s) (dsn, m)) (unat off) data"
    using r by (auto simp: ready_slot_def)
  have f: "pww_slot_find dsn m p1 = Some i"
    using inv_find [OF i(2)] i(1,4,5) pool_8 [OF i(2)] by (auto simp: slot_key_def)
  have n: "same_names (vexports s) (vexports s1)" using write_names [OF w] by (simp add: vexports_def s1)
  have "mvs_path_type (vexports s1) (ebcdic_path path) = (MVS_PATH_TYPE_PDS_MEMBER, e, d)"
    "mvs_get_pds_dsn_and_member (vexports s1) (ebcdic_path path) e = (None, dsn, m)"
    using assms(4,5) path_type_names [OF n] get_names [OF n] by simp_all
  moreover have "unat off + length data \<le> length (pm_content (pool p1 ! i))" by (simp add: c length_splice)
  ultimately have "pending_at s1 path off data"
    using f i assms(7) unfolding pending_at_def
    by (intro exI [of _ e] exI [of _ d] exI [of _ dsn] exI [of _ m] exI [of _ i]) (simp add: s1 c slice_of_splice quiet_def)
  then show ?thesis using i by (simp add: s1)
qed

section \<open>Witnesses\<close>

text \<open>The data set \<^verbatim>\<open>A\<close> exported at the root; the path \<^verbatim>\<open>/A/B\<close> is its member \<^verbatim>\<open>B\<close>.\<close>

definition sample_vfs :: "bool \<Rightarrow> vfs_state" where
  "sample_vfs ro = \<lparr>pw = pool_start\<lparr>pexports := [hd admit_exports\<lparr>datasets := [admit_dataset\<lparr>ds_readonly := ro\<rparr>]\<rparr>],
       dir_pool := [vfs_dir_zero]\<rparr>, fsz = mvsfsz_init, rcache = mvs_rcache_init, g_dir_epoch = 0, stack_word = 0\<rparr>"

definition member_b :: bytes where "member_b = [0x2F, 0x41, 0x2F, 0x42]"
definition dir_a :: bytes where "dir_a = [0x2F, 0x41]"

lemma sample_paths:
  "mvs_path_type (vexports (sample_vfs ro)) (ebcdic_path member_b) = (MVS_PATH_TYPE_PDS_MEMBER, 0, 0)"
  "mvs_get_pds_dsn_and_member (vexports (sample_vfs ro)) (ebcdic_path member_b) 0 = (None, [0xC1], [0xC2])"
  "mvs_path_type (vexports (sample_vfs ro)) (ebcdic_path dir_a) = (MVS_PATH_TYPE_DATASET, 0, 0)"
  "export_dataset_get (vexports (sample_vfs ro)) 0 0 = Some (admit_dataset\<lparr>ds_readonly := ro\<rparr>)"
  by code_simp+

theorem readonly_unchanged_witness:
  "vfs_pwrite flush_env 100 member_b [0x41] 0 (sample_vfs True) = (Some EROFS, sample_vfs True) \<and>
   vfs_remove flush_env 100 member_b (sample_vfs True) = (Some EROFS, sample_vfs True)"
  using readonly_unchanged [OF sample_paths(1,4), of True flush_env 100 "[0x41]" 0] by simp

text \<open>A directory block with the members \<^verbatim>\<open>A\<close> and \<^verbatim>\<open>B\<close>.\<close>

definition two_members :: bytes where
  "two_members = be16_bytes 38 @ raw_bytes sample_raw @ raw_bytes (sample_raw\<lparr>raw_name := pad_name 8 [0xC2]\<rparr>) @
     MVS_PDSDIR_ENDMARK @ replicate 222 0"

definition dir_env :: mvs_env where "dir_env = flush_env\<lparr>env_dirs := \<lambda>_. Some [two_members]\<rparr>"

lemma read_two:
  "map me_name (fst (mvs_read_pds_dir 0 100 (replicate 8 0) [two_members])) = [[0xC1], [0xC2]] \<and>
   snd (mvs_read_pds_dir 0 100 (replicate 8 0) [two_members])"
  "map me_name (fst (mvs_read_pds_dir 0 100 [0xC2, 0] [two_members])) = [[0xC2]] \<and>
   snd (mvs_read_pds_dir 0 100 [0xC2, 0] [two_members])"
  by code_simp+

lemma good_names:
  "good_list l \<longleftrightarrow> names_ascend (map me_name l) \<and> list_all member_text (map me_name l)"
  by (simp add: good_list_def list_all_iff)

lemma sample_opens: "opens_dir dir_env 100 dir_a admit_dataset [two_members] (sample_vfs False)"
  unfolding opens_dir_def using sample_paths(3,4) [of False]
  by (simp add: vdirs_def sample_vfs_def vfs_dir_zero_def admit_dataset_def dir_env_def)

theorem listing_complete_witness:
  "\<exists>i s0 l s'. vfs_opendir dir_env 100 dir_a (sample_vfs False) = (Inr i, s0) \<and>
     list_dir 3 dir_env 100 i 255 0 s0 = (l, True, s') \<and> map fst l = [[0x61], [0x62]]"
proof -
  obtain l where l: "mvs_read_pds_dir 0 100 (replicate 8 0) [two_members] = (l, True)" "map me_name l = [[0xC1], [0xC2]]"
    using read_two(1) by (metis prod.collapse)
  have "good_list l" unfolding good_names l(2) by (simp add: names_ascend_def member_text_def ch_space_def)
  moreover have "length l = 2" using l(2) by (metis length_map length_Cons list.size(3) numeral_2_eq_2)
  moreover have "generate_file_name [] [0xC1] 255 = [0x61]" "generate_file_name [] [0xC2] 255 = [0x62]" by code_simp+
  then have "map fst (map (shown (file_ext admit_dataset) (dsname_ebcdic admit_dataset) 255) l) = [[0x61], [0x62]]"
    using l(2) by (auto simp: shown_def admit_dataset_def)
  ultimately show ?thesis
    using listing_complete [OF sample_opens, of l True 255] l(1) by (auto simp: dir_env_def flush_env_def numeral_3_eq_3)
qed

theorem resumed_listing_hides_witness:
  "\<exists>i s0 r s1 s2 l s3. vfs_opendir dir_env 100 dir_a (sample_vfs False) = (Inr i, s0) \<and>
     vfs_readdir_next dir_env 100 i 255 (to_cookie [0xC2]) s0 = (r, s1) \<and>
     vfs_opendir dir_env 100 dir_a (vfs_closedir i s1) = (Inr i, s2) \<and>
     list_dir 2 dir_env 100 i 255 0 s2 = (l, True, s3) \<and> map fst l = [[0x62]]"
proof -
  obtain l where l: "mvs_read_pds_dir 0 100 [0xC2, 0] [two_members] = (l, True)" "map me_name l = [[0xC2]]"
    using read_two(2) by (metis prod.collapse)
  have "good_list l" unfolding good_names l(2) by (simp add: names_ascend_def member_text_def ch_space_def)
  moreover have "length l = 1" using l(2) by (metis length_map length_Cons list.size(3) One_nat_def)
  moreover have "generate_file_name [] [0xC2] 255 = [0x62]" by code_simp
  then have "map fst (map (shown (file_ext admit_dataset) (dsname_ebcdic admit_dataset) 255) l) = [[0x62]]"
    using l(2) by (auto simp: shown_def admit_dataset_def)
  moreover have "member_text [0xC2]" by (simp add: member_text_def ch_space_def)
  ultimately show ?thesis
    using resumed_listing_hides [OF sample_opens, of "[0xC2]" l 255] l(1) by (auto simp: dir_env_def flush_env_def numeral_2_eq_2)
qed

definition start_vfs :: vfs_state where "start_vfs = (sample_vfs False)\<lparr>pw := pool_start\<rparr>"

lemma start_paths:
  "mvs_get_pds_dsn_and_member (vexports start_vfs) (ebcdic_path member_b) 0 = (None, [0xC1], [0xC2])"
  "mvs_path_type (vexports start_vfs) (ebcdic_path member_b) = (MVS_PATH_TYPE_PDS_MEMBER, 0, 0)"
  "member_target (vexports start_vfs) (ebcdic_path member_b) 0 0 = Inr ([0xC1], [0xC2])"
  by code_simp+

lemma start_pwrite:
  "\<exists>s1. vfs_pwrite flush_env 100 member_b [0x41, 0x0A] 0 start_vfs = (None, s1)"
  using start_write start_paths by (auto simp: vfs_pwrite_def lift_pw_def start_vfs_def)

end
