(* ===== verification/Mount3.thy ===== *)
theory Mount3
  imports Portmap Vfsprop
begin

text \<open>
  The mount protocol, \<^verbatim>\<open>src/src/mount3.c\<close>: a client gives the path of an export and gets the
  handle of its root, or asks for the list of exports. Nothing is remembered about mounts. The
  handler reads the path into a buffer on the stack, whose first contents are a parameter.
\<close>

section \<open>The handler\<close>

definition MOUNTPROC3_NULL :: u32 where "MOUNTPROC3_NULL = 0"
definition MOUNTPROC3_MNT :: u32 where "MOUNTPROC3_MNT = 1"
definition MOUNTPROC3_DUMP :: u32 where "MOUNTPROC3_DUMP = 2"
definition MOUNTPROC3_UMNT :: u32 where "MOUNTPROC3_UMNT = 3"
definition MOUNTPROC3_UMNTALL :: u32 where "MOUNTPROC3_UMNTALL = 4"
definition MOUNTPROC3_EXPORT :: u32 where "MOUNTPROC3_EXPORT = 5"

definition MNT3_OK :: u32 where "MNT3_OK = 0"
definition MNT3ERR_NOENT :: u32 where "MNT3ERR_NOENT = 2"
definition MNT3ERR_IO :: u32 where "MNT3ERR_IO = 5"
definition MNT3ERR_NOTDIR :: u32 where "MNT3ERR_NOTDIR = 20"
definition MNT3ERR_INVAL :: u32 where "MNT3ERR_INVAL = 22"

lemmas mount_procs = MOUNTPROC3_NULL_def MOUNTPROC3_MNT_def MOUNTPROC3_DUMP_def MOUNTPROC3_UMNT_def
  MOUNTPROC3_UMNTALL_def MOUNTPROC3_EXPORT_def

text \<open>The answer to a mount request for a path, behind the header.\<close>

definition mount_path :: "mvs_env \<Rightarrow> int \<Rightarrow> bytes \<Rightarrow> xdr_t \<Rightarrow> vfs_state \<Rightarrow> xdr_t \<times> vfs_state" where
  "mount_path env now dirpath out s =
     (case exports_find_by_nfs_path (vexports s) dirpath of
        None \<Rightarrow> (xdr_write_uint32 MNT3ERR_NOENT out, s)
      | Some i \<Rightarrow>
          let path = export_path (vexports s ! i) in
          case vfs_stat env now path s of
            (Inl _, s1) \<Rightarrow> (xdr_write_uint32 MNT3ERR_IO out, s1)
          | (Inr st, s1) \<Rightarrow>
              if st_ftype st \<noteq> NF3DIR then (xdr_write_uint32 MNT3ERR_NOTDIR out, s1)
              else case fh_from_path (vexports s1) path of
                None \<Rightarrow> (xdr_write_uint32 MNT3ERR_IO out, s1)
              | Some fh \<Rightarrow>
                  (xdr_write_uint32 AUTH_FLAVOR_UNIX (xdr_write_uint32 1
                     (xdr_write_fhandle fh (xdr_write_uint32 MNT3_OK out))), s1))"

definition write_export :: "export_t \<Rightarrow> xdr_t \<Rightarrow> xdr_t" where
  "write_export e out =
     xdr_write_uint32 0 (xdr_write_string (export_path e) (of_nat (length (export_path e))) (xdr_write_uint32 1 out))"

definition handle_mount ::
  "mvs_env \<Rightarrow> int \<Rightarrow> bytes \<Rightarrow> rpc_call_t \<Rightarrow> xdr_t \<Rightarrow> xdr_t \<Rightarrow> vfs_state \<Rightarrow> xdr_t \<times> xdr_t \<times> vfs_state" where
  "handle_mount env now junk call inp out s =
     (if call_vers call \<noteq> VERS_MOUNT
      then (inp, rpc_write_prog_mismatch (call_xid call) VERS_MOUNT VERS_MOUNT out, s)
      else
        let hdr = rpc_write_accept_hdr (call_xid call) RPC_SUCCESS out; p = call_proc call in
        if p = MOUNTPROC3_NULL then (inp, hdr, s)
        else if p = MOUNTPROC3_MNT then
          (let ((r, buf), i1) = xdr_read_string inp junk (of_nat MAX_PATH) in
           if r < 0 \<or> xerr i1 then (i1, xdr_write_uint32 MNT3ERR_INVAL hdr, s)
           else let (o1, s1) = mount_path env now (cstr buf) hdr s in (i1, o1, s1))
        else if p = MOUNTPROC3_DUMP then (inp, xdr_write_uint32 0 hdr, s)
        else if p = MOUNTPROC3_UMNT then (snd (xdr_read_string inp junk (of_nat MAX_PATH)), hdr, s)
        else if p = MOUNTPROC3_UMNTALL then (inp, hdr, s)
        else if p = MOUNTPROC3_EXPORT then (inp, xdr_write_uint32 0 (fold write_export (vexports s) hdr), s)
        else (inp, rpc_write_proc_unavail (call_xid call) out, s))"

section \<open>Properties\<close>

text \<open>Export \<open>i\<close> is the one its own path, its own name and its own identifier select.\<close>

definition root_selected :: "export_t list \<Rightarrow> nat \<Rightarrow> bool" where
  "root_selected es i \<longleftrightarrow> i < length es \<and> export_shape (es ! i) \<and> list_all name_char (export_path_ebcdic (es ! i)) \<and>
     (\<forall>j < i. \<not> claims (es ! j) (export_path_ebcdic (es ! i)) \<and> export_path (es ! j) \<noteq> export_path (es ! i) \<and>
        fh_export_id (es ! j) \<noteq> fh_export_id (es ! i))"

definition root_fh :: "export_t \<Rightarrow> our_fhandle_t" where
  "root_fh e = \<lparr>fh_magic = OUR_FH_MAGIC, fh_export = fh_export_id e, fh_dsname = [], fh_member = []\<rparr>"

lemma name_char_zero: "\<not> name_char 0"
  by code_simp

lemma find_index_first:
  assumes "i < length xs" and "P (xs ! i)" and "\<forall>j < i. \<not> P (xs ! j)"
  shows "find_index P xs = Some i"
  using assms by (simp add: find_index_Some)

lemma root_facts:
  assumes "root_selected es i"
  shows "exports_find_by_nfs_path es (export_path (es ! i)) = Some i"
    and "mvs_path_type es (ebcdic_path (export_path (es ! i))) = (MVS_PATH_TYPE_ROOT, int i, -1)"
    and "fh_from_path es (export_path (es ! i)) = Some (root_fh (es ! i))"
    and "fh_resolve es (root_fh (es ! i)) 256 = Some (export_path (es ! i))"
proof -
  let ?e = "es ! i" let ?p = "export_path_ebcdic ?e"
  have i: "i < length es" and sh: "length ?p \<le> 255" "export_path ?e = ebcdic_to_ascii ?p" and nc: "list_all name_char ?p"
    using assms by (simp_all add: root_selected_def export_shape_def)
  show f: "exports_find_by_nfs_path es (export_path ?e) = Some i"
    unfolding exports_find_by_nfs_path_def using assms i by (intro find_index_first) (auto simp: root_selected_def)
  have b: "take 255 (ascii_to_ebcdic (export_path ?e)) = ?p" using ascii_path_back [OF nc sh(1)] sh(2) by (simp add: MAX_PATH_def)
  have t: "mvs_path_type es ?p = (MVS_PATH_TYPE_ROOT, int i, -1)"
    using assms by (intro mvs_path_type_root [OF i]) (simp add: root_selected_def)
  then show "mvs_path_type es (ebcdic_path (export_path ?e)) = (MVS_PATH_TYPE_ROOT, int i, -1)"
    using b by (simp add: ebcdic_path_def MAX_PATH_LEN_def)
  show "fh_from_path es (export_path ?e) = Some (root_fh ?e)"
    using b t i by (simp add: fh_from_path_def MAX_PATH_def Let_def exports_get_def root_fh_def)
  have "fh_find_export es (fh_export_id ?e) = Some i"
    unfolding fh_find_export_def using assms i by (intro find_index_first) (auto simp: root_selected_def)
  then show "fh_resolve es (root_fh ?e) 256 = Some (export_path ?e)"
    using sh by (simp add: fh_resolve_def root_fh_def Let_def strncpyz_def)
qed

lemma mount_path_root:
  assumes "root_selected (vexports s) i"
  shows "\<exists>s'. vexports s' = vexports s \<and> (\<forall>out. mount_path env now (export_path (vexports s ! i)) out s =
    (xdr_write_uint32 AUTH_FLAVOR_UNIX (xdr_write_uint32 1
       (xdr_write_fhandle (root_fh (vexports s ! i)) (xdr_write_uint32 MNT3_OK out))), s'))"
proof -
  have i: "i < length (vexports s)" using assms by (simp add: root_selected_def)
  obtain st s' where st: "vfs_stat env now (export_path (vexports s ! i)) s = (Inr st, s')" "st_ftype st = NF3DIR" "vexports s' = vexports s"
    using i root_facts(2) [OF assms]
    by (auto simp: vfs_stat_def vfs_stat_root_def exports_get_def vfs_dir_epoch_def stat_of_def Let_def vexports_def)
  then show ?thesis using root_facts [OF assms] by (simp add: mount_path_def Let_def)
qed

text \<open>A path that fits the buffer is read as it was sent.\<close>

lemma mount_reads_path:
  assumes "xdr_wf inp" and "\<not> xerr inp" and "xdr_view inp = opaque_bytes path @ rest" and "length junk = MAX_PATH"
    and "length path < MAX_PATH" and "0 \<notin> set path" and "call_vers call = VERS_MOUNT" and "call_proc call = MOUNTPROC3_MNT"
  shows "handle_mount env now junk call inp out s =
    (let (o1, s1) = mount_path env now path (rpc_write_accept_hdr (call_xid call) RPC_SUCCESS out) s
     in (xdr_advance (length (opaque_bytes path)) inp, o1, s1))"
proof -
  have "xdr_read_string inp junk (of_nat MAX_PATH) =
      ((int (length path), mem_store (mem_store junk 0 path) (length path) [0]), xdr_advance (length (opaque_bytes path)) inp)"
    using assms(4,5,6) by (intro xdr_read_string_decodes [OF assms(1-3)]) (simp_all add: MAX_PATH_def)
  moreover have "cstr (mem_store (mem_store junk 0 path) (length path) [0]) = path"
    using assms(4,5,6) by (intro cstr_of_string_buffer) (simp_all add: MAX_PATH_def)
  moreover have "\<not> xerr (xdr_advance (length (opaque_bytes path)) inp)" using assms(2) by (simp add: xdr_advance_def)
  ultimately show ?thesis using assms(7,8) by (simp add: handle_mount_def mount_procs)
qed

text \<open>
  C19. Mounting an export gives its root, and nothing else can be mounted. For an export that
  its own path selects, the reply to a mount request for that path is the accepted header,
  success, a handle and the one authentication flavour, and the handle on the wire decodes to
  one that resolves to the path asked for. A path that no export has is refused: the reply is
  the accepted header and the status for a missing file, and nothing changes.
\<close>
theorem mount_gives_root:
  assumes "xdr_wf inp" and "\<not> xerr inp" and "xdr_view inp = opaque_bytes path @ rest" and "length junk = MAX_PATH"
    and "length path < MAX_PATH" and "0 \<notin> set path" and "call_vers call = VERS_MOUNT" and "call_proc call = MOUNTPROC3_MNT"
  shows "(root_selected (vexports s) i \<and> path = export_path (vexports s ! i) \<longrightarrow>
      (\<exists>fh inp' out' s'. handle_mount env now junk call inp out s = (inp', out', s') \<and>
        emits out (reply_hdr_bytes (call_xid call) RPC_SUCCESS @ be32_bytes MNT3_OK @ opaque_bytes (fh_encode fh) @
          be32_bytes 1 @ be32_bytes AUTH_FLAVOR_UNIX) out' \<and>
        fh_decode (fh_encode fh) OUR_FHSIZE = Some fh \<and> fh_resolve (vexports s') fh 256 = Some path)) \<and>
    (path \<notin> export_path ` set (vexports s) \<longrightarrow>
      (\<exists>inp' out'. handle_mount env now junk call inp out s = (inp', out', s) \<and>
        emits out (reply_hdr_bytes (call_xid call) RPC_SUCCESS @ be32_bytes MNT3ERR_NOENT) out'))"
proof (intro conjI impI)
  note r = mount_reads_path [OF assms, of env now out s]
  assume a: "root_selected (vexports s) i \<and> path = export_path (vexports s ! i)"
  let ?e = "vexports s ! i"
  obtain s' where s': "vexports s' = vexports s" "\<And>out. mount_path env now path out s =
    (xdr_write_uint32 AUTH_FLAVOR_UNIX (xdr_write_uint32 1 (xdr_write_fhandle (root_fh ?e) (xdr_write_uint32 MNT3_OK out))), s')"
    using mount_path_root [of s i env now] a by metis
  then have h: "handle_mount env now junk call inp out s = (xdr_advance (length (opaque_bytes path)) inp,
      xdr_write_uint32 AUTH_FLAVOR_UNIX (xdr_write_uint32 1 (xdr_write_fhandle (root_fh ?e)
        (xdr_write_uint32 MNT3_OK (rpc_write_accept_hdr (call_xid call) RPC_SUCCESS out)))), s')"
    using r by simp
  have "emits out ((((([] @ reply_hdr_bytes (call_xid call) RPC_SUCCESS) @ be32_bytes MNT3_OK) @ opaque_bytes (fh_encode (root_fh ?e))) @
      be32_bytes 1) @ be32_bytes AUTH_FLAVOR_UNIX) (fst (snd (handle_mount env now junk call inp out s)))"
    unfolding h fst_conv snd_conv by (intro emit_intros)
  moreover have "fh_decode (fh_encode (root_fh ?e)) OUR_FHSIZE = Some (root_fh ?e)"
    using fh_wire_back [of "root_fh ?e"] by (simp add: root_fh_def OUR_FHSIZE_def)
  ultimately show "\<exists>fh inp' out' s'. handle_mount env now junk call inp out s = (inp', out', s') \<and>
        emits out (reply_hdr_bytes (call_xid call) RPC_SUCCESS @ be32_bytes MNT3_OK @ opaque_bytes (fh_encode fh) @
          be32_bytes 1 @ be32_bytes AUTH_FLAVOR_UNIX) out' \<and>
        fh_decode (fh_encode fh) OUR_FHSIZE = Some fh \<and> fh_resolve (vexports s') fh 256 = Some path"
    using h s'(1) root_facts(4) [of "vexports s" i] a by (intro exI [of _ "root_fh ?e"]) simp
next
  note r = mount_reads_path [OF assms, of env now out s]
  assume "path \<notin> export_path ` set (vexports s)"
  then have "exports_find_by_nfs_path (vexports s) path = None"
    by (auto simp: exports_find_by_nfs_path_def find_index_None)
  then have h: "handle_mount env now junk call inp out s = (xdr_advance (length (opaque_bytes path)) inp,
      xdr_write_uint32 MNT3ERR_NOENT (rpc_write_accept_hdr (call_xid call) RPC_SUCCESS out), s)"
    using r by (simp add: mount_path_def)
  have "emits out (([] @ reply_hdr_bytes (call_xid call) RPC_SUCCESS) @ be32_bytes MNT3ERR_NOENT)
      (xdr_write_uint32 MNT3ERR_NOENT (rpc_write_accept_hdr (call_xid call) RPC_SUCCESS out))"
    by (intro emit_intros)
  then show "\<exists>inp' out'. handle_mount env now junk call inp out s = (inp', out', s) \<and>
        emits out (reply_hdr_bytes (call_xid call) RPC_SUCCESS @ be32_bytes MNT3ERR_NOENT) out'"
    using h by simp
qed

text \<open>The list of exports: for each a mark, its path and an empty list of groups, then the end.\<close>

definition export_item :: "export_t \<Rightarrow> bytes" where
  "export_item e = be32_bytes 1 @ opaque_bytes (export_path e) @ be32_bytes 0"

lemma emits_exports:
  assumes "\<forall>e \<in> set es. length (export_path e) \<le> 255"
  shows "emits x (concat (map export_item es)) (fold write_export es x)"
  using assms
proof (induction es arbitrary: x)
  case Nil
  then show ?case by (simp add: emits_Nil)
next
  case (Cons e es)
  have "emits x ((([] @ be32_bytes 1) @ opaque_bytes (export_path e)) @ be32_bytes 0) (write_export e x)"
    unfolding write_export_def using Cons.prems by (intro emit_intros) (simp_all add: unat_of_nat BUF_SIZE_def)
  moreover have "emits (write_export e x) (concat (map export_item es)) (fold write_export es (write_export e x))"
    using Cons by simp
  ultimately have "emits x (((([] @ be32_bytes 1) @ opaque_bytes (export_path e)) @ be32_bytes 0) @ concat (map export_item es))
      (fold write_export es (write_export e x))" by (rule emits_trans)
  then show ?case by (simp add: export_item_def [of e])
qed

lemma export_list_reply:
  assumes "\<forall>e \<in> set (vexports s). length (export_path e) \<le> 255"
    and "call_vers call = VERS_MOUNT" and "call_proc call = MOUNTPROC3_EXPORT"
  shows "emits out (reply_hdr_bytes (call_xid call) RPC_SUCCESS @ concat (map export_item (vexports s)) @ be32_bytes 0)
    (fst (snd (handle_mount env now junk call inp out s)))"
proof -
  have "emits out ((([] @ reply_hdr_bytes (call_xid call) RPC_SUCCESS) @ concat (map export_item (vexports s))) @ be32_bytes 0)
      (xdr_write_uint32 0 (fold write_export (vexports s) (rpc_write_accept_hdr (call_xid call) RPC_SUCCESS out)))"
    by (intro emits_u32 emits_trans [OF _ emits_exports [OF assms(1)]] emits_hdr emits_Nil)
  then show ?thesis using assms(2,3) by (simp add: handle_mount_def mount_procs)
qed

lemma mount_path_accepted:
  "accepted xid st out o1 \<Longrightarrow> accepted xid st out (fst (mount_path env now p o1 s))"
  by (auto simp: mount_path_def Let_def split: option.split prod.split sum.split intro: reply_intros)

lemma mount_replies:
  assumes "\<forall>e \<in> set (vexports s). length (export_path e) \<le> 255"
  shows "\<exists>st. accepted (call_xid call) st out (fst (snd (handle_mount env now junk call inp out s)))"
proof (cases "call_vers call = VERS_MOUNT \<and> call_proc call = MOUNTPROC3_EXPORT")
  case True
  have "accepted (call_xid call) RPC_SUCCESS out
      (xdr_write_uint32 0 (fold write_export (vexports s) (rpc_write_accept_hdr (call_xid call) RPC_SUCCESS out)))"
    by (rule accepted_u32, rule accepted_emits [OF accepted_hdr emits_exports [OF assms]])
  then show ?thesis using True by (auto simp: handle_mount_def mount_procs)
next
  case False
  then show ?thesis
    by (auto simp: handle_mount_def Let_def split_def intro: reply_intros mount_path_accepted)
qed

definition mount_vfs :: vfs_state where
  "mount_vfs = (sample_vfs False)\<lparr>pw := pool_start\<lparr>pexports := sample_exports\<rparr>\<rparr>"

lemma mount_vfs_root: "root_selected (vexports mount_vfs) 0" "export_path (vexports mount_vfs ! 0) = [0x2F, 0x58]"
proof -
  have v: "vexports mount_vfs = sample_exports" by (simp add: mount_vfs_def vexports_def)
  show "root_selected (vexports mount_vfs) 0"
    using sample_selected by (simp add: root_selected_def v ds_selected_def export_names_ok_def)
  show "export_path (vexports mount_vfs ! 0) = [0x2F, 0x58]" unfolding v by code_simp
qed

definition mount_call :: rpc_call_t where
  "mount_call = \<lparr>call_xid = 9, call_prog = PROG_MOUNT, call_vers = VERS_MOUNT, call_proc = MOUNTPROC3_MNT, auth_uid = 0, auth_gid = 0\<rparr>"

text \<open>Of \<^verbatim>\<open>/X\<close> and \<^verbatim>\<open>/Y\<close> the first is exported.\<close>

theorem mount_gives_root_witness:
  "(\<exists>fh inp' out' s'. handle_mount flush_env 100 (replicate 256 0) mount_call
      (xdr_init_read (opaque_bytes [0x2F, 0x58]) 8) (xdr_init_write (replicate 256 0) 256) mount_vfs = (inp', out', s') \<and>
    fh_resolve (vexports s') fh 256 = Some [0x2F, 0x58] \<and>
    emits (xdr_init_write (replicate 256 0) 256) (reply_hdr_bytes 9 RPC_SUCCESS @ be32_bytes MNT3_OK @ opaque_bytes (fh_encode fh) @
      be32_bytes 1 @ be32_bytes AUTH_FLAVOR_UNIX) out') \<and>
   (\<exists>inp' out'. handle_mount flush_env 100 (replicate 256 0) mount_call
      (xdr_init_read (opaque_bytes [0x2F, 0x59]) 8) (xdr_init_write (replicate 256 0) 256) mount_vfs = (inp', out', mount_vfs) \<and>
    emits (xdr_init_write (replicate 256 0) 256) (reply_hdr_bytes 9 RPC_SUCCESS @ be32_bytes MNT3ERR_NOENT) out')"
proof -
  have i: "xdr_wf (xdr_init_read (opaque_bytes [0x2F, b]) 8)" "\<not> xerr (xdr_init_read (opaque_bytes [0x2F, b]) 8)"
    "xdr_view (xdr_init_read (opaque_bytes [0x2F, b]) 8) = opaque_bytes [0x2F, b] @ []" for b
    by (simp_all add: xdr_init_read_def xdr_wf_def BUF_SIZE_def xdr_view_def mem_slice_def opaque_bytes_def)
  have p: "length (replicate 256 (0 :: u8)) = MAX_PATH" "length [0x2F, b :: u8] < MAX_PATH" "call_vers mount_call = VERS_MOUNT"
    "call_proc mount_call = MOUNTPROC3_MNT" "call_xid mount_call = 9" for b
    by (simp_all add: MAX_PATH_def mount_call_def)
  have "vexports mount_vfs = sample_exports" by (simp add: mount_vfs_def vexports_def)
  moreover have "map export_path sample_exports = [[0x2F, 0x58]]" by code_simp
  ultimately have e: "set (map export_path (vexports mount_vfs)) = {[0x2F, 0x58]}" by simp
  then have y: "[0x2F, 0x59] \<notin> export_path ` set (vexports mount_vfs)" unfolding set_map by simp
  show ?thesis
    using conjunct1 [OF mount_gives_root [OF i p(1,2) _ p(3,4)], of "0x58" mount_vfs 0 flush_env 100 "xdr_init_write (replicate 256 0) 256"]
      conjunct2 [OF mount_gives_root [OF i p(1,2) _ p(3,4)], of "0x59" mount_vfs flush_env 100 "xdr_init_write (replicate 256 0) 256"] y mount_vfs_root p(5)
    by auto
qed

end
