(* ===== verification/Nfs3.thy ===== *)
theory Nfs3
  imports Mount3
begin

text \<open>
  The NFS version 3 procedures, \<^verbatim>\<open>src/src/nfs3.c\<close>: the wire forms of attributes, the checks of
  names and access, and one handler per procedure. A handler reads its arguments from the input
  buffer, writes the header of an accepted call, and works on the file-system interface; it gives
  both buffers and the state back. \<^verbatim>\<open>errno\<close> after a failing call is the error that call returns, a
  successful call leaves it. Buffers on the stack that a failed read leaves as they were have
  their first contents in the environment. The listing loops run on fuel, nothing being the
  result when it runs out. Procedure names, tracing and performance counters are left out.
\<close>

section \<open>State\<close>

definition MAX_READ_SIZE :: u32 where "MAX_READ_SIZE = 64 * 1024"
definition MAX_WRITE_SIZE :: u32 where "MAX_WRITE_SIZE = 64 * 1024"
definition NFS3_FHSIZE :: nat where "NFS3_FHSIZE = 64"
definition NFS3ERR_SERVERFAULT :: u32 where "NFS3ERR_SERVERFAULT = 10006"

text \<open>What a call finds: the system, the time, two name buffers and the fuel of the listing loops.\<close>

record nfs_env =
  n_mvs :: mvs_env
  n_now :: int
  n_name :: bytes
  n_name2 :: bytes
  n_fuel :: nat

record nfs_state =
  nv :: vfs_state
  g_write_buf :: bytes
  g_write_verifier :: bytes

section \<open>Attributes on the wire\<close>

definition xdr_write_fattr3 :: "vfs_stat_t \<Rightarrow> xdr_t \<Rightarrow> xdr_t" where
  "xdr_write_fattr3 st x =
     (let x1 = xdr_write_uint32 (st_ftype st) x;
          x2 = xdr_write_uint32 (st_mode st) x1;
          x3 = xdr_write_uint32 (st_nlink st) x2;
          x4 = xdr_write_uint32 (st_uid st) x3;
          x5 = xdr_write_uint32 (st_gid st) x4;
          x6 = xdr_write_uint64 (st_size st) x5;
          x7 = xdr_write_uint64 (st_used st) x6;
          x8 = xdr_write_uint32 (st_rdev_maj st) x7;
          x9 = xdr_write_uint32 (st_rdev_min st) x8;
          x10 = xdr_write_uint64 (st_fsid st) x9;
          x11 = xdr_write_uint64 (st_fileid st) x10;
          x12 = xdr_write_uint32 (atime_nsec st) (xdr_write_uint32 (atime_sec st) x11);
          x13 = xdr_write_uint32 (mtime_nsec st) (xdr_write_uint32 (mtime_sec st) x12)
      in xdr_write_uint32 (ctime_nsec st) (xdr_write_uint32 (ctime_sec st) x13))"

text \<open>Attributes that are not there are \<open>None\<close>: a null pointer or a false flag in the source.\<close>

definition xdr_write_post_op_attr :: "vfs_stat_t option \<Rightarrow> xdr_t \<Rightarrow> xdr_t" where
  "xdr_write_post_op_attr st x =
     (case st of Some a \<Rightarrow> xdr_write_fattr3 a (xdr_write_uint32 1 x) | None \<Rightarrow> xdr_write_uint32 0 x)"

definition xdr_write_wcc_data :: "vfs_stat_t option \<Rightarrow> vfs_stat_t option \<Rightarrow> xdr_t \<Rightarrow> xdr_t" where
  "xdr_write_wcc_data pre post x =
     xdr_write_post_op_attr post
       (case pre of
          Some a \<Rightarrow>
            xdr_write_uint32 (ctime_nsec a) (xdr_write_uint32 (ctime_sec a)
              (xdr_write_uint32 (mtime_nsec a) (xdr_write_uint32 (mtime_sec a)
                (xdr_write_uint64 (st_size a) (xdr_write_uint32 1 x)))))
        | None \<Rightarrow> xdr_write_uint32 0 x)"

definition xdr_read_fhandle3 :: "xdr_t \<Rightarrow> our_fhandle_t option \<times> xdr_t" where
  "xdr_read_fhandle3 x =
     (let ((b, len), x1) = xdr_read_opaque x (replicate NFS3_FHSIZE 0) 0 (of_nat NFS3_FHSIZE)
      in if xerr x1 \<or> len \<noteq> OUR_FHSIZE then (None, x1) else (fh_decode b len, x1))"

record sattr3_t =
  has_mode :: u32
  sa_mode :: u32
  has_uid :: u32
  sa_uid :: u32
  has_gid :: u32
  sa_gid :: u32
  has_size :: u32
  sa_size :: u64
  set_atime :: u32
  sa_atime_sec :: u32
  sa_atime_nsec :: u32
  set_mtime :: u32
  sa_mtime_sec :: u32
  sa_mtime_nsec :: u32

definition sattr3_zero :: sattr3_t where
  "sattr3_zero = \<lparr>has_mode = 0, sa_mode = 0, has_uid = 0, sa_uid = 0, has_gid = 0, sa_gid = 0, has_size = 0, sa_size = 0,
     set_atime = 0, sa_atime_sec = 0, sa_atime_nsec = 0, set_mtime = 0, sa_mtime_sec = 0, sa_mtime_nsec = 0\<rparr>"

text \<open>A flag and, when it is set, a word; a flag and, when it says so, a time.\<close>

definition read_opt32 :: "xdr_t \<Rightarrow> (u32 \<times> u32) \<times> xdr_t" where
  "read_opt32 x =
     (let (c, x1) = xdr_read_uint32 x in
      if c \<noteq> 0 then (let (v, x2) = xdr_read_uint32 x1 in ((c, v), x2)) else ((c, 0), x1))"

definition read_opt_time :: "xdr_t \<Rightarrow> (u32 \<times> u32 \<times> u32) \<times> xdr_t" where
  "read_opt_time x =
     (let (c, x1) = xdr_read_uint32 x in
      if c = SET_TO_CLIENT_TIME
      then (let (sec, x2) = xdr_read_uint32 x1; (ns, x3) = xdr_read_uint32 x2 in ((c, sec, ns), x3))
      else ((c, 0, 0), x1))"

definition xdr_read_sattr3 :: "xdr_t \<Rightarrow> sattr3_t \<times> xdr_t" where
  "xdr_read_sattr3 x =
     (let ((hm, m), x1) = read_opt32 x;
          ((hu, u), x2) = read_opt32 x1;
          ((hg, g), x3) = read_opt32 x2;
          (hs, x4) = xdr_read_uint32 x3;
          (sz, x5) = (if hs \<noteq> 0 then xdr_read_uint64 x4 else (0, x4));
          ((ta, asec, ans), x6) = read_opt_time x5;
          ((tm, msec, mns), x7) = read_opt_time x6
      in (\<lparr>has_mode = hm, sa_mode = m, has_uid = hu, sa_uid = u, has_gid = hg, sa_gid = g, has_size = hs, sa_size = sz,
           set_atime = ta, sa_atime_sec = asec, sa_atime_nsec = ans,
           set_mtime = tm, sa_mtime_sec = msec, sa_mtime_nsec = mns\<rparr>, x7))"

section \<open>Names and access\<close>

definition name_is_valid :: "bytes \<Rightarrow> bool" where
  "name_is_valid name =
     (let x = ascii_to_ebcdic name in
      x \<noteq> [] \<and> x \<noteq> [ch_dot] \<and> x \<noteq> [ch_dot, ch_dot] \<and> ch_slash \<notin> set x)"

definition ACCESS3_READ :: u32 where "ACCESS3_READ = 0x01"
definition ACCESS3_LOOKUP :: u32 where "ACCESS3_LOOKUP = 0x02"
definition ACCESS3_MODIFY :: u32 where "ACCESS3_MODIFY = 0x04"
definition ACCESS3_EXTEND :: u32 where "ACCESS3_EXTEND = 0x08"
definition ACCESS3_DELETE :: u32 where "ACCESS3_DELETE = 0x10"
definition ACCESS3_EXECUTE :: u32 where "ACCESS3_EXECUTE = 0x20"

lemmas access_bits = ACCESS3_READ_def ACCESS3_LOOKUP_def ACCESS3_MODIFY_def ACCESS3_EXTEND_def
  ACCESS3_DELETE_def ACCESS3_EXECUTE_def

definition check_access :: "vfs_stat_t \<Rightarrow> u32 \<Rightarrow> u32 \<Rightarrow> u32 \<Rightarrow> u32" where
  "check_access st uid gid requested =
     (let mode = st_mode st;
          granted =
            (if uid = 0 then
               (ACCESS3_READ OR ACCESS3_LOOKUP OR ACCESS3_MODIFY OR ACCESS3_EXTEND OR ACCESS3_DELETE) OR
               (if mode AND 0x49 \<noteq> 0 then ACCESS3_EXECUTE else 0)
             else
               let m = (if uid = st_uid st then drop_bit 6 mode
                        else if gid = st_gid st then drop_bit 3 mode else mode)
               in (if m AND 4 \<noteq> 0 then ACCESS3_READ OR ACCESS3_LOOKUP else 0) OR
                  (if m AND 2 \<noteq> 0 then ACCESS3_MODIFY OR ACCESS3_EXTEND OR ACCESS3_DELETE else 0) OR
                  (if m AND 1 \<noteq> 0 then ACCESS3_EXECUTE else 0));
          granted1 = (if fs_readonly st \<noteq> 0
                      then granted AND NOT (ACCESS3_MODIFY OR ACCESS3_EXTEND OR ACCESS3_DELETE) else granted)
      in granted1 AND requested)"

section \<open>Handlers\<close>

type_synonym reply = "xdr_t \<times> xdr_t \<times> nfs_state"

definition stat_opt :: "nfs_env \<Rightarrow> bytes \<Rightarrow> vfs_state \<Rightarrow> vfs_stat_t option \<times> vfs_state" where
  "stat_opt env path s =
     (case vfs_stat (n_mvs env) (n_now env) path s of (Inl _, s1) \<Rightarrow> (None, s1) | (Inr st, s1) \<Rightarrow> (Some st, s1))"

definition resolve :: "nfs_state \<Rightarrow> our_fhandle_t \<Rightarrow> bytes option" where
  "resolve s fh = fh_resolve (vexports (nv s)) fh (of_nat MAX_PATH)"

definition join_path :: "bytes \<Rightarrow> bytes \<Rightarrow> bytes" where
  "join_path dir name = strncpyz MAX_PATH (dir @ [ebcdic_to_ascii_c ch_slash] @ name)"

definition errno_status :: "errno_t option \<Rightarrow> u32" where
  "errno_status r = (case r of None \<Rightarrow> NFS3_OK | Some e \<Rightarrow> vfs_errno_to_nfs3 e)"

definition reply_ok_hdr :: "u32 \<Rightarrow> xdr_t \<Rightarrow> xdr_t" where
  "reply_ok_hdr xid out = rpc_write_accept_hdr xid RPC_SUCCESS out"

definition proc_null :: "u32 \<Rightarrow> xdr_t \<Rightarrow> xdr_t" where
  "proc_null xid out = reply_ok_hdr xid out"

definition proc_getattr :: "nfs_env \<Rightarrow> u32 \<Rightarrow> xdr_t \<Rightarrow> xdr_t \<Rightarrow> nfs_state \<Rightarrow> reply" where
  "proc_getattr env xid inp out s =
     (let (ofh, i1) = xdr_read_fhandle3 inp; h = reply_ok_hdr xid out in
      case ofh of
        None \<Rightarrow> (i1, xdr_write_uint32 NFS3ERR_BADHANDLE h, s)
      | Some fh \<Rightarrow>
          (case resolve s fh of
             None \<Rightarrow> (i1, xdr_write_uint32 NFS3ERR_STALE h, s)
           | Some path \<Rightarrow>
               (case vfs_stat (n_mvs env) (n_now env) path (nv s) of
                  (Inl e, v1) \<Rightarrow> (i1, xdr_write_uint32 (vfs_errno_to_nfs3 e) h, s\<lparr>nv := v1\<rparr>)
                | (Inr st, v1) \<Rightarrow> (i1, xdr_write_fattr3 st (xdr_write_uint32 NFS3_OK h), s\<lparr>nv := v1\<rparr>))))"

definition proc_setattr :: "nfs_env \<Rightarrow> u32 \<Rightarrow> xdr_t \<Rightarrow> xdr_t \<Rightarrow> nfs_state \<Rightarrow> reply" where
  "proc_setattr env xid inp out s =
     (let (ofh, i1) = xdr_read_fhandle3 inp;
          (a, i2) = xdr_read_sattr3 i1;
          (guard, i3) = xdr_read_uint32 i2;
          i4 = (if guard \<noteq> 0 then xdr_skip i3 8 else i3);
          h = reply_ok_hdr xid out
      in case ofh of
        None \<Rightarrow> (i4, xdr_write_wcc_data None None (xdr_write_uint32 NFS3ERR_BADHANDLE h), s)
      | Some fh \<Rightarrow>
          (case resolve s fh of
             None \<Rightarrow> (i4, xdr_write_wcc_data None None (xdr_write_uint32 NFS3ERR_STALE h), s)
           | Some path \<Rightarrow>
               let (pre, v1) = stat_opt env path (nv s);
                   (r1, v2) = (if has_size a \<noteq> 0 then vfs_truncate (n_mvs env) (n_now env) path (sa_size a) v1 else (None, v1));
                   st1 = errno_status r1;
                   (st2, v3) =
                     (if st1 = NFS3_OK \<and> (set_atime a \<noteq> SET_DONT_CHANGE \<or> set_mtime a \<noteq> SET_DONT_CHANGE)
                      then (let (r2, v) = vfs_set_times (n_mvs env) (n_now env) path (set_atime a) (sa_atime_sec a)
                                            (set_mtime a) (sa_mtime_sec a) v2
                            in (errno_status r2, v))
                      else (st1, v2));
                   (post, v4) = stat_opt env path v3
               in (i4, xdr_write_wcc_data pre post (xdr_write_uint32 st2 h), s\<lparr>nv := v4\<rparr>)))"

definition proc_lookup :: "nfs_env \<Rightarrow> u32 \<Rightarrow> xdr_t \<Rightarrow> xdr_t \<Rightarrow> nfs_state \<Rightarrow> reply" where
  "proc_lookup env xid inp out s =
     (let (ofh, i1) = xdr_read_fhandle3 inp;
          ((_, buf), i2) = xdr_read_string i1 (n_name env) (of_nat MAX_NAME);
          name = cstr buf;
          h = reply_ok_hdr xid out;
          fail = (\<lambda>st. (i2, xdr_write_post_op_attr None (xdr_write_uint32 st h), s))
      in if ofh = None \<or> xerr i2 then fail NFS3ERR_BADHANDLE
         else if \<not> name_is_valid name then fail NFS3ERR_INVAL
         else case resolve s (the ofh) of
           None \<Rightarrow> fail NFS3ERR_STALE
         | Some dir \<Rightarrow>
             let obj = join_path dir name;
                 (dst, v1) = stat_opt env dir (nv s)
             in (case vfs_stat (n_mvs env) (n_now env) obj v1 of
                   (Inl e, v2) \<Rightarrow> (i2, xdr_write_post_op_attr dst (xdr_write_uint32 (vfs_errno_to_nfs3 e) h), s\<lparr>nv := v2\<rparr>)
                 | (Inr ost, v2) \<Rightarrow>
                     (case fh_from_path (vexports v2) obj of
                        None \<Rightarrow> (i2, xdr_write_post_op_attr dst (xdr_write_uint32 NFS3ERR_SERVERFAULT h), s\<lparr>nv := v2\<rparr>)
                      | Some ofh \<Rightarrow>
                          (i2, xdr_write_post_op_attr dst (xdr_write_post_op_attr (Some ost)
                                 (xdr_write_fhandle ofh (xdr_write_uint32 NFS3_OK h))), s\<lparr>nv := v2\<rparr>))))"

definition proc_access :: "nfs_env \<Rightarrow> u32 \<Rightarrow> u32 \<Rightarrow> u32 \<Rightarrow> xdr_t \<Rightarrow> xdr_t \<Rightarrow> nfs_state \<Rightarrow> reply" where
  "proc_access env xid uid gid inp out s =
     (let (ofh, i1) = xdr_read_fhandle3 inp;
          (requested, i2) = xdr_read_uint32 i1;
          h = reply_ok_hdr xid out;
          fail = (\<lambda>st. (i2, xdr_write_uint32 0 (xdr_write_post_op_attr None (xdr_write_uint32 st h)), s))
      in case ofh of
        None \<Rightarrow> fail NFS3ERR_BADHANDLE
      | Some fh \<Rightarrow>
          (case resolve s fh of
             None \<Rightarrow> fail NFS3ERR_STALE
           | Some path \<Rightarrow>
               let (st, v1) = stat_opt env path (nv s);
                   granted = (case st of None \<Rightarrow> 0 | Some a \<Rightarrow> check_access a uid gid requested)
               in (i2, xdr_write_uint32 granted (xdr_write_post_op_attr st (xdr_write_uint32 NFS3_OK h)), s\<lparr>nv := v1\<rparr>)))"

definition proc_read :: "nfs_env \<Rightarrow> u32 \<Rightarrow> xdr_t \<Rightarrow> xdr_t \<Rightarrow> nfs_state \<Rightarrow> reply" where
  "proc_read env xid inp out s =
     (let (ofh, i1) = xdr_read_fhandle3 inp;
          (offset, i2) = xdr_read_uint64 i1;
          (count0, i3) = xdr_read_uint32 i2;
          h = reply_ok_hdr xid out;
          fail = (\<lambda>st. (i3, xdr_write_post_op_attr None (xdr_write_uint32 st h), s))
      in case ofh of
        None \<Rightarrow> fail NFS3ERR_BADHANDLE
      | Some fh \<Rightarrow>
          (case resolve s fh of
             None \<Rightarrow> fail NFS3ERR_STALE
           | Some path \<Rightarrow>
               let count = (if MAX_READ_SIZE < count0 then MAX_READ_SIZE else count0);
                   (st, v1) = stat_opt env path (nv s)
               in (case vfs_pread (n_mvs env) (n_now env) path count offset v1 of
                     (Inl e, v2) \<Rightarrow> (i3, xdr_write_post_op_attr st (xdr_write_uint32 (vfs_errno_to_nfs3 e) h), s\<lparr>nv := v2\<rparr>)
                   | (Inr (b, eof), v2) \<Rightarrow>
                       let nread = of_nat (length b) in
                       (i3, xdr_write_opaque b nread (xdr_write_uint32 (if eof then 1 else 0) (xdr_write_uint32 nread
                              (xdr_write_post_op_attr st (xdr_write_uint32 NFS3_OK h)))), s\<lparr>nv := v2\<rparr>))))"

definition UNSTABLE :: u32 where "UNSTABLE = 0"

definition proc_write :: "nfs_env \<Rightarrow> u32 \<Rightarrow> xdr_t \<Rightarrow> xdr_t \<Rightarrow> nfs_state \<Rightarrow> reply" where
  "proc_write env xid inp out s0 =
     (let (ofh, i1) = xdr_read_fhandle3 inp;
          (offset, i2) = xdr_read_uint64 i1;
          (count0, i3) = xdr_read_uint32 i2;
          (stable, i4) = xdr_read_uint32 i3;
          ((wbuf, data_len), i5) = xdr_read_opaque i4 (g_write_buf s0) 0 MAX_WRITE_SIZE;
          s = s0\<lparr>g_write_buf := wbuf\<rparr>;
          h = reply_ok_hdr xid out
      in case ofh of
        None \<Rightarrow> (i5, xdr_write_wcc_data None None (xdr_write_uint32 NFS3ERR_BADHANDLE h), s)
      | Some fh \<Rightarrow>
          (case resolve s fh of
             None \<Rightarrow> (i5, xdr_write_wcc_data None None (xdr_write_uint32 NFS3ERR_STALE h), s)
           | Some path \<Rightarrow>
               let (pre, v1) = stat_opt env path (nv s);
                   count = (if data_len < count0 then data_len else count0);
                   (r, v2) = vfs_pwrite (n_mvs env) (n_now env) path (take (unat count) wbuf) offset v1;
                   (post, v3) = stat_opt env path v2;
                   committed = (if r = None then stable else UNSTABLE);
                   o1 = xdr_write_wcc_data pre post (xdr_write_uint32 (errno_status r) h)
               in (i5, if errno_status r = NFS3_OK
                       then xdr_write_raw (g_write_verifier s) 8 (xdr_write_uint32 committed (xdr_write_uint32 count o1))
                       else o1, s\<lparr>nv := v3\<rparr>)))"

definition CREATE_UNCHECKED :: u32 where "CREATE_UNCHECKED = 0"
definition CREATE_GUARDED :: u32 where "CREATE_GUARDED = 1"
definition CREATE_EXCLUSIVE :: u32 where "CREATE_EXCLUSIVE = 2"

text \<open>The reply to a failed creation: a status, no handle, no attributes and the directory's data.\<close>

definition create_failed :: "u32 \<Rightarrow> vfs_stat_t option \<Rightarrow> vfs_stat_t option \<Rightarrow> xdr_t \<Rightarrow> xdr_t" where
  "create_failed st pre post h =
     xdr_write_wcc_data pre post (xdr_write_post_op_attr None (xdr_write_uint32 0 (xdr_write_uint32 st h)))"

definition proc_create :: "nfs_env \<Rightarrow> u32 \<Rightarrow> xdr_t \<Rightarrow> xdr_t \<Rightarrow> nfs_state \<Rightarrow> reply" where
  "proc_create env xid inp out s =
     (let (ofh, i1) = xdr_read_fhandle3 inp;
          ((_, buf), i2) = xdr_read_string i1 (n_name env) (of_nat MAX_NAME);
          name = cstr buf;
          (createmode, i3) = xdr_read_uint32 i2;
          (a, i4) = (if createmode = CREATE_UNCHECKED \<or> createmode = CREATE_GUARDED
                     then xdr_read_sattr3 i3 else (sattr3_zero, xdr_skip i3 8));
          h = reply_ok_hdr xid out
      in if ofh = None \<or> xerr i4 then (i4, create_failed NFS3ERR_BADHANDLE None None h, s)
         else if \<not> name_is_valid name then (i4, create_failed NFS3ERR_INVAL None None h, s)
         else case resolve s (the ofh) of
           None \<Rightarrow> (i4, create_failed NFS3ERR_STALE None None h, s)
         | Some dir \<Rightarrow>
             let obj = join_path dir name;
                 (pre, v1) = stat_opt env dir (nv s);
                 (found, v2) = (if createmode = CREATE_GUARDED \<or> createmode = CREATE_EXCLUSIVE
                                then stat_opt env obj v1 else (None, v1))
             in if found \<noteq> None then
                  (let (post, v3) = stat_opt env dir v2 in (i4, create_failed NFS3ERR_EXIST pre post h, s\<lparr>nv := v3\<rparr>))
                else
                  let m = (if has_mode a \<noteq> 0 then sa_mode a else 0x1A4);
                      (r, v3) = vfs_create (n_mvs env) (n_now env) obj m v2;
                      (post, v4) = stat_opt env dir v3
                  in if errno_status r \<noteq> NFS3_OK
                     then (i4, create_failed (errno_status r) pre post h, s\<lparr>nv := v4\<rparr>)
                     else
                       let (ost, v5) = stat_opt env obj v4;
                           ofh' = (if ost = None then None else fh_from_path (vexports v5) obj);
                           ost' = (if ofh' = None then None else ost);
                           o1 = xdr_write_uint32 NFS3_OK h;
                           o2 = (case ofh' of Some f \<Rightarrow> xdr_write_fhandle f (xdr_write_uint32 1 o1)
                                 | None \<Rightarrow> xdr_write_uint32 0 o1)
                       in (i4, xdr_write_wcc_data pre post (xdr_write_post_op_attr ost' o2), s\<lparr>nv := v5\<rparr>))"

definition proc_remove :: "nfs_env \<Rightarrow> u32 \<Rightarrow> xdr_t \<Rightarrow> xdr_t \<Rightarrow> nfs_state \<Rightarrow> reply" where
  "proc_remove env xid inp out s =
     (let (ofh, i1) = xdr_read_fhandle3 inp;
          ((_, buf), i2) = xdr_read_string i1 (n_name env) (of_nat MAX_NAME);
          name = cstr buf;
          h = reply_ok_hdr xid out;
          fail = (\<lambda>st. (i2, xdr_write_wcc_data None None (xdr_write_uint32 st h), s))
      in if ofh = None then fail NFS3ERR_BADHANDLE
         else if \<not> name_is_valid name then fail NFS3ERR_INVAL
         else case resolve s (the ofh) of
           None \<Rightarrow> fail NFS3ERR_STALE
         | Some dir \<Rightarrow>
             let obj = join_path dir name;
                 (pre, v1) = stat_opt env dir (nv s);
                 (r, v2) = vfs_remove (n_mvs env) (n_now env) obj v1;
                 (post, v3) = stat_opt env dir v2
             in (i2, xdr_write_wcc_data pre post (xdr_write_uint32 (errno_status r) h), s\<lparr>nv := v3\<rparr>))"

text \<open>The loop of READDIR: whether the end was reached, the buffer and the state.\<close>

fun readdir_loop ::
  "nat \<Rightarrow> nfs_env \<Rightarrow> nat \<Rightarrow> u32 \<Rightarrow> u32 \<Rightarrow> u64 \<Rightarrow> bool \<Rightarrow> xdr_t \<Rightarrow> vfs_state \<Rightarrow> (bool \<times> xdr_t \<times> vfs_state) option" where
  "readdir_loop 0 env dp maxcount start ecookie wrote_one out v = None"
| "readdir_loop (Suc n) env dp maxcount start ecookie wrote_one out v =
     (case vfs_readdir_next (n_mvs env) (n_now env) dp MAX_NAME ecookie v of
        (None, v1) \<Rightarrow> Some (True, out, v1)
      | (Some (ename, fid, c), v1) \<Rightarrow>
          let name_len = of_nat (length ename) :: u32;
              entry_sz = 4 + 8 + 4 + ((name_len + 3) AND NOT 3) + 8;
              before = xdr_get_pos out
          in if maxcount < (before - start) + entry_sz + 8 \<and> wrote_one then Some (False, out, v1)
             else readdir_loop n env dp maxcount start c True
                    (xdr_write_uint64 c (xdr_write_string ename name_len
                       (xdr_write_uint64 fid (xdr_write_uint32 1 out)))) v1)"

text \<open>What both listings write behind the entries.\<close>

definition end_listing :: "nat \<Rightarrow> bool \<times> xdr_t \<times> vfs_state \<Rightarrow> xdr_t \<times> vfs_state" where
  "end_listing dp r =
     (case r of (eof, out, v) \<Rightarrow>
        (xdr_write_uint32 (if eof then 1 else 0) (xdr_write_uint32 0 out), vfs_closedir dp v))"

text \<open>What both listings write before the entries.\<close>

definition start_listing :: "vfs_stat_t option \<Rightarrow> xdr_t \<Rightarrow> xdr_t" where
  "start_listing dst h = xdr_write_raw (replicate 8 0) 8 (xdr_write_post_op_attr dst (xdr_write_uint32 NFS3_OK h))"

definition proc_readdir :: "nfs_env \<Rightarrow> u32 \<Rightarrow> xdr_t \<Rightarrow> xdr_t \<Rightarrow> nfs_state \<Rightarrow> reply option" where
  "proc_readdir env xid inp out s =
     (let (ofh, i1) = xdr_read_fhandle3 inp;
          (cookie, i2) = xdr_read_uint64 i1;
          i3 = xdr_skip i2 8;
          (maxcount, i4) = xdr_read_uint32 i3;
          h = reply_ok_hdr xid out;
          fail = (\<lambda>st. Some (i4, xdr_write_post_op_attr None (xdr_write_uint32 st h), s))
      in case ofh of
        None \<Rightarrow> fail NFS3ERR_BADHANDLE
      | Some fh \<Rightarrow>
          (case resolve s fh of
             None \<Rightarrow> fail NFS3ERR_STALE
           | Some dir \<Rightarrow>
               let (dst, v1) = stat_opt env dir (nv s) in
               (case vfs_opendir (n_mvs env) (n_now env) dir v1 of
                  (Inl e, v2) \<Rightarrow> Some (i4, xdr_write_post_op_attr dst (xdr_write_uint32 (vfs_errno_to_nfs3 e) h), s\<lparr>nv := v2\<rparr>)
                | (Inr dp, v2) \<Rightarrow>
                    map_option (\<lambda>r. let (o1, v3) = end_listing dp r in (i4, o1, s\<lparr>nv := v3\<rparr>))
                      (readdir_loop (n_fuel env) env dp maxcount (xdr_get_pos h) cookie False (start_listing dst h) v2))))"

definition READDIRPLUS_ENTRY_OVERHEAD :: u32 where "READDIRPLUS_ENTRY_OVERHEAD = 124 + OUR_FHSIZE"

fun readdirplus_loop ::
  "nat \<Rightarrow> nfs_env \<Rightarrow> bytes \<Rightarrow> nat \<Rightarrow> u32 \<Rightarrow> u32 \<Rightarrow> u64 \<Rightarrow> bool \<Rightarrow> xdr_t \<Rightarrow> vfs_state \<Rightarrow> (bool \<times> xdr_t \<times> vfs_state) option" where
  "readdirplus_loop 0 env dir dp maxcount start ecookie wrote_one out v = None"
| "readdirplus_loop (Suc n) env dir dp maxcount start ecookie wrote_one out v =
     (case vfs_readdir_next (n_mvs env) (n_now env) dp MAX_NAME ecookie v of
        (None, v1) \<Rightarrow> Some (True, out, v1)
      | (Some (ename, fid, c), v1) \<Rightarrow>
          let entry_path = join_path dir ename; (est, v2) = stat_opt env entry_path v1 in
          (case est of
             None \<Rightarrow> readdirplus_loop n env dir dp maxcount start c wrote_one out v2
           | Some st \<Rightarrow>
               let name_len = of_nat (length ename) :: u32; before = xdr_get_pos out in
               if maxcount < (before - start) + READDIRPLUS_ENTRY_OVERHEAD + name_len + 8 \<and> wrote_one
               then Some (False, out, v2)
               else case fh_from_path (vexports v2) entry_path of
                 None \<Rightarrow> readdirplus_loop n env dir dp maxcount start c wrote_one out v2
               | Some efh \<Rightarrow>
                   readdirplus_loop n env dir dp maxcount start c True
                     (xdr_write_fhandle efh (xdr_write_uint32 1 (xdr_write_post_op_attr (Some st)
                        (xdr_write_uint64 c (xdr_write_string ename name_len
                           (xdr_write_uint64 (st_fileid st) (xdr_write_uint32 1 out))))))) v2))"

definition proc_readdirplus :: "nfs_env \<Rightarrow> u32 \<Rightarrow> xdr_t \<Rightarrow> xdr_t \<Rightarrow> nfs_state \<Rightarrow> reply option" where
  "proc_readdirplus env xid inp out s =
     (let (ofh, i1) = xdr_read_fhandle3 inp;
          (cookie, i2) = xdr_read_uint64 i1;
          i3 = xdr_skip (xdr_skip i2 8) 4;
          (maxcount, i4) = xdr_read_uint32 i3;
          h = reply_ok_hdr xid out;
          fail = (\<lambda>st. Some (i4, xdr_write_post_op_attr None (xdr_write_uint32 st h), s))
      in case ofh of
        None \<Rightarrow> fail NFS3ERR_BADHANDLE
      | Some fh \<Rightarrow>
          (case resolve s fh of
             None \<Rightarrow> fail NFS3ERR_STALE
           | Some dir \<Rightarrow>
               let (dst, v1) = stat_opt env dir (nv s) in
               (case vfs_opendir (n_mvs env) (n_now env) dir v1 of
                  (Inl e, v2) \<Rightarrow> Some (i4, xdr_write_post_op_attr dst (xdr_write_uint32 (vfs_errno_to_nfs3 e) h), s\<lparr>nv := v2\<rparr>)
                | (Inr dp, v2) \<Rightarrow>
                    map_option (\<lambda>r. let (o1, v3) = end_listing dp r in (i4, o1, s\<lparr>nv := v3\<rparr>))
                      (readdirplus_loop (n_fuel env) env dir dp maxcount (xdr_get_pos h) cookie False (start_listing dst h) v2))))"

definition FSF3_HOMOGENEOUS :: u32 where "FSF3_HOMOGENEOUS = 0x08"
definition FSF3_CANSETTIME :: u32 where "FSF3_CANSETTIME = 0x10"

text \<open>The three procedures on the file system as a whole; on this system \<^verbatim>\<open>vfs_fsstat\<close> never fails.\<close>

definition proc_fsstat :: "nfs_env \<Rightarrow> u32 \<Rightarrow> xdr_t \<Rightarrow> xdr_t \<Rightarrow> nfs_state \<Rightarrow> reply" where
  "proc_fsstat env xid inp out s =
     (let (ofh, i1) = xdr_read_fhandle3 inp; h = reply_ok_hdr xid out in
      case ofh of
        None \<Rightarrow> (i1, xdr_write_uint32 NFS3ERR_BADHANDLE h, s)
      | Some fh \<Rightarrow>
          (case resolve s fh of
             None \<Rightarrow> (i1, xdr_write_uint32 NFS3ERR_STALE h, s)
           | Some path \<Rightarrow>
               let (st, v1) = stat_opt env path (nv s);
                   fs = vfs_fsstat path v1;
                   o1 = xdr_write_post_op_attr st (xdr_write_uint32 NFS3_OK h);
                   o2 = xdr_write_uint64 (avail_bytes fs) (xdr_write_uint64 (free_bytes fs) (xdr_write_uint64 (total_bytes fs) o1));
                   o3 = xdr_write_uint64 (avail_files fs) (xdr_write_uint64 (free_files fs) (xdr_write_uint64 (total_files fs) o2))
               in (i1, xdr_write_uint32 (invarsec fs) o3, s\<lparr>nv := v1\<rparr>)))"

definition proc_fsinfo :: "nfs_env \<Rightarrow> u32 \<Rightarrow> xdr_t \<Rightarrow> xdr_t \<Rightarrow> nfs_state \<Rightarrow> reply" where
  "proc_fsinfo env xid inp out s =
     (let (ofh, i1) = xdr_read_fhandle3 inp; h = reply_ok_hdr xid out in
      case ofh of
        None \<Rightarrow> (i1, xdr_write_uint32 NFS3ERR_BADHANDLE h, s)
      | Some fh \<Rightarrow>
          (case resolve s fh of
             None \<Rightarrow> (i1, xdr_write_uint32 NFS3ERR_STALE h, s)
           | Some path \<Rightarrow>
               let (st, v1) = stat_opt env path (nv s);
                   o1 = xdr_write_post_op_attr st (xdr_write_uint32 NFS3_OK h);
                   o2 = xdr_write_uint32 512 (xdr_write_uint32 MAX_READ_SIZE (xdr_write_uint32 MAX_READ_SIZE o1));
                   o3 = xdr_write_uint32 512 (xdr_write_uint32 MAX_WRITE_SIZE (xdr_write_uint32 MAX_WRITE_SIZE o2));
                   o4 = xdr_write_uint64 0xFFFFFFFF (xdr_write_uint32 8192 o3);
                   o5 = xdr_write_uint32 1000000 (xdr_write_uint32 0 o4)
               in (i1, xdr_write_uint32 (FSF3_HOMOGENEOUS OR FSF3_CANSETTIME) o5, s\<lparr>nv := v1\<rparr>)))"

definition proc_pathconf :: "nfs_env \<Rightarrow> u32 \<Rightarrow> xdr_t \<Rightarrow> xdr_t \<Rightarrow> nfs_state \<Rightarrow> reply" where
  "proc_pathconf env xid inp out s =
     (let (ofh, i1) = xdr_read_fhandle3 inp; h = reply_ok_hdr xid out in
      case ofh of
        None \<Rightarrow> (i1, xdr_write_uint32 NFS3ERR_BADHANDLE h, s)
      | Some fh \<Rightarrow>
          (case resolve s fh of
             None \<Rightarrow> (i1, xdr_write_uint32 NFS3ERR_STALE h, s)
           | Some path \<Rightarrow>
               let (st, v1) = stat_opt env path (nv s);
                   o1 = xdr_write_post_op_attr st (xdr_write_uint32 NFS3_OK h);
                   o2 = xdr_write_uint32 1 (xdr_write_uint32 255 (xdr_write_uint32 1 o1))
               in (i1, xdr_write_uint32 1 (xdr_write_uint32 0 (xdr_write_uint32 0 o2)), s\<lparr>nv := v1\<rparr>)))"

definition proc_commit :: "nfs_env \<Rightarrow> u32 \<Rightarrow> xdr_t \<Rightarrow> xdr_t \<Rightarrow> nfs_state \<Rightarrow> reply" where
  "proc_commit env xid inp out s =
     (let (ofh, i1) = xdr_read_fhandle3 inp;
          i2 = xdr_skip (xdr_skip i1 8) 4;
          h = reply_ok_hdr xid out
      in case ofh of
        None \<Rightarrow> (i2, xdr_write_wcc_data None None (xdr_write_uint32 NFS3ERR_BADHANDLE h), s)
      | Some fh \<Rightarrow>
          (case resolve s fh of
             None \<Rightarrow> (i2, xdr_write_wcc_data None None (xdr_write_uint32 NFS3ERR_STALE h), s)
           | Some path \<Rightarrow>
               let (pre, v1) = stat_opt env path (nv s) in
               (case vfs_commit (n_mvs env) (n_now env) path v1 of
                  (Some e, v2) \<Rightarrow>
                    let (r, v3) = vfs_stat (n_mvs env) (n_now env) path v2;
                        (post, err) = (case r of Inl e' \<Rightarrow> (None, e') | Inr st \<Rightarrow> (Some st, e))
                    in (i2, xdr_write_wcc_data pre post (xdr_write_uint32 (vfs_errno_to_nfs3 err) h), s\<lparr>nv := v3\<rparr>)
                | (None, v2) \<Rightarrow>
                    let (post, v3) = stat_opt env path v2
                    in (i2, xdr_write_raw (g_write_verifier s) 8
                              (xdr_write_wcc_data pre post (xdr_write_uint32 NFS3_OK h)), s\<lparr>nv := v3\<rparr>))))"

definition proc_rename :: "nfs_env \<Rightarrow> u32 \<Rightarrow> xdr_t \<Rightarrow> xdr_t \<Rightarrow> nfs_state \<Rightarrow> reply" where
  "proc_rename env xid inp out s =
     (let (ofdir, i1) = xdr_read_fhandle3 inp;
          ((_, fbuf), i2) = xdr_read_string i1 (n_name env) (of_nat MAX_NAME);
          (otdir, i3) = xdr_read_fhandle3 i2;
          ((_, tbuf), i4) = xdr_read_string i3 (n_name2 env) (of_nat MAX_NAME);
          fname = cstr fbuf; tname = cstr tbuf;
          h = reply_ok_hdr xid out;
          fail = (\<lambda>st. (i4, xdr_write_wcc_data None None (xdr_write_wcc_data None None (xdr_write_uint32 st h)), s))
      in if ofdir = None \<or> otdir = None then fail NFS3ERR_BADHANDLE
         else if \<not> name_is_valid fname \<or> \<not> name_is_valid tname then fail NFS3ERR_INVAL
         else case (resolve s (the ofdir), resolve s (the otdir)) of
           (Some fdir, Some tdir) \<Rightarrow>
             let (fpre, v1) = stat_opt env fdir (nv s);
                 (tpre, v2) = stat_opt env tdir v1;
                 (r, v3) = vfs_rename (n_mvs env) (n_now env) (join_path fdir fname) (join_path tdir tname) v2;
                 (fpost, v4) = stat_opt env fdir v3;
                 (tpost, v5) = stat_opt env tdir v4
             in (i4, xdr_write_wcc_data tpre tpost (xdr_write_wcc_data fpre fpost (xdr_write_uint32 (errno_status r) h)), s\<lparr>nv := v5\<rparr>)
         | _ \<Rightarrow> fail NFS3ERR_STALE)"

definition proc_notsupp :: "u32 \<Rightarrow> xdr_t \<Rightarrow> xdr_t" where
  "proc_notsupp xid out = xdr_write_post_op_attr None (xdr_write_uint32 NFS3ERR_NOTSUPP (reply_ok_hdr xid out))"

definition NFS3PROC_NULL :: u32 where "NFS3PROC_NULL = 0"
definition NFS3PROC_GETATTR :: u32 where "NFS3PROC_GETATTR = 1"
definition NFS3PROC_SETATTR :: u32 where "NFS3PROC_SETATTR = 2"
definition NFS3PROC_LOOKUP :: u32 where "NFS3PROC_LOOKUP = 3"
definition NFS3PROC_ACCESS :: u32 where "NFS3PROC_ACCESS = 4"
definition NFS3PROC_READ :: u32 where "NFS3PROC_READ = 6"
definition NFS3PROC_WRITE :: u32 where "NFS3PROC_WRITE = 7"
definition NFS3PROC_CREATE :: u32 where "NFS3PROC_CREATE = 8"
definition NFS3PROC_REMOVE :: u32 where "NFS3PROC_REMOVE = 12"
definition NFS3PROC_RENAME :: u32 where "NFS3PROC_RENAME = 14"
definition NFS3PROC_READDIR :: u32 where "NFS3PROC_READDIR = 16"
definition NFS3PROC_READDIRPLUS :: u32 where "NFS3PROC_READDIRPLUS = 17"
definition NFS3PROC_FSSTAT :: u32 where "NFS3PROC_FSSTAT = 18"
definition NFS3PROC_FSINFO :: u32 where "NFS3PROC_FSINFO = 19"
definition NFS3PROC_PATHCONF :: u32 where "NFS3PROC_PATHCONF = 20"
definition NFS3PROC_COMMIT :: u32 where "NFS3PROC_COMMIT = 21"

lemmas nfs_procs = NFS3PROC_NULL_def NFS3PROC_GETATTR_def NFS3PROC_SETATTR_def NFS3PROC_LOOKUP_def NFS3PROC_ACCESS_def
  NFS3PROC_READ_def NFS3PROC_WRITE_def NFS3PROC_CREATE_def NFS3PROC_REMOVE_def NFS3PROC_RENAME_def NFS3PROC_READDIR_def
  NFS3PROC_READDIRPLUS_def NFS3PROC_FSSTAT_def NFS3PROC_FSINFO_def NFS3PROC_PATHCONF_def NFS3PROC_COMMIT_def

definition handle_nfs3 :: "nfs_env \<Rightarrow> rpc_call_t \<Rightarrow> xdr_t \<Rightarrow> xdr_t \<Rightarrow> nfs_state \<Rightarrow> reply option" where
  "handle_nfs3 env call inp out s =
     (let xid = call_xid call; p = call_proc call in
      if call_vers call \<noteq> VERS_NFS then Some (inp, rpc_write_prog_mismatch xid VERS_NFS VERS_NFS out, s)
      else if p = NFS3PROC_NULL then Some (inp, proc_null xid out, s)
      else if p = NFS3PROC_GETATTR then Some (proc_getattr env xid inp out s)
      else if p = NFS3PROC_SETATTR then Some (proc_setattr env xid inp out s)
      else if p = NFS3PROC_LOOKUP then Some (proc_lookup env xid inp out s)
      else if p = NFS3PROC_ACCESS then Some (proc_access env xid (auth_uid call) (auth_gid call) inp out s)
      else if p = NFS3PROC_READ then Some (proc_read env xid inp out s)
      else if p = NFS3PROC_WRITE then Some (proc_write env xid inp out s)
      else if p = NFS3PROC_CREATE then Some (proc_create env xid inp out s)
      else if p = NFS3PROC_REMOVE then Some (proc_remove env xid inp out s)
      else if p = NFS3PROC_RENAME then Some (proc_rename env xid inp out s)
      else if p = NFS3PROC_READDIR then proc_readdir env xid inp out s
      else if p = NFS3PROC_READDIRPLUS then proc_readdirplus env xid inp out s
      else if p = NFS3PROC_FSSTAT then Some (proc_fsstat env xid inp out s)
      else if p = NFS3PROC_FSINFO then Some (proc_fsinfo env xid inp out s)
      else if p = NFS3PROC_PATHCONF then Some (proc_pathconf env xid inp out s)
      else if p = NFS3PROC_COMMIT then Some (proc_commit env xid inp out s)
      else Some (inp, proc_notsupp xid out, s))"

end
