(* ===== verification/Nfs3wire.thy ===== *)
theory Nfs3wire
  imports Nfs3
begin

text \<open>
  Every NFS call is answered in form: whatever the arguments and the state, the reply starts
  with the header of an accepted call, stays inside its buffer, and the input is only read.
\<close>

text \<open>The static buffers have their sizes.\<close>

definition nfs_wf :: "nfs_state \<Rightarrow> bool" where
  "nfs_wf s \<longleftrightarrow> length (g_write_buf s) = unat MAX_WRITE_SIZE \<and> length (g_write_verifier s) = 8"

section \<open>Attributes\<close>

lemma accepted_fattr3 [reply_intros]: "accepted xid st out y \<Longrightarrow> accepted xid st out (xdr_write_fattr3 a y)"
  unfolding xdr_write_fattr3_def Let_def by (intro reply_intros)

lemma accepted_post_op [reply_intros]: "accepted xid st out y \<Longrightarrow> accepted xid st out (xdr_write_post_op_attr a y)"
  by (cases a) (auto simp: xdr_write_post_op_attr_def intro: reply_intros)

lemma accepted_wcc [reply_intros]: "accepted xid st out y \<Longrightarrow> accepted xid st out (xdr_write_wcc_data a b y)"
  by (cases a) (auto simp: xdr_write_wcc_data_def intro!: reply_intros)

lemma accepted_ok_hdr [reply_intros]: "accepted xid RPC_SUCCESS out (reply_ok_hdr xid out)"
  unfolding reply_ok_hdr_def by (rule accepted_hdr)

lemma accepted_create_failed [reply_intros]:
  "accepted xid st out y \<Longrightarrow> accepted xid st out (create_failed e a b y)"
  unfolding create_failed_def by (intro reply_intros)

lemma accepted_start_listing [reply_intros]:
  "accepted xid st out y \<Longrightarrow> accepted xid st out (start_listing a y)"
  unfolding start_listing_def by (rule accepted_raw) (simp_all add: accepted_post_op accepted_u32 BUF_SIZE_def)

section \<open>Sizes of what the file-system interface returns\<close>

lemma read_range_length: "pww_read_range pm off n fs = (Some b, pm', fs') \<Longrightarrow> length b \<le> unat n"
  by (auto simp: pww_read_range_def spill_read_def Let_def split: if_splits prod.splits)

lemma member_pread_length:
  "mvs_pds_member_pread now t count off e ss = (Some (b, eof), e', ss') \<Longrightarrow> length b \<le> unat count"
  by (auto simp: mvs_pds_member_pread_def Let_def split: if_splits prod.splits option.splits)

lemma member_read_length:
  assumes "mvs_pds_member_read now t dsn m ex off count rc ss = (Some (b, eof), rc', ss')"
  shows "length b \<le> unat count"
  using assms member_pread_length
  by (auto simp: mvs_pds_member_read_def Let_def split: if_splits prod.splits option.splits)

lemma pread_length:
  assumes "vfs_pread env now path count off s = (Inr (b, eof), s')"
  shows "length b \<le> unat count"
proof -
  have m: "unat (if a < c then a else c) \<le> unat a" for a c :: u32 by (simp add: word_less_nat_alt)
  show ?thesis
    using assms order_trans [OF read_range_length m] member_read_length
    by (fastforce simp: vfs_pread_def Let_def split: if_splits prod.splits option.splits)
qed

lemma file_name_length: "length (generate_file_name ext name 256) \<le> 255"
  by (auto simp: generate_file_name_def Let_def)

lemma readdir_name_length:
  assumes "vfs_readdir_next env now i 256 c s = (Some (nm, fid, c'), s')"
  shows "length nm \<le> 255"
  using assms file_name_length
  by (auto simp: vfs_readdir_next_def root_readdir_next_def Let_def split: if_splits option.splits)

section \<open>Arguments\<close>

lemma reads_wf [simp]:
  "xdr_wf x \<Longrightarrow> xdr_wf (snd (xdr_read_uint32 x))" "xdr_wf x \<Longrightarrow> xdr_wf (snd (xdr_read_uint64 x))"
  "xdr_wf x \<Longrightarrow> xdr_wf (xdr_skip x n)"
  "xdr_wf x \<Longrightarrow> length b = MAX_NAME \<Longrightarrow> xdr_wf (snd (xdr_read_string x b (of_nat MAX_NAME)))"
  using xdr_safeD(2) [OF xdr_safe_u32] xdr_safeD(2) [OF xdr_safe_u64] xdr_safeD(2) [OF xdr_safe_skip]
    xdr_safeD(2) [OF xdr_safe_string] by (simp_all add: MAX_NAME_def BUF_SIZE_def)

lemma read_fhandle3_wf [simp]: "xdr_wf x \<Longrightarrow> xdr_wf (snd (xdr_read_fhandle3 x))"
  using xdr_safeD(2) [OF xdr_safe_opaque, of 64 "replicate 64 0"]
  by (simp add: xdr_read_fhandle3_def Let_def split_def NFS3_FHSIZE_def BUF_SIZE_def)

lemma read_opts_wf [simp]:
  "xdr_wf x \<Longrightarrow> xdr_wf (snd (read_opt32 x))" "xdr_wf x \<Longrightarrow> xdr_wf (snd (read_opt_time x))"
  by (simp_all add: read_opt32_def read_opt_time_def Let_def split_def)

lemma read_sattr3_wf [simp]: "xdr_wf x \<Longrightarrow> xdr_wf (snd (xdr_read_sattr3 x))"
  by (simp add: xdr_read_sattr3_def Let_def split_def)

section \<open>Replies\<close>

lemma readdir_loop_accepted:
  assumes "readdir_loop n env dp maxcount start c w y v = Some (eof, z, v')" and "accepted xid st out y"
  shows "accepted xid st out z"
  using assms
proof (induction n arbitrary: c w y v)
  case (Suc n)
  obtain r v1 where nx: "vfs_readdir_next (n_mvs env) (n_now env) dp MAX_NAME c v = (r, v1)" by (metis surj_pair)
  show ?case
  proof (cases r)
    case None
    then show ?thesis using Suc.prems nx by simp
  next
    case (Some e)
    then obtain nm fid c' where e: "r = Some (nm, fid, c')" by (cases e) auto
    have l: "length nm \<le> 255" using nx e readdir_name_length by (simp add: MAX_NAME_def)
    let ?z = "xdr_write_uint64 c' (xdr_write_string nm (of_nat (length nm)) (xdr_write_uint64 fid (xdr_write_uint32 1 y)))"
    have "accepted xid st out ?z" using Suc.prems(2) l by (intro reply_intros) (simp_all add: unat_of_nat BUF_SIZE_def)
    then show ?thesis using Suc nx e by (auto simp: Let_def split: if_splits)
  qed
qed simp

lemma readdirplus_loop_accepted:
  assumes "readdirplus_loop n env dir dp maxcount start c w y v = Some (eof, z, v')" and "accepted xid st out y"
  shows "accepted xid st out z"
  using assms
proof (induction n arbitrary: c w y v)
  case (Suc n)
  obtain r v1 where nx: "vfs_readdir_next (n_mvs env) (n_now env) dp MAX_NAME c v = (r, v1)" by (metis surj_pair)
  show ?case
  proof (cases r)
    case None
    then show ?thesis using Suc.prems nx by simp
  next
    case (Some e)
    then obtain nm fid c' where e: "r = Some (nm, fid, c')" by (cases e) auto
    have l: "length nm \<le> 255" using nx e readdir_name_length by (simp add: MAX_NAME_def)
    have w: "accepted xid st out (xdr_write_fhandle f (xdr_write_uint32 1 (xdr_write_post_op_attr (Some a)
        (xdr_write_uint64 c' (xdr_write_string nm (of_nat (length nm)) (xdr_write_uint64 (st_fileid a) (xdr_write_uint32 1 y)))))))" for f a
      using Suc.prems(2) l by (intro reply_intros) (simp_all add: unat_of_nat BUF_SIZE_def)
    obtain est v2 where es: "stat_opt env (join_path dir nm) v1 = (est, v2)" by (metis surj_pair)
    show ?thesis using Suc nx e es w by (auto simp: Let_def split: if_splits option.splits)
  qed
qed simp

lemma end_listing_accepted: "accepted xid st out (fst (snd r)) \<Longrightarrow> accepted xid st out (fst (end_listing dp r))"
  by (cases r) (auto simp: end_listing_def intro!: reply_intros)

lemma getattr_accepted: "accepted xid RPC_SUCCESS out (fst (snd (proc_getattr env xid inp out s)))"
  by (auto simp: proc_getattr_def Let_def split_def split: option.split sum.split intro!: reply_intros)

lemma setattr_accepted: "accepted xid RPC_SUCCESS out (fst (snd (proc_setattr env xid inp out s)))"
  by (auto simp: proc_setattr_def Let_def split_def split: option.split intro!: reply_intros)

lemma lookup_accepted: "accepted xid RPC_SUCCESS out (fst (snd (proc_lookup env xid inp out s)))"
  by (auto simp: proc_lookup_def Let_def split_def split: option.split sum.split intro!: reply_intros)

lemma access_accepted: "accepted xid RPC_SUCCESS out (fst (snd (proc_access env xid uid gid inp out s)))"
  by (auto simp: proc_access_def Let_def split_def split: option.split intro!: reply_intros)

lemma create_parts:
  "accepted xid RPC_SUCCESS out (fst (snd (proc_create env xid inp out s))) \<and>
   (xdr_wf inp \<longrightarrow> length (n_name env) = MAX_NAME \<longrightarrow> xdr_wf (fst (proc_create env xid inp out s))) \<and>
   nfs_wf (snd (snd (proc_create env xid inp out s))) = nfs_wf s"
proof -
  obtain ofh i1 where 1: "xdr_read_fhandle3 inp = (ofh, i1)" by (metis surj_pair)
  obtain n buf i2 where 2: "xdr_read_string i1 (n_name env) (of_nat MAX_NAME) = ((n, buf), i2)" by (metis surj_pair)
  obtain m i3 where 3: "xdr_read_uint32 i2 = (m, i3)" by (metis surj_pair)
  obtain a i4 where 4: "(if m = CREATE_UNCHECKED \<or> m = CREATE_GUARDED then xdr_read_sattr3 i3 else (sattr3_zero, xdr_skip i3 8)) = (a, i4)"
    by (metis surj_pair)
  have i4: "xdr_wf inp \<longrightarrow> length (n_name env) = MAX_NAME \<longrightarrow> xdr_wf i4"
    using reads_wf read_fhandle3_wf [of inp] read_sattr3_wf [of i3] 1 2 3 4 by (metis snd_conv)
  note d = proc_create_def [of env xid inp out s] 1 2 3 4 Let_def prod.case
  show ?thesis
  proof (cases "ofh = None \<or> xerr i4 \<or> \<not> name_is_valid (cstr buf) \<or> resolve s (the ofh) = None")
    case True
    then show ?thesis unfolding d using i4 by (auto intro!: reply_intros)
  next
    case False
    then obtain dir where dir: "resolve s (the ofh) = Some dir" by auto
    let ?obj = "join_path dir (cstr buf)"
    obtain pre v1 where 5: "stat_opt env dir (nv s) = (pre, v1)" by (metis surj_pair)
    obtain f v2 where 6: "(if m = CREATE_GUARDED \<or> m = CREATE_EXCLUSIVE then stat_opt env ?obj v1 else (None, v1)) = (f, v2)"
      by (metis surj_pair)
    obtain r v3 where 7: "vfs_create (n_mvs env) (n_now env) ?obj (if has_mode a \<noteq> 0 then sa_mode a else 0x1A4) v2 = (r, v3)"
      by (metis surj_pair)
    obtain post v4 where 8: "stat_opt env dir v3 = (post, v4)" by (metis surj_pair)
    obtain ost v5 where 9: "stat_opt env ?obj v4 = (ost, v5)" by (metis surj_pair)
    obtain q v6 where 10: "stat_opt env dir v2 = (q, v6)" by (metis surj_pair)
    show ?thesis unfolding d using False i4
      by (simp only: dir 5 6 7 8 9 10 Let_def prod.case option.case if_False simp_thms)
        (simp add: nfs_wf_def split: option.split, intro conjI impI allI reply_intros)
  qed
qed

lemma remove_accepted: "accepted xid RPC_SUCCESS out (fst (snd (proc_remove env xid inp out s)))"
  by (auto simp: proc_remove_def Let_def split_def split: option.split intro!: reply_intros)

lemma rename_accepted: "accepted xid RPC_SUCCESS out (fst (snd (proc_rename env xid inp out s)))"
  by (auto simp: proc_rename_def Let_def split_def split: option.split intro!: reply_intros)

lemma fs_accepted:
  "accepted xid RPC_SUCCESS out (fst (snd (proc_fsstat env xid inp out s)))"
  "accepted xid RPC_SUCCESS out (fst (snd (proc_fsinfo env xid inp out s)))"
  "accepted xid RPC_SUCCESS out (fst (snd (proc_pathconf env xid inp out s)))"
  by (auto simp: proc_fsstat_def proc_fsinfo_def proc_pathconf_def Let_def split_def split: option.split intro!: reply_intros)

lemma notsupp_accepted: "accepted xid RPC_SUCCESS out (proc_notsupp xid out)"
  unfolding proc_notsupp_def by (intro reply_intros)

lemma read_accepted: "accepted xid RPC_SUCCESS out (fst (snd (proc_read env xid inp out s)))"
proof -
  have b: "unat (of_nat (length b) :: u32) = length b \<and> length b \<le> BUF_SIZE"
    if "vfs_pread m t p (if MAX_READ_SIZE < c then MAX_READ_SIZE else c) o' v = (Inr (b, eof), v')" for m t p c o' v b eof v'
  proof -
    have "unat (if MAX_READ_SIZE < c then MAX_READ_SIZE else c) \<le> 65536"
      by (auto simp: MAX_READ_SIZE_def word_less_nat_alt)
    then have "length b \<le> 65536" using pread_length [OF that] by linarith
    then show ?thesis by (simp add: unat_of_nat BUF_SIZE_def)
  qed
  have "accepted xid RPC_SUCCESS out (fst (snd (case vfs_pread m t p (if MAX_READ_SIZE < c then MAX_READ_SIZE else c) o' v of
      (Inl e, v2) \<Rightarrow> (i3, xdr_write_post_op_attr st (xdr_write_uint32 (vfs_errno_to_nfs3 e) (reply_ok_hdr xid out)), s\<lparr>nv := v2\<rparr>)
    | (Inr (b, eof), v2) \<Rightarrow> (i3, xdr_write_opaque b (of_nat (length b)) (xdr_write_uint32 (if eof then 1 else 0)
        (xdr_write_uint32 (of_nat (length b)) (xdr_write_post_op_attr st (xdr_write_uint32 NFS3_OK (reply_ok_hdr xid out))))),
        s\<lparr>nv := v2\<rparr>))))" for m t p c o' v i3 st
  proof (cases "vfs_pread m t p (if MAX_READ_SIZE < c then MAX_READ_SIZE else c) o' v")
    case (Pair r v2)
    show ?thesis
    proof (cases r)
      case (Inl e)
      then show ?thesis unfolding Pair by (auto intro!: reply_intros)
    next
      case (Inr q)
      then obtain b eof where q: "r = Inr (b, eof)" by (cases q) auto
      then show ?thesis using b [of m t p c o' v b eof v2] Pair by (auto intro!: reply_intros)
    qed
  qed
  note rd = this
  obtain ofh i1 where 1: "xdr_read_fhandle3 inp = (ofh, i1)" by (metis surj_pair)
  obtain off i2 where 2: "xdr_read_uint64 i1 = (off, i2)" by (metis surj_pair)
  obtain c i3 where 3: "xdr_read_uint32 i2 = (c, i3)" by (metis surj_pair)
  note d = proc_read_def [of env xid inp out s] 1 2 3 Let_def prod.case
  show ?thesis
  proof (cases "ofh = None \<or> resolve s (the ofh) = None")
    case True
    then show ?thesis unfolding d by (auto split: option.split intro!: reply_intros)
  next
    case False
    then obtain fh path where f: "ofh = Some fh" "resolve s fh = Some path" by auto
    obtain st v1 where 4: "stat_opt env path (nv s) = (st, v1)" by (metis surj_pair)
    show ?thesis unfolding d f option.case 4 prod.case by (rule rd)
  qed
qed

lemma write_accepted:
  "nfs_wf s \<Longrightarrow> accepted xid RPC_SUCCESS out (fst (snd (proc_write env xid inp out s)))"
  by (auto simp: proc_write_def Let_def split_def nfs_wf_def BUF_SIZE_def split: option.split intro!: reply_intros)

lemma commit_accepted:
  "nfs_wf s \<Longrightarrow> accepted xid RPC_SUCCESS out (fst (snd (proc_commit env xid inp out s)))"
  by (auto simp: proc_commit_def Let_def split_def nfs_wf_def BUF_SIZE_def split: option.split intro!: reply_intros)

lemma readdir_accepted:
  assumes "proc_readdir env xid inp out s = Some (i', o', s')"
  shows "accepted xid RPC_SUCCESS out o'"
proof -
  obtain ofh i1 where 1: "xdr_read_fhandle3 inp = (ofh, i1)" by (metis surj_pair)
  obtain c i2 where 2: "xdr_read_uint64 i1 = (c, i2)" by (metis surj_pair)
  obtain mx i4 where 3: "xdr_read_uint32 (xdr_skip i2 8) = (mx, i4)" by (metis surj_pair)
  note d = assms [unfolded proc_readdir_def 1 2 3 Let_def prod.case]
  show ?thesis
  proof (cases "ofh = None \<or> resolve s (the ofh) = None")
    case True
    then show ?thesis using d by (auto split: option.splits intro!: reply_intros)
  next
    case False
    then obtain fh path where f: "ofh = Some fh" "resolve s fh = Some path" by auto
    obtain st v1 where 4: "stat_opt env path (nv s) = (st, v1)" by (metis surj_pair)
    obtain r v2 where 5: "vfs_opendir (n_mvs env) (n_now env) path v1 = (r, v2)" by (metis surj_pair)
    show ?thesis
    proof (cases r)
      case (Inl e)
      then show ?thesis using d f 4 5 by (auto intro!: reply_intros)
    next
      case (Inr dp)
      then obtain l where l: "readdir_loop (n_fuel env) env dp mx (xdr_get_pos (reply_ok_hdr xid out)) c False
          (start_listing st (reply_ok_hdr xid out)) v2 = Some l" "o' = fst (end_listing dp l)"
        using d f 4 5 by (auto simp: split_def)
      obtain eof z v3 where z: "l = (eof, z, v3)" by (metis prod_cases3)
      have "accepted xid RPC_SUCCESS out z"
        using readdir_loop_accepted [OF l(1) [unfolded z] accepted_start_listing [OF accepted_ok_hdr]] .
      then show ?thesis using l(2) z end_listing_accepted by simp
    qed
  qed
qed

lemma readdirplus_accepted:
  assumes "proc_readdirplus env xid inp out s = Some (i', o', s')"
  shows "accepted xid RPC_SUCCESS out o'"
proof -
  obtain ofh i1 where 1: "xdr_read_fhandle3 inp = (ofh, i1)" by (metis surj_pair)
  obtain c i2 where 2: "xdr_read_uint64 i1 = (c, i2)" by (metis surj_pair)
  obtain mx i4 where 3: "xdr_read_uint32 (xdr_skip (xdr_skip i2 8) 4) = (mx, i4)" by (metis surj_pair)
  note d = assms [unfolded proc_readdirplus_def 1 2 3 Let_def prod.case]
  show ?thesis
  proof (cases "ofh = None \<or> resolve s (the ofh) = None")
    case True
    then show ?thesis using d by (auto split: option.splits intro!: reply_intros)
  next
    case False
    then obtain fh path where f: "ofh = Some fh" "resolve s fh = Some path" by auto
    obtain st v1 where 4: "stat_opt env path (nv s) = (st, v1)" by (metis surj_pair)
    obtain r v2 where 5: "vfs_opendir (n_mvs env) (n_now env) path v1 = (r, v2)" by (metis surj_pair)
    show ?thesis
    proof (cases r)
      case (Inl e)
      then show ?thesis using d f 4 5 by (auto intro!: reply_intros)
    next
      case (Inr dp)
      then obtain l where l: "readdirplus_loop (n_fuel env) env path dp mx (xdr_get_pos (reply_ok_hdr xid out)) c False
          (start_listing st (reply_ok_hdr xid out)) v2 = Some l" "o' = fst (end_listing dp l)"
        using d f 4 5 by (auto simp: split_def)
      obtain eof z v3 where z: "l = (eof, z, v3)" by (metis prod_cases3)
      have "accepted xid RPC_SUCCESS out z"
        using readdirplus_loop_accepted [OF l(1) [unfolded z] accepted_start_listing [OF accepted_ok_hdr]] .
      then show ?thesis using l(2) z end_listing_accepted by simp
    qed
  qed
qed

section \<open>What stays well-formed\<close>

lemma read_opaque_length [simp]: "length (fst (fst (xdr_read_opaque x dst dl m))) = length dst"
  by (simp add: xdr_read_opaque_def xdr_read_raw_def Let_def split_def)

definition keeps_wf :: "nfs_env \<Rightarrow> xdr_t \<Rightarrow> nfs_state \<Rightarrow> reply \<Rightarrow> bool" where
  "keeps_wf env inp s r \<longleftrightarrow>
     (xdr_wf inp \<longrightarrow> length (n_name env) = MAX_NAME \<longrightarrow> length (n_name2 env) = MAX_NAME \<longrightarrow> nfs_wf s \<longrightarrow>
        xdr_wf (fst r) \<and> nfs_wf (snd (snd r)))"

lemma small_procs_wf:
  "keeps_wf env inp s (proc_getattr env xid inp out s)" "keeps_wf env inp s (proc_access env xid uid gid inp out s)"
  "keeps_wf env inp s (proc_fsstat env xid inp out s)" "keeps_wf env inp s (proc_fsinfo env xid inp out s)"
  "keeps_wf env inp s (proc_pathconf env xid inp out s)"
  by (auto simp: keeps_wf_def nfs_wf_def proc_getattr_def proc_access_def proc_fsstat_def proc_fsinfo_def proc_pathconf_def
      Let_def split_def split: option.split sum.split)

lemma name_procs_wf:
  "keeps_wf env inp s (proc_lookup env xid inp out s)" "keeps_wf env inp s (proc_remove env xid inp out s)"
  "keeps_wf env inp s (proc_rename env xid inp out s)"
  by (auto simp: keeps_wf_def nfs_wf_def proc_lookup_def proc_remove_def proc_rename_def
      Let_def split_def split: option.split sum.split)

lemma data_procs_wf:
  "keeps_wf env inp s (proc_setattr env xid inp out s)" "keeps_wf env inp s (proc_read env xid inp out s)"
  "keeps_wf env inp s (proc_commit env xid inp out s)"
  by (auto simp: keeps_wf_def nfs_wf_def proc_setattr_def proc_read_def proc_commit_def
      Let_def split_def split: option.split sum.split)

lemma write_wf: "keeps_wf env inp s (proc_write env xid inp out s)"
proof -
  have "xdr_wf x \<Longrightarrow> nfs_wf s \<Longrightarrow> xdr_wf (snd (xdr_read_opaque x (g_write_buf s) 0 MAX_WRITE_SIZE))" for x
    using xdr_safeD(2) [OF xdr_safe_opaque, of MAX_WRITE_SIZE "g_write_buf s"]
    by (simp add: nfs_wf_def MAX_WRITE_SIZE_def BUF_SIZE_def)
  then show ?thesis
    by (auto simp: keeps_wf_def nfs_wf_def proc_write_def Let_def split_def split: option.split)
qed

lemma listing_procs_wf:
  "proc_readdir env xid inp out s = Some r \<Longrightarrow> keeps_wf env inp s r"
  "proc_readdirplus env xid inp out s = Some r \<Longrightarrow> keeps_wf env inp s r"
  by (auto simp: keeps_wf_def nfs_wf_def proc_readdir_def proc_readdirplus_def Let_def split_def split: option.splits sum.splits)

definition answered :: "nfs_env \<Rightarrow> u32 \<Rightarrow> xdr_t \<Rightarrow> xdr_t \<Rightarrow> nfs_state \<Rightarrow> reply \<Rightarrow> bool" where
  "answered env xid inp out s r \<longleftrightarrow> accepted xid RPC_SUCCESS out (fst (snd r)) \<and> keeps_wf env inp s r"

lemma create_answered: "answered env xid inp out s (proc_create env xid inp out s)"
  using create_parts [of xid out env inp s] by (simp add: answered_def keeps_wf_def)

lemma listing_answered:
  "proc_readdir env xid inp out s = Some r \<Longrightarrow> answered env xid inp out s r"
  "proc_readdirplus env xid inp out s = Some r \<Longrightarrow> answered env xid inp out s r"
  using readdir_accepted readdirplus_accepted listing_procs_wf by (cases r; auto simp: answered_def)+

lemma null_answered: "answered env xid inp out s (inp, proc_null xid out, s)" "answered env xid inp out s (inp, proc_notsupp xid out, s)"
  using notsupp_accepted accepted_ok_hdr by (auto simp: answered_def keeps_wf_def proc_null_def)

lemma dispatch_answered:
  assumes "handle_nfs3 env call inp out s = Some r" and "call_vers call = VERS_NFS" and "nfs_wf s"
  shows "answered env (call_xid call) inp out s r"
proof -
  note acc = getattr_accepted setattr_accepted lookup_accepted access_accepted read_accepted write_accepted [OF assms(3)]
    remove_accepted rename_accepted fs_accepted commit_accepted [OF assms(3)]
  have p: "answered env xid inp out s (proc_getattr env xid inp out s)" "answered env xid inp out s (proc_setattr env xid inp out s)"
    "answered env xid inp out s (proc_lookup env xid inp out s)" "answered env xid inp out s (proc_access env xid uid gid inp out s)"
    "answered env xid inp out s (proc_read env xid inp out s)" "answered env xid inp out s (proc_write env xid inp out s)"
    "answered env xid inp out s (proc_remove env xid inp out s)" "answered env xid inp out s (proc_rename env xid inp out s)"
    "answered env xid inp out s (proc_fsstat env xid inp out s)" "answered env xid inp out s (proc_fsinfo env xid inp out s)"
    "answered env xid inp out s (proc_pathconf env xid inp out s)" "answered env xid inp out s (proc_commit env xid inp out s)"
    for xid uid gid
    using acc small_procs_wf name_procs_wf data_procs_wf write_wf by (simp_all add: answered_def)
  show ?thesis using assms(1,2) p create_answered null_answered listing_answered
    by (auto simp: handle_nfs3_def Let_def split: if_splits)
qed

text \<open>
  C4. Every NFS call that is answered is answered in form. Whatever bytes the arguments are and
  whatever the state is, the output buffer holds the header of an accepted reply with the call's
  transaction id followed by the result, or has run out of room inside the result; it was
  written within its bounds and the bytes before it are untouched; the input was read within
  its bounds, and the static buffers keep their sizes.
\<close>
theorem nfs3_answers:
  assumes "handle_nfs3 env call inp out s = Some (inp', out', s')"
    and "xdr_wf inp" and "out_wf out" and "nfs_wf s" and "length (n_name env) = MAX_NAME" and "length (n_name2 env) = MAX_NAME"
  shows "(\<exists>body. emits out (reply_hdr_bytes (call_xid call) (if call_vers call = 3 then RPC_SUCCESS else PROG_MISMATCH) @ body) out') \<and>
    (\<not> xerr out \<and> unat (xpos out) + 24 \<le> unat (xcap out) \<longrightarrow> mem_slice (xbase out') (unat (xpos out)) 24 =
       reply_hdr_bytes (call_xid call) (if call_vers call = 3 then RPC_SUCCESS else PROG_MISMATCH)) \<and>
    xdr_wf out' \<and> xdr_keeps out out' \<and> xdr_wf inp' \<and> nfs_wf s'"
proof -
  let ?st = "if call_vers call = 3 then RPC_SUCCESS else PROG_MISMATCH"
  have "accepted (call_xid call) ?st out out' \<and> keeps_wf env inp s (inp', out', s')"
  proof (cases "call_vers call = VERS_NFS")
    case True
    then show ?thesis using dispatch_answered [OF assms(1) True assms(4)] by (simp add: answered_def VERS_NFS_def)
  next
    case False
    then show ?thesis using assms(1) accepted_mismatch by (auto simp: handle_nfs3_def Let_def keeps_wf_def VERS_NFS_def)
  qed
  then have a: "accepted (call_xid call) ?st out out'" and k: "keeps_wf env inp s (inp', out', s')" by simp_all
  obtain body where b: "emits out (reply_hdr_bytes (call_xid call) ?st @ body) out'" using accepted_body [OF a] by blast
  then have "xdr_wf out' \<and> xdr_keeps out out'" using assms(3) unfolding emits_def by blast
  then show ?thesis using b k assms(2-6) accepted_header(1) [OF a] by (auto simp: keeps_wf_def out_wf_def)
qed

definition start_nfs :: nfs_state where
  "start_nfs = \<lparr>nv = start_vfs, g_write_buf = replicate 65536 0, g_write_verifier = replicate 8 0\<rparr>"

definition sample_env :: nfs_env where
  "sample_env = \<lparr>n_mvs = flush_env, n_now = 100, n_name = replicate 256 0, n_name2 = replicate 256 0, n_fuel = 10\<rparr>"

definition sample_call :: "u32 \<Rightarrow> rpc_call_t" where
  "sample_call p = \<lparr>call_xid = 7, call_prog = PROG_NFS, call_vers = VERS_NFS, call_proc = p, auth_uid = 0, auth_gid = 0\<rparr>"

lemma start_nfs_wf [simp]: "nfs_wf start_nfs" "length (n_name sample_env) = MAX_NAME" "length (n_name2 sample_env) = MAX_NAME"
  by (simp_all add: nfs_wf_def start_nfs_def MAX_WRITE_SIZE_def sample_env_def MAX_NAME_def)

lemma start_buffers [simp]:
  "out_wf (xdr_init_write (replicate 1024 0) 1024)" "\<not> xerr (xdr_init_write (replicate 1024 0) 1024)"
  "n \<le> 1024 \<Longrightarrow> length b = n \<Longrightarrow> xdr_wf (xdr_init_read b (of_nat n))"
  by (simp_all add: out_wf_def xdr_wf_def xdr_init_write_def xdr_init_read_def BUF_SIZE_def unat_of_nat)

theorem nfs3_answers_witness:
  "\<exists>inp' out' s' body. handle_nfs3 sample_env (sample_call NFS3PROC_GETATTR) (xdr_init_read [0, 0, 0, 9] 4)
      (xdr_init_write (replicate 1024 0) 1024) start_nfs = Some (inp', out', s') \<and>
    emits (xdr_init_write (replicate 1024 0) 1024) (reply_hdr_bytes 7 RPC_SUCCESS @ body) out' \<and> xdr_wf inp'"
proof -
  obtain i o' s' where h: "handle_nfs3 sample_env (sample_call NFS3PROC_GETATTR) (xdr_init_read [0, 0, 0, 9] 4)
      (xdr_init_write (replicate 1024 0) 1024) start_nfs = Some (i, o', s')"
    by (cases "proc_getattr sample_env 7 (xdr_init_read [0, 0, 0, 9] 4) (xdr_init_write (replicate 1024 0) 1024) start_nfs")
      (auto simp: handle_nfs3_def sample_call_def nfs_procs)
  have "xdr_wf (xdr_init_read [0, 0, 0, 9] 4)" using start_buffers(3) [of 4 "[0, 0, 0, 9]"] by simp
  then show ?thesis using nfs3_answers [OF h] h by (auto simp: sample_call_def VERS_NFS_def)
qed

end
