(* ===== verification/Nfs3prop.thy ===== *)
theory Nfs3prop
  imports Nfs3wire
begin

text \<open>
  What the NFS procedures do for a client: access is never granted where a change would be
  refused, and data written are the data read.
\<close>

section \<open>Access\<close>

lemma stat_readonly:
  assumes "vfs_stat env now path s = (Inr st, s')" and "mvs_path_type (vexports s) (ebcdic_path path) = (k, e, d)"
    and "k = MVS_PATH_TYPE_ROOT \<or> (\<exists>ds. export_dataset_get (vexports s) e d = Some ds \<and> ds_readonly ds)"
  shows "fs_readonly st = 1"
proof (cases k)
  case MVS_PATH_TYPE_ROOT
  then show ?thesis using assms
    by (auto simp: vfs_stat_def vfs_stat_root_def stat_of_def vfs_dir_epoch_def Let_def split: option.splits)
next
  case MVS_PATH_TYPE_DATASET
  have r: "ds_readonly (fst (dir_refresh env now ds)) = ds_readonly ds" for ds
    by (auto simp: dir_refresh_def Let_def split: option.splits if_splits)
  obtain ds where ds: "export_dataset_get (vexports s) e d = Some ds" "ds_readonly ds" using assms(3) MVS_PATH_TYPE_DATASET by auto
  then show ?thesis using assms r [of ds] MVS_PATH_TYPE_DATASET
    by (auto simp: vfs_stat_def vfs_stat_dataset_def stat_of_def Let_def split_def)
next
  case MVS_PATH_TYPE_PDS_MEMBER
  obtain ds where ds: "export_dataset_get (vexports s) e d = Some ds" "ds_readonly ds" using assms(3) MVS_PATH_TYPE_PDS_MEMBER by auto
  then show ?thesis using assms MVS_PATH_TYPE_PDS_MEMBER
    by (auto simp: vfs_stat_def vfs_stat_pds_member_def stat_of_def Let_def split_def split: prod.splits option.splits sum.splits)
next
  case MVS_PATH_NOT_EXPORTED
  then show ?thesis using assms by (simp add: vfs_stat_def)
qed

lemma and_out: "((x AND NOT m) AND r) AND m = (0 :: u32)"
  by (rule bit_word_eqI) (auto simp: bit_simps)

text \<open>
  C17. No access where a change is refused: for the root of an export and for everything in a
  data set marked read-only, whatever its permissions and whoever asks, the rights granted do
  not contain modifying, extending or deleting; nor is a right granted that was not asked for.
\<close>
theorem access_not_beyond:
  assumes "vfs_stat env now path s = (Inr st, s')" and "mvs_path_type (vexports s) (ebcdic_path path) = (k, e, d)"
  shows "check_access st uid gid requested AND NOT requested = 0 \<and>
    (k = MVS_PATH_TYPE_ROOT \<or> (\<exists>ds. export_dataset_get (vexports s) e d = Some ds \<and> ds_readonly ds) \<longrightarrow>
       check_access st uid gid requested AND (ACCESS3_MODIFY OR ACCESS3_EXTEND OR ACCESS3_DELETE) = 0)"
proof (intro conjI impI)
  have "(x AND requested) AND NOT requested = 0" for x by (rule bit_word_eqI) (auto simp: bit_simps)
  then show "check_access st uid gid requested AND NOT requested = 0" unfolding check_access_def Let_def .
next
  assume "k = MVS_PATH_TYPE_ROOT \<or> (\<exists>ds. export_dataset_get (vexports s) e d = Some ds \<and> ds_readonly ds)"
  then have "fs_readonly st = 1" using stat_readonly [OF assms] by blast
  then show "check_access st uid gid requested AND (ACCESS3_MODIFY OR ACCESS3_EXTEND OR ACCESS3_DELETE) = 0"
    unfolding check_access_def Let_def by (simp only: and_out if_True one_neq_zero simp_thms)
qed

section \<open>Attributes do not disturb pending data\<close>

text \<open>What looking at attributes may change: caches, the open directories, times and signatures.\<close>

definition undisturbed :: "vfs_state \<Rightarrow> vfs_state \<Rightarrow> bool" where
  "undisturbed s s' \<longleftrightarrow> pool (pw s') = pool (pw s) \<and> spill_io (pw s') = spill_io (pw s) \<and>
     g_pww_full (pw s') = g_pww_full (pw s) \<and> enqs (pw s') = enqs (pw s) \<and> lib (pw s') = lib (pw s) \<and>
     (sysq (pw s) = [] \<longrightarrow> sysq (pw s') = []) \<and> same_names (vexports s) (vexports s')"

lemma undisturbed_refl [simp]: "undisturbed s s" by (simp add: undisturbed_def)

lemma undisturbed_epoch: "undisturbed s (snd (vfs_dir_epoch now s))"
  by (simp add: undisturbed_def vfs_dir_epoch_def vexports_def Let_def)

lemma member_size_undisturbed: "undisturbed s (snd (member_size now dsn m e s))"
  by (auto simp: undisturbed_def member_size_def vfs_call_def sys_call_def vexports_def Let_def split_def)

lemma undisturbed_trans: "undisturbed a b \<Longrightarrow> undisturbed b c \<Longrightarrow> undisturbed a c"
  unfolding undisturbed_def using same_names_trans by auto

lemma stat_member_undisturbed: "undisturbed s (snd (vfs_stat_pds_member env now p e d s))"
proof -
  have dp: "undisturbed s (s\<lparr>pw := (pw s)\<lparr>dir_pool := x\<rparr>\<rparr>)" for x by (simp add: undisturbed_def vexports_def)
  show ?thesis using dp undisturbed_trans [OF dp member_size_undisturbed]
    by (auto simp: vfs_stat_pds_member_def Let_def split_def split: option.split prod.split sum.split)
qed

lemma refresh_names: "ds_names (fst (dir_refresh env now ds)) = ds_names ds"
  by (auto simp: dir_refresh_def Let_def ds_names_def split: option.splits if_splits)

lemma stat_dataset_undisturbed: "undisturbed s (snd (vfs_stat_dataset env now e d s))"
proof (cases "export_dataset_get (vexports s) e d")
  case None
  then show ?thesis by (simp add: vfs_stat_dataset_def)
next
  case (Some ds)
  obtain ds' ch where r: "dir_refresh env now ds = (ds', ch)" by (metis surj_pair)
  define s1 where "s1 = s\<lparr>pw := (pw s)\<lparr>pexports := export_dataset_set e d ds' (pexports (pw s)),
      dir_pool := (if ch then dir_openlist_invalidate (dsname_ebcdic ds') (dir_pool (pw s)) else dir_pool (pw s))\<rparr>\<rparr>"
  have "same_names (vexports s) (export_dataset_set e d ds' (vexports s))"
    using dataset_set_names [OF Some] refresh_names [of env now ds] r by simp
  then have "undisturbed s s1" by (simp add: undisturbed_def s1_def vexports_def)
  then have "undisturbed s (snd (if dir_mtime ds' \<noteq> 0 then (dir_mtime ds', s1) else vfs_dir_epoch now s1))"
    using undisturbed_trans [OF _ undisturbed_epoch] by simp
  then show ?thesis unfolding vfs_stat_dataset_def Some option.case r Let_def prod.case s1_def [symmetric] by (simp add: split_def)
qed

lemma stat_undisturbed: "undisturbed s (snd (vfs_stat env now path s))"
  using stat_member_undisturbed stat_dataset_undisturbed undisturbed_epoch
  by (auto simp: vfs_stat_def vfs_stat_root_def Let_def split_def split: mvs_path_kind.split option.split)

lemma stat_opt_undisturbed: "undisturbed s (snd (stat_opt env path s))"
  using stat_undisturbed [of s "n_mvs env" "n_now env" path]
  by (auto simp: stat_opt_def split: prod.splits sum.splits)

lemma undisturbed_pending: "undisturbed s s' \<Longrightarrow> pending_at s path off data \<Longrightarrow> pending_at s' path off data"
proof -
  assume u: "undisturbed s s'" and p: "pending_at s path off data"
  have n: "same_names (vexports s) (vexports s')" and po: "pool (pw s') = pool (pw s)" "spill_io (pw s') = spill_io (pw s)"
    using u by (simp_all add: undisturbed_def)
  have f: "pww_slot_find dsn m (pw s') = pww_slot_find dsn m (pw s)" for dsn m by (simp add: pww_slot_find_def po)
  show ?thesis using p unfolding pending_at_def f po path_type_names [OF n] get_names [OF n] .
qed


section \<open>Handles keep their meaning\<close>

lemma find_names:
  "map ds_names xs = map ds_names ys \<Longrightarrow>
     map_option ds_names (find (\<lambda>ds. dsname_ascii ds = n) ys) = map_option ds_names (find (\<lambda>ds. dsname_ascii ds = n) xs)"
proof (induction xs arbitrary: ys)
  case (Cons x xs)
  then obtain y ys' where y: "ys = y # ys'" "ds_names y = ds_names x" "map ds_names xs = map ds_names ys'"
    by (cases ys) auto
  have "dsname_ascii y = dsname_ascii x" using y(2) by (simp add: ds_names_def)
  then show ?case using Cons.IH [OF y(3)] y(1,2) by simp
qed simp

lemma find_export_names:
  "map export_names xs = map export_names ys \<Longrightarrow> fh_find_export ys eid = fh_find_export xs eid"
  unfolding fh_find_export_def
proof (induction xs arbitrary: ys)
  case (Cons x xs)
  then obtain y ys' where y: "ys = y # ys'" "export_names y = export_names x" "map export_names xs = map export_names ys'"
    by (cases ys) auto
  have "fh_export_id y = fh_export_id x" using y(2) by (simp add: export_names_def fh_export_id_def)
  then show ?case using Cons.IH [OF y(3)] y(1) by simp
qed simp

lemma resolve_names:
  assumes "same_names es es'"
  shows "fh_resolve es' fh m = fh_resolve es fh m"
proof -
  note f = find_export_names [OF assms [unfolded same_names_def], of "fh_export fh"]
  show ?thesis
  proof (cases "fh_find_export es (fh_export fh)")
    case None
    then show ?thesis using f by (simp add: fh_resolve_def)
  next
    case (Some i)
    then have i: "i < length es" by (simp add: fh_find_export_def find_index_Some)
    have n: "export_names (es' ! i) = export_names (es ! i)" using same_names_nth [OF assms i] .
    then have p: "export_path (es' ! i) = export_path (es ! i)" and m: "map ds_names (datasets (es ! i)) = map ds_names (datasets (es' ! i))"
      by (simp_all add: export_names_def)
    note g = find_names [OF m, of "fh_dsname fh"]
    show ?thesis
    proof (cases "find (\<lambda>ds. dsname_ascii ds = fh_dsname fh) (datasets (es ! i))")
      case None
      then show ?thesis using f Some p g by (simp add: fh_resolve_def Let_def)
    next
      case (Some ds)
      then obtain ds' where d: "find (\<lambda>ds. dsname_ascii ds = fh_dsname fh) (datasets (es' ! i)) = Some ds'"
        "dirname_ascii ds' = dirname_ascii ds" "file_ext ds' = file_ext ds"
        using g by (auto simp: ds_names_def)
      show ?thesis using f p d Some \<open>fh_find_export es (fh_export fh) = Some i\<close> by (simp add: fh_resolve_def Let_def)
    qed
  qed
qed

section \<open>Calls on the wire\<close>

text \<open>A handle that is in its own wire form: what \<^verbatim>\<open>fh_from_path\<close> makes.\<close>

definition fh_ok :: "our_fhandle_t \<Rightarrow> bool" where
  "fh_ok fh \<longleftrightarrow> fh_magic fh = OUR_FH_MAGIC \<and> length (fh_dsname fh) \<le> 44 \<and> 0 \<notin> set (fh_dsname fh) \<and>
     (fh_dsname fh \<noteq> [] \<longrightarrow> last (fh_dsname fh) \<noteq> 0x20) \<and> length (fh_member fh) \<le> 8 \<and> 0 \<notin> set (fh_member fh) \<and>
     (fh_member fh \<noteq> [] \<longrightarrow> last (fh_member fh) \<noteq> 0x20)"

definition arguments :: "xdr_t \<Rightarrow> bytes \<Rightarrow> bool" where
  "arguments x enc \<longleftrightarrow> xdr_wf x \<and> \<not> xerr x \<and> take (length enc) (xdr_view x) = enc"

lemma arguments_decode:
  assumes d: "xdr_decoder r enc v" and a: "arguments x (enc @ rest)"
  shows "fst (r x) = v" and "arguments (snd (r x)) rest"
proof -
  have w: "xdr_wf x" "\<not> xerr x" and v: "xdr_view x = enc @ rest @ drop (length (enc @ rest)) (xdr_view x)"
    using a append_take_drop_id [of "length (enc @ rest)" "xdr_view x"] by (auto simp: arguments_def)
  have r: "r x = (v, xdr_advance (length enc) x)" by (rule xdr_decoder.decodes [OF d w v])
  have l: "length enc \<le> length (xdr_view x)" by (subst v) simp
  note ad = xdr_advance_view [OF w(1) l]
  have "xdr_view (xdr_advance (length enc) x) = rest @ drop (length (enc @ rest)) (xdr_view x)"
    unfolding ad(2) by (subst v) simp
  then show "arguments (snd (r x)) rest" using r ad(3,4) w(2) by (simp add: arguments_def)
  show "fst (r x) = v" using r by simp
qed

lemma fhandle3_decoder: "fh_ok fh \<Longrightarrow> xdr_decoder xdr_read_fhandle3 (opaque_bytes (fh_encode fh)) (Some fh)"
proof
  fix x rest
  assume ok: "fh_ok fh" and x: "xdr_wf x" "\<not> xerr x" "xdr_view x = opaque_bytes (fh_encode fh) @ rest"
  have b: "length (fh_encode fh) = 60" "fh_decode (fh_encode fh) 60 = Some fh"
    using fh_wire_back [of fh] ok by (auto simp: fh_ok_def)
  have r: "xdr_read_opaque x (replicate NFS3_FHSIZE 0) 0 (of_nat NFS3_FHSIZE) =
      ((mem_store (replicate NFS3_FHSIZE 0) 0 (fh_encode fh), of_nat (length (fh_encode fh))), xdr_advance (length (opaque_bytes (fh_encode fh))) x)"
    by (rule xdr_read_opaque_decodes [OF x]) (simp_all add: NFS3_FHSIZE_def b)
  have "fh_decode (fh_encode fh @ replicate 4 0) 60 = fh_decode (fh_encode fh) 60"
    unfolding fh_decode_def byte_at_def Let_def FH_DSNAME_LEN_def FH_MEMBER_LEN_def
    by (simp add: nth_append b(1) fh_get_field_def)
  then have "fh_decode (mem_store (replicate NFS3_FHSIZE 0) 0 (fh_encode fh)) 60 = fh_decode (fh_encode fh) 60"
    by (simp add: mem_store_def NFS3_FHSIZE_def b(1))
  then show "xdr_read_fhandle3 x = (Some fh, xdr_advance (length (opaque_bytes (fh_encode fh))) x)"
    using r b x(2) by (simp add: xdr_read_fhandle3_def OUR_FHSIZE_def xdr_advance_def)
qed


definition write_args :: "our_fhandle_t \<Rightarrow> u64 \<Rightarrow> u32 \<Rightarrow> bytes \<Rightarrow> bytes" where
  "write_args fh off lvl data =
     opaque_bytes (fh_encode fh) @ be64_bytes off @ be32_bytes (of_nat (length data)) @ be32_bytes lvl @ opaque_bytes data"

definition read_args :: "our_fhandle_t \<Rightarrow> u64 \<Rightarrow> u32 \<Rightarrow> bytes" where
  "read_args fh off n = opaque_bytes (fh_encode fh) @ be64_bytes off @ be32_bytes n"

lemma write_decodes:
  assumes "arguments inp (write_args fh off lvl data)" and "fh_ok fh" and "nfs_wf s" and "length data \<le> 65536"
    and "resolve s fh = Some path" and "stat_opt env path (nv s) = (pre, v1)"
    and "vfs_pwrite (n_mvs env) (n_now env) path data off v1 = (r, v2)" and "stat_opt env path v2 = (post, v3)"
  shows "\<exists>i w. proc_write env xid inp out s =
    (i, (let o1 = xdr_write_wcc_data pre post (xdr_write_uint32 (errno_status r) (reply_ok_hdr xid out))
         in if errno_status r = NFS3_OK then xdr_write_raw (g_write_verifier s) 8
              (xdr_write_uint32 (if r = None then lvl else UNSTABLE) (xdr_write_uint32 (of_nat (length data)) o1)) else o1),
     s\<lparr>g_write_buf := w, nv := v3\<rparr>)"
proof -
  obtain ofh i1 where 1: "xdr_read_fhandle3 inp = (ofh, i1)" by (metis surj_pair)
  obtain o' i2 where 2: "xdr_read_uint64 i1 = (o', i2)" by (metis surj_pair)
  obtain c i3 where 3: "xdr_read_uint32 i2 = (c, i3)" by (metis surj_pair)
  obtain sb i4 where 4: "xdr_read_uint32 i3 = (sb, i4)" by (metis surj_pair)
  have a1: "ofh = Some fh" "arguments i1 (be64_bytes off @ be32_bytes (of_nat (length data)) @ be32_bytes lvl @ opaque_bytes data)"
    using arguments_decode [OF fhandle3_decoder [OF assms(2)] assms(1) [unfolded write_args_def]] 1 by simp_all
  have a2: "o' = off" "arguments i2 (be32_bytes (of_nat (length data)) @ be32_bytes lvl @ opaque_bytes data)"
    using arguments_decode [OF r_u64.xdr_decoder_axioms a1(2)] 2 by simp_all
  have a3: "c = of_nat (length data)" "arguments i3 (be32_bytes lvl @ opaque_bytes data)"
    using arguments_decode [OF r_u32.xdr_decoder_axioms a2(2)] 3 by simp_all
  have a4: "sb = lvl" "arguments i4 (opaque_bytes data)"
    using arguments_decode [OF r_u32.xdr_decoder_axioms a3(2)] 4 by simp_all
  define w where "w = mem_store (g_write_buf s) 0 data"
  obtain i5 where 5: "xdr_read_opaque i4 (g_write_buf s) 0 MAX_WRITE_SIZE = ((w, of_nat (length data)), i5)"
  proof -
    have v: "xdr_view i4 = opaque_bytes data @ drop (length (opaque_bytes data)) (xdr_view i4)"
      using a4(2) append_take_drop_id [of "length (opaque_bytes data)" "xdr_view i4"] by (auto simp: arguments_def)
    show thesis
      using xdr_read_opaque_decodes [OF _ _ v, of MAX_WRITE_SIZE "g_write_buf s" 0] a4(2) assms(3,4) that
      by (simp add: arguments_def nfs_wf_def MAX_WRITE_SIZE_def w_def)
  qed
  have t: "take (unat (of_nat (length data) :: u32)) w = data"
    using assms(3,4) by (simp add: w_def mem_store_def unat_of_nat nfs_wf_def MAX_WRITE_SIZE_def)
  have p: "resolve (s\<lparr>g_write_buf := w\<rparr>) fh = Some path" using assms(5) by (simp add: resolve_def)
  show ?thesis
    unfolding proc_write_def 1 2 3 4 5 Let_def prod.case a1(1) a2(1) a3(1) a4(1) option.case p
    by (intro exI [of _ i5] exI [of _ w]) (simp add: assms(6,7,8) t)
qed

lemma read_decodes:
  assumes "arguments inp (read_args fh off n)" and "fh_ok fh" and "unat n \<le> 65536"
    and "resolve s fh = Some path" and "stat_opt env path (nv s) = (st, v1)"
    and "vfs_pread (n_mvs env) (n_now env) path n off v1 = (Inr (b, eof), v2)"
  shows "fst (snd (proc_read env xid inp out s)) =
    xdr_write_opaque b (of_nat (length b)) (xdr_write_uint32 (if eof then 1 else 0) (xdr_write_uint32 (of_nat (length b))
      (xdr_write_post_op_attr st (xdr_write_uint32 NFS3_OK (reply_ok_hdr xid out)))))"
proof -
  obtain ofh i1 where 1: "xdr_read_fhandle3 inp = (ofh, i1)" by (metis surj_pair)
  obtain o' i2 where 2: "xdr_read_uint64 i1 = (o', i2)" by (metis surj_pair)
  obtain c i3 where 3: "xdr_read_uint32 i2 = (c, i3)" by (metis surj_pair)
  have a1: "ofh = Some fh" "arguments i1 (be64_bytes off @ be32_bytes n)"
    using arguments_decode [OF fhandle3_decoder [OF assms(2)] assms(1) [unfolded read_args_def]] 1 by simp_all
  have a2: "o' = off" "arguments i2 (be32_bytes n @ [])"
    using arguments_decode [OF r_u64.xdr_decoder_axioms a1(2)] 2 by simp_all
  have a3: "c = n" using arguments_decode [OF r_u32.xdr_decoder_axioms a2(2)] 3 by simp
  have m: "(if MAX_READ_SIZE < n then MAX_READ_SIZE else n) = n"
    using assms(3) by (simp add: MAX_READ_SIZE_def word_less_nat_alt)
  show ?thesis
    unfolding proc_read_def 1 2 3 Let_def prod.case a1(1) a2(1) a3 option.case assms(4,5) m assms(6) sum.case by simp
qed


section \<open>Written data are read back\<close>

lemma slot_new_error: "pww_slot_new env now e d dsn m s = (Inl err, s') \<Longrightarrow> err \<noteq> E_OK"
  by (auto simp: pww_slot_new_def pww_lock_def Let_def split_def split: option.splits prod.splits if_splits)

lemma admit_error: "slot_admit env i data off s = (Some err, s') \<Longrightarrow> err \<noteq> E_OK"
  by (auto simp: slot_admit_def blkcalc_admit_write_def Let_def split_def split: option.splits prod.splits if_splits)

lemma store_range_error:
  assumes "pww_store_range junk k pm off data fs = (Some err, pm', fs')"
  shows "err \<noteq> E_OK"
proof -
  have c: "fst (pww_slot_ensure_cap junk pm n fs) \<noteq> Some E_OK" for n
    by (auto simp: pww_slot_ensure_cap_def Let_def split: prod.splits)
  have t: "fst (if \<not> has_spill_file_open pm then pww_spill_transition k pm fs else (None, pm, fs)) \<noteq> Some E_OK"
    by (auto simp: pww_spill_transition_def Let_def split: prod.splits)
  show ?thesis
  proof (cases "\<not> has_spill_file_open pm \<and> off + of_nat (length data) \<le> of_nat PWW_SPILL_THRESHOLD")
    case True
    then show ?thesis using assms c [of "unat (off + of_nat (length data))"]
      by (cases "pww_slot_ensure_cap junk pm (unat (off + of_nat (length data))) fs")
        (auto simp: pww_store_range_def Let_def split: option.splits)
  next
    case False
    obtain a b d where q: "(if \<not> has_spill_file_open pm then pww_spill_transition k pm fs else (None, pm, fs)) = (a, b, d)"
      by (metis prod_cases3)
    obtain ok sp fs2 where w: "spill_write (spill b) (ucast off) data d = (ok, sp, fs2)" by (metis prod_cases3)
    have "a \<noteq> Some E_OK" using t q by simp
    then show ?thesis
      using assms unfolding pww_store_range_def Let_def q if_not_P [OF False] by (cases a; cases ok) (simp_all add: w)
  qed
qed

lemma store_error: "slot_store env i data off s = (Some err, s') \<Longrightarrow> err \<noteq> E_OK"
  using store_range_error by (auto simp: slot_store_def Let_def split: prod.splits)

lemma write_error:
  assumes "pww_write env now e d dsn m data off s = (Some err, s')"
  shows "err \<noteq> E_OK"
proof (cases "pww_check_member_cap off (of_nat (length data))")
  case (Some x)
  then show ?thesis using assms by (auto simp: pww_write_def pww_check_member_cap_def split: if_splits)
next
  case None
  obtain c s0 where c: "pww_check_dataset_space now dsn s = (c, s0)" by (metis surj_pair)
  show ?thesis
  proof (cases c)
    case (Some x)
    then show ?thesis using assms c None by (auto simp: pww_write_def pww_check_dataset_space_def split_def Let_def split: if_splits)
  next
    case N: None
    obtain r s1 where n: "(case pww_slot_find dsn m s0 of
        None \<Rightarrow> if off \<noteq> 0 then (Inl EIO, s0) else pww_slot_new env now e d dsn m s0 | Some i \<Rightarrow> (Inr i, s0)) = (r, s1)"
      by (metis surj_pair)
    note w = assms [unfolded pww_write_def None option.case c prod.case N n Let_def]
    show ?thesis
    proof (cases r)
      case (Inl x)
      then show ?thesis using w n slot_new_error by (auto split: option.splits if_splits)
    next
      case (Inr i)
      obtain a s2 where a: "slot_admit env i data off s1 = (a, s2)" by (metis surj_pair)
      obtain b s3 where b: "slot_store env i data off s2 = (b, s3)" by (metis surj_pair)
      show ?thesis using w a b Inr admit_error store_error by (auto split: option.splits)
    qed
  qed
qed

lemma pwrite_error: "vfs_pwrite env now path data off s = (Some err, s') \<Longrightarrow> err \<noteq> E_OK"
proof -
  have g: "fst (mvs_get_pds_dsn_and_member es p e) \<noteq> Some E_OK" for es p e
    by (auto simp: mvs_get_pds_dsn_and_member_def Let_def split_def split: option.splits)
  have t: "member_target es p e d \<noteq> Inl E_OK" for es p e d
    using g [of es p e] by (auto simp: member_target_def mvs_check_writable_def split: option.splits prod.splits if_splits)
  assume w: "vfs_pwrite env now path data off s = (Some err, s')"
  obtain k e d where k: "mvs_path_type (vexports s) (ebcdic_path path) = (k, e, d)" by (metis prod_cases3)
  show ?thesis
  proof (cases "member_target (vexports s) (ebcdic_path path) e d")
    case (Inl x)
    then show ?thesis using w k t [of "vexports s" "ebcdic_path path" e d] by (auto simp: vfs_pwrite_def split: if_splits)
  next
    case (Inr x)
    then show ?thesis using w k write_error
      by (cases x; cases "pww_write env now e d (fst x) (snd x) data off (pw s)") (auto simp: vfs_pwrite_def lift_pw_def split: if_splits)
  qed
qed

lemma pwrite_names:
  assumes "vfs_pwrite env now path data off s = (r, s')"
  shows "same_names (vexports s) (vexports s')"
proof -
  obtain k e d where k: "mvs_path_type (vexports s) (ebcdic_path path) = (k, e, d)" by (metis prod_cases3)
  show ?thesis
  proof (cases "member_target (vexports s) (ebcdic_path path) e d")
    case (Inl x)
    then show ?thesis using assms k by (auto simp: vfs_pwrite_def split: if_splits)
  next
    case (Inr x)
    obtain q p where w: "pww_write env now e d (fst x) (snd x) data off (pw s) = (q, p)" by (metis surj_pair)
    show ?thesis using assms k w Inr write_names [OF w]
      by (cases x) (auto simp: vfs_pwrite_def lift_pw_def vexports_def split: if_splits)
  qed
qed

lemma undisturbed_quiet:
  assumes "undisturbed s s'"
  shows "pool_inv (pw s') = pool_inv (pw s)" and "quiet now (pw s) \<Longrightarrow> quiet now (pw s')"
    and "write_gap_ok (pw s') k off = write_gap_ok (pw s) k off"
proof -
  have e: "pool (pw s') = pool (pw s)" "enqs (pw s') = enqs (pw s)" using assms by (simp_all add: undisturbed_def)
  show "pool_inv (pw s') = pool_inv (pw s)" "write_gap_ok (pw s') k off = write_gap_ok (pw s) k off"
    unfolding pool_inv_def idents_def write_gap_ok_def pww_slot_find_def e by (rule refl)+
  show "quiet now (pw s) \<Longrightarrow> quiet now (pw s')" using assms by (auto simp: undisturbed_def quiet_def)
qed

lemma append_same:
  assumes "xdr_wf x" and "unat (xpos x) + length a \<le> unat (xcap x)" and "unat (xpos x) + length b \<le> unat (xcap x)"
    and "xdr_append a x = xdr_append b x"
  shows "a = b"
proof -
  have l: "length a = length b"
    using xdr_append_wf(3) [OF assms(1,2)] xdr_append_wf(3) [OF assms(1,3)] assms(4) by simp
  have "mem_store (xbase x) (unat (xpos x)) a = mem_store (xbase x) (unat (xpos x)) b"
    using arg_cong [OF assms(4), of xbase] by (simp add: xdr_append_def)
  moreover have "unat (xpos x) + length a \<le> length (xbase x)" using assms(1,2) by (simp add: xdr_wf_def)
  ultimately show ?thesis using l mem_slice_store_same [of "unat (xpos x)" a "xbase x"] mem_slice_store_same [of "unat (xpos x)" b "xbase x"]
    by metis
qed

lemma emits_same:
  assumes "emits x a y" and "emits x b y" and "out_wf x" and "\<not> xerr y"
  shows "a = b"
  using assms append_same [of x a b] by (auto simp: emits_def out_wf_def)


text \<open>The encodings of attributes.\<close>

definition fattr3_bytes :: "vfs_stat_t \<Rightarrow> bytes" where
  "fattr3_bytes a =
     be32_bytes (st_ftype a) @ be32_bytes (st_mode a) @ be32_bytes (st_nlink a) @ be32_bytes (st_uid a) @ be32_bytes (st_gid a) @
     be64_bytes (st_size a) @ be64_bytes (st_used a) @ be32_bytes (st_rdev_maj a) @ be32_bytes (st_rdev_min a) @
     be64_bytes (st_fsid a) @ be64_bytes (st_fileid a) @ be32_bytes (atime_sec a) @ be32_bytes (atime_nsec a) @
     be32_bytes (mtime_sec a) @ be32_bytes (mtime_nsec a) @ be32_bytes (ctime_sec a) @ be32_bytes (ctime_nsec a)"

definition post_op_bytes :: "vfs_stat_t option \<Rightarrow> bytes" where
  "post_op_bytes st = (case st of None \<Rightarrow> be32_bytes 0 | Some a \<Rightarrow> be32_bytes 1 @ fattr3_bytes a)"

definition wcc_bytes :: "vfs_stat_t option \<Rightarrow> vfs_stat_t option \<Rightarrow> bytes" where
  "wcc_bytes pre post =
     (case pre of None \<Rightarrow> be32_bytes 0
      | Some a \<Rightarrow> be32_bytes 1 @ be64_bytes (st_size a) @ be32_bytes (mtime_sec a) @ be32_bytes (mtime_nsec a) @
          be32_bytes (ctime_sec a) @ be32_bytes (ctime_nsec a)) @ post_op_bytes post"

lemma emits_fattr3: "emits x e y \<Longrightarrow> emits x (e @ fattr3_bytes a) (xdr_write_fattr3 a y)"
proof -
  assume "emits x e y"
  then have "\<exists>z. z = e @ fattr3_bytes a \<and> emits x z (xdr_write_fattr3 a y)"
    unfolding xdr_write_fattr3_def Let_def
    by (intro exI conjI) (rule refl, unfold fattr3_bytes_def append_assoc [symmetric], intro emit_intros)
  then show ?thesis by simp
qed

lemma emits_post_op [emit_intros]: "emits x e y \<Longrightarrow> emits x (e @ post_op_bytes st) (xdr_write_post_op_attr st y)"
  using emits_fattr3 [OF emits_u32 [of x e y 1]] emits_u32 [of x e y 0]
  by (cases st) (simp_all add: post_op_bytes_def xdr_write_post_op_attr_def)

lemma emits_wcc [emit_intros]: "emits x e y \<Longrightarrow> emits x (e @ wcc_bytes pre post) (xdr_write_wcc_data pre post y)"
proof (cases pre)
  case None
  assume "emits x e y"
  then have "emits x ((e @ be32_bytes 0) @ post_op_bytes post) (xdr_write_wcc_data pre post y)"
    unfolding xdr_write_wcc_data_def None option.case by (intro emit_intros)
  then show ?thesis by (simp add: wcc_bytes_def None)
next
  case (Some a)
  assume "emits x e y"
  then have "emits x ((((((e @ be32_bytes 1) @ be64_bytes (st_size a)) @ be32_bytes (mtime_sec a)) @ be32_bytes (mtime_nsec a)) @
      be32_bytes (ctime_sec a)) @ be32_bytes (ctime_nsec a) @ post_op_bytes post) (xdr_write_wcc_data pre post y)"
    unfolding xdr_write_wcc_data_def Some option.case append_assoc [symmetric] by (intro emit_intros)
  then show ?thesis by (simp add: wcc_bytes_def Some)
qed

lemma emits_ok_hdr: "emits out (reply_hdr_bytes xid RPC_SUCCESS) (reply_ok_hdr xid out)"
  using emits_hdr [OF emits_Nil] by (simp add: reply_ok_hdr_def)

lemma status_emitted:
  assumes "nfs_wf s"
  shows "\<exists>rest. emits out (reply_hdr_bytes xid RPC_SUCCESS @ be32_bytes st @ rest)
    (let o1 = xdr_write_wcc_data pre post (xdr_write_uint32 st (reply_ok_hdr xid out))
     in if st = NFS3_OK then xdr_write_raw (g_write_verifier s) 8 (xdr_write_uint32 c (xdr_write_uint32 n o1)) else o1)"
proof -
  have w: "emits out ((reply_hdr_bytes xid RPC_SUCCESS @ be32_bytes st) @ wcc_bytes pre post)
      (xdr_write_wcc_data pre post (xdr_write_uint32 st (reply_ok_hdr xid out)))"
    by (intro emit_intros emits_ok_hdr)
  note v = emits_raw [OF emits_u32 [OF emits_u32 [OF w, of n], of c], of 8 "g_write_verifier s"]
  show ?thesis using w v assms by (cases "st = NFS3_OK") (auto simp: Let_def nfs_wf_def BUF_SIZE_def)
qed

text \<open>What an accepted WRITE leaves.\<close>

lemma write_leaves_pending:
  assumes "arguments inp (write_args fh off lvl data)" and "fh_ok fh" and "length data \<le> 65536"
    and "unat off + length data < 2 ^ 32" and "resolve s fh = Some path"
    and "mvs_get_pds_dsn_and_member (vexports (nv s)) (ebcdic_path path) e = (None, dsn, m)"
    and "mvs_path_type (vexports (nv s)) (ebcdic_path path) = (MVS_PATH_TYPE_PDS_MEMBER, e, d)" and "key_ok (dsn, m)"
    and "pool_inv (pw (nv s))" and "quiet (n_now env) (pw (nv s))" and "\<forall>pm \<in> set (pool (pw (nv s))). used pm \<longrightarrow> pm_wf pm"
    and "write_gap_ok (pw (nv s)) (dsn, m) off" and "nfs_wf s" and "out_wf out"
    and "proc_write env xid inp out s = (inp1, out1, s1)" and "\<not> xerr out1"
    and "emits out (reply_hdr_bytes xid RPC_SUCCESS @ be32_bytes NFS3_OK @ rest) out1"
  shows "pending_at (nv s1) path off data \<and> resolve s1 fh = Some path"
proof -
  obtain pre v1 where 1: "stat_opt env path (nv s) = (pre, v1)" by (metis surj_pair)
  obtain r v2 where 2: "vfs_pwrite (n_mvs env) (n_now env) path data off v1 = (r, v2)" by (metis surj_pair)
  obtain post v3 where 3: "stat_opt env path v2 = (post, v3)" by (metis surj_pair)
  have u1: "undisturbed (nv s) v1" and u3: "undisturbed v2 v3"
    using stat_opt_undisturbed [of "nv s" env path] stat_opt_undisturbed [of v2 env path] 1 3 by simp_all
  obtain i w where out1: "out1 = (let o1 = xdr_write_wcc_data pre post (xdr_write_uint32 (errno_status r) (reply_ok_hdr xid out))
      in if errno_status r = NFS3_OK then xdr_write_raw (g_write_verifier s) 8
           (xdr_write_uint32 (if r = None then lvl else UNSTABLE) (xdr_write_uint32 (of_nat (length data)) o1)) else o1)"
    and s1: "s1 = s\<lparr>g_write_buf := w, nv := v3\<rparr>"
    using write_decodes [OF assms(1,2,13,3,5) 1 2 3] assms(15) by (metis prod.inject)
  obtain rest' where "emits out (reply_hdr_bytes xid RPC_SUCCESS @ be32_bytes (errno_status r) @ rest') out1"
    using status_emitted [OF assms(13)] unfolding out1 by blast
  from emits_same [OF assms(17) this assms(14,16)] have "errno_status r = NFS3_OK" by simp
  then have r: "r = None" using pwrite_error [of "n_mvs env" "n_now env" path data off v1] 2
    by (auto simp: errno_status_def vfs_errno_to_nfs3_ok split: option.splits)
  have n: "same_names (vexports (nv s)) (vexports v1)" and pl: "pool (pw v1) = pool (pw (nv s))"
    using u1 by (simp_all add: undisturbed_def)
  have "pending_at v2 path off data"
    using pwrite_pending [of v1 "n_now env" path e dsn m d off data "n_mvs env" v2] undisturbed_quiet [OF u1]
      path_type_names [OF n] get_names [OF n] pl assms(4,6-12) 2 r by simp
  then have "pending_at v3 path off data" by (rule undisturbed_pending [OF u3])
  moreover have "same_names (vexports (nv s)) (vexports v3)"
    using same_names_trans [OF n same_names_trans [OF pwrite_names [OF 2]]] u3 by (simp add: undisturbed_def)
  ultimately show ?thesis using assms(5) by (simp add: resolve_def s1 resolve_names)
qed

text \<open>
  C1. Data written are the data read. A WRITE of non-empty data that a member of the exported
  data sets accepts, as its reply says, is followed by a READ of the same range: the reply to
  it is that of success, and its data are those written, whatever the transaction, the time and
  the system between them. The calls are taken from the wire and the replies are the bytes
  written to it. The pool of pending members is in a state of its invariant, in which no
  system service fails and no data set is known to be full.
\<close>
theorem nfs_write_read:
  assumes "arguments inp (write_args fh off lvl data)" and "fh_ok fh" and "length data \<le> 65536"
    and "unat off + length data < 2 ^ 32" and "resolve s fh = Some path"
    and "mvs_get_pds_dsn_and_member (vexports (nv s)) (ebcdic_path path) e = (None, dsn, m)"
    and "mvs_path_type (vexports (nv s)) (ebcdic_path path) = (MVS_PATH_TYPE_PDS_MEMBER, e, d)" and "key_ok (dsn, m)"
    and "pool_inv (pw (nv s))" and "quiet (n_now env) (pw (nv s))" and "\<forall>pm \<in> set (pool (pw (nv s))). used pm \<longrightarrow> pm_wf pm"
    and "write_gap_ok (pw (nv s)) (dsn, m) off" and "nfs_wf s" and "out_wf out"
    and "proc_write env xid inp out s = (inp1, out1, s1)" and "\<not> xerr out1"
    and "emits out (reply_hdr_bytes xid RPC_SUCCESS @ be32_bytes NFS3_OK @ rest) out1"
    and "arguments inp2 (read_args fh off (of_nat (length data)))" and "data \<noteq> []"
  shows "\<exists>st eof. emits out2
      (reply_hdr_bytes xid2 RPC_SUCCESS @ be32_bytes NFS3_OK @ post_op_bytes st @ be32_bytes (of_nat (length data)) @
         be32_bytes (if eof then 1 else 0) @ opaque_bytes data)
      (fst (snd (proc_read env2 xid2 inp2 out2 s1)))"
proof -
  have p: "pending_at (nv s1) path off data" and rs: "resolve s1 fh = Some path"
    using write_leaves_pending [OF assms(1-17)] by simp_all
  obtain st v4 where 4: "stat_opt env2 path (nv s1) = (st, v4)" by (metis surj_pair)
  have "pending_at v4 path off data"
    using undisturbed_pending [OF _ p] stat_opt_undisturbed [of "nv s1" env2 path] 4 by simp
  then obtain eof v5 where 5: "vfs_pread (n_mvs env2) (n_now env2) path (of_nat (length data)) off v4 = (Inr (data, eof), v5)"
    using pread_pending_at assms(19) by blast
  have l: "unat (of_nat (length data) :: u32) = length data" using assms(3) by (simp add: unat_of_nat)
  then have l': "unat (of_nat (length data) :: u32) \<le> 65536" using assms(3) by simp
  note reply = read_decodes [OF assms(18,2) l' rs 4 5, of xid2 out2]
  note e = emits_opaque [OF emits_u32 [OF emits_u32 [OF emits_post_op [OF emits_u32 [OF emits_ok_hdr]]]] l]
  have "length data \<le> BUF_SIZE" using assms(3) by (simp add: BUF_SIZE_def)
  from e [OF this, of out2 xid2 NFS3_OK st "of_nat (length data)" "if eof then 1 else 0"] show ?thesis
    unfolding reply append_assoc by blast
qed

section \<open>Witnesses\<close>

text \<open>The handle of the member \<^verbatim>\<open>B\<close> of the data set \<^verbatim>\<open>A\<close>, and the path it stands for.\<close>

definition handle_b :: our_fhandle_t where
  "handle_b = \<lparr>fh_magic = OUR_FH_MAGIC, fh_export = fh_export_id (hd admit_exports), fh_dsname = [0x41], fh_member = [0x42]\<rparr>"

definition path_b :: bytes where "path_b = [0x2F, 0x41, 0x2F, 0x62]"

lemma handle_b_ok: "fh_ok handle_b" "resolve start_nfs handle_b = Some path_b"
proof -
  show "fh_ok handle_b" by (simp add: fh_ok_def handle_b_def)
  have "fh_resolve (vexports start_vfs) handle_b (of_nat MAX_PATH) = Some path_b" by code_simp
  then show "resolve start_nfs handle_b = Some path_b" by (simp add: resolve_def start_nfs_def)
qed

lemma path_b_target:
  "mvs_get_pds_dsn_and_member (vexports start_vfs) (ebcdic_path path_b) 0 = (None, [0xC1], [0xC2])"
  "mvs_path_type (vexports start_vfs) (ebcdic_path path_b) = (MVS_PATH_TYPE_PDS_MEMBER, 0, 0)"
  "member_target (vexports start_vfs) (ebcdic_path path_b) 0 0 = Inr ([0xC1], [0xC2])"
  by code_simp+

lemma start_stat: "stat_opt sample_env path_b start_vfs = (None, start_vfs)"
proof -
  have "mvsvfs_find_cached_member 100 [0xC1] [0xC2] (dir_pool (pw start_vfs)) = (None, dir_pool (pw start_vfs))" by code_simp
  moreover have "isl (mvs_pds_get_member_entry (\<lambda>_. None) 0 100 [] [0xC1] [0xC2])" by code_simp
  moreover have "export_dataset_get (vexports start_vfs) 0 0 = Some admit_dataset" by code_simp
  moreover have "pww_slot_find [0xC1] [0xC2] (pw start_vfs) = None" by (simp add: start_vfs_def start_state)
  ultimately have "vfs_stat_pds_member flush_env 100 (ebcdic_path path_b) 0 0 start_vfs = (Inl ENOENT, start_vfs)"
    using path_b_target by (auto simp: vfs_stat_pds_member_def flush_env_def isl_def)
  then show ?thesis using path_b_target by (simp add: stat_opt_def vfs_stat_def sample_env_def)
qed

lemma arguments_init:
  "length enc \<le> 1024 \<Longrightarrow> arguments (xdr_init_read enc (of_nat (length enc))) enc"
  by (simp add: arguments_def xdr_init_read_def xdr_view_def mem_slice_def unat_of_nat xdr_wf_def BUF_SIZE_def)

lemma args_length: "length (write_args handle_b 0 0 [0x41, 0x0A]) = 88" "length (read_args handle_b 0 2) = 76"
proof -
  have "length (fh_encode handle_b) = 60" using fh_wire_back [of handle_b] handle_b_ok(1) by (simp add: fh_ok_def)
  then show "length (write_args handle_b 0 0 [0x41, 0x0A]) = 88" "length (read_args handle_b 0 2) = 76"
    by (simp_all add: write_args_def read_args_def opaque_bytes_def)
qed

lemma start_accepts:
  "\<exists>i o1 s1 rest. proc_write sample_env 7 (xdr_init_read (write_args handle_b 0 0 [0x41, 0x0A]) 88)
      (xdr_init_write (replicate 1024 0) 1024) start_nfs = (i, o1, s1) \<and> \<not> xerr o1 \<and>
     emits (xdr_init_write (replicate 1024 0) 1024) (reply_hdr_bytes 7 RPC_SUCCESS @ be32_bytes NFS3_OK @ rest) o1"
proof -
  let ?out = "xdr_init_write (replicate 1024 0) 1024"
  let ?inp = "xdr_init_read (write_args handle_b 0 0 [0x41, 0x0A]) 88"
  have a: "arguments ?inp (write_args handle_b 0 0 [0x41, 0x0A])"
    using arguments_init [of "write_args handle_b 0 0 [0x41, 0x0A]"] by (simp add: args_length)
  obtain v2 where 2: "vfs_pwrite flush_env 100 path_b [0x41, 0x0A] 0 start_vfs = (None, v2)"
    using start_write path_b_target by (auto simp: vfs_pwrite_def lift_pw_def start_vfs_def)
  obtain post v3 where 3: "stat_opt sample_env path_b v2 = (post, v3)" by (metis surj_pair)
  define o1 where "o1 = xdr_write_raw (g_write_verifier start_nfs) 8 (xdr_write_uint32 0 (xdr_write_uint32 2
      (xdr_write_wcc_data None post (xdr_write_uint32 NFS3_OK (reply_ok_hdr 7 ?out)))))"
  let ?rest = "((wcc_bytes None post @ be32_bytes 2) @ be32_bytes 0) @ replicate 8 0"
  have "emits ?out ((((reply_hdr_bytes 7 RPC_SUCCESS @ be32_bytes NFS3_OK) @ wcc_bytes None post) @ be32_bytes 2) @ be32_bytes 0) 
      (xdr_write_uint32 0 (xdr_write_uint32 2 (xdr_write_wcc_data None post (xdr_write_uint32 NFS3_OK (reply_ok_hdr 7 ?out)))))"
    by (intro emits_u32 emits_wcc emits_ok_hdr)
  from emits_raw [OF this, of 8 "replicate 8 0"]
  have e: "emits ?out (reply_hdr_bytes 7 RPC_SUCCESS @ be32_bytes NFS3_OK @ ?rest) o1"
    by (simp add: o1_def start_nfs_def BUF_SIZE_def)
  have "length (wcc_bytes None post) \<le> 100"
    by (cases post) (simp_all add: wcc_bytes_def post_op_bytes_def fattr3_bytes_def)
  then have "\<not> xerr o1"
    using emits_output(2) [OF e] by (simp add: xdr_init_write_def xdr_wf_def BUF_SIZE_def reply_hdr_bytes_def)
  moreover have "\<exists>i s1. proc_write sample_env 7 ?inp ?out start_nfs = (i, o1, s1)"
    using write_decodes [OF a handle_b_ok(1) start_nfs_wf(1) _ handle_b_ok(2), of sample_env None start_vfs None v2 post v3 7 ?out]
      start_stat 2 3 by (simp add: errno_status_def Let_def o1_def start_nfs_def sample_env_def) blast
  ultimately show ?thesis using e by blast
qed

theorem nfs_write_read_witness:
  "\<exists>st eof. emits (xdr_init_write (replicate 1024 0) 1024)
      (reply_hdr_bytes 8 RPC_SUCCESS @ be32_bytes NFS3_OK @ post_op_bytes st @ be32_bytes 2 @
         be32_bytes (if eof then 1 else 0) @ opaque_bytes [0x41, 0x0A])
      (fst (snd (proc_read sample_env 8 (xdr_init_read (read_args handle_b 0 2) 76) (xdr_init_write (replicate 1024 0) 1024)
        (snd (snd (proc_write sample_env 7 (xdr_init_read (write_args handle_b 0 0 [0x41, 0x0A]) 88)
          (xdr_init_write (replicate 1024 0) 1024) start_nfs))))))"
proof -
  let ?out = "xdr_init_write (replicate 1024 0) 1024"
  obtain i o1 s1 rest where w: "proc_write sample_env 7 (xdr_init_read (write_args handle_b 0 0 [0x41, 0x0A]) 88) ?out start_nfs = (i, o1, s1)"
    "\<not> xerr o1" "emits ?out (reply_hdr_bytes 7 RPC_SUCCESS @ be32_bytes NFS3_OK @ rest) o1"
    using start_accepts by blast
  have a: "arguments (xdr_init_read (write_args handle_b 0 0 [0x41, 0x0A]) 88) (write_args handle_b 0 0 [0x41, 0x0A])"
    "arguments (xdr_init_read (read_args handle_b 0 2) 76) (read_args handle_b 0 (of_nat (length [0x41, 0x0A :: u8])))"
    using arguments_init [of "write_args handle_b 0 0 [0x41, 0x0A]"] arguments_init [of "read_args handle_b 0 2"]
    by (simp_all add: args_length)
  have p: "pw start_vfs = pool_start" "nv start_nfs = start_vfs" by (simp_all add: start_vfs_def start_nfs_def)
  have v: "mvs_get_pds_dsn_and_member (vexports (nv start_nfs)) (ebcdic_path path_b) 0 = (None, [0xC1], [0xC2])"
    "mvs_path_type (vexports (nv start_nfs)) (ebcdic_path path_b) = (MVS_PATH_TYPE_PDS_MEMBER, 0, 0)"
    using path_b_target by (simp_all add: p)
  have q: "pool_inv (pw (nv start_nfs))" "quiet (n_now sample_env) (pw (nv start_nfs))"
    "\<forall>pm \<in> set (pool (pw (nv start_nfs))). used pm \<longrightarrow> pm_wf pm" "write_gap_ok (pw (nv start_nfs)) ([0xC1], [0xC2]) 0"
    using reach_inv [OF start_state(1)] start_state by (auto simp: p write_gap_ok_def)
  show ?thesis
    using nfs_write_read [OF a(1) handle_b_ok(1) _ _ handle_b_ok(2) v key_ok_sample q start_nfs_wf(1) start_buffers(1) w a(2), of ?out 8 sample_env]
      w(1) by simp
qed


text \<open>The directory of the read-only data set \<^verbatim>\<open>A\<close>, asked for by the superuser.\<close>

theorem access_not_beyond_witness:
  "\<exists>st s'. vfs_stat flush_env 100 dir_a (sample_vfs True) = (Inr st, s') \<and>
     check_access st 0 0 0x3F AND (ACCESS3_MODIFY OR ACCESS3_EXTEND OR ACCESS3_DELETE) = 0"
proof -
  obtain st s' where st: "vfs_stat flush_env 100 dir_a (sample_vfs True) = (Inr st, s')"
    using sample_paths(3,4) [of True] by (auto simp: vfs_stat_def vfs_stat_dataset_def Let_def split_def)
  show ?thesis using access_not_beyond [OF st sample_paths(3), of 0 0 "0x3F"] sample_paths(4) [of True] st by auto
qed

end
