(* ===== verification/Nfs3list.thy ===== *)
theory Nfs3list
  imports Nfs3prop
begin

text \<open>
  READDIR comes in pages that cover the directory, and two replies of \<^verbatim>\<open>src/src/nfs3.c\<close> that are
  not what the protocol asks for.
\<close>

section \<open>Listings come in pages\<close>

definition entry_bytes :: "bytes \<times> u64 \<times> u64 \<Rightarrow> bytes" where
  "entry_bytes x = be32_bytes 1 @ be64_bytes (fst (snd x)) @ opaque_bytes (fst x) @ be64_bytes (snd (snd x))"

lemma emits_entry:
  assumes "emits x e y" and "length nm \<le> 255"
  shows "emits x (e @ entry_bytes (nm, fid, c))
    (xdr_write_uint64 c (xdr_write_string nm (of_nat (length nm)) (xdr_write_uint64 fid (xdr_write_uint32 1 y))))"
proof -
  have "unat (of_nat (length nm) :: u32) = length nm" "length nm \<le> BUF_SIZE" using assms(2) by (simp_all add: unat_of_nat BUF_SIZE_def)
  from emits_u64 [OF emits_string [OF emits_u64 [OF emits_u32 [OF assms(1)]] this]] show ?thesis
    by (simp add: entry_bytes_def)
qed

text \<open>
  The loop of READDIR over whatever gives the entries of a list one by one: \<open>R\<close> are the states from which
  it does so, and \<open>S\<close> says before which entry a cookie stands.
\<close>

lemma pages_of:
  assumes step: "\<And>v c k. R v c \<Longrightarrow> S c k \<Longrightarrow> k < length L \<Longrightarrow>
      \<exists>v1. vfs_readdir_next (n_mvs env) (n_now env) i MAX_NAME c v = (Some (L ! k), v1) \<and> (\<forall>c'. R v1 c')"
    and nxt: "\<And>k. k < length L \<Longrightarrow> S (snd (snd (L ! k))) (Suc k)"
    and fin: "\<And>v c. R v c \<Longrightarrow> S c (length L) \<Longrightarrow>
      \<exists>v1. vfs_readdir_next (n_mvs env) (n_now env) i MAX_NAME c v = (None, v1)"
  shows "R v c \<Longrightarrow> S c k \<Longrightarrow> k \<le> length L \<Longrightarrow> length L - k < n \<Longrightarrow>
    \<exists>j eof z v'. readdir_loop n env i maxcount start c w out v = Some (eof, z, v') \<and> k \<le> j \<and> j \<le> length L \<and>
      (eof \<longleftrightarrow> j = length L) \<and> (w \<or> k = length L \<or> k < j) \<and> (eof \<or> (\<forall>c'. R v' c')) \<and>
      emits out (concat (map entry_bytes (take (j - k) (drop k L)))) z"
proof (induction n arbitrary: v c k w out)
  case (Suc n)
  show ?case
  proof (cases "k = length L")
    case True
    then obtain v1 where "vfs_readdir_next (n_mvs env) (n_now env) i MAX_NAME c v = (None, v1)"
      using fin Suc.prems by blast
    then show ?thesis using True emits_Nil by (intro exI [of _ k]) auto
  next
    case False
    then have k: "k < length L" using Suc.prems(3) by simp
    obtain nm fid c1 where e: "L ! k = (nm, fid, c1)" by (metis prod_cases3)
    obtain v1 where nx: "vfs_readdir_next (n_mvs env) (n_now env) i MAX_NAME c v = (Some (nm, fid, c1), v1)" and r1: "\<forall>c'. R v1 c'"
      using step [OF Suc.prems(1,2) k] e by auto
    define o1 where "o1 = xdr_write_uint64 c1 (xdr_write_string nm (of_nat (length nm)) (xdr_write_uint64 fid (xdr_write_uint32 1 out)))"
    have "length nm \<le> 255" using readdir_name_length nx by (simp add: MAX_NAME_def)
    from emits_entry [OF emits_Nil this] have o1: "emits out (entry_bytes (L ! k)) o1" by (simp add: e o1_def)
    have "length L - Suc k < n" "Suc k \<le> length L" "S c1 (Suc k)" using Suc.prems(4) k nxt [OF k] e by simp_all
    from Suc.IH [OF r1 [rule_format] this(3,2,1), of True o1]
    obtain j eof z v' where h: "readdir_loop n env i maxcount start c1 True o1 v1 = Some (eof, z, v')" "Suc k \<le> j" "j \<le> length L"
      "eof \<longleftrightarrow> j = length L" "eof \<or> (\<forall>c'. R v' c')" "emits o1 (concat (map entry_bytes (take (j - Suc k) (drop (Suc k) L)))) z" by blast
    have "take (j - k) (drop k L) = L ! k # take (j - Suc k) (drop (Suc k) L)"
      using k h(2) by (simp add: Cons_nth_drop_Suc [symmetric] take_Cons' Suc_diff_Suc)
    then have all: "emits out (concat (map entry_bytes (take (j - k) (drop k L)))) z" using emits_trans [OF o1 h(6)] by simp
    show ?thesis
    proof (cases "w \<and> maxcount < (xdr_get_pos out - start) + (4 + 8 + 4 + ((of_nat (length nm) + 3) AND NOT 3) + 8) + 8")
      case True
      then have "readdir_loop (Suc n) env i maxcount start c w out v = Some (False, out, v1)" by (simp add: nx Let_def)
      then show ?thesis using True k emits_Nil r1 by (intro exI [of _ k]) auto
    next
      case False
      then have "readdir_loop (Suc n) env i maxcount start c w out v = Some (eof, z, v')"
        using h(1) by (auto simp add: nx Let_def o1_def)
      then show ?thesis using h all by (intro exI [of _ j]) auto
    qed
  qed
qed simp

text \<open>
  The entries a directory object gives, and where a cookie stands among them. The directory of a
  data set has its member list in the cache already, or it was opened and is read by the call
  that comes, from the name in the cookie on; the root of an export lists its data sets.
\<close>

definition dir_lists :: "nfs_env \<Rightarrow> vfs_dir \<Rightarrow> u64 \<Rightarrow> pds_member_entry_t list \<Rightarrow> bool" where
  "dir_lists env d c l \<longleftrightarrow> good_list l \<and> (dir_loaded d l \<or> (\<exists>b eod. dir_fresh d b \<and>
     mvs_read_pds_dir (env_tz (n_mvs env)) (n_now env) (take 8 (from_cookie c @ 0 # env_tail (n_mvs env))) b = (l, eod)))"

definition root_entries :: "export_t \<Rightarrow> (bytes \<times> u64 \<times> u64) list" where
  "root_entries ex = map (\<lambda>k. let ds = datasets ex ! k in
     (take (MAX_NAME - 1) (dirname_ascii ds), mvs_fid_hash (Some (dsname_ebcdic ds)) None, of_nat (Suc k))) [0..<length (datasets ex)]"

lemma next_fresh:
  assumes "dir_fresh (vdirs v ! i) b" and "i < length (vdirs v)" and "good_list l" and "stands_at l c k"
    and "mvs_read_pds_dir (env_tz env) now (take 8 (from_cookie c @ 0 # env_tail env)) b = (l, eod)"
  defines "d1 \<equiv> (vdirs v ! i)\<lparr>member_list := l, end_of_dir_read := eod, pds_fh := Some []\<rparr>"
  shows "vfs_readdir_next env now i maxname c v =
    (if k < length l
     then (Some (shown (dir_ext v d1) (pds_dsname d1) maxname (l ! k)), set_dirs ((vdirs v)[i := d1\<lparr>next_cookie := to_cookie (me_name (l ! k))\<rparr>]) v)
     else (None, set_dirs ((vdirs v)[i := d1]) v))"
proof -
  have d1: "load_members env now (from_cookie c) (vdirs v ! i) = d1"
    using assms(1,5) by (simp add: load_members_def dir_fresh_def d1_def)
  have s: "dir_openlist_search_members (map me_name l) (cstr (from_cookie c)) SEARCH_OP_GT = (if k < length l then Some (int k) else None)"
    using search_gt [of "map me_name l" "cstr (from_cookie c)" k] assms(3,4) by (auto simp: good_list_def stands_at_def)
  have l: "member_list d1 = l" by (simp add: d1_def)
  show ?thesis using assms(1) unfolding vfs_readdir_next_def Let_def d1 by (simp add: s l dir_fresh_def shown_def dir_ext_def)
qed

lemma dir_ext_upd [simp]:
  "dir_ext v (d\<lparr>next_cookie := z\<rparr>) = dir_ext v d" "dir_ext v (d\<lparr>member_list := l\<rparr>) = dir_ext v d"
  "dir_ext v (d\<lparr>end_of_dir_read := e\<rparr>) = dir_ext v d" "dir_ext v (d\<lparr>pds_fh := f\<rparr>) = dir_ext v d"
  by (simp_all add: dir_ext_def)

text \<open>A directory of a data set that will show the members \<open>l\<close> with this extension and name.\<close>

definition will_show :: "nfs_env \<Rightarrow> nat \<Rightarrow> pds_member_entry_t list \<Rightarrow> bytes \<Rightarrow> bytes \<Rightarrow> vfs_state \<Rightarrow> u64 \<Rightarrow> bool" where
  "will_show env i l x dsn v c \<longleftrightarrow> i < length (vdirs v) \<and> dir_lists env (vdirs v ! i) c l \<and>
     dir_ext v (vdirs v ! i) = x \<and> pds_dsname (vdirs v ! i) = dsn"

lemma next_listed:
  assumes "will_show env i l x dsn v c" and "stands_at l c k" and "k < length l"
  shows "\<exists>v1. vfs_readdir_next (n_mvs env) (n_now env) i MAX_NAME c v = (Some (shown x dsn MAX_NAME (l ! k)), v1) \<and>
    (\<forall>c'. will_show env i l x dsn v1 c')"
proof -
  note a = assms(1) [unfolded will_show_def]
  have g: "good_list l" using a by (simp add: dir_lists_def)
  have loaded: "will_show env i l x dsn (set_dirs ((vdirs v)[i := d]) v) c'"
    if "dir_loaded d l" "dir_ext v d = x" "pds_dsname d = dsn" for d c'
    using that a g by (simp add: will_show_def dir_lists_def dir_ext_def)
  show ?thesis
  proof (cases "dir_loaded (vdirs v ! i) l")
    case True
    have "dir_loaded ((vdirs v ! i)\<lparr>next_cookie := z\<rparr>) l" for z using True by (simp add: dir_loaded_def)
    then show ?thesis using next_shows [OF g True assms(2,3), of "n_mvs env" "n_now env" MAX_NAME] a loaded by auto
  next
    case False
    then obtain b eod where f: "dir_fresh (vdirs v ! i) b"
      "mvs_read_pds_dir (env_tz (n_mvs env)) (n_now env) (take 8 (from_cookie c @ 0 # env_tail (n_mvs env))) b = (l, eod)"
      using a by (auto simp: dir_lists_def)
    have i: "i < length (vdirs v)" using a by simp
    have "dir_loaded ((vdirs v ! i)\<lparr>member_list := l, end_of_dir_read := eod, pds_fh := Some [], next_cookie := z\<rparr>) l" for z
      using f(1) by (simp add: dir_loaded_def dir_fresh_def)
    then show ?thesis using next_fresh [OF f(1) i g assms(2) f(2), of MAX_NAME] assms(3) a loaded by auto
  qed
qed

lemma next_listed_end:
  assumes "will_show env i l x dsn v c" and "stands_at l c (length l)"
  shows "\<exists>v1. vfs_readdir_next (n_mvs env) (n_now env) i MAX_NAME c v = (None, v1)"
proof (cases "dir_loaded (vdirs v ! i) l")
  case True
  then show ?thesis using next_ends assms(2) by blast
next
  case False
  note a = assms(1) [unfolded will_show_def dir_lists_def]
  obtain b eod where f: "dir_fresh (vdirs v ! i) b"
    "mvs_read_pds_dir (env_tz (n_mvs env)) (n_now env) (take 8 (from_cookie c @ 0 # env_tail (n_mvs env))) b = (l, eod)"
    using a False by auto
  show ?thesis using next_fresh [OF f(1) _ _ assms(2) f(2)] a by simp
qed

lemma root_next:
  assumes "dir_level (vdirs v ! i) = MVS_LEVEL_ROOT" and "exports_get (vexports v) (vd_export (vdirs v ! i)) = Some ex"
    and "sint (ucast c :: u32) = int k" and "k \<le> length (datasets ex)"
  shows "vfs_readdir_next env now i MAX_NAME c v = ((if k < length (datasets ex) then Some (root_entries ex ! k) else None), v)"
  using assms by (simp add: vfs_readdir_next_def root_readdir_next_def export_dataset_count_def export_dataset_get_def root_entries_def Let_def)

lemma small_cookie: "k < 2 ^ 31 \<Longrightarrow> sint (ucast (of_nat k :: u64) :: u32) = int k"
proof -
  assume k: "k < 2 ^ 31"
  have "(ucast (of_nat k :: u64) :: u32) = of_nat k" by (rule bit_word_eqI) (simp add: bit_simps)
  moreover have "sint (of_nat k :: u32) = signed_take_bit 31 (int k)" by (simp add: signed_of_nat)
  ultimately show ?thesis using k by (simp add: signed_take_bit_int_eq_self)
qed

text \<open>
  C9. Listings come in pages that cover the directory. The directory of a data set is listed
  from its member list, which is in the cache or is read by the first call after the opening,
  from the name in the cookie on; the root of an export is listed from the export's data sets.
  Of the entries so listed, a READDIR whose cookie stands before entry k returns, with fuel for
  the rest of the entries; the page holds the entries from k up to some j, each with its file
  number, its name and its cookie; it is never empty while entries are left, however small the
  client's limit; it says that the end was reached exactly when it was; and the cookie of its
  last entry stands before entry j of a directory that, unless the end was reached, still shows
  the same entries, so the pages that follow one another hold every entry once.
\<close>
theorem readdir_pages:
  "(will_show env i l x dsn v c \<longrightarrow> stands_at l c k \<longrightarrow> length l - k < n \<longrightarrow>
     (\<exists>j eof z v'. readdir_loop n env i maxcount start c False out v = Some (eof, z, v') \<and> j \<le> length l \<and>
        (eof \<longleftrightarrow> j = length l) \<and> (k = length l \<or> k < j) \<and> (k < j \<longrightarrow> stands_at l (to_cookie (me_name (l ! (j - 1)))) j) \<and>
        (eof \<or> (\<forall>c'. will_show env i l x dsn v' c')) \<and>
        emits out (concat (map (\<lambda>e. entry_bytes (shown x dsn MAX_NAME e)) (take (j - k) (drop k l)))) z)) \<and>
   (dir_level (vdirs v ! i) = MVS_LEVEL_ROOT \<longrightarrow> exports_get (vexports v) (vd_export (vdirs v ! i)) = Some ex \<longrightarrow>
      length (datasets ex) < 2 ^ 31 \<longrightarrow> sint (ucast c :: u32) = int k \<longrightarrow> k \<le> length (datasets ex) \<longrightarrow> length (datasets ex) - k < n \<longrightarrow>
     (\<exists>j eof z v'. readdir_loop n env i maxcount start c False out v = Some (eof, z, v') \<and> j \<le> length (datasets ex) \<and>
        (eof \<longleftrightarrow> j = length (datasets ex)) \<and> (k = length (datasets ex) \<or> k < j) \<and>
        (k < j \<longrightarrow> sint (ucast (snd (snd (root_entries ex ! (j - 1)))) :: u32) = int j) \<and> (eof \<or> v' = v) \<and>
        emits out (concat (map entry_bytes (take (j - k) (drop k (root_entries ex))))) z))"
proof (intro conjI impI)
  assume a: "will_show env i l x dsn v c" "stands_at l c k" "length l - k < n"
  then have g: "good_list l" and k: "k \<le> length l" by (simp_all add: will_show_def dir_lists_def stands_at_def)
  let ?L = "map (shown x dsn MAX_NAME) l"
  have nx: "stands_at l (to_cookie (me_name (l ! m))) (Suc m)" if "m < length l" for m using stands_next [OF g that] .
  have "\<exists>j eof z v'. readdir_loop n env i maxcount start c False out v = Some (eof, z, v') \<and> k \<le> j \<and> j \<le> length ?L \<and>
      (eof \<longleftrightarrow> j = length ?L) \<and> (False \<or> k = length ?L \<or> k < j) \<and> (eof \<or> (\<forall>c'. will_show env i l x dsn v' c')) \<and>
      emits out (concat (map entry_bytes (take (j - k) (drop k ?L)))) z"
  proof (rule pages_of [where S = "stands_at l"])
    show "\<exists>v1. vfs_readdir_next (n_mvs env) (n_now env) i MAX_NAME c v = (Some (?L ! k), v1) \<and> (\<forall>c'. will_show env i l x dsn v1 c')"
      if "will_show env i l x dsn v c" "stands_at l c k" "k < length ?L" for v c k using next_listed [OF that(1,2)] that(3) by simp
    show "stands_at l (snd (snd (?L ! m))) (Suc m)" if "m < length ?L" for m using nx that by (simp add: shown_def)
    show "\<exists>v1. vfs_readdir_next (n_mvs env) (n_now env) i MAX_NAME c v = (None, v1)"
      if "will_show env i l x dsn v c" "stands_at l c (length ?L)" for v c using next_listed_end [OF that(1)] that(2) by simp
  qed (use a k in simp_all)
  moreover have "k < j \<longrightarrow> stands_at l (to_cookie (me_name (l ! (j - 1)))) j" if "j \<le> length l" for j using nx [of "j - 1"] that by (cases j) auto
  ultimately show "\<exists>j eof z v'. readdir_loop n env i maxcount start c False out v = Some (eof, z, v') \<and> j \<le> length l \<and>
        (eof \<longleftrightarrow> j = length l) \<and> (k = length l \<or> k < j) \<and> (k < j \<longrightarrow> stands_at l (to_cookie (me_name (l ! (j - 1)))) j) \<and>
        (eof \<or> (\<forall>c'. will_show env i l x dsn v' c')) \<and>
        emits out (concat (map (\<lambda>e. entry_bytes (shown x dsn MAX_NAME e)) (take (j - k) (drop k l)))) z"
    unfolding length_map take_map drop_map map_map comp_def by (metis (no_types, lifting))
next
  assume a: "dir_level (vdirs v ! i) = MVS_LEVEL_ROOT" "exports_get (vexports v) (vd_export (vdirs v ! i)) = Some ex"
    "length (datasets ex) < 2 ^ 31" "sint (ucast c :: u32) = int k" "k \<le> length (datasets ex)" "length (datasets ex) - k < n"
  let ?L = "root_entries ex"
  have l: "length ?L = length (datasets ex)" by (simp add: root_entries_def)
  have nx: "sint (ucast (snd (snd (?L ! m))) :: u32) = int (Suc m)" if "m < length ?L" for m
    using small_cookie [of "Suc m"] that a(3) l by (simp add: root_entries_def Let_def del: of_nat_Suc)
  have "\<exists>j eof z v'. readdir_loop n env i maxcount start c False out v = Some (eof, z, v') \<and> k \<le> j \<and> j \<le> length ?L \<and>
      (eof \<longleftrightarrow> j = length ?L) \<and> (False \<or> k = length ?L \<or> k < j) \<and> (eof \<or> (\<forall>c' :: u64. v' = v)) \<and>
      emits out (concat (map entry_bytes (take (j - k) (drop k ?L)))) z"
    by (rule pages_of [where S = "\<lambda>c k. sint (ucast c :: u32) = int k" and R = "\<lambda>v' c. v' = v"])
      (use a l nx root_next [OF a(1,2)] in simp_all)
  moreover have "k < j \<longrightarrow> sint (ucast (snd (snd (?L ! (j - 1)))) :: u32) = int j" if "j \<le> length ?L" for j using nx [of "j - 1"] that by (cases j) auto
  ultimately show "\<exists>j eof z v'. readdir_loop n env i maxcount start c False out v = Some (eof, z, v') \<and> j \<le> length (datasets ex) \<and>
        (eof \<longleftrightarrow> j = length (datasets ex)) \<and> (k = length (datasets ex) \<or> k < j) \<and>
        (k < j \<longrightarrow> sint (ucast (snd (snd (?L ! (j - 1)))) :: u32) = int j) \<and> (eof \<or> v' = v) \<and>
        emits out (concat (map entry_bytes (take (j - k) (drop k ?L)))) z"
    unfolding l by (metis (no_types, lifting))
qed

section \<open>Replies that are not what they should be\<close>

text \<open>
  C39. A REMOVE whose name is too long is not refused: the name the client sent is not read, and
  the object that is removed from the directory is the one whose name was left in the buffer on
  the stack, if that is a name.
\<close>
theorem remove_stale_name:
  assumes "arguments inp (opaque_bytes (fh_encode fh) @ be32_bytes n)" and "fh_ok fh" and "MAX_NAME \<le> unat n"
    and "resolve s fh = Some dir" and "name_is_valid (cstr (n_name env))"
  shows "nv (snd (snd (proc_remove env xid inp out s))) =
    (let v1 = snd (stat_opt env dir (nv s));
         v2 = snd (vfs_remove (n_mvs env) (n_now env) (join_path dir (cstr (n_name env))) v1)
     in snd (stat_opt env dir v2))"
proof -
  obtain ofh i1 where 1: "xdr_read_fhandle3 inp = (ofh, i1)" by (metis surj_pair)
  have a1: "ofh = Some fh" "arguments i1 (be32_bytes n @ [])"
    using arguments_decode [OF fhandle3_decoder [OF assms(2)] assms(1)] 1 by simp_all
  obtain m i2 where 2: "xdr_read_uint32 i1 = (m, i2)" by (metis surj_pair)
  have a2: "m = n" "arguments i2 []" using arguments_decode [OF r_u32.xdr_decoder_axioms a1(2)] 2 by simp_all
  have "snd (fst (xdr_read_string i1 (n_name env) (of_nat MAX_NAME))) = n_name env"
    using assms(3) a2 2 by (simp add: xdr_read_string_def MAX_NAME_def word_le_nat_alt arguments_def)
  then show ?thesis
    using assms(4,5) 1 a1(1) by (simp add: proc_remove_def Let_def split_def)
qed

text \<open>
  The reply to a CREATE whose handle is bad is sixteen bytes long behind the status, all of
  them zero: it holds an absent handle and absent attributes besides the eight bytes of the
  directory's data, which are all that the protocol has there.
\<close>
theorem create_error_reply:
  assumes "fst (xdr_read_fhandle3 inp) = None"
  shows "emits out (reply_hdr_bytes xid RPC_SUCCESS @ be32_bytes NFS3ERR_BADHANDLE @ replicate 16 0)
    (fst (snd (proc_create env xid inp out s)))"
proof -
  have z: "be32_bytes 0 = replicate 4 0" by (simp add: be32_bytes_def eval_nat_numeral)
  have "emits out (((reply_hdr_bytes xid RPC_SUCCESS @ be32_bytes NFS3ERR_BADHANDLE) @ be32_bytes 0) @ post_op_bytes None @ wcc_bytes None None)
      (create_failed NFS3ERR_BADHANDLE None None (reply_ok_hdr xid out))"
    unfolding create_failed_def append_assoc [symmetric] by (intro emits_wcc emits_post_op emits_u32 emits_ok_hdr)
  then have "emits out (reply_hdr_bytes xid RPC_SUCCESS @ be32_bytes NFS3ERR_BADHANDLE @ replicate 16 0)
      (create_failed NFS3ERR_BADHANDLE None None (reply_ok_hdr xid out))"
    by (simp add: post_op_bytes_def wcc_bytes_def z eval_nat_numeral)
  then show ?thesis using assms by (simp add: proc_create_def Let_def split_def)
qed

section \<open>Witnesses\<close>

definition listed :: "pds_member_entry_t list" where
  "listed = fst (mvs_read_pds_dir 0 100 (replicate 8 0) [two_members])"

definition fresh_vfs :: vfs_state where
  "fresh_vfs = set_dirs [vfs_dir_zero\<lparr>vd_used := True, dir_level := MVS_LEVEL_DATASET, pds_fh := Some [two_members]\<rparr>] (sample_vfs False)"

theorem readdir_pages_witness:
  "(\<exists>(j :: nat) eof z v'. readdir_loop 3 sample_env 0 16 0 0 False (xdr_init_write (replicate 1024 0) 1024) fresh_vfs = Some (eof, z, v') \<and>
      0 < j \<and> j \<le> 2 \<and> (eof \<longleftrightarrow> j = 2)) \<and>
   (\<exists>z v'. readdir_loop 2 sample_env 0 16 0 0 False (xdr_init_write (replicate 1024 0) 1024) (sample_vfs False) = Some (True, z, v') \<and>
      emits (xdr_init_write (replicate 1024 0) 1024) (entry_bytes ([0x41], mvs_fid_hash (Some [0xC1]) None, 1)) z)"
proof
  let ?out = "xdr_init_write (replicate 1024 0) 1024"
  have n: "map me_name listed = [[0xC1], [0xC2]]" using read_two(1) by (simp add: listed_def)
  then have l: "length listed = 2" by (metis length_map length_Cons list.size(3) numeral_2_eq_2)
  have g: "good_list listed" unfolding good_names n by (simp add: names_ascend_def member_text_def ch_space_def)
  let ?d = "vfs_dir_zero\<lparr>vd_used := True, dir_level := MVS_LEVEL_DATASET, pds_fh := Some [two_members]\<rparr>"
  have d: "vdirs fresh_vfs = [?d]" by (simp add: fresh_vfs_def)
  have "dir_fresh ?d [two_members]" by (simp add: dir_fresh_def vfs_dir_zero_def MVS_LEVEL_DATASET_def MVS_LEVEL_ROOT_def)
  moreover have "\<exists>eod. mvs_read_pds_dir (env_tz (n_mvs sample_env)) (n_now sample_env) (take 8 (from_cookie 0 @ 0 # env_tail (n_mvs sample_env))) [two_members] = (listed, eod)"
    unfolding listed_def by (metis (no_types, lifting) append_eq_conv_conj cookie_zero(1) flush_env_def length_replicate
        mvs_env.select_convs(5) nfs_env.select_convs(1) nfs_env.select_convs(2) prod.collapse sample_env_def)
  ultimately have s: "will_show sample_env 0 listed (dir_ext fresh_vfs ?d) [] fresh_vfs 0"
    using g by (auto simp: will_show_def d dir_lists_def) (simp add: vfs_dir_zero_def)
  have "length listed - 0 < 3" using l by simp
  then obtain j :: nat and eof z v' where "readdir_loop 3 sample_env 0 16 0 0 False ?out fresh_vfs = Some (eof, z, v')"
    "j \<le> 2" "eof \<longleftrightarrow> j = 2" "0 = (2 :: nat) \<or> 0 < j"
    using conjunct1 [OF readdir_pages, rule_format, OF s stands_start [OF g], of 3 16 0 ?out] unfolding l by blast
  then show "\<exists>(j :: nat) eof z v'. readdir_loop 3 sample_env 0 16 0 0 False ?out fresh_vfs = Some (eof, z, v') \<and> 0 < j \<and> j \<le> 2 \<and> (eof \<longleftrightarrow> j = 2)"
    by auto
  let ?ex = "hd admit_exports\<lparr>datasets := [admit_dataset\<lparr>ds_readonly := False\<rparr>]\<rparr>"
  have r: "dir_level (vdirs (sample_vfs False) ! 0) = MVS_LEVEL_ROOT" "exports_get (vexports (sample_vfs False)) (vd_export (vdirs (sample_vfs False) ! 0)) = Some ?ex"
    by (simp_all add: sample_vfs_def vdirs_def vexports_def vfs_dir_zero_def MVS_LEVEL_ROOT_def exports_get_def)
  have e: "root_entries ?ex = [([0x41], mvs_fid_hash (Some [0xC1]) None, 1)]" by (simp add: root_entries_def admit_dataset_def MAX_NAME_def)
  have p: "length (datasets ?ex) = 1" by simp
  have c: "length (datasets ?ex) < 2 ^ 31" "sint (ucast (0 :: u64) :: u32) = int 0" "0 \<le> length (datasets ?ex)" "length (datasets ?ex) - 0 < 2"
    by simp_all
  obtain j eof z v' where h: "readdir_loop 2 sample_env 0 16 0 0 False ?out (sample_vfs False) = Some (eof, z, v')" "j \<le> 1" "eof \<longleftrightarrow> j = 1" "0 = (1 :: nat) \<or> 0 < j"
    "emits ?out (concat (map entry_bytes (take (j - 0) (drop 0 (root_entries ?ex))))) z"
    using conjunct2 [OF readdir_pages, rule_format, OF r c, of sample_env 16 0 ?out] unfolding p by (elim exE conjE) (rule that)
  then have "j = 1" by simp
  then show "\<exists>z v'. readdir_loop 2 sample_env 0 16 0 0 False ?out (sample_vfs False) = Some (True, z, v') \<and>
      emits ?out (entry_bytes ([0x41], mvs_fid_hash (Some [0xC1]) None, 1)) z"
    using h e by auto
qed

text \<open>The handle of the data set \<^verbatim>\<open>A\<close>, a name of 256 bytes, and the name \<^verbatim>\<open>b\<close> left on the stack.\<close>

definition handle_a :: our_fhandle_t where "handle_a = handle_b\<lparr>fh_member := []\<rparr>"

definition stale_env :: nfs_env where "stale_env = sample_env\<lparr>n_name := 0x62 # replicate 255 0\<rparr>"

theorem remove_stale_name_witness:
  "nv (snd (snd (proc_remove stale_env 7 (xdr_init_read (opaque_bytes (fh_encode handle_a) @ be32_bytes 256) 68)
      (xdr_init_write (replicate 1024 0) 1024) start_nfs))) =
    (let v1 = snd (stat_opt stale_env dir_a start_vfs);
         v2 = snd (vfs_remove flush_env 100 path_b v1)
     in snd (stat_opt stale_env dir_a v2))"
proof -
  have ok: "fh_ok handle_a" by (simp add: fh_ok_def handle_a_def handle_b_def)
  have "length (fh_encode handle_a) = 60" using fh_wire_back [of handle_a] ok by (simp add: fh_ok_def)
  then have a: "arguments (xdr_init_read (opaque_bytes (fh_encode handle_a) @ be32_bytes 256) 68) (opaque_bytes (fh_encode handle_a) @ be32_bytes 256)"
    using arguments_init [of "opaque_bytes (fh_encode handle_a) @ be32_bytes 256"] by (simp add: opaque_bytes_def)
  have "fh_resolve (vexports start_vfs) handle_a (of_nat MAX_PATH) = Some dir_a" by code_simp
  then have r: "resolve start_nfs handle_a = Some dir_a" by (simp add: resolve_def start_nfs_def)
  have n: "name_is_valid (cstr (n_name stale_env))" "join_path dir_a (cstr (n_name stale_env)) = path_b" by code_simp+
  have "n_mvs stale_env = flush_env" "n_now stale_env = 100" "nv start_nfs = start_vfs"
    by (simp_all add: stale_env_def sample_env_def start_nfs_def)
  then show ?thesis using remove_stale_name [OF a ok _ r n(1), of 7 "xdr_init_write (replicate 1024 0) 1024"] n(2)
    by (simp add: MAX_NAME_def)
qed

theorem create_error_reply_witness:
  "emits (xdr_init_write (replicate 1024 0) 1024) (reply_hdr_bytes 7 RPC_SUCCESS @ be32_bytes NFS3ERR_BADHANDLE @ replicate 16 0)
    (fst (snd (proc_create sample_env 7 (xdr_init_read [0, 0, 0, 9] 4) (xdr_init_write (replicate 1024 0) 1024) start_nfs)))"
proof -
  have "fst (xdr_read_fhandle3 (xdr_init_read [0, 0, 0, 9] 4)) = None" by code_simp
  then show ?thesis by (rule create_error_reply)
qed

end
