(* ===== verification/Nfsd.thy ===== *)
theory Nfsd
  imports Nfs3list "HOL-Library.Multiset"
begin

text \<open>
  The server, \<^verbatim>\<open>src/src/nfsd.c\<close>: its command line, the table of connections, the receipt and
  answer of one call, and the event loop. The sockets are the state's view of the network: what
  each descriptor will deliver and what has been sent on it. What one pass of the loop finds of
  the system (the operator's command, the outcome of \<^verbatim>\<open>select\<close> and \<^verbatim>\<open>accept\<close>, how much each send
  takes, the time) is its environment. A receive that fails leaves the receive buffer as it
  was, which nothing reads before the next message. Opening the listening sockets is left out,
  it ends the program when it fails; so are log levels, the log and the performance counters.
\<close>

section \<open>The command line\<close>

definition ch_minus :: u8 where "ch_minus = 0x60"
definition ch_plus :: u8 where "ch_plus = 0x4E"
definition ch_colon :: u8 where "ch_colon = 0x7A"
definition ch_quest :: u8 where "ch_quest = 0x6F"

lemmas opt_chars = ch_minus_def ch_plus_def ch_colon_def ch_quest_def

text \<open>The characters from the first occurrence of \<open>c\<close> on, if there is one: \<^verbatim>\<open>strchr\<close>.\<close>

fun strchr :: "bytes \<Rightarrow> u8 \<Rightarrow> bytes option" where
  "strchr [] c = None"
| "strchr (x # s) c = (if x = c then Some (x # s) else strchr s c)"

text \<open>The result of one call: -1, the letter or a question mark; the next index; the argument.\<close>

definition getopt :: "bytes list \<Rightarrow> bytes \<Rightarrow> nat \<Rightarrow> int \<times> nat \<times> bytes option" where
  "getopt argv optstring optind =
     (if length argv \<le> optind then (-1, optind, None)
      else case argv ! optind of
        c0 # c # argrest \<Rightarrow>
          if c0 \<noteq> ch_minus then (-1, optind, None)
          else if c = ch_minus \<and> argrest = [] then (-1, Suc optind, None)
          else (case strchr optstring c of
              None \<Rightarrow> (uint ch_quest, Suc optind, None)
            | Some p \<Rightarrow>
                if 1 < length p \<and> p ! 1 = ch_colon then
                  (if argrest \<noteq> [] then (uint c, Suc optind, Some argrest)
                   else if Suc optind < length argv then (uint c, Suc (Suc optind), Some (argv ! Suc optind))
                   else (uint ch_quest, Suc optind, None))
                else (uint c, Suc optind, None))
      | _ \<Rightarrow> (-1, optind, None))"

fun decimal_digits :: "int \<Rightarrow> bytes \<Rightarrow> int \<times> bytes" where
  "decimal_digits acc [] = (acc, [])"
| "decimal_digits acc (c # s) =
     (if isdigit c then decimal_digits (10 * acc + uint (c - 0xF0)) s else (acc, c # s))"

text \<open>
  The value and what is left of the text, all of it when there was no number. The library
  clips a value beyond the range of a long, which the caller refuses either way.
\<close>

definition strtol10 :: "bytes \<Rightarrow> int \<times> bytes" where
  "strtol10 v =
     (let s = dropWhile isspace v;
          (neg, s1) = (case s of [] \<Rightarrow> (False, s)
                       | c # s' \<Rightarrow> if c = ch_minus then (True, s') else if c = ch_plus then (False, s') else (False, s));
          (n, rest) = decimal_digits 0 s1
      in if length rest = length s1 then (0, v) else (if neg then - n else n, rest))"

definition parse_port :: "bytes \<Rightarrow> int option" where
  "parse_port s =
     (let (v, rest) = strtol10 s
      in if length rest = length s \<or> rest \<noteq> [] \<or> v < 1 \<or> 65535 < v then None else Some v)"

definition PORT_PORTMAP :: int where "PORT_PORTMAP = 111"
definition PORT_MOUNT :: int where "PORT_MOUNT = 20048"
definition PORT_NFS :: int where "PORT_NFS = 2049"

record server_opts_t =
  opt_pmap :: int
  opt_mount :: int
  opt_nfs :: int
  opt_verbose :: bool
  config_path :: bytes

definition default_opts :: server_opts_t where
  "default_opts = \<lparr>opt_pmap = PORT_PORTMAP, opt_mount = PORT_MOUNT, opt_nfs = PORT_NFS, opt_verbose = False, config_path = []\<rparr>"

text \<open>\<^verbatim>\<open>p:m:n:v\<close>\<close>

definition OPTSTRING :: bytes where
  "OPTSTRING = [0x97, 0x7A, 0x94, 0x7A, 0x95, 0x7A, 0xA5]"

lemma getopt_advances: "getopt argv optstring i = (r, j, a) \<Longrightarrow> r \<noteq> -1 \<Longrightarrow> i < j \<and> i < length argv"
  by (auto simp: getopt_def split: if_splits list.splits option.splits)

text \<open>The exit code of a fault or the options.\<close>

function parse_args_loop :: "bytes list \<Rightarrow> nat \<Rightarrow> server_opts_t \<Rightarrow> int + server_opts_t" where
  "parse_args_loop argv i opts =
     (let (opt, j, arg) = getopt argv OPTSTRING i in
      if opt = -1 then (if length argv \<le> j then Inl 105 else Inr (opts\<lparr>config_path := argv ! j\<rparr>))
      else if opt = 0x97 then
        (case parse_port (the arg) of None \<Rightarrow> Inl 101 | Some v \<Rightarrow> parse_args_loop argv j (opts\<lparr>opt_pmap := v\<rparr>))
      else if opt = 0x94 then
        (case parse_port (the arg) of None \<Rightarrow> Inl 102 | Some v \<Rightarrow> parse_args_loop argv j (opts\<lparr>opt_mount := v\<rparr>))
      else if opt = 0x95 then
        (case parse_port (the arg) of None \<Rightarrow> Inl 103 | Some v \<Rightarrow> parse_args_loop argv j (opts\<lparr>opt_nfs := v\<rparr>))
      else if opt = 0xA5 then parse_args_loop argv j (opts\<lparr>opt_verbose := True\<rparr>)
      else Inl 104)"
  by pat_completeness auto
termination
  by (relation "measure (\<lambda>(argv, i, _). length argv - i)") (auto dest: getopt_advances [OF sym])

declare parse_args_loop.simps [simp del]

definition parse_args :: "bytes list \<Rightarrow> server_opts_t \<Rightarrow> int + server_opts_t" where
  "parse_args argv opts = parse_args_loop argv 1 opts"

section \<open>Connections\<close>

definition MAX_CONNECTIONS :: nat where "MAX_CONNECTIONS = 16"
definition PROTO_PORTMAP :: int where "PROTO_PORTMAP = 0"
definition PROTO_MOUNT :: int where "PROTO_MOUNT = 1"
definition PROTO_NFS :: int where "PROTO_NFS = 2"

lemmas proto_defs = PROTO_PORTMAP_def PROTO_MOUNT_def PROTO_NFS_def

record conn_t =
  conn_fd :: int
  conn_proto :: int

record listeners_t =
  lsn_pmap :: int
  lsn_mount :: int
  lsn_nfs :: int

record server =
  g_conns :: "conn_t list"
  sv :: nfs_state
  g_ports :: ports
  g_recv_buf :: bytes
  g_send_buf :: bytes
  net_in :: "int \<Rightarrow> io_event list"
  net_out :: "int \<Rightarrow> bytes"
  sockets_closed :: "int list"

record srv_env =
  e_nfs :: nfs_env
  e_dirpath :: bytes
  e_sends :: "int \<Rightarrow> nat list"
  e_accept :: "int \<Rightarrow> int"
  e_cib :: int
  e_select :: int
  e_ready :: "int \<Rightarrow> bool"

definition sock_close :: "int \<Rightarrow> server \<Rightarrow> server" where
  "sock_close fd s = s\<lparr>sockets_closed := sockets_closed s @ [fd]\<rparr>"

definition accept_conn :: "srv_env \<Rightarrow> int \<Rightarrow> int \<Rightarrow> server \<Rightarrow> server" where
  "accept_conn env lsock proto s =
     (let cfd = e_accept env lsock in
      if cfd < 0 then s
      else if MAX_CONNECTIONS \<le> length (g_conns s) then sock_close cfd s
      else s\<lparr>g_conns := g_conns s @ [\<lparr>conn_fd = cfd, conn_proto = proto\<rparr>]\<rparr>)"

text \<open>The switch over the protocols: the reply and the state.\<close>

definition dispatch_call ::
  "srv_env \<Rightarrow> ports \<Rightarrow> int \<Rightarrow> rpc_call_t \<Rightarrow> xdr_t \<Rightarrow> xdr_t \<Rightarrow> nfs_state \<Rightarrow> (xdr_t \<times> nfs_state) option" where
  "dispatch_call env ps proto call inp out n =
     (if proto = PROTO_PORTMAP then Some (snd (handle_portmap ps call inp out), n)
      else if proto = PROTO_MOUNT then
        (let (_, o1, v) = handle_mount (n_mvs (e_nfs env)) (n_now (e_nfs env)) (e_dirpath env) call inp out (nv n)
         in Some (o1, n\<lparr>nv := v\<rparr>))
      else if proto = PROTO_NFS then map_option snd (handle_nfs3 (e_nfs env) call inp out n)
      else Some (out, n))"

text \<open>Whether the connection stays; nothing when a listing ran out of fuel.\<close>

definition handle_connection :: "srv_env \<Rightarrow> conn_t \<Rightarrow> server \<Rightarrow> (bool \<times> server) option" where
  "handle_connection env conn s =
     (let fd = conn_fd conn in
      case rpc_recv (net_in s fd) (g_recv_buf s) (of_nat BUF_SIZE) of
        None \<Rightarrow> Some (False, s)
      | Some (b, msglen, rest) \<Rightarrow>
          let s1 = s\<lparr>g_recv_buf := b, net_in := (net_in s)(fd := rest)\<rparr>;
              inp = xdr_init_read b msglen;
              out = xdr_init_write (drop 4 (g_send_buf s)) (of_nat (BUF_SIZE - 4));
              ((ok, call), i1) = rpc_parse_call inp
          in if \<not> ok then Some (False, s1)
             else case dispatch_call env (g_ports s) (conn_proto conn) call i1 out (sv s) of
               None \<Rightarrow> None
             | Some (o1, n) \<Rightarrow>
                 let frame = take 4 (g_send_buf s) @ xbase o1; s2 = s1\<lparr>sv := n, g_send_buf := frame\<rparr>
                 in if 0 < xpos o1 then
                      let (sent, ok') = rpc_send (e_sends env fd) frame (xpos o1)
                      in Some (ok', s2\<lparr>g_send_buf := mem_store frame 0 (be32_bytes (0x80000000 OR xpos o1)),
                                       net_out := (net_out s2)(fd := net_out s2 fd @ sent)\<rparr>)
                    else Some (True, s2))"

lemma handle_connection_conns: "handle_connection env c s = Some (r, s') \<Longrightarrow> g_conns s' = g_conns s"
  by (auto simp: handle_connection_def Let_def split: option.splits prod.splits if_splits)

section \<open>The event loop\<close>

text \<open>\<^verbatim>\<open>g_conns[i] = g_conns[--g_nconns]\<close>\<close>

definition remove_conn :: "nat \<Rightarrow> conn_t list \<Rightarrow> conn_t list" where
  "remove_conn i cs = butlast (cs[i := last cs])"

function service_loop :: "srv_env \<Rightarrow> (int \<Rightarrow> bool) \<Rightarrow> nat \<Rightarrow> server \<Rightarrow> server option" where
  "service_loop env rfds i s =
     (if i < length (g_conns s) then
        (let c = g_conns s ! i in
         if rfds (conn_fd c) then
           (case handle_connection env c s of
              None \<Rightarrow> None
            | Some (True, s1) \<Rightarrow> service_loop env rfds (Suc i) s1
            | Some (False, s1) \<Rightarrow>
                service_loop env rfds i ((sock_close (conn_fd c) s1)\<lparr>g_conns := remove_conn i (g_conns s1)\<rparr>))
         else service_loop env rfds (Suc i) s)
      else Some s)"
  by pat_completeness auto
termination
  by (relation "measure (\<lambda>(_, _, i, s). length (g_conns s) - i)")
    (auto dest!: handle_connection_conns simp: remove_conn_def sock_close_def)

declare service_loop.simps [simp del]

definition service_ready :: "srv_env \<Rightarrow> listeners_t \<Rightarrow> (int \<Rightarrow> bool) \<Rightarrow> server \<Rightarrow> server option" where
  "service_ready env lsn rfds s =
     (let s1 = (if rfds (lsn_pmap lsn) then accept_conn env (lsn_pmap lsn) PROTO_PORTMAP s else s);
          s2 = (if rfds (lsn_mount lsn) then accept_conn env (lsn_mount lsn) PROTO_MOUNT s1 else s1);
          s3 = (if rfds (lsn_nfs lsn) then accept_conn env (lsn_nfs lsn) PROTO_NFS s2 else s2)
      in service_loop env rfds 0 s3)"

text \<open>The read set and its highest descriptor.\<close>

definition build_read_set :: "listeners_t \<Rightarrow> server \<Rightarrow> int list \<times> int" where
  "build_read_set lsn s =
     (let fds = [lsn_pmap lsn, lsn_mount lsn, lsn_nfs lsn] @ map conn_fd (g_conns s)
      in (fds, fold max (tl fds) (hd fds)))"

definition process_operator_command :: "srv_env \<Rightarrow> int" where
  "process_operator_command env = (if e_cib env = 2 then 2 else 0)"

definition write_path_is_fatal :: "server \<Rightarrow> bool" where
  "write_path_is_fatal s = g_fatal_abend (pw (nv (sv s)))"

definition upd_pw :: "(pww_state \<Rightarrow> pww_state) \<Rightarrow> server \<Rightarrow> server" where
  "upd_pw f s = s\<lparr>sv := (sv s)\<lparr>nv := (nv (sv s))\<lparr>pw := f (pw (nv (sv s)))\<rparr>\<rparr>\<rparr>"

text \<open>One pass of the loop: whether it goes on, and the state.\<close>

definition loop_pass :: "listeners_t \<Rightarrow> srv_env \<Rightarrow> server \<Rightarrow> (bool \<times> server) option" where
  "loop_pass lsn env s =
     (if process_operator_command env = 2 then Some (False, s)
      else if write_path_is_fatal s then Some (False, s)
      else let (fds, _) = build_read_set lsn s; n = e_select env in
        if n < 0 then Some (False, s)
        else let s1 = upd_pw (pww_flush_idle (n_mvs (e_nfs env)) (n_now (e_nfs env))) s in
          if n = 0 then Some (True, s1)
          else map_option (\<lambda>s2. (True, s2)) (service_ready env lsn (\<lambda>fd. fd \<in> set fds \<and> e_ready env fd) s1))"

definition server_shutdown :: "listeners_t \<Rightarrow> srv_env \<Rightarrow> server \<Rightarrow> server" where
  "server_shutdown lsn env s =
     (let s1 = upd_pw (pww_flush_all (n_mvs (e_nfs env)) (n_now (e_nfs env))) s;
          s2 = fold (\<lambda>c. sock_close (conn_fd c)) (g_conns s1) s1;
          s3 = s2\<lparr>g_conns := []\<rparr>
      in sock_close (lsn_nfs lsn) (sock_close (lsn_mount lsn) (sock_close (lsn_pmap lsn) s3)))"

text \<open>The passes of the loop: whether it has ended, and the state, shut down when it has.\<close>

fun main_loop :: "listeners_t \<Rightarrow> srv_env list \<Rightarrow> server \<Rightarrow> (bool \<times> server) option" where
  "main_loop lsn [] s = Some (False, s)"
| "main_loop lsn (e # es) s =
     (case loop_pass lsn e s of
        None \<Rightarrow> None
      | Some (True, s1) \<Rightarrow> main_loop lsn es s1
      | Some (False, s1) \<Rightarrow> Some (True, server_shutdown lsn e s1))"

definition set_write_verifier :: "int \<Rightarrow> bytes option \<Rightarrow> bytes" where
  "set_write_verifier now job_id = be32_bytes (of_int now) @ be32_bytes (mvs_fid_ino32 job_id None)"

section \<open>Start\<close>

definition server_init_subsystems :: "server \<Rightarrow> server" where
  "server_init_subsystems s =
     (let v = nv (sv s) in
      s\<lparr>sv := (sv s)\<lparr>nv := v\<lparr>pw := pww_init ((pw v)\<lparr>dir_pool := dir_openlist_init\<rparr>), fsz := mvsfsz_init, rcache := mvs_rcache_init\<rparr>\<rparr>\<rparr>)"

definition open_listeners :: "server_opts_t \<Rightarrow> server \<Rightarrow> server" where
  "open_listeners opts s =
     s\<lparr>g_ports := \<lparr>g_port_pmap = opt_pmap opts, g_port_mount = opt_mount opts, g_port_nfs = opt_nfs opts\<rparr>\<rparr>"

text \<open>
  The program up to its loop: the exit code, or the state in which the loop starts. The volume
  table, the configuration file, the time and the job are the system's.
\<close>

definition server_start ::
  "(bytes \<Rightarrow> mvs_dscb_info_t) \<Rightarrow> (bytes \<Rightarrow> bytes list option) \<Rightarrow> int \<Rightarrow> bytes option \<Rightarrow> bytes list \<Rightarrow> server \<Rightarrow> int + server" where
  "server_start vtoc files now job argv s0 =
     (let s = server_init_subsystems s0 in
      case parse_args argv default_opts of
        Inl rc \<Rightarrow> Inl rc
      | Inr opts \<Rightarrow>
          let (n, st) = exports_load vtoc (files (config_path opts)) exports_init in
          if n < 0 then Inl 106
          else let s1 = upd_pw (\<lambda>p. p\<lparr>pexports := g_exports st\<rparr>) s;
                   s2 = s1\<lparr>sv := (sv s1)\<lparr>g_write_verifier := set_write_verifier now job\<rparr>\<rparr>
               in Inr (open_listeners opts s2))"

definition server_main ::
  "(bytes \<Rightarrow> mvs_dscb_info_t) \<Rightarrow> (bytes \<Rightarrow> bytes list option) \<Rightarrow> int \<Rightarrow> bytes option \<Rightarrow> bytes list \<Rightarrow> listeners_t \<Rightarrow>
     srv_env list \<Rightarrow> server \<Rightarrow> (int + bool \<times> server) option" where
  "server_main vtoc files now job argv lsn envs s0 =
     (case server_start vtoc files now job argv s0 of
        Inl rc \<Rightarrow> Some (Inl rc)
      | Inr s \<Rightarrow> map_option Inr (main_loop lsn envs s))"

end
