(* ===== verification/Format.thy ===== *)
theory Format
  imports Cfgopts
begin

text \<open>
  The conversions of \<^verbatim>\<open>printf\<close> that the log, the statistics and the dump use, in the EBCDIC code
  page of the MVS build: decimal and hexadecimal numbers, and padding to a width.
\<close>

section \<open>Decimal numbers\<close>

text \<open>The decimal digits of a number.\<close>

fun dec :: "nat \<Rightarrow> bytes" where
  "dec n = (if n < 10 then [0xF0 + of_nat n] else dec (n div 10) @ [0xF0 + of_nat (n mod 10)])"

declare dec.simps [simp del]

lemma digit: "n < 10 \<Longrightarrow> isdigit (0xF0 + of_nat n) \<and> uint (of_nat n :: u8) = int n"
proof -
  assume n: "n < 10"
  then have "unat (0xF0 + of_nat n :: u8) = 240 + n" by (simp add: unat_word_ariths unat_of_nat)
  then show ?thesis using n by (simp add: isdigit_def word_le_nat_alt uint_nat unat_of_nat)
qed

lemma dec_digits: "\<forall>c \<in> set (dec n). isdigit c"
  by (induction n rule: dec.induct) (subst dec.simps, auto simp: digit)

lemma dec_head: "\<exists>c s. dec n = c # s \<and> isdigit c"
  using dec_digits [of n] by (cases "dec n") (auto simp: dec.simps split: if_splits)

lemma dec_length: "n < 10 ^ Suc k \<Longrightarrow> length (dec n) \<le> Suc k"
proof (induction k arbitrary: n)
  case 0
  then show ?case by (simp add: dec.simps)
next
  case (Suc k)
  then have "n div 10 < 10 ^ Suc k" by (simp add: less_mult_imp_div_less mult.commute)
  then show ?case using Suc.IH [of "n div 10"] by (subst dec.simps) simp
qed

definition fmt_d :: "int \<Rightarrow> bytes" where
  "fmt_d v = (if v < 0 then 0x60 # dec (nat (- v)) else dec (nat v))"

section \<open>Widths\<close>

text \<open>\<^verbatim>\<open>%0nd\<close> and \<^verbatim>\<open>%n..\<close> put characters before the text, \<^verbatim>\<open>%-n..\<close> behind it; none is ever cut.\<close>

definition pad_left :: "u8 \<Rightarrow> nat \<Rightarrow> bytes \<Rightarrow> bytes" where
  "pad_left c w s = replicate (w - length s) c @ s"

definition fmt_right :: "nat \<Rightarrow> bytes \<Rightarrow> bytes" where
  "fmt_right w s = pad_left ch_space w s"

definition fmt_left :: "nat \<Rightarrow> bytes \<Rightarrow> bytes" where
  "fmt_left w s = s @ replicate (w - length s) ch_space"

definition fmt_0d :: "nat \<Rightarrow> int \<Rightarrow> bytes" where
  "fmt_0d w v = pad_left 0xF0 w (fmt_d v)"

lemma pad_length [simp]:
  "length (pad_left c w s) = max w (length s)" "length (fmt_right w s) = max w (length s)"
  "length (fmt_left w s) = max w (length s)"
  by (simp_all add: pad_left_def fmt_right_def fmt_left_def)

lemma fmt_0d_length: "0 \<le> v \<Longrightarrow> v < 10 ^ Suc k \<Longrightarrow> length (fmt_0d w v) \<le> max w (Suc k)"
  using dec_length [of "nat v" k] by (simp add: fmt_0d_def fmt_d_def nat_less_iff)

section \<open>Hexadecimal numbers\<close>

definition hex_digit :: "nat \<Rightarrow> u8" where
  "hex_digit n = (if n < 10 then 0xF0 + of_nat n else 0xC1 + of_nat (n - 10))"

definition unhex :: "u8 \<Rightarrow> nat" where
  "unhex c = (if 0xF0 \<le> c then unat c - 0xF0 else unat c - 0xC1 + 10)"

lemma unhex_digit: "n < 16 \<Longrightarrow> unhex (hex_digit n) = n"
proof -
  assume n: "n < 16"
  have "list_all (\<lambda>k. unhex (hex_digit k) = k) [0..<16]" by code_simp
  then show ?thesis using n by (simp add: list_all_iff)
qed

text \<open>\<^verbatim>\<open>%02X\<close> of a byte.\<close>

definition fmt_02X :: "u8 \<Rightarrow> bytes" where
  "fmt_02X c = [hex_digit (unat c div 16), hex_digit (unat c mod 16)]"

fun hex :: "nat \<Rightarrow> bytes" where
  "hex n = (if n < 16 then [hex_digit n] else hex (n div 16) @ [hex_digit (n mod 16)])"

declare hex.simps [simp del]

definition fmt_08lX :: "nat \<Rightarrow> bytes" where
  "fmt_08lX n = pad_left 0xF0 8 (hex n)"

lemma hex_length: "n < 16 ^ Suc k \<Longrightarrow> length (hex n) \<le> Suc k"
proof (induction k arbitrary: n)
  case 0
  then show ?case by (simp add: hex.simps)
next
  case (Suc k)
  then have "n div 16 < 16 ^ Suc k" by (simp add: less_mult_imp_div_less mult.commute)
  then show ?case using Suc.IH [of "n div 16"] by (subst hex.simps) simp
qed

lemma fmt_02X_roundtrip: "16 * unhex (fmt_02X c ! 0) + unhex (fmt_02X c ! 1) = unat c"
proof -
  have "unat c < 256" using unsigned_less [of c] by simp
  then show ?thesis by (simp add: fmt_02X_def unhex_digit less_mult_imp_div_less)
qed

end
