(* ===== verification/Vfsinv.thy ===== *)
theory Vfsinv
  imports Nfs3
begin

text \<open>
  The interface between the procedures of \<^verbatim>\<open>src/src/nfs3.c\<close> and \<^verbatim>\<open>src/src/mount3.c\<close> and the
  file-system operations of \<^verbatim>\<open>src/src/mvsvfs.c\<close>: the procedures change the state of the file system
  by these operations only, so what every operation keeps, every call keeps.
\<close>

locale vfs_invariant =
  fixes I :: "nfs_env \<Rightarrow> vfs_state \<Rightarrow> bool"
  assumes stat_keeps: "I env v \<Longrightarrow> I env (snd (vfs_stat (n_mvs env) (n_now env) path v))"
    and pread_keeps: "I env v \<Longrightarrow> I env (snd (vfs_pread (n_mvs env) (n_now env) path n off v))"
    and pwrite_keeps: "I env v \<Longrightarrow> I env (snd (vfs_pwrite (n_mvs env) (n_now env) path data off v))"
    and create_keeps: "I env v \<Longrightarrow> I env (snd (vfs_create (n_mvs env) (n_now env) path mode v))"
    and remove_keeps: "I env v \<Longrightarrow> I env (snd (vfs_remove (n_mvs env) (n_now env) path v))"
    and rename_keeps: "I env v \<Longrightarrow> I env (snd (vfs_rename (n_mvs env) (n_now env) path path' v))"
    and truncate_keeps: "I env v \<Longrightarrow> I env (snd (vfs_truncate (n_mvs env) (n_now env) path sz v))"
    and commit_keeps: "I env v \<Longrightarrow> I env (snd (vfs_commit (n_mvs env) (n_now env) path v))"
    and times_keeps: "I env v \<Longrightarrow> I env (snd (vfs_set_times (n_mvs env) (n_now env) path sa asec sm msec v))"
    and opendir_keeps: "I env v \<Longrightarrow> I env (snd (vfs_opendir (n_mvs env) (n_now env) path v))"
    and next_keeps: "I env v \<Longrightarrow> I env (snd (vfs_readdir_next (n_mvs env) (n_now env) i maxname c v))"
    and closedir_keeps: "I env v \<Longrightarrow> I env (vfs_closedir i v)"
begin

lemma stat_opt_keeps: "I env v \<Longrightarrow> I env (snd (stat_opt env path v))"
  using stat_keeps [of env v path] by (auto simp: stat_opt_def Let_def split_def split: sum.split)

lemmas keeps = stat_keeps pread_keeps pwrite_keeps create_keeps remove_keeps rename_keeps truncate_keeps commit_keeps
  times_keeps opendir_keeps next_keeps closedir_keeps stat_opt_keeps

lemma small_procs_keep:
  "I env (nv s) \<Longrightarrow> I env (nv (snd (snd (proc_getattr env xid inp out s))))"
  "I env (nv s) \<Longrightarrow> I env (nv (snd (snd (proc_access env xid uid gid inp out s))))"
  "I env (nv s) \<Longrightarrow> I env (nv (snd (snd (proc_fsstat env xid inp out s))))"
  "I env (nv s) \<Longrightarrow> I env (nv (snd (snd (proc_fsinfo env xid inp out s))))"
  "I env (nv s) \<Longrightarrow> I env (nv (snd (snd (proc_pathconf env xid inp out s))))"
  "I env (nv s) \<Longrightarrow> I env (nv (snd (snd (proc_lookup env xid inp out s))))"
  by (simp_all add: proc_getattr_def proc_access_def proc_fsstat_def proc_fsinfo_def proc_pathconf_def proc_lookup_def
      Let_def split_def keeps split: option.split sum.split)

lemma data_procs_keep:
  "I env (nv s) \<Longrightarrow> I env (nv (snd (snd (proc_setattr env xid inp out s))))"
  "I env (nv s) \<Longrightarrow> I env (nv (snd (snd (proc_read env xid inp out s))))"
  "I env (nv s) \<Longrightarrow> I env (nv (snd (snd (proc_write env xid inp out s))))"
  "I env (nv s) \<Longrightarrow> I env (nv (snd (snd (proc_commit env xid inp out s))))"
  "I env (nv s) \<Longrightarrow> I env (nv (snd (snd (proc_remove env xid inp out s))))"
  "I env (nv s) \<Longrightarrow> I env (nv (snd (snd (proc_rename env xid inp out s))))"
  by (simp_all add: proc_setattr_def proc_read_def proc_write_def proc_commit_def proc_remove_def proc_rename_def
      Let_def split_def keeps split: option.split sum.split)

lemma proc_create_keeps: "I env (nv s) \<Longrightarrow> I env (nv (snd (snd (proc_create env xid inp out s))))"
  unfolding proc_create_def by (simp add: Let_def split_def keeps split: option.split)

lemma readdir_loop_keeps:
  "readdir_loop n env dp mc st c w out v = Some (eof, z, v') \<Longrightarrow> I env v \<Longrightarrow> I env v'"
proof (induction n arbitrary: c w out v)
  case (Suc n)
  obtain r v1 where nx: "vfs_readdir_next (n_mvs env) (n_now env) dp MAX_NAME c v = (r, v1)" by (metis surj_pair)
  have "I env v1" using next_keeps [OF Suc.prems(2)] nx by (metis snd_conv)
  then show ?case using Suc nx by (auto simp: Let_def split: option.splits if_splits)
qed simp

lemma readdirplus_loop_keeps:
  "readdirplus_loop n env dir dp mc st c w out v = Some (eof, z, v') \<Longrightarrow> I env v \<Longrightarrow> I env v'"
proof (induction n arbitrary: c w out v)
  case (Suc n)
  obtain r v1 where nx: "vfs_readdir_next (n_mvs env) (n_now env) dp MAX_NAME c v = (r, v1)" by (metis surj_pair)
  have v1: "I env v1" using next_keeps [OF Suc.prems(2)] nx by (metis snd_conv)
  show ?case
  proof (cases r)
    case None
    then show ?thesis using Suc.prems nx v1 by simp
  next
    case (Some e)
    then obtain nm fid c1 where e: "r = Some (nm, fid, c1)" by (cases e) auto
    obtain est v2 where 2: "stat_opt env (join_path dir nm) v1 = (est, v2)" by (metis surj_pair)
    have "I env v2" using stat_opt_keeps [OF v1] 2 by (metis snd_conv)
    then show ?thesis using Suc.IH Suc.prems nx e 2 by (auto simp: Let_def split: option.splits if_splits)
  qed
qed simp

lemma open_keeps:
  "stat_opt env p v = (st, v1) \<Longrightarrow> vfs_opendir (n_mvs env) (n_now env) p v1 = (q, v2) \<Longrightarrow> I env v \<Longrightarrow> I env v2"
  using stat_opt_keeps [of env v p] opendir_keeps [of env v1 p] by simp

lemma listing_keeps:
  "proc_readdir env xid inp out s = Some r \<Longrightarrow> I env (nv s) \<Longrightarrow> I env (nv (snd (snd r)))"
  "proc_readdirplus env xid inp out s = Some r \<Longrightarrow> I env (nv s) \<Longrightarrow> I env (nv (snd (snd r)))"
  by (auto simp: proc_readdir_def proc_readdirplus_def end_listing_def Let_def split: prod.splits option.splits sum.splits
      dest!: readdir_loop_keeps readdirplus_loop_keeps intro!: closedir_keeps dest: open_keeps)

lemma handle_nfs3_keeps:
  "handle_nfs3 env call inp out s = Some r \<Longrightarrow> I env (nv s) \<Longrightarrow> I env (nv (snd (snd r)))"
  using small_procs_keep data_procs_keep proc_create_keeps listing_keeps
  by (auto simp: handle_nfs3_def Let_def split: if_splits)

lemma handle_mount_keeps:
  "I env v \<Longrightarrow> I env (snd (snd (handle_mount (n_mvs env) (n_now env) junk call inp out v)))"
  using stat_keeps by (auto simp: handle_mount_def mount_path_def Let_def split_def split: option.split sum.split)

end

end
