(* ===== verification/Orderly.thy ===== *)
theory Orderly
  imports Nfs3list Vfsinv
begin

text \<open>
  Listings end. The two loops that list a directory, \<^verbatim>\<open>proc_readdir\<close> and \<^verbatim>\<open>proc_readdirplus\<close> of
  \<^verbatim>\<open>src/src/nfs3.c\<close>, go on for as long as \<^verbatim>\<open>vfs_readdir_next\<close> finds an entry behind the last cookie.
  Where the names of the directories are in order this makes progress with every entry, so the
  loops end within a number of rounds that depends on nothing else; where a name has a blank
  inside, READDIRPLUS need not end.
\<close>

section \<open>What the layers below do to the open directories\<close>

text \<open>An object of the list stays as it is, up to its time stamp, or is freed.\<close>

definition dir_core :: "vfs_dir \<Rightarrow> vfs_dir" where
  "dir_core d = d\<lparr>last_used_time := 0\<rparr>"

definition keeps_dirs :: "vfs_dir list \<Rightarrow> vfs_dir list \<Rightarrow> bool" where
  "keeps_dirs ds ds' \<longleftrightarrow> length ds' = length ds \<and>
     (\<forall>i < length ds. dir_core (ds' ! i) = dir_core (ds ! i) \<or> dir_core (ds' ! i) = vfs_dir_zero)"

lemma core_zero [simp]: "dir_core (vfs_dir_zero\<lparr>last_used_time := t\<rparr>) = vfs_dir_zero" "dir_core vfs_dir_zero = vfs_dir_zero"
  "dir_core (d\<lparr>last_used_time := t\<rparr>) = dir_core d"
  by (simp_all add: dir_core_def vfs_dir_zero_def)

lemma keeps_refl [simp]: "keeps_dirs ds ds" by (simp add: keeps_dirs_def)

lemma keeps_trans: "keeps_dirs a b \<Longrightarrow> keeps_dirs b c \<Longrightarrow> keeps_dirs a c"
  unfolding keeps_dirs_def by metis

lemma keeps_update: "dir_core x = dir_core (ds ! i) \<or> dir_core x = vfs_dir_zero \<Longrightarrow> keeps_dirs ds (ds[i := x])"
  unfolding keeps_dirs_def by (metis length_list_update nth_list_update_eq nth_list_update_neq)

lemma keeps_invalidate [simp]: "keeps_dirs ds (dir_openlist_invalidate dsn ds)"
  by (auto simp: keeps_dirs_def dir_openlist_invalidate_def)

lemma keeps_free [simp]: "keeps_dirs ds (dir_openlist_free i ds)"
  unfolding dir_openlist_free_def by (rule keeps_update) simp

lemma keeps_find [simp]: "keeps_dirs ds (snd (dir_openlist_find_by_dsname now dsn ds))"
  by (auto simp: dir_openlist_find_by_dsname_def keeps_update split: option.split)

lemma keeps_find_free [simp]: "keeps_dirs ds (snd (dir_openlist_find_free now ds))"
  by (auto simp: dir_openlist_find_free_def dir_openlist_claim_def Let_def keeps_update)

lemma keeps_cached [simp]: "keeps_dirs ds (snd (mvsvfs_find_cached_member now dsn m ds))"
  using keeps_find [of ds now dsn] by (cases "dir_openlist_find_by_dsname now dsn ds") (auto simp: mvsvfs_find_cached_member_def Let_def split: option.split)

subsection \<open>The write-back layer\<close>

lemma guarded_dirs: "pdsflush_write_member_guarded now i s = (r, ab, s') \<Longrightarrow> dir_pool s' = dir_pool s"
  by (auto simp: pdsflush_write_member_guarded_def Let_def split: prod.splits flush_out.splits if_splits)

lemma flush_dirs [simp]: "keeps_dirs (dir_pool s) (dir_pool (snd (pdsflush_slot env now i s)))"
proof -
  obtain full tab where f: "pdsflush_dataset_is_full (pm_dsname (pool s ! i)) now (g_pww_full s) = (full, tab)" by (metis surj_pair)
  obtain r ab s1 where g: "pdsflush_write_member_guarded now i (s\<lparr>g_pww_full := tab\<rparr>) = (r, ab, s1)" by (metis prod_cases3)
  have "dir_pool s1 = dir_pool s" using guarded_dirs [OF g] by simp
  then show ?thesis
    by (simp add: pdsflush_slot_def f g Let_def clean_slot_def apply_stats_guarded_keeps split: sum.splits prod.splits)
qed

lemma release_dirs [simp]: "dir_pool (pww_slot_release i s) = dir_pool s"
  by (auto simp: pww_slot_release_def pww_unlock_def pww_unalloc_guarded_def pww_deq_guarded_def sys_call_def enq_del_def Let_def
      split: prod.splits sys_out.splits)

lemma new_dirs: "pww_slot_new env now e d dsn m s = (r, s') \<Longrightarrow> keeps_dirs (dir_pool s) (dir_pool s')"
proof -
  assume a: "pww_slot_new env now e d dsn m s = (r, s')"
  obtain i s1 where t: "pww_slot_take env now s = (i, s1)" by (metis surj_pair)
  have s1: "keeps_dirs (dir_pool s) (dir_pool s1)"
    using t flush_dirs [of s env now] by (auto simp: pww_slot_take_def Let_def split: option.splits if_splits)
  obtain q s3 where l: "pww_lock env i (put_slot i (pww_slot_init now e d dsn m (pexports s1)) s1) = (q, s3)" by (metis surj_pair)
  have "dir_pool s3 = dir_pool s1"
    using l by (auto simp: pww_lock_def sys_call_def enq_add_def enq_del_def Let_def split: prod.splits if_splits)
  then show ?thesis using a t l s1 by (auto simp: pww_slot_new_def split: option.splits)
qed

lemma slot_dirs:
  "slot_admit env i dat off s = (r, s') \<Longrightarrow> dir_pool s' = dir_pool s" "slot_store env i dat off s = (r', s') \<Longrightarrow> dir_pool s' = dir_pool s"
  "dir_pool (slot_set_dirty now i s) = dir_pool s" "pww_check_dataset_space now dsn s = (r', s') \<Longrightarrow> dir_pool s' = dir_pool s"
  by (auto simp: slot_admit_def slot_store_def slot_set_dirty_def pww_check_dataset_space_def split: prod.splits)

text \<open>What a write and a creation do once the slot is found.\<close>

lemma write_dirs: "keeps_dirs (dir_pool s) (dir_pool (snd (pww_write env now e d dsn m dat off s)))"
proof -
  obtain r0 s0 where c: "pww_check_dataset_space now dsn s = (r0, s0)" by (metis surj_pair)
  obtain q s1 where n: "pww_slot_new env now e d dsn m s0 = (q, s1)" by (metis surj_pair)
  define wr where "wr i t = (case slot_admit env i dat off t of (Some err, s2) \<Rightarrow> (Some err, s2)
        | (None, s2) \<Rightarrow> (case slot_store env i dat off s2 of (Some err, s3) \<Rightarrow> (Some err, s3)
            | (None, s3) \<Rightarrow> (None, slot_set_dirty now i s3)))" for i t
  have wr: "dir_pool (snd (wr i t)) = dir_pool t" for i t
    by (auto simp: wr_def slot_dirs split: prod.splits option.splits)
  have "keeps_dirs (dir_pool s) (dir_pool s1)" using new_dirs [OF n] slot_dirs(4) [OF c] by simp
  then show ?thesis using slot_dirs(4) [OF c] unfolding pww_write_def wr_def [symmetric] Let_def c
    by (cases "pww_check_member_cap off (of_nat (length dat))"; cases r0; cases "pww_slot_find dsn m s0"; cases q) (simp_all add: n wr)
qed

lemma create_dirs: "keeps_dirs (dir_pool s) (dir_pool (snd (pww_create env now e d dsn m s)))"
proof -
  obtain r0 s0 where c: "pww_check_dataset_space now dsn s = (r0, s0)" by (metis surj_pair)
  obtain q s1 where n: "pww_slot_new env now e d dsn m s0 = (q, s1)" by (metis surj_pair)
  define fin where "fin i t cr = (case slot_admit env i [] 0 t of (Some err, s2) \<Rightarrow> (Some err, if cr then pww_slot_release i s2 else s2)
      | (None, s2) \<Rightarrow> (None :: errno_t option, slot_set_dirty now i s2))" for i t cr
  have fin: "dir_pool (snd (fin i t cr)) = dir_pool t" for i t cr
    by (auto simp: fin_def slot_dirs split: prod.splits option.splits)
  have "keeps_dirs (dir_pool s) (dir_pool s1)" using new_dirs [OF n] slot_dirs(4) [OF c] by simp
  then show ?thesis using slot_dirs(4) [OF c]
    by (cases r0; cases "pww_slot_find dsn m s0"; cases q)
      (simp_all add: pww_create_def fin_def [symmetric] Let_def c n fin)
qed

lemma truncate_dirs: "keeps_dirs (dir_pool s) (dir_pool (snd (pww_truncate env now e d dsn m sz s)))"
proof (cases "pww_slot_find dsn m s")
  case None
  obtain q s1 where n: "pww_slot_new env now e d dsn m s = (q, s1)" by (metis surj_pair)
  show ?thesis
  proof (cases q)
    case (Inl err)
    then show ?thesis using None new_dirs [OF n] by (simp add: pww_truncate_def n)
  next
    case (Inr i)
    obtain a s2 where a: "slot_admit env i [] 0 s1 = (a, s2)" by (metis surj_pair)
    show ?thesis using None Inr n a new_dirs [OF n] slot_dirs(1) [OF a] by (cases a) (simp_all add: pww_truncate_def slot_dirs(3))
  qed
next
  case (Some i)
  obtain a s1 where a: "(if high_water (pool s ! i) < sz then slot_admit env i [] (ucast sz) s else (None, s)) = (a, s1)"
    by (metis surj_pair)
  have s1: "dir_pool s1 = dir_pool s" using a slot_dirs(1) by (auto split: if_splits)
  obtain b pm fs where b: "pww_resize (env_junk env) (int i) (pool s1 ! i) sz (spill_io s1) = (b, pm, fs)" by (metis prod_cases3)
  show ?thesis using Some s1 by (cases a; cases b) (simp_all add: pww_truncate_def a b slot_dirs(3))
qed

lemma discard_dirs: "dir_pool (snd (pww_discard dsn m s)) = dir_pool s"
  by (simp add: pww_discard_def split: option.split)

lemma flush_member_dirs: "keeps_dirs (dir_pool s) (dir_pool (snd (pww_flush_member env now dsn m s)))"
  by (simp add: pww_flush_member_def split: option.split)

lemma fold_dirs:
  assumes "\<And>i s. keeps_dirs (dir_pool s) (dir_pool (f i s))"
  shows "keeps_dirs (dir_pool s) (dir_pool (fold f xs s))"
proof (induction xs arbitrary: s)
  case (Cons x xs)
  then show ?case using keeps_trans [OF assms Cons] by simp
qed simp

lemma flush_all_dirs:
  "keeps_dirs (dir_pool s) (dir_pool (pww_flush_idle env now s))" "keeps_dirs (dir_pool s) (dir_pool (pww_flush_all env now s))"
  unfolding pww_flush_idle_def pww_flush_all_def by (rule fold_dirs, simp add: flush_release_def)+

lemma touch_stats_dirs: "keeps_dirs (dir_pool s) (dir_pool (pww_touch_stats env now e d dsn m t s))"
proof -
  have a: "dir_pool (snd (pdsflush_apply_stats k ud s)) = dir_pool s" for k ud s
    by (auto simp: pdsflush_apply_stats_def sys_call_def split: prod.splits sys_out.splits)
  show ?thesis
    by (auto simp: pww_touch_stats_def sys_call_def enq_add_def enq_del_def a Let_def split_def split: option.split sum.split)
qed

section \<open>Directories in order\<close>

text \<open>
  The blocks of a directory whose members have proper names in ascending order, as the access
  method keeps them, and what reading them from any name on gives.
\<close>

definition blocks_in_order :: "bytes list \<Rightarrow> bool" where
  "blocks_in_order b \<longleftrightarrow> (\<exists>rss. dir_holds b rss \<and> dir_sorted (concat rss) \<and>
     (\<forall>r \<in> set (concat rss). bytes_to_string (raw_name r) 8 \<noteq> []))"

lemma raw_names_text:
  assumes "dir_sorted rs" and "\<forall>r \<in> set rs. bytes_to_string (raw_name r) 8 \<noteq> []" and "r \<in> set rs"
  shows "member_text (bytes_to_string (raw_name r) 8) \<and> raw_name r = pad_name 8 (bytes_to_string (raw_name r) 8)"
proof -
  obtain n where n: "plain_name n" "length n \<le> 8" "raw_name r = pad_name 8 n" using assms by (auto simp: dir_sorted_def)
  then have "bytes_to_string (raw_name r) 8 = n" by (simp add: pad_to_string)
  moreover have "ch_space \<notin> set n" using n(1) by (auto simp: plain_name_def)
  ultimately show ?thesis using assms(2,3) n plain_no_nul by (auto simp: member_text_def)
qed

lemma pad_less:
  "plain_name m \<Longrightarrow> plain_name n \<Longrightarrow> length m \<le> k \<Longrightarrow> length n \<le> k \<Longrightarrow> bytes_less (pad_name k m) (pad_name k n) \<Longrightarrow> bytes_less m n"
proof (induction m arbitrary: n k)
  case Nil
  then show ?case using pad_not_below_blanks by (cases n) (auto simp: pad_name_def)
next
  case (Cons c m)
  then obtain j where k: "k = Suc j" by (cases k) auto
  show ?case
  proof (cases n)
    case Nil
    then show ?thesis using Cons.prems k by (auto simp: pad_name_def ch_space_def word_less_nat_alt)
  next
    case (Cons c' n')
    then show ?thesis using Cons.IH [of n' j] Cons.prems k by (auto simp: pad_name_def)
  qed
qed

lemma order_reads_good:
  assumes "blocks_in_order b"
  shows "good_list (fst (mvs_read_pds_dir tz now start b))"
proof -
  obtain rss where r: "dir_holds b rss" "dir_sorted (concat rss)" "\<forall>r \<in> set (concat rss). bytes_to_string (raw_name r) 8 \<noteq> []"
    using assms by (auto simp: blocks_in_order_def)
  let ?f = "filter (\<lambda>r. \<not> bytes_less (raw_name r) start) (concat rss)"
  obtain es where es: "mvs_read_pds_dir tz now start b = (es, True)" "map entry_key es = map raw_key ?f"
    using dir_scan [OF r(1)] by blast
  have n: "map me_name es = map (\<lambda>r. bytes_to_string (raw_name r) 8) ?f"
    using arg_cong [OF es(2), of "map fst"] by (simp add: comp_def entry_key_def raw_key_def)
  have t: "member_text (bytes_to_string (raw_name r) 8)" "raw_name r = pad_name 8 (bytes_to_string (raw_name r) 8)"
    if "r \<in> set (concat rss)" for r using raw_names_text [OF r(2,3) that] by simp_all
  have "sorted_wrt (\<lambda>a b. bytes_less (raw_name a) (raw_name b)) ?f" using r(2) by (simp add: dir_sorted_def sorted_wrt_filter)
  then have "sorted_wrt bytes_less (map (\<lambda>r. bytes_to_string (raw_name r) 8) ?f)"
    unfolding sorted_wrt_map
  proof (rule sorted_wrt_mono_rel [rotated])
    fix x y assume a: "x \<in> set ?f" "y \<in> set ?f" "bytes_less (raw_name x) (raw_name y)"
    obtain m n where mn: "plain_name m" "length m \<le> 8" "raw_name x = pad_name 8 m" "plain_name n" "length n \<le> 8" "raw_name y = pad_name 8 n"
      using a(1,2) r(2) unfolding dir_sorted_def by (metis filter_is_subset subsetD)
    then show "bytes_less (bytes_to_string (raw_name x) 8) (bytes_to_string (raw_name y) 8)"
      using a(3) pad_less [of m n 8] by (simp add: pad_to_string)
  qed
  moreover have "me_name x \<in> (\<lambda>r. bytes_to_string (raw_name r) 8) ` set ?f" if "x \<in> set es" for x
    using arg_cong [OF n, of set] that by auto
  then have "\<forall>x \<in> set es. member_text (me_name x)" using t by fastforce
  ultimately show ?thesis using es(1) n by (simp add: good_list_def names_ascend_def)
qed

lemma no_blocks_read: "mvs_read_pds_dir tz now start [] = ([], False)" by simp

text \<open>
  An open directory of a data set whose kept list is in order and whose unread blocks are; and
  what the server's tables and the system's directories have to be for this to stay so.
\<close>

definition good_dir :: "vfs_dir \<Rightarrow> bool" where
  "good_dir d \<longleftrightarrow> dir_level d = MVS_LEVEL_ROOT \<or>
     good_list (member_list d) \<and> (\<forall>b. pds_fh d = Some b \<longrightarrow> b = [] \<or> blocks_in_order b)"

definition dirs_good :: "vfs_state \<Rightarrow> bool" where
  "dirs_good v \<longleftrightarrow> vdirs v \<noteq> [] \<and> (\<forall>d \<in> set (vdirs v). good_dir d)"

definition system_in_order :: "mvs_env \<Rightarrow> bool" where
  "system_in_order env \<longleftrightarrow> (\<forall>dsn b. env_dirs env dsn = Some b \<longrightarrow> blocks_in_order b)"

lemma good_core: "dir_core d' = dir_core d \<Longrightarrow> good_dir d' = good_dir d"
  unfolding good_dir_def dir_core_def
  by (metis vfs_dir.select_convs vfs_dir.surjective vfs_dir.update_convs(10))

lemma good_zero [simp]: "good_dir vfs_dir_zero" by (simp add: good_dir_def vfs_dir_zero_def MVS_LEVEL_ROOT_def)

lemma keeps_good:
  assumes "keeps_dirs ds ds'" and "\<forall>d \<in> set ds. good_dir d"
  shows "\<forall>d \<in> set ds'. good_dir d"
proof
  fix d assume "d \<in> set ds'"
  then obtain i where i: "i < length ds" "d = ds' ! i" using assms(1) by (metis in_set_conv_nth keeps_dirs_def)
  then have "dir_core d = dir_core (ds ! i) \<or> dir_core d = dir_core vfs_dir_zero" using assms(1) by (simp add: keeps_dirs_def)
  then show "good_dir d" using good_core assms(2) i(1) good_zero nth_mem by metis
qed

lemma keeps_dirs_good: "dirs_good v \<Longrightarrow> keeps_dirs (vdirs v) (vdirs v') \<Longrightarrow> dirs_good v'"
  using keeps_good by (auto simp: dirs_good_def keeps_dirs_def)

lemma update_good: "dirs_good v \<Longrightarrow> good_dir d \<Longrightarrow> dirs_good (set_dirs ((vdirs v)[i := d]) v')"
  by (auto simp: dirs_good_def dest: set_update_subset_insert [THEN subsetD])

subsection \<open>The operations keep the directories good\<close>

named_theorems good_intros "operations that keep the open directories good"

lemma vdirs_upd [simp]: "vdirs (v\<lparr>pw := p\<rparr>) = dir_pool p" "vdirs (v\<lparr>fsz := c\<rparr>) = vdirs v" "vdirs (v\<lparr>g_dir_epoch := t\<rparr>) = vdirs v"
  "vdirs (v\<lparr>rcache := rc\<rparr>) = vdirs v"
  by (simp_all add: vdirs_def)

lemma member_size_dirs: "vdirs (snd (member_size now dsn m e v)) = vdirs v"
  by (auto simp: member_size_def vfs_call_def sys_call_def vdirs_def Let_def split_def)

lemma stat_dirs: "keeps_dirs (vdirs v) (vdirs (snd (vfs_stat env now path v)))"
proof -
  have m: "keeps_dirs (vdirs v) (vdirs (snd (vfs_stat_pds_member env now p e d v)))" for p e d
    using keeps_cached [of "vdirs v" now]
    by (auto simp: vfs_stat_pds_member_def member_size_dirs Let_def split_def vdirs_def [symmetric] split: option.split sum.split)
  have s: "keeps_dirs (vdirs v) (vdirs (snd (vfs_stat_dataset env now e d v)))" for e d
    by (auto simp: vfs_stat_dataset_def vfs_dir_epoch_def Let_def split_def split: option.split) (simp_all add: vdirs_def)
  have r: "keeps_dirs (vdirs v) (vdirs (snd (vfs_stat_root now e v)))" for e
    by (auto simp: vfs_stat_root_def vfs_dir_epoch_def Let_def split: option.split)
  show ?thesis using m s r by (auto simp: vfs_stat_def Let_def split: prod.split mvs_path_kind.split)
qed

lemma stat_opt_dirs: "keeps_dirs (vdirs v) (vdirs (snd (stat_opt env path v)))"
  using stat_dirs [of v "n_mvs env" "n_now env" path] by (auto simp: stat_opt_def split: prod.splits sum.splits)

lemma lift_dirs: "keeps_dirs (vdirs v) (dir_pool (snd r)) \<Longrightarrow> keeps_dirs (vdirs v) (vdirs (snd (lift_pw r v)))"
  by (simp add: lift_pw_def)

lemma change_dirs:
  "keeps_dirs (vdirs v) (vdirs (snd (vfs_pwrite env now path data off v)))"
  "keeps_dirs (vdirs v) (vdirs (snd (vfs_create env now path mode v)))"
  "keeps_dirs (vdirs v) (vdirs (snd (vfs_commit env now path v)))"
  "keeps_dirs (vdirs v) (vdirs (snd (vfs_set_times env now path sa asec sm msec v)))"
  "keeps_dirs (vdirs v) (vdirs (snd (vfs_truncate env now path sz v)))"
  using write_dirs [of "pw v"] create_dirs [of "pw v"] flush_member_dirs [of "pw v"] touch_stats_dirs [of "pw v"] truncate_dirs [of "pw v"]
    stat_dirs [of v env now path]
  by (auto simp: vfs_pwrite_def vfs_create_def vfs_commit_def vfs_set_times_def vfs_truncate_def lift_pw_def Let_def vdirs_def
      split: prod.splits sum.splits option.splits)

lemma lib_dirs: "vdirs (snd (lib_unlink k v)) = vdirs v" "vdirs (snd (lib_rename k k' v)) = vdirs v"
  "keeps_dirs (vdirs v) (vdirs (dir_changed now e d dsn v))"
  by (auto simp: lib_unlink_def lib_rename_def dir_changed_def vfs_call_def sys_call_def vdirs_def Let_def split_def)

lemma remove_dirs: "keeps_dirs (vdirs v) (vdirs (snd (vfs_remove env now path v)))"
proof -
  have "keeps_dirs (vdirs v) (vdirs (dir_changed now e d dsn (snd (lib_unlink k (v\<lparr>pw := snd (pww_discard dsn m (pw v))\<rparr>)))))" for e d dsn k m
    using lib_dirs(3) [of "snd (lib_unlink k (v\<lparr>pw := snd (pww_discard dsn m (pw v))\<rparr>))" now e d dsn]
    by (simp add: lib_dirs discard_dirs) (simp add: vdirs_def)
  then show ?thesis
    by (auto simp: vfs_remove_def Let_def split_def lib_dirs discard_dirs split: sum.split option.split) (simp_all add: vdirs_def)
qed

lemma rename_dirs: "keeps_dirs (vdirs v) (vdirs (snd (vfs_rename env now a b v)))"
proof -
  obtain kf fe fd where kf: "mvs_path_type (vexports v) (ebcdic_path a) = (kf, fe, fd)" by (metis prod_cases3)
  obtain kt te td where kt: "mvs_path_type (vexports v) (ebcdic_path b) = (kt, te, td)" by (metis prod_cases3)
  obtain x fdsn fm where x: "mvs_get_pds_dsn_and_member (vexports v) (ebcdic_path a) fe = (x, fdsn, fm)" by (metis prod_cases3)
  obtain y tdsn tm where y: "mvs_get_pds_dsn_and_member (vexports v) (ebcdic_path b) te = (y, tdsn, tm)" by (metis prod_cases3)
  obtain q p where p: "pww_flush_member env now fdsn fm (pw v) = (q, p)" by (metis surj_pair)
  define p1 where "p1 = snd (pww_discard tdsn tm p)"
  obtain r s1 where r: "lib_rename (fdsn, fm) (tdsn, tm) (v\<lparr>pw := p1\<rparr>) = (r, s1)" by (metis surj_pair)
  have kp: "keeps_dirs (vdirs v) (dir_pool p)" using flush_member_dirs [of "pw v" env now fdsn fm] p by (simp add: vdirs_def)
  have s1: "vdirs s1 = dir_pool p" using lib_dirs(2) [of "(fdsn, fm)" "(tdsn, tm)" "v\<lparr>pw := p1\<rparr>"] r by (simp add: p1_def discard_dirs)
  define s2 where "s2 = s1\<lparr>pw := snd (pww_discard fdsn fm (pw s1))\<rparr>"
  have "vdirs s2 = dir_pool p" using s1 by (simp add: s2_def discard_dirs) (simp add: vdirs_def)
  then have "keeps_dirs (vdirs v) (vdirs (dir_changed now fe fd fdsn s2))" using keeps_trans [OF kp] lib_dirs(3) [of s2] by simp
  then show ?thesis using kp s1 unfolding vfs_rename_def Let_def kf kt prod.case x y p p1_def [symmetric] r s2_def [symmetric]
    by (cases x; cases y; cases q; cases r) auto
qed

lemma pread_dirs: "vdirs (snd (vfs_pread env now path n off v)) = vdirs v"
  by (auto simp: vfs_pread_def put_slot_def vdirs_def Let_def split_def split: option.split)

lemma kept_good [good_intros]:
  assumes "dirs_good v"
  shows "dirs_good (snd (vfs_stat env now path v))" "dirs_good (snd (stat_opt nenv path v))"
    "dirs_good (snd (vfs_pread env now path n off v))" "dirs_good (snd (vfs_pwrite env now path data off v))"
    "dirs_good (snd (vfs_create env now path mode v))" "dirs_good (snd (vfs_remove env now path v))"
    "dirs_good (snd (vfs_rename env now path path' v))" "dirs_good (snd (vfs_truncate env now path sz v))"
    "dirs_good (snd (vfs_commit env now path v))" "dirs_good (snd (vfs_set_times env now path sa asec sm msec v))"
  by (rule keeps_dirs_good [OF assms], simp add: stat_dirs stat_opt_dirs change_dirs remove_dirs rename_dirs pread_dirs)+

lemma open_new_good:
  assumes "system_in_order env" and "ds \<noteq> []" "\<forall>d \<in> set ds. good_dir d" and "open_new_dir env now dset e d ds = (r, ds')"
  shows "ds' \<noteq> []" "\<forall>d \<in> set ds'. good_dir d" "\<forall>i. r = Inr i \<longrightarrow> i < length ds'"
proof -
  obtain i ds1 where f: "dir_openlist_find_free now ds = (i, ds1)" by (metis surj_pair)
  have k: "keeps_dirs ds ds1" using keeps_find_free [of ds now] f by simp
  have g: "\<forall>d \<in> set ds1. good_dir d" using keeps_good [OF k assms(3)] .
  have l: "length ds1 = length ds" using k by (simp add: keeps_dirs_def)
  have i: "i < length ds1" using open_dirs.pick_bound [of ds now] assms(2) f l by auto
  define dir where "dir b = (ds1 ! i)\<lparr>vd_used := True, dir_level := MVS_LEVEL_DATASET, vd_export := e, vd_dataset := d,
     pds_dsname := take 45 (dsname_ebcdic dset), next_cookie := 0, member_list := [], end_of_dir_read := False, pds_fh := Some b\<rparr>" for b
  have n: "good_dir (dir b)" if "blocks_in_order b" for b using that by (simp add: good_dir_def dir_def good_list_def names_ascend_def)
  have fr: "\<forall>d \<in> set (dir_openlist_free i ds1). good_dir d" by (rule keeps_good [OF keeps_free g])
  have r: "(\<exists>err. r = Inl err) \<and> ds' = dir_openlist_free i ds1 \<or> (\<exists>b. blocks_in_order b \<and> r = Inr i \<and> ds' = ds1[i := dir b])"
    using assms(1,4) f by (auto simp: open_new_dir_def mvs_open_pds_dir_def system_in_order_def dir_def Let_def split: if_splits option.splits)
  have "length ds' = length ds" using r l by (auto simp: dir_openlist_free_def)
  then show "ds' \<noteq> []" using assms(2) by auto
  show "\<forall>d \<in> set ds'. good_dir d" using r n fr g by (auto dest: set_update_subset_insert [THEN subsetD])
  show "\<forall>i. r = Inr i \<longrightarrow> i < length ds'" using r i by auto
qed

lemma opendir_good:
  assumes "system_in_order env" and "dirs_good v"
  shows "dirs_good (snd (vfs_opendir env now path v)) \<and> (\<forall>i. fst (vfs_opendir env now path v) = Inr i \<longrightarrow> i < length (vdirs (snd (vfs_opendir env now path v))))"
proof -
  obtain k e d where t: "mvs_path_type (vexports v) (ebcdic_path path) = (k, e, d)" by (metis prod_cases3)
  have v: "vdirs v \<noteq> []" "\<forall>d \<in> set (vdirs v). good_dir d" using assms(2) by (auto simp: dirs_good_def)
  show ?thesis
  proof (cases k)
    case MVS_PATH_TYPE_ROOT
    obtain i dp where f: "dir_openlist_find_free now (vdirs v) = (i, dp)" by (metis surj_pair)
    have kd: "keeps_dirs (vdirs v) dp" using keeps_find_free [of "vdirs v" now] f by simp
    then have "dirs_good (set_dirs dp v)" using keeps_dirs_good [OF assms(2), of "set_dirs dp v"] by simp
    from update_good [OF this] have "dirs_good (set_dirs (dp[i := x]) v)" if "dir_level x = MVS_LEVEL_ROOT" for x
      using that by (simp add: good_dir_def)
    moreover have "i < length dp" using open_dirs.pick_bound [of "vdirs v" now] v(1) f kd by (auto simp: keeps_dirs_def)
    ultimately show ?thesis using MVS_PATH_TYPE_ROOT t f by (simp add: vfs_opendir_def)
  next
    case MVS_PATH_TYPE_DATASET
    show ?thesis
    proof (cases "export_dataset_get (vexports v) e d")
      case None
      then show ?thesis using MVS_PATH_TYPE_DATASET t assms(2) by (simp add: vfs_opendir_def)
    next
      case (Some ds)
      obtain q dp where q: "dir_openlist_find_by_dsname now (dsname_ebcdic ds) (vdirs v) = (q, dp)" by (metis surj_pair)
      have kd: "keeps_dirs (vdirs v) dp" using keeps_find [of "vdirs v" now "dsname_ebcdic ds"] q by simp
      then have gd: "dirs_good (set_dirs dp v)" using keeps_dirs_good [OF assms(2), of "set_dirs dp v"] by simp
      have new: "dirs_good (set_dirs dp2 v) \<and> (\<forall>i. r = Inr i \<longrightarrow> i < length dp2)"
        if "open_new_dir env now ds e d dp1 = (r, dp2)" "dirs_good (set_dirs dp1 v)" for r dp1 dp2
        using open_new_good [OF assms(1) _ _ that(1)] that(2) by (simp add: dirs_good_def)
      show ?thesis
      proof (cases q)
        case None
        then show ?thesis using MVS_PATH_TYPE_DATASET t Some q new [OF _ gd] by (auto simp: vfs_opendir_def split: prod.split)
      next
        case (Some i)
        have i: "i < length dp" using Some q kd by (auto simp: dir_openlist_find_by_dsname_def split: option.splits dest!: find_upt_Some)
        let ?d = "(dp ! i)\<lparr>pds_fh := None, member_list := [], end_of_dir_read := False\<rparr>"
        have "good_dir (?d\<lparr>pds_fh := Some b\<rparr>)" if "blocks_in_order b" for b using that by (simp add: good_dir_def good_list_def names_ascend_def)
        moreover have "good_dir ?d" by (simp add: good_dir_def good_list_def names_ascend_def)
        ultimately have up: "dirs_good (set_dirs (dp[i := ?d]) v)" "\<And>b. blocks_in_order b \<Longrightarrow> dirs_good (set_dirs (dp[i := ?d\<lparr>pds_fh := Some b\<rparr>]) v)"
          using update_good [OF gd] by simp_all
        show ?thesis using MVS_PATH_TYPE_DATASET t \<open>export_dataset_get (vexports v) e d = _\<close> q Some i gd up new [OF _ up(1)] assms(1)
          by (auto simp: vfs_opendir_def mvs_open_pds_dir_def system_in_order_def Let_def split: prod.split option.splits sum.splits)
      qed
    qed
  qed (use t assms(2) in \<open>simp_all add: vfs_opendir_def\<close>)
qed

lemma closedir_good [good_intros]: "dirs_good v \<Longrightarrow> dirs_good (vfs_closedir i v)"
proof (cases "i < length (vdirs v)")
  case True
  assume g: "dirs_good v"
  then have "good_dir (vdirs v ! i)" using True by (simp add: dirs_good_def)
  then show ?thesis unfolding vfs_closedir_def by (intro update_good [OF g]) (auto simp: good_dir_def)
qed (simp add: vfs_closedir_def dirs_good_def list_update_beyond)

lemma load_good:
  assumes "good_dir d"
  shows "good_dir (load_members env now raw d)"
proof -
  obtain l eod where l: "mvs_read_pds_dir (env_tz env) now (take 8 (raw @ 0 # env_tail env)) (case pds_fh d of None \<Rightarrow> [] | Some b \<Rightarrow> b) = (l, eod)"
    by (metis surj_pair)
  have "good_list l" if nr: "dir_level d \<noteq> MVS_LEVEL_ROOT"
  proof (cases "pds_fh d = None \<or> pds_fh d = Some []")
    case True
    then show ?thesis using l by (auto simp: good_list_def names_ascend_def)
  next
    case False
    then obtain b where "pds_fh d = Some b" "blocks_in_order b" using assms nr by (auto simp: good_dir_def)
    then show ?thesis using order_reads_good [of b "env_tz env" now "take 8 (raw @ 0 # env_tail env)"] l by simp
  qed
  then have "good_dir (d\<lparr>member_list := l, end_of_dir_read := eod, pds_fh := map_option (\<lambda>_. []) (pds_fh d)\<rparr>)"
    by (auto simp: good_dir_def)
  then show ?thesis unfolding load_members_def l by simp
qed

text \<open>What a call for the next entry of a data set's directory gives.\<close>

lemma next_entry_found:
  assumes "good_dir (vdirs v ! i)" and "dir_level (vdirs v ! i) \<noteq> MVS_LEVEL_ROOT"
  obtains r v1 d1 where "vfs_readdir_next env now i maxname c v = (r, v1)" and "good_dir d1" and "dir_level d1 \<noteq> MVS_LEVEL_ROOT"
    and "v1 = v \<or> v1 = set_dirs ((vdirs v)[i := d1]) v"
    and "\<And>nm fid c'. r = Some (nm, fid, c') \<Longrightarrow> v1 = set_dirs ((vdirs v)[i := d1]) v \<and>
      (\<exists>k. dir_openlist_search_members (map me_name (member_list d1)) (cstr (from_cookie c)) SEARCH_OP_GT = Some k \<and>
        c' = to_cookie (me_name (member_list d1 ! nat k)))"
proof -
  let ?d = "vdirs v ! i" and ?n = "cstr (from_cookie c)"
  define load where "load \<longleftrightarrow> member_list ?d = [] \<or> \<not> bytes_less ?n (me_name (last (member_list ?d)))"
  define d1 where "d1 = (if load then load_members env now (from_cookie c) ?d else ?d)"
  have g: "good_dir d1" using assms(1) load_good by (simp add: d1_def)
  have l: "dir_level d1 \<noteq> MVS_LEVEL_ROOT" using assms(2) by (simp add: d1_def load_members_def Let_def split_def)
  define k where "k = dir_openlist_search_members (map me_name (member_list d1)) ?n SEARCH_OP_GT"
  have e: "vfs_readdir_next env now i maxname c v =
    (if load \<and> end_of_dir_read ?d then (None, v)
     else case k of None \<Rightarrow> (None, set_dirs ((vdirs v)[i := d1]) v)
      | Some j \<Rightarrow> (Some (shown (dir_ext v d1) (pds_dsname d1) maxname (member_list d1 ! nat j)),
          set_dirs ((vdirs v)[i := d1\<lparr>next_cookie := to_cookie (me_name (member_list d1 ! nat j))\<rparr>]) v))"
    using assms(2) unfolding vfs_readdir_next_def Let_def load_def [symmetric] d1_def [symmetric] k_def [symmetric]
    by (cases k) (simp_all add: shown_def dir_ext_def)
  show ?thesis
  proof (cases "load \<and> end_of_dir_read ?d \<or> k = None")
    case True
    then show ?thesis using that [of None _ d1] e g l by (auto split: if_splits)
  next
    case False
    then obtain j where j: "k = Some j" by auto
    let ?d1 = "d1\<lparr>next_cookie := to_cookie (me_name (member_list d1 ! nat j))\<rparr>"
    have d1: "good_dir ?d1" "dir_level ?d1 \<noteq> MVS_LEVEL_ROOT" using g l by (simp_all add: good_dir_def)
    show ?thesis using that [OF _ d1] e False j k_def by (auto simp: shown_def)
  qed
qed

lemma next_good:
  assumes "dirs_good v"
  shows "dirs_good (snd (vfs_readdir_next env now i maxname c v))" "length (vdirs (snd (vfs_readdir_next env now i maxname c v))) = length (vdirs v)"
proof -
  have root: "dirs_good (snd (vfs_readdir_next env now i maxname c v))" if "dir_level (vdirs v ! i) = MVS_LEVEL_ROOT" using that assms by (simp add: vfs_readdir_next_def Let_def)
  show "dirs_good (snd (vfs_readdir_next env now i maxname c v))"
  proof (cases "i < length (vdirs v)")
    case True
    then have g: "good_dir (vdirs v ! i)" using assms by (simp add: dirs_good_def)
    then show ?thesis using root next_entry_found [OF g, of env now maxname c] assms update_good [OF assms] by (metis snd_conv)
  next
    case False
    then have "vdirs (snd (vfs_readdir_next env now i maxname c v)) = vdirs v"
      by (simp add: vfs_readdir_next_def Let_def list_update_beyond split: option.split)
    then show ?thesis using assms by (simp add: dirs_good_def)
  qed
  show "length (vdirs (snd (vfs_readdir_next env now i maxname c v))) = length (vdirs v)"
    by (simp add: vfs_readdir_next_def Let_def split: option.split)
qed

section \<open>Progress\<close>

text \<open>The entry found behind a name is greater than it.\<close>

lemma search_above:
  assumes "names_ascend names" and "dir_openlist_search_members names m SEARCH_OP_GT = Some k"
  shows "nat k < length names \<and> bytes_less m (names ! nat k)"
proof -
  have ne: "names \<noteq> []" using assms(2) by (auto simp: dir_openlist_search_members_def)
  note pl = search_loop_places [OF assms(1) ne, of m]
  show ?thesis
  proof (cases "dol_search_loop names m 0 (int (length names) - 1)")
    case (Inl j)
    note p = pl(1) [OF Inl]
    have k: "k = j + 1" "j + 1 < int (length names)" using assms(2) Inl ne
      by (auto simp: dir_openlist_search_members_def dol_after_slice_def Let_def search_ops split: if_splits)
    then show ?thesis using p by (auto simp: nat_less_iff)
  next
    case (Inr j)
    note p = pl(2) [OF Inr]
    have k: "k = j" "j < int (length names)" using assms(2) Inr ne
      by (auto simp: dir_openlist_search_members_def dol_after_slice_def Let_def search_ops split: if_splits)
    then show ?thesis using p by (auto simp: nat_less_iff)
  qed
qed

text \<open>
  What is left of a listing: for an export the indices up to the largest one, for a data set the
  names of at most eight bytes above the one of the cookie, and behind them a whole export, which
  the object turns into when it is freed under the listing.
\<close>

definition root_left :: "u64 \<Rightarrow> nat" where
  "root_left c = (let i = sint (ucast c :: u32) in if i < 0 then 0 else nat (2 ^ 31 - i))"

definition names_above :: "bytes \<Rightarrow> bytes set" where
  "names_above x = {n. length n \<le> 8 \<and> bytes_less x n}"

definition listing_left :: "vfs_dir \<Rightarrow> u64 \<Rightarrow> nat" where
  "listing_left d c = (if dir_level d = MVS_LEVEL_ROOT then root_left c
     else 2 ^ 31 + card (names_above (cstr (from_cookie c))))"

definition LISTING_FUEL :: nat where "LISTING_FUEL = 2 ^ 66"

lemma names_finite: "finite {n :: bytes. length n \<le> 8}" "card {n :: bytes. length n \<le> 8} \<le> 2 ^ 65"
proof -
  have u: "{n :: bytes. length n \<le> 8} = {n. set n \<subseteq> UNIV \<and> length n \<le> 8}" by simp
  show "finite {n :: bytes. length n \<le> 8}" unfolding u by (rule finite_lists_length_le) simp
  have "card (UNIV :: u8 set) = 256" by (simp add: card_word)
  then have "card {n :: bytes. length n \<le> 8} = (\<Sum>i \<in> {..8}. 256 ^ i)" unfolding u by (subst card_lists_length_le) simp_all
  also have "\<dots> \<le> (2 :: nat) ^ 65" by (simp add: atMost_nat_numeral)
  finally show "card {n :: bytes. length n \<le> 8} \<le> 2 ^ 65" .
qed

lemma above_less:
  assumes "bytes_less x y" and "length y \<le> 8"
  shows "card (names_above y) < card (names_above x)"
proof (rule psubset_card_mono)
  show "finite (names_above x)" by (rule finite_subset [OF _ names_finite(1)]) (auto simp: names_above_def)
  have "y \<in> names_above x" "y \<notin> names_above y" using assms bytes_less_irrefl by (simp_all add: names_above_def)
  moreover have "names_above y \<subseteq> names_above x" using assms(1) bytes_less_trans by (auto simp: names_above_def)
  ultimately show "names_above y \<subset> names_above x" by blast
qed

lemma root_left_bound: "root_left c \<le> 2 ^ 31"
  unfolding root_left_def Let_def by (simp del: One_nat_def) linarith

lemma left_bound: "listing_left d c < LISTING_FUEL"
proof -
  have "card (names_above x) \<le> 2 ^ 65" for x
    by (rule order_trans [OF card_mono names_finite(2)]) (auto simp: names_above_def names_finite(1))
  from this [of "cstr (from_cookie c)"] root_left_bound [of c] show ?thesis by (simp add: listing_left_def LISTING_FUEL_def)
qed

lemma root_less:
  assumes "0 \<le> i" and "i = sint (ucast c :: u32)"
  shows "root_left (of_int (i + 1)) < root_left c"
proof -
  have "i < 2 ^ 31" using assms(2) sint_lt [of "ucast c :: u32"] by simp
  have u: "(ucast (of_int j :: u64) :: u32) = of_int j" for j
    by (rule bit_word_eqI) (simp add: bit_simps)
  have w: "sint (of_int j :: u32) = signed_take_bit 31 j" for j by (simp add: signed_of_int)
  show ?thesis
  proof (cases "i + 1 < 2 ^ 31")
    case True
    then have "sint (of_int (i + 1) :: u32) = i + 1" unfolding w using assms(1) by (simp add: signed_take_bit_int_eq_self)
    then show ?thesis using assms True unfolding root_left_def u by simp
  next
    case False
    then have "i + 1 = 2 ^ 31" using \<open>i < 2 ^ 31\<close> by simp
    then have "sint (of_int (i + 1) :: u32) < 0" unfolding w by simp
    then show ?thesis using assms \<open>i < 2 ^ 31\<close> unfolding root_left_def u by simp
  qed
qed

lemma root_next_progress:
  "root_readdir_next es d maxname c = Some (nm, fid, c') \<Longrightarrow> root_left c' < root_left c"
  using root_less [of "sint (ucast c :: u32)" c]
  by (auto simp: root_readdir_next_def Let_def simp del: of_int_add split: if_splits option.splits)

lemma next_progress:
  assumes "dirs_good v" and "i < length (vdirs v)" and "vfs_readdir_next env now i maxname c v = (Some (nm, fid, c'), v1)"
  shows "listing_left (vdirs v1 ! i) c' < listing_left (vdirs v ! i) c"
proof (cases "dir_level (vdirs v ! i) = MVS_LEVEL_ROOT")
  case True
  then show ?thesis using assms(3) root_next_progress by (auto simp: vfs_readdir_next_def listing_left_def Let_def)
next
  case False
  have g: "good_dir (vdirs v ! i)" using assms by (simp add: dirs_good_def)
  obtain d1 k where d: "good_dir d1" "dir_level d1 \<noteq> MVS_LEVEL_ROOT" "v1 = set_dirs ((vdirs v)[i := d1]) v"
    "dir_openlist_search_members (map me_name (member_list d1)) (cstr (from_cookie c)) SEARCH_OP_GT = Some k"
    "c' = to_cookie (me_name (member_list d1 ! nat k))"
    using next_entry_found [OF g False, of env now maxname c] assms(3) by (metis prod.inject)
  have l: "good_list (member_list d1)" using d(1,2) by (simp add: good_dir_def)
  then have k: "nat k < length (member_list d1)" "bytes_less (cstr (from_cookie c)) (me_name (member_list d1 ! nat k))"
    using search_above [OF _ d(4)] by (auto simp: good_list_def)
  then have m: "member_text (me_name (member_list d1 ! nat k))" using l by (simp add: good_list_def)
  then have "cstr (from_cookie c') = me_name (member_list d1 ! nat k)" by (simp add: d(5) from_to_cookie cstr_member)
  then show ?thesis using above_less [OF k(2)] m d(2,3) False assms(2) by (simp add: listing_left_def member_text_def)
qed

lemma left_kept:
  assumes "keeps_dirs (vdirs v) (vdirs v')" and "i < length (vdirs v)"
  shows "listing_left (vdirs v' ! i) c \<le> listing_left (vdirs v ! i) c"
proof -
  have "dir_core (vdirs v' ! i) = dir_core (vdirs v ! i) \<or> dir_core (vdirs v' ! i) = vfs_dir_zero" using assms by (simp add: keeps_dirs_def)
  moreover have "dir_level (dir_core d) = dir_level d" for d by (simp add: dir_core_def)
  moreover have "dir_level vfs_dir_zero = MVS_LEVEL_ROOT" by (simp add: vfs_dir_zero_def MVS_LEVEL_ROOT_def)
  ultimately have "dir_level (vdirs v' ! i) = dir_level (vdirs v ! i) \<or> dir_level (vdirs v' ! i) = MVS_LEVEL_ROOT" by metis
  then show ?thesis using root_left_bound [of c] by (auto simp: listing_left_def)
qed

section \<open>The loops end\<close>

lemma readdir_loop_ends:
  "dirs_good v \<Longrightarrow> i < length (vdirs v) \<Longrightarrow> listing_left (vdirs v ! i) c < n \<Longrightarrow>
    \<exists>r. readdir_loop n env i maxcount start c w out v = Some r"
proof (induction n arbitrary: c w out v)
  case (Suc n)
  obtain r v1 where nx: "vfs_readdir_next (n_mvs env) (n_now env) i MAX_NAME c v = (r, v1)" by (metis surj_pair)
  have v1: "dirs_good v1" "i < length (vdirs v1)" using next_good [OF Suc.prems(1)] nx Suc.prems(2) by (metis snd_conv)+
  show ?case
  proof (cases r)
    case None
    then show ?thesis using nx by (simp del: split_paired_Ex)
  next
    case (Some e)
    obtain nm fid c' where e: "e = (nm, fid, c')" by (cases e)
    have "listing_left (vdirs v1 ! i) c' < n" using next_progress [OF Suc.prems(1,2)] nx Some e Suc.prems(3) by fastforce
    from Suc.IH [OF v1 this] show ?thesis using nx Some e by (simp add: Let_def del: split_paired_Ex)
  qed
qed simp

lemma readdirplus_loop_ends:
  "dirs_good v \<Longrightarrow> i < length (vdirs v) \<Longrightarrow> listing_left (vdirs v ! i) c < n \<Longrightarrow>
    \<exists>r. readdirplus_loop n env dir i maxcount start c w out v = Some r"
proof (induction n arbitrary: c w out v)
  case (Suc n)
  obtain r v1 where nx: "vfs_readdir_next (n_mvs env) (n_now env) i MAX_NAME c v = (r, v1)" by (metis surj_pair)
  have v1: "dirs_good v1" "i < length (vdirs v1)" using next_good [OF Suc.prems(1)] nx Suc.prems(2) by (metis snd_conv)+
  show ?case
  proof (cases r)
    case None
    then show ?thesis using nx by (simp del: split_paired_Ex)
  next
    case (Some e)
    obtain nm fid c' where e: "e = (nm, fid, c')" by (cases e)
    obtain est v2 where st: "stat_opt env (join_path dir nm) v1 = (est, v2)" by (metis surj_pair)
    have k: "keeps_dirs (vdirs v1) (vdirs v2)" using stat_opt_dirs [of v1 env "join_path dir nm"] st by simp
    have v2: "dirs_good v2" "i < length (vdirs v2)" using keeps_dirs_good [OF v1(1) k] v1(2) k by (simp_all add: keeps_dirs_def)
    have "listing_left (vdirs v1 ! i) c' < n" using next_progress [OF Suc.prems(1,2)] nx Some e Suc.prems(3) by fastforce
    then have "listing_left (vdirs v2 ! i) c' < n" using left_kept [OF k v1(2), of c'] by linarith
    from Suc.IH [OF v2 this] show ?thesis using nx Some e st by (simp add: Let_def del: split_paired_Ex split: option.split)
  qed
qed simp

text \<open>What a listing needs of the system, and its fuel in the model.\<close>

definition env_in_order :: "nfs_env \<Rightarrow> bool" where
  "env_in_order env \<longleftrightarrow> system_in_order (n_mvs env) \<and> LISTING_FUEL \<le> n_fuel env"

lemma listings_answered:
  assumes "env_in_order env" and "dirs_good (nv s)"
  shows "\<exists>r. proc_readdir env xid inp out s = Some r" "\<exists>r. proc_readdirplus env xid inp out s = Some r"
proof -
  have fuel: "listing_left d c < n_fuel env" for d c using left_bound [of d c] assms(1) unfolding env_in_order_def by linarith
  have o: "dirs_good v2 \<and> i < length (vdirs v2)"
    if "stat_opt env p (nv s) = (st, v1)" "vfs_opendir (n_mvs env) (n_now env) p v1 = (Inr i, v2)" for p st v1 i v2
    using opendir_good [of "n_mvs env" v1 "n_now env" p] assms kept_good(2) [OF assms(2), of env p] that by (simp add: env_in_order_def)
  have ends: "\<exists>r. map_option f (readdir_loop (n_fuel env) env i mc st c w z v) = Some r"
    "\<exists>r. map_option f (readdirplus_loop (n_fuel env) env p i mc st c w z v) = Some r"
    if "dirs_good v" "i < length (vdirs v)" for f i mc st c w z v p
    using readdir_loop_ends [OF that fuel, of env mc st c w z] readdirplus_loop_ends [OF that fuel, of env p mc st c w z] by auto
  show "\<exists>r. proc_readdir env xid inp out s = Some r" "\<exists>r. proc_readdirplus env xid inp out s = Some r"
    unfolding proc_readdir_def proc_readdirplus_def Let_def
    by (auto simp del: split_paired_Ex map_option_eq_Some split: prod.split option.split sum.split dest!: o intro!: ends)
qed

lemma nfs3_returns: "env_in_order env \<Longrightarrow> dirs_good (nv s) \<Longrightarrow> \<exists>r. handle_nfs3 env call inp out s = Some r"
  using listings_answered [of env s "call_xid call" inp out] by (simp add: handle_nfs3_def Let_def del: split_paired_Ex)

interpretation in_order: vfs_invariant "\<lambda>env v. env_in_order env \<longrightarrow> dirs_good v"
  by unfold_locales (simp_all add: good_intros next_good opendir_good env_in_order_def)

text \<open>Every call returns, and leaves the open directories as the next one needs them.\<close>

lemma nfs3_total:
  assumes "env_in_order env" and "dirs_good (nv s)"
  shows "\<exists>r. handle_nfs3 env call inp out s = Some r \<and> dirs_good (nv (snd (snd r)))"
  using nfs3_returns [OF assms, of call inp out] in_order.handle_nfs3_keeps [of env call inp out s] assms by blast

lemma mount_total:
  "env_in_order env \<Longrightarrow> dirs_good v \<Longrightarrow> dirs_good (snd (snd (handle_mount (n_mvs env) (n_now env) junk call inp out v)))"
  using in_order.handle_mount_keeps [of env v junk call inp out] by simp

section \<open>A name with a blank\<close>

text \<open>
  A blank inside a member name ends the name in the cookie, so the search behind the cookie finds
  the same entry again. READDIRPLUS skips an entry whose attributes it cannot get, and the path of
  such a member is refused: the listing goes round for ever.
\<close>

lemma readdirplus_stuck:
  assumes "vfs_readdir_next (n_mvs env) (n_now env) i MAX_NAME c v = (Some (nm, fid, c), v)" and "stat_opt env (join_path dir nm) v = (None, v)"
  shows "readdirplus_loop n env dir i maxcount start c w out v = None"
  using assms by (induction n) simp_all

text \<open>The directory of the data set \<^verbatim>\<open>A\<close> with the member \<^verbatim>\<open>A B\<close>.\<close>

definition blank_entry :: pds_member_entry_t where
  "blank_entry = (hd (fst (mvs_read_pds_dir 0 100 (replicate 8 0) [two_members])))\<lparr>me_name := [0xC1, 0x40, 0xC2]\<rparr>"

definition blank_vfs :: vfs_state where
  "blank_vfs = set_dirs [vfs_dir_zero\<lparr>vd_used := True, dir_level := MVS_LEVEL_DATASET, pds_dsname := [0xC1], member_list := [blank_entry],
     next_cookie := to_cookie [0xC1, 0x40, 0xC2], end_of_dir_read := True\<rparr>] (sample_vfs False)"

lemma blank_name_never_ends:
  "readdirplus_loop n sample_env dir_a 0 maxcount start (to_cookie [0xC1, 0x40, 0xC2]) w out blank_vfs = None"
proof -
  let ?c = "to_cookie [0xC1, 0x40, 0xC2]"
  have c: "cstr (from_cookie ?c) = [0xC1]" by code_simp
  have d: "vdirs blank_vfs = [vfs_dir_zero\<lparr>vd_used := True, dir_level := MVS_LEVEL_DATASET, pds_dsname := [0xC1], member_list := [blank_entry],
     next_cookie := ?c, end_of_dir_read := True\<rparr>]" by (simp add: blank_vfs_def)
  have n: "me_name blank_entry = [0xC1, 0x40, 0xC2]" by (simp add: blank_entry_def)
  have s: "dir_openlist_search_members [[0xC1, 0x40, 0xC2]] [0xC1] SEARCH_OP_GT = Some 0" by code_simp
  have "export_dataset_get (vexports (sample_vfs False)) 0 0 = Some admit_dataset"
    by (simp add: sample_vfs_def vexports_def export_dataset_get_def exports_get_def admit_exports_def admit_dataset_def)
  then have "vfs_readdir_next (n_mvs sample_env) (n_now sample_env) 0 MAX_NAME ?c blank_vfs =
     (Some (generate_file_name [] [0xC1, 0x40, 0xC2] MAX_NAME, mvs_fid_hash (Some [0xC1]) (Some [0xC1, 0x40, 0xC2]), ?c), blank_vfs)"
    unfolding vfs_readdir_next_def Let_def d
    by (simp add: c n s) (simp add: blank_vfs_def vfs_dir_zero_def MVS_LEVEL_DATASET_def MVS_LEVEL_ROOT_def admit_dataset_def n)
  moreover have "generate_file_name [] [0xC1, 0x40, 0xC2] MAX_NAME = [0x61, 0x20, 0x62]" by code_simp
  moreover have "mvs_path_type (vexports (sample_vfs False)) (ebcdic_path (join_path dir_a [0x61, 0x20, 0x62])) = (MVS_PATH_TYPE_PDS_MEMBER, 0, 0) \<and>
    fst (mvs_get_pds_dsn_and_member (vexports (sample_vfs False)) (ebcdic_path (join_path dir_a [0x61, 0x20, 0x62])) 0) \<noteq> None" by code_simp
  then have "stat_opt sample_env (join_path dir_a [0x61, 0x20, 0x62]) blank_vfs = (None, blank_vfs)"
    by (auto simp: stat_opt_def vfs_stat_def vfs_stat_pds_member_def blank_vfs_def split: option.split prod.split)
  ultimately show ?thesis by (intro readdirplus_stuck) auto
qed

end
