(* ===== verification/Service.thy ===== *)
theory Service
  imports Nfsd Format Orderly
begin

text \<open>
  Properties of the event loop's parts: ports on the command line, the service of the ready
  connections, and the answer a connection gets.
\<close>

section \<open>Ports\<close>

lemma digits_append: "(\<forall>c \<in> set ds. isdigit c) \<Longrightarrow>
  decimal_digits acc (ds @ s) = decimal_digits (fst (decimal_digits acc ds)) s"
  by (induction ds arbitrary: acc) auto

lemma digits_dec: "decimal_digits 0 (dec n) = (int n, [])"
proof (induction n rule: dec.induct)
  case (1 n)
  show ?case
  proof (cases "n < 10")
    case True
    then show ?thesis by (subst dec.simps) (simp add: digit)
  next
    case False
    then have "decimal_digits 0 (dec n) = decimal_digits (int (n div 10)) [0xF0 + of_nat (n mod 10)]"
      using 1 digits_append [OF dec_digits, of 0 "n div 10"] by (subst dec.simps) simp
    moreover have "10 * int (n div 10) + int (n mod 10) = int n" by presburger
    ultimately show ?thesis by (simp add: digit)
  qed
qed

lemma strtol_dec:
  assumes "\<forall>c. s = c # t \<longrightarrow> \<not> isdigit c" and "s = [] \<or> (\<exists>c. s = c # t)"
  shows "strtol10 (dec n @ s) = (int n, s)"
proof -
  obtain c r where d: "dec n = c # r" "isdigit c" using dec_head by blast
  then have c: "\<not> isspace c" "c \<noteq> ch_minus" "c \<noteq> ch_plus" by (auto simp: isdigit_def isspace_def opt_chars)
  have "decimal_digits 0 (dec n @ s) = (int n, s)"
    using digits_append [OF dec_digits, of 0 n s] digits_dec [of n] assms by (cases s) auto
  then show ?thesis using d c by (auto simp: strtol10_def Let_def)
qed

text \<open>
  A port on the command line: of the decimal form of a number, the port is that number when
  it is from 1 to 65535 and there is none otherwise; a number with anything behind it is
  refused; and whatever the text, no port outside that range comes out.
\<close>
theorem parse_port_exact:
  "parse_port (dec n) = (if 1 \<le> n \<and> n \<le> 65535 then Some (int n) else None) \<and>
   (parse_port (dec n @ c # t) = None \<or> isdigit c) \<and> parse_port s \<in> insert None (Some ` {1..65535})"
proof (intro conjI)
  have "dec n \<noteq> []" using dec_head [of n] by auto
  then show "parse_port (dec n) = (if 1 \<le> n \<and> n \<le> 65535 then Some (int n) else None)"
    using strtol_dec [of "[]" "[]" n] by (simp add: parse_port_def)
  show "parse_port (dec n @ c # t) = None \<or> isdigit c"
    using strtol_dec [of "c # t" t n] by (auto simp: parse_port_def)
  show "parse_port s \<in> insert None (Some ` {1..65535})" by (auto simp: parse_port_def Let_def split_def)
qed

section \<open>Service of the ready connections\<close>

text \<open>Serving connections one after the other: those that failed, and the state.\<close>

fun serve :: "srv_env \<Rightarrow> conn_t list \<Rightarrow> server \<Rightarrow> (conn_t list \<times> server) option" where
  "serve env [] s = Some ([], s)"
| "serve env (c # cs) s =
     (case handle_connection env c s of
        None \<Rightarrow> None
      | Some (ok, s1) \<Rightarrow> map_option (\<lambda>(f, s2). (if ok then f else c # f, s2)) (serve env cs s1))"

text \<open>The table and the closed sockets play no part in the answer to a call.\<close>

definition with_table :: "conn_t list \<Rightarrow> int list \<Rightarrow> server \<Rightarrow> server" where
  "with_table cs fds s = s\<lparr>g_conns := cs, sockets_closed := fds\<rparr>"

lemma with_table_simps [simp]:
  "with_table a b (with_table c d s) = with_table a b s" "g_conns (with_table a b s) = a" "sockets_closed (with_table a b s) = b"
  "sv (with_table a b s) = sv s" "net_in (with_table a b s) = net_in s" "net_out (with_table a b s) = net_out s"
  by (simp_all add: with_table_def)

lemma with_own_table [simp]: "with_table (g_conns s) (sockets_closed s) s = s" by (simp add: with_table_def)

lemma handle_table:
  "handle_connection env c (with_table a b s) = map_option (\<lambda>(r, t). (r, with_table a b t)) (handle_connection env c s)"
  by (auto simp: handle_connection_def with_table_def Let_def split_def split: option.split)

lemma serve_table: "serve env cs (with_table a b s) = map_option (\<lambda>(f, t). (f, with_table a b t)) (serve env cs s)"
proof (induction cs arbitrary: s)
  case (Cons c cs)
  then show ?case by (cases "handle_connection env c s") (auto simp: handle_table option.map_comp comp_def split_def cong: if_cong)
qed simp

lemma handle_keeps_table: "handle_connection env c s = Some (r, s') \<Longrightarrow> g_conns s' = g_conns s \<and> sockets_closed s' = sockets_closed s"
  by (auto simp: handle_connection_def Let_def split: option.splits prod.splits if_splits)

lemma serve_keeps_table: "serve env cs s = Some (f, s') \<Longrightarrow> g_conns s' = g_conns s \<and> sockets_closed s' = sockets_closed s"
  by (induction cs arbitrary: s f) (auto dest!: handle_keeps_table split: option.splits)

lemma remove_conn_split:
  "remove_conn (length a) (a @ x # r) = a @ (if r = [] then [] else last r # butlast r)"
  by (simp add: remove_conn_def butlast_append)

lemma remove_conn_parts:
  assumes "i < length cs"
  shows "take i (remove_conn i cs) = take i cs" and "mset (drop i (remove_conn i cs)) + {#cs ! i#} = mset (drop i cs)"
proof -
  obtain a x r where cs: "cs = a @ x # r" and l: "i = length a" using assms id_take_nth_drop by (metis length_take min.absorb4)
  have "r \<noteq> [] \<Longrightarrow> mset r = add_mset (last r) (mset (butlast r))" by (cases r rule: rev_cases) simp_all
  then show "take i (remove_conn i cs) = take i cs" "mset (drop i (remove_conn i cs)) + {#cs ! i#} = mset (drop i cs)"
    unfolding cs l remove_conn_split by simp_all
qed

lemma service_serves:
  assumes "service_loop env rfds i s = Some s'"
  shows "\<exists>order fails t. mset order = mset (filter (\<lambda>c. rfds (conn_fd c)) (drop i (g_conns s))) \<and>
    serve env order s = Some (fails, t) \<and> mset (g_conns s') + mset fails = mset (g_conns s) \<and>
    s' = with_table (g_conns s') (sockets_closed s @ map conn_fd fails) t"
  using assms
proof (induction env rfds i s rule: service_loop.induct)
  case (1 env rfds i s)
  note u = 1(4) [unfolded service_loop.simps [of env rfds i s]]
  let ?cs = "g_conns s"
  let ?P = "\<lambda>c. rfds (conn_fd c)"
  show ?case
  proof (cases "i < length ?cs")
    case False
    then show ?thesis using u by (intro exI [of _ "[]"]) simp
  next
    case i: True
    let ?c = "?cs ! i"
    have d: "drop i ?cs = ?c # drop (Suc i) ?cs" using i by (simp add: Cons_nth_drop_Suc)
    show ?thesis
    proof (cases "?P ?c")
      case False
      then have "service_loop env rfds (Suc i) s = Some s'" using u i by simp
      from 1(3) [OF i refl False this] show ?thesis using d False by simp
    next
      case r: True
      obtain ok s1 where h: "handle_connection env ?c s = Some (ok, s1)"
        using u i r by (auto simp: Let_def split: option.splits)
      have k: "g_conns s1 = ?cs" "sockets_closed s1 = sockets_closed s" using handle_keeps_table [OF h] by simp_all
      show ?thesis
      proof (cases ok)
        case True
        then have "service_loop env rfds (Suc i) s1 = Some s'"
          using u i r h by (simp add: Let_def)
        from 1(1) [OF i refl r h refl _ this] True obtain order fails t where
          "mset order = mset (filter ?P (drop (Suc i) ?cs))" "serve env order s1 = Some (fails, t)"
          "mset (g_conns s') + mset fails = mset ?cs" "s' = with_table (g_conns s') (sockets_closed s @ map conn_fd fails) t"
          unfolding k by auto
        then show ?thesis using d r h True by (intro exI [of _ "?c # order"] exI [of _ fails] exI [of _ t]) simp
      next
        case False
        define s2 where "s2 = with_table (remove_conn i ?cs) (sockets_closed s @ [conn_fd ?c]) s1"
        have s2: "(sock_close (conn_fd ?c) s1)\<lparr>g_conns := remove_conn i (g_conns s1)\<rparr> = s2"
          using k by (simp add: s2_def sock_close_def with_table_def)
        have "service_loop env rfds i s2 = Some s'"
          using u i r h False s2 by (simp add: Let_def)
        from 1(2) [OF i refl r h refl _ this [folded s2]] False obtain order fails t where o:
          "mset order = mset (filter ?P (drop i (remove_conn i ?cs)))" "serve env order s2 = Some (fails, t)"
          "mset (g_conns s') + mset fails = mset (remove_conn i ?cs)"
          "s' = with_table (g_conns s') ((sockets_closed s @ [conn_fd ?c]) @ map conn_fd fails) t"
          unfolding s2 by (auto simp: s2_def)
        obtain t' where t': "serve env order s1 = Some (fails, t')" "t = with_table (g_conns s2) (sockets_closed s2) t'"
          using o(2) unfolding s2_def serve_table by auto
        note p = remove_conn_parts [OF i]
        have "mset (filter ?P (drop i (remove_conn i ?cs))) + {#?c#} = mset (filter ?P (drop i ?cs))"
          using arg_cong [OF p(2), of "filter_mset ?P"] r by simp
        moreover have "mset (remove_conn i ?cs) + {#?c#} = mset ?cs"
          using p by (metis append_take_drop_id mset_append add.assoc)
        ultimately show ?thesis
          using o(1,3,4) h False t' by (intro exI [of _ "?c # order"] exI [of _ "?c # fails"] exI [of _ t']) auto
      qed
    qed
  qed
qed

text \<open>
  The clients that wait at the listeners in the order in which the listeners are looked at, each
  with the protocol of its listener; accepting takes them into the table while it has room and
  closes the others.
\<close>

definition offered :: "srv_env \<Rightarrow> (int \<Rightarrow> bool) \<Rightarrow> (int \<times> int) list \<Rightarrow> conn_t list" where
  "offered env rfds ls = map (\<lambda>(l, p). \<lparr>conn_fd = e_accept env l, conn_proto = p\<rparr>) (filter (\<lambda>(l, p). rfds l \<and> 0 \<le> e_accept env l) ls)"

definition room :: "server \<Rightarrow> nat" where
  "room s = MAX_CONNECTIONS - length (g_conns s)"

definition adds :: "server \<Rightarrow> conn_t list \<Rightarrow> server \<Rightarrow> bool" where
  "adds s cs s' \<longleftrightarrow> s' = with_table (g_conns s @ take (room s) cs) (sockets_closed s @ map conn_fd (drop (room s) cs)) s"

lemma adds_trans:
  assumes "adds s a s1" and "adds s1 b s2"
  shows "adds s (a @ b) s2"
proof -
  have "room s1 = room s - length a" using assms(1) by (auto simp: adds_def room_def)
  then show ?thesis using assms by (simp add: adds_def)
qed

lemma accept_adds: "adds s (offered env rfds [(l, p)]) (if rfds l then accept_conn env l p s else s)"
  by (auto simp: offered_def adds_def accept_conn_def sock_close_def with_table_def room_def Let_def)

definition waiting :: "srv_env \<Rightarrow> listeners_t \<Rightarrow> (int \<Rightarrow> bool) \<Rightarrow> conn_t list" where
  "waiting env lsn rfds = offered env rfds [(lsn_pmap lsn, PROTO_PORTMAP), (lsn_mount lsn, PROTO_MOUNT), (lsn_nfs lsn, PROTO_NFS)]"

lemma ready_loop: "\<exists>s3. adds s (waiting env lsn rfds) s3 \<and> service_ready env lsn rfds s = service_loop env rfds 0 s3"
proof -
  let ?acc = "\<lambda>l p s. if rfds l then accept_conn env l p s else s"
  define s1 where "s1 = ?acc (lsn_pmap lsn) PROTO_PORTMAP s"
  define s2 where "s2 = ?acc (lsn_mount lsn) PROTO_MOUNT s1"
  define s3 where "s3 = ?acc (lsn_nfs lsn) PROTO_NFS s2"
  have w: "waiting env lsn rfds = (offered env rfds [(lsn_pmap lsn, PROTO_PORTMAP)] @ offered env rfds [(lsn_mount lsn, PROTO_MOUNT)]) @
      offered env rfds [(lsn_nfs lsn, PROTO_NFS)]"
    by (simp add: waiting_def offered_def)
  have "adds s (waiting env lsn rfds) s3"
    unfolding w using accept_adds adds_trans unfolding s3_def s2_def s1_def by blast
  then show ?thesis unfolding service_ready_def s1_def s2_def s3_def Let_def by blast
qed

section \<open>Everything returns\<close>

lemma dispatch_total:
  assumes "env_in_order (e_nfs env)" and "dirs_good (nv n)"
  shows "\<exists>o1 n'. dispatch_call env ps p call inp out n = Some (o1, n') \<and> dirs_good (nv n')"
proof -
  obtain r where r: "handle_nfs3 (e_nfs env) call inp out n = Some r" "dirs_good (nv (snd (snd r)))" using nfs3_total [OF assms] by blast
  have "dirs_good (snd (snd (handle_mount (n_mvs (e_nfs env)) (n_now (e_nfs env)) (e_dirpath env) call inp out (nv n))))"
    using mount_total [OF assms] .
  then show ?thesis using r assms(2) by (cases r) (auto simp: dispatch_call_def Let_def split_def)
qed

lemma connection_total:
  assumes "env_in_order (e_nfs env)" and "dirs_good (nv (sv s))"
  shows "\<exists>ok s'. handle_connection env c s = Some (ok, s') \<and> dirs_good (nv (sv s'))"
proof (cases "rpc_recv (net_in s (conn_fd c)) (g_recv_buf s) (of_nat BUF_SIZE)")
  case None
  then show ?thesis using assms(2) by (auto simp: handle_connection_def)
next
  case (Some x)
  obtain b n rest where x: "x = (b, n, rest)" by (cases x)
  obtain pok call i1 where c: "rpc_parse_call (xdr_init_read b n) = ((pok, call), i1)" by (metis surj_pair)
  obtain o1 n' where d: "dispatch_call env (g_ports s) (conn_proto c) call i1 (xdr_init_write (drop 4 (g_send_buf s)) (of_nat (BUF_SIZE - 4))) (sv s) = Some (o1, n')"
    "dirs_good (nv n')" using dispatch_total [OF assms] by blast
  show ?thesis using Some x c d assms(2) by (auto simp: handle_connection_def Let_def split: prod.split)
qed

lemma service_total:
  "env_in_order (e_nfs env) \<Longrightarrow> dirs_good (nv (sv s)) \<Longrightarrow> \<exists>s'. service_loop env rfds i s = Some s' \<and> dirs_good (nv (sv s'))"
proof (induction env rfds i s rule: service_loop.induct)
  case (1 env rfds i s)
  show ?case
  proof (cases "i < length (g_conns s) \<and> rfds (conn_fd (g_conns s ! i))")
    case True
    obtain ok s1 where h: "handle_connection env (g_conns s ! i) s = Some (ok, s1)" "dirs_good (nv (sv s1))"
      using connection_total [OF 1(4,5)] by blast
    show ?thesis using True h 1(1) [OF _ refl _ h(1) refl _ 1(4)] 1(2) [OF _ refl _ h(1) refl _ 1(4)]
      by (cases ok) (subst service_loop.simps, simp add: sock_close_def)+
  next
    case False
    then show ?thesis using 1(3) [OF _ refl _ 1(4,5)] 1(5) by (subst service_loop.simps) auto
  qed
qed

lemma ready_total:
  assumes "env_in_order (e_nfs env)" and "dirs_good (nv (sv s))"
  shows "\<exists>s'. service_ready env lsn rfds s = Some s' \<and> dirs_good (nv (sv s'))"
proof -
  obtain s3 where "adds s (waiting env lsn rfds) s3" "service_ready env lsn rfds s = service_loop env rfds 0 s3" using ready_loop by blast
  then show ?thesis using service_total [OF assms(1), of s3 rfds 0] assms(2) by (simp add: adds_def)
qed

text \<open>
  C8. Every ready client is served exactly once. When the directories of the system are in order,
  with the fuel of \<^const>\<open>LISTING_FUEL\<close> for the model's listings, the service of the ready sockets returns. The clients that wait at the ready listeners are
  taken into the table with the protocol of their listener while it has room, in the order
  port mapper, mount, NFS, and the others are closed; of all the connections then in the table,
  each one that is ready is served exactly once, in some order; those that failed, and no
  others, are closed and leave the table; and the table never has more entries than its limit.
\<close>
theorem service_ready_exact:
  assumes "env_in_order (e_nfs env)" and "dirs_good (nv (sv s))" and "length (g_conns s) \<le> MAX_CONNECTIONS"
  shows "\<exists>s' order fails t. service_ready env lsn rfds s = Some s' \<and>
    (let conns = g_conns s @ take (room s) (waiting env lsn rfds) in length conns \<le> MAX_CONNECTIONS \<and>
      mset order = mset (filter (\<lambda>c. rfds (conn_fd c)) conns) \<and> serve env order s = Some (fails, t) \<and>
      mset (g_conns s') + mset fails = mset conns) \<and>
    sockets_closed s' = sockets_closed s @ map conn_fd (drop (room s) (waiting env lsn rfds)) @ map conn_fd fails \<and>
    sv s' = sv t \<and> net_in s' = net_in t \<and> net_out s' = net_out t"
proof -
  obtain s' where s': "service_ready env lsn rfds s = Some s'" using ready_total [OF assms(1,2)] by blast
  obtain s3 where a: "adds s (waiting env lsn rfds) s3" and l: "service_loop env rfds 0 s3 = Some s'"
    using ready_loop [of s env lsn rfds] s' by auto
  define conns where "conns = g_conns s @ take (room s) (waiting env lsn rfds)"
  define closed where "closed = sockets_closed s @ map conn_fd (drop (room s) (waiting env lsn rfds))"
  have s3: "s3 = with_table conns closed s" using a by (simp add: adds_def conns_def closed_def)
  obtain order fails t where o: "mset order = mset (filter (\<lambda>c. rfds (conn_fd c)) conns)"
    "serve env order s3 = Some (fails, t)" "mset (g_conns s') + mset fails = mset conns"
    "s' = with_table (g_conns s') (closed @ map conn_fd fails) t"
    using service_serves [OF l] s3 by auto
  obtain t' where t': "serve env order s = Some (fails, t')" "t = with_table (g_conns s3) (sockets_closed s3) t'"
    using o(2) unfolding s3 serve_table by auto
  have e: "sockets_closed s' = closed @ map conn_fd fails" "sv s' = sv t'" "net_in s' = net_in t'" "net_out s' = net_out t'"
    using o(4) t'(2) by (metis with_table_simps)+
  have "length conns \<le> MAX_CONNECTIONS" using assms(3) by (simp add: conns_def room_def)
  then show ?thesis using s' o(1,3) t'(1) e
    by (intro exI [of _ s'] exI [of _ order] exI [of _ fails] exI [of _ t']) (simp add: conns_def closed_def)
qed

section \<open>The answer of a connection\<close>

text \<open>Every protocol writes its reply behind a header, in a buffer of the size it was given.\<close>

lemma dispatch_replies:
  assumes "dispatch_call env ps p call inp out n = Some (o1, n')" and "p \<in> {PROTO_PORTMAP, PROTO_MOUNT, PROTO_NFS}"
    and "nfs_wf n" and "\<forall>e \<in> set (vexports (nv n)). length (export_path e) \<le> 255"
  shows "\<exists>st. accepted (call_xid call) st out o1"
proof -
  consider "p = PROTO_PORTMAP" | "p = PROTO_MOUNT" | "p = PROTO_NFS" using assms(2) by blast
  then show ?thesis
  proof cases
    case 1
    then show ?thesis using assms(1) portmap_replies by (auto simp: dispatch_call_def)
  next
    case 2
    then show ?thesis using assms(1) mount_replies [OF assms(4)] by (auto simp: dispatch_call_def proto_defs Let_def split: prod.splits) (metis fst_conv snd_conv)
  next
    case 3
    then obtain r where r: "handle_nfs3 (e_nfs env) call inp out n = Some r" "snd r = (o1, n')"
      using assms(1) by (auto simp: dispatch_call_def proto_defs)
    show ?thesis
    proof (cases "call_vers call = VERS_NFS")
      case True
      then show ?thesis using dispatch_answered [OF r(1) True assms(3)] r(2) by (auto simp: answered_def)
    next
      case False
      then show ?thesis using r accepted_mismatch [of "call_xid call" out VERS_NFS VERS_NFS] by (auto simp: handle_nfs3_def Let_def)
    qed
  qed
qed

lemma accepted_fits:
  assumes "accepted xid st out o1" and "out_wf out"
  shows "unat (xpos o1) \<le> unat (xcap out)" and "length (xbase o1) = length (xbase out)"
proof -
  obtain b where "emits out (reply_hdr_bytes xid st @ b) o1" using accepted_body [OF assms(1)] by blast
  then have "xdr_keeps out o1" using assms(2) by (simp add: emits_def)
  then show "unat (xpos o1) \<le> unat (xcap out)" "length (xbase o1) = length (xbase out)"
    using assms(2) by (simp_all add: xdr_keeps_def out_wf_def)
qed

text \<open>
  C7. Every call is answered on its own connection. When a message arrives on a connection of
  one of the three protocols and is a call, and the directories of the system are in order (their
  members have proper names in ascending order; the model's listings have the fuel they need), the
  handler returns: listings, too, come to their end. What is sent on that connection is one final
  fragment whose message begins with the header of a reply with the call's transaction id: all
  of it exactly when the connection stays, a prefix of it otherwise; nothing is sent on any
  other connection.
\<close>
theorem connection_answers:
  assumes "env_in_order (e_nfs env)" and "dirs_good (nv (sv s))"
    and "rpc_recv (net_in s (conn_fd c)) (g_recv_buf s) (of_nat BUF_SIZE) = Some (b, n, rest)"
    and "rpc_parse_call (xdr_init_read b n) = ((True, call), i1)"
    and "conn_proto c \<in> {PROTO_PORTMAP, PROTO_MOUNT, PROTO_NFS}" and "length (g_send_buf s) = BUF_SIZE"
    and "nfs_wf (sv s)" and "\<forall>e \<in> set (vexports (nv (sv s))). length (export_path e) \<le> 255"
  shows "\<exists>ok s' reply st tail. handle_connection env c s = Some (ok, s') \<and>
    net_out s' (conn_fd c) @ tail = net_out s (conn_fd c) @ rpc_frames [reply] \<and> (ok \<longleftrightarrow> tail = []) \<and>
    take 24 reply = reply_hdr_bytes (call_xid call) st \<and> (\<forall>fd. fd \<noteq> conn_fd c \<longrightarrow> net_out s' fd = net_out s fd)"
proof -
  obtain ok s' where h0: "handle_connection env c s = Some (ok, s')" using connection_total [OF assms(1,2)] by blast
  define out where "out = xdr_init_write (drop 4 (g_send_buf s)) (of_nat (BUF_SIZE - 4))"
  obtain o1 n1 where d: "dispatch_call env (g_ports s) (conn_proto c) call i1 out (sv s) = Some (o1, n1)"
    using h0 assms(3,4) by (auto simp: handle_connection_def Let_def out_def split: option.splits)
  obtain st where a: "accepted (call_xid call) st out o1" using dispatch_replies [OF d assms(5,7,8)] by blast
  have w: "out_wf out" "\<not> xerr out" "xpos out = 0" "unat (xcap out) = BUF_SIZE - 4" "length (xbase out) = BUF_SIZE - 4"
    using assms(6) by (simp_all add: out_def out_wf_def xdr_wf_def xdr_init_write_def BUF_SIZE_def unat_of_nat)
  have h: "mem_slice (xbase o1) 0 24 = reply_hdr_bytes (call_xid call) st" "24 \<le> unat (xpos o1)"
    using accepted_header [OF a _ w(2)] w by (simp_all add: out_wf_def BUF_SIZE_def)
  note f = accepted_fits [OF a w(1), unfolded w(4,5)]
  define frame where "frame = take 4 (g_send_buf s) @ xbase o1"
  have fr: "drop 4 frame = xbase o1" "4 + unat (xpos o1) \<le> length frame" "unat (xpos o1) < 2 ^ 31"
    using assms(6) f by (simp_all add: frame_def BUF_SIZE_def)
  obtain tail where t: "rpc_frames [take (unat (xpos o1)) (xbase o1)] = fst (rpc_send (e_sends env (conn_fd c)) frame (xpos o1)) @ tail"
    "snd (rpc_send (e_sends env (conn_fd c)) frame (xpos o1)) \<longleftrightarrow> tail = []"
    using send_frame [OF fr(3,2), of "e_sends env (conn_fd c)"] fr(1) by auto
  have p: "0 < xpos o1" using h(2) by (simp add: word_less_nat_alt)
  have s': "net_out s' = (net_out s)(conn_fd c := net_out s (conn_fd c) @ fst (rpc_send (e_sends env (conn_fd c)) frame (xpos o1)))"
    and ok: "ok = snd (rpc_send (e_sends env (conn_fd c)) frame (xpos o1))"
    using h0 assms(3,4) d p by (auto simp: handle_connection_def Let_def out_def frame_def split: prod.splits)
  have "take 24 (take (unat (xpos o1)) (xbase o1)) = reply_hdr_bytes (call_xid call) st"
    using h by (simp add: mem_slice_def min_absorb1)
  then show ?thesis using h0 s' ok t
    by (intro exI [of _ ok] exI [of _ s'] exI [of _ "take (unat (xpos o1)) (xbase o1)"] exI [of _ st] exI [of _ tail]) simp
qed

section \<open>Witnesses\<close>

text \<open>
  A system whose directories all have the members \<^verbatim>\<open>A\<close> and \<^verbatim>\<open>B\<close>, and a server with the connections 5
  and 6; on connection 5 a READDIRPLUS for the data set \<^verbatim>\<open>A\<close> arrives.
\<close>

definition listing_env :: nfs_env where
  "listing_env = sample_env\<lparr>n_mvs := dir_env, n_fuel := LISTING_FUEL\<rparr>"

lemma two_in_order: "blocks_in_order [two_members]"
proof -
  let ?r = "sample_raw\<lparr>raw_name := pad_name 8 [0xC2]\<rparr>"
  have p: "plain_name [0xC1]" "plain_name [0xC2]" by (simp_all add: ch_space_def)
  have n: "raw_name sample_raw = pad_name 8 [0xC1]" by (simp add: sample_raw_def)
  have "raw_ok sample_raw \<and> raw_ok ?r" by code_simp
  moreover have "length two_members = 256 \<and> 2 + length (concat (map raw_bytes [sample_raw, ?r])) < unat (38 :: u16) \<and>
      take 8 (MVS_PDSDIR_ENDMARK @ replicate 222 (0 :: u8)) = MVS_PDSDIR_ENDMARK" by code_simp
  ultimately have "block_holds two_members [sample_raw, ?r] True"
    unfolding block_holds_def by (intro conjI exI [of _ 38] exI [of _ "MVS_PDSDIR_ENDMARK @ replicate 222 0"]) (simp_all add: two_members_def)
  moreover have "bytes_less (pad_name 8 [0xC1]) (pad_name 8 [0xC2])" by (simp add: pad_name_def)
  then have "dir_sorted [sample_raw, ?r]"
    using p n by (auto simp: dir_sorted_def intro: exI [of _ "[0xC1]"] exI [of _ "[0xC2]"])
  moreover have "bytes_to_string (raw_name sample_raw) 8 = [0xC1]" "bytes_to_string (raw_name ?r) 8 = [0xC2]"
    using n p by (simp_all add: pad_to_string)
  ultimately show ?thesis unfolding blocks_in_order_def by (intro exI [of _ "[[sample_raw, ?r]]"]) simp
qed

lemma listing_env_ok: "env_in_order listing_env"
  using two_in_order by (simp add: env_in_order_def system_in_order_def listing_env_def dir_env_def)

definition plus_call :: rpc_call_t where
  "plus_call = \<lparr>call_xid = 7, call_prog = PROG_NFS, call_vers = VERS_NFS, call_proc = NFS3PROC_READDIRPLUS, auth_uid = 0, auth_gid = 0\<rparr>"

definition plus_message :: bytes where
  "plus_message = call_words plus_call AUTH_FLAVOR_UNIX 20 @ auth_unix_body 1 [] 501 20 [] @ be32_bytes 0 @ opaque_bytes [] @
     opaque_bytes (fh_encode handle_a) @ replicate 16 0 @ be32_bytes 512 @ be32_bytes 4096"

definition sample_conn :: "int \<Rightarrow> conn_t" where "sample_conn fd = \<lparr>conn_fd = fd, conn_proto = PROTO_NFS\<rparr>"

definition sample_server :: "io_event list \<Rightarrow> server" where
  "sample_server inp = \<lparr>g_conns = [sample_conn 5, sample_conn 6], sv = start_nfs\<lparr>nv := sample_vfs False\<rparr>,
     g_ports = \<lparr>g_port_pmap = 111, g_port_mount = 20048, g_port_nfs = 2049\<rparr>,
     g_recv_buf = replicate BUF_SIZE 0, g_send_buf = replicate BUF_SIZE 0,
     net_in = (\<lambda>_. inp), net_out = (\<lambda>_. []), sockets_closed = []\<rparr>"

definition sample_lsn :: listeners_t where "sample_lsn = \<lparr>lsn_pmap = 1, lsn_mount = 2, lsn_nfs = 3\<rparr>"

definition sample_senv :: srv_env where
  "sample_senv = \<lparr>e_nfs = listing_env, e_dirpath = replicate 256 0, e_sends = (\<lambda>_. [1000]), e_accept = (\<lambda>fd. fd + 6),
     e_cib = 0, e_select = 1, e_ready = (\<lambda>fd. fd = 5)\<rparr>"

lemma sample_server_ok: "env_in_order (e_nfs sample_senv)" "dirs_good (nv (sv (sample_server inp)))"
  using listing_env_ok by (simp_all add: sample_senv_def dirs_good_def sample_server_def vdirs_def sample_vfs_def)

text \<open>Connection 5 is ready and so are the mount and the NFS listener, where clients come in as 8 and 9.\<close>

theorem service_ready_exact_witness:
  "\<exists>s' order fails t. service_ready sample_senv sample_lsn (\<lambda>fd. fd \<in> {2, 3, 5}) (sample_server []) = Some s' \<and>
     mset order = {#sample_conn 5#} \<and> serve sample_senv order (sample_server []) = Some (fails, t) \<and>
     mset (g_conns s') + mset fails =
       {#sample_conn 5, sample_conn 6, \<lparr>conn_fd = 8, conn_proto = PROTO_MOUNT\<rparr>, \<lparr>conn_fd = 9, conn_proto = PROTO_NFS\<rparr>#} \<and>
     sockets_closed s' = map conn_fd fails"
proof -
  let ?new = "[\<lparr>conn_fd = 8, conn_proto = PROTO_MOUNT\<rparr>, \<lparr>conn_fd = 9, conn_proto = PROTO_NFS\<rparr>]"
  have w: "waiting sample_senv sample_lsn (\<lambda>fd. fd \<in> {2, 3, 5}) = ?new"
    by (simp add: waiting_def offered_def sample_senv_def sample_lsn_def)
  have s: "g_conns (sample_server []) = [sample_conn 5, sample_conn 6]" "room (sample_server []) = 14" "sockets_closed (sample_server []) = []"
    "length (g_conns (sample_server [])) \<le> MAX_CONNECTIONS"
    by (simp_all add: sample_server_def room_def MAX_CONNECTIONS_def)
  show ?thesis
    using service_ready_exact [OF sample_server_ok s(4), of sample_lsn "\<lambda>fd. fd \<in> {2, 3, 5}"] unfolding w s Let_def
    by (simp add: sample_conn_def) blast
qed

lemma plus_received:
  "\<exists>b rest. rpc_recv [Seg (rpc_frames [plus_message])] (replicate BUF_SIZE 0) (of_nat BUF_SIZE) = Some (b, 148, rest) \<and>
     (\<exists>i1. rpc_parse_call (xdr_init_read b 148) = ((True, plus_call\<lparr>auth_uid := 501, auth_gid := 20\<rparr>), i1))"
proof -
  let ?b = "plus_message @ replicate (BUF_SIZE - 148) 0"
  have l: "length plus_message = 148" by code_simp
  obtain s' where r: "rpc_recv_loop [Seg (rpc_frames [plus_message])] (replicate BUF_SIZE 0) (of_nat BUF_SIZE) 0 = Some (?b, 148, s')"
    using rpc_recv_loop_frames [of "[plus_message]" "[Seg (rpc_frames [plus_message])]" "[]" 0 "of_nat BUF_SIZE" "replicate BUF_SIZE 0"] l
    by (auto simp: mem_store_def BUF_SIZE_def unat_of_nat rpc_mark_def be32_bytes_def)
  have "rpc_peek_uint32 ?b RPC_CALL_PROC_OFF = rpc_peek_uint32 plus_message RPC_CALL_PROC_OFF"
    using l by (simp add: rpc_peek_uint32_def byte_at_def nth_append RPC_CALL_PROC_OFF_def)
  moreover have "rpc_peek_uint32 plus_message RPC_CALL_PROC_OFF \<noteq> RPC_NFS3_PROC_WRITE" by code_simp
  ultimately have c: "rpc_recv_selfcheck ?b 148" by (simp add: rpc_recv_selfcheck_def)
  have x: "xdr_wf (xdr_init_read ?b 148)" "\<not> xerr (xdr_init_read ?b 148)" "xdr_view (xdr_init_read ?b 148) = plus_message"
    using l by (simp_all add: xdr_wf_def xdr_init_read_def xdr_view_def mem_slice_def BUF_SIZE_def)
  have "rpc_parse_call (xdr_init_read ?b 148) = ((True, plus_call\<lparr>auth_uid := 501, auth_gid := 20\<rparr>),
      xdr_advance (36 + length (auth_unix_body 1 [] 501 20 []) + length (opaque_bytes [])) (xdr_init_read ?b 148))"
    by (rule rpc_parse_call_auth_unix [OF x(1,2) refl, where vflavor = 0 and args =
          "opaque_bytes (fh_encode handle_a) @ replicate 16 0 @ be32_bytes 512 @ be32_bytes 4096"])
      (simp_all only: x(3), simp_all add: plus_message_def auth_unix_body_def opaque_bytes_def)
  then show ?thesis using r c by (simp add: rpc_recv_def)
qed

theorem connection_answers_witness:
  "\<exists>ok s' reply st tail. handle_connection sample_senv (sample_conn 5) (sample_server [Seg (rpc_frames [plus_message])]) = Some (ok, s') \<and>
     net_out s' 5 @ tail = rpc_frames [reply] \<and> (ok \<longleftrightarrow> tail = []) \<and> take 24 reply = reply_hdr_bytes 7 st"
proof -
  let ?s = "sample_server [Seg (rpc_frames [plus_message])]"
  obtain b rest i1 where r: "rpc_recv (net_in ?s (conn_fd (sample_conn 5))) (g_recv_buf ?s) (of_nat BUF_SIZE) = Some (b, 148, rest)"
    "rpc_parse_call (xdr_init_read b 148) = ((True, plus_call\<lparr>auth_uid := 501, auth_gid := 20\<rparr>), i1)"
    using plus_received by (auto simp: sample_server_def)
  have v: "nfs_wf (sv ?s)" "length (g_send_buf ?s) = BUF_SIZE"
    "net_out ?s 5 = []" "conn_fd (sample_conn 5) = 5" "conn_proto (sample_conn 5) = PROTO_NFS"
    by (simp_all add: sample_server_def start_nfs_def sample_conn_def nfs_wf_def MAX_WRITE_SIZE_def)
  have "\<forall>e \<in> set (vexports (nv (sv ?s))). length (export_path e) \<le> 255"
    by (simp add: sample_server_def vexports_def sample_vfs_def admit_exports_def)
  from connection_answers [OF sample_server_ok r _ v(2,1) this] v(3-5) show ?thesis by (simp add: plus_call_def) blast
qed

end
