(* ===== verification/Srvinv.thy ===== *)
theory Srvinv
  imports Service
begin

text \<open>
  The invariant of the running server: in every state it reaches, whatever the calls are and
  whatever the system answers, the pool of pending members is locked and without duplicates and
  the table of connections is within its bounds; and when the loop ends nothing is pending.
\<close>

section \<open>Names without blanks\<close>

definition names_ok :: "export_t list \<Rightarrow> bool" where
  "names_ok es = list_all (\<lambda>e. list_all (\<lambda>ds. ch_space \<notin> set (dsname_ebcdic ds)) (datasets e)) es"

definition vfs_inv :: "vfs_state \<Rightarrow> bool" where
  "vfs_inv s \<longleftrightarrow> pool_inv (pw s) \<and> names_ok (vexports s)"

definition names_of :: "bytes \<times> bytes \<times> ds_id list \<Rightarrow> bytes list" where
  "names_of x = map (fst \<circ> snd) (snd (snd x))"

lemma names_ok_of: "names_ok es = list_all (\<lambda>x. list_all (\<lambda>n. ch_space \<notin> set n) (names_of x)) (map export_names es)"
  by (simp add: names_ok_def names_of_def export_names_def ds_names_def list_all_iff)

lemma names_ok_same: "same_names es es' \<Longrightarrow> names_ok es' = names_ok es"
  by (simp add: names_ok_of same_names_def)

lemma dataset_name_ok:
  assumes "names_ok es" and "export_dataset_get es e d = Some ds"
  shows "ch_space \<notin> set (dsname_ebcdic ds)"
proof -
  have "ds \<in> set (datasets (es ! nat e))" "es ! nat e \<in> set es"
    using assms(2) by (auto simp: export_dataset_get_def exports_get_def split: if_splits)
  then show ?thesis using assms(1) by (auto simp: names_ok_def list_all_iff)
qed

lemma valid_no_space: "mvs_member_name_valid m = E_OK \<Longrightarrow> ch_space \<notin> set m"
proof -
  assume "mvs_member_name_valid m = E_OK"
  then have "list_all member_char m" by (rule member_name_chars)
  moreover have "\<not> member_char ch_space" by code_simp
  ultimately show ?thesis by (auto simp: list_all_iff)
qed

lemma key_of_path:
  assumes "names_ok es" and "mvs_get_pds_dsn_and_member es p e = (None, dsn, m)"
  shows "key_ok (dsn, m)"
proof -
  obtain k a d where t: "mvs_path_type es p = (k, a, d)" by (metis prod_cases3)
  obtain ds where ds: "export_dataset_get es e d = Some ds"
    using assms(2) t by (auto simp: mvs_get_pds_dsn_and_member_def split: if_splits option.splits)
  have "ch_space \<notin> set (take 44 (dsname_ebcdic ds))" using dataset_name_ok [OF assms(1) ds] by (meson in_set_takeD)
  moreover have "dsn = take 44 (dsname_ebcdic ds)" "m = [] \<or> (\<exists>u. mvs_member_name_valid u = E_OK \<and> m = take 8 u)"
    using assms(2) t ds by (auto simp: mvs_get_pds_dsn_and_member_def Let_def split: if_splits option.splits prod.splits)
  ultimately show ?thesis using valid_no_space by (auto simp: key_ok_def dest: in_set_takeD)
qed

lemma key_of_target: "names_ok es \<Longrightarrow> member_target es p e d = Inr (dsn, m) \<Longrightarrow> key_ok (dsn, m)"
  by (erule key_of_path) (rule target_names)

section \<open>The write-back layer\<close>

lemma create_names: "same_names (pexports s) (pexports (snd (pww_create env now e d dsn m s)))"
proof -
  obtain r0 s0 where c: "pww_check_dataset_space now dsn s = (r0, s0)" by (metis surj_pair)
  have s0: "pexports s0 = pexports s" using c by (auto simp: pww_check_dataset_space_def split: prod.splits)
  define fin where "fin i t cr = (case slot_admit env i [] 0 t of (Some err, s2) \<Rightarrow> (Some err, if cr then pww_slot_release i s2 else s2)
      | (None, s2) \<Rightarrow> (None :: errno_t option, slot_set_dirty now i s2))" for i t cr
  have f: "same_names (pexports t) (pexports (snd (fin i t cr)))" for i t cr
    using admit_names [of env i "[]" 0 t] by (auto simp: fin_def release_exports slot_set_dirty_def split: prod.splits option.splits)
  show ?thesis
  proof (cases "r0 = None \<and> pww_slot_find dsn m s0 = None")
    case True
    obtain q s1 where n: "pww_slot_new env now e d dsn m s0 = (q, s1)" by (metis surj_pair)
    have "pww_create env now e d dsn m s = (case q of Inl err \<Rightarrow> (Some err, s1) | Inr i \<Rightarrow> fin i s1 True)"
      using True by (cases q) (simp_all add: pww_create_def c n fin_def Let_def)
    then show ?thesis using new_names [OF n] s0 f same_names_trans by (cases q) auto
  next
    case False
    then consider err where "r0 = Some err" | i where "r0 = None" "pww_slot_find dsn m s0 = Some i" by (cases r0) auto
    then show ?thesis
    proof cases
      case 1
      then show ?thesis by (simp add: pww_create_def c s0)
    next
      case (2 i)
      let ?t = "put_slot i (blkcalc_slot_reset (pexports s0) ((pool s0 ! i)\<lparr>high_water := 0\<rparr>)) s0"
      have "pww_create env now e d dsn m s = fin i ?t False" using 2 by (simp add: pww_create_def c fin_def Let_def)
      then show ?thesis using f [of ?t i False] s0 by simp
    qed
  qed
qed

lemma truncate_names: "same_names (pexports s) (pexports (snd (pww_truncate env now e d dsn m sz s)))"
proof (cases "pww_slot_find dsn m s")
  case None
  obtain q s1 where n: "pww_slot_new env now e d dsn m s = (q, s1)" by (metis surj_pair)
  show ?thesis
  proof (cases q)
    case (Inl err)
    then show ?thesis using None new_names [OF n] by (simp add: pww_truncate_def n)
  next
    case (Inr i)
    obtain a s2 where a: "slot_admit env i [] 0 s1 = (a, s2)" by (metis surj_pair)
    show ?thesis using None Inr n a same_names_trans [OF new_names [OF n] admit_names [OF a]]
      by (cases a) (simp_all add: pww_truncate_def release_exports slot_set_dirty_def)
  qed
next
  case (Some i)
  obtain a s1 where a: "(if high_water (pool s ! i) < sz then slot_admit env i [] (ucast sz) s else (None, s)) = (a, s1)"
    by (metis surj_pair)
  have s1: "same_names (pexports s) (pexports s1)" using a admit_names by (auto split: if_splits)
  obtain b pm fs where b: "pww_resize (env_junk env) (int i) (pool s1 ! i) sz (spill_io s1) = (b, pm, fs)" by (metis prod_cases3)
  show ?thesis using Some s1 by (cases a; cases b) (simp_all add: pww_truncate_def a b slot_set_dirty_def)
qed

lemma discard_names: "pexports (snd (pww_discard dsn m s)) = pexports s"
  by (simp add: pww_discard_def release_exports split: option.split)

lemma flush_member_names: "same_names (pexports s) (pexports (snd (pww_flush_member env now dsn m s)))"
  by (simp add: pww_flush_member_def flush_names split: option.split)

lemma flush_release_names: "same_names (pexports s) (pexports (flush_release env now i s))"
  by (simp add: flush_release_def release_exports flush_names)

lemma fold_names:
  assumes "\<And>i s. same_names (pexports s) (pexports (f i s))"
  shows "same_names (pexports s) (pexports (fold f xs s))"
proof (induction xs arbitrary: s)
  case (Cons x xs)
  then show ?case using same_names_trans [OF assms Cons] by simp
qed simp

lemma flush_all_names:
  "same_names (pexports s) (pexports (pww_flush_idle env now s))" "same_names (pexports s) (pexports (pww_flush_all env now s))"
  unfolding pww_flush_idle_def pww_flush_all_def by (rule fold_names, simp add: flush_release_names)+

lemma touch_stats_names: "same_names (pexports s) (pexports (pww_touch_stats env now e d dsn m t s))"
proof -
  have a: "pexports (snd (pdsflush_apply_stats k ud s)) = pexports s" for k ud s
    by (auto simp: pdsflush_apply_stats_def sys_call_def split: prod.splits sys_out.splits)
  show ?thesis using touch_names
    by (auto simp: pww_touch_stats_def sys_call_def enq_add_def enq_del_def a Let_def split_def split: option.split sum.split)
qed

section \<open>The file-system interface\<close>

text \<open>How the interface uses the layer below: the pool's invariant and the names survive.\<close>

lemma vfs_inv_pw:
  "vfs_inv s \<Longrightarrow> pool_inv p \<Longrightarrow> same_names (vexports s) (pexports p) \<Longrightarrow> vfs_inv (s\<lparr>pw := p\<rparr>)"
  using names_ok_same by (auto simp: vfs_inv_def vexports_def)

lemma lift_inv:
  "vfs_inv s \<Longrightarrow> pool_inv (snd r) \<Longrightarrow> same_names (pexports (pw s)) (pexports (snd r)) \<Longrightarrow> vfs_inv (snd (lift_pw r s))"
  unfolding lift_pw_def snd_conv by (rule vfs_inv_pw) (simp_all add: vexports_def)

lemma undisturbed_inv: "undisturbed s s' \<Longrightarrow> vfs_inv s \<Longrightarrow> vfs_inv s'"
  using undisturbed_quiet(1) names_ok_same by (auto simp: vfs_inv_def undisturbed_def)

named_theorems inv_intros "operations that keep the invariant"

lemma stat_inv [inv_intros]: "vfs_inv s \<Longrightarrow> vfs_inv (snd (stat_opt env path s))" "vfs_inv s \<Longrightarrow> vfs_inv (snd (vfs_stat e now path s))"
  using undisturbed_inv stat_opt_undisturbed stat_undisturbed by blast+

lemma pwrite_inv [inv_intros]: "vfs_inv s \<Longrightarrow> vfs_inv (snd (vfs_pwrite env now path data off s))"
proof -
  assume inv: "vfs_inv s"
  have "vfs_inv (snd (lift_pw (pww_write env now e d dsn m data off (pw s)) s))" if "key_ok (dsn, m)" for e d dsn m
    using inv that write_inv [of "pw s" dsn m env now e d data off] write_names [of env now e d dsn m data off "pw s"]
    by (intro lift_inv) (simp_all add: vfs_inv_def, metis prod.collapse)
  then show ?thesis using inv key_of_target [of "vexports s"]
    by (auto simp: vfs_pwrite_def vfs_inv_def Let_def split: prod.split sum.split)
qed

lemma create_vinv [inv_intros]: "vfs_inv s \<Longrightarrow> vfs_inv (snd (vfs_create env now path mode s))"
proof -
  assume inv: "vfs_inv s"
  have "vfs_inv (snd (lift_pw (pww_create env now e d dsn m (pw s)) s))" if "key_ok (dsn, m)" for e d dsn m
    using inv that create_inv [of "pw s" dsn m env now e d] create_names by (intro lift_inv) (simp_all add: vfs_inv_def)
  then show ?thesis using inv key_of_target [of "vexports s"]
    by (auto simp: vfs_create_def vfs_inv_def Let_def split: prod.split sum.split)
qed

lemma truncate_vinv [inv_intros]: "vfs_inv s \<Longrightarrow> vfs_inv (snd (vfs_truncate env now path sz s))"
proof -
  assume inv: "vfs_inv s"
  have t: "vfs_inv (snd (lift_pw (pww_truncate env now e d dsn m z (pw s)) s))" if "key_ok (dsn, m)" for e d dsn m z
    using inv that truncate_inv [of "pw s" dsn m env now e d z] truncate_names by (intro lift_inv) (simp_all add: vfs_inv_def)
  obtain k e d where k: "mvs_path_type (vexports s) (ebcdic_path path) = (k, e, d)" by (metis prod_cases3)
  obtain q s1 where q: "vfs_stat env now path s = (q, s1)" by (metis surj_pair)
  have s1: "vfs_inv s1" using stat_inv(2) [OF inv, of env now path] q by simp
  show ?thesis
  proof (cases "member_target (vexports s) (ebcdic_path path) e d")
    case (Inl err)
    then show ?thesis using inv k by (simp add: vfs_truncate_def)
  next
    case (Inr x)
    obtain dsn m where x: "x = (dsn, m)" by (cases x)
    have "key_ok (dsn, m)" using inv key_of_target Inr x by (auto simp: vfs_inv_def)
    then show ?thesis using inv s1 t by (cases q) (simp_all add: vfs_truncate_def k Inr x q)
  qed
qed

lemma commit_vinv [inv_intros]: "vfs_inv s \<Longrightarrow> vfs_inv (snd (vfs_commit env now path s))"
proof -
  assume inv: "vfs_inv s"
  have "vfs_inv (snd (lift_pw (pww_flush_member env now dsn m (pw s)) s))" for dsn m
    using inv flush_member_inv flush_member_names by (intro lift_inv) (simp_all add: vfs_inv_def)
  then show ?thesis using inv by (auto simp: vfs_commit_def Let_def split: prod.split option.split)
qed

lemma set_times_vinv [inv_intros]: "vfs_inv s \<Longrightarrow> vfs_inv (snd (vfs_set_times env now path sa asec sm msec s))"
proof -
  assume inv: "vfs_inv s"
  have "vfs_inv (s\<lparr>pw := pww_touch_stats env now e d dsn m t (pw s)\<rparr>)" for e d dsn m t
    using inv touch_inv touch_stats_names by (intro vfs_inv_pw) (simp_all add: vfs_inv_def vexports_def)
  then show ?thesis using inv by (auto simp: vfs_set_times_def Let_def split: prod.split option.split)
qed

text \<open>Operations that leave the pool, the locks and the names of the exports as they are.\<close>

definition pool_same :: "vfs_state \<Rightarrow> vfs_state \<Rightarrow> bool" where
  "pool_same s s' \<longleftrightarrow> idents (pw s') = idents (pw s) \<and> enqs (pw s') = enqs (pw s) \<and> same_names (vexports s) (vexports s')"

lemma pool_same_inv: "pool_same s s' \<Longrightarrow> vfs_inv s \<Longrightarrow> vfs_inv s'"
  using names_ok_same by (auto simp: pool_same_def vfs_inv_def pool_inv_def)

lemma dir_changed_same: "pool_same s (dir_changed now e d dsn s)"
  using touch_names by (simp add: pool_same_def dir_changed_def vexports_def idents_def)

lemma lib_calls_same: "pool_same s (snd (lib_unlink k s))" "pool_same s (snd (lib_rename k k' s))"
  by (auto simp: pool_same_def lib_unlink_def lib_rename_def vfs_call_def sys_call_def vexports_def idents_def Let_def split_def)

lemma dirs_same: "pool_same s (set_dirs d s)"
  by (simp add: pool_same_def set_dirs_def vexports_def idents_def)

lemma discard_vinv: "vfs_inv s \<Longrightarrow> vfs_inv (s\<lparr>pw := snd (pww_discard dsn m (pw s))\<rparr>)"
  using discard_inv by (intro vfs_inv_pw) (simp_all add: vfs_inv_def discard_names vexports_def)

lemma remove_vinv [inv_intros]: "vfs_inv s \<Longrightarrow> vfs_inv (snd (vfs_remove env now path s))"
proof -
  assume inv: "vfs_inv s"
  obtain k e d where k: "mvs_path_type (vexports s) (ebcdic_path path) = (k, e, d)" by (metis prod_cases3)
  show ?thesis
  proof (cases "member_target (vexports s) (ebcdic_path path) e d")
    case (Inl err)
    then show ?thesis using inv k by (simp add: vfs_remove_def)
  next
    case (Inr x)
    obtain dsn m where x: "x = (dsn, m)" by (cases x)
    obtain h p where p: "pww_discard dsn m (pw s) = (h, p)" by (metis surj_pair)
    obtain r s1 where r: "lib_unlink (dsn, m) (s\<lparr>pw := p\<rparr>) = (r, s1)" by (metis surj_pair)
    have "vfs_inv (s\<lparr>pw := p\<rparr>)" using discard_vinv [OF inv, of dsn m] p by simp
    then have "vfs_inv s1" using pool_same_inv [OF lib_calls_same(1)] r by (metis snd_conv)
    then have "vfs_inv s1" "vfs_inv (dir_changed now e d dsn s1)" using pool_same_inv [OF dir_changed_same] by simp_all
    then show ?thesis using inv by (cases r) (simp_all add: vfs_remove_def k Inr x p r Let_def)
  qed
qed

lemma rename_vinv [inv_intros]: "vfs_inv s \<Longrightarrow> vfs_inv (snd (vfs_rename env now a b s))"
proof -
  assume inv: "vfs_inv s"
  obtain kf fe fd where kf: "mvs_path_type (vexports s) (ebcdic_path a) = (kf, fe, fd)" by (metis prod_cases3)
  obtain kt te td where kt: "mvs_path_type (vexports s) (ebcdic_path b) = (kt, te, td)" by (metis prod_cases3)
  obtain x fdsn fm where x: "mvs_get_pds_dsn_and_member (vexports s) (ebcdic_path a) fe = (x, fdsn, fm)" by (metis prod_cases3)
  obtain y tdsn tm where y: "mvs_get_pds_dsn_and_member (vexports s) (ebcdic_path b) te = (y, tdsn, tm)" by (metis prod_cases3)
  obtain q p where p: "pww_flush_member env now fdsn fm (pw s) = (q, p)" by (metis surj_pair)
  have ip: "vfs_inv (s\<lparr>pw := p\<rparr>)"
    using inv flush_member_inv [of "pw s" env now fdsn fm] flush_member_names [of "pw s" env now fdsn fm] p
    by (intro vfs_inv_pw) (simp_all add: vfs_inv_def vexports_def)
  define p1 where "p1 = snd (pww_discard tdsn tm p)"
  obtain r s1 where r: "lib_rename (fdsn, fm) (tdsn, tm) (s\<lparr>pw := p1\<rparr>) = (r, s1)" by (metis surj_pair)
  have "vfs_inv (s\<lparr>pw := p1\<rparr>)" using discard_vinv [OF ip, of tdsn tm] by (simp add: p1_def)
  then have i1: "vfs_inv s1" using pool_same_inv [OF lib_calls_same(2)] r by (metis snd_conv)
  have "vfs_inv (dir_changed now fe fd fdsn (s1\<lparr>pw := snd (pww_discard fdsn fm (pw s1))\<rparr>))"
    using pool_same_inv [OF dir_changed_same] discard_vinv [OF i1] by blast
  then show ?thesis using inv ip i1 unfolding vfs_rename_def Let_def kf kt prod.case x y p p1_def [symmetric] r
    by (cases x; cases y; cases q; cases r) auto
qed

lemma pread_vinv [inv_intros]: "vfs_inv s \<Longrightarrow> vfs_inv (snd (vfs_pread env now path n off s))"
proof -
  assume inv: "vfs_inv s"
  have rd: "ident (fst (snd (pww_read_range pm o' c fs))) = ident pm" for pm o' c fs
    by (auto simp: pww_read_range_def Let_def ident_def slot_key_def split: prod.split)
  have same_map: "(map f xs)[i := f (xs ! i)] = map f xs" for f :: "'a \<Rightarrow> 'b" and xs i by (metis list_update_id map_update)
  have a: "pool_same s (s\<lparr>pw := (put_slot i (fst (snd (pww_read_range (pool (pw s) ! i) o' c fs))) (pw s))\<lparr>spill_io := fs'\<rparr>\<rparr>)" for i o' c fs fs'
    using rd [of "pool (pw s) ! i" o' c fs] same_map [of ident "pool (pw s)" i]
    by (simp add: pool_same_def vexports_def idents_def put_slot_def map_update)
  have b: "pool_same s (s\<lparr>rcache := rc, pw := (pw s)\<lparr>sysq := ss\<rparr>\<rparr>)" for rc ss by (simp add: pool_same_def vexports_def idents_def)
  show ?thesis using inv pool_same_inv [OF a inv] pool_same_inv [OF b inv]
    by (simp add: vfs_pread_def Let_def split_def split: option.split)
qed

lemma dirs_vinv [inv_intros]:
  "vfs_inv s \<Longrightarrow> vfs_inv (snd (vfs_opendir env now path s))" "vfs_inv s \<Longrightarrow> vfs_inv (snd (vfs_readdir_next env now i n c s))"
  "vfs_inv s \<Longrightarrow> vfs_inv (vfs_closedir i s)"
  using pool_same_inv [OF dirs_same]
  by (auto simp: vfs_opendir_def vfs_readdir_next_def vfs_closedir_def Let_def split_def split: prod.split option.split sum.split)

section \<open>The handlers\<close>

interpretation pool_kept: vfs_invariant "\<lambda>env v. vfs_inv v"
  by unfold_locales (simp_all add: inv_intros)

section \<open>The server\<close>

definition srv_inv :: "server \<Rightarrow> bool" where
  "srv_inv s \<longleftrightarrow> vfs_inv (nv (sv s)) \<and> length (g_conns s) \<le> MAX_CONNECTIONS"

lemma dispatch_inv: "dispatch_call env ps p call inp out n = Some (o1, n') \<Longrightarrow> vfs_inv (nv n) \<Longrightarrow> vfs_inv (nv n')"
  using pool_kept.handle_nfs3_keeps [of "e_nfs env" call inp out n]
    pool_kept.handle_mount_keeps [of "nv n" "e_nfs env" "e_dirpath env" call inp out]
  by (auto simp: dispatch_call_def Let_def split_def split: if_splits)

lemma connection_inv: "handle_connection env c s = Some (ok, s') \<Longrightarrow> vfs_inv (nv (sv s)) \<Longrightarrow> vfs_inv (nv (sv s'))"
  by (auto simp: handle_connection_def Let_def split: option.splits prod.splits if_splits dest: dispatch_inv)

lemma serve_inv: "serve env cs s = Some (f, s') \<Longrightarrow> vfs_inv (nv (sv s)) \<Longrightarrow> vfs_inv (nv (sv s'))"
  by (induction cs arbitrary: s f) (auto split: option.splits dest: connection_inv)

lemma ready_inv:
  assumes "service_ready env lsn rfds s = Some s'" and "srv_inv s"
  shows "srv_inv s'"
proof -
  obtain s3 where a: "adds s (waiting env lsn rfds) s3" and l: "service_loop env rfds 0 s3 = Some s'"
    using ready_loop [of s env lsn rfds] assms(1) by auto
  have 3: "length (g_conns s3) \<le> MAX_CONNECTIONS" "sv s3 = sv s" using a assms(2) by (auto simp: adds_def room_def srv_inv_def)
  obtain order fails t where o: "serve env order s3 = Some (fails, t)" "mset (g_conns s') + mset fails = mset (g_conns s3)"
    "s' = with_table (g_conns s') (sockets_closed s3 @ map conn_fd fails) t"
    using service_serves [OF l] by blast
  have "vfs_inv (nv (sv t))" using serve_inv [OF o(1)] 3(2) assms(2) by (simp add: srv_inv_def)
  moreover have "sv s' = sv t" using o(3) by (metis with_table_simps(4))
  moreover have "size (mset (g_conns s') + mset fails) = size (mset (g_conns s3))" using o(2) by simp
  then have "length (g_conns s') \<le> length (g_conns s3)" by simp
  ultimately show ?thesis using 3(1) by (simp add: srv_inv_def)
qed

lemma upd_pw_sel [simp]: "g_conns (upd_pw f s) = g_conns s" "nv (sv (upd_pw f s)) = (nv (sv s))\<lparr>pw := f (pw (nv (sv s)))\<rparr>"
  by (simp_all add: upd_pw_def)

lemma upd_pw_inv:
  "srv_inv s \<Longrightarrow> (\<And>p. pool_inv p \<Longrightarrow> pool_inv (f p)) \<Longrightarrow> (\<And>p. same_names (pexports p) (pexports (f p))) \<Longrightarrow> srv_inv (upd_pw f s)"
  by (auto simp: srv_inv_def vexports_def intro!: vfs_inv_pw) (auto simp: vfs_inv_def)

lemma pass_inv: "loop_pass lsn env s = Some (go, s') \<Longrightarrow> srv_inv s \<Longrightarrow> srv_inv s'"
  using ready_inv upd_pw_inv [of s "pww_flush_idle (n_mvs (e_nfs env)) (n_now (e_nfs env))"] idle_inv flush_all_names(1)
  by (auto simp: loop_pass_def Let_def split: if_splits prod.splits)

text \<open>The states of the running server, from its start on.\<close>

inductive srv_reach :: "listeners_t \<Rightarrow> server \<Rightarrow> bool" for lsn where
  srv_start: "server_start vtoc files now job argv s0 = Inr s \<Longrightarrow> g_conns s0 = [] \<Longrightarrow> srv_reach lsn s"
| srv_pass: "srv_reach lsn s \<Longrightarrow> loop_pass lsn env s = Some (True, s') \<Longrightarrow> srv_reach lsn s'"

lemma start_inv:
  assumes "server_start vtoc files now job argv s0 = Inr s" and "g_conns s0 = []"
  shows "srv_inv s"
proof -
  obtain opts n st where o: "parse_args argv default_opts = Inr opts" and l: "exports_load vtoc (files (config_path opts)) exports_init = (n, st)"
    and n: "0 \<le> n" and s: "nv (sv s) = (nv (sv (server_init_subsystems s0)))\<lparr>pw := (pw (nv (sv (server_init_subsystems s0))))\<lparr>pexports := g_exports st\<rparr>\<rparr>"
    "g_conns s = []"
    using assms by (auto simp: server_start_def open_listeners_def upd_pw_def server_init_subsystems_def Let_def
        split: sum.splits prod.splits if_splits)
  obtain lines where "files (config_path opts) = Some lines" using l n by (cases "files (config_path opts)") (auto simp: exports_load_def)
  then have "\<forall>e \<in> set (g_exports st). export_shape e" using exports_load_ok l by auto
  then have "names_ok (g_exports st)" by (auto simp: names_ok_def list_all_iff export_shape_def dataset_shape_def)
  moreover have "pool_inv (pw (nv (sv s)))"
    using reach_inv [OF reach_init] s(1) by (simp add: server_init_subsystems_def Let_def pww_init_def pool_inv_def idents_def)
  ultimately show ?thesis using s by (simp add: srv_inv_def vfs_inv_def vexports_def)
qed

lemma srv_reach_inv: "srv_reach lsn s \<Longrightarrow> srv_inv s"
  by (induction rule: srv_reach.induct) (auto intro: start_inv pass_inv)

text \<open>
  C5. The invariant of the running server. In every state the server can be in between two
  passes of its loop, whatever its clients sent and whatever the system calls answered: no more
  than the maximal number of connections is open; the pool of pending members has its eight
  slots; every slot in use holds the enqueue of its member and its allocation; no member is in
  two slots; and the search for a member finds its slot.
\<close>
theorem server_invariant:
  assumes "srv_reach lsn s"
  shows "length (g_conns s) \<le> MAX_CONNECTIONS \<and>
    (let p = pw (nv (sv s)) in length (pool p) = PWW_MAX_PENDING \<and>
      (\<forall>i < PWW_MAX_PENDING. used (pool p ! i) \<longrightarrow>
        enq_held (pool p ! i) \<and> allocated (pool p ! i) \<and> slot_rname (pool p ! i) \<in> set (enqs p) \<and>
        pww_slot_find (pm_dsname (pool p ! i)) (pm_member (pool p ! i)) p = Some i \<and>
        (\<forall>j < PWW_MAX_PENDING. used (pool p ! j) \<longrightarrow> slot_key (pool p ! j) = slot_key (pool p ! i) \<longrightarrow> j = i)))"
proof -
  have "pool_inv (pw (nv (sv s)))" "length (g_conns s) \<le> MAX_CONNECTIONS"
    using srv_reach_inv [OF assms] by (auto simp: srv_inv_def vfs_inv_def)
  then show ?thesis unfolding Let_def using pool_8 inv_slot inv_find by blast
qed

section \<open>The end\<close>

lemma close_all:
  "g_conns (fold (\<lambda>c. sock_close (conn_fd c)) cs s) = g_conns s"
  "sv (fold (\<lambda>c. sock_close (conn_fd c)) cs s) = sv s"
  "sockets_closed (fold (\<lambda>c. sock_close (conn_fd c)) cs s) = sockets_closed s @ map conn_fd cs"
  by (induction cs arbitrary: s) (simp_all add: sock_close_def)

lemma shutdown_state:
  "g_conns (server_shutdown lsn env s) = []"
  "sockets_closed (server_shutdown lsn env s) =
     sockets_closed s @ map conn_fd (g_conns s) @ [lsn_pmap lsn, lsn_mount lsn, lsn_nfs lsn]"
  "pw (nv (sv (server_shutdown lsn env s))) = pww_flush_all (n_mvs (e_nfs env)) (n_now (e_nfs env)) (pw (nv (sv s)))"
  by (simp_all add: server_shutdown_def Let_def close_all) (simp_all add: sock_close_def close_all upd_pw_def)

text \<open>The condition on which a pass leaves the loop.\<close>

definition leaves_loop :: "srv_env \<Rightarrow> server \<Rightarrow> bool" where
  "leaves_loop env s \<longleftrightarrow> process_operator_command env = 2 \<or> write_path_is_fatal s \<or> e_select env < 0"

lemma pass_ends: "loop_pass lsn env s = Some (go, s') \<Longrightarrow> (go \<longleftrightarrow> \<not> leaves_loop env s) \<and> (\<not> go \<longrightarrow> s' = s)"
  by (auto simp: loop_pass_def leaves_loop_def Let_def split: if_splits prod.splits)

lemma loop_ends:
  assumes "srv_reach lsn s" and "main_loop lsn es s = Some (ended, s')"
  shows "if ended then \<exists>env u. env \<in> set es \<and> srv_reach lsn u \<and> leaves_loop env u \<and> s' = server_shutdown lsn env u
    else srv_reach lsn s' \<and> list_all (\<lambda>e. process_operator_command e \<noteq> 2) es"
  using assms
proof (induction es arbitrary: s)
  case (Cons e es)
  obtain go s1 where p: "loop_pass lsn e s = Some (go, s1)" using Cons.prems(2) by (auto split: option.splits)
  show ?case
  proof (cases go)
    case True
    then have "if ended then \<exists>env u. env \<in> set es \<and> srv_reach lsn u \<and> leaves_loop env u \<and> s' = server_shutdown lsn env u
      else srv_reach lsn s' \<and> list_all (\<lambda>e. process_operator_command e \<noteq> 2) es"
      using Cons.IH [of s1] Cons.prems p srv_pass by auto
    moreover have "process_operator_command e \<noteq> 2" using pass_ends [OF p] True by (simp add: leaves_loop_def)
    ultimately show ?thesis by (auto split: if_splits)
  next
    case False
    then show ?thesis using Cons.prems p pass_ends [OF p] by auto
  qed
qed simp

text \<open>
  The states of a server whose directories were in order at every pass. All of its calls return,
  so the loop goes through its passes.
\<close>

inductive srv_orderly :: "listeners_t \<Rightarrow> server \<Rightarrow> bool" for lsn where
  orderly_start: "server_start vtoc files now job argv s0 = Inr s \<Longrightarrow> g_conns s0 = [] \<Longrightarrow> srv_orderly lsn s"
| orderly_pass: "srv_orderly lsn s \<Longrightarrow> env_in_order (e_nfs env) \<Longrightarrow> loop_pass lsn env s = Some (True, s') \<Longrightarrow> srv_orderly lsn s'"

lemma orderly_reach: "srv_orderly lsn s \<Longrightarrow> srv_reach lsn s"
  by (induction rule: srv_orderly.induct) (auto intro: srv_start srv_pass)

lemma start_dirs: "server_start vtoc files now job argv s0 = Inr s \<Longrightarrow> dirs_good (nv (sv s))"
  by (auto simp: server_start_def open_listeners_def upd_pw_def server_init_subsystems_def Let_def dirs_good_def vdirs_def pww_init_def
      dir_openlist_init_def MAX_OPEN_DIRS_def split: sum.splits prod.splits if_splits)

lemma pass_total:
  assumes "env_in_order (e_nfs env)" and "dirs_good (nv (sv s))"
  shows "\<exists>go s'. loop_pass lsn env s = Some (go, s') \<and> dirs_good (nv (sv s'))"
proof -
  define s1 where "s1 = upd_pw (pww_flush_idle (n_mvs (e_nfs env)) (n_now (e_nfs env))) s"
  have "dirs_good (nv (sv s1))"
    using keeps_dirs_good [OF assms(2), of "nv (sv s1)"] flush_all_dirs(1) [of "pw (nv (sv s))"] by (simp add: s1_def vdirs_def)
  from ready_total [OF assms(1) this] this assms(2) show ?thesis
    by (auto simp: loop_pass_def Let_def s1_def [symmetric] split: prod.split) metis+
qed

lemma orderly_dirs: "srv_orderly lsn s \<Longrightarrow> dirs_good (nv (sv s))"
proof (induction rule: srv_orderly.induct)
  case (orderly_pass s env s')
  then show ?case using pass_total [of env s lsn] by auto
qed (rule start_dirs)

lemma loop_total:
  "srv_orderly lsn s \<Longrightarrow> list_all (\<lambda>e. env_in_order (e_nfs e)) es \<Longrightarrow> \<exists>ended s'. main_loop lsn es s = Some (ended, s')"
proof (induction es arbitrary: s)
  case (Cons e es)
  have e: "env_in_order (e_nfs e)" using Cons.prems(2) by simp
  obtain go s1 where p: "loop_pass lsn e s = Some (go, s1)" using pass_total [OF e orderly_dirs [OF Cons.prems(1)]] by blast
  show ?case
  proof (cases go)
    case True
    then show ?thesis using Cons.IH [OF orderly_pass [OF Cons.prems(1) e]] Cons.prems(2) p by simp
  qed (auto simp: p)
qed auto

text \<open>
  C6. The server can be stopped, and then it loses nothing. When the directories of the system
  are in order at every pass (their members have proper names in ascending order; the model's
  listings have the fuel they need) and the operator's STOP is among the commands of the passes, the
  loop comes to its end, at the latest with the STOP: every call before it returns. No member is
  pending then, no connection is open, and every connection and then the three listeners were
  closed, in that order. When the final flush meets no failure and the pending slots are
  well-formed, the library holds the unwritten data of every pending member, in EBCDIC, and is
  otherwise unchanged by the shutdown.
\<close>
theorem shutdown_drains:
  assumes "srv_orderly lsn s" and "list_all (\<lambda>e. env_in_order (e_nfs e)) es" and "list_ex (\<lambda>e. e_cib e = 2) es"
  shows "\<exists>s'. main_loop lsn es s = Some (True, s') \<and> g_conns s' = [] \<and> list_all (\<lambda>pm. \<not> used pm) (pool (pw (nv (sv s')))) \<and>
    (\<exists>env u. env \<in> set es \<and> srv_reach lsn u \<and> leaves_loop env u \<and>
       sockets_closed s' = sockets_closed u @ map conn_fd (g_conns u) @ [lsn_pmap lsn, lsn_mount lsn, lsn_nfs lsn] \<and>
       (let p = pw (nv (sv u)) in quiet (n_now (e_nfs env)) p \<longrightarrow> list_all (\<lambda>pm. used pm \<longrightarrow> pm_wf pm) (pool p) \<longrightarrow>
          lib (pw (nv (sv s'))) = (\<lambda>k. case pww_slot_find (fst k) (snd k) p of
             Some i \<Rightarrow> if dirty (pool p ! i) then Some (ascii_to_ebcdic (pm_content (pool p ! i))) else lib p k
           | None \<Rightarrow> lib p k)))"
proof -
  obtain ended s' where m: "main_loop lsn es s = Some (ended, s')" using loop_total [OF assms(1,2)] by blast
  have stop: "\<not> list_all (\<lambda>e. process_operator_command e \<noteq> 2) es"
    using assms(3) by (auto simp: list_ex_iff list_all_iff process_operator_command_def)
  then obtain env u where u: "ended" "env \<in> set es" "srv_reach lsn u" "leaves_loop env u" "s' = server_shutdown lsn env u"
    using loop_ends [OF orderly_reach [OF assms(1)] m] by (auto split: if_splits)
  have inv: "pool_inv (pw (nv (sv u)))" using srv_reach_inv [OF u(3)] by (simp add: srv_inv_def vfs_inv_def)
  have "g_conns s' = [] \<and> list_all (\<lambda>pm. \<not> used pm) (pool (pw (nv (sv s'))))"
    using u(5) shutdown_state [of lsn env u] flush_all_frees by (auto simp: list_all_iff)
  then show ?thesis
    using m u shutdown_state [of lsn env u]
      flush_all_stores [OF inv, of "n_now (e_nfs env)" "n_mvs (e_nfs env)", unfolded pending_view_def]
    by (intro exI [of _ s']) (auto simp: Let_def list_all_iff intro!: exI [of _ env] exI [of _ u])
qed

section \<open>A server that was started and accepted a client\<close>

text \<open>The command is \<^verbatim>\<open>n C\<close>; the configuration has one export. The client comes to the portmapper.\<close>

definition booted :: server where
  "booted = (case server_start sample_vtoc (\<lambda>_. Some [sample_line]) 100 None [[0x95], [0xC3]] ((sample_server [])\<lparr>g_conns := []\<rparr>) of
     Inl _ \<Rightarrow> sample_server [] | Inr s \<Rightarrow> s)"

definition accept_env :: srv_env where
  "accept_env = sample_senv\<lparr>e_ready := (\<lambda>fd. fd = 1)\<rparr>"

definition one_client :: server where
  "one_client = upd_pw (pww_flush_idle dir_env 100) (booted\<lparr>g_conns := [\<lparr>conn_fd = 7, conn_proto = PROTO_PORTMAP\<rparr>]\<rparr>)"

lemma sample_args: "parse_args [[0x95], [0xC3]] default_opts = Inr (default_opts\<lparr>config_path := [0xC3]\<rparr>)"
  by code_simp

lemma booted_ok: "server_start sample_vtoc (\<lambda>_. Some [sample_line]) 100 None [[0x95], [0xC3]] ((sample_server [])\<lparr>g_conns := []\<rparr>) = Inr booted"
  using sample_load
  by (auto simp: booted_def server_start_def sample_args Let_def split: prod.splits)

lemma booted_reach: "srv_reach lsn booted"
  by (rule srv_start [OF booted_ok]) simp

lemma booted_sel: "g_conns booted = []" "sockets_closed booted = []" "g_fatal_abend (pw (nv (sv booted))) = False"
  using sample_load
  by (auto simp: booted_def server_start_def sample_args Let_def server_init_subsystems_def upd_pw_def open_listeners_def
      sample_server_def pww_init_def start_nfs_def sample_vfs_def pool_start_def flush_state_def split: prod.splits)

lemma first_pass: "loop_pass sample_lsn accept_env booted = Some (True, one_client)"
  by (simp add: loop_pass_def accept_env_def sample_senv_def process_operator_command_def write_path_is_fatal_def booted_sel
      build_read_set_def listing_env_def sample_env_def service_ready_def sample_lsn_def accept_conn_def MAX_CONNECTIONS_def Let_def
      service_loop.simps one_client_def upd_pw_def)

lemma one_client_reach: "srv_reach sample_lsn one_client"
  by (rule srv_pass [OF booted_reach first_pass])

theorem server_invariant_witness:
  "length (g_conns one_client) = 1 \<and> length (g_conns one_client) \<le> MAX_CONNECTIONS \<and>
   length (pool (pw (nv (sv one_client)))) = PWW_MAX_PENDING"
  using server_invariant [OF one_client_reach] by (simp add: Let_def) (simp add: one_client_def)

lemma booted_orderly: "srv_orderly lsn booted"
  by (rule orderly_start [OF booted_ok]) simp

theorem shutdown_drains_witness:
  "\<exists>s'. main_loop sample_lsn [accept_env, sample_senv\<lparr>e_cib := 2\<rparr>] booted = Some (True, s') \<and> g_conns s' = [] \<and>
     list_all (\<lambda>pm. \<not> used pm) (pool (pw (nv (sv s'))))"
proof -
  have "list_all (\<lambda>e. env_in_order (e_nfs e)) [accept_env, sample_senv\<lparr>e_cib := 2\<rparr>]"
    using listing_env_ok by (simp add: accept_env_def sample_senv_def)
  from shutdown_drains [OF booted_orderly this, of sample_lsn] show ?thesis by auto
qed

end
