(* ===== verification/Logger.thy ===== *)
theory Logger
  imports Format Pdir
begin

text \<open>
  The log, \<^verbatim>\<open>src/src/logger.c\<close>: the thresholds of the log stream, of the operator's console and
  of the single procedures, the writing of a message to both, and the operator's commands that
  set the thresholds. A message arrives here as the text its format and arguments make. The
  streams are the bytes written to them, the console is its messages, in order.
\<close>

section \<open>Levels\<close>

datatype log_level_t = LOG_DEBUG | LOG_TRACE | LOG_INFO | LOG_WARN | LOG_ERROR | LOG_FATAL

definition level_ord :: "log_level_t \<Rightarrow> int" where
  "level_ord l = (case l of LOG_DEBUG \<Rightarrow> 0 | LOG_TRACE \<Rightarrow> 1 | LOG_INFO \<Rightarrow> 2 | LOG_WARN \<Rightarrow> 3 | LOG_ERROR \<Rightarrow> 4 | LOG_FATAL \<Rightarrow> 5)"

lemma level_ord_inj: "level_ord a = level_ord b \<Longrightarrow> a = b"
  by (simp add: level_ord_def split: log_level_t.splits)

instantiation log_level_t :: linorder
begin

definition less_eq_log_level_t :: "log_level_t \<Rightarrow> log_level_t \<Rightarrow> bool" where
  "less_eq_log_level_t a b \<longleftrightarrow> level_ord a \<le> level_ord b"

definition less_log_level_t :: "log_level_t \<Rightarrow> log_level_t \<Rightarrow> bool" where
  "less_log_level_t a b \<longleftrightarrow> level_ord a < level_ord b"

instance
  by standard (auto simp: less_eq_log_level_t_def less_log_level_t_def intro: level_ord_inj)

end

definition level_of :: "int \<Rightarrow> log_level_t" where
  "level_of n = [LOG_DEBUG, LOG_TRACE, LOG_INFO, LOG_WARN, LOG_ERROR, LOG_FATAL] ! nat n"

lemma level_of_ord [simp]: "level_of (level_ord l) = l"
  by (cases l) (simp_all add: level_of_def level_ord_def)

lemma level_ord_range: "0 \<le> level_ord l \<and> level_ord l \<le> 5"
  by (cases l) (simp_all add: level_ord_def)

definition LOG_LEVEL_INHERIT :: int where "LOG_LEVEL_INHERIT = -1"
definition LOG_PROC_COUNT :: int where "LOG_PROC_COUNT = 16"
definition LOG_LINE_MAX :: nat where "LOG_LINE_MAX = 200"
definition LOG_ASCII_MAX_ARGS :: nat where "LOG_ASCII_MAX_ARGS = 4"
definition LOG_ASCII_BUF_LEN :: nat where "LOG_ASCII_BUF_LEN = 256"

lemmas log_consts = LOG_LEVEL_INHERIT_def LOG_PROC_COUNT_def LOG_LINE_MAX_def LOG_ASCII_MAX_ARGS_def LOG_ASCII_BUF_LEN_def

section \<open>State\<close>

text \<open>The stream in use is \<open>None\<close> for \<^verbatim>\<open>stderr\<close>.\<close>

record log_state =
  g_log_level :: log_level_t
  g_wto_level :: log_level_t
  g_log_fp :: "nat option"
  g_log_timestamps :: bool
  g_proc_level :: "int list"
  s_ascii_bufs :: "bytes list"
  s_ascii_buf_idx :: nat
  log_streams :: "nat option \<Rightarrow> bytes"
  log_console :: "bytes list"

definition log_start :: log_state where
  "log_start = \<lparr>g_log_level = LOG_INFO, g_wto_level = LOG_INFO, g_log_fp = None, g_log_timestamps = False,
     g_proc_level = replicate (nat LOG_PROC_COUNT) 0, s_ascii_bufs = replicate LOG_ASCII_MAX_ARGS [], s_ascii_buf_idx = 0,
     log_streams = (\<lambda>_. []), log_console = []\<rparr>"

definition log_set_level :: "log_level_t \<Rightarrow> log_state \<Rightarrow> log_state" where
  "log_set_level l s = s\<lparr>g_log_level := l\<rparr>"

definition log_get_level :: "log_state \<Rightarrow> log_level_t" where
  "log_get_level s = g_log_level s"

definition log_set_wto_level :: "log_level_t \<Rightarrow> log_state \<Rightarrow> log_state" where
  "log_set_wto_level l s = s\<lparr>g_wto_level := l\<rparr>"

definition log_get_wto_level :: "log_state \<Rightarrow> log_level_t" where
  "log_get_wto_level s = g_wto_level s"

definition log_set_output :: "nat option \<Rightarrow> log_state \<Rightarrow> log_state" where
  "log_set_output fp s = s\<lparr>g_log_fp := fp\<rparr>"

definition log_set_timestamps :: "bool \<Rightarrow> log_state \<Rightarrow> log_state" where
  "log_set_timestamps on s = s\<lparr>g_log_timestamps := on\<rparr>"

text \<open>The buffer a text was translated into; none for a null pointer.\<close>

definition log_ascii :: "bytes option \<Rightarrow> log_state \<Rightarrow> nat option \<times> log_state" where
  "log_ascii str s =
     (case str of
        None \<Rightarrow> (None, s)
      | Some t \<Rightarrow>
          let i = s_ascii_buf_idx s
          in (Some i, s\<lparr>s_ascii_buf_idx := (i + 1) mod LOG_ASCII_MAX_ARGS,
                        s_ascii_bufs := (s_ascii_bufs s)[i := ascii_to_ebcdic (take (LOG_ASCII_BUF_LEN - 1) t)]\<rparr>))"

section \<open>Messages\<close>

definition level_tag :: "log_level_t \<Rightarrow> bytes" where
  "level_tag l = ebc (case l of LOG_DEBUG \<Rightarrow> ''DEBUG'' | LOG_TRACE \<Rightarrow> ''TRACE'' | LOG_INFO \<Rightarrow> ''INFO ''
     | LOG_WARN \<Rightarrow> ''WARN '' | LOG_ERROR \<Rightarrow> ''ERROR'' | LOG_FATAL \<Rightarrow> ''FATAL'')"

text \<open>The loop of \<^verbatim>\<open>log_emit\<close>: the pieces of the body, each of which ends a record.\<close>

function log_pieces :: "nat \<Rightarrow> bytes \<Rightarrow> bytes list" where
  "log_pieces room body =
     (let n = min (length body) room; rest = drop n body
      in take n body # (if rest = [] then [] else log_pieces LOG_LINE_MAX rest))"
  by pat_completeness auto
termination
  by (relation "measures [\<lambda>(room, body). length body, \<lambda>(room, body). if room = 0 then 1 else 0]")
     (auto simp: log_consts)

declare log_pieces.simps [simp del]

definition log_emit :: "bytes \<Rightarrow> bytes \<Rightarrow> bytes" where
  "log_emit pfx body =
     pfx @ concat (map (\<lambda>p. p @ [ch_nl])
       (log_pieces (if length pfx < LOG_LINE_MAX then LOG_LINE_MAX - length pfx else 1) body))"

text \<open>The local buffers \<^verbatim>\<open>ts_buf\<close>, \<^verbatim>\<open>pfx_buf\<close>, \<^verbatim>\<open>msg_buf\<close> and \<^verbatim>\<open>wto_buf\<close> as the texts they hold.\<close>

definition log_timestamp :: "int \<Rightarrow> bytes" where
  "log_timestamp now =
     (let (year, yday) = gmtime_date now; (mon, mday) = julian_to_md year (yday + 1); (h, m, sc) = gmtime_clock now
      in fmt_0d 4 year @ ebc ''-'' @ fmt_0d 2 (int mon + 1) @ ebc ''-'' @ fmt_0d 2 mday @ ebc '' '' @
         fmt_0d 2 h @ ebc '':'' @ fmt_0d 2 m @ ebc '':'' @ fmt_0d 2 sc @ ebc '' '')"

definition log_tag :: "log_level_t \<Rightarrow> bytes option \<Rightarrow> bytes" where
  "log_tag level msgid =
     (case msgid of Some m \<Rightarrow> m @ ebc '' '' | None \<Rightarrow> ebc ''['' @ level_tag level @ ebc ''] '')"

definition log_prefix :: "log_level_t \<Rightarrow> bytes option \<Rightarrow> int \<Rightarrow> log_state \<Rightarrow> bytes" where
  "log_prefix level msgid now s = (if g_log_timestamps s then log_timestamp now else []) @ log_tag level msgid"

definition vlog_msg :: "log_level_t \<Rightarrow> bytes option \<Rightarrow> int \<Rightarrow> bytes \<Rightarrow> log_state \<Rightarrow> log_state" where
  "vlog_msg level msgid now text s =
     (if level < g_log_level s then s
      else
        let fp = g_log_fp s; msg_buf = take 479 text;
            s1 = (if g_wto_level s \<le> level
                  then s\<lparr>log_console := log_console s @ [take 489 (log_tag level msgid @ msg_buf)]\<rparr> else s)
        in s1\<lparr>log_streams := (log_streams s1)(fp := log_streams s1 fp @ log_emit (log_prefix level msgid now s) msg_buf)\<rparr>)"

definition log_msg :: "log_level_t \<Rightarrow> int \<Rightarrow> bytes \<Rightarrow> log_state \<Rightarrow> log_state" where
  "log_msg level now text s = vlog_msg level None now text s"

definition log_debug :: "int \<Rightarrow> bytes \<Rightarrow> log_state \<Rightarrow> log_state" where
  "log_debug now text s = vlog_msg LOG_DEBUG None now text s"

definition log_trace :: "int \<Rightarrow> bytes \<Rightarrow> log_state \<Rightarrow> log_state" where
  "log_trace now text s = vlog_msg LOG_TRACE None now text s"

definition log_info :: "int \<Rightarrow> bytes \<Rightarrow> log_state \<Rightarrow> log_state" where
  "log_info now text s = vlog_msg LOG_INFO None now text s"

definition log_warn :: "int \<Rightarrow> bytes \<Rightarrow> log_state \<Rightarrow> log_state" where
  "log_warn now text s = vlog_msg LOG_WARN None now text s"

definition log_error :: "int \<Rightarrow> bytes \<Rightarrow> log_state \<Rightarrow> log_state" where
  "log_error now text s = vlog_msg LOG_ERROR None now text s"

definition log_fatal :: "int \<Rightarrow> bytes \<Rightarrow> log_state \<Rightarrow> log_state" where
  "log_fatal now text s = vlog_msg LOG_FATAL None now text s"

definition logmsg_debug :: "bytes \<Rightarrow> int \<Rightarrow> bytes \<Rightarrow> log_state \<Rightarrow> log_state" where
  "logmsg_debug msgid now text s = vlog_msg LOG_DEBUG (Some msgid) now text s"

definition logmsg_trace :: "bytes \<Rightarrow> int \<Rightarrow> bytes \<Rightarrow> log_state \<Rightarrow> log_state" where
  "logmsg_trace msgid now text s = vlog_msg LOG_TRACE (Some msgid) now text s"

definition logmsg_info :: "bytes \<Rightarrow> int \<Rightarrow> bytes \<Rightarrow> log_state \<Rightarrow> log_state" where
  "logmsg_info msgid now text s = vlog_msg LOG_INFO (Some msgid) now text s"

definition logmsg_warn :: "bytes \<Rightarrow> int \<Rightarrow> bytes \<Rightarrow> log_state \<Rightarrow> log_state" where
  "logmsg_warn msgid now text s = vlog_msg LOG_WARN (Some msgid) now text s"

definition logmsg_error :: "bytes \<Rightarrow> int \<Rightarrow> bytes \<Rightarrow> log_state \<Rightarrow> log_state" where
  "logmsg_error msgid now text s = vlog_msg LOG_ERROR (Some msgid) now text s"

definition logmsg_fatal :: "bytes \<Rightarrow> int \<Rightarrow> bytes \<Rightarrow> log_state \<Rightarrow> log_state" where
  "logmsg_fatal msgid now text s = vlog_msg LOG_FATAL (Some msgid) now text s"

section \<open>Levels of single procedures\<close>

datatype log_proc_t = LOG_PROC_GETATTR | LOG_PROC_SETATTR | LOG_PROC_LOOKUP | LOG_PROC_ACCESS | LOG_PROC_READ
  | LOG_PROC_WRITE | LOG_PROC_CREATE | LOG_PROC_REMOVE | LOG_PROC_RENAME | LOG_PROC_READDIR | LOG_PROC_READDIRPLUS
  | LOG_PROC_FSSTAT | LOG_PROC_FSINFO | LOG_PROC_PATHCONF | LOG_PROC_COMMIT | LOG_PROC_NULL

definition proc_ord :: "log_proc_t \<Rightarrow> int" where
  "proc_ord p = (case p of LOG_PROC_GETATTR \<Rightarrow> 0 | LOG_PROC_SETATTR \<Rightarrow> 1 | LOG_PROC_LOOKUP \<Rightarrow> 2 | LOG_PROC_ACCESS \<Rightarrow> 3
     | LOG_PROC_READ \<Rightarrow> 4 | LOG_PROC_WRITE \<Rightarrow> 5 | LOG_PROC_CREATE \<Rightarrow> 6 | LOG_PROC_REMOVE \<Rightarrow> 7 | LOG_PROC_RENAME \<Rightarrow> 8
     | LOG_PROC_READDIR \<Rightarrow> 9 | LOG_PROC_READDIRPLUS \<Rightarrow> 10 | LOG_PROC_FSSTAT \<Rightarrow> 11 | LOG_PROC_FSINFO \<Rightarrow> 12
     | LOG_PROC_PATHCONF \<Rightarrow> 13 | LOG_PROC_COMMIT \<Rightarrow> 14 | LOG_PROC_NULL \<Rightarrow> 15)"

definition log_proc_init :: "log_state \<Rightarrow> log_state" where
  "log_proc_init s = s\<lparr>g_proc_level := replicate (nat LOG_PROC_COUNT) LOG_LEVEL_INHERIT\<rparr>"

definition log_proc_set_level :: "int \<Rightarrow> int \<Rightarrow> log_state \<Rightarrow> int \<times> log_state" where
  "log_proc_set_level p level s =
     (if p < 0 \<or> LOG_PROC_COUNT \<le> p then (-1, s)
      else if level \<noteq> LOG_LEVEL_INHERIT \<and> (level < level_ord LOG_DEBUG \<or> level_ord LOG_FATAL < level) then (-1, s)
      else (0, s\<lparr>g_proc_level := (g_proc_level s)[nat p := level]\<rparr>))"

definition log_proc_get_level :: "int \<Rightarrow> log_state \<Rightarrow> log_level_t" where
  "log_proc_get_level p s =
     (if p < 0 \<or> LOG_PROC_COUNT \<le> p then g_log_level s
      else let lvl = g_proc_level s ! nat p
        in if lvl = LOG_LEVEL_INHERIT then g_log_level s else level_of lvl)"

section \<open>Commands of the operator\<close>

definition g_level_names :: "(bytes \<times> log_level_t) list" where
  "g_level_names = [(ebc ''DEBUG'', LOG_DEBUG), (ebc ''TRACE'', LOG_TRACE), (ebc ''INFO'', LOG_INFO),
     (ebc ''WARN'', LOG_WARN), (ebc ''ERROR'', LOG_ERROR), (ebc ''FATAL'', LOG_FATAL)]"

definition g_proc_names :: "(bytes \<times> log_proc_t) list" where
  "g_proc_names = [(ebc ''GETATTR'', LOG_PROC_GETATTR), (ebc ''SETATTR'', LOG_PROC_SETATTR), (ebc ''LOOKUP'', LOG_PROC_LOOKUP),
     (ebc ''ACCESS'', LOG_PROC_ACCESS), (ebc ''READ'', LOG_PROC_READ), (ebc ''WRITE'', LOG_PROC_WRITE),
     (ebc ''CREATE'', LOG_PROC_CREATE), (ebc ''REMOVE'', LOG_PROC_REMOVE), (ebc ''RENAME'', LOG_PROC_RENAME),
     (ebc ''READDIR'', LOG_PROC_READDIR), (ebc ''READDIRPLUS'', LOG_PROC_READDIRPLUS),
     (ebc ''RDIRPLUS'', LOG_PROC_READDIRPLUS), (ebc ''FSSTAT'', LOG_PROC_FSSTAT), (ebc ''FSINFO'', LOG_PROC_FSINFO),
     (ebc ''PATHCONF'', LOG_PROC_PATHCONF), (ebc ''COMMIT'', LOG_PROC_COMMIT), (ebc ''NULL'', LOG_PROC_NULL)]"

definition level_from_name :: "bytes \<Rightarrow> log_level_t option" where
  "level_from_name name = map_of g_level_names name"

definition proc_from_name :: "bytes \<Rightarrow> log_proc_t option" where
  "proc_from_name name = map_of g_proc_names name"

definition skip_blanks :: "bytes \<Rightarrow> bytes" where
  "skip_blanks s = dropWhile (\<lambda>c. c = ch_space) s"

text \<open>The token, cut to the buffer and in upper case, and the text at its delimiter.\<close>

definition token_char :: "u8 \<Rightarrow> bool" where
  "token_char c \<longleftrightarrow> c \<noteq> ch_space \<and> c \<noteq> ch_equals"

definition scan_token :: "bytes \<Rightarrow> nat \<Rightarrow> bytes \<times> bytes" where
  "scan_token s outlen = (take (outlen - 1) (map toupper (takeWhile token_char s)), dropWhile token_char s)"

definition handle_set_loglvl :: "int \<Rightarrow> bytes \<Rightarrow> log_state \<Rightarrow> int \<times> log_state" where
  "handle_set_loglvl now p s =
     (let bad = (\<lambda>msgid text. (-1, logmsg_error (ebc msgid) now text s));
          (tok, p1) = scan_token (skip_blanks p) 24
      in if tok = [] then bad ''NFSLG010E'' (ebc ''SET LOGLVL: missing level'')
         else case level_from_name tok of
           None \<Rightarrow> bad ''NFSLG020E'' (ebc ''SET LOGLVL: unknown level '' @ [0x7D] @ tok @ [0x7D])
         | Some level \<Rightarrow>
             let p2 = skip_blanks p1 in
             if p2 = [] then
               (0, logmsg_info (ebc ''NFSLG030I'') now (ebc ''SET LOGLVL: global log level now '' @ level_tag level) (log_set_level level s))
             else
               let (tok2, p3) = scan_token p2 24 in
               if tok2 \<noteq> ebc ''PROC'' then bad ''NFSLG040E'' (ebc ''SET LOGLVL: unexpected operand '' @ [0x7D] @ tok2 @ [0x7D])
               else case skip_blanks p3 of
                   [] \<Rightarrow> bad ''NFSLG050E'' (ebc ''SET LOGLVL: expected PROC=<name>'')
                 | c # p4 \<Rightarrow>
                     if c \<noteq> ch_equals then bad ''NFSLG050E'' (ebc ''SET LOGLVL: expected PROC=<name>'')
                     else
                       let (tok3, _) = scan_token (skip_blanks p4) 24 in
                       if tok3 = [] then bad ''NFSLG060E'' (ebc ''SET LOGLVL: missing PROC name'')
                       else case proc_from_name tok3 of
                         None \<Rightarrow> bad ''NFSLG070E'' (ebc ''SET LOGLVL: unknown PROC '' @ [0x7D] @ tok3 @ [0x7D])
                       | Some pr \<Rightarrow>
                           (0, logmsg_info (ebc ''NFSLG080I'') now
                                 (ebc ''SET LOGLVL: PROC '' @ tok3 @ ebc '' log level now '' @ level_tag level)
                                 (snd (log_proc_set_level (proc_ord pr) (level_ord level) s))))"

definition handle_set_wtolvl :: "int \<Rightarrow> bytes \<Rightarrow> log_state \<Rightarrow> int \<times> log_state" where
  "handle_set_wtolvl now p s =
     (let bad = (\<lambda>msgid text. (-1, logmsg_error (ebc msgid) now text s));
          (tok, p1) = scan_token (skip_blanks p) 24
      in if tok = [] then bad ''NFSLG090E'' (ebc ''SET WTOLVL: missing level'')
         else case level_from_name tok of
           None \<Rightarrow> bad ''NFSLG100E'' (ebc ''SET WTOLVL: unknown level '' @ [0x7D] @ tok @ [0x7D])
         | Some level \<Rightarrow>
             let p2 = skip_blanks p1 in
             if p2 \<noteq> [] then bad ''NFSLG110E'' (ebc ''SET WTOLVL: unexpected operand '' @ [0x7D] @ p2 @ [0x7D])
             else (0, logmsg_info (ebc ''NFSLG120I'') now (ebc ''SET WTOLVL: console (WTO) level now '' @ level_tag level)
                        (log_set_wto_level level s)))"

definition log_handle_modify :: "int \<Rightarrow> bytes option \<Rightarrow> log_state \<Rightarrow> int \<times> log_state" where
  "log_handle_modify now cmd s =
     (case cmd of
        None \<Rightarrow> (1, s)
      | Some c \<Rightarrow>
          let (tok, p) = scan_token (skip_blanks c) 24 in
          if tok \<noteq> ebc ''SET'' then (1, s)
          else
            let (tok2, p2) = scan_token (skip_blanks p) 24 in
            if tok2 = ebc ''LOGLVL'' then handle_set_loglvl now p2 s
            else if tok2 = ebc ''WTOLVL'' then handle_set_wtolvl now p2 s
            else (1, s))"

section \<open>Records stay within the limit of the data set\<close>

lemma pieces_concat: "concat (log_pieces room body) = body"
proof (induction room body rule: log_pieces.induct)
  case (1 room body)
  show ?case
  proof (cases "drop (min (length body) room) body = []")
    case True
    then show ?thesis by (subst log_pieces.simps) (simp add: Let_def)
  next
    case False
    then show ?thesis using 1 by (subst log_pieces.simps) (simp add: Let_def)
  qed
qed

lemma pieces_length:
  "\<exists>p ps. log_pieces room body = p # ps \<and> length p \<le> room \<and> list_all (\<lambda>q. length q \<le> LOG_LINE_MAX) ps"
proof (induction room body rule: log_pieces.induct)
  case (1 room body)
  show ?case
  proof (cases "drop (min (length body) room) body = []")
    case True
    then show ?thesis by (subst log_pieces.simps) (simp add: Let_def)
  next
    case False
    then obtain p ps where "log_pieces LOG_LINE_MAX (drop (min (length body) room) body) = p # ps" "length p \<le> LOG_LINE_MAX"
      "list_all (\<lambda>q. length q \<le> LOG_LINE_MAX) ps"
      using 1 by blast
    then show ?thesis using False by (subst log_pieces.simps) (simp add: Let_def)
  qed
qed

lemma emit_records:
  assumes "length pfx < LOG_LINE_MAX"
  shows "\<exists>rs. log_emit pfx body = concat (map (\<lambda>r. r @ [ch_nl]) rs) \<and> concat rs = pfx @ body \<and>
    list_all (\<lambda>r. length r \<le> LOG_LINE_MAX) rs"
proof -
  obtain p ps where p: "log_pieces (LOG_LINE_MAX - length pfx) body = p # ps" "length p \<le> LOG_LINE_MAX - length pfx"
    "list_all (\<lambda>q. length q \<le> LOG_LINE_MAX) ps"
    using pieces_length by blast
  have c: "p @ concat ps = body" using pieces_concat [of "LOG_LINE_MAX - length pfx" body] p(1) by simp
  then show ?thesis using p assms by (intro exI [of _ "(pfx @ p) # ps"]) (auto simp: log_emit_def)
qed

lemma gm_forward_bound: "0 \<le> d \<Longrightarrow> gm_forward y d = (y', d') \<Longrightarrow> y \<le> y' \<and> y' \<le> y + d"
proof (induction y d rule: gm_forward.induct)
  case (1 y d)
  show ?case
  proof (cases "d < year_len y")
    case True
    then show ?thesis using 1 by (subst (asm) (2) gm_forward.simps) simp
  next
    case False
    then show ?thesis using 1 by (subst (asm) (2) gm_forward.simps) (auto simp: year_len_def split: if_splits)
  qed
qed

lemma julian_month: "julian_to_md y d = (m, dm) \<Longrightarrow> 1 \<le> d \<Longrightarrow> d \<le> 366 \<Longrightarrow> m \<le> 12 \<and> 1 \<le> dm \<and> dm \<le> 31"
  by (auto simp: julian_to_md_def split: if_splits)

lemma timestamp_length:
  assumes "0 \<le> now" and "now < 2 ^ 32"
  shows "length (log_timestamp now) \<le> 21"
proof -
  obtain y d where g: "gmtime_date now = (y, d)" by (metis surj_pair)
  obtain m dm where j: "julian_to_md y (d + 1) = (m, dm)" by (metis surj_pair)
  have "0 \<le> now div 86400" "now div 86400 < 49711" using assms by (simp_all add: pos_imp_zdiv_nonneg_iff div_less_mult)
  then have y: "1970 \<le> y" "y < 10 ^ Suc 4" using gm_forward_bound [of "now div 86400" 1970 y d] g by (auto simp: gmtime_date_def Let_def)
  have "0 \<le> d" "d < 366" using gmtime_date_spec(2,3) [OF g] by (auto simp: year_len_def split: if_splits)
  then have m: "int m + 1 < 10 ^ Suc 1" "0 \<le> dm" "dm < 10 ^ Suc 1" using julian_month [OF j] by auto
  have c: "case gmtime_clock now of (h, mi, sc) \<Rightarrow> 0 \<le> h \<and> h < 10 ^ Suc 1 \<and> 0 \<le> mi \<and> mi < 10 ^ Suc 1 \<and> 0 \<le> sc \<and> sc < 10 ^ Suc 1"
    by (auto simp: gmtime_clock_def Let_def pos_imp_zdiv_nonneg_iff div_less_mult
        order_le_less_trans [OF _ pos_mod_bound [of 60]] intro: div_less_mult order_less_trans [OF pos_mod_bound])
  then obtain h mi sc where k: "gmtime_clock now = (h, mi, sc)" "0 \<le> h" "h < 10 ^ Suc 1" "0 \<le> mi" "mi < 10 ^ Suc 1" "0 \<le> sc" "sc < 10 ^ Suc 1"
    by (auto split: prod.splits)
  show ?thesis
    using fmt_0d_length [of y 4 4] y fmt_0d_length [of "int m + 1" 1 2] m(1) fmt_0d_length [OF m(2,3), of 2]
      fmt_0d_length [OF k(2,3), of 2] fmt_0d_length [OF k(4,5), of 2] fmt_0d_length [OF k(6,7), of 2]
    by (simp add: log_timestamp_def g j k(1) ebc_def)
qed

lemma prefix_length:
  assumes "0 \<le> now" and "now < 2 ^ 32" and "case msgid of Some m \<Rightarrow> length m \<le> 17 | None \<Rightarrow> True"
  shows "length (log_prefix level msgid now s) \<le> 39"
proof -
  have "length (log_tag level msgid) \<le> 18"
    using assms(3) by (auto simp: log_tag_def ebc_def level_tag_def split: option.splits log_level_t.splits)
  then show ?thesis using timestamp_length [OF assms(1,2)] by (simp add: log_prefix_def)
qed

text \<open>
  C31. Writing a message. Whatever the message, no record of the log stream is longer than the
  limit that keeps the server from being abended; the records together are the prefix and the
  message, of which only what exceeds 479 characters is lost; a message below the threshold of
  the stream changes nothing; the console gets exactly those that also reach its own threshold,
  without the time. The time and the prefix fit the buffers of 22 and 40 bytes they are made in.
\<close>
theorem message_records:
  assumes "0 \<le> now" and "now < 2 ^ 32" and "case msgid of Some m \<Rightarrow> length m \<le> 17 | None \<Rightarrow> True"
  shows "length (log_timestamp now) < 22 \<and> length (log_prefix level msgid now s) < 40 \<and>
    (\<exists>rs. list_all (\<lambda>r. length r \<le> LOG_LINE_MAX) rs \<and> concat rs = log_prefix level msgid now s @ take 479 text \<and>
      (let s' = vlog_msg level msgid now text s; written = (g_log_level s \<le> level); fp = g_log_fp s
       in log_streams s' = (log_streams s)(fp := log_streams s fp @ (if written then concat (map (\<lambda>r. r @ [ch_nl]) rs) else [])) \<and>
          log_console s' = log_console s @
            (if written \<and> g_wto_level s \<le> level then [take 489 (log_tag level msgid @ take 479 text)] else [])))"
proof -
  have p: "length (log_prefix level msgid now s) \<le> 39" by (rule prefix_length [OF assms])
  obtain rs where rs: "log_emit (log_prefix level msgid now s) (take 479 text) = concat (map (\<lambda>r. r @ [ch_nl]) rs)"
    "concat rs = log_prefix level msgid now s @ take 479 text" "list_all (\<lambda>r. length r \<le> LOG_LINE_MAX) rs"
    using emit_records [of "log_prefix level msgid now s" "take 479 text"] p by (auto simp: log_consts)
  show ?thesis using rs p timestamp_length [OF assms(1,2)]
    by (intro conjI exI [of _ rs]) (auto simp: vlog_msg_def Let_def not_less)
qed

section \<open>What the commands set\<close>

definition blank :: "bytes \<Rightarrow> bool" where
  "blank b \<longleftrightarrow> list_all (\<lambda>c. c = ch_space) b"

definition word_of_cmd :: "bytes \<Rightarrow> bool" where
  "word_of_cmd t \<longleftrightarrow> t \<noteq> [] \<and> length t < 24 \<and> list_all token_char t"

definition thresholds :: "log_state \<Rightarrow> log_level_t \<times> log_level_t \<times> int list" where
  "thresholds s = (g_log_level s, g_wto_level s, g_proc_level s)"

lemma token_upper: "token_char (toupper c) \<Longrightarrow> token_char c"
  by (auto simp: token_char_def toupper_def islower_def ch_defs)

lemma upper_word: "word_of_cmd (map toupper t) \<Longrightarrow> word_of_cmd t"
  by (auto simp: word_of_cmd_def list_all_iff token_upper)

lemma names_are_words:
  "word_of_cmd (ebc ''SET'')" "word_of_cmd (ebc ''LOGLVL'')" "word_of_cmd (ebc ''WTOLVL'')" "word_of_cmd (ebc ''PROC'')"
  "list_all (\<lambda>(n, _). word_of_cmd n) g_level_names" "list_all (\<lambda>(n, _). word_of_cmd n) g_proc_names"
  by code_simp+

lemma level_name_word: "level_from_name t = Some l \<Longrightarrow> word_of_cmd t"
  using names_are_words(5) by (auto simp: level_from_name_def list_all_iff dest!: map_of_SomeD)

lemma proc_name_word: "proc_from_name t = Some p \<Longrightarrow> word_of_cmd t"
  using names_are_words(6) by (auto simp: proc_from_name_def list_all_iff dest!: map_of_SomeD)

lemma dropWhile_eq_self: "s = [] \<or> \<not> P (hd s) \<Longrightarrow> dropWhile P s = s \<and> takeWhile P s = []"
  by (cases s) auto

lemma skip_blank: "blank b \<Longrightarrow> s = [] \<or> hd s \<noteq> ch_space \<Longrightarrow> skip_blanks (b @ s) = s"
  unfolding skip_blanks_def blank_def list_all_iff by (simp add: dropWhile_append2 dropWhile_eq_self)

lemma scan_word: "word_of_cmd t \<Longrightarrow> s = [] \<or> \<not> token_char (hd s) \<Longrightarrow> scan_token (t @ s) 24 = (map toupper t, s)"
  unfolding scan_token_def word_of_cmd_def list_all_iff
  by (simp add: takeWhile_append2 dropWhile_append2 dropWhile_eq_self)

lemma next_token:
  assumes "blank b" and "word_of_cmd t" and "s = [] \<or> \<not> token_char (hd s)"
  shows "scan_token (skip_blanks (b @ t @ s)) 24 = (map toupper t, s)"
proof -
  have "hd (t @ s) \<noteq> ch_space" using assms(2) by (cases t) (auto simp: word_of_cmd_def token_char_def)
  then show ?thesis using skip_blank [OF assms(1), of "t @ s"] scan_word [OF assms(2,3)] by simp
qed

lemma blank_ends: "blank b \<Longrightarrow> b \<noteq> [] \<or> s = [] \<or> \<not> token_char (hd s) \<Longrightarrow> b @ s = [] \<or> \<not> token_char (hd (b @ s))"
  by (cases b) (auto simp: blank_def token_char_def)

lemma log_thresholds [simp]:
  "thresholds (logmsg_info i now t s) = thresholds s" "thresholds (logmsg_error i now t s) = thresholds s"
  by (simp_all add: thresholds_def logmsg_info_def logmsg_error_def vlog_msg_def Let_def)

lemma set_keyword:
  assumes "blank b0" "blank b1" "b1 \<noteq> []" "map toupper v = ebc ''SET''" "word_of_cmd (map toupper k)"
    and "r = [] \<or> \<not> token_char (hd r)"
  shows "log_handle_modify now (Some (b0 @ v @ b1 @ k @ r)) s =
    (if map toupper k = ebc ''LOGLVL'' then handle_set_loglvl now r s
     else if map toupper k = ebc ''WTOLVL'' then handle_set_wtolvl now r s else (1, s))"
proof -
  have v: "word_of_cmd v" using upper_word names_are_words(1) assms(4) by simp
  have "scan_token (skip_blanks (b0 @ v @ b1 @ k @ r)) 24 = (map toupper v, b1 @ k @ r)"
    using next_token [OF assms(1) v, of "b1 @ k @ r"] blank_ends [OF assms(2), of "k @ r"] assms(3) by simp
  moreover have "scan_token (skip_blanks (b1 @ k @ r)) 24 = (map toupper k, r)"
    by (rule next_token [OF assms(2) upper_word [OF assms(5)] assms(6)])
  ultimately show ?thesis using assms(4) by (simp add: log_handle_modify_def Let_def)
qed

lemma proc_ord_range: "0 \<le> proc_ord p \<and> proc_ord p < LOG_PROC_COUNT"
  by (cases p) (simp_all add: proc_ord_def log_consts)

lemma rejected_keeps:
  assumes "log_handle_modify now cmd s = (rc, s')" and "rc \<noteq> 0"
  shows "thresholds s' = thresholds s"
proof -
  have "fst (handle_set_loglvl now p s) \<noteq> 0 \<longrightarrow> thresholds (snd (handle_set_loglvl now p s)) = thresholds s" for p
    by (simp add: handle_set_loglvl_def Let_def split: prod.split option.split list.split)
  moreover have "fst (handle_set_wtolvl now p s) \<noteq> 0 \<longrightarrow> thresholds (snd (handle_set_wtolvl now p s)) = thresholds s" for p
    by (simp add: handle_set_wtolvl_def Let_def split: prod.split option.split)
  ultimately show ?thesis
    using assms by (auto simp: log_handle_modify_def Let_def split: option.splits prod.splits if_splits) (metis fst_conv snd_conv)+
qed

text \<open>
  C32. The commands of the operator. In any mixture of upper and lower case and with any number
  of blanks between the words, \<^verbatim>\<open>SET LOGLVL level\<close> sets the threshold of the log stream,
  \<^verbatim>\<open>SET LOGLVL level PROC=name\<close> that of one procedure and \<^verbatim>\<open>SET WTOLVL level\<close> that of the
  console, each to the level named and nothing else; and a command that is refused or not
  recognised leaves all thresholds as they were.
\<close>
theorem set_level_commands:
  assumes "blank b0" "blank b1" "b1 \<noteq> []" "blank b2" "b2 \<noteq> []" "blank b3" "blank b4" "blank b5"
    and "map toupper v = ebc ''SET''" "map toupper k = ebc ''LOGLVL''" "map toupper w = ebc ''WTOLVL''" "map toupper q = ebc ''PROC''"
    and "level_from_name (map toupper l) = Some level" "proc_from_name (map toupper n) = Some p"
  shows "(let (rc, s1) = log_handle_modify now (Some (b0 @ v @ b1 @ k @ b2 @ l @ b3)) s
      in rc = 0 \<and> thresholds s1 = (level, g_wto_level s, g_proc_level s)) \<and>
    (let (rc, s1) = log_handle_modify now (Some (b0 @ v @ b1 @ k @ b2 @ l @ b2 @ q @ b4 @ [ch_equals] @ b5 @ n)) s
      in rc = 0 \<and> thresholds s1 = (g_log_level s, g_wto_level s, (g_proc_level s)[nat (proc_ord p) := level_ord level])) \<and>
    (let (rc, s1) = log_handle_modify now (Some (b0 @ v @ b1 @ w @ b2 @ l @ b3)) s
      in rc = 0 \<and> thresholds s1 = (g_log_level s, level, g_proc_level s)) \<and>
    (let (rc, s1) = log_handle_modify now cmd s in rc = 0 \<or> thresholds s1 = thresholds s)"
proof (intro conjI)
  have words: "word_of_cmd l" "word_of_cmd n" "word_of_cmd q" "word_of_cmd (map toupper k)" "word_of_cmd (map toupper w)"
    "map toupper l \<noteq> []" "map toupper n \<noteq> []"
    using upper_word [of l] upper_word [of n] upper_word [of q] level_name_word [OF assms(13)] proc_name_word [OF assms(14)]
      names_are_words assms by (auto simp: word_of_cmd_def)
  have ne: "ebc ''LOGLVL'' \<noteq> ebc ''WTOLVL''" by code_simp
  have r: "b2 @ x = [] \<or> \<not> token_char (hd (b2 @ x))" for x using blank_ends [OF assms(4)] assms(5) by simp
  have b3: "b3 = [] \<or> \<not> token_char (hd b3)" "skip_blanks b3 = []"
    using blank_ends [OF assms(6), of "[]"] skip_blank [OF assms(6), of "[]"] by auto
  have lv: "scan_token (skip_blanks (b2 @ l @ b3)) 24 = (map toupper l, b3)" by (rule next_token [OF assms(4) words(1) b3(1)])
  show "let (rc, s1) = log_handle_modify now (Some (b0 @ v @ b1 @ k @ b2 @ l @ b3)) s
      in rc = 0 \<and> thresholds s1 = (level, g_wto_level s, g_proc_level s)"
    using set_keyword [OF assms(1-3,9) words(4) r] assms(10,13) words(6) lv b3(2)
    by (simp add: handle_set_loglvl_def) (simp add: thresholds_def log_set_level_def)
  show "let (rc, s1) = log_handle_modify now (Some (b0 @ v @ b1 @ w @ b2 @ l @ b3)) s
      in rc = 0 \<and> thresholds s1 = (g_log_level s, level, g_proc_level s)"
    using set_keyword [OF assms(1-3,9) words(5) r] assms(11,13) words(6) lv b3(2) ne
    by (simp add: handle_set_wtolvl_def) (simp add: thresholds_def log_set_wto_level_def)
  let ?t = "b4 @ [ch_equals] @ b5 @ n"
  have lp: "scan_token (skip_blanks (b2 @ l @ b2 @ q @ ?t)) 24 = (map toupper l, b2 @ q @ ?t)"
    by (rule next_token [OF assms(4) words(1) r])
  have q: "hd (q @ ?t) \<noteq> ch_space" "q @ ?t \<noteq> []" using words(3) by (cases q; auto simp: word_of_cmd_def token_char_def)+
  have sk: "skip_blanks (b2 @ q @ ?t) = q @ ?t" using skip_blank [OF assms(4)] q by blast
  have eq: "?t = [] \<or> \<not> token_char (hd ?t)" using blank_ends [OF assms(7), of "[ch_equals] @ b5 @ n"] by (simp add: token_char_def)
  have sq: "scan_token (q @ ?t) 24 = (ebc ''PROC'', ?t)" using scan_word [OF words(3) eq] assms(12) by simp
  have se: "skip_blanks ?t = ch_equals # b5 @ n" using skip_blank [OF assms(7), of "[ch_equals] @ b5 @ n"] by (simp add: ch_defs)
  have sn: "scan_token (skip_blanks (b5 @ n)) 24 = (map toupper n, [])" using next_token [OF assms(8) words(2), of "[]"] by simp
  show "let (rc, s1) = log_handle_modify now (Some (b0 @ v @ b1 @ k @ b2 @ l @ b2 @ q @ ?t)) s
      in rc = 0 \<and> thresholds s1 = (g_log_level s, g_wto_level s, (g_proc_level s)[nat (proc_ord p) := level_ord level])"
    using set_keyword [OF assms(1-3,9) words(4) r] assms(10,13,14) words(6,7) lp sk q(2) sq se sn proc_ord_range [of p] level_ord_range [of level]
    by (simp add: handle_set_loglvl_def) (simp add: thresholds_def log_proc_set_level_def level_ord_def)
  show "let (rc, s1) = log_handle_modify now cmd s in rc = 0 \<or> thresholds s1 = thresholds s"
    by (cases "log_handle_modify now cmd s") (auto dest: rejected_keeps)
qed

text \<open>A message of 300 characters makes two records; the commands are \<^verbatim>\<open>set loglvl debug proc=read\<close> and so on.\<close>

theorem message_records_witness:
  "\<exists>rs. list_all (\<lambda>r. length r \<le> LOG_LINE_MAX) rs \<and>
     concat rs = log_prefix LOG_INFO (Some (ebc ''NFSDM090I'')) 0 log_start @ replicate 300 0xC1 \<and>
     log_streams (vlog_msg LOG_INFO (Some (ebc ''NFSDM090I'')) 0 (replicate 300 0xC1) log_start) None = concat (map (\<lambda>r. r @ [ch_nl]) rs)"
proof -
  have "case Some (ebc ''NFSDM090I'') of Some m \<Rightarrow> length m \<le> 17 | None \<Rightarrow> True" by (simp add: ebc_def)
  from message_records [OF _ _ this, of 0 LOG_INFO log_start "replicate 300 0xC1"] show ?thesis
    by (auto simp: Let_def log_start_def min_def)
qed

theorem set_level_commands_witness:
  "let (rc, s1) = log_handle_modify 0 (Some (ebc '' set loglvl debug proc=read'')) log_start
   in rc = 0 \<and> thresholds s1 = (LOG_INFO, LOG_INFO, (g_proc_level log_start)[4 := 0])"
proof -
  have b: "blank []" "blank [ch_space]" "blank [ch_space, ch_space]" by (simp_all add: blank_def)
  have w: "map toupper (ebc ''set'') = ebc ''SET''" "map toupper (ebc ''loglvl'') = ebc ''LOGLVL''" "map toupper (ebc ''WTOLVL'') = ebc ''WTOLVL''"
    "map toupper (ebc ''proc'') = ebc ''PROC''" "level_from_name (map toupper (ebc ''debug'')) = Some LOG_DEBUG"
    "proc_from_name (map toupper (ebc ''read'')) = Some LOG_PROC_READ"
    by code_simp+
  have e: "[ch_space] @ ebc ''set'' @ [ch_space] @ ebc ''loglvl'' @ [ch_space] @ ebc ''debug'' @ [ch_space] @ ebc ''proc'' @
      [] @ [ch_equals] @ [] @ ebc ''read'' = ebc '' set loglvl debug proc=read''" by code_simp
  show ?thesis
    using set_level_commands [OF b(2,2) _ b(2) _ b(1,1,1) w, of 0 log_start None, unfolded e]
    by (auto simp: proc_ord_def level_ord_def log_start_def)
qed

end
