(* ===== verification/Perf.thy ===== *)
theory Perf
  imports Logger
begin

text \<open>
  The performance statistics, \<^verbatim>\<open>src/src/mvsprf.c\<close>: count, sum, minimum and maximum of the samples
  of each slot, the table written to the log, and the operator's \<^verbatim>\<open>STATS\<close> commands. Ticks are
  signed 32-bit numbers, counts and milliseconds unsigned ones; the ticks per second of the
  run-time library are a parameter.
\<close>

section \<open>Slots\<close>

definition PERF_NUM_SLOTS :: int where "PERF_NUM_SLOTS = 28"
definition PERF_PWW_WRITE_GAP :: int where "PERF_PWW_WRITE_GAP = 24"
definition PERF_PWW_LATE_GAP :: int where "PERF_PWW_LATE_GAP = 25"
definition PERF_PWW_NZSTART :: int where "PERF_PWW_NZSTART = 26"
definition PERF_PWW_EVICT_AGE :: int where "PERF_PWW_EVICT_AGE = 27"

lemmas perf_consts = PERF_NUM_SLOTS_def PERF_PWW_WRITE_GAP_def PERF_PWW_LATE_GAP_def PERF_PWW_NZSTART_def PERF_PWW_EVICT_AGE_def

record mvsprf_stat_t =
  st_name :: bytes
  st_count :: u32
  st_total :: int
  st_min :: int
  st_max :: int

definition g_names :: "bytes list" where
  "g_names = map ebc [''NFS3_GETATTR'', ''NFS3_SETATTR'', ''NFS3_LOOKUP'', ''NFS3_ACCESS'', ''NFS3_READ'', ''NFS3_WRITE'',
     ''NFS3_CREATE'', ''NFS3_REMOVE'', ''NFS3_RENAME'', ''NFS3_READDIR'', ''NFS3_RDIRPLUS'', ''NFS3_FSSTAT'', ''NFS3_FSINFO'',
     ''NFS3_PATHCONF'', ''NFS3_COMMIT'', ''VFS_STAT'', ''VFS_PREAD'', ''VFS_PWRITE'', ''VFS_READDIR'', ''MVSFSZ_HIT'',
     ''MVSFSZ_MISS'', ''MVSFSZ_LOAD'', ''MVSPOOL_HIT'', ''MVSPOOL_MISS'', ''PWW_WRITE_GAP'', ''PWW_LATE_GAP'', ''PWW_NZSTART'',
     ''PWW_EVICT_AGE'']"

definition mvsprf_init :: "mvsprf_stat_t list" where
  "mvsprf_init = map (\<lambda>n. \<lparr>st_name = n, st_count = 0, st_total = 0, st_min = 0, st_max = 0\<rparr>) g_names"

definition ticks_to_ms :: "u32 \<Rightarrow> int \<Rightarrow> u32" where
  "ticks_to_ms cps ticks =
     (let t = of_int ticks in if 1000 \<le> cps then t div (cps div 1000) else t * (1000 div cps))"

definition slot_is_ms :: "int \<Rightarrow> bool" where
  "slot_is_ms slot \<longleftrightarrow> slot = PERF_PWW_WRITE_GAP \<or> slot = PERF_PWW_LATE_GAP \<or> slot = PERF_PWW_NZSTART \<or> slot = PERF_PWW_EVICT_AGE"

text \<open>One sample added to the statistics of its slot.\<close>

definition add_sample :: "int \<Rightarrow> mvsprf_stat_t \<Rightarrow> mvsprf_stat_t" where
  "add_sample e st =
     (let st1 = st\<lparr>st_total := to_i32 (st_total st + e), st_count := st_count st + 1\<rparr>;
          st2 = (if st_count st1 = 1 \<or> e < st_min st1 then st1\<lparr>st_min := e\<rparr> else st1)
      in if st_max st2 < e then st2\<lparr>st_max := e\<rparr> else st2)"

definition mvsprf_record_ms :: "int \<Rightarrow> u32 \<Rightarrow> mvsprf_stat_t list \<Rightarrow> mvsprf_stat_t list" where
  "mvsprf_record_ms slot ms g =
     (if slot < 0 \<or> PERF_NUM_SLOTS \<le> slot then g else g[nat slot := add_sample (sint ms) (g ! nat slot)])"

definition mvsprf_record :: "int \<Rightarrow> int \<Rightarrow> mvsprf_stat_t list \<Rightarrow> mvsprf_stat_t list" where
  "mvsprf_record slot elapsed g =
     (if slot < 0 \<or> PERF_NUM_SLOTS \<le> slot then g else if elapsed < 0 then g
      else g[nat slot := add_sample elapsed (g ! nat slot)])"

definition mvsprf_get_stat :: "int \<Rightarrow> mvsprf_stat_t list \<Rightarrow> mvsprf_stat_t option" where
  "mvsprf_get_stat slot g = (if slot < 0 \<or> PERF_NUM_SLOTS \<le> slot then None else Some (g ! nat slot))"

section \<open>The table\<close>

definition perf_row :: "bytes \<Rightarrow> bytes \<Rightarrow> bytes \<Rightarrow> bytes \<Rightarrow> bytes \<Rightarrow> bytes \<Rightarrow> bytes" where
  "perf_row a b c d e f =
     ebc ''perf: '' @ fmt_left 16 a @ ebc '' '' @ fmt_right 8 b @ ebc '' '' @ fmt_right 12 c @ ebc '' '' @ fmt_right 10 d @
     ebc '' '' @ fmt_right 10 e @ ebc '' '' @ fmt_right 10 f"

definition perf_rule :: bytes where
  "perf_rule = perf_row (ebc ''----------------'') (ebc ''--------'') (ebc ''------------'') (ebc ''----------'')
     (ebc ''----------'') (ebc ''----------'')"

definition perf_values :: "u32 \<Rightarrow> int \<Rightarrow> mvsprf_stat_t \<Rightarrow> u32 \<times> u32 \<times> u32 \<times> u32" where
  "perf_values cps i st =
     (let conv = (if slot_is_ms i then of_int else ticks_to_ms cps);
          total_ms = conv (st_total st)
      in (total_ms, if 0 < st_count st then total_ms div st_count st else 0, conv (st_min st), conv (st_max st)))"

definition perf_line :: "u32 \<Rightarrow> int \<Rightarrow> mvsprf_stat_t \<Rightarrow> bytes" where
  "perf_line cps i st =
     (let (t, a, mn, mx) = perf_values cps i st; u = (\<lambda>x. dec (unat (x :: u32)))
      in perf_row (st_name st) (u (st_count st)) (u t) (u a) (u mn) (u mx))"

definition mvsprf_dump :: "u32 \<Rightarrow> int \<Rightarrow> mvsprf_stat_t list \<Rightarrow> log_state \<Rightarrow> log_state" where
  "mvsprf_dump cps now g s =
     (if \<not> list_ex (\<lambda>st. 0 < st_count st) g
      then logmsg_info (ebc ''NFSST010I'') now (ebc ''perf: no statistics recorded'') s
      else
        let s1 = logmsg_info (ebc ''NFSST020I'') now (ebc ''perf: CLOCKS_PER_SEC = '' @ dec (unat cps)) s;
            s2 = logmsg_info (ebc ''NFSST030I'') now
                   (perf_row (ebc ''Slot'') (ebc ''Count'') (ebc ''Total(ms)'') (ebc ''Avg(ms)'') (ebc ''Min(ms)'') (ebc ''Max(ms)'')) s1;
            s3 = logmsg_info (ebc ''NFSST040I'') now perf_rule s2;
            s4 = fold (\<lambda>i s. if st_count (g ! i) = 0 then s
                   else logmsg_info (ebc ''NFSST050I'') now (perf_line cps (int i) (g ! i)) s) [0..<length g] s3
        in logmsg_info (ebc ''NFSST060I'') now perf_rule s4)"

section \<open>Commands\<close>

definition handle_stats_reset :: "int \<Rightarrow> mvsprf_stat_t list \<times> log_state \<Rightarrow> int \<times> mvsprf_stat_t list \<times> log_state" where
  "handle_stats_reset now gs =
     (let (g, s) = gs; saved_log_level = log_get_level s; saved_wto_level = log_get_wto_level s;
          s1 = log_set_wto_level LOG_INFO (log_set_level LOG_INFO s);
          s2 = logmsg_info (ebc ''NFSST070I'') now (ebc ''mvsprf: Statistics have been reset'') s1
      in (0, mvsprf_init, log_set_wto_level saved_wto_level (log_set_level saved_log_level s2)))"

definition handle_stats_list :: "u32 \<Rightarrow> int \<Rightarrow> mvsprf_stat_t list \<times> log_state \<Rightarrow> int \<times> mvsprf_stat_t list \<times> log_state" where
  "handle_stats_list cps now gs =
     (let (g, s) = gs; saved_log_level = log_get_level s; saved_wto_level = log_get_wto_level s;
          s1 = log_set_wto_level LOG_INFO (log_set_level LOG_INFO s);
          s2 = mvsprf_dump cps now g s1
      in (0, g, log_set_wto_level saved_wto_level (log_set_level saved_log_level s2)))"

definition mvsprf_handle_modify ::
  "u32 \<Rightarrow> int \<Rightarrow> bytes option \<Rightarrow> mvsprf_stat_t list \<times> log_state \<Rightarrow> int \<times> mvsprf_stat_t list \<times> log_state" where
  "mvsprf_handle_modify cps now cmd gs =
     (case cmd of
        None \<Rightarrow> (1, gs)
      | Some c \<Rightarrow>
          let (tok, p) = scan_token (skip_blanks c) 24 in
          if tok \<noteq> ebc ''STATS'' then (1, gs)
          else
            let (tok2, p2) = scan_token (skip_blanks p) 24 in
            if tok2 = ebc ''LIST'' then handle_stats_list cps now gs
            else if tok2 = ebc ''RESET'' then handle_stats_reset now gs
            else (1, gs))"

section \<open>The statistics are those of the samples\<close>

text \<open>The samples of a slot among all calls, and what its statistics should be.\<close>

definition samples_of :: "int \<Rightarrow> (int \<times> int) list \<Rightarrow> int list" where
  "samples_of slot ss = map snd (filter (\<lambda>(k, e). k = slot \<and> 0 \<le> e) ss)"

definition stat_of_samples :: "bytes \<Rightarrow> int list \<Rightarrow> mvsprf_stat_t" where
  "stat_of_samples n vs = \<lparr>st_name = n, st_count = of_nat (length vs), st_total = sum_list vs,
     st_min = (if vs = [] then 0 else Min (set vs)), st_max = (if vs = [] then 0 else Max (set vs))\<rparr>"

lemma add_sample_step:
  assumes "\<forall>v \<in> set vs. 0 \<le> v" and "0 \<le> e" and "sum_list vs + e < 2 ^ 31" and "length vs < 2 ^ 32"
  shows "add_sample e (stat_of_samples n vs) = stat_of_samples n (vs @ [e])"
proof -
  have t: "to_i32 (sum_list vs + e) = sum_list vs + e"
    using assms sum_list_nonneg [of vs] by (intro to_i32_id) auto
  have "unat (of_nat (length vs) :: u32) = length vs" using assms(4) by (simp add: unat_of_nat)
  then have c: "(of_nat (length vs) :: u32) = 0 \<longleftrightarrow> vs = []"
    using unat_eq_zero [of "of_nat (length vs) :: u32"] by (cases vs) (simp_all del: unat_eq_zero)
  show ?thesis
  proof (cases "vs = []")
    case True
    then show ?thesis using t assms(2) by (auto simp: add_sample_def stat_of_samples_def Let_def)
  next
    case False
    have nz: "(of_nat (length vs) :: u32) \<noteq> 0" using c False by blast
    define mn mx where m: "mn = Min (set vs)" "mx = Max (set vs)"
    have "stat_of_samples n vs = \<lparr>st_name = n, st_count = of_nat (length vs), st_total = sum_list vs, st_min = mn, st_max = mx\<rparr>"
      using False by (simp add: stat_of_samples_def m)
    moreover have "stat_of_samples n (vs @ [e]) =
        \<lparr>st_name = n, st_count = of_nat (length vs) + 1, st_total = sum_list vs + e, st_min = min e mn, st_max = max e mx\<rparr>"
      using False by (simp add: stat_of_samples_def m)
    ultimately show ?thesis using nz t by (simp add: add_sample_def Let_def min_def max_def)
  qed
qed

lemma samples_snoc: "samples_of slot (ss @ [(k, e)]) = samples_of slot ss @ (if k = slot \<and> 0 \<le> e then [e] else [])"
  by (simp add: samples_of_def)

lemma samples_nonneg: "\<forall>v \<in> set (samples_of slot ss). 0 \<le> v"
  by (auto simp: samples_of_def)

lemma record_nth:
  assumes "0 \<le> slot" and "slot < PERF_NUM_SLOTS" and "length g = nat PERF_NUM_SLOTS"
  shows "mvsprf_record k e g ! nat slot = (if k = slot \<and> 0 \<le> e then add_sample e (g ! nat slot) else g ! nat slot)"
    and "length (mvsprf_record k e g) = length g"
  using assms by (auto simp: mvsprf_record_def nth_list_update nat_eq_iff)

text \<open>
  The statistics are those of the samples. From the start or a reset on, whatever samples
  were recorded in whatever slots, those of a slot are the number, the sum, the smallest and the
  largest of the samples recorded there that are not negative, as long as their sum and their
  number fit their 32 bits.
\<close>
theorem stats_exact:
  assumes "0 \<le> slot" and "slot < PERF_NUM_SLOTS" and "sum_list (samples_of slot ss) < 2 ^ 31" and "length (samples_of slot ss) \<le> 2 ^ 32"
  shows "mvsprf_get_stat slot (fold (\<lambda>(k, e). mvsprf_record k e) ss mvsprf_init) =
    Some (stat_of_samples (g_names ! nat slot) (samples_of slot ss))"
proof -
  let ?f = "\<lambda>ss. fold (\<lambda>(k, e). mvsprf_record k e) ss mvsprf_init"
  have "length (?f ss) = nat PERF_NUM_SLOTS \<and> ?f ss ! nat slot = stat_of_samples (g_names ! nat slot) (samples_of slot ss)"
    using assms(3,4)
  proof (induction ss rule: rev_induct)
    case Nil
    have "length g_names = nat PERF_NUM_SLOTS" by (simp add: g_names_def perf_consts)
    then show ?case using assms(1,2) by (simp add: mvsprf_init_def stat_of_samples_def samples_of_def)
  next
    case (snoc x ss)
    obtain k e where x: "x = (k, e)" by (cases x)
    have s: "sum_list (samples_of slot ss) \<le> sum_list (samples_of slot (ss @ [x]))" "length (samples_of slot ss) \<le> length (samples_of slot (ss @ [x]))"
      unfolding x samples_snoc by simp_all
    have ih: "length (?f ss) = nat PERF_NUM_SLOTS" "?f ss ! nat slot = stat_of_samples (g_names ! nat slot) (samples_of slot ss)"
      using snoc.IH snoc.prems s by auto
    have "add_sample e (stat_of_samples (g_names ! nat slot) (samples_of slot ss)) = stat_of_samples (g_names ! nat slot) (samples_of slot ss @ [e])"
      if "k = slot" "0 \<le> e"
      using add_sample_step [OF samples_nonneg that(2)] snoc.prems that unfolding x samples_snoc by simp
    then show ?case using record_nth [OF assms(1,2) ih(1), of k e] ih x by (simp add: samples_snoc)
  qed
  then show ?thesis using assms(1,2) by (simp add: mvsprf_get_stat_def)
qed

theorem stats_exact_witness:
  "mvsprf_get_stat 4 (fold (\<lambda>(k, e). mvsprf_record k e) [(4, 7), (5, 1), (4, -3), (4, 2)] mvsprf_init) =
     Some \<lparr>st_name = ebc ''NFS3_READ'', st_count = 2, st_total = 9, st_min = 2, st_max = 7\<rparr>"
  using stats_exact [of 4 "[(4, 7), (5, 1), (4, -3), (4, 2)]"]
  by (simp add: samples_of_def stat_of_samples_def perf_consts g_names_def)

section \<open>The commands keep the thresholds\<close>

lemma thresholds_set: "thresholds (log_set_wto_level w (log_set_level l s)) = (l, w, g_proc_level s)"
  by (simp add: thresholds_def log_set_level_def log_set_wto_level_def)

lemma dump_thresholds: "thresholds (mvsprf_dump cps now g s) = thresholds s"
proof -
  have "thresholds (fold (\<lambda>i s. if st_count (g ! i) = 0 then s else logmsg_info (ebc ''NFSST050I'') now (perf_line cps (int i) (g ! i)) s) xs s)
      = thresholds s" for xs s
    by (induction xs arbitrary: s) auto
  then show ?thesis by (simp add: mvsprf_dump_def Let_def)
qed

lemma stats_commands_thresholds:
  "thresholds (snd (snd (mvsprf_handle_modify cps now cmd (g, s)))) = thresholds s"
proof -
  have "g_proc_level t = snd (snd (thresholds t))" for t by (simp add: thresholds_def)
  then show ?thesis
    using dump_thresholds [of cps now g "log_set_wto_level LOG_INFO (log_set_level LOG_INFO s)"]
    by (auto simp: mvsprf_handle_modify_def handle_stats_list_def handle_stats_reset_def Let_def split_def
        thresholds_set log_get_level_def log_get_wto_level_def split: option.split) (simp_all add: thresholds_def)
qed

end
