(* ===== verification/Operator.thy ===== *)
theory Operator
  imports Perf Service
begin

text \<open>
  Where the server meets its log and its statistics: the operator's commands,
  \<^verbatim>\<open>process_operator_command\<close> of \<^verbatim>\<open>src/src/nfsd.c\<close>, in full, and what the dispatch of
  \<^verbatim>\<open>src/src/nfs3.c\<close> does around a procedure. The command that the console delivers is a
  parameter: the kind, two for a stop and one for a modify, and the text.
\<close>

section \<open>Commands\<close>

definition operator_command ::
  "u32 \<Rightarrow> int \<Rightarrow> int \<Rightarrow> bytes \<Rightarrow> mvsprf_stat_t list \<times> log_state \<Rightarrow> int \<times> mvsprf_stat_t list \<times> log_state" where
  "operator_command cps now cib_rc modify_buf gs =
     (let (g, s) = gs in
      if cib_rc = 2 then
        (2, g, logmsg_info (ebc ''NFSDM060I'') now (ebc ''MVS STOP command received, shutting down'')
                 (log_set_wto_level LOG_INFO (log_set_level LOG_INFO s)))
      else if cib_rc = 1 then
        if modify_buf \<noteq> [] then
          let cmd = cstr modify_buf; (handle_rc, s1) = log_handle_modify now (Some cmd) s in
          if handle_rc \<le> 0 then (0, g, s1)
          else
            let (handle_rc2, g2, s2) = mvsprf_handle_modify cps now (Some cmd) (g, s1) in
            if handle_rc2 = 1
            then (0, g2, logmsg_warn (ebc ''NFSDM070W'') now (ebc ''MVS MODIFY ignored (unrecognised): '' @ cmd) s2)
            else (0, g2, s2)
        else (0, g, logmsg_error (ebc ''NFSDM080E'') now (ebc ''MVS MODIFY received (no data)'') s)
      else (0, g, s))"

text \<open>The answer is the one the event loop acts on.\<close>

lemma operator_refines: "fst (operator_command cps now (e_cib env) text gs) = process_operator_command env"
  by (simp add: operator_command_def process_operator_command_def Let_def split: prod.split)

lemma modify_rc: "log_handle_modify now cmd s = (rc, s') \<Longrightarrow> rc \<in> {0, -1, 1} \<and> (rc = 1 \<longrightarrow> s' = s)"
  by (auto simp: log_handle_modify_def handle_set_loglvl_def handle_set_wtolvl_def Let_def
      split: option.splits prod.splits if_splits list.splits)

lemma stats_change: "mvsprf_handle_modify cps now cmd (g, s) = (rc, g', s') \<Longrightarrow> g' = g \<or> g' = mvsprf_init"
  by (auto simp: mvsprf_handle_modify_def handle_stats_list_def handle_stats_reset_def Let_def
      split: option.splits prod.splits if_splits)

lemma thresholds_warn [simp]: "thresholds (logmsg_warn i now t s) = thresholds s"
  by (simp add: thresholds_def logmsg_warn_def vlog_msg_def Let_def)

text \<open>
  What a modify command can do. It never stops the server. Either it is a command of the log,
  and then it has the effect of that command and leaves the statistics alone; or it is not, and
  then no threshold changes, and the statistics are as they were or freshly reset.
\<close>
theorem modify_confined:
  assumes "operator_command cps now 1 text (g, s) = (rc, g', s')" and "log_handle_modify now (Some (cstr text)) s = (h, t)"
  shows "rc = 0 \<and> (text \<noteq> [] \<and> h \<le> 0 \<longrightarrow> g' = g \<and> s' = t) \<and>
    (text = [] \<or> 0 < h \<longrightarrow> thresholds s' = thresholds s \<and> (g' = g \<or> g' = mvsprf_init))"
proof -
  obtain h2 g2 s2 where m: "mvsprf_handle_modify cps now (Some (cstr text)) (g, t) = (h2, g2, s2)" by (metis surj_pair)
  have "thresholds s2 = thresholds t" using stats_commands_thresholds [of cps now "Some (cstr text)" g t] m by simp
  moreover have "0 < h \<longrightarrow> t = s" using modify_rc [OF assms(2)] by auto
  ultimately show ?thesis using assms m stats_change [OF m]
    by (auto simp: operator_command_def Let_def split: if_splits)
qed

theorem modify_confined_witness:
  "\<exists>rc g' s'. operator_command 100 0 1 (ebc ''SET LOGLVL WARN'') (mvsprf_init, log_start) = (rc, g', s') \<and> rc = 0 \<and> g' = mvsprf_init \<and>
     g_log_level s' = LOG_WARN"
proof -
  have z: "cstr (ebc ''SET LOGLVL WARN'') = ebc ''SET LOGLVL WARN''" "ebc ''SET LOGLVL WARN'' \<noteq> []" by code_simp+
  have "fst (log_handle_modify 0 (Some (ebc ''SET LOGLVL WARN'')) log_start) = 0"
    "g_log_level (snd (log_handle_modify 0 (Some (ebc ''SET LOGLVL WARN'')) log_start)) = LOG_WARN"
    by code_simp+
  then obtain t where h: "log_handle_modify 0 (Some (ebc ''SET LOGLVL WARN'')) log_start = (0, t)" "g_log_level t = LOG_WARN"
    by (metis prod.collapse)
  obtain rc g' s' where o: "operator_command 100 0 1 (ebc ''SET LOGLVL WARN'') (mvsprf_init, log_start) = (rc, g', s')"
    by (metis surj_pair)
  show ?thesis using modify_confined [OF o, of 0 t] h z o by auto
qed

section \<open>Around a procedure\<close>

text \<open>The slots of a procedure number for the statistics and for the log; -1 where there is none.\<close>

definition nfs3_slots :: "u32 \<Rightarrow> int \<times> int" where
  "nfs3_slots p =
     (if p = NFS3PROC_GETATTR then (0, proc_ord LOG_PROC_GETATTR)
      else if p = NFS3PROC_SETATTR then (1, proc_ord LOG_PROC_SETATTR)
      else if p = NFS3PROC_LOOKUP then (2, proc_ord LOG_PROC_LOOKUP)
      else if p = NFS3PROC_ACCESS then (3, proc_ord LOG_PROC_ACCESS)
      else if p = NFS3PROC_READ then (4, proc_ord LOG_PROC_READ)
      else if p = NFS3PROC_WRITE then (5, proc_ord LOG_PROC_WRITE)
      else if p = NFS3PROC_CREATE then (6, proc_ord LOG_PROC_CREATE)
      else if p = NFS3PROC_REMOVE then (7, proc_ord LOG_PROC_REMOVE)
      else if p = NFS3PROC_RENAME then (8, proc_ord LOG_PROC_RENAME)
      else if p = NFS3PROC_READDIR then (9, proc_ord LOG_PROC_READDIR)
      else if p = NFS3PROC_READDIRPLUS then (10, proc_ord LOG_PROC_READDIRPLUS)
      else if p = NFS3PROC_FSSTAT then (11, proc_ord LOG_PROC_FSSTAT)
      else if p = NFS3PROC_FSINFO then (12, proc_ord LOG_PROC_FSINFO)
      else if p = NFS3PROC_PATHCONF then (13, proc_ord LOG_PROC_PATHCONF)
      else if p = NFS3PROC_COMMIT then (14, proc_ord LOG_PROC_COMMIT)
      else if p = NFS3PROC_NULL then (-1, proc_ord LOG_PROC_NULL)
      else (-1, -1))"

text \<open>The procedure's own messages are the function \<open>body\<close> on the log.\<close>

definition nfs3_scope ::
  "u32 \<Rightarrow> int \<Rightarrow> (log_state \<Rightarrow> log_state) \<Rightarrow> mvsprf_stat_t list \<times> log_state \<Rightarrow> mvsprf_stat_t list \<times> log_state" where
  "nfs3_scope p elapsed body gs =
     (let (g, s) = gs; (perf_slot, log_slot) = nfs3_slots p; saved_level = log_get_level s;
          s1 = log_set_level (log_proc_get_level log_slot s) s;
          s2 = body s1
      in (if 0 \<le> perf_slot then mvsprf_record perf_slot elapsed g else g, log_set_level saved_level s2))"

lemma scope_level: "g_log_level (snd (nfs3_scope p elapsed body (g, s))) = g_log_level s"
  by (simp add: nfs3_scope_def Let_def log_set_level_def log_get_level_def split: prod.split)

lemma slots_range: "nfs3_slots p = (a, b) \<Longrightarrow> a < PERF_NUM_SLOTS \<and> b < LOG_PROC_COUNT"
  by (auto simp: nfs3_slots_def proc_ord_def perf_consts log_consts split: if_splits)

end
