(* ===== verification/Mlist.thy ===== *)
theory Mlist
  imports Pdirlook "HOL-Library.Sublist"
begin

text \<open>
  The growable array of member entries, \<^verbatim>\<open>src/src/mvspdir.c\<close>, and the directory reader that
  appends to it. \<^verbatim>\<open>Pdir\<close> states what the reader finds as a list; here the array, its capacity
  and the allocations that can fail are explicit, and the reader with the array is shown to
  refine the one with the list. An allocation takes its outcome from a script: a failure, or
  the arbitrary contents of new storage. \<^verbatim>\<open>NULL\<close> is the empty array.
\<close>

section \<open>The contract\<close>

text \<open>What a reader needs of a container: an element is appended, or there is an error and nothing changes.\<close>

locale growable =
  fixes inv :: "'s \<Rightarrow> bool" and held :: "'s \<Rightarrow> 'e list" and put :: "'e \<Rightarrow> 's \<Rightarrow> errno_t option \<times> 's"
  assumes put_inv: "inv s \<Longrightarrow> put e s = (r, s') \<Longrightarrow> inv s'"
    and put_held: "inv s \<Longrightarrow> put e s = (r, s') \<Longrightarrow> held s' = held s @ (if r = None then [e] else [])"
begin

fun put_all :: "'e list \<Rightarrow> 's \<Rightarrow> errno_t option \<times> 's" where
  "put_all [] s = (None, s)"
| "put_all (e # es) s = (case put e s of (None, s') \<Rightarrow> put_all es s' | (Some err, s') \<Rightarrow> (Some err, s'))"

lemma put_all_append: "put_all (as @ bs) s = (case put_all as s of (None, s') \<Rightarrow> put_all bs s' | (Some err, s') \<Rightarrow> (Some err, s'))"
  by (induction as arbitrary: s) (auto split: prod.splits option.splits)

lemma put_all_prefix:
  assumes "put_all es s = (r, s')" and "inv s"
  shows "inv s' \<and> (\<exists>ds. prefix ds es \<and> held s' = held s @ ds \<and> (r = None \<longleftrightarrow> ds = es))"
  using assms
proof (induction es arbitrary: s)
  case (Cons e es)
  obtain r1 s1 where p: "put e s = (r1, s1)" by (metis surj_pair)
  note i = put_inv [OF Cons.prems(2) p] and h = put_held [OF Cons.prems(2) p]
  show ?case
  proof (cases r1)
    case None
    then obtain ds where ds: "inv s'" "prefix ds es" "held s' = held s1 @ ds" "r = None \<longleftrightarrow> ds = es"
      using Cons.IH [of s1] Cons.prems(1) p i by auto
    then show ?thesis using h None by (intro conjI exI [of _ "e # ds"]) auto
  next
    case (Some err)
    then show ?thesis using Cons.prems(1) p i h by (intro conjI exI [of _ "[]"]) auto
  qed
qed simp

end

section \<open>The array\<close>

definition MVSPDIR_MLIST_INITIAL_SIZE :: nat where "MVSPDIR_MLIST_INITIAL_SIZE = 40"
definition MVSPDIR_MLIST_INCREMENT_SIZE :: nat where "MVSPDIR_MLIST_INCREMENT_SIZE = 40"

record pds_member_list_t =
  list_size :: nat
  number_in_list :: nat
  ml_list :: "pds_member_entry_t list"

definition mlist_null :: pds_member_list_t where
  "mlist_null = \<lparr>list_size = 0, number_in_list = 0, ml_list = []\<rparr>"

type_synonym allocs = "(nat \<Rightarrow> pds_member_entry_t) option list"

text \<open>\<^verbatim>\<open>realloc\<close> to a number of entries; from \<^verbatim>\<open>NULL\<close> it is \<^verbatim>\<open>malloc\<close>. The script spent, it succeeds.\<close>

definition ml_realloc :: "pds_member_entry_t list \<Rightarrow> nat \<Rightarrow> allocs \<Rightarrow> pds_member_entry_t list option \<times> allocs" where
  "ml_realloc xs n q =
     (map_option (\<lambda>new. map (\<lambda>i. if i < length xs then xs ! i else new i) [0..<n])
        (case q of [] \<Rightarrow> Some (\<lambda>_. mvs_pds_member_entry_init) | a # _ \<Rightarrow> a), tl q)"

definition mvspdir_mlist_init :: "allocs \<Rightarrow> errno_t option \<times> pds_member_list_t \<times> allocs" where
  "mvspdir_mlist_init q =
     (case ml_realloc [] MVSPDIR_MLIST_INITIAL_SIZE q of
        (None, q') \<Rightarrow> (Some ENOMEM, mlist_null, q')
      | (Some xs, q') \<Rightarrow> (None, mlist_null\<lparr>ml_list := xs, list_size := MVSPDIR_MLIST_INITIAL_SIZE\<rparr>, q'))"

definition mvspdir_mlist_expand :: "pds_member_list_t \<times> allocs \<Rightarrow> errno_t option \<times> pds_member_list_t \<times> allocs" where
  "mvspdir_mlist_expand s =
     (let (l, q) = s; new_size = list_size l + MVSPDIR_MLIST_INCREMENT_SIZE in
      case ml_realloc (ml_list l) new_size q of
        (None, q') \<Rightarrow> (Some ENOMEM, l, q')
      | (Some xs, q') \<Rightarrow> (None, l\<lparr>ml_list := xs, list_size := new_size\<rparr>, q'))"

text \<open>The index of the reserved entry.\<close>

definition mvspdir_mlist_getfree :: "pds_member_list_t \<times> allocs \<Rightarrow> (errno_t + nat) \<times> pds_member_list_t \<times> allocs" where
  "mvspdir_mlist_getfree s =
     (let (e, l, q) = (if list_size (fst s) \<le> number_in_list (fst s) then mvspdir_mlist_expand s else (None, s)) in
      case e of
        Some err \<Rightarrow> (Inl err, l, q)
      | None \<Rightarrow>
          let i = number_in_list l
          in (Inr i, l\<lparr>number_in_list := i + 1, ml_list := (ml_list l)[i := mvs_pds_member_entry_init]\<rparr>, q))"

definition mvspdir_mlist_setaslast ::
  "pds_member_entry_t \<Rightarrow> pds_member_list_t \<times> allocs \<Rightarrow> errno_t option \<times> pds_member_list_t \<times> allocs" where
  "mvspdir_mlist_setaslast e s =
     (case mvspdir_mlist_getfree s of
        (Inl err, s') \<Rightarrow> (Some err, s')
      | (Inr i, l, q) \<Rightarrow> (None, l\<lparr>ml_list := (ml_list l)[i := e]\<rparr>, q))"

definition mvspdir_mlist_shrink :: "pds_member_list_t \<times> allocs \<Rightarrow> errno_t option \<times> pds_member_list_t \<times> allocs" where
  "mvspdir_mlist_shrink s =
     (let (l, q) = s in
      if number_in_list l = 0 then (None, mlist_null, q)
      else case ml_realloc (ml_list l) (number_in_list l) q of
          (None, q') \<Rightarrow> (Some ENOMEM, l, q')
        | (Some xs, q') \<Rightarrow> (None, l\<lparr>ml_list := xs, list_size := number_in_list l\<rparr>, q'))"

definition mvspdir_mlist_free :: "pds_member_list_t \<Rightarrow> pds_member_list_t" where
  "mvspdir_mlist_free l = mlist_null"

section \<open>The invariant and the entries held\<close>

definition mlist_inv :: "pds_member_list_t \<times> allocs \<Rightarrow> bool" where
  "mlist_inv s \<longleftrightarrow> number_in_list (fst s) \<le> list_size (fst s) \<and> length (ml_list (fst s)) = list_size (fst s)"

definition mlist_entries :: "pds_member_list_t \<times> allocs \<Rightarrow> pds_member_entry_t list" where
  "mlist_entries s = take (number_in_list (fst s)) (ml_list (fst s))"

lemma realloc_Some: "ml_realloc xs n q = (Some ys, q') \<Longrightarrow> length ys = n \<and> (\<forall>k \<le> min n (length xs). take k ys = take k xs)"
  by (auto simp: ml_realloc_def intro!: nth_equalityI split: list.splits)

lemma expand_ok:
  assumes "mvspdir_mlist_expand s = (e, s')" and "mlist_inv s"
  shows "mlist_inv s' \<and> mlist_entries s' = mlist_entries s \<and> number_in_list (fst s') = number_in_list (fst s) \<and>
    (e = None \<longrightarrow> list_size (fst s') = list_size (fst s) + 40)"
  using assms
  by (cases s) (auto simp: mvspdir_mlist_expand_def mlist_inv_def mlist_entries_def Let_def MVSPDIR_MLIST_INCREMENT_SIZE_def
      split: prod.splits option.splits dest!: realloc_Some)

lemma setaslast_ok:
  assumes "mvspdir_mlist_setaslast e s = (r, s')" and inv: "mlist_inv s"
  shows "mlist_inv s' \<and> mlist_entries s' = mlist_entries s @ (if r = None then [e] else [])"
proof -
  let ?full = "list_size (fst s) \<le> number_in_list (fst s)"
  obtain x s1 where x: "(if ?full then mvspdir_mlist_expand s else (None, s)) = (x, s1)" by (metis surj_pair)
  have 1: "mlist_inv s1" "mlist_entries s1 = mlist_entries s" "x = None \<longrightarrow> number_in_list (fst s1) < list_size (fst s1)"
    using x inv expand_ok [of s x s1] by (auto simp: mlist_inv_def split: if_splits)
  obtain l q where s1: "s1 = (l, q)" by (metis surj_pair)
  show ?thesis
    using assms(1) x 1 unfolding mvspdir_mlist_setaslast_def mvspdir_mlist_getfree_def s1
    by (auto simp: Let_def mlist_inv_def mlist_entries_def take_Suc_conv_app_nth split: option.splits)
qed

interpretation ml: growable mlist_inv mlist_entries mvspdir_mlist_setaslast
  by unfold_locales (use setaslast_ok in blast)+

text \<open>What happens to the script: the outcomes used up, and an error exactly when one of them was a failure.\<close>

definition outcomes :: "allocs \<Rightarrow> errno_t option \<Rightarrow> allocs \<Rightarrow> bool" where
  "outcomes q r q' \<longleftrightarrow> (\<exists>us. q = us @ q' \<and> r = (if None \<in> set us then Some ENOMEM else None))"

lemma realloc_script: "ml_realloc xs n q = (z, q') \<Longrightarrow> \<exists>us. q = us @ q' \<and> (z = None \<longleftrightarrow> None \<in> set us)"
  by (cases q) (auto simp: ml_realloc_def)

lemma setaslast_script: "mvspdir_mlist_setaslast e (l, q) = (r, l', q') \<Longrightarrow> outcomes q r q'"
  by (auto simp: mvspdir_mlist_setaslast_def mvspdir_mlist_getfree_def mvspdir_mlist_expand_def outcomes_def Let_def
      split: prod.splits option.splits sum.splits if_splits dest!: realloc_script intro: exI [of _ "[]"])

lemma put_all_script: "ml.put_all es (l, q) = (r, l', q') \<Longrightarrow> outcomes q r q'"
proof (induction es arbitrary: l q)
  case Nil
  then show ?case by (simp add: outcomes_def)
next
  case (Cons e es)
  obtain r1 l1 q1 where p: "mvspdir_mlist_setaslast e (l, q) = (r1, l1, q1)" by (metis prod_cases3)
  obtain us where us: "q = us @ q1" "r1 = (if None \<in> set us then Some ENOMEM else None)"
    using setaslast_script [OF p] by (auto simp: outcomes_def)
  show ?case
  proof (cases r1)
    case None
    then have "outcomes q1 r q'" using Cons p by simp
    then obtain vs where "q1 = vs @ q'" "r = (if None \<in> set vs then Some ENOMEM else None)" by (auto simp: outcomes_def)
    then show ?thesis using us None unfolding outcomes_def by (intro exI [of _ "us @ vs"]) (auto split: if_splits)
  next
    case (Some err)
    then show ?thesis using Cons.prems p us by (auto simp: outcomes_def split: if_splits)
  qed
qed

lemma shrink_ok:
  assumes "mvspdir_mlist_shrink s = (e, s')" and "mlist_inv s"
  shows "mlist_inv s' \<and> mlist_entries s' = mlist_entries s \<and> (e = None \<longrightarrow> list_size (fst s') = length (mlist_entries s))"
  using assms
  by (cases s) (auto simp: mvspdir_mlist_shrink_def mlist_inv_def mlist_entries_def mlist_null_def Let_def
      split: prod.splits option.splits if_splits dest!: realloc_Some)

lemma init_ok: "mvspdir_mlist_init q = (e, s) \<Longrightarrow> mlist_inv s \<and> mlist_entries s = []"
  by (auto simp: mvspdir_mlist_init_def mlist_inv_def mlist_entries_def mlist_null_def
      split: prod.splits option.splits dest!: realloc_Some)

section \<open>Reading the directory into the array\<close>

text \<open>The length of the entry at \<open>pos\<close>, which has been appended, or the error.\<close>

definition mvs_extract_dir_entry ::
  "int \<Rightarrow> int \<Rightarrow> bytes \<Rightarrow> nat \<Rightarrow> pds_member_list_t \<times> allocs \<Rightarrow> (errno_t + nat) \<times> pds_member_list_t \<times> allocs" where
  "mvs_extract_dir_entry tz now blk pos s =
     (case mvspdir_mlist_getfree s of
        (Inl err, s') \<Rightarrow> (Inl err, s')
      | (Inr i, l, q) \<Rightarrow>
          let (e, n) = mvs_pds_member_entry_set tz now blk pos
          in (Inr n, l\<lparr>ml_list := (ml_list l)[i := e]\<rparr>, q))"

lemma extract_setaslast:
  "mvs_extract_dir_entry tz now blk pos s =
     (case mvspdir_mlist_setaslast (fst (mvs_pds_member_entry_set tz now blk pos)) s of
        (None, s') \<Rightarrow> (Inr (snd (mvs_pds_member_entry_set tz now blk pos)), s')
      | (Some err, s') \<Rightarrow> (Inl err, s'))"
  by (auto simp: mvs_extract_dir_entry_def mvspdir_mlist_setaslast_def Let_def split: prod.splits sum.splits)

text \<open>The error number when the list could not grow, whether the end mark was seen, and the list.\<close>

function dir_block_array ::
  "int \<Rightarrow> int \<Rightarrow> bytes \<Rightarrow> bytes \<Rightarrow> nat \<Rightarrow> nat \<Rightarrow> pds_member_list_t \<times> allocs \<Rightarrow> errno_t option \<times> bool \<times> pds_member_list_t \<times> allocs" where
  "dir_block_array tz now blk start blk_end pos s =
     (if pos < blk_end then
        (if mem_slice blk pos 8 = MVS_PDSDIR_ENDMARK then (None, True, s)
         else if \<not> bytes_less (mem_slice blk pos 8) start then
           (case mvs_extract_dir_entry tz now blk pos s of
              (Inl err, s') \<Rightarrow> (Some err, False, s')
            | (Inr n, s') \<Rightarrow> dir_block_array tz now blk start blk_end (pos + n) s')
         else dir_block_array tz now blk start blk_end (pos + mvs_skip_dir_entry blk pos) s)
      else (None, False, s))"
  by pat_completeness auto
termination
  by (relation "measure (\<lambda>(tz, now, blk, start, blk_end, pos, s). blk_end - pos)")
     (auto simp: mvs_extract_dir_entry_def mvs_pds_member_entry_set_def mvs_skip_dir_entry_def Let_def
       split: prod.splits sum.splits)

declare dir_block_array.simps [simp del]

definition process_dir_block_array ::
  "int \<Rightarrow> int \<Rightarrow> bytes \<Rightarrow> bytes \<Rightarrow> pds_member_list_t \<times> allocs \<Rightarrow> errno_t option \<times> bool \<times> pds_member_list_t \<times> allocs" where
  "process_dir_block_array tz now blk start s = dir_block_array tz now blk start (unat (be16_at blk 0)) 2 s"

fun read_pds_dir_array ::
  "int \<Rightarrow> int \<Rightarrow> bytes \<Rightarrow> bytes list \<Rightarrow> pds_member_list_t \<times> allocs \<Rightarrow> errno_t option \<times> bool \<times> pds_member_list_t \<times> allocs" where
  "read_pds_dir_array tz now start [] s = (None, False, s)"
| "read_pds_dir_array tz now start (blk # blks) s =
     (if length blk \<noteq> 256 then (None, False, s)
      else let (rc, eod, s') = process_dir_block_array tz now blk start s in
        if rc \<noteq> None then (rc, eod, s')
        else if eod then (None, True, s')
        else read_pds_dir_array tz now start blks s')"

lemma block_array:
  "dir_block_array tz now blk start blk_end pos s =
     (let (es, eod) = dir_block_loop tz now blk start blk_end pos; (r, s') = ml.put_all es s in (r, r = None \<and> eod, s'))"
proof (induction tz now blk start blk_end pos s rule: dir_block_array.induct)
  case (1 tz now blk start blk_end pos s)
  let ?m = "mem_slice blk pos 8"
  consider "\<not> pos < blk_end \<or> ?m = MVS_PDSDIR_ENDMARK" | "pos < blk_end" "?m \<noteq> MVS_PDSDIR_ENDMARK" "bytes_less ?m start"
    | "pos < blk_end" "?m \<noteq> MVS_PDSDIR_ENDMARK" "\<not> bytes_less ?m start" by blast
  then show ?case
  proof cases
    case 1
    then show ?thesis by (auto simp: dir_block_array.simps [of _ _ _ _ _ pos] dir_block_loop.simps [of _ _ _ _ _ pos])
  next
    case 2
    then show ?thesis using "1.IH"(2)
      by (simp add: dir_block_array.simps [of _ _ _ _ _ pos] dir_block_loop.simps [of _ _ _ _ _ pos])
  next
    case 3
    obtain e n where e: "mvs_pds_member_entry_set tz now blk pos = (e, n)" by (metis surj_pair)
    obtain r s1 where p: "mvspdir_mlist_setaslast e s = (r, s1)" by (metis surj_pair)
    have x: "mvs_extract_dir_entry tz now blk pos s = (case r of None \<Rightarrow> Inr n | Some err \<Rightarrow> Inl err, s1)"
      by (simp add: extract_setaslast e p split: option.split)
    show ?thesis using "1.IH"(1) [OF 3] 3 x p
      by (cases r) (simp_all add: dir_block_array.simps [of _ _ _ _ _ pos] dir_block_loop.simps [of _ _ _ _ _ pos] e
          Let_def split: prod.splits)
  qed
qed

lemma dir_array:
  "read_pds_dir_array tz now start blks s =
     (let (es, eod) = mvs_read_pds_dir tz now start blks; (r, s') = ml.put_all es s in (r, r = None \<and> eod, s'))"
proof (induction blks arbitrary: s)
  case (Cons blk blks)
  obtain es eod where b: "mvs_process_dir_block tz now blk start = (es, eod)" by (metis surj_pair)
  obtain r s1 where p: "ml.put_all es s = (r, s1)" by (metis surj_pair)
  have "process_dir_block_array tz now blk start s = (r, r = None \<and> eod, s1)"
    using b p by (simp add: process_dir_block_array_def mvs_process_dir_block_def block_array)
  then show ?case using Cons.IH [of s1] b p
    by (auto simp: ml.put_all_append Let_def split: prod.splits option.splits)
qed simp

text \<open>
  C21. Reading a directory into the growable array. Whatever the allocations answer, the array
  stays within its capacity and keeps what it held; what was appended are the first of the
  entries the directory holds from the starting member on, all of them, with the right answer
  to whether the end mark was seen, exactly when the reader reports success; it reports ENOMEM
  when one of the allocations it made failed, and success when none of them did.
\<close>
theorem read_dir_into_array:
  assumes "mlist_inv (l, q)" and "read_pds_dir_array tz now start blks (l, q) = (r, eod, l', q')"
  shows "mlist_inv (l', q') \<and> (\<exists>us. q = us @ q' \<and> r = (if None \<in> set us then Some ENOMEM else None)) \<and>
    (\<exists>ds. mlist_entries (l', q') = mlist_entries (l, q) @ ds \<and> prefix ds (fst (mvs_read_pds_dir tz now start blks)) \<and>
      (r = None \<longleftrightarrow> ds = fst (mvs_read_pds_dir tz now start blks)) \<and> (r = None \<longrightarrow> eod = snd (mvs_read_pds_dir tz now start blks)))"
proof -
  obtain es eo where d: "mvs_read_pds_dir tz now start blks = (es, eo)" by (metis surj_pair)
  have p: "ml.put_all es (l, q) = (r, l', q')" "eod = (r = None \<and> eo)" using assms(2) d by (auto simp: dir_array split: prod.splits)
  obtain ds where "mlist_inv (l', q')" "prefix ds es" "mlist_entries (l', q') = mlist_entries (l, q) @ ds" "r = None \<longleftrightarrow> ds = es"
    using ml.put_all_prefix [OF p(1) assms(1)] by blast
  then show ?thesis using p(2) d put_all_script [OF p(1), unfolded outcomes_def] by auto
qed

text \<open>A directory of one member, read into a list that has room and into a full one whose growth fails.\<close>

theorem read_dir_into_array_witness:
  "(\<exists>eod l' q'. read_pds_dir_array 0 0 (replicate 8 0) [sample_dir_block] (snd (mvspdir_mlist_init [])) = (None, eod, l', q') \<and>
     mlist_inv (l', q') \<and> mlist_entries (l', q') = fst (mvs_read_pds_dir 0 0 (replicate 8 0) [sample_dir_block])) \<and>
   (\<exists>eod l' q'. read_pds_dir_array 0 0 (replicate 8 0) [sample_dir_block] (mlist_null, [None]) = (Some ENOMEM, eod, l', q') \<and>
     mlist_entries (l', q') = [])"
proof
  obtain e l where i: "mvspdir_mlist_init [] = (e, l, [])" by (simp add: mvspdir_mlist_init_def ml_realloc_def)
  obtain r eod l' q' where r: "read_pds_dir_array 0 0 (replicate 8 0) [sample_dir_block] (l, []) = (r, eod, l', q')" by (metis prod_cases4)
  show "\<exists>eod l' q'. read_pds_dir_array 0 0 (replicate 8 0) [sample_dir_block] (snd (mvspdir_mlist_init [])) = (None, eod, l', q') \<and>
     mlist_inv (l', q') \<and> mlist_entries (l', q') = fst (mvs_read_pds_dir 0 0 (replicate 8 0) [sample_dir_block])"
    using read_dir_into_array [OF _ r] init_ok [OF i] i r by auto
  obtain r eod l' q' where r: "read_pds_dir_array 0 0 (replicate 8 0) [sample_dir_block] (mlist_null, [None]) = (r, eod, l', q')" by (metis prod_cases4)
  have z: "mlist_inv (mlist_null, [None])" "mlist_entries (mlist_null, [None]) = []" by (simp_all add: mlist_inv_def mlist_entries_def mlist_null_def)
  have "map me_name (fst (mvs_read_pds_dir 0 0 (replicate 8 0) [sample_dir_block])) = [[0xC1]]" by code_simp
  moreover have "fst (read_pds_dir_array 0 0 (replicate 8 0) [sample_dir_block] (mlist_null, [None])) = Some ENOMEM" by code_simp
  ultimately show "\<exists>eod l' q'. read_pds_dir_array 0 0 (replicate 8 0) [sample_dir_block] (mlist_null, [None]) = (Some ENOMEM, eod, l', q') \<and>
     mlist_entries (l', q') = []"
    using read_dir_into_array [OF z(1) r] z(2) r by (auto simp: prefix_Cons)
qed

end
