(* ===== verification/Hexdump.thy ===== *)
theory Hexdump
  imports Format
begin

text \<open>
  The hexadecimal dump, \<^verbatim>\<open>src/src/hexdump.c\<close>. Which characters can be printed is the run-time
  library's answer and a parameter. The local buffers are the texts they hold.
\<close>

definition dump_columns :: "(u8 \<Rightarrow> bytes) \<Rightarrow> bytes \<Rightarrow> bytes \<Rightarrow> bytes" where
  "dump_columns f fill bs =
     concat (map (\<lambda>i. (if i < length bs then f (bs ! i) else fill) @ (if i mod 4 = 3 \<and> i \<noteq> 15 then [ch_space] else [])) [0..<16])"

definition dump_char :: "(u8 \<Rightarrow> bool) \<Rightarrow> u8 \<Rightarrow> bytes" where
  "dump_char isprint c = [if isprint c then c else ch_dot]"

definition ch_dquote :: u8 where "ch_dquote = 0x7F"

text \<open>One line: up to sixteen bytes at an offset.\<close>

definition hexdump_line :: "(u8 \<Rightarrow> bool) \<Rightarrow> nat \<Rightarrow> bytes \<Rightarrow> bytes" where
  "hexdump_line isprint offset bs =
     (let hexbuf = dump_columns fmt_02X [ch_space, ch_space] bs;
          asciibuf = dump_columns (\<lambda>c. dump_char isprint (ascii_to_ebcdic_c c)) [] bs;
          ebcdicbuf = dump_columns (dump_char isprint) [] bs
      in fmt_08lX offset @ ebc ''  '' @ fmt_left 35 hexbuf @ ebc ''   '' @ [ch_dquote] @ fmt_left 19 asciibuf @ [ch_dquote] @
         ebc ''  '' @ [ch_dquote] @ fmt_left 19 ebcdicbuf @ [ch_dquote] @ [ch_nl])"

function hexdump_lines :: "(u8 \<Rightarrow> bool) \<Rightarrow> nat \<Rightarrow> bytes \<Rightarrow> bytes list" where
  "hexdump_lines isprint offset buf =
     (if offset < length buf
      then hexdump_line isprint offset (take 16 (drop offset buf)) # hexdump_lines isprint (offset + 16) buf
      else [])"
  by pat_completeness auto
termination by (relation "measure (\<lambda>(p, offset, buf). length buf - offset)") auto

declare hexdump_lines.simps [simp del]

definition hexdump :: "(u8 \<Rightarrow> bool) \<Rightarrow> bytes option \<Rightarrow> bytes \<Rightarrow> bytes" where
  "hexdump isprint header buf =
     (case header of Some h \<Rightarrow> if h \<noteq> [] then h @ [ch_nl] else [] | None \<Rightarrow> []) @
     ebc ''Offset    Hexadecimal data                       ASCII characters       EBCDIC characters'' @ [ch_nl] @
     concat (hexdump_lines isprint 0 buf)"

section \<open>The buffers are large enough and the dump can be read back\<close>

text \<open>The column of byte \<open>i\<close> in a text with \<open>w\<close> characters for each byte.\<close>

definition dump_column :: "nat \<Rightarrow> nat \<Rightarrow> nat" where
  "dump_column w i = w * i + i div 4"

definition dump_cell :: "(u8 \<Rightarrow> bytes) \<Rightarrow> bytes \<Rightarrow> bytes \<Rightarrow> nat \<Rightarrow> bytes" where
  "dump_cell f fill bs i = (if i < length bs then f (bs ! i) else fill) @ (if i mod 4 = 3 \<and> i \<noteq> 15 then [ch_space] else [])"

lemma columns_cells: "dump_columns f fill bs = concat (map (dump_cell f fill bs) [0..<16])"
  by (simp add: dump_columns_def dump_cell_def [abs_def])

lemma div_4_Suc: "Suc i div 4 = i div 4 + (if i mod 4 = 3 then 1 else 0)"
  by presburger

lemma cells_length:
  assumes "\<And>c. length (f c) = w" and "length fill = w"
  shows "i \<le> 15 \<Longrightarrow> length (concat (map (dump_cell f fill bs) [0..<i])) = dump_column w i"
proof (induction i)
  case (Suc i)
  then show ?case using assms by (simp add: dump_column_def dump_cell_def div_4_Suc algebra_simps)
qed (simp add: dump_column_def)

lemma cells_split: "i < 16 \<Longrightarrow> dump_columns f fill bs =
    concat (map (dump_cell f fill bs) [0..<i]) @ dump_cell f fill bs i @ concat (map (dump_cell f fill bs) [Suc i..<16])"
proof -
  assume "i < 16"
  then have "[0..<16] = [0..<i] @ i # [Suc i..<16]"
    using upt_add_eq_append [of 0 i "16 - i"] upt_conv_Cons [of i 16] by simp
  then show ?thesis unfolding columns_cells by simp
qed

lemma hex_columns_length: "length (dump_columns fmt_02X [ch_space, ch_space] bs) = 35"
  using cells_length [of fmt_02X 2 "[ch_space, ch_space]" 15 bs] cells_split [of 15 fmt_02X "[ch_space, ch_space]" bs]
  by (simp add: dump_column_def dump_cell_def fmt_02X_def)

lemma cells_bound:
  assumes "\<And>c. length (f c) = 1"
  shows "i \<le> 15 \<Longrightarrow> length (concat (map (dump_cell f [] bs) [0..<i])) \<le> dump_column 1 i"
proof (induction i)
  case (Suc i)
  then show ?case using assms by (simp add: dump_column_def dump_cell_def div_4_Suc)
qed (simp add: dump_column_def)

lemma char_columns_length:
  assumes "\<And>c. length (f c) = 1"
  shows "length (dump_columns f [] bs) \<le> 19"
  using cells_bound [of f 15 bs] cells_split [of 15 f "[]" bs] assms
  by (simp add: dump_column_def dump_cell_def)

lemma hex_columns_nth:
  assumes "i < length bs" and "i < 16"
  shows "take 2 (drop (dump_column 2 i) (dump_columns fmt_02X [ch_space, ch_space] bs)) = fmt_02X (bs ! i)"
proof -
  have "length (concat (map (dump_cell fmt_02X [ch_space, ch_space] bs) [0..<i])) = dump_column 2 i"
    using assms(2) by (intro cells_length) (simp_all add: fmt_02X_def)
  then show ?thesis using assms cells_split [OF assms(2), of fmt_02X "[ch_space, ch_space]" bs]
    by (simp add: dump_cell_def fmt_02X_def)
qed

text \<open>The line that holds a byte and the two digits of the byte in it.\<close>

lemma lines_nth: "o16 + 16 * j < length buf \<Longrightarrow>
    j < length (hexdump_lines p o16 buf) \<and>
    hexdump_lines p o16 buf ! j = hexdump_line p (o16 + 16 * j) (take 16 (drop (o16 + 16 * j) buf))"
proof (induction j arbitrary: o16)
  case 0
  then show ?case by (subst (1 2) hexdump_lines.simps) simp
next
  case (Suc j)
  then show ?case using Suc.IH [of "o16 + 16"] by (subst (1 2) hexdump_lines.simps) (simp add: algebra_simps)
qed

lemma line_layout:
  assumes "off < 2 ^ 32"
  shows "length (hexdump_line p off bs) = 93" and
    "drop 10 (hexdump_line p off bs) = dump_columns fmt_02X [ch_space, ch_space] bs @ drop 45 (hexdump_line p off bs)"
proof -
  have h: "length (fmt_08lX off) = 8" using hex_length [of off 7] assms by (simp add: fmt_08lX_def max_def)
  have l: "fmt_left 35 (dump_columns fmt_02X [ch_space, ch_space] bs) = dump_columns fmt_02X [ch_space, ch_space] bs"
    by (simp add: fmt_left_def hex_columns_length)
  have c: "length (dump_columns (\<lambda>c. dump_char p (g c)) [] bs) \<le> 19" for g
    by (rule char_columns_length) (simp add: dump_char_def)
  show "length (hexdump_line p off bs) = 93"
    using c [of ascii_to_ebcdic_c] c [of "\<lambda>c. c"] by (simp add: hexdump_line_def Let_def h hex_columns_length ebc_def)
  show "drop 10 (hexdump_line p off bs) = dump_columns fmt_02X [ch_space, ch_space] bs @ drop 45 (hexdump_line p off bs)"
    by (simp add: hexdump_line_def Let_def h l ebc_def hex_columns_length)
qed

text \<open>
  C35. The dump shows every byte, and its line buffers are large enough. Byte number \<open>k\<close> is on
  line number \<open>k div 16\<close>, in two hexadecimal digits at the column that belongs to it, and these
  give the byte back; all lines have 93 characters; the hexadecimal text of a line fits its
  buffer of 40 bytes, and the two character texts theirs of 21, with their terminators.
\<close>
theorem hexdump_readable:
  assumes "length buf < 2 ^ 32" and "k < length buf"
  shows "let line = hexdump_lines p 0 buf ! (k div 16); c = 10 + dump_column 2 (k mod 16)
    in k div 16 < length (hexdump_lines p 0 buf) \<and> length line = 93 \<and>
       16 * unhex (line ! c) + unhex (line ! (c + 1)) = unat (buf ! k) \<and>
       length (dump_columns fmt_02X [ch_space, ch_space] bs) < 40 \<and>
       length (dump_columns (dump_char p) [] bs) < 21 \<and> length (dump_columns (\<lambda>x. dump_char p (ascii_to_ebcdic_c x)) [] bs) < 21"
proof -
  let ?off = "16 * (k div 16)" and ?i = "k mod 16"
  let ?b = "take 16 (drop ?off buf)" and ?c = "dump_column 2 (k mod 16)"
  have k: "?off + ?i = k" "?i < 16" by simp_all
  then have "?off < length buf" "?i < length ?b" "?b ! ?i = buf ! k" using assms(2) by (auto simp: less_diff_conv simp del: mod_mult_div_eq)
  note ln = lines_nth [of 0 "k div 16" buf p, simplified, OF this(1)] and b = this(2,3)
  let ?l = "hexdump_line p ?off ?b"
  have o: "?off < 2 ^ 32" using \<open>?off < length buf\<close> assms(1) by (rule order_less_trans)
  have "?c \<le> 33" using k(2) by (simp add: dump_column_def)
  then have t: "take 2 (drop (10 + ?c) ?l) = fmt_02X (buf ! k)"
  proof -
    have "drop (10 + ?c) ?l = drop ?c (drop 10 ?l)" by (simp add: add.commute)
    then show ?thesis using \<open>?c \<le> 33\<close> hex_columns_nth [OF b(1) k(2)] b(2) line_layout(2) [OF o, of p ?b] hex_columns_length [of ?b]
      by simp
  qed
  then have "?l ! (10 + ?c) = fmt_02X (buf ! k) ! 0" "?l ! (10 + ?c + 1) = fmt_02X (buf ! k) ! 1"
    using line_layout(1) [OF o, of p ?b] \<open>?c \<le> 33\<close>
    by (auto simp: dest!: arg_cong [of _ _ "\<lambda>xs. (xs ! 0, xs ! 1)"])
  moreover have "length (dump_columns (\<lambda>c. dump_char p (g c)) [] bs) < 21" for g
    using char_columns_length [of "\<lambda>c. dump_char p (g c)" bs] by (simp add: dump_char_def)
  ultimately show ?thesis
    using ln line_layout(1) [OF o, of p ?b] fmt_02X_roundtrip [of "buf ! k"] hex_columns_length [of bs]
    by (simp add: Let_def)
qed

theorem hexdump_readable_witness:
  "let line = hexdump_lines (\<lambda>_. True) 0 [0xC1, 0x2F] ! 0
   in length line = 93 \<and> 16 * unhex (line ! 12) + unhex (line ! 13) = 0x2F"
  using hexdump_readable [of "[0xC1, 0x2F]" 1 "\<lambda>_. True" "[]"] by (simp add: Let_def dump_column_def)

end
