(* ===== verification/Mockvfs.thy ===== *)
theory Mockvfs
  imports Vfs Format
begin

text \<open>
  The file system of fixed files that stands in for the real one in test builds,
  \<^verbatim>\<open>src/src/mockvfs.c\<close>, as compiled for MVS: five text files in every export. Its trace on
  the standard output is left out. An error number the protocol's table does not know is
  \<^verbatim>\<open>EOTHER\<close>.
\<close>

section \<open>Tables\<close>

definition MOCK_NUM_FILES :: nat where "MOCK_NUM_FILES = 5"
definition MOCK_NUM_ENTRIES :: int where "MOCK_NUM_ENTRIES = 7"

definition s_file_name :: "bytes list" where
  "s_file_name = [ebc ''file1.txt'', ebc ''file2.txt'', ebc ''file3.txt'', ebc ''file4.txt'', ebc ''file5.txt'']"

text \<open>File number \<open>n\<close> has \<open>n\<close> lines, each with the name of the file and its own number.\<close>

definition s_file_content :: "bytes list" where
  "s_file_content = map (\<lambda>n. concat (map (\<lambda>k. s_file_name ! (n - 1) @ ebc '' line '' @ dec k @ [ch_nl]) [1..<Suc n])) [1..<6]"

definition s_dir_entries :: "bytes list" where
  "s_dir_entries = [ebc ''.'', ebc ''..''] @ s_file_name"

definition PATH_SEPARATOR_ASCII :: u8 where "PATH_SEPARATOR_ASCII = 0x2F"

definition mock_name_eq :: "bytes \<Rightarrow> bytes \<Rightarrow> bool" where
  "mock_name_eq ascii_name ebcdic_lit \<longleftrightarrow> length ascii_name < MAX_NAME \<and> cstr (ascii_to_ebcdic ascii_name) = ebcdic_lit"

record mock_dir =
  md_in_use :: bool
  md_next_cookie :: u64
  md_exp_idx :: int

record mock_state =
  mg_dir_pool :: "mock_dir list"
  mg_dir_used :: "bool list"

definition mock_dir_openlist_init :: "mock_state \<Rightarrow> mock_state" where
  "mock_dir_openlist_init s = s\<lparr>mg_dir_used := replicate MAX_OPEN_DIRS False\<rparr>"

section \<open>Paths\<close>

datatype mock_kind = MOCK_NOT_FOUND | MOCK_IS_DIR int | MOCK_IS_FILE int nat

text \<open>The export whose local path is the text before the last separator.\<close>

definition mock_parent :: "export_t list \<Rightarrow> bytes \<Rightarrow> nat option" where
  "mock_parent es host = find_index (\<lambda>e. length (host_path e) = length host \<and> take (length host) (host_path e) = host) es"

definition mock_resolve :: "export_t list \<Rightarrow> bytes \<Rightarrow> mock_kind" where
  "mock_resolve es path =
     (case find_index (\<lambda>e. path = host_path e) es of
        Some i \<Rightarrow> MOCK_IS_DIR (int i)
      | None \<Rightarrow>
          (case after_last PATH_SEPARATOR_ASCII path of
             None \<Rightarrow> MOCK_NOT_FOUND
           | Some filename \<Rightarrow>
               let host = before_last PATH_SEPARATOR_ASCII path in
               if filename = [] then MOCK_NOT_FOUND
               else if mock_name_eq filename (ebc ''.'') then
                 (case mock_parent es host of None \<Rightarrow> MOCK_NOT_FOUND | Some j \<Rightarrow> MOCK_IS_DIR (int j))
               else case find_index (mock_name_eq filename) s_file_name of
                   None \<Rightarrow> MOCK_NOT_FOUND
                 | Some i \<Rightarrow> (case mock_parent es host of None \<Rightarrow> MOCK_IS_FILE 0 i | Some j \<Rightarrow> MOCK_IS_FILE (int j) i)))"

section \<open>Files\<close>

definition mock_base_id :: "int \<Rightarrow> u32" where
  "mock_base_id exp_idx = of_int (exp_idx + 1) * 10"

definition mock_stat_common :: "int \<Rightarrow> int \<Rightarrow> vfs_stat_t" where
  "mock_stat_common now exp_idx =
     \<lparr>st_ftype = 0, st_mode = 0, st_nlink = 0, st_uid = 0, st_gid = 0, st_size = 0, st_used = 0, st_rdev_maj = 0, st_rdev_min = 0,
      st_fsid = of_int (exp_idx + 1), st_fileid = 0, atime_sec = of_int now, atime_nsec = 0, mtime_sec = of_int now, mtime_nsec = 0,
      ctime_sec = of_int now, ctime_nsec = 0, raw_dev = of_int (exp_idx + 1), raw_ino = 0, fs_readonly = 0\<rparr>"

definition mock_vfs_stat :: "int \<Rightarrow> export_t list \<Rightarrow> bytes \<Rightarrow> errno_t + vfs_stat_t" where
  "mock_vfs_stat now es path =
     (case mock_resolve es path of
        MOCK_NOT_FOUND \<Rightarrow> Inl ENOENT
      | MOCK_IS_DIR e \<Rightarrow>
          Inr ((mock_stat_common now e)\<lparr>st_ftype := NF3DIR, st_mode := 0x16D, st_nlink := 2, st_size := 512, st_used := 512,
                 st_fileid := ucast (mock_base_id e)\<rparr>)
      | MOCK_IS_FILE e i \<Rightarrow>
          let n = of_nat (length (s_file_content ! i))
          in Inr ((mock_stat_common now e)\<lparr>st_ftype := NF3REG, st_mode := 0x124, st_nlink := 1, st_size := n, st_used := n,
                 st_fileid := ucast (mock_base_id e + of_nat (i + 1)), raw_ino := of_nat (i + 1)\<rparr>))"

definition mock_vfs_pread :: "export_t list \<Rightarrow> bytes \<Rightarrow> u32 \<Rightarrow> u64 \<Rightarrow> errno_t + bytes \<times> bool" where
  "mock_vfs_pread es path count offset =
     (case mock_resolve es path of
        MOCK_NOT_FOUND \<Rightarrow> Inl ENOENT
      | MOCK_IS_DIR _ \<Rightarrow> Inl EISDIR
      | MOCK_IS_FILE _ i \<Rightarrow>
          let content = s_file_content ! i; clen = of_nat (length content) :: u32 in
          if ucast clen \<le> offset then Inr ([], True)
          else let off32 = ucast offset :: u32; avail0 = clen - off32; avail = (if count < avail0 then count else avail0)
            in Inr (ebcdic_to_ascii (take (unat avail) (drop (unat off32) content)), clen \<le> off32 + avail))"

text \<open>Changes are accepted and forgotten, except the change of a name.\<close>

definition mock_vfs_pwrite :: "bytes \<Rightarrow> bytes \<Rightarrow> u32 \<Rightarrow> u64 \<Rightarrow> errno_t option" where
  "mock_vfs_pwrite path data count offset = None"

definition mock_vfs_commit :: "bytes \<Rightarrow> errno_t option" where
  "mock_vfs_commit path = None"

definition mock_vfs_create :: "bytes \<Rightarrow> u32 \<Rightarrow> errno_t option" where
  "mock_vfs_create path mode = None"

definition mock_vfs_remove :: "bytes \<Rightarrow> errno_t option" where
  "mock_vfs_remove path = None"

definition mock_vfs_rename :: "bytes \<Rightarrow> bytes \<Rightarrow> errno_t option" where
  "mock_vfs_rename from to = Some EPERM"

definition mock_vfs_truncate :: "bytes \<Rightarrow> u64 \<Rightarrow> errno_t option" where
  "mock_vfs_truncate path sz = None"

definition mock_vfs_set_times :: "bytes \<Rightarrow> bool \<Rightarrow> u32 \<Rightarrow> u32 \<Rightarrow> bool \<Rightarrow> u32 \<Rightarrow> u32 \<Rightarrow> errno_t option" where
  "mock_vfs_set_times path set_atime asec ansec set_mtime msec mnsec = None"

definition mock_vfs_fsstat :: "bytes \<Rightarrow> vfs_fsstat_t" where
  "mock_vfs_fsstat path = \<lparr>total_bytes = 1024 * 1024 * 64, free_bytes = 0, avail_bytes = 0,
     total_files = of_nat MOCK_NUM_FILES, free_files = 0, avail_files = 0, invarsec = 3600\<rparr>"

section \<open>Directories\<close>

definition mock_vfs_seekdir_to :: "nat \<Rightarrow> u64 \<Rightarrow> mock_state \<Rightarrow> mock_state" where
  "mock_vfs_seekdir_to d cookie s =
     s\<lparr>mg_dir_pool := (mg_dir_pool s)[d := (mg_dir_pool s ! d)\<lparr>md_next_cookie := cookie + 1\<rparr>]\<rparr>"

definition mock_vfs_opendir :: "export_t list \<Rightarrow> bytes \<Rightarrow> u64 \<Rightarrow> mock_state \<Rightarrow> (errno_t + nat) \<times> mock_state" where
  "mock_vfs_opendir es path cookie s =
     (case mock_resolve es path of
        MOCK_NOT_FOUND \<Rightarrow> (Inl ENOENT, s)
      | MOCK_IS_FILE _ _ \<Rightarrow> (Inl ENOTDIR, s)
      | MOCK_IS_DIR e \<Rightarrow>
          (case find_index (\<lambda>u. \<not> u) (mg_dir_used s) of
             None \<Rightarrow> (Inl EOTHER, s)
           | Some i \<Rightarrow>
               (Inr i, mock_vfs_seekdir_to i cookie
                  (s\<lparr>mg_dir_pool := (mg_dir_pool s)[i := \<lparr>md_in_use = True, md_next_cookie = 1, md_exp_idx = e\<rparr>],
                     mg_dir_used := (mg_dir_used s)[i := True]\<rparr>))))"

text \<open>The name, the file number and the cookie, or the end.\<close>

definition mock_vfs_readdir_next :: "nat \<Rightarrow> nat \<Rightarrow> mock_state \<Rightarrow> (bytes \<times> u64 \<times> u64) option \<times> mock_state" where
  "mock_vfs_readdir_next d maxname s =
     (let dir = mg_dir_pool s ! d;
          pos = sint (ucast (md_next_cookie dir - 1) :: u32)
      in if pos < 0 \<or> MOCK_NUM_ENTRIES \<le> pos then (None, s)
         else
           let name = ebcdic_to_ascii (take (maxname - 1) (s_dir_entries ! nat pos));
               base_id = mock_base_id (md_exp_idx dir);
               fileid = (if pos = 0 then ucast base_id else if pos = 1 then 1 else ucast (base_id + of_int (pos - 1)))
           in (Some (name, fileid, md_next_cookie dir),
               s\<lparr>mg_dir_pool := (mg_dir_pool s)[d := dir\<lparr>md_next_cookie := md_next_cookie dir + 1\<rparr>]\<rparr>))"

definition mock_vfs_closedir :: "nat option \<Rightarrow> mock_state \<Rightarrow> mock_state" where
  "mock_vfs_closedir d s =
     (case d of
        None \<Rightarrow> s
      | Some i \<Rightarrow>
          if i < MAX_OPEN_DIRS
          then s\<lparr>mg_dir_pool := (mg_dir_pool s)[i := (mg_dir_pool s ! i)\<lparr>md_in_use := False\<rparr>], mg_dir_used := (mg_dir_used s)[i := False]\<rparr>
          else s)"

section \<open>Reading\<close>

lemma content_lengths: "map length s_file_content = [17, 34, 51, 68, 85]"
  by code_simp

lemma content_length: "i < 5 \<Longrightarrow> length (s_file_content ! i) = 17 * (i + 1)"
proof -
  assume i: "i < 5"
  have "length s_file_content = 5" by (simp add: s_file_content_def)
  then have "length (s_file_content ! i) = map length s_file_content ! i" using i by simp
  also have "\<dots> = 17 * (i + 1)" using i unfolding content_lengths by (auto simp: less_Suc_eq numeral_nat)
  finally show ?thesis .
qed

lemma find_index_bound: "find_index P xs = Some i \<Longrightarrow> i < length xs \<and> P (xs ! i)"
  by (induction xs arbitrary: i) (auto split: if_splits)

lemma resolve_file: "mock_resolve es path = MOCK_IS_FILE e i \<Longrightarrow> i < 5"
  by (auto simp: mock_resolve_def Let_def s_file_name_def split: option.splits if_splits dest!: find_index_bound)

text \<open>
  Reading a file of the stand-in file system: a read gives the bytes of the file, in ASCII,
  from the offset on, as many as were asked for and are there, and says that the end was
  reached exactly when it was; beyond the end it gives nothing.
\<close>
theorem mock_read_slice:
  assumes "mock_resolve es path = MOCK_IS_FILE e i"
  shows "mock_vfs_pread es path count offset =
    Inr (take (unat count) (drop (unat offset) (ebcdic_to_ascii (s_file_content ! i))),
         length (s_file_content ! i) \<le> unat offset + unat count)"
proof -
  let ?n = "length (s_file_content ! i)"
  have n: "?n \<le> 85" using content_length resolve_file [OF assms] by simp
  then have c: "unat (of_nat ?n :: u32) = ?n" by (simp add: unat_of_nat)
  show ?thesis
  proof (cases "?n \<le> unat offset")
    case True
    then have "(ucast (of_nat ?n :: u32) :: u64) \<le> offset" using c n by (simp add: word_le_nat_alt unsigned_ucast_eq take_bit_nat_eq_self)
    then show ?thesis using assms True by (simp add: mock_vfs_pread_def Let_def ebcdic_to_ascii_def)
  next
    case False
    then have o: "\<not> (ucast (of_nat ?n :: u32) :: u64) \<le> offset" "unat (ucast offset :: u32) = unat offset"
      using c n by (simp_all add: word_le_nat_alt unsigned_ucast_eq take_bit_nat_eq_self)
    let ?a = "of_nat ?n - ucast offset :: u32"
    have a: "unat ?a = ?n - unat offset" using False c o(2) by (simp add: unat_sub word_le_nat_alt)
    let ?v = "if count < ?a then count else ?a"
    have v: "unat ?v = min (unat count) (?n - unat offset)" using a by (simp add: word_less_nat_alt)
    have "unat (ucast offset + ?v) = unat offset + unat ?v"
      using v o(2) False n by (intro trans [OF unat_add_lem [THEN iffD1]]) (simp_all del: of_nat_diff)
    then have "(of_nat ?n :: u32) \<le> ucast offset + ?v \<longleftrightarrow> ?n \<le> unat offset + unat count"
      using v c False by (auto simp: word_le_nat_alt simp del: of_nat_diff)
    then show ?thesis using assms o v by (auto simp: mock_vfs_pread_def Let_def ebcdic_to_ascii_def take_map drop_map min_def)
  qed
qed

section \<open>Listing\<close>

definition mock_fileid :: "int \<Rightarrow> nat \<Rightarrow> u64" where
  "mock_fileid e k = (if k = 0 then ucast (mock_base_id e) else if k = 1 then 1 else ucast (mock_base_id e + of_nat (k - 1)))"

definition mock_entry :: "int \<Rightarrow> nat \<Rightarrow> bytes \<times> u64 \<times> u64" where
  "mock_entry e k = (ebcdic_to_ascii (s_dir_entries ! k), mock_fileid e k, of_nat (k + 1))"

text \<open>The answers to a number of calls in a row.\<close>

fun mock_reads :: "nat \<Rightarrow> nat \<Rightarrow> mock_state \<Rightarrow> (bytes \<times> u64 \<times> u64) option list" where
  "mock_reads 0 d s = []"
| "mock_reads (Suc n) d s = (let (r, s') = mock_vfs_readdir_next d MAX_NAME s in r # mock_reads n d s')"

lemma entry_short: "k < 7 \<Longrightarrow> take 255 (s_dir_entries ! k) = s_dir_entries ! k"
proof -
  assume "k < 7"
  moreover have "list_all (\<lambda>k. take 255 (s_dir_entries ! k) = s_dir_entries ! k) [0..<7]" by code_simp
  ultimately show ?thesis by (simp add: list_all_iff)
qed

lemma cookie_pos: "k \<le> 7 \<Longrightarrow> sint (ucast (of_nat (k + 1) - 1 :: u64) :: u32) = int k"
proof -
  assume k: "k \<le> 7"
  then have "take_bit 32 k = k" by (simp add: take_bit_nat_eq_self)
  then show ?thesis using k by (simp add: sint_uint unsigned_ucast_eq signed_take_bit_int_eq_self take_bit_int_eq_self unsigned_of_nat)
qed

lemma next_entry:
  assumes "mg_dir_pool s ! d = \<lparr>md_in_use = True, md_next_cookie = of_nat (k + 1), md_exp_idx = e\<rparr>" and "k \<le> 7" and "d < length (mg_dir_pool s)"
  shows "mock_vfs_readdir_next d MAX_NAME s =
    (if k = 7 then (None, s)
     else (Some (mock_entry e k),
           s\<lparr>mg_dir_pool := (mg_dir_pool s)[d := \<lparr>md_in_use = True, md_next_cookie = of_nat (k + 2), md_exp_idx = e\<rparr>]\<rparr>))"
proof (cases "k = 7")
  case True
  then show ?thesis using assms cookie_pos [of 7] by (simp add: mock_vfs_readdir_next_def Let_def MOCK_NUM_ENTRIES_def)
next
  case False
  then have "mock_fileid e k = (if int k = 0 then ucast (mock_base_id e) else if int k = 1 then 1
      else ucast (mock_base_id e + of_int (int k - 1)))"
    by (auto simp: mock_fileid_def of_nat_diff)
  then show ?thesis using False assms cookie_pos [of k] entry_short [of k]
    by (simp add: mock_vfs_readdir_next_def Let_def MOCK_NUM_ENTRIES_def mock_entry_def MAX_NAME_def)
qed

lemma reads_rest:
  assumes "mg_dir_pool s ! d = \<lparr>md_in_use = True, md_next_cookie = of_nat (k + 1), md_exp_idx = e\<rparr>" and "k \<le> 7" and "d < length (mg_dir_pool s)"
  shows "mock_reads (8 - k) d s = map (\<lambda>j. Some (mock_entry e j)) [k..<7] @ [None]"
  using assms
proof (induction "7 - k" arbitrary: k s)
  case 0
  then show ?case using next_entry [OF 0(2-4)] by simp
next
  case (Suc m)
  then have k: "k < 7" by simp
  let ?s = "s\<lparr>mg_dir_pool := (mg_dir_pool s)[d := \<lparr>md_in_use = True, md_next_cookie = of_nat (k + 2), md_exp_idx = e\<rparr>]\<rparr>"
  have "mock_reads (8 - Suc k) d ?s = map (\<lambda>j. Some (mock_entry e j)) [Suc k..<7] @ [None]"
    using Suc k by (intro Suc.hyps(1)) (auto simp: add.commute)
  moreover have "8 - k = Suc (8 - Suc k)" "[k..<7] = k # [Suc k..<7]" using k by (simp_all add: upt_conv_Cons)
  ultimately show ?case using next_entry [OF Suc.prems] k by simp
qed

lemma opened:
  assumes "mock_resolve es path = MOCK_IS_DIR e" and "mock_vfs_opendir es path cookie s = (Inr d, s1)"
    and "length (mg_dir_pool s) = length (mg_dir_used s)"
  shows "d < length (mg_dir_pool s1) \<and> mg_dir_pool s1 ! d = \<lparr>md_in_use = True, md_next_cookie = cookie + 1, md_exp_idx = e\<rparr>"
  using assms by (auto simp: mock_vfs_opendir_def mock_vfs_seekdir_to_def split: option.splits dest!: find_index_bound)

lemma file_names:
  "list_all (\<lambda>i. find_index (mock_name_eq (ebcdic_to_ascii (s_file_name ! i))) s_file_name = Some i \<and>
     PATH_SEPARATOR_ASCII \<notin> set (ebcdic_to_ascii (s_file_name ! i)) \<and> ebcdic_to_ascii (s_file_name ! i) \<noteq> [] \<and>
     \<not> mock_name_eq (ebcdic_to_ascii (s_file_name ! i)) (ebc ''.'')) [0..<5]"
  by code_simp

lemma split_last: "c \<notin> set name \<Longrightarrow> after_last c (path @ c # name) = Some name \<and> before_last c (path @ c # name) = path"
proof -
  assume c: "c \<notin> set name"
  then have "takeWhile (\<lambda>x. x \<noteq> c) (rev name @ c # rev path) = rev name" "dropWhile (\<lambda>x. x \<noteq> c) (rev name @ c # rev path) = c # rev path"
    by (auto simp: takeWhile_append dropWhile_append)
  then show ?thesis by (simp add: after_last_def before_last_def)
qed

lemma stat_fileid:
  assumes "find_index (\<lambda>x. path = host_path x) es = Some j" and "i < 5"
    and "find_index (\<lambda>x. path @ PATH_SEPARATOR_ASCII # ebcdic_to_ascii (s_file_name ! i) = host_path x) es = None"
  shows "mock_resolve es (path @ PATH_SEPARATOR_ASCII # ebcdic_to_ascii (s_file_name ! i)) = MOCK_IS_FILE (int j) i"
proof -
  let ?n = "ebcdic_to_ascii (s_file_name ! i)"
  have n: "find_index (mock_name_eq ?n) s_file_name = Some i" "PATH_SEPARATOR_ASCII \<notin> set ?n" "?n \<noteq> []" "\<not> mock_name_eq ?n (ebc ''.'')"
    using file_names assms(2) by (auto simp: list_all_iff)
  have "(\<lambda>e :: export_t. length (host_path e) = length path \<and> take (length path) (host_path e) = path) = (\<lambda>x. path = host_path x)"
    by (auto simp: fun_eq_iff)
  then have "mock_parent es path = Some j" using assms(1) by (simp only: mock_parent_def)
  then show ?thesis using assms(3) n split_last [OF n(2), of path] by (simp add: mock_resolve_def Let_def)
qed

text \<open>
  Listing a directory of the stand-in file system. From any cookie on, the calls give the
  rest of the seven entries once each, in order, with cookies that count them, and then the
  end; and the file number a listing shows for a file is the one its attributes have.
\<close>
theorem mock_listing:
  assumes "find_index (\<lambda>x. path = host_path x) es = Some j" and "mock_vfs_opendir es path cookie s = (Inr d, s1)"
    and "length (mg_dir_pool s) = length (mg_dir_used s)" and "cookie \<le> 7"
  shows "mock_reads (8 - unat cookie) d s1 = map (\<lambda>k. Some (mock_entry (int j) k)) [unat cookie..<7] @ [None] \<and>
    (\<forall>i < 5. let p = path @ PATH_SEPARATOR_ASCII # fst (mock_entry (int j) (i + 2))
       in find_index (\<lambda>x. p = host_path x) es = None \<longrightarrow>
         map_sum id st_fileid (mock_vfs_stat now es p) = Inr (fst (snd (mock_entry (int j) (i + 2)))))"
proof (intro conjI allI impI)
  have r: "mock_resolve es path = MOCK_IS_DIR (int j)" using assms(1) by (simp add: mock_resolve_def)
  have c: "cookie + 1 = of_nat (unat cookie + 1)" "unat cookie \<le> 7" using assms(4) by (simp_all add: word_le_nat_alt)
  show "mock_reads (8 - unat cookie) d s1 = map (\<lambda>k. Some (mock_entry (int j) k)) [unat cookie..<7] @ [None]"
    using reads_rest [of s1 d "unat cookie" "int j"] opened [OF r assms(2,3)] c by simp
next
  fix i :: nat assume i: "i < 5"
  have e: "fst (mock_entry (int j) (i + 2)) = ebcdic_to_ascii (s_file_name ! i)"
    by (simp add: mock_entry_def s_dir_entries_def)
  have f: "fst (snd (mock_entry (int j) (i + 2))) = ucast (mock_base_id (int j) + of_nat (i + 1))"
    by (simp add: mock_entry_def mock_fileid_def)
  show "let p = path @ PATH_SEPARATOR_ASCII # fst (mock_entry (int j) (i + 2))
       in find_index (\<lambda>x. p = host_path x) es = None \<longrightarrow>
         map_sum id st_fileid (mock_vfs_stat now es p) = Inr (fst (snd (mock_entry (int j) (i + 2))))"
    using stat_fileid [OF assms(1) i] unfolding e f by (simp add: mock_vfs_stat_def Let_def)
qed

section \<open>Witnesses\<close>

text \<open>One export with the local path \<^verbatim>\<open>X\<close>.\<close>

definition mock_exports :: "export_t list" where
  "mock_exports = [(new_export [0x61, 0xE7])\<lparr>host_path := [0x58]\<rparr>]"

definition mock_closed :: mock_state where
  "mock_closed = \<lparr>mg_dir_pool = replicate MAX_OPEN_DIRS \<lparr>md_in_use = False, md_next_cookie = 0, md_exp_idx = 0\<rparr>,
     mg_dir_used = replicate MAX_OPEN_DIRS False\<rparr>"

lemma mock_host: "map host_path mock_exports = [[0x58]]"
  by (simp add: mock_exports_def)

lemma mock_find: "find_index (\<lambda>x. p = host_path x) mock_exports = (if p = [0x58] then Some 0 else None)"
  by (simp add: mock_exports_def)

theorem mock_read_slice_witness:
  "\<exists>e i. mock_resolve mock_exports ([0x58] @ PATH_SEPARATOR_ASCII # ebcdic_to_ascii (s_file_name ! 1)) = MOCK_IS_FILE e i \<and>
     mock_vfs_pread mock_exports ([0x58] @ PATH_SEPARATOR_ASCII # ebcdic_to_ascii (s_file_name ! 1)) 10 30 =
       Inr (take 10 (drop 30 (ebcdic_to_ascii (s_file_content ! i))), True)"
proof -
  have r: "mock_resolve mock_exports ([0x58] @ PATH_SEPARATOR_ASCII # ebcdic_to_ascii (s_file_name ! 1)) = MOCK_IS_FILE (int 0) 1"
    by (rule stat_fileid) (simp_all add: mock_find)
  show ?thesis using mock_read_slice [OF r, of 10 30] r content_length [of 1] by auto
qed

theorem mock_listing_witness:
  "\<exists>d s1. mock_vfs_opendir mock_exports [0x58] 5 mock_closed = (Inr d, s1) \<and>
     mock_reads 3 d s1 = [Some (mock_entry 0 5), Some (mock_entry 0 6), None]"
proof -
  have f: "find_index (\<lambda>x. [0x58] = host_path x) mock_exports = Some 0" by (simp add: mock_find)
  have "mock_vfs_opendir mock_exports [0x58] 5 mock_closed \<in> {Inr 0} \<times> UNIV"
    by (simp add: mock_vfs_opendir_def mock_resolve_def mock_find mock_closed_def MAX_OPEN_DIRS_def eval_nat_numeral)
  then obtain s1 where o: "mock_vfs_opendir mock_exports [0x58] 5 mock_closed = (Inr 0, s1)"
    by (metis SigmaE singletonD)
  have "[5..<7] = [5, 6 :: nat]" by (simp add: upt_rec)
  then show ?thesis using mock_listing [OF f o, of 0] o by (simp add: mock_closed_def)
qed

end
