(* ===== verification/Mvsutl.thy ===== *)
theory Mvsutl
  imports Exports
begin

text \<open>
  The system's control blocks, \<^verbatim>\<open>src/src/mvsutl.c\<close>: the time zone, the job identifier, and the
  names of data set organisations and record formats. Storage is a parameter: the words and
  the bytes at its addresses.
\<close>

section \<open>The time zone\<close>

text \<open>The remainder of C, which has the sign of the dividend, and its division.\<close>

definition c_rem :: "int \<Rightarrow> int \<Rightarrow> int" where
  "c_rem a b = (if a < 0 then - ((- a) mod b) else a mod b)"

definition c_div :: "int \<Rightarrow> int \<Rightarrow> int" where
  "c_div a b = (if a < 0 then - ((- a) div b) else a div b)"

definition round_to_qtr_hour :: "int \<Rightarrow> int" where
  "round_to_qtr_hour n =
     (let r0 = c_rem n 900; r = (if r0 < 0 then r0 + 900 else r0)
      in if r = 1 then n - 1 else if r = 899 then n + 1 else n)"

text \<open>The value of \<^verbatim>\<open>CVTLDTO\<close> at its offset in the control block that storage word 16 points to.\<close>

definition get_int_cvt_val :: "(u32 \<Rightarrow> u32) \<Rightarrow> u32 \<Rightarrow> int" where
  "get_int_cvt_val word_at off = sint (word_at (word_at 0x10 + off))"

definition get_tz_offset :: "(u32 \<Rightarrow> u32) \<Rightarrow> int" where
  "get_tz_offset word_at =
     (let off = get_int_cvt_val word_at 0x0130 in round_to_qtr_hour (c_div (1048567 * off) 1000000))"

definition mvs_tz_init :: "(u32 \<Rightarrow> u32) \<Rightarrow> int" where
  "mvs_tz_init word_at = get_tz_offset word_at"

definition mvs_tz_offset :: "int \<Rightarrow> int" where
  "mvs_tz_offset g_tz_offset = g_tz_offset"

definition mvs_tz_set_offset :: "int \<Rightarrow> int" where
  "mvs_tz_set_offset seconds = seconds"

section \<open>The job\<close>

definition fetch_ptr :: "(u32 \<Rightarrow> u32) \<Rightarrow> u32 \<Rightarrow> u32" where
  "fetch_ptr word_at addr = word_at addr AND 0x7FFFFFFF"

definition get_jes2_jobid :: "(u32 \<Rightarrow> u32) \<Rightarrow> (u32 \<Rightarrow> u8) \<Rightarrow> bytes option" where
  "get_jes2_jobid word_at storage =
     (let tcb = fetch_ptr word_at 540 in
      if tcb = 0 then None
      else let jscb = fetch_ptr word_at (tcb + 0xB4) in
        if jscb = 0 then None
        else let ssib = fetch_ptr word_at (jscb + 0x13C) in
          if ssib = 0 then None
          else Some (cstr (map (\<lambda>i. storage (ssib + 0x0C + of_nat i)) [0..<8])))"

section \<open>Names\<close>

definition mvs_blocks_exact :: "u8 \<Rightarrow> bool" where
  "mvs_blocks_exact dev \<longleftrightarrow> dev = MVS_DEV_3390 \<or> dev = MVS_DEV_3380 \<or> dev = MVS_DEV_3350"

definition mvs_dscb_dsorg_str :: "u8 \<Rightarrow> bytes" where
  "mvs_dscb_dsorg_str dso =
     (if dso = 0x80 then ebc ''IS'' else if dso = 0x40 then ebc ''PS'' else if dso = 0x20 then ebc ''DA''
      else if dso = MVS_DSCB_DSORG_PO then ebc ''PO'' else ebc ''?'') @ (if dso AND 0x01 \<noteq> 0 then ebc ''U'' else [])"

definition mvs_dscb_recfm_str :: "u8 \<Rightarrow> bytes" where
  "mvs_dscb_recfm_str rf =
     (let b = rf AND MVS_DSCB_RECFM_MASK
      in if b = MVS_DSCB_RECFM_V then ebc ''V'' else if b = MVS_DSCB_RECFM_F then ebc ''F''
         else if b = 0xC0 then ebc ''U'' else ebc ''?'') @ (if rf AND 0x10 \<noteq> 0 then ebc ''B'' else [])"

text \<open>An unmovable data set is not recognised: its organisation byte is compared as a whole.\<close>

lemma unmovable_unnamed: "mvs_dscb_dsorg_str (MVS_DSCB_DSORG_PO OR 0x01) = ebc ''?U''"
  by code_simp

section \<open>Every time zone is found\<close>

text \<open>Units of the clock word, 1048576 microseconds each, nearest to a number of quarter hours.\<close>

definition nearest_units :: "int \<Rightarrow> int" where
  "nearest_units q = (900000000 * q + 524288) div 1048576"

text \<open>
  The time zone comes out right: for every zone of whole quarter hours from fourteen hours
  west to fourteen hours east, when the system's offset is the number of clock units nearest to
  it, the offset in seconds is the zone's, to the second.
\<close>
theorem tz_offset_exact:
  assumes "q \<in> {-56..56}" and "get_int_cvt_val word_at 0x0130 = nearest_units q"
  shows "mvs_tz_init word_at = 900 * q"
proof -
  have "list_all (\<lambda>q. round_to_qtr_hour (c_div (1048567 * nearest_units q) 1000000) = 900 * q) [-56..56]" by code_simp
  moreover have "q \<in> set [-56..56]" using assms(1) by (simp only: set_upto)
  ultimately have "round_to_qtr_hour (c_div (1048567 * nearest_units q) 1000000) = 900 * q" unfolding list_all_iff by blast
  then show ?thesis by (simp add: mvs_tz_init_def get_tz_offset_def Let_def assms(2))
qed

theorem tz_offset_exact_witness:
  "mvs_tz_init (\<lambda>a. if a = 0x10 then 0x1000 else if a = 0x1130 then of_int (nearest_units (-20)) else 0) = -18000"
proof -
  have "get_int_cvt_val (\<lambda>a. if a = 0x10 then 0x1000 else if a = 0x1130 then of_int (nearest_units (-20)) else 0) 0x0130 = nearest_units (-20)"
    by code_simp
  from tz_offset_exact [OF _ this] show ?thesis by simp
qed

text \<open>
  The factor is not the clock unit of 1048576 microseconds: when the system cuts the fraction of
  a unit off instead of rounding, zones such as UTC+4, +8 and +12 come out two seconds short,
  which the exact factor would not do.
\<close>

lemma tz_offset_short:
  "map (\<lambda>q. round_to_qtr_hour (c_div (1048567 * (900000000 * q div 1048576)) 1000000) - 900 * q) [16, 32, 48] = [-2, -2, -2]"
  "map (\<lambda>q. round_to_qtr_hour (c_div (1048576 * (900000000 * q div 1048576)) 1000000) - 900 * q) [16, 32, 48] = [0, 0, 0]"
  by code_simp+

end
