(* ===== verification/Pwwstat.thy ===== *)
theory Pwwstat
  imports Perf Slotpool Exports
begin

text \<open>
  The measurements of the write path, \<^verbatim>\<open>src/src/mvspww.c\<close>: the time between the writes of a
  pending member, the ring of members the idle sweep wrote out, and the report of a write that
  is refused because it begins behind the start of a member that is not pending. The clock in
  milliseconds, \<^verbatim>\<open>pww_now_ms\<close>, is an unsigned 32-bit number and a parameter.
\<close>

definition PWW_RECENT_FLUSH :: nat where "PWW_RECENT_FLUSH = 8"
definition PWW_RECENT_EXPIRY_SEC :: int where "PWW_RECENT_EXPIRY_SEC = 300"

definition pww_now_ms :: "int \<Rightarrow> int \<Rightarrow> u32 \<Rightarrow> u32 \<times> u32" where
  "pww_now_ms tv_sec tv_usec base =
     (let b = (if base = 0 then of_int tv_sec else base)
      in ((of_int tv_sec - b) * 1000 + of_int (tv_usec div 1000), b))"

section \<open>Gaps between writes\<close>

record write_timer =
  nwrites :: u32
  first_write_ms :: u32
  last_write_ms :: u32

definition pww_record_write_gap :: "u32 \<Rightarrow> write_timer \<Rightarrow> mvsprf_stat_t list \<Rightarrow> write_timer \<times> mvsprf_stat_t list" where
  "pww_record_write_gap now_ms pm g =
     (let (pm1, g1) =
        (if 0 < nwrites pm \<and> last_write_ms pm \<le> now_ms
         then (pm, mvsprf_record_ms PERF_PWW_WRITE_GAP (now_ms - last_write_ms pm) g)
         else if nwrites pm = 0 then (pm\<lparr>first_write_ms := now_ms\<rparr>, g) else (pm, g))
      in (pm1\<lparr>last_write_ms := now_ms, nwrites := nwrites pm1 + 1\<rparr>, g1))"

section \<open>Members written out by the idle sweep\<close>

record recent_t =
  rf_dsname :: bytes
  rf_member :: bytes
  rf_high_water :: u32
  rf_last_write_ms :: u32
  rf_when :: int

fun recent_scan :: "recent_t list \<Rightarrow> nat \<Rightarrow> nat \<Rightarrow> int \<Rightarrow> nat" where
  "recent_scan [] i oldest w = oldest"
| "recent_scan (r # rs) i oldest w =
     (if rf_when r = 0 then i
      else if rf_when r < w then recent_scan rs (i + 1) i (rf_when r) else recent_scan rs (i + 1) oldest w)"

definition recent_slot :: "recent_t list \<Rightarrow> nat" where
  "recent_slot rs = recent_scan rs 0 0 (rf_when (hd rs))"

definition pww_remember_idle_flush ::
  "bytes \<Rightarrow> bytes \<Rightarrow> u32 \<Rightarrow> u32 \<Rightarrow> int \<Rightarrow> recent_t list \<Rightarrow> recent_t list" where
  "pww_remember_idle_flush dsn m hw lw now ring =
     (if hw = 0 then ring
      else ring[recent_slot ring := \<lparr>rf_dsname = strncpyz MAX_DSNAME_LEN dsn, rf_member = strncpyz 9 m, rf_high_water = hw,
             rf_last_write_ms = lw, rf_when = now\<rparr>])"

text \<open>The loop of \<^verbatim>\<open>pww_nonzero_start\<close>: the ring and, for a sequence that was cut, the gap.\<close>

fun nonzero_scan :: "bytes \<Rightarrow> bytes \<Rightarrow> u64 \<Rightarrow> u32 \<Rightarrow> int \<Rightarrow> recent_t list \<Rightarrow> recent_t list \<times> u32 option" where
  "nonzero_scan dsn m off ms now [] = ([], None)"
| "nonzero_scan dsn m off ms now (r # rs) =
     (if rf_when r = 0 then (let (rs', g) = nonzero_scan dsn m off ms now rs in (r # rs', g))
      else if PWW_RECENT_EXPIRY_SEC < now - rf_when r
        then (let (rs', g) = nonzero_scan dsn m off ms now rs in (r\<lparr>rf_when := 0\<rparr> # rs', g))
      else if rf_dsname r \<noteq> dsn \<or> rf_member r \<noteq> m
        then (let (rs', g) = nonzero_scan dsn m off ms now rs in (r # rs', g))
      else if off = ucast (rf_high_water r) \<and> rf_last_write_ms r \<le> ms
        then (r\<lparr>rf_when := 0\<rparr> # rs, Some (ms - rf_last_write_ms r))
      else (r\<lparr>rf_when := 0\<rparr> # rs, None))"

definition pww_nonzero_start ::
  "bytes \<Rightarrow> bytes \<Rightarrow> u64 \<Rightarrow> u32 \<Rightarrow> int \<Rightarrow> recent_t list \<Rightarrow> mvsprf_stat_t list \<Rightarrow> log_state \<Rightarrow>
     recent_t list \<times> mvsprf_stat_t list \<times> log_state" where
  "pww_nonzero_start dsn m off ms now ring g s =
     (let g1 = mvsprf_record_ms PERF_PWW_NZSTART 0 g;
          (ring', cut) = nonzero_scan dsn m off ms now ring;
          lu = dec (unat (ucast off :: u32))
      in case cut of
           Some gap \<Rightarrow>
             (ring', mvsprf_record_ms PERF_PWW_LATE_GAP gap g1,
              logmsg_warn (ebc ''NFSIW010W'') now
                (ebc ''pww_write: '' @ dsn @ ebc ''('' @ m @ ebc '') REFUSED at offset '' @ lu @ ebc '' -- idle sweep flushed it '' @
                 dec (unat gap) @ ebc '' ms ago; raise PWW_IDLE_TIMEOUT_SECONDS'') s)
         | None \<Rightarrow>
             (ring', g1,
              logmsg_warn (ebc ''NFSIW020W'') now
                (ebc ''Proc WRITE for '' @ dsn @ ebc ''('' @ m @ ebc '') REFUSED at offset '' @ lu @
                 ebc '' -- append/random write not supported (must be written from 0)'') s))"

section \<open>The ring is a slot pool\<close>

lemma recent_scan_bound: "oldest < i + length rs \<Longrightarrow> recent_scan rs i oldest w < i + length rs"
proof (induction rs arbitrary: i oldest w)
  case (Cons r rs)
  then show ?case using Cons.IH [of i "i + 1"] Cons.IH [of oldest "i + 1"] by (auto simp: less_Suc_eq)
qed simp

lemma recent_scan_idle:
  "r \<in> set rs \<Longrightarrow> rf_when r = 0 \<Longrightarrow> \<exists>k < length rs. recent_scan rs i oldest w = i + k \<and> rf_when (rs ! k) = 0"
proof (induction rs arbitrary: i oldest w)
  case (Cons x rs)
  show ?case
  proof (cases "rf_when x = 0")
    case True
    then show ?thesis by (intro exI [of _ 0]) simp
  next
    case False
    then have r: "r \<in> set rs" using Cons.prems by auto
    obtain k where "k < length rs" "recent_scan (x # rs) i oldest w = (i + 1) + k" "rf_when (rs ! k) = 0"
      using Cons.IH [OF r Cons.prems(2), of "i + 1" i "rf_when x"] Cons.IH [OF r Cons.prems(2), of "i + 1" oldest w] False
      by (cases "rf_when x < w") auto
    then show ?thesis by (intro exI [of _ "Suc k"]) simp
  qed
qed simp

interpretation recent: slot_pool "\<lambda>(_ :: unit) r. rf_when r \<noteq> 0" "\<lambda>_. recent_slot"
proof unfold_locales
  show "recent_slot xs < length xs" if "xs \<noteq> []" for xs
    using that recent_scan_bound [of 0 0 xs "rf_when (hd xs)"] by (cases xs) (simp_all add: recent_slot_def)
  show "\<not> rf_when (xs ! recent_slot xs) \<noteq> 0" if "x \<in> set xs" "\<not> rf_when x \<noteq> 0" for x xs
    using that recent_scan_idle [of x xs 0 0 "rf_when (hd xs)"] by (auto simp: recent_slot_def)
qed

section \<open>A sequence that was cut is counted once\<close>

text \<open>A slot that holds a flush of the member, and one that has not expired either.\<close>

definition recent_of :: "bytes \<Rightarrow> bytes \<Rightarrow> recent_t \<Rightarrow> bool" where
  "recent_of dsn m r \<longleftrightarrow> rf_when r \<noteq> 0 \<and> rf_dsname r = dsn \<and> rf_member r = m"

definition fresh_flush :: "bytes \<Rightarrow> bytes \<Rightarrow> int \<Rightarrow> recent_t \<Rightarrow> bool" where
  "fresh_flush dsn m now r \<longleftrightarrow> recent_of dsn m r \<and> now - rf_when r \<le> PWW_RECENT_EXPIRY_SEC"

definition other_flush :: "bytes \<Rightarrow> bytes \<Rightarrow> int \<Rightarrow> recent_t \<Rightarrow> bool" where
  "other_flush dsn m now r \<longleftrightarrow> rf_when r \<noteq> 0 \<and> now - rf_when r \<le> PWW_RECENT_EXPIRY_SEC \<and> (rf_dsname r \<noteq> dsn \<or> rf_member r \<noteq> m)"

text \<open>What one slot of the member says about a write.\<close>

definition cut_answer :: "u64 \<Rightarrow> u32 \<Rightarrow> recent_t \<Rightarrow> u32 option" where
  "cut_answer off ms r = (if off = ucast (rf_high_water r) \<and> rf_last_write_ms r \<le> ms then Some (ms - rf_last_write_ms r) else None)"

lemma scan_exact:
  "snd (nonzero_scan dsn m off ms now rs) = (case filter (fresh_flush dsn m now) rs of [] \<Rightarrow> None | r # _ \<Rightarrow> cut_answer off ms r) \<and>
   filter (fresh_flush dsn m now) (fst (nonzero_scan dsn m off ms now rs)) = tl (filter (fresh_flush dsn m now) rs) \<and>
   filter (other_flush dsn m now) (fst (nonzero_scan dsn m off ms now rs)) = filter (other_flush dsn m now) rs"
proof (induction rs)
  case (Cons r rs)
  obtain zs g where z: "nonzero_scan dsn m off ms now rs = (zs, g)" by fastforce
  show ?case
  proof (cases "fresh_flush dsn m now r")
    case True
    then have "nonzero_scan dsn m off ms now (r # rs) = (r\<lparr>rf_when := 0\<rparr> # rs, cut_answer off ms r)" "\<not> other_flush dsn m now r"
      by (simp_all add: fresh_flush_def other_flush_def recent_of_def cut_answer_def)
    moreover have "\<not> fresh_flush dsn m now (r\<lparr>rf_when := 0\<rparr>)" "\<not> other_flush dsn m now (r\<lparr>rf_when := 0\<rparr>)"
      by (simp_all add: fresh_flush_def other_flush_def recent_of_def)
    ultimately show ?thesis using True by simp
  next
    case False
    let ?r = "if rf_when r \<noteq> 0 \<and> PWW_RECENT_EXPIRY_SEC < now - rf_when r then r\<lparr>rf_when := 0\<rparr> else r"
    have "nonzero_scan dsn m off ms now (r # rs) = (?r # zs, g)"
      using False by (cases "rf_when r = 0"; cases "PWW_RECENT_EXPIRY_SEC < now - rf_when r") (auto simp: z fresh_flush_def recent_of_def)
    moreover have "\<not> fresh_flush dsn m now ?r" "other_flush dsn m now ?r = other_flush dsn m now r" "other_flush dsn m now r \<Longrightarrow> ?r = r"
      using False by (auto simp: fresh_flush_def other_flush_def recent_of_def)
    ultimately show ?thesis using Cons False by (simp add: z del: nonzero_scan.simps)
  qed
qed simp

lemma scan_none:
  "list_all (\<lambda>r. \<not> recent_of dsn m r) rs \<Longrightarrow> snd (nonzero_scan dsn m off ms now rs) = None"
  using scan_exact [of dsn m off ms now rs] by (simp add: fresh_flush_def list_all_iff)

lemma scan_forgets:
  "filter (recent_of dsn m) rs = [r] \<Longrightarrow> fresh_flush dsn m now r \<Longrightarrow>
   list_all (\<lambda>x. \<not> recent_of dsn m x) (fst (nonzero_scan dsn m off ms now rs))"
proof (induction rs)
  case (Cons x rs)
  obtain zs g where z: "nonzero_scan dsn m off ms now rs = (zs, g)" by fastforce
  show ?case
  proof (cases "recent_of dsn m x")
    case True
    then have "x = r" "list_all (\<lambda>x. \<not> recent_of dsn m x) rs" using Cons.prems(1) by (auto simp: filter_empty_conv list_all_iff)
    then show ?thesis using Cons.prems(2) by (auto simp: fresh_flush_def recent_of_def)
  next
    case False
    then show ?thesis using Cons by (auto simp: z recent_of_def)
  qed
qed simp

text \<open>
  C34. A write sequence that the idle sweep cut. After the sweep wrote a member out its flush is in
  the ring. A refused write of the member within the next five minutes is judged by the first flush
  of the member the ring holds, its slots taken in order: it is found to continue the sequence, with
  the time since its last write, exactly when it begins where that flush ended (and the clock of
  milliseconds, which wraps, is not behind the last write); that slot is used up
  and every other flush, of this member or of another, that has not expired is kept. So when the
  ring held no earlier flush of the member, a write at exactly the end of the flush is reported and
  a write at any other place is not, and the next refused write of the member finds nothing.
\<close>
theorem cut_sequence_once:
  assumes "ring \<noteq> []" and "hw \<noteq> 0" and "now \<noteq> 0" and "length dsn \<le> 44" and "length m \<le> 8"
    and "now1 - now \<le> PWW_RECENT_EXPIRY_SEC"
  shows "let ring0 = pww_remember_idle_flush dsn m hw lw now ring;
       e = \<lparr>rf_dsname = dsn, rf_member = m, rf_high_water = hw, rf_last_write_ms = lw, rf_when = now\<rparr>;
       (ring1, cut) = nonzero_scan dsn m off ms now1 ring0
    in e \<in> set (filter (fresh_flush dsn m now1) ring0) \<and>
       cut = cut_answer off ms (hd (filter (fresh_flush dsn m now1) ring0)) \<and>
       filter (fresh_flush dsn m now1) ring1 = tl (filter (fresh_flush dsn m now1) ring0) \<and>
       filter (other_flush dsn m now1) ring1 = filter (other_flush dsn m now1) ring0 \<and>
       (list_all (\<lambda>r. \<not> recent_of dsn m r) ring \<longrightarrow>
          cut = (if off = ucast hw \<and> lw \<le> ms then Some (ms - lw) else None) \<and> snd (nonzero_scan dsn m off2 ms2 now2 ring1) = None)"
proof -
  let ?k = "recent_slot ring" and ?r = "pww_remember_idle_flush dsn m hw lw now ring"
  let ?e = "\<lparr>rf_dsname = dsn, rf_member = m, rf_high_water = hw, rf_last_write_ms = lw, rf_when = now\<rparr>"
  have k: "?k < length ring" by (rule recent.pick_bound [OF assms(1)])
  have r: "?r = ring[?k := ?e]"
    using assms by (simp add: pww_remember_idle_flush_def strncpyz_def MAX_DSNAME_LEN_def)
  have split: "?r = take ?k ring @ ?e # drop (Suc ?k) ring" using k by (simp add: r upd_conv_take_nth_drop)
  have fresh: "fresh_flush dsn m now1 ?e" "recent_of dsn m ?e" using assms by (simp_all add: fresh_flush_def recent_of_def)
  then have e: "?e \<in> set (filter (fresh_flush dsn m now1) ?r)" using k by (simp add: r set_update_memI)
  obtain ring1 cut where n: "nonzero_scan dsn m off ms now1 ?r = (ring1, cut)" by fastforce
  have once: "cut = cut_answer off ms ?e \<and> snd (nonzero_scan dsn m off2 ms2 now2 ring1) = None"
    if no: "list_all (\<lambda>r. \<not> recent_of dsn m r) ring"
  proof -
    have "filter (recent_of dsn m) (take ?k ring) = []" "filter (recent_of dsn m) (drop (Suc ?k) ring) = []"
      using no by (auto simp: list_all_iff filter_empty_conv dest: in_set_takeD in_set_dropD)
    then have one: "filter (recent_of dsn m) ?r = [?e]" using fresh(2) by (simp add: split)
    have "filter (fresh_flush dsn m now1) ?r = filter (\<lambda>x. now1 - rf_when x \<le> PWW_RECENT_EXPIRY_SEC) (filter (recent_of dsn m) ?r)"
      unfolding filter_filter by (rule filter_cong) (auto simp: fresh_flush_def)
    then have "filter (fresh_flush dsn m now1) ?r = [?e]" using fresh(1) by (simp add: one fresh_flush_def)
    then show ?thesis using scan_exact [of dsn m off ms now1 ?r] scan_forgets [OF one fresh(1), of off ms] scan_none [of dsn m ring1 off2 ms2 now2]
      by (simp add: n)
  qed
  have "cut = cut_answer off ms (hd (filter (fresh_flush dsn m now1) ?r))"
    using e scan_exact [of dsn m off ms now1 ?r] by (cases "filter (fresh_flush dsn m now1) ?r") (simp_all add: n)
  moreover have "cut_answer off ms ?e = (if off = ucast hw \<and> lw \<le> ms then Some (ms - lw) else None)" by (simp add: cut_answer_def)
  ultimately show ?thesis using e scan_exact [of dsn m off ms now1 ?r] once unfolding Let_def n by simp
qed

definition empty_ring :: "recent_t list" where
  "empty_ring = replicate PWW_RECENT_FLUSH \<lparr>rf_dsname = [], rf_member = [], rf_high_water = 0, rf_last_write_ms = 0, rf_when = 0\<rparr>"

lemma empty_ring_fresh: "empty_ring \<noteq> []" "list_all (\<lambda>r. \<not> recent_of dsn m r) empty_ring"
  by (simp_all add: empty_ring_def PWW_RECENT_FLUSH_def recent_of_def list_all_iff)

theorem cut_sequence_once_witness:
  "let (ring1, cut) = nonzero_scan [0xC1] [0xC2] 80 9000 110 (pww_remember_idle_flush [0xC1] [0xC2] 80 2000 100 empty_ring)
   in cut = Some 7000 \<and> snd (nonzero_scan [0xC1] [0xC2] 80 9500 111 ring1) = None"
  using cut_sequence_once [of empty_ring 80 100 "[0xC1]" "[0xC2]" 110 2000 80 9000 80 9500 111]
  by (simp add: empty_ring_fresh PWW_RECENT_EXPIRY_SEC_def Let_def split: prod.splits)

text \<open>
  A flush is entered beside an older one of the same member, not in its place, and the older one
  is met first. A member flushed at 40 bytes and again at 80 is not recognised when its writer
  resumes at 80; a member flushed twice at 40 bytes is reported twice.
\<close>

lemma older_flush_decides:
  "snd (nonzero_scan [0xC1] [0xC2] 80 9000 110
     (pww_remember_idle_flush [0xC1] [0xC2] 80 2000 100 (pww_remember_idle_flush [0xC1] [0xC2] 40 1000 90 empty_ring))) = None"
  "let (ring1, cut) = nonzero_scan [0xC1] [0xC2] 40 9000 110
         (pww_remember_idle_flush [0xC1] [0xC2] 40 2000 100 (pww_remember_idle_flush [0xC1] [0xC2] 40 1000 90 empty_ring))
   in cut = Some 8000 \<and> snd (nonzero_scan [0xC1] [0xC2] 40 9500 111 ring1) = Some 7500"
  by code_simp+

end
