(* ===== verification/Startcfg.thy ===== *)
theory Startcfg
  imports Perf Service Fsz
begin

text \<open>
  What is read at the start, and helpers that nothing in the server calls: the commands of the
  \<^verbatim>\<open>[Init]\<close> section (\<^verbatim>\<open>cfg_do_init_line\<close> of \<^verbatim>\<open>src/src/exports.c\<close>) and the loop of
  \<^verbatim>\<open>exports_load\<close> with its effect on the log; the loader of a file of sizes (\<^verbatim>\<open>mvsfsz_load\<close> of
  \<^verbatim>\<open>src/src/mvsfsz.c\<close>); the reverse name conversion of \<^verbatim>\<open>src/src/ebcdic.c\<close>; and the attributes
  of an open data set (\<^verbatim>\<open>src/src/mvsio.c\<close>).
\<close>

section \<open>The Init section\<close>

definition cfg_do_init_line :: "int \<Rightarrow> bytes \<Rightarrow> log_state \<Rightarrow> log_state" where
  "cfg_do_init_line now cmd s =
     (let (rc, s1) = log_handle_modify now (Some cmd) s
      in if rc = 1 then logmsg_warn (ebc ''NFSCF020W'') now (ebc ''exports_load: [Init] unrecognised command: '' @ cmd) s1
         else if rc = 0 then logmsg_debug (ebc ''NFSCF030D'') now (ebc ''exports_load: [Init] applied: '' @ cmd) s1
         else s1)"

text \<open>The loop of \<^verbatim>\<open>exports_load\<close> on the tables and the log; what the parser itself reports is left out.\<close>

fun config_lines :: "int \<Rightarrow> bytes list \<Rightarrow> cfg_section \<Rightarrow> exports_state \<times> log_state \<Rightarrow> exports_state \<times> log_state" where
  "config_lines now [] sect (st, s) = (st, s)"
| "config_lines now (line # lines) sect (st, s) =
     (case cfg_strip_line line of
        None \<Rightarrow> config_lines now lines sect (st, s)
      | Some p \<Rightarrow>
          if hd p = CFG_SECT_OPEN then
            let (sect', st') = cfg_enter_section p st in config_lines now lines sect' (st', s)
          else case sect of
            CFG_SECT_INIT \<Rightarrow> config_lines now lines sect (st, cfg_do_init_line now p s)
          | CFG_SECT_EXPORTS \<Rightarrow> config_lines now lines sect (cfg_do_export_line p st, s)
          | CFG_SECT_UNKNOWN \<Rightarrow> config_lines now lines sect (st, s))"

section \<open>The file of sizes\<close>

text \<open>
  The conversions \<^verbatim>\<open>%Ns\<close> and \<^verbatim>\<open>%lu\<close> of \<^verbatim>\<open>sscanf\<close>. What \<^verbatim>\<open>%lu\<close> stores for a number that does not
  fit is the parameter \<open>big\<close>.
\<close>

definition scan_s :: "nat \<Rightarrow> bytes \<Rightarrow> (bytes \<times> bytes) option" where
  "scan_s n v =
     (let s = dropWhile isspace v; w = take n (takeWhile (\<lambda>c. \<not> isspace c) s)
      in if w = [] then None else Some (w, drop (length w) s))"

definition scan_lu :: "(int \<Rightarrow> u32) \<Rightarrow> bytes \<Rightarrow> u32 option" where
  "scan_lu big v =
     (let (n, rest) = strtol10 v
      in if length rest = length v then None else if \<bar>n\<bar> < 2 ^ 32 then Some (of_int n) else Some (big n))"

definition scan_size_line :: "(int \<Rightarrow> u32) \<Rightarrow> bytes \<Rightarrow> (bytes \<times> bytes \<times> u32) option" where
  "scan_size_line big line =
     (case scan_s 44 line of None \<Rightarrow> None
      | Some (dsn, r) \<Rightarrow> (case scan_s 8 r of None \<Rightarrow> None
          | Some (m, r') \<Rightarrow> map_option (\<lambda>n. (dsn, m, n)) (scan_lu big r')))"

text \<open>The lines are the pieces that \<^verbatim>\<open>fgets\<close> delivers.\<close>

fun size_lines :: "(int \<Rightarrow> u32) \<Rightarrow> int \<Rightarrow> bytes list \<Rightarrow> int \<times> fsz_state \<Rightarrow> int \<times> fsz_state" where
  "size_lines big now [] (n, c) = (n, c)"
| "size_lines big now (line # lines) (n, c) =
     (if line \<noteq> [] \<and> hd line = ch_hash then size_lines big now lines (n, c)
      else case scan_size_line big line of
        None \<Rightarrow> size_lines big now lines (n, c)
      | Some (dsn, m, sz) \<Rightarrow> size_lines big now lines (n + 1, mvsfsz_put now dsn m (ucast sz) 0 0 0 0 c))"

definition mvsfsz_load :: "(int \<Rightarrow> u32) \<Rightarrow> int \<Rightarrow> bytes list option \<Rightarrow> fsz_state \<Rightarrow> int \<times> fsz_state" where
  "mvsfsz_load big now file c = (case file of None \<Rightarrow> (-1, c) | Some lines \<Rightarrow> size_lines big now lines (0, c))"

section \<open>Names and attributes\<close>

definition valid_chars :: bytes where
  "valid_chars = ebc ''ABCDEFGHIJKLMNOPQRSTUVWXYZ0123456789@#$''"

definition name_to_ebcdic_member :: "bytes \<Rightarrow> bytes option" where
  "name_to_ebcdic_member name =
     (if name = [] \<or> 8 < length name then None
      else if list_all (\<lambda>c. toupper c \<in> set valid_chars) name
      then Some (map (\<lambda>c. ascii_to_ebcdic_c (toupper c)) name @ replicate (8 - length name) 0x40)
      else None)"

record mvs_dcb_info_t =
  dcb_dsorg :: u8
  dcb_recfm :: u8
  dcb_keylen :: u8
  dcb_lrecl :: u16
  dcb_blksize :: u16

text \<open>Opening a data set by name and asking for its attributes are parameters.\<close>

definition mvs_get_dcb_info_dsn :: "(bytes \<Rightarrow> 'f option) \<Rightarrow> ('f \<Rightarrow> int \<times> mvs_dcb_info_t) \<Rightarrow> bytes \<Rightarrow> mvs_dcb_info_t \<Rightarrow> int \<times> mvs_dcb_info_t" where
  "mvs_get_dcb_info_dsn open_file getdcb dsname dcb =
     (case open_file (ebc ''//DSN:'' @ dsname) of None \<Rightarrow> (-1, dcb) | Some fh \<Rightarrow> getdcb fh)"

section \<open>The Init section and the operator\<close>

lemma init_line_thresholds:
  "thresholds (cfg_do_init_line now p s) = thresholds (snd (log_handle_modify now (Some p) s))"
  by (simp add: cfg_do_init_line_def thresholds_def logmsg_warn_def logmsg_debug_def vlog_msg_def Let_def split: prod.splits)

text \<open>On the table the loop is the one that \<^const>\<open>exports_load\<close> runs.\<close>

lemma config_lines_exports: "fst (config_lines now lines sect (st, s)) = exports_load_lines lines sect st"
  by (induction lines arbitrary: sect st s)
    (auto simp: cfg_enter_section_def Let_def split: option.splits cfg_section.splits)

text \<open>What a command does to the thresholds depends on the thresholds alone.\<close>

lemma fst_pair_if: "(if b then (x, s) else (x, t)) = (x, if b then s else t)" by simp

lemma loglvl_cong:
  "thresholds s = thresholds t \<Longrightarrow> thresholds (snd (handle_set_loglvl now p s)) = thresholds (snd (handle_set_loglvl now p t))"
  by (auto simp: handle_set_loglvl_def Let_def split: option.splits list.splits prod.splits)
    (auto simp: thresholds_def log_set_level_def log_proc_set_level_def)

lemma wtolvl_cong:
  "thresholds s = thresholds t \<Longrightarrow> thresholds (snd (handle_set_wtolvl now p s)) = thresholds (snd (handle_set_wtolvl now p t))"
  by (auto simp: handle_set_wtolvl_def Let_def split: option.splits prod.splits)
    (auto simp: thresholds_def log_set_wto_level_def)

lemma modify_cong:
  "thresholds s = thresholds t \<Longrightarrow> thresholds (snd (log_handle_modify now c s)) = thresholds (snd (log_handle_modify now c t))"
  using loglvl_cong [of s t now] wtolvl_cong [of s t now] by (auto simp: log_handle_modify_def split: option.splits prod.splits)

lemma init_fold_thresholds:
  "thresholds s = thresholds t \<Longrightarrow>
   thresholds (fold (cfg_do_init_line now) ps s) = thresholds (fold (\<lambda>p s. snd (log_handle_modify now (Some p) s)) ps t)"
proof (induction ps arbitrary: s t)
  case (Cons p ps)
  have "thresholds (cfg_do_init_line now p s) = thresholds (snd (log_handle_modify now (Some p) t))"
    using modify_cong [OF Cons.prems] by (simp add: init_line_thresholds)
  from Cons.IH [OF this] show ?case by simp
qed simp

text \<open>
  A configuration as it is written. A line of a section is blanks, a command and the end of the
  line; a line without a command, or with a comment in its place, carries nothing. A section is a
  header and its lines; there may be blanks around the name of the header and any text behind its
  bracket. Lines before the first header belong to the exports.
\<close>

record cfg_line =
  line_blanks :: bytes
  line_command :: bytes
  line_end :: bytes

record cfg_part =
  part_before :: bytes
  part_inner1 :: bytes
  part_name :: bytes
  part_inner2 :: bytes
  part_after :: bytes
  part_body :: "cfg_line list"

definition line_text :: "cfg_line \<Rightarrow> bytes" where
  "line_text l = line_blanks l @ line_command l @ line_end l"

definition header_text :: "cfg_part \<Rightarrow> bytes" where
  "header_text x = part_before x @ [CFG_SECT_OPEN] @ part_inner1 x @ part_name x @ part_inner2 x @ [CFG_SECT_CLOSE] @ part_after x"

definition part_text :: "cfg_part \<Rightarrow> bytes list" where
  "part_text x = header_text x # map line_text (part_body x)"

definition carries :: "bytes \<Rightarrow> bool" where
  "carries c \<longleftrightarrow> c \<noteq> [] \<and> hd c \<noteq> ch_hash"

definition body_commands :: "cfg_line list \<Rightarrow> bytes list" where
  "body_commands ls = filter carries (map line_command ls)"

definition plain_line :: "cfg_line \<Rightarrow> bool" where
  "plain_line l \<longleftrightarrow> list_all isspace (line_blanks l) \<and> list_all (\<lambda>c. c = ch_nl \<or> c = ch_cr) (line_end l) \<and>
     (line_command l \<noteq> [] \<longrightarrow>
        \<not> isspace (hd (line_command l)) \<and> hd (line_command l) \<noteq> CFG_SECT_OPEN \<and> last (line_command l) \<noteq> ch_nl \<and> last (line_command l) \<noteq> ch_cr)"

definition plain_part :: "cfg_part \<Rightarrow> bool" where
  "plain_part x \<longleftrightarrow> list_all isspace (part_before x) \<and> list_all isspace (part_inner1 x) \<and> list_all isspace (part_inner2 x) \<and>
     0 \<notin> set (part_name x) \<and> CFG_SECT_CLOSE \<notin> set (part_name x) \<and>
     (part_name x \<noteq> [] \<longrightarrow> \<not> isspace (hd (part_name x)) \<and> \<not> isspace (last (part_name x))) \<and> list_all plain_line (part_body x)"

definition part_is :: "string \<Rightarrow> cfg_part \<Rightarrow> bool" where
  "part_is nm x \<longleftrightarrow> map toupper (part_name x) = ebc nm"

text \<open>What a header does to a block that is still open, and what a section does to the export table.\<close>

definition close_block :: "exports_state \<Rightarrow> exports_state" where
  "close_block st = (if g_blk_open st then (cfg_fail_export (g_blk_exp_idx st) st)\<lparr>g_blk_open := False\<rparr> else st)"

definition part_exports :: "cfg_part \<Rightarrow> exports_state \<Rightarrow> exports_state" where
  "part_exports x st = (if part_is ''EXPORTS'' x then fold cfg_do_export_line (body_commands (part_body x)) (close_block st) else close_block st)"

lemma dropWhile_blanks: "list_all P b \<Longrightarrow> dropWhile P (b @ c) = dropWhile P c"
  by (induction b) auto

lemma dropWhile_rev_end: "list_all P e \<Longrightarrow> dropWhile P (rev (c @ e)) = dropWhile P (rev c)"
  by (simp add: dropWhile_blanks list_all_iff)

lemma strip_written:
  assumes "plain_line l"
  shows "cfg_strip_line (line_text l) = (if carries (line_command l) then Some (line_command l) else None)"
proof (cases "line_command l = []")
  case True
  have "dropWhile isspace (rev (dropWhile (\<lambda>c. c = ch_nl \<or> c = ch_cr) (rev (line_blanks l)))) = []"
    using assms set_dropWhileD [of _ _ "rev (line_blanks l)"] by (fastforce simp: plain_line_def list_all_iff dropWhile_eq_Nil_conv)
  then show ?thesis using True assms by (simp add: cfg_strip_line_def carries_def line_text_def plain_line_def dropWhile_rev_end Let_def del: rev_append dropWhile_eq_Nil_conv)
next
  case False
  let ?s = "line_blanks l @ line_command l"
  have "dropWhile (\<lambda>c. c = ch_nl \<or> c = ch_cr) (rev (line_text l)) = dropWhile (\<lambda>c. c = ch_nl \<or> c = ch_cr) (rev ?s)"
    using assms dropWhile_rev_end [of _ "line_end l" ?s] by (simp add: plain_line_def line_text_def)
  also have "\<dots> = rev ?s" using False assms by (cases "line_command l" rule: rev_cases) (auto simp: plain_line_def)
  finally have "dropWhile isspace (rev (dropWhile (\<lambda>c. c = ch_nl \<or> c = ch_cr) (rev (line_text l)))) = line_command l"
    using False assms by (cases "line_command l") (auto simp: plain_line_def dropWhile_blanks)
  then show ?thesis using False by (cases "line_command l") (auto simp: cfg_strip_line_def carries_def Let_def)
qed

lemma plain_brackets:
  "\<not> isspace CFG_SECT_OPEN" "\<not> isspace CFG_SECT_CLOSE" "CFG_SECT_OPEN \<noteq> CFG_SECT_CLOSE" "CFG_SECT_OPEN \<noteq> ch_hash" "CFG_SECT_CLOSE \<noteq> ch_nl" "CFG_SECT_CLOSE \<noteq> ch_cr"
  by (simp_all add: CFG_SECT_OPEN_def CFG_SECT_CLOSE_def isspace_def ch_hash_def ch_nl_def ch_cr_def)

lemma stricmp_0: "0 \<notin> set a \<Longrightarrow> 0 \<notin> set b \<Longrightarrow> cfg_stricmp a b = 0 \<longleftrightarrow> map toupper a = map toupper b"
  by (induction a b rule: cfg_stricmp.induct) (auto simp: unsigned_eq_0_iff dest: unsigned_word_eqI)

lemma header_stripped:
  assumes "plain_part x"
  shows "\<exists>t. cfg_strip_line (header_text x) = Some ([CFG_SECT_OPEN] @ part_inner1 x @ part_name x @ part_inner2 x @ [CFG_SECT_CLOSE] @ t)"
proof -
  let ?P = "\<lambda>c. c = ch_nl \<or> c = ch_cr"
  let ?s = "part_before x @ [CFG_SECT_OPEN] @ part_inner1 x @ part_name x @ part_inner2 x @ [CFG_SECT_CLOSE]"
  have "\<exists>t. rev (dropWhile ?P (rev (?s @ e))) = ?s @ t" for e
  proof (induction e rule: rev_induct)
    case (snoc c e)
    then show ?case by (cases "?P c") auto
  qed (use plain_brackets in simp)
  from this [of "part_after x"] obtain t where t: "rev (dropWhile ?P (rev (header_text x))) = ?s @ t" by (auto simp: header_text_def)
  show ?thesis using assms plain_brackets
    unfolding cfg_strip_line_def Let_def t by (auto simp: plain_part_def dropWhile_blanks)
qed

lemma header_parsed:
  assumes "plain_part x"
  shows "cfg_parse_section ([CFG_SECT_OPEN] @ part_inner1 x @ part_name x @ part_inner2 x @ [CFG_SECT_CLOSE] @ t) =
    (if part_is ''INIT'' x then CFG_SECT_INIT else if part_is ''EXPORTS'' x then CFG_SECT_EXPORTS else CFG_SECT_UNKNOWN)"
proof -
  let ?n = "part_inner1 x @ part_name x @ part_inner2 x"
  have "CFG_SECT_CLOSE \<notin> set ?n" using assms plain_brackets(2) by (auto simp: plain_part_def list_all_iff)
  then have "takeWhile (\<lambda>c. c \<noteq> CFG_SECT_CLOSE) (?n @ CFG_SECT_CLOSE # t) = ?n" by (subst takeWhile_append2) auto
  moreover have "rev (dropWhile isspace (rev (dropWhile isspace ?n))) = part_name x"
  proof (cases "part_name x = []")
    case True
    then show ?thesis using assms by (auto simp: plain_part_def dropWhile_blanks list_all_iff dest: set_dropWhileD)
  next
    case False
    then have "dropWhile isspace ?n = part_name x @ part_inner2 x" using assms by (cases "part_name x") (auto simp: plain_part_def dropWhile_blanks)
    moreover have "dropWhile isspace (rev (part_name x)) = rev (part_name x)" using False assms by (cases "part_name x" rule: rev_cases) (auto simp: plain_part_def)
    ultimately show ?thesis using assms dropWhile_rev_end [of isspace "part_inner2 x" "part_name x"] by (simp add: plain_part_def)
  qed
  moreover have "0 \<notin> set (ebc ''INIT'')" "0 \<notin> set (ebc ''EXPORTS'')" "map toupper (ebc ''INIT'') = ebc ''INIT''" "map toupper (ebc ''EXPORTS'') = ebc ''EXPORTS''"
    by code_simp+
  ultimately show ?thesis
    using assms plain_brackets(3) by (simp add: cfg_parse_section_def cfg_section_id_def stricmp_0 plain_part_def part_is_def)
qed

lemma init_not_exports: "ebc ''INIT'' \<noteq> ebc ''EXPORTS''" by code_simp

lemma body_read:
  assumes "list_all plain_line ls"
  shows "config_lines now (map line_text ls @ rest) sect (st, s) =
    config_lines now rest sect
      (if sect = CFG_SECT_EXPORTS then fold cfg_do_export_line (body_commands ls) st else st,
       if sect = CFG_SECT_INIT then fold (cfg_do_init_line now) (body_commands ls) s else s)"
  using assms
proof (induction ls arbitrary: st s)
  case (Cons l ls)
  then have "carries (line_command l) \<Longrightarrow> hd (line_command l) \<noteq> CFG_SECT_OPEN" by (simp add: plain_line_def carries_def)
  then show ?case using Cons strip_written [of l] by (cases sect) (auto simp: body_commands_def)
qed (simp add: body_commands_def)

lemma part_read:
  assumes "plain_part x"
  shows "\<exists>sect'. config_lines now (part_text x @ rest) sect (st, s) =
    config_lines now rest sect' (part_exports x st, if part_is ''INIT'' x then fold (cfg_do_init_line now) (body_commands (part_body x)) s else s)"
proof -
  obtain t where t: "cfg_strip_line (header_text x) = Some ([CFG_SECT_OPEN] @ part_inner1 x @ part_name x @ part_inner2 x @ [CFG_SECT_CLOSE] @ t)"
    using header_stripped [OF assms] by blast
  have "\<not> (part_is ''INIT'' x \<and> part_is ''EXPORTS'' x)" unfolding part_is_def by (metis init_not_exports)
  then show ?thesis using t header_parsed [OF assms, of t] body_read [of "part_body x" now rest] assms
    by (auto simp: part_text_def cfg_enter_section_def close_block_def part_exports_def plain_part_def Let_def)
qed

lemma parts_read:
  "list_all plain_part xs \<Longrightarrow> config_lines now (concat (map part_text xs)) sect (st, s) =
    (fold part_exports xs st, fold (cfg_do_init_line now) (concat (map (body_commands \<circ> part_body) (filter (part_is ''INIT'') xs))) s)"
proof (induction xs arbitrary: sect st s)
  case (Cons x xs)
  then have x: "plain_part x" by simp
  show ?case using part_read [OF x, of now "concat (map part_text xs)" sect st s] Cons by auto
qed simp

text \<open>
  C33. A configuration does what its sections say, and the Init section works like the operator's
  console. Take any configuration, written as lines and sections with blanks, comments and line
  ends as the writer likes. The lines before the first header and those of the sections named
  Exports, in any case, are given to the parser of exports in their order; every header first fails
  a block that is still open; the lines of all other sections leave the table alone. The log ends
  with the thresholds that the commands of the sections named Init, and of no other, set when they
  are given one after the other as modify commands.
\<close>
theorem init_section_commands:
  assumes "list_all plain_line ls" and "list_all plain_part xs"
  shows "let (st', s') = config_lines now (map line_text ls @ concat (map part_text xs)) CFG_SECT_EXPORTS (st, s)
   in st' = fold part_exports xs (fold cfg_do_export_line (body_commands ls) st) \<and>
      thresholds s' = thresholds (fold (\<lambda>c s. snd (log_handle_modify now (Some c) s))
        (concat (map (body_commands \<circ> part_body) (filter (part_is ''INIT'') xs))) s)"
  using assms by (simp add: body_read parts_read init_fold_thresholds)

text \<open>
  Three sections with a comment and blanks: the Init section, its name in mixed case, sets the
  threshold of the log stream; the same command in a section of another name does nothing; the
  exports make one export.
\<close>

definition written_line :: "string \<Rightarrow> cfg_line" where
  "written_line c = \<lparr>line_blanks = [ch_space], line_command = ebc c, line_end = [ch_cr, ch_nl]\<rparr>"

definition written_part :: "string \<Rightarrow> string list \<Rightarrow> cfg_part" where
  "written_part nm cs = \<lparr>part_before = [], part_inner1 = [ch_space], part_name = ebc nm, part_inner2 = [ch_space],
     part_after = ebc ''.'' @ [ch_nl], part_body = map written_line cs\<rparr>"

definition sample_config :: "cfg_part list" where
  "sample_config = [written_part ''Init'' [''# noise'', ''set loglvl error''], written_part ''Other'' [''set loglvl debug''],
     written_part ''exports'' [''/a SYS1.A'']]"

theorem init_section_commands_witness:
  "let (st', s') = config_lines 7 (concat (map part_text sample_config)) CFG_SECT_EXPORTS (exports_init, log_start)
   in map export_path_ebcdic (g_exports st') = [ebc ''/a''] \<and> thresholds s' = (LOG_ERROR, LOG_INFO, g_proc_level log_start)"
proof -
  have p: "list_all plain_line []" "list_all plain_part sample_config" by code_simp+
  have "map export_path_ebcdic (g_exports (fold part_exports sample_config exports_init)) = [ebc ''/a'']" by code_simp
  moreover have "thresholds (fold (\<lambda>c s. snd (log_handle_modify 7 (Some c) s))
      (concat (map (body_commands \<circ> part_body) (filter (part_is ''INIT'') sample_config))) log_start) = (LOG_ERROR, LOG_INFO, g_proc_level log_start)"
    by code_simp
  ultimately show ?thesis using init_section_commands [OF p, of 7 exports_init log_start] by (simp add: body_commands_def split: prod.splits)
qed

section \<open>A loaded size is never believed\<close>

lemma put_known:
  assumes inv: "fsz_inv c" and f: "find_entry dsn m c = Some i" and l: "length dsn \<le> 44" "length m \<le> 8"
    and x: "x = \<lparr>in_use = True, fz_last_used = now, fz_entry = fill_entry dsn m sz tt r isz mt\<rparr>"
  shows "fsz_inv (mvsfsz_put now dsn m sz tt r isz mt c) \<and> g_cache (mvsfsz_put now dsn m sz tt r isz mt c) = (g_cache c)[i := x]"
proof -
  have i: "i < length (g_cache c)" "slot_is dsn m (g_cache c ! i)" using find_entry_Some [OF f] by auto
  have n: "slot_name x = slot_name (g_cache c ! i)" "in_use x" "in_use (g_cache c ! i)"
    using i(2) l by (simp_all add: x slot_name_def slot_is_def fill_entry_def MVSFSZ_DSNAME_LEN_def MVSFSZ_MEMBER_LEN_def)
  have c: "mvsfsz_put now dsn m sz tt r isz mt c = c\<lparr>g_cache := (g_cache c)[i := x]\<rparr>" by (simp add: mvsfsz_put_def f x)
  have "fsz_inv (c\<lparr>g_cache := (g_cache c)[i := x]\<rparr>)"
    using inv i(1) n by (auto simp: fsz_inv_def filter_update_length nth_list_update)
  then show ?thesis by (simp add: c)
qed

text \<open>The sizes kept are those of the members, except under the stamp of loaded entries.\<close>

definition fsz_truth_but :: "(member_key \<Rightarrow> int \<times> int \<times> u16 \<times> u8 \<Rightarrow> u64) \<Rightarrow> fsz_state \<Rightarrow> bool" where
  "fsz_truth_but sz c \<longleftrightarrow> (\<forall>x \<in> set (g_cache c). in_use x \<longrightarrow> stamp_of (fz_entry x) \<noteq> (0, 0, 0, 0) \<longrightarrow>
     file_size (fz_entry x) = sz (slot_name x) (stamp_of (fz_entry x)))"

lemma put_loaded:
  assumes "fsz_inv c" and "fsz_truth_but sz c" and "length dsn \<le> 44" and "length m \<le> 8"
  shows "fsz_inv (mvsfsz_put now dsn m n 0 0 0 0 c) \<and> fsz_truth_but sz (mvsfsz_put now dsn m n 0 0 0 0 c)"
proof -
  let ?x = "\<lparr>in_use = True, fz_last_used = now, fz_entry = fill_entry dsn m n 0 0 0 0\<rparr>"
  obtain i where p: "fsz_inv (mvsfsz_put now dsn m n 0 0 0 0 c)" "g_cache (mvsfsz_put now dsn m n 0 0 0 0 c) = (g_cache c)[i := ?x]"
    using put_fresh [OF assms(1) _ assms(3,4) refl] put_known [OF assms(1) _ assms(3,4) refl] by (cases "find_entry dsn m c") blast+
  have "stamp_of (fz_entry ?x) = (0, 0, 0, 0)" by (simp add: stamp_of_def fill_entry_def)
  then have "fsz_truth_but sz (mvsfsz_put now dsn m n 0 0 0 0 c)"
    using assms(2) set_update_subset_insert [of "g_cache c" i ?x] unfolding fsz_truth_but_def p(2) by blast
  then show ?thesis using p(1) by blast
qed

lemma scan_size_lengths: "scan_size_line big line = Some (dsn, m, n) \<Longrightarrow> length dsn \<le> 44 \<and> length m \<le> 8"
  by (auto simp: scan_size_line_def scan_s_def Let_def split: option.splits if_splits)

lemma size_lines_ok:
  "fsz_inv c \<Longrightarrow> fsz_truth_but sz c \<Longrightarrow> fsz_inv (snd (size_lines big now lines (n, c))) \<and> fsz_truth_but sz (snd (size_lines big now lines (n, c)))"
proof (induction lines arbitrary: n c)
  case (Cons line lines)
  show ?case
  proof (cases "scan_size_line big line")
    case (Some t)
    obtain dsn m k where t: "t = (dsn, m, k)" by (cases t)
    show ?thesis using Cons.IH Cons.prems put_loaded [OF Cons.prems, of dsn m] scan_size_lengths [of big line dsn m k] Some t by simp
  qed (use Cons in simp)
qed simp

lemma truth_but_extends:
  assumes "fsz_inv c" and "fsz_truth_but sz c"
  shows "fsz_truth (\<lambda>k st. if st = (0, 0, 0, 0) then (case mvsfsz_get (fst k) (snd k) c of Some x \<Rightarrow> file_size x | None \<Rightarrow> 0) else sz k st) c"
proof -
  have "mvsfsz_get (fst (slot_name x)) (snd (slot_name x)) c = Some (fz_entry x)" if "x \<in> set (g_cache c)" "in_use x" for x
    using that get_after [OF assms(1)] by (auto simp: in_set_conv_nth slot_is_def slot_name_def)
  then show ?thesis using assms(2) by (auto simp: fsz_truth_def fsz_truth_but_def)
qed

text \<open>
  C29. A size that was loaded from a file is never believed. Whatever the file holds, and whatever
  the lines that do not parse, the table stays in order, and the size answered for a member whose
  stamp is not all zero is the length of its text, as without the file.
\<close>
theorem loaded_sizes_harmless:
  assumes "fsz_inv c" and "fsz_truth sz c" and "length dsn \<le> 44" and "length m \<le> 8"
    and "sz (dsn, m) (member_stamp e) = of_nat (length t)" and "member_stamp e \<noteq> (0, 0, 0, 0)"
  shows "let c1 = snd (mvsfsz_load big now0 file c)
    in fsz_inv c1 \<and> fst (mvsfsz_get_member_size now (Some t) dsn m e c1) = Some (of_nat (length t))"
proof -
  let ?c = "snd (mvsfsz_load big now0 file c)"
  have "fsz_truth_but sz c" using assms(2) by (simp add: fsz_truth_def fsz_truth_but_def)
  then have c: "fsz_inv ?c" "fsz_truth_but sz ?c"
    using assms(1) size_lines_ok [of c sz big now0 "the file" 0] by (auto simp: mvsfsz_load_def split: option.splits)
  show ?thesis using size_cache_ok [OF c(1) truth_but_extends [OF c] assms(3,4), of e t now] assms(5,6) c(1) by fastforce
qed

theorem loaded_sizes_harmless_witness:
  "let c1 = snd (mvsfsz_load (\<lambda>_. 0) 5 (Some [ebc ''A B 17'', ebc ''# a comment'', ebc ''A'']) mvsfsz_init)
   in fst (mvsfsz_load (\<lambda>_. 0) 5 (Some [ebc ''A B 17'', ebc ''# a comment'', ebc ''A'']) mvsfsz_init) = 1 \<and>
     fst (mvsfsz_get_member_size 7 (Some [0xC1, 0x15]) [0xC1] [0xC2] (mvs_pds_member_entry_init\<lparr>first_block_rec := 1\<rparr>) c1) = Some 2"
proof -
  have "fst (mvsfsz_load (\<lambda>_. 0) 5 (Some [ebc ''A B 17'', ebc ''# a comment'', ebc ''A'']) mvsfsz_init) = 1" by code_simp
  then show ?thesis
    using loaded_sizes_harmless [OF init_cache, of "[0xC1]" "[0xC2]" "\<lambda>_ _. 2" "mvs_pds_member_entry_init\<lparr>first_block_rec := 1\<rparr>" "[0xC1, 0x15]"
        "\<lambda>_. 0" 5 "Some [ebc ''A B 17'', ebc ''# a comment'', ebc ''A'']" 7]
    by (simp add: member_stamp_def Let_def)
qed

section \<open>The reverse name conversion does not work under EBCDIC\<close>

text \<open>
  The characters that are valid are those of the compiler's code page, the name is in ASCII: a
  name with an ASCII letter, digit or one of the three national characters is always refused.
\<close>

lemma ascii_name_refused:
  assumes "c \<in> set name" and "0x30 \<le> c \<and> c \<le> 0x39 \<or> 0x40 \<le> c \<and> c \<le> 0x5A \<or> 0x61 \<le> c \<and> c \<le> 0x7A \<or> c = 0x23 \<or> c = 0x24"
  shows "name_to_ebcdic_member name = None"
proof -
  let ?v = "\<lambda>c. isupper c \<or> isdigit c \<or> c = ch_at \<or> c = ch_hash \<or> c = ch_dollar"
  have "list_all ?v valid_chars" by code_simp
  moreover have "list_all (\<lambda>c. (0x30 \<le> c \<and> c \<le> 0x39 \<or> 0x40 \<le> c \<and> c \<le> 0x5A \<or> 0x61 \<le> c \<and> c \<le> 0x7A \<or> c = 0x23 \<or> c = 0x24) \<longrightarrow>
      \<not> ?v (toupper c)) all_bytes" by code_simp
  ultimately have "toupper c \<notin> set valid_chars" using all_u8I assms(2) unfolding list_all_iff by blast
  then show ?thesis using assms(1) by (auto simp: name_to_ebcdic_member_def list_all_iff)
qed

end
