(* ===== verification/Spec2Isabelle.thy ===== *)
theory Spec2Isabelle
  imports Srvinv Operator Mlist Hexdump Mockvfs Mvsutl Pwwstat Startcfg
begin

text \<open>
  Verification of the NFS version 3 server for MVS 3.8J.

  \<^bold>\<open>The program.\<close> A single-threaded server, \<^verbatim>\<open>src/src/nfsd.c\<close>, waits for three listening sockets
  and at most sixteen connections. A connection delivers one RPC call at a time
  (\<^verbatim>\<open>rpc.c\<close>, \<^verbatim>\<open>xdr.c\<close>); the call goes to the port mapper (\<^verbatim>\<open>portmap.c\<close>), the mount protocol
  (\<^verbatim>\<open>mount3.c\<close>) or the NFS procedures (\<^verbatim>\<open>nfs3.c\<close>), whose reply is sent back as one record.
  The NFS procedures turn file handles into paths (\<^verbatim>\<open>fhandle.c\<close>, \<^verbatim>\<open>mvsfid.c\<close>) below the exports
  of the configuration (\<^verbatim>\<open>exports.c\<close>, \<^verbatim>\<open>cfgopts.c\<close>) and call a file-system interface
  (\<^verbatim>\<open>mvsvfs.c\<close>) in which a partitioned data set is a directory and a member is a text file.
  Members are read through remembered positions (\<^verbatim>\<open>mvsprw.c\<close>) and a cache of sizes
  (\<^verbatim>\<open>mvsfsz.c\<close>), directories through a list of open directories (\<^verbatim>\<open>mvsdol.c\<close>, \<^verbatim>\<open>mvspdir.c\<close>).
  Written data are first kept in a pool of eight pending members (\<^verbatim>\<open>mvspww.c\<close>), in memory or
  in a scratch file (\<^verbatim>\<open>mvsspl.c\<close>); a write is admitted only when the predicted blocks fit the data
  set (\<^verbatim>\<open>mvsblkc.c\<close>), and a member is written to its data set when the client commits it, when
  it was idle, or when the server ends (\<^verbatim>\<open>mvspwfl.c\<close>). Between two passes the loop takes an
  operator command and writes idle members out.

  \<^bold>\<open>Which theory models what.\<close> Every theory opens with the source file it translates; a definition
  has the name of its C function.

  \<^item> \<^verbatim>\<open>Nfsd_Prelude\<close>, \<^verbatim>\<open>Slotpool\<close>, \<^verbatim>\<open>Format\<close>: fixed-width integers, big-endian words, lists and
    options; the contract of the fixed pools; the conversions of \<^verbatim>\<open>printf\<close>.
  \<^item> \<^verbatim>\<open>Xdr\<close>, \<^verbatim>\<open>Rpc\<close>, \<^verbatim>\<open>Reply\<close>: a cursor over a byte buffer; sockets as scripts of what they deliver and
    accept; records, calls and reply headers. \<^verbatim>\<open>Reply\<close> is the calculus in which the handlers' replies
    are described.
  \<^item> \<^verbatim>\<open>Ebcdic\<close>, \<^verbatim>\<open>Fid\<close>, \<^verbatim>\<open>Nfserr\<close>, \<^verbatim>\<open>Cfgopts\<close>, \<^verbatim>\<open>Exports\<close>, \<^verbatim>\<open>Mvsio\<close>, \<^verbatim>\<open>Fhandle\<close>, \<^verbatim>\<open>Startcfg\<close>: code pages, file
    numbers, status codes, the configuration with both its sections, paths, names and handles.
  \<^item> \<^verbatim>\<open>Blkcalc\<close>, \<^verbatim>\<open>Admit\<close>: counting of blocks, track capacities, admission of a write.
  \<^item> \<^verbatim>\<open>Spill\<close>, \<^verbatim>\<open>Pending\<close>, \<^verbatim>\<open>Flush\<close>, \<^verbatim>\<open>Pww\<close>, \<^verbatim>\<open>Poolprop\<close>, \<^verbatim>\<open>Pwwstat\<close>: the scratch file, one slot, the
    flush, the pool, its runs and its measurements.
  \<^item> \<^verbatim>\<open>Pdir\<close>, \<^verbatim>\<open>Pdirlook\<close>, \<^verbatim>\<open>Mlist\<close>, \<^verbatim>\<open>Dol\<close>, \<^verbatim>\<open>Fsz\<close>, \<^verbatim>\<open>Prw\<close>: directory blocks and ISPF statistics, the lookup,
    the growing array of members, open directories, sizes and reads.
  \<^item> \<^verbatim>\<open>Vfs\<close>, \<^verbatim>\<open>Vfsprop\<close>: the file-system interface over all of these. \<^verbatim>\<open>Mockvfs\<close>: the stand-in for it.
    \<^verbatim>\<open>Vfsinv\<close>: what every operation of the interface keeps, every call keeps.
  \<^item> \<^verbatim>\<open>Portmap\<close>, \<^verbatim>\<open>Mount3\<close>, \<^verbatim>\<open>Nfs3\<close>, \<^verbatim>\<open>Nfs3wire\<close>, \<^verbatim>\<open>Nfs3prop\<close>, \<^verbatim>\<open>Nfs3list\<close>, \<^verbatim>\<open>Orderly\<close>: the three programs,
    from the bytes of a call to the bytes of its reply; directories in order, on which listings end.
  \<^item> \<^verbatim>\<open>Nfsd\<close>, \<^verbatim>\<open>Service\<close>, \<^verbatim>\<open>Srvinv\<close>, \<^verbatim>\<open>Operator\<close>: command line, connections, one pass of the loop, the
    whole run, the operator's commands and the scope of one call.
  \<^item> \<^verbatim>\<open>Logger\<close>, \<^verbatim>\<open>Perf\<close>, \<^verbatim>\<open>Hexdump\<close>, \<^verbatim>\<open>Mvsutl\<close>: log, statistics, hexadecimal dump, control blocks.

  \<^bold>\<open>State and environment.\<close> The static variables of a file are a record and its functions take and
  return it: \<^verbatim>\<open>pww_state\<close> inside \<^verbatim>\<open>vfs_state\<close> inside \<^verbatim>\<open>nfs_state\<close> inside \<^verbatim>\<open>server\<close>; \<^verbatim>\<open>log_state\<close> and the list
  of statistics stand beside them in \<^verbatim>\<open>Operator\<close>. The build is the one for MVS: characters
  in the source are EBCDIC, a C string is its bytes before the zero. A failing function returns
  its error number in a sum or an option. Code that is not in the repository's C
  files is a parameter: the volume table of contents, enqueue, allocation, directory update and
  member output take their outcomes from a script in the state, so every order of failures
  is covered; text-mode reading of a member is a function of the environment; the time is one
  value per call; a buffer on the stack that the code does not initialise is a parameter.
  Sockets, select and the console are one environment record per pass.

  \<^bold>\<open>What is shown.\<close>

  \<^item> \<^emph>\<open>Whole server\<close>: the invariant of every reachable state, for any clients and any system
    answers; while the directories of the system are in order every pass returns, the operator's
    stop ends the loop and leaves nothing pending and, when nothing fails, all data in the library;
    every ready connection is served once; a well-formed call is answered by one record with its
    identifier.
  \<^item> \<^emph>\<open>Protocol\<close>: every procedure answers in form and inside its buffer; an accepted WRITE is what a
    READ replies, from bytes to bytes; rights never exceed what was asked or what can be done; pages
    of a listing, of a loaded or a freshly opened directory or of an export's root, end, make progress,
    hold every entry once and say truly when they are done; a mounted path is found again and no
    other can be mounted.
  \<^item> \<^emph>\<open>Wire\<close>: decoders stay inside their buffer; encoders append; records are reassembled from any
    fragments and any split of the stream.
  \<^item> \<^emph>\<open>Members\<close>: a slot and its scratch file refine a byte string; a commit stores exactly that in
    the library; an admitted member fits the space that is left, and all pending members together do
    when the data set can take no further extent (with secondary space they may not:
    \<^verbatim>\<open>secondary_space_overbooked\<close>); counts of blocks are exact for both record formats; lookups, listings, reads and sizes agree with the directory and the member
    whatever is cached; statistics survive their encoding; a read-only data set is not changed.
  \<^item> \<^emph>\<open>Configuration and diagnostics\<close>: a loaded table is in order; every section of a configuration does what its
    name says, and the Init section acts like the operator; log records keep to their limit and lose nothing but what exceeds the message buffer; a
    dump shows every byte.
  \<^item> \<^emph>\<open>Deviations\<close>: theorems that show a behaviour the code does not mean to have (a truncate whose bytes
    come back, a wrapped length that is accepted, truncated data that keep the old buffer, a REMOVE
    that acts on a stale name, a resumed listing that hides members).

  \<^bold>\<open>Interfaces.\<close> \<^verbatim>\<open>slot_pool\<close> is the contract of picking an array element for reuse, interpreted on open
  directories, read positions, sizes and the ring of recent flushes; \<^verbatim>\<open>growable\<close> that
  of a container that accepts an element or stays as it is, interpreted on the array of members;
  \<^verbatim>\<open>vfs_invariant\<close> that of a property of the file system that its operations keep, interpreted on the
  locks of the pool and on the order of the directories;
  \<^verbatim>\<open>xdr_emitter\<close> and \<^verbatim>\<open>xdr_decoder\<close> those of encoders and decoders, interpreted on the words of XDR and
  on the reply header. \<^verbatim>\<open>srv_reach\<close> and \<^verbatim>\<open>pww_reach\<close> are the reachable states of the server and of the
  pool, with their invariants by rule induction.

  \<^bold>\<open>Loops and fuel.\<close> All loops are total functions, by structural recursion or a measure, except the
  two that list a directory, which run on the fuel of the call's environment. For READDIR one
  more than the entries that are left is enough. For both, \<^const>\<open>LISTING_FUEL\<close> rounds are enough on every
  directory whose members have proper names in ascending order, as the access method keeps them:
  every round goes on to a greater name, of which there are fewer (\<^verbatim>\<open>Orderly\<close>). A member name with a
  blank inside breaks this and READDIRPLUS runs for ever (\<^verbatim>\<open>blank_name_never_ends\<close>).

  \<^bold>\<open>Not modelled.\<close> The assembler routines behind the parameters; \<^verbatim>\<open>vfs.c\<close>, the interface of a host
  build, of which each function wraps one POSIX call; the socket tools \<^verbatim>\<open>ressock.c\<close> and \<^verbatim>\<open>rxtest.c\<close>;
  \<^verbatim>\<open>make_listen_sock\<close>, which makes a socket or ends the program; the wait of \<^verbatim>\<open>rpc_wait_io\<close>, whose outcome is
  in the socket's script; opening and closing of files where nothing depends on it; the texts of log
  messages, which enter the log functions as they were formatted, and the functions that only format
  such a text (\<^verbatim>\<open>dump_stat_result\<close>, \<^verbatim>\<open>blkc_state_str\<close>, \<^verbatim>\<open>proc_name\<close>, \<^verbatim>\<open>mock_path_for_log\<close>); \<^verbatim>\<open>exports_get_id\<close>,
  which compares addresses; recovery exits for abends, whose effect is a failing outcome.
\<close>

end
